(* ===== verification/Prelude.thy ===== *)
theory Prelude
  imports Main "HOL-Library.Word"
begin

text \<open>
  Shared vocabulary of the development: the machine types of the C sources, byte
  buffers and their little-endian accesses, C strings, and the outcome of code that may
  run into undefined behaviour.  The generic lemmas on lists, words and buffers that the
  component theories share are proved here and collected for the simplifier.

  Conventions.  An unsigned C integer of \<open>w\<close> bits is a \<open>w word\<close>; a C \<open>int\<close> is a
  \<open>32 word\<close> read with \<open>sint\<close> where the code compares it with a sign.  A byte buffer
  is a function from offsets to bytes; every access the code makes beyond the end of a
  buffer is written out as \<open>Undef\<close> in the operation that makes it.  A C string is the
  list of its bytes before the terminating NUL.
\<close>

unbundle bit_operations_syntax

type_synonym u8 = "8 word"
type_synonym u16 = "16 word"
type_synonym u32 = "32 word"
type_synonym u64 = "64 word"
type_synonym c_int = "32 word"
type_synonym bytes = "nat \<Rightarrow> u8"
type_synonym cstr = "u8 list"

named_theorems frame_simps \<open>what an operation leaves unchanged\<close>
named_theorems buf_simps \<open>reads of a buffer after a write\<close>

text \<open>
  The result of code that may access memory out of bounds: \<open>Done\<close> of a value, or
  \<open>Undef\<close> where the C program has undefined behaviour.
\<close>

datatype 'a outcome = Done 'a | Undef

section \<open>Strings\<close>

text \<open>Literals of the source as byte strings.\<close>

definition bytes_of :: "string \<Rightarrow> cstr" where
  "bytes_of s = map of_char s"

lemma bytes_of_simps [simp]:
  "bytes_of [] = []"
  "bytes_of (c # cs) = of_char c # bytes_of cs"
  by (simp_all add: bytes_of_def)

lemma length_bytes_of [simp]: "length (bytes_of s) = length s"
  by (simp add: bytes_of_def)

text \<open>\<open>byte_at s i\<close> is \<open>s[i]\<close> for a NUL-terminated string: the byte, or the NUL at the end.\<close>

definition byte_at :: "cstr \<Rightarrow> nat \<Rightarrow> u8" where
  "byte_at s i = (if i < length s then s ! i else 0)"

lemma byte_at_simps [simp]:
  "byte_at [] i = 0"
  "byte_at (x # xs) 0 = x"
  "byte_at (x # xs) (Suc i) = byte_at xs i"
  by (simp_all add: byte_at_def)

text \<open>A list is a C string when it holds no NUL.\<close>

definition nul_free :: "cstr \<Rightarrow> bool" where
  "nul_free s \<longleftrightarrow> 0 \<notin> set s"

lemma nul_free_simps [simp]:
  "nul_free []"
  "nul_free (x # xs) \<longleftrightarrow> x \<noteq> 0 \<and> nul_free xs"
  "nul_free (xs @ ys) \<longleftrightarrow> nul_free xs \<and> nul_free ys"
  by (auto simp: nul_free_def)

lemma nul_free_take [simp]: "nul_free s \<Longrightarrow> nul_free (take n s)"
  by (auto simp: nul_free_def dest: in_set_takeD)

lemma nul_free_drop [simp]: "nul_free s \<Longrightarrow> nul_free (drop n s)"
  by (auto simp: nul_free_def dest: in_set_dropD)

lemma nul_free_nth: "nul_free s \<Longrightarrow> i < length s \<Longrightarrow> s ! i \<noteq> 0"
  by (metis nul_free_def nth_mem)

section \<open>Byte buffers\<close>

definition blit :: "bytes \<Rightarrow> nat \<Rightarrow> bytes \<Rightarrow> nat \<Rightarrow> nat \<Rightarrow> bytes" where
  "blit dst d src s n = (\<lambda>k. if d \<le> k \<and> k < d + n then src (s + (k - d)) else dst k)"

definition put_list :: "bytes \<Rightarrow> nat \<Rightarrow> u8 list \<Rightarrow> bytes" where
  "put_list b off xs = (\<lambda>k. if off \<le> k \<and> k < off + length xs then xs ! (k - off) else b k)"

definition get_list :: "bytes \<Rightarrow> nat \<Rightarrow> nat \<Rightarrow> u8 list" where
  "get_list b off n = map (\<lambda>i. b (off + i)) [0..<n]"

lemma length_get_list [simp]: "length (get_list b off n) = n"
  by (simp add: get_list_def)

lemma nth_get_list [simp]: "i < n \<Longrightarrow> get_list b off n ! i = b (off + i)"
  by (simp add: get_list_def)

lemma get_put_list [buf_simps]: "get_list (put_list b off xs) off (length xs) = xs"
  by (rule nth_equalityI) (auto simp: put_list_def)

lemma get_put_list_other [buf_simps]:
  "off' + n \<le> off \<or> off + length xs \<le> off' \<Longrightarrow> get_list (put_list b off xs) off' n = get_list b off' n"
  by (rule nth_equalityI) (auto simp: put_list_def)

lemma get_list_0 [simp]: "get_list b off 0 = []"
  by (simp add: get_list_def)

lemma get_list_append: "get_list b off (m + n) = get_list b off m @ get_list b (off + m) n"
  by (rule nth_equalityI) (auto simp: nth_append)

lemma get_list_cong: "(\<And>i. i < n \<Longrightarrow> b (off + i) = b' (off + i)) \<Longrightarrow> get_list b off n = get_list b' off n"
  by (rule nth_equalityI) auto

section \<open>Little-endian accesses\<close>

definition le16 :: "bytes \<Rightarrow> nat \<Rightarrow> u16" where
  "le16 b off = ucast (b off) OR push_bit 8 (ucast (b (off + 1)))"

definition le32 :: "bytes \<Rightarrow> nat \<Rightarrow> u32" where
  "le32 b off = ucast (b off) OR push_bit 8 (ucast (b (off + 1))) OR
     push_bit 16 (ucast (b (off + 2))) OR push_bit 24 (ucast (b (off + 3)))"

definition le64 :: "bytes \<Rightarrow> nat \<Rightarrow> u64" where
  "le64 b off = ucast (le32 b off) OR push_bit 32 (ucast (le32 b (off + 4)))"

definition put16 :: "bytes \<Rightarrow> nat \<Rightarrow> u16 \<Rightarrow> bytes" where
  "put16 b off v = put_list b off [ucast v, ucast (drop_bit 8 v)]"

definition put32 :: "bytes \<Rightarrow> nat \<Rightarrow> u32 \<Rightarrow> bytes" where
  "put32 b off v = put_list b off
     [ucast v, ucast (drop_bit 8 v), ucast (drop_bit 16 v), ucast (drop_bit 24 v)]"

lemma put16_apply [buf_simps]:
  "put16 b off v k = (if k = off then ucast v else if k = off + 1 then ucast (drop_bit 8 v) else b k)"
  by (auto simp: put16_def put_list_def nth_Cons split: nat.splits)

lemma put32_apply [buf_simps]:
  "put32 b off v k = (if k = off then ucast v else if k = off + 1 then ucast (drop_bit 8 v)
     else if k = off + 2 then ucast (drop_bit 16 v)
     else if k = off + 3 then ucast (drop_bit 24 v) else b k)"
proof (cases "off \<le> k \<and> k < off + 4")
  case True
  then obtain j where "k = off + j" and "j < 4" by (metis le_Suc_ex add_less_cancel_left)
  then show ?thesis
    by (auto simp: put32_def put_list_def nth_Cons numeral_eq_Suc less_Suc_eq split: nat.splits)
qed (auto simp: put32_def put_list_def)

lemma le16_put16 [buf_simps]: "le16 (put16 b off v) off = v"
  by (rule bit_word_eqI)
     (auto simp: le16_def put16_apply bit_or_iff bit_push_bit_iff bit_ucast_iff bit_drop_bit_eq)

lemma le32_top_byte: "bit v n \<Longrightarrow> \<not> bit v (24 + (n - 24)) \<Longrightarrow> n - 16 < (8::nat)"
  by (rule ccontr) simp

lemma le32_put32 [buf_simps]: "le32 (put32 b off v) off = v"
  by (rule bit_word_eqI)
     (auto dest: le32_top_byte
        simp: le32_def put32_apply bit_or_iff bit_push_bit_iff bit_ucast_iff bit_drop_bit_eq)

lemma le16_put16_other [buf_simps]:
  "off' + 2 \<le> off \<or> off + 2 \<le> off' \<Longrightarrow> le16 (put16 b off v) off' = le16 b off'"
  by (auto simp: le16_def put16_apply)

lemma le16_put32_other [buf_simps]:
  "off' + 2 \<le> off \<or> off + 4 \<le> off' \<Longrightarrow> le16 (put32 b off v) off' = le16 b off'"
  by (auto simp: le16_def put32_apply)

lemma le32_put16_other [buf_simps]:
  "off' + 4 \<le> off \<or> off + 2 \<le> off' \<Longrightarrow> le32 (put16 b off v) off' = le32 b off'"
  by (auto simp: le32_def put16_apply)

lemma le32_put32_other [buf_simps]:
  "off' + 4 \<le> off \<or> off + 4 \<le> off' \<Longrightarrow> le32 (put32 b off v) off' = le32 b off'"
  by (auto simp: le32_def put32_apply)

lemma le32_cong: "(\<And>j. j < 4 \<Longrightarrow> b (off + j) = b' (off' + j)) \<Longrightarrow> le32 b off = le32 b' off'"
proof -
  assume a: "\<And>j. j < 4 \<Longrightarrow> b (off + j) = b' (off' + j)"
  show ?thesis using a[of 0] a[of 1] a[of 2] a[of 3] by (simp add: le32_def)
qed

section \<open>Words\<close>

lemma unat_lt_two_power: "unat (x :: 'a :: len word) < 2 ^ LENGTH('a)"
  by (rule unsigned_less)

lemma unat_of_nat_small: "n < 2 ^ LENGTH('a) \<Longrightarrow> unat (of_nat n :: 'a :: len word) = n"
  by (simp add: unat_of_nat take_bit_nat_eq_self)

lemma unat_plus_small: "unat (x :: 'a :: len word) + unat y < 2 ^ LENGTH('a) \<Longrightarrow> unat (x + y) = unat x + unat y"
  by (simp add: unat_word_ariths)

lemma unat_mult_small: "unat (x :: 'a :: len word) * unat y < 2 ^ LENGTH('a) \<Longrightarrow> unat (x * y) = unat x * unat y"
  by (simp add: unat_word_ariths)

lemma unat_and_mask: "unat (x AND mask n :: 'a :: len word) = unat x mod 2 ^ n"
  by (simp add: take_bit_eq_mask[symmetric] unsigned_take_bit_eq take_bit_eq_mod[where ?'a = nat])

lemma unat_drop_bit: "unat (drop_bit n x :: 'a :: len word) = unat x div 2 ^ n"
  using unat_lt_two_power[of x]
  by (simp add: unsigned_drop_bit_eq drop_bit_eq_div[where ?'a = nat] take_bit_nat_eq_self)

lemma and_not_mask: "v AND NOT (mask n) = push_bit n (drop_bit n (v :: 'a :: len word))"
  by (rule bit_word_eqI) (auto simp: bit_and_iff bit_not_iff bit_mask_iff bit_push_bit_iff bit_drop_bit_eq)

lemma page_of_eq: "v AND NOT 0xFFF = push_bit 12 (drop_bit 12 (v :: u64))"
  using and_not_mask[of v 12] by (simp add: mask_numeral)

lemma unat_page_of: "unat (v AND NOT 0xFFF :: u64) = unat v div 4096 * 4096"
proof -
  have b: "unat v div 4096 * 4096 < 2 ^ 64" using unat_lt_two_power[of v] by simp
  have "unat (v AND NOT 0xFFF) = take_bit 64 (push_bit 12 (unat v div 4096))"
    unfolding page_of_eq by (simp add: unsigned_push_bit_eq unat_drop_bit)
  also have "\<dots> = unat v div 4096 * 4096"
    using b by (simp add: push_bit_eq_mult[where ?'a = nat] take_bit_nat_eq_self)
  finally show ?thesis .
qed

section \<open>Searching an index range\<close>

lemma find_append: "List.find P (xs @ ys) = (case List.find P xs of Some x \<Rightarrow> Some x | None \<Rightarrow> List.find P ys)"
  by (induction xs) auto

lemma find_upt_SomeD:
  "List.find P [m..<n] = Some i \<Longrightarrow> m \<le> i \<and> i < n \<and> P i \<and> (\<forall>j. m \<le> j \<and> j < i \<longrightarrow> \<not> P j)"
proof -
  assume "List.find P [m..<n] = Some i"
  then obtain k where k: "k < length [m..<n]" "P ([m..<n] ! k)" "i = [m..<n] ! k"
      "\<forall>j<k. \<not> P ([m..<n] ! j)"
    by (auto simp: find_Some_iff)
  have "\<not> P j" if "m \<le> j" "j < i" for j
    using k that by (auto dest: spec[of _ "j - m"])
  with k show ?thesis by simp
qed

lemma find_upt_None: "List.find P [m..<n] = None \<longleftrightarrow> (\<forall>j. m \<le> j \<and> j < n \<longrightarrow> \<not> P j)"
  by (auto simp: find_None_iff)

lemma find_upt_SomeI:
  assumes "m \<le> i" "i < n" "P i" "\<And>j. m \<le> j \<Longrightarrow> j < i \<Longrightarrow> \<not> P j"
  shows "List.find P [m..<n] = Some i"
proof (cases "List.find P [m..<n]")
  case None
  with assms show ?thesis by (auto simp: find_upt_None)
next
  case (Some k)
  with find_upt_SomeD[OF this] assms show ?thesis by (metis linorder_neqE_nat)
qed

section \<open>Loops with an early return\<close>

text \<open>
  A \<^verbatim>\<open>for\<close> loop over the elements of a list whose body may return from the function: the
  body answers \<open>False\<close> to leave.
\<close>

fun for_each :: "('a \<Rightarrow> 's \<Rightarrow> bool \<times> 's) \<Rightarrow> 'a list \<Rightarrow> 's \<Rightarrow> bool \<times> 's" where
  "for_each f [] s = (True, s)"
| "for_each f (x # xs) s =
     (case f x s of (ok, s') \<Rightarrow> if ok then for_each f xs s' else (False, s'))"

lemma for_each_inv:
  assumes "\<And>x s ok s'. x \<in> set xs \<Longrightarrow> I s \<Longrightarrow> f x s = (ok, s') \<Longrightarrow> I s'"
  shows "I s \<Longrightarrow> for_each f xs s = (ok, s') \<Longrightarrow> I s'"
  using assms
proof (induction xs arbitrary: s)
  case (Cons x xs)
  obtain k t where k: "f x s = (k, t)" by (cases "f x s")
  have t: "I t" by (rule Cons.prems(3)[OF _ Cons.prems(1) k]) simp
  show ?case
  proof (cases k)
    case True
    with Cons.prems(2) k have "for_each f xs t = (ok, s')" by simp
    then show ?thesis by (rule Cons.IH[OF t]) (rule Cons.prems(3), simp_all)
  next
    case False
    with Cons.prems(2) k t show ?thesis by simp
  qed
qed simp

lemma fold_inv:
  assumes "\<And>x s. x \<in> set xs \<Longrightarrow> I s \<Longrightarrow> I (f x s)"
  shows "I s \<Longrightarrow> I (fold f xs s)"
  using assms by (induction xs arbitrary: s) auto

end
