(* ===== verification/Pmm.thy ===== *)
theory Pmm
  imports Prelude
begin

text \<open>
  The physical page allocator of \<^verbatim>\<open>kernel/pmm.c\<close>: a first-fit bitmap over a contiguous
  range of 4 KiB pages.  The interface the other components rely on is the locale
  \<open>page_allocator\<close>; the bitmap is its interpretation at the end of the theory.
\<close>

section \<open>The interface\<close>

text \<open>
  What the clients (page tables, kernel stacks, the ELF loader) rely on: an allocation
  returns the address of a page that was not allocated, or 0 when there is none; freeing
  a page makes it available and touches no other.
\<close>

locale page_allocator =
  fixes alloc :: "'s \<Rightarrow> u64 \<times> 's"
    and free :: "'s \<Rightarrow> u64 \<Rightarrow> 's"
    and used :: "'s \<Rightarrow> u64 set"
    and pool :: "'s \<Rightarrow> u64 set"
    and inv :: "'s \<Rightarrow> bool"
  assumes alloc_some: "inv s \<Longrightarrow> alloc s = (a, s') \<Longrightarrow> a \<noteq> 0 \<Longrightarrow>
      a \<in> pool s \<and> a \<notin> used s \<and> used s' = insert a (used s) \<and> pool s' = pool s \<and> inv s'"
    and alloc_none: "inv s \<Longrightarrow> alloc s = (0, s') \<Longrightarrow> s' = s \<and> pool s \<subseteq> used s"
    and free_page: "inv s \<Longrightarrow> a \<in> pool s \<Longrightarrow>
      used (free s a) = used s - {a} \<and> pool (free s a) = pool s \<and> inv (free s a)"
    and used_pool: "inv s \<Longrightarrow> used s \<subseteq> pool s"
    and pool_finite: "finite (pool s)"
    and pool_aligned: "inv s \<Longrightarrow> a \<in> pool s \<Longrightarrow> a AND mask 12 = 0"
    and pool_nonzero: "inv s \<Longrightarrow> 0 \<notin> pool s"

text \<open>Allocating a run of pages, stopping at the first failure.\<close>

fun alloc_many :: "('s \<Rightarrow> u64 \<times> 's) \<Rightarrow> nat \<Rightarrow> 's \<Rightarrow> u64 list \<times> 's" where
  "alloc_many al 0 s = ([], s)"
| "alloc_many al (Suc n) s =
     (case al s of (a, s') \<Rightarrow>
        if a = 0 then ([], s')
        else (case alloc_many al n s' of (as, s'') \<Rightarrow> (a # as, s'')))"

context page_allocator begin

lemma alloc_many_spec:
  "inv s \<Longrightarrow> alloc_many alloc n s = (as, s') \<Longrightarrow>
     distinct as \<and> set as \<subseteq> pool s \<and> set as \<inter> used s = {} \<and> used s' = used s \<union> set as \<and>
     pool s' = pool s \<and> inv s'"
proof (induction n arbitrary: s as s')
  case (Suc n)
  obtain a t where a: "alloc s = (a, t)" by (cases "alloc s")
  show ?case
  proof (cases "a = 0")
    case True
    with Suc.prems a alloc_none[OF Suc.prems(1), of t] show ?thesis by simp
  next
    case False
    obtain bs u where bs: "alloc_many alloc n t = (bs, u)" by (cases "alloc_many alloc n t")
    from alloc_some[OF Suc.prems(1) a False]
    have t: "a \<in> pool s" "a \<notin> used s" "used t = insert a (used s)" "pool t = pool s" "inv t" by auto
    from Suc.IH[OF t(5) bs] Suc.prems a bs False t show ?thesis by auto
  qed
qed simp

lemma alloc_many_short:
  "inv s \<Longrightarrow> alloc_many alloc n s = (as, s') \<Longrightarrow> length as < n \<Longrightarrow> pool s \<subseteq> used s'"
proof (induction n arbitrary: s as s')
  case (Suc n)
  obtain a t where a: "alloc s = (a, t)" by (cases "alloc s")
  show ?case
  proof (cases "a = 0")
    case True
    with Suc.prems a alloc_none[OF Suc.prems(1), of t] show ?thesis by simp
  next
    case False
    obtain bs u where bs: "alloc_many alloc n t = (bs, u)" by (cases "alloc_many alloc n t")
    from alloc_some[OF Suc.prems(1) a False] Suc.IH[OF _ bs] Suc.prems a bs False show ?thesis by auto
  qed
qed simp

lemma used_alloc_free:
  "inv s \<Longrightarrow> alloc s = (a, s') \<Longrightarrow> a \<noteq> 0 \<Longrightarrow> used (free s' a) = used s"
  using alloc_some free_page[of s' a] by auto

end

section \<open>The bitmap\<close>

abbreviation PMM_PAGE_SIZE :: u64 where "PMM_PAGE_SIZE \<equiv> 4096"
abbreviation MAX_PAGES :: u64 where "MAX_PAGES \<equiv> 1048576"

record pmm =
  bitmap :: "nat \<Rightarrow> u64"
  page_base :: u64
  total_pages :: u64

definition pmm_set_bit :: "nat \<Rightarrow> pmm \<Rightarrow> pmm" where
  "pmm_set_bit idx p = p\<lparr>bitmap := (bitmap p)(idx div 64 := bitmap p (idx div 64) OR push_bit (idx mod 64) 1)\<rparr>"

definition pmm_clear_bit :: "nat \<Rightarrow> pmm \<Rightarrow> pmm" where
  "pmm_clear_bit idx p = p\<lparr>bitmap := (bitmap p)(idx div 64 := bitmap p (idx div 64) AND NOT (push_bit (idx mod 64) 1))\<rparr>"

definition pmm_test_bit :: "nat \<Rightarrow> pmm \<Rightarrow> bool" where
  "pmm_test_bit idx p \<longleftrightarrow> drop_bit (idx mod 64) (bitmap p (idx div 64)) AND 1 \<noteq> 0"

definition pmm_init :: "u64 \<Rightarrow> u64 \<Rightarrow> pmm \<Rightarrow> pmm" where
  "pmm_init start0 end0 p =
     (let start = (start0 + PMM_PAGE_SIZE - 1) AND NOT (PMM_PAGE_SIZE - 1);
          end = end0 AND NOT (PMM_PAGE_SIZE - 1)
      in if end \<le> start then p
         else let total = (end - start) div PMM_PAGE_SIZE;
                  total = (if total > MAX_PAGES then MAX_PAGES else total)
              in p\<lparr>page_base := start, total_pages := total,
                   bitmap := fold (\<lambda>i b. b(i := 0)) [0..<unat ((total + 63) div 64)] (bitmap p)\<rparr>)"

text \<open>The loop of \<^verbatim>\<open>pmm_alloc_page\<close> from index \<open>i\<close> on.\<close>

function pmm_scan :: "nat \<Rightarrow> pmm \<Rightarrow> u64 \<times> pmm" where
  "pmm_scan i p =
     (if i < unat (total_pages p)
      then if \<not> pmm_test_bit i p
           then (page_base p + of_nat i * PMM_PAGE_SIZE, pmm_set_bit i p)
           else pmm_scan (Suc i) p
      else (0, p))"
  by pat_completeness auto
termination
  by (relation "measure (\<lambda>(i, p). unat (total_pages p) - i)") auto

declare pmm_scan.simps [simp del]

definition pmm_alloc_page :: "pmm \<Rightarrow> u64 \<times> pmm" where
  "pmm_alloc_page p = pmm_scan 0 p"

definition pmm_free_page :: "u64 \<Rightarrow> pmm \<Rightarrow> pmm" where
  "pmm_free_page addr p =
     (if addr < page_base p then p
      else let idx = (addr - page_base p) div PMM_PAGE_SIZE
           in if idx \<ge> total_pages p then p else pmm_clear_bit (unat idx) p)"

section \<open>Bits\<close>

lemma pmm_test_bit_iff: "pmm_test_bit idx p \<longleftrightarrow> bit (bitmap p (idx div 64)) (idx mod 64)"
  by (simp add: pmm_test_bit_def bit_iff_odd_drop_bit and_one_eq odd_iff_mod_2_eq_one)

lemma index_split: "(i div 64 = j div 64 \<and> i mod 64 = j mod 64) \<longleftrightarrow> i = (j::nat)"
  by (metis div_mult_mod_eq)

lemma pmm_test_set_bit [simp]: "pmm_test_bit j (pmm_set_bit i p) \<longleftrightarrow> i = j \<or> pmm_test_bit j p"
  using index_split[of i j]
  by (auto simp: pmm_test_bit_iff pmm_set_bit_def bit_or_iff bit_push_bit_iff bit_exp_iff)

lemma pmm_test_clear_bit [simp]: "pmm_test_bit j (pmm_clear_bit i p) \<longleftrightarrow> i \<noteq> j \<and> pmm_test_bit j p"
  using index_split[of i j]
  by (auto simp: pmm_test_bit_iff pmm_clear_bit_def bit_and_iff bit_not_iff bit_push_bit_iff bit_exp_iff
      dest: bit_imp_le_length)

lemma pmm_clear_set_bit: "\<not> pmm_test_bit i p \<Longrightarrow> pmm_clear_bit i (pmm_set_bit i p) = p"
proof -
  assume free: "\<not> pmm_test_bit i p"
  have "(bitmap p (i div 64) OR push_bit (i mod 64) 1) AND NOT (push_bit (i mod 64) 1) = bitmap p (i div 64)"
    using free by (intro bit_word_eqI)
      (auto simp: pmm_test_bit_iff bit_and_iff bit_or_iff bit_not_iff bit_push_bit_iff bit_exp_iff)
  then show ?thesis by (simp add: pmm_clear_bit_def pmm_set_bit_def)
qed

lemma pmm_bit_frame [simp]:
  "page_base (pmm_set_bit i p) = page_base p" "total_pages (pmm_set_bit i p) = total_pages p"
  "page_base (pmm_clear_bit i p) = page_base p" "total_pages (pmm_clear_bit i p) = total_pages p"
  by (simp_all add: pmm_set_bit_def pmm_clear_bit_def)


section \<open>Well-formed allocators\<close>

definition page_addr :: "pmm \<Rightarrow> nat \<Rightarrow> u64" where
  "page_addr p i = page_base p + of_nat i * PMM_PAGE_SIZE"

definition pmm_inv :: "pmm \<Rightarrow> bool" where
  "pmm_inv p \<longleftrightarrow> unat (total_pages p) \<le> 1048576 \<and> 0 < unat (page_base p) \<and>
     unat (page_base p) mod 4096 = 0 \<and> unat (page_base p) + unat (total_pages p) * 4096 < 2 ^ 64"

definition pmm_used :: "pmm \<Rightarrow> u64 set" where
  "pmm_used p = {page_addr p i |i. i < unat (total_pages p) \<and> pmm_test_bit i p}"

definition pmm_pool :: "pmm \<Rightarrow> u64 set" where
  "pmm_pool p = page_addr p ` {..<unat (total_pages p)}"

lemma unat_page_addr:
  assumes "pmm_inv p" "i < unat (total_pages p)"
  shows "unat (page_addr p i) = unat (page_base p) + i * 4096"
proof -
  have b: "unat (page_base p) + i * 4096 < 2 ^ 64" and "i < 2 ^ 64"
    using assms by (auto simp: pmm_inv_def)
  then have i: "unat (of_nat i :: u64) = i" by (simp add: unat_of_nat_small)
  with b have m: "unat (of_nat i * 4096 :: u64) = i * 4096"
    by (subst unat_mult_small) auto
  with b show ?thesis unfolding page_addr_def by (subst unat_plus_small) auto
qed

lemma page_addr_inj:
  "pmm_inv p \<Longrightarrow> i < unat (total_pages p) \<Longrightarrow> j < unat (total_pages p) \<Longrightarrow>
     page_addr p i = page_addr p j \<longleftrightarrow> i = j"
  by (metis unat_page_addr add_left_cancel mult_cancel2 zero_neq_numeral)

lemma page_addr_used:
  "pmm_inv p \<Longrightarrow> i < unat (total_pages p) \<Longrightarrow> page_addr p i \<in> pmm_used p \<longleftrightarrow> pmm_test_bit i p"
  by (auto simp: pmm_used_def page_addr_inj)

lemma page_addr_nonzero: "pmm_inv p \<Longrightarrow> i < unat (total_pages p) \<Longrightarrow> page_addr p i \<noteq> 0"
  by (metis unat_page_addr pmm_inv_def unat_0 add_is_0 less_numeral_extra(3))

lemma page_addr_bit_frame [simp]:
  "page_addr (pmm_set_bit i p) = page_addr p" "page_addr (pmm_clear_bit i p) = page_addr p"
  by (simp_all add: page_addr_def fun_eq_iff)

lemma pmm_inv_bit_frame [simp]:
  "pmm_inv (pmm_set_bit i p) = pmm_inv p" "pmm_inv (pmm_clear_bit i p) = pmm_inv p"
  by (simp_all add: pmm_inv_def)

lemma pmm_pool_bit_frame [simp]:
  "pmm_pool (pmm_set_bit i p) = pmm_pool p" "pmm_pool (pmm_clear_bit i p) = pmm_pool p"
  by (simp_all add: pmm_pool_def)

lemma pmm_used_set_bit:
  "i < unat (total_pages p) \<Longrightarrow> pmm_used (pmm_set_bit i p) = insert (page_addr p i) (pmm_used p)"
  by (auto simp: pmm_used_def)

lemma pmm_used_clear_bit:
  "pmm_inv p \<Longrightarrow> i < unat (total_pages p) \<Longrightarrow>
     pmm_used (pmm_clear_bit i p) = pmm_used p - {page_addr p i}"
  by (auto simp: pmm_used_def page_addr_inj)

section \<open>Allocation and release\<close>

lemma pmm_scan_spec:
  "pmm_scan i p =
     (case List.find (\<lambda>j. \<not> pmm_test_bit j p) [i..<unat (total_pages p)] of
        None \<Rightarrow> (0, p) | Some j \<Rightarrow> (page_addr p j, pmm_set_bit j p))"
proof (induction i p rule: pmm_scan.induct)
  case (1 i p)
  then show ?case
    by (subst pmm_scan.simps) (auto simp: upt_conv_Cons page_addr_def)
qed

lemma pmm_alloc_page_spec:
  "pmm_alloc_page p =
     (case List.find (\<lambda>j. \<not> pmm_test_bit j p) [0..<unat (total_pages p)] of
        None \<Rightarrow> (0, p) | Some j \<Rightarrow> (page_addr p j, pmm_set_bit j p))"
  by (simp add: pmm_alloc_page_def pmm_scan_spec)

lemma pmm_alloc_page_cases:
  obtains (none) "pmm_alloc_page p = (0, p)" "\<forall>j<unat (total_pages p). pmm_test_bit j p"
    | (page) i where "pmm_alloc_page p = (page_addr p i, pmm_set_bit i p)" "i < unat (total_pages p)"
        "\<not> pmm_test_bit i p" "\<forall>j<i. pmm_test_bit j p"
proof (cases "List.find (\<lambda>j. \<not> pmm_test_bit j p) [0..<unat (total_pages p)]")
  case None
  then have "\<forall>j<unat (total_pages p). pmm_test_bit j p" by (simp add: find_upt_None)
  with None show ?thesis by (intro none) (simp_all add: pmm_alloc_page_spec)
next
  case (Some i)
  with find_upt_SomeD[OF Some] show ?thesis by (intro page) (auto simp: pmm_alloc_page_spec)
qed

lemma pmm_free_page_addr:
  assumes "pmm_inv p" "i < unat (total_pages p)"
  shows "pmm_free_page (page_addr p i) p = pmm_clear_bit i p"
proof -
  let ?a = "page_addr p i"
  have le: "page_base p \<le> ?a"
    using unat_page_addr[OF assms] by (simp add: word_le_nat_alt)
  then have "unat (?a - page_base p) = i * 4096"
    using unat_page_addr[OF assms] by (simp add: unat_sub)
  then have "unat ((?a - page_base p) div 4096) = i" by (simp add: unat_div)
  then show ?thesis using le assms(2)
    by (simp add: pmm_free_page_def Let_def linorder_not_less[symmetric] word_less_nat_alt)
qed

interpretation pmm: page_allocator pmm_alloc_page "\<lambda>p a. pmm_free_page a p" pmm_used pmm_pool pmm_inv
proof unfold_locales
  fix p a p' assume inv: "pmm_inv p" and al: "pmm_alloc_page p = (a, p')"
  show "a \<noteq> 0 \<Longrightarrow> a \<in> pmm_pool p \<and> a \<notin> pmm_used p \<and> pmm_used p' = insert a (pmm_used p) \<and>
      pmm_pool p' = pmm_pool p \<and> pmm_inv p'"
    using inv al by (cases p rule: pmm_alloc_page_cases)
      (auto simp: pmm_used_set_bit page_addr_used, simp add: pmm_pool_def)
next
  fix p p' assume "pmm_inv p" and "pmm_alloc_page p = (0, p')"
  then show "p' = p \<and> pmm_pool p \<subseteq> pmm_used p"
    by (cases p rule: pmm_alloc_page_cases)
      (auto simp: pmm_pool_def page_addr_used dest: page_addr_nonzero)
next
  fix p a assume "pmm_inv p" "a \<in> pmm_pool p"
  then show "pmm_used (pmm_free_page a p) = pmm_used p - {a} \<and>
      pmm_pool (pmm_free_page a p) = pmm_pool p \<and> pmm_inv (pmm_free_page a p)"
    by (auto simp: pmm_pool_def pmm_free_page_addr pmm_used_clear_bit)
next
  fix p a assume inv: "pmm_inv p" and "a \<in> pmm_pool p"
  then obtain i where "i < unat (total_pages p)" "a = page_addr p i" by (auto simp: pmm_pool_def)
  with inv have "unat a mod 4096 = 0" by (simp add: unat_page_addr pmm_inv_def mod_add_eq[symmetric])
  then have "unat (a AND mask 12) = 0" by (simp only: unat_and_mask) simp
  then show "a AND mask 12 = 0" by (simp only: unat_eq_0)
qed (auto simp: pmm_used_def pmm_pool_def dest: page_addr_nonzero)

section \<open>Correctness\<close>

lemma pool_least:
  assumes "pmm_inv p" "i < unat (total_pages p)" "\<forall>j<i. pmm_test_bit j p" "b \<in> pmm_pool p - pmm_used p"
  shows "page_addr p i \<le> b"
proof -
  from assms(4) obtain j where j: "j < unat (total_pages p)" "b = page_addr p j" "\<not> pmm_test_bit j p"
    using assms(1) by (auto simp: pmm_pool_def page_addr_used)
  with assms(3) have "i \<le> j" using leI by blast
  with j assms(1,2) show ?thesis by (simp add: word_le_nat_alt unat_page_addr)
qed

text \<open>
  C26 (functional).  \<^verbatim>\<open>pmm_alloc_page\<close> on a well-formed allocator returns 0, changing nothing,
  exactly when every page of the pool is allocated; otherwise it returns the lowest free
  page, marks that page and no other, keeps the invariant, and freeing the page again
  restores the allocator bit for bit.
\<close>

theorem pmm_alloc_page_correct:
  assumes "pmm_inv p" "pmm_alloc_page p = (a, p')"
  shows "if pmm_pool p \<subseteq> pmm_used p then a = 0 \<and> p' = p
    else a \<in> pmm_pool p - pmm_used p \<and> (\<forall>b \<in> pmm_pool p - pmm_used p. a \<le> b) \<and>
      pmm_used p' = insert a (pmm_used p) \<and> pmm_pool p' = pmm_pool p \<and> pmm_inv p' \<and>
      pmm_free_page a p' = p"
proof (cases p rule: pmm_alloc_page_cases)
  case none
  then have "pmm_pool p \<subseteq> pmm_used p" using assms(1) by (auto simp: pmm_pool_def page_addr_used)
  with none assms(2) show ?thesis by simp
next
  case (page i)
  then have eq: "a = page_addr p i" "p' = pmm_set_bit i p" using assms(2) by auto
  have "a \<in> pmm_pool p - pmm_used p"
    using page assms(1) by (auto simp: eq pmm_pool_def page_addr_used)
  moreover have "pmm_free_page a p' = p"
    using pmm_free_page_addr[of p' i] page assms(1) by (simp add: eq pmm_clear_set_bit)
  ultimately show ?thesis
    using page assms(1) by (auto simp: eq pmm_used_set_bit intro: pool_least)
qed

text \<open>An allocator of eight pages, used to instantiate the properties.\<close>

definition sample_pmm :: pmm where
  "sample_pmm = \<lparr>bitmap = (\<lambda>_. 3), page_base = 0x200000, total_pages = 8\<rparr>"

lemma sample_pmm_facts: "pmm_inv sample_pmm" "pmm_alloc_page sample_pmm = (0x202000, pmm_set_bit 2 sample_pmm)"
  by (simp_all add: sample_pmm_def pmm_inv_def pmm_alloc_page_def pmm_scan.simps pmm_test_bit_def)
    (simp only: numeral_2_eq_2)

theorem pmm_alloc_page_correct_witness:
  "pmm_inv sample_pmm \<and> 0x202000 \<in> pmm_pool sample_pmm - pmm_used sample_pmm \<and>
   pmm_free_page 0x202000 (pmm_set_bit 2 sample_pmm) = sample_pmm"
  using pmm_alloc_page_correct [OF sample_pmm_facts] sample_pmm_facts by (auto split: if_splits)

lemma page_of_idx:
  assumes "page_base p \<le> a" "unat (page_base p) mod 4096 = 0"
  shows "a AND NOT 0xFFF = page_addr p (unat ((a - page_base p) div 4096))"
proof -
  obtain k where k: "unat (page_base p) = 4096 * k" using assms(2) by (auto simp: mod_eq_0_iff_dvd)
  have le: "unat (page_base p) \<le> unat a" using assms(1) by (simp add: word_le_nat_alt)
  let ?i = "unat ((a - page_base p) div 4096)"
  have i: "?i = (unat a - 4096 * k) div 4096" using assms(1) k by (simp add: unat_div unat_sub)
  obtain d where d: "unat a = d + 4096 * k" using le k by (metis le_Suc_ex add.commute)
  have "unat a div 4096 = k + d div 4096" unfolding d by simp
  then have n: "unat a div 4096 * 4096 = 4096 * k + ?i * 4096"
    unfolding i d by simp
  have b: "unat a div 4096 * 4096 < 2 ^ 64" using unat_lt_two_power[of a] by simp
  have "unat (of_nat ?i * 4096 :: u64) = ?i * 4096"
    using b n by (subst unat_mult_small) (auto simp: unat_of_nat_small)
  then have "unat (page_addr p ?i) = unat a div 4096 * 4096"
    unfolding page_addr_def using b n k by (subst unat_plus_small) auto
  then show ?thesis by (simp only: word_unat_eq_iff unat_page_of)
qed

text \<open>
  \<^verbatim>\<open>pmm_free_page\<close> releases the page that holds the given address, whatever
  its offset in the page, and ignores every address outside the pool.
\<close>

theorem pmm_free_page_correct:
  assumes "pmm_inv p"
  shows "pmm_used (pmm_free_page a p) = pmm_used p - {a AND NOT 0xFFF} \<and>
    pmm_pool (pmm_free_page a p) = pmm_pool p \<and> pmm_inv (pmm_free_page a p)"
proof (cases "a AND NOT 0xFFF \<in> pmm_pool p")
  case True
  then obtain j where j: "j < unat (total_pages p)" "a AND NOT 0xFFF = page_addr p j"
    by (auto simp: pmm_pool_def)
  have ua: "unat a div 4096 * 4096 = unat (page_base p) + j * 4096"
    using j assms by (metis unat_page_of unat_page_addr)
  then have le: "page_base p \<le> a" using div_times_less_eq_dividend[of "unat a" 4096]
    by (simp add: word_le_nat_alt)
  have "unat ((a - page_base p) div 4096) = (unat a - unat (page_base p)) div 4096"
    using le by (simp add: unat_div unat_sub)
  also have "\<dots> = j" using ua mult_div_mod_eq[of 4096 "unat a"] by simp
  finally have idx: "unat ((a - page_base p) div 4096) = j" .
  then have "\<not> total_pages p \<le> (a - page_base p) div 4096" using j(1) by (simp add: word_le_nat_alt)
  then have "pmm_free_page a p = pmm_clear_bit j p"
    using le idx by (simp add: pmm_free_page_def Let_def linorder_not_less)
  then show ?thesis using assms j pmm_used_clear_bit[OF assms j(1)] by simp
next
  case False
  have "pmm_free_page a p = p"
  proof (cases "page_base p \<le> a")
    case True
    from page_of_idx[OF True] False assms have "\<not> unat ((a - page_base p) div 4096) < unat (total_pages p)"
      by (auto simp: pmm_pool_def pmm_inv_def)
    then show ?thesis by (simp add: pmm_free_page_def Let_def word_le_nat_alt)
  qed (simp add: pmm_free_page_def)
  then show ?thesis using False assms pmm.used_pool[OF assms] by auto
qed

theorem pmm_free_page_correct_witness:
  "pmm_used (pmm_free_page 0x201234 sample_pmm) = pmm_used sample_pmm - {0x201000}"
  using pmm_free_page_correct [OF sample_pmm_facts(1), of "0x201234"] by simp

section \<open>Initialisation\<close>

lemma clear_bitmap: "fold (\<lambda>i b. b(i := 0)) [0..<n] b k = (if k < n then 0 else b k :: u64)"
  by (induction n) auto

text \<open>The pages of the range the kernel hands to \<^verbatim>\<open>pmm_init\<close> at boot.\<close>

definition page_count :: "u64 \<Rightarrow> u64 \<Rightarrow> nat" where
  "page_count s e = unat e div 4096 - (unat s + 4095) div 4096"

lemma pmm_init_fields:
  assumes "unat s + 4095 < 2 ^ 64" "0 < page_count s e" "page_count s e \<le> 1048576"
  shows "unat (page_base (pmm_init s e p)) = (unat s + 4095) div 4096 * 4096"
    "unat (total_pages (pmm_init s e p)) = page_count s e"
    "\<not> pmm_test_bit i (pmm_init s e p) \<or> page_count s e \<le> i"
proof -
  let ?s = "(s + PMM_PAGE_SIZE - 1) AND NOT (PMM_PAGE_SIZE - 1)" and ?e = "e AND NOT (PMM_PAGE_SIZE - 1)"
  have m: "PMM_PAGE_SIZE - 1 = 0xFFF" by simp
  have s4: "unat (s + 4095) = unat s + 4095" using assms(1) by (subst unat_plus_small) auto
  have sp: "s + PMM_PAGE_SIZE - 1 = s + 4095" by simp
  have us: "unat ?s = (unat s + 4095) div 4096 * 4096"
    unfolding sp m unat_page_of by (simp only: s4)
  have ue: "unat ?e = unat e div 4096 * 4096" unfolding m unat_page_of ..
  have lt: "?s < ?e" using assms(2) unfolding page_count_def by (simp only: word_less_nat_alt us ue)
  define t where "t = (?e - ?s) div PMM_PAGE_SIZE"
  have ut: "unat t = page_count s e"
  proof -
    have "unat t = (unat e div 4096 * 4096 - (unat s + 4095) div 4096 * 4096) div 4096"
      unfolding t_def unat_div using lt unat_sub[of ?s ?e] us ue by simp
    also have "\<dots> = page_count s e"
      unfolding page_count_def diff_mult_distrib[symmetric] by simp
    finally show ?thesis .
  qed
  have tmax: "\<not> MAX_PAGES < t" using assms(3) by (simp add: word_less_nat_alt ut)
  have init: "pmm_init s e p = p\<lparr>page_base := ?s, total_pages := t,
      bitmap := fold (\<lambda>i b. b(i := 0)) [0..<unat ((t + 63) div 64)] (bitmap p)\<rparr>"
    using lt tmax unfolding pmm_init_def Let_def t_def by (simp add: linorder_not_less[symmetric])
  show "unat (page_base (pmm_init s e p)) = (unat s + 4095) div 4096 * 4096"
    "unat (total_pages (pmm_init s e p)) = page_count s e"
    unfolding init using us ut by simp_all
  have "unat (t + 63) = unat t + 63" using assms(3) ut by (subst unat_plus_small) auto
  then have words: "unat ((t + 63) div 64) = (page_count s e + 63) div 64" by (simp add: unat_div ut)
  show "\<not> pmm_test_bit i (pmm_init s e p) \<or> page_count s e \<le> i"
  proof (cases "i < page_count s e")
    case True
    then have "i div 64 < (page_count s e + 63) div 64"
      using div_le_mono[of "i + 64" "page_count s e + 63" 64] by simp
    then show ?thesis by (simp add: init pmm_test_bit_iff clear_bitmap words)
  qed simp
qed

text \<open>
  \<^verbatim>\<open>pmm_init\<close> of a non-empty range of at most 4 GiB leaves a well-formed
  allocator with every page free, whose pool is exactly the pages that lie entirely
  inside the range.
\<close>

theorem pmm_init_correct:
  assumes "0 < s" "unat s + 4095 < 2 ^ 64" "0 < page_count s e" "page_count s e \<le> 1048576"
  shows "pmm_inv (pmm_init s e p) \<and> pmm_used (pmm_init s e p) = {} \<and>
    pmm_pool (pmm_init s e p) = {a. unat a mod 4096 = 0 \<and> s \<le> a \<and> unat a + 4096 \<le> unat e}"
proof -
  let ?p = "pmm_init s e p" and ?n = "page_count s e"
  note F = pmm_init_fields[OF assms(2-4), where p = p]
  define k where "k = (unat s + 4095) div 4096"
  have base: "unat (page_base ?p) = k * 4096" using F(1) by (simp add: k_def)
  have kn: "k + ?n = unat e div 4096" using assms(3) by (simp add: page_count_def k_def)
  have sk: "unat s \<le> k * 4096" "k * 4096 < unat s + 4096"
    using mult_div_mod_eq[of 4096 "unat s + 4095"] mod_less_divisor[of 4096 "unat s + 4095"]
    unfolding k_def by linarith+
  have e: "(k + ?n) * 4096 \<le> unat e" "unat e < (k + ?n) * 4096 + 4096"
    unfolding kn using mult_div_mod_eq[of 4096 "unat e"] mod_less_divisor[of 4096 "unat e"] by linarith+
  have "0 < unat s" using assms(1) by (simp add: word_less_nat_alt)
  then have "0 < k * 4096" using sk(1) by linarith
  moreover have "k * 4096 + ?n * 4096 < 2 ^ 64"
    using e(1) unat_lt_two_power[of e] by (simp add: distrib_right)
  ultimately have inv: "pmm_inv ?p" using assms(4) by (simp add: pmm_inv_def base F(2))
  have "a \<in> pmm_pool ?p \<longleftrightarrow> unat a mod 4096 = 0 \<and> s \<le> a \<and> unat a + 4096 \<le> unat e" for a
  proof
    assume "a \<in> pmm_pool ?p"
    then obtain i where i: "i < ?n" "a = page_addr ?p i" by (auto simp: pmm_pool_def F)
    then have "unat a = (k + i) * 4096" using unat_page_addr[OF inv, of i] base F(2) by simp
    then show "unat a mod 4096 = 0 \<and> s \<le> a \<and> unat a + 4096 \<le> unat e"
      using i(1) sk e by (auto simp: word_le_nat_alt)
  next
    assume a: "unat a mod 4096 = 0 \<and> s \<le> a \<and> unat a + 4096 \<le> unat e"
    then obtain j where j: "unat a = j * 4096" by (metis mod_0_imp_dvd dvd_def mult.commute)
    have "unat s \<le> j * 4096" "j * 4096 + 4096 \<le> unat e" using a j by (auto simp: word_le_nat_alt)
    then have "j * 4096 < (k + ?n) * 4096" "k * 4096 < (j + 1) * 4096" using sk e by (simp_all add: distrib_right)
    then have "k \<le> j" "j < k + ?n" by simp_all
    then have jk: "j - k < ?n" "k + (j - k) = j" by simp_all
    then have "unat (page_addr ?p (j - k)) = (k + (j - k)) * 4096"
      using unat_page_addr[OF inv, of "j - k"] base F(2) by (simp add: distrib_right)
    then have "page_addr ?p (j - k) = a" unfolding jk(2) j[symmetric] by (rule word_unat_eq_iff[THEN iffD2])
    then show "a \<in> pmm_pool ?p"
      unfolding pmm_pool_def F(2) using jk(1) by (intro image_eqI[OF sym]) (assumption, simp)
  qed
  then have pool: "pmm_pool ?p = {a. unat a mod 4096 = 0 \<and> s \<le> a \<and> unat a + 4096 \<le> unat e}"
    by (intro set_eqI) (simp only: mem_Collect_eq)
  have "\<not> pmm_test_bit i ?p" if "i < ?n" for i using F(3)[of i] that by simp
  then have used: "pmm_used ?p = {}" by (auto simp: pmm_used_def F(2))
  show ?thesis by (intro conjI inv pool used)
qed

text \<open>The call \<^verbatim>\<open>kernel_main\<close> makes.\<close>

theorem pmm_init_correct_witness:
  "pmm_inv (pmm_init 0x200000 0x4000000 sample_pmm) \<and>
   0x1000000 \<in> pmm_pool (pmm_init 0x200000 0x4000000 sample_pmm)"
  using pmm_init_correct [of "0x200000" "0x4000000" sample_pmm] by (simp add: page_count_def)

section \<open>Counting free pages\<close>

definition free_count :: "pmm \<Rightarrow> nat" where
  "free_count p = card (pmm_pool p - pmm_used p)"

lemma card_pool: "pmm_inv p \<Longrightarrow> card (pmm_pool p) = unat (total_pages p)"
  unfolding pmm_pool_def by (subst card_image) (auto simp: inj_on_def page_addr_inj)

lemma free_count_unused: "pmm_inv p \<Longrightarrow> pmm_used p = {} \<Longrightarrow> free_count p = unat (total_pages p)"
  by (simp add: free_count_def card_pool)

lemma free_count_alloc:
  assumes "pmm_inv p" "pmm_alloc_page p = (a, p')" "a \<noteq> 0"
  shows "free_count p = Suc (free_count p')"
proof -
  note A = pmm.alloc_some[OF assms]
  have "pmm_pool p - pmm_used p = insert a (pmm_pool p' - pmm_used p')" "a \<notin> pmm_pool p' - pmm_used p'"
    using A by auto
  then show ?thesis using pmm.pool_finite[of p'] by (simp add: free_count_def)
qed

lemma alloc_succeeds: "pmm_inv p \<Longrightarrow> 0 < free_count p \<Longrightarrow> pmm_alloc_page p = (a, p') \<Longrightarrow> a \<noteq> 0"
proof
  assume "pmm_inv p" "0 < free_count p" "pmm_alloc_page p = (a, p')" "a = 0"
  then have "pmm_pool p \<subseteq> pmm_used p" using pmm.alloc_none[of p p'] by simp
  then have "pmm_pool p - pmm_used p = {}" by blast
  with \<open>0 < free_count p\<close> show False by (simp add: free_count_def)
qed

end
