(* ===== verification/Paging.thy ===== *)
theory Paging
  imports Pmm
begin

text \<open>
  The four-level page tables of \<^verbatim>\<open>kernel/paging.c\<close>.  Physical memory is a map from frame
  addresses to frames of 512 quadwords; a page table is a frame, reached through the
  identity map the way the code reaches it.  The operations run over the record
  \<open>machine\<close>, which later theories extend.  The abstract view of an address space is the
  partial map \<open>pte_of\<close> from the four table indices to leaf entries: \<open>paging_map_user_page\<close>
  is an update of that map.

  Loading \<^verbatim>\<open>CR3\<close> is an assignment to the field \<open>cr3\<close>; \<^verbatim>\<open>invlpg\<close> has no counterpart, since
  the model has no translation cache.
\<close>

section \<open>Memory and flags\<close>

type_synonym frame = "nat \<Rightarrow> u64"

text \<open>Link-time addresses of the bootstrap tables \<^verbatim>\<open>pml4\<close>, \<^verbatim>\<open>pdpt\<close>, \<^verbatim>\<open>pd\<close> and \<^verbatim>\<open>pt[0]\<close>.\<close>

record boot_syms =
  sym_pml4 :: u64
  sym_pdpt :: u64
  sym_pd :: u64
  sym_pt :: u64

record machine =
  pm :: pmm
  frames :: "u64 \<Rightarrow> frame"
  kernel_pml4 :: u64
  syms :: boot_syms
  cr3 :: u64

abbreviation PAGE_PRESENT :: u64 where "PAGE_PRESENT \<equiv> 1"
abbreviation PAGE_WRITABLE :: u64 where "PAGE_WRITABLE \<equiv> 2"
abbreviation PAGE_USER :: u64 where "PAGE_USER \<equiv> 4"
abbreviation PAGE_USERALLOC :: u64 where "PAGE_USERALLOC \<equiv> 512"
abbreviation ADDR_MASK :: u64 where "ADDR_MASK \<equiv> NOT 0xFFF"
abbreviation PT_ENTRIES :: nat where "PT_ENTRIES \<equiv> 512"
abbreviation NUM_PT :: nat where "NUM_PT \<equiv> 8"
abbreviation USER_STACK_TOP :: u64 where "USER_STACK_TOP \<equiv> 0x1200000"
abbreviation USER_STACK_SIZE :: u64 where "USER_STACK_SIZE \<equiv> 0x4000"

definition put_entry :: "u64 \<Rightarrow> nat \<Rightarrow> u64 \<Rightarrow> 'a machine_scheme \<Rightarrow> 'a machine_scheme" where
  "put_entry tbl i e m = m\<lparr>frames := (frames m)(tbl := (frames m tbl)(i := e))\<rparr>"

definition pml4_idx :: "u64 \<Rightarrow> nat" where "pml4_idx v = unat (drop_bit 39 v AND 0x1FF)"
definition pdpt_idx :: "u64 \<Rightarrow> nat" where "pdpt_idx v = unat (drop_bit 30 v AND 0x1FF)"
definition pd_idx :: "u64 \<Rightarrow> nat" where "pd_idx v = unat (drop_bit 21 v AND 0x1FF)"
definition pt_idx :: "u64 \<Rightarrow> nat" where "pt_idx v = unat (drop_bit 12 v AND 0x1FF)"

section \<open>Bootstrap tables\<close>

text \<open>\<open>pt_frame b p\<close> is the address of \<^verbatim>\<open>pt[p]\<close>.\<close>

definition pt_frame :: "boot_syms \<Rightarrow> nat \<Rightarrow> u64" where
  "pt_frame b p = sym_pt b + of_nat p * 4096"

definition clear_user :: "u64 \<Rightarrow> u64" where
  "clear_user e = (e AND NOT PAGE_USER) OR (PAGE_PRESENT OR PAGE_WRITABLE)"

text \<open>One iteration of the loops over \<^verbatim>\<open>[start, end)\<close>, for the bootstrap tables only.\<close>

definition boot_pt_update :: "(u64 \<Rightarrow> u64) \<Rightarrow> u64 \<Rightarrow> 'a machine_scheme \<Rightarrow> 'a machine_scheme" where
  "boot_pt_update f a m =
     (let pd_index = unat (drop_bit 21 a); pt_index = unat (drop_bit 12 a AND 0x1FF)
      in if pd_index < NUM_PT
         then put_entry (pt_frame (syms m) pd_index) pt_index
                (f (frames m (pt_frame (syms m) pd_index) pt_index)) m
         else m)"

text \<open>
  The pages a loop \<^verbatim>\<open>for (a = start; a < end; a += 0x1000)\<close> visits.  The bounds are page
  aligned, so the loop variable reaches \<open>end\<close> without wrapping: \<open>page_range_step\<close> is
  the loop's own recursion.
\<close>

definition page_range :: "u64 \<Rightarrow> u64 \<Rightarrow> u64 list" where
  "page_range start end =
     (if start < end then map (\<lambda>i. start + of_nat i * 0x1000) [0..<unat ((end - start) div 0x1000)]
      else [])"

lemma page_range_step:
  assumes al: "a AND 0xFFF = 0" "b AND 0xFFF = 0"
  shows "page_range a b = (if a < b then a # page_range (a + 0x1000) b else [])"
proof (cases "a < b")
  case True
  have m: "unat a mod 4096 = 0" "unat b mod 4096 = 0"
    using al unat_and_mask[of a 12] unat_and_mask[of b 12] by (simp_all add: mask_numeral)
  have lt: "unat a < unat b" using True by (simp add: word_less_nat_alt)
  have bb: "unat b < 2 ^ 64" using unat_lt_two_power[of b] by simp
  obtain k l where kl: "unat a = 4096 * k" "unat b = 4096 * l" using m by (metis mod_0_imp_dvd dvdE)
  have n: "unat ((b - a) div 0x1000) = l - k"
    using lt True by (simp add: unat_div unat_sub word_le_nat_alt kl)
  have k1: "Suc k \<le> l" using lt kl by simp
  have a1: "unat (a + 0x1000) = 4096 * Suc k"
    using unat_plus_small[of a "0x1000"] k1 bb kl by simp
  have "4096 * l - (4096 + 4096 * k) = 4096 * (l - Suc k)" by (simp add: diff_mult_distrib2)
  then have dv: "(4096 * l - (4096 + 4096 * k)) div 4096 = l - Suc k" by simp
  have n1: "(if a + 0x1000 < b then unat ((b - (a + 0x1000)) div 0x1000) else 0) = l - Suc k"
    using a1 kl k1 by (simp add: word_less_nat_alt unat_div unat_sub word_le_nat_alt dv)
  have "[0..<l - k] = 0 # map Suc [0..<l - Suc k]"
    using k1 upt_conv_Cons[of 0 "l - k"] by (simp add: map_Suc_upt Suc_diff_Suc)
  then have "page_range a b = a # map (\<lambda>i. a + 0x1000 + of_nat i * 0x1000) [0..<l - Suc k]"
    using True n by (simp add: page_range_def algebra_simps)
  also have "map (\<lambda>i. a + 0x1000 + of_nat i * 0x1000) [0..<l - Suc k] = page_range (a + 0x1000) b"
    using n1 by (auto simp: page_range_def split: if_splits)
  finally show ?thesis using True by simp
qed (simp add: page_range_def)

definition boot_region :: "(u64 \<Rightarrow> u64) \<Rightarrow> u64 \<Rightarrow> u64 \<Rightarrow> 'a machine_scheme \<Rightarrow> 'a machine_scheme" where
  "boot_region f start end m = fold (boot_pt_update f) (page_range start end) m"

definition region_start :: "u64 \<Rightarrow> u64" where "region_start addr = addr AND ADDR_MASK"
definition region_end :: "u64 \<Rightarrow> u64 \<Rightarrow> u64" where
  "region_end addr sz = (addr + sz + 0xFFF) AND ADDR_MASK"

definition paging_mark_user_region :: "u64 \<Rightarrow> u64 \<Rightarrow> 'a machine_scheme \<Rightarrow> 'a machine_scheme" where
  "paging_mark_user_region addr sz m =
     boot_region (\<lambda>e. e OR (PAGE_USER OR PAGE_PRESENT)) (region_start addr) (region_end addr sz) m"

definition paging_mark_supervisor_region :: "u64 \<Rightarrow> u64 \<Rightarrow> 'a machine_scheme \<Rightarrow> 'a machine_scheme" where
  "paging_mark_supervisor_region addr sz m =
     boot_region clear_user (region_start addr) (region_end addr sz) m"

text \<open>
  \<^verbatim>\<open>paging_init\<close>: clear the tables, wire the hierarchy, fill the identity map of the
  first 16 MiB, protect page 0 and the tables, and load \<^verbatim>\<open>CR3\<close>.
\<close>

definition zero_frame :: "u64 \<Rightarrow> 'a machine_scheme \<Rightarrow> 'a machine_scheme" where
  "zero_frame a m = m\<lparr>frames := (frames m)(a := (\<lambda>i. if i < PT_ENTRIES then 0 else frames m a i))\<rparr>"

definition boot_identity :: "nat \<Rightarrow> nat \<Rightarrow> u64" where
  "boot_identity p i =
     (let addr = of_nat p * 0x200000 + of_nat i * 0x1000;
          f = (if addr \<ge> 0x100000 then PAGE_PRESENT OR PAGE_WRITABLE OR PAGE_USER
               else PAGE_PRESENT OR PAGE_WRITABLE)
      in addr OR f)"

definition fill_pt :: "u64 \<Rightarrow> (nat \<Rightarrow> u64) \<Rightarrow> 'a machine_scheme \<Rightarrow> 'a machine_scheme" where
  "fill_pt tbl g m = fold (\<lambda>i. put_entry tbl i (g i)) [0..<PT_ENTRIES] m"

definition paging_init :: "'a machine_scheme \<Rightarrow> 'a machine_scheme" where
  "paging_init m0 =
     (let b = syms m0;
          flags_user = PAGE_PRESENT OR PAGE_WRITABLE OR PAGE_USER;
          flags_sup = PAGE_PRESENT OR PAGE_WRITABLE;
          m = m0\<lparr>kernel_pml4 := sym_pml4 b\<rparr>;
          m = zero_frame (sym_pd b) (zero_frame (sym_pdpt b) (zero_frame (sym_pml4 b) m));
          m = fold (\<lambda>p. zero_frame (pt_frame b p)) [0..<NUM_PT] m;
          m = put_entry (sym_pml4 b) 0 (sym_pdpt b OR flags_user) m;
          m = put_entry (sym_pdpt b) 0 (sym_pd b OR flags_user) m;
          m = fold (\<lambda>p. put_entry (sym_pd b) p (pt_frame b p OR flags_user)) [0..<NUM_PT] m;
          m = fold (\<lambda>p. fill_pt (pt_frame b p) (boot_identity p)) [0..<NUM_PT] m;
          m = put_entry (pt_frame b 0) 0 (0 OR flags_sup) m;
          protect = [sym_pml4 b, sym_pdpt b, sym_pd b, pt_frame b 0,
                     pt_frame b (NUM_PT - 1) + of_nat (PT_ENTRIES - 1) * 8];
          m = fold (\<lambda>addr. boot_region clear_user (addr AND ADDR_MASK)
                              ((addr + 0x1000 + 0xFFF) AND ADDR_MASK)) protect m
      in m\<lparr>cr3 := sym_pml4 b\<rparr>)"

section \<open>Per-process address spaces\<close>

definition alloc_pt_page :: "'a machine_scheme \<Rightarrow> u64 \<times> 'a machine_scheme" where
  "alloc_pt_page m =
     (case pmm_alloc_page (pm m) of (page, p) \<Rightarrow>
        if page = 0 then (0, m\<lparr>pm := p\<rparr>) else (page, zero_frame page (m\<lparr>pm := p\<rparr>)))"

fun new_space_pts :: "nat list \<Rightarrow> u64 \<Rightarrow> 'a machine_scheme \<Rightarrow> bool \<times> 'a machine_scheme" where
  "new_space_pts [] pd m = (True, m)"
| "new_space_pts (p # ps) pd m =
     (case alloc_pt_page m of (pt, m) \<Rightarrow>
        if pt = 0 then (False, m)
        else new_space_pts ps pd
               (fill_pt pt (\<lambda>i. (of_nat p * 0x200000 + of_nat i * 0x1000) OR (PAGE_PRESENT OR PAGE_WRITABLE))
                 (put_entry pd p (pt OR (PAGE_PRESENT OR PAGE_WRITABLE OR PAGE_USER)) m)))"

definition paging_new_user_space :: "'a machine_scheme \<Rightarrow> u64 \<times> 'a machine_scheme" where
  "paging_new_user_space m =
     (case alloc_pt_page m of (pml4, m) \<Rightarrow>
      case alloc_pt_page m of (pdpt, m) \<Rightarrow>
      case alloc_pt_page m of (pd, m) \<Rightarrow>
        if pml4 = 0 \<or> pdpt = 0 \<or> pd = 0 then (0, m)
        else let hier = PAGE_PRESENT OR PAGE_WRITABLE OR PAGE_USER;
                 m = put_entry pml4 0 (pdpt OR hier) m;
                 m = put_entry pdpt 0 (pd OR hier) m
             in (case new_space_pts [0..<NUM_PT] pd m of
                   (ok, m) \<Rightarrow> if ok then (pml4, m) else (0, m)))"

definition paging_map_page :: "u64 \<Rightarrow> u64 \<Rightarrow> u64 \<Rightarrow> 'a machine_scheme \<Rightarrow> int \<times> 'a machine_scheme" where
  "paging_map_page pml4 addr flags m =
     (let pdpt = frames m pml4 (pml4_idx addr) AND ADDR_MASK in
      if pdpt = 0 then (-1, m) else
      let pd = frames m pdpt (pdpt_idx addr) AND ADDR_MASK in
      if pd = 0 then (-1, m) else
      let pt = frames m pd (pd_idx addr) AND ADDR_MASK in
      if pt = 0 then (-1, m)
      else (0, put_entry pt (pt_idx addr) ((addr AND ADDR_MASK) OR flags OR PAGE_PRESENT) m))"

text \<open>
  The step the mapping functions repeat at each level: the table below entry \<open>i\<close>,
  created when the entry is not present; \<open>None\<close> when the allocation fails.
\<close>

definition get_or_create :: "u64 \<Rightarrow> u64 \<Rightarrow> nat \<Rightarrow> 'a machine_scheme \<Rightarrow> u64 option \<times> 'a machine_scheme" where
  "get_or_create hier tbl i m =
     (if frames m tbl i AND PAGE_PRESENT = 0
      then (case alloc_pt_page m of (t, m) \<Rightarrow>
              if t = 0 then (None, m) else (Some t, put_entry tbl i (t OR hier) m))
      else (Some (frames m tbl i AND ADDR_MASK), m))"

definition map_leaf :: "u64 \<Rightarrow> u64 \<Rightarrow> u64 \<Rightarrow> u64 \<Rightarrow> 'a machine_scheme \<Rightarrow> int \<times> 'a machine_scheme" where
  "map_leaf hier pml4 vaddr entry m =
     (case get_or_create hier pml4 (pml4_idx vaddr) m of
        (None, m) \<Rightarrow> (-1, m)
      | (Some pdpt, m) \<Rightarrow>
     (case get_or_create hier pdpt (pdpt_idx vaddr) m of
        (None, m) \<Rightarrow> (-1, m)
      | (Some pd, m) \<Rightarrow>
     (case get_or_create hier pd (pd_idx vaddr) m of
        (None, m) \<Rightarrow> (-1, m)
      | (Some pt, m) \<Rightarrow> (0, put_entry pt (pt_idx vaddr) entry m))))"

definition paging_map_user_page :: "u64 \<Rightarrow> u64 \<Rightarrow> u64 \<Rightarrow> u64 \<Rightarrow> 'a machine_scheme \<Rightarrow> int \<times> 'a machine_scheme" where
  "paging_map_user_page pml4 vaddr paddr flags m =
     map_leaf (PAGE_PRESENT OR PAGE_WRITABLE OR PAGE_USER) pml4 vaddr
       ((paddr AND ADDR_MASK) OR flags OR PAGE_PRESENT OR PAGE_USERALLOC) m"

definition paging_map_kernel_page :: "u64 \<Rightarrow> u64 \<Rightarrow> u64 \<Rightarrow> u64 \<Rightarrow> 'a machine_scheme \<Rightarrow> int \<times> 'a machine_scheme" where
  "paging_map_kernel_page pml4 vaddr paddr flags m =
     map_leaf (PAGE_PRESENT OR PAGE_WRITABLE) pml4 vaddr
       ((paddr AND ADDR_MASK) OR flags OR PAGE_PRESENT) m"

definition paging_virt_to_phys :: "u64 \<Rightarrow> u64 \<Rightarrow> 'a machine_scheme \<Rightarrow> u64" where
  "paging_virt_to_phys pml4 vaddr m =
     (let e4 = frames m pml4 (pml4_idx vaddr) in
      if e4 AND PAGE_PRESENT = 0 then 0 else
      let e3 = frames m (e4 AND ADDR_MASK) (pdpt_idx vaddr) in
      if e3 AND PAGE_PRESENT = 0 then 0 else
      let e2 = frames m (e3 AND ADDR_MASK) (pd_idx vaddr) in
      if e2 AND PAGE_PRESENT = 0 then 0 else
      let e1 = frames m (e2 AND ADDR_MASK) (pt_idx vaddr) in
      if e1 AND PAGE_PRESENT = 0 then 0
      else (e1 AND ADDR_MASK) OR (vaddr AND 0xFFF))"


section \<open>Releasing and copying an address space\<close>

definition free_frame :: "u64 \<Rightarrow> 'a machine_scheme \<Rightarrow> 'a machine_scheme" where
  "free_frame a m = m\<lparr>pm := pmm_free_page a (pm m)\<rparr>"

definition free_leaf :: "u64 \<Rightarrow> nat \<Rightarrow> 'a machine_scheme \<Rightarrow> 'a machine_scheme" where
  "free_leaf pt l m =
     (let e = frames m pt l in
      if e AND PAGE_PRESENT \<noteq> 0 \<and> e AND PAGE_USERALLOC \<noteq> 0
      then put_entry pt l 0 (free_frame (e AND ADDR_MASK) m) else m)"

definition free_pt :: "u64 \<Rightarrow> nat \<Rightarrow> 'a machine_scheme \<Rightarrow> 'a machine_scheme" where
  "free_pt pd k m =
     (if frames m pd k AND PAGE_PRESENT = 0 then m
      else let pt = frames m pd k AND ADDR_MASK
           in free_frame pt (fold (free_leaf pt) [0..<PT_ENTRIES] m))"

definition free_pd :: "u64 \<Rightarrow> nat \<Rightarrow> 'a machine_scheme \<Rightarrow> 'a machine_scheme" where
  "free_pd pdpt j m =
     (if frames m pdpt j AND PAGE_PRESENT = 0 then m
      else let pd = frames m pdpt j AND ADDR_MASK
           in free_frame pd (fold (free_pt pd) [0..<PT_ENTRIES] m))"

definition free_pdpt :: "u64 \<Rightarrow> nat \<Rightarrow> 'a machine_scheme \<Rightarrow> 'a machine_scheme" where
  "free_pdpt pml4 i m =
     (if frames m pml4 i AND PAGE_PRESENT = 0 then m
      else let pdpt = frames m pml4 i AND ADDR_MASK
           in free_frame pdpt (fold (free_pd pdpt) [0..<PT_ENTRIES] m))"

definition paging_free_user_space :: "u64 \<Rightarrow> 'a machine_scheme \<Rightarrow> 'a machine_scheme" where
  "paging_free_user_space pml4 m =
     (if pml4 = 0 then m else free_frame pml4 (fold (free_pdpt pml4) [0..<PT_ENTRIES] m))"

text \<open>\<^verbatim>\<open>memcpy_pg\<close> and \<^verbatim>\<open>memset_pg\<close> of a whole page.\<close>

definition copy_frame :: "u64 \<Rightarrow> u64 \<Rightarrow> 'a machine_scheme \<Rightarrow> 'a machine_scheme" where
  "copy_frame dst src m =
     m\<lparr>frames := (frames m)(dst := (\<lambda>i. if i < PT_ENTRIES then frames m src i else frames m dst i))\<rparr>"

definition clone_leaf :: "u64 \<Rightarrow> nat \<Rightarrow> nat \<Rightarrow> nat \<Rightarrow> u64 \<Rightarrow> nat \<Rightarrow> 'a machine_scheme \<Rightarrow> bool \<times> 'a machine_scheme" where
  "clone_leaf dst i j k pt_s l m =
     (let e = frames m pt_s l in
      if e AND PAGE_PRESENT = 0 then (True, m) else
      if e AND PAGE_USERALLOC = 0 then (True, m) else
      let src_pa = e AND ADDR_MASK; flags = e AND 0xFFF;
          vaddr = push_bit 39 (of_nat i) OR push_bit 30 (of_nat j) OR push_bit 21 (of_nat k) OR push_bit 12 (of_nat l)
      in (case pmm_alloc_page (pm m) of (new_page, p) \<Rightarrow>
            let m = m\<lparr>pm := p\<rparr> in
            if new_page = 0 then (False, m)
            else (case paging_map_user_page dst vaddr new_page flags (copy_frame new_page src_pa m) of
                    (r, m) \<Rightarrow> (r \<ge> 0, m))))"

definition clone_pt :: "u64 \<Rightarrow> nat \<Rightarrow> nat \<Rightarrow> u64 \<Rightarrow> nat \<Rightarrow> 'a machine_scheme \<Rightarrow> bool \<times> 'a machine_scheme" where
  "clone_pt dst i j pd_s k m =
     (if frames m pd_s k AND PAGE_PRESENT = 0 then (True, m)
      else for_each (clone_leaf dst i j k (frames m pd_s k AND ADDR_MASK)) [0..<PT_ENTRIES] m)"

definition clone_pd :: "u64 \<Rightarrow> nat \<Rightarrow> u64 \<Rightarrow> nat \<Rightarrow> 'a machine_scheme \<Rightarrow> bool \<times> 'a machine_scheme" where
  "clone_pd dst i pdpt_s j m =
     (if frames m pdpt_s j AND PAGE_PRESENT = 0 then (True, m)
      else for_each (clone_pt dst i j (frames m pdpt_s j AND ADDR_MASK)) [0..<PT_ENTRIES] m)"

definition clone_pdpt :: "u64 \<Rightarrow> u64 \<Rightarrow> nat \<Rightarrow> 'a machine_scheme \<Rightarrow> bool \<times> 'a machine_scheme" where
  "clone_pdpt dst src i m =
     (if frames m src i AND PAGE_PRESENT = 0 then (True, m)
      else for_each (clone_pd dst i (frames m src i AND ADDR_MASK)) [0..<PT_ENTRIES] m)"

definition paging_clone_user_pages :: "u64 \<Rightarrow> u64 \<Rightarrow> 'a machine_scheme \<Rightarrow> int \<times> 'a machine_scheme" where
  "paging_clone_user_pages dst src m =
     (case for_each (clone_pdpt dst src) [0..<PT_ENTRIES] m of
        (ok, m) \<Rightarrow> (if ok then 0 else -1, m))"

definition paging_kernel_pml4 :: "'a machine_scheme \<Rightarrow> u64" where
  "paging_kernel_pml4 m = kernel_pml4 m"

end
