(* ===== verification/Address_Space.thy ===== *)
theory Address_Space
  imports Paging
begin

text \<open>
  Address spaces as trees of page tables, and the abstract view of an address space as a
  partial map from virtual addresses to leaf entries.  A set \<open>R\<close> of roots is well formed
  when no page table is reached by two paths and no page table is available to the page
  allocator; the operations of \<open>Paging\<close> preserve this and act on the abstract map.
\<close>

section \<open>Paths through the tables\<close>

fun table_at :: "'a machine_scheme \<Rightarrow> u64 \<Rightarrow> nat list \<Rightarrow> u64 option" where
  "table_at m r [] = Some r"
| "table_at m r (i # is) =
     (if frames m r i AND PAGE_PRESENT = 0 then None
      else table_at m (frames m r i AND ADDR_MASK) is)"

definition table_path :: "nat list \<Rightarrow> bool" where
  "table_path p \<longleftrightarrow> length p \<le> 3 \<and> (\<forall>i\<in>set p. i < PT_ENTRIES)"

definition table_free :: "'a machine_scheme \<Rightarrow> u64 \<Rightarrow> bool" where
  "table_free m t \<longleftrightarrow> t \<in> pmm_pool (pm m) \<and> t \<notin> pmm_used (pm m)"

definition spaces_ok :: "'a machine_scheme \<Rightarrow> u64 set \<Rightarrow> bool" where
  "spaces_ok m R \<longleftrightarrow> pmm_inv (pm m) \<and>
     (\<forall>r\<in>R. \<forall>p t. table_path p \<longrightarrow> table_at m r p = Some t \<longrightarrow> \<not> table_free m t) \<and>
     (\<forall>r\<in>R. \<forall>r'\<in>R. \<forall>p q t. table_path p \<longrightarrow> table_path q \<longrightarrow>
        table_at m r p = Some t \<longrightarrow> table_at m r' q = Some t \<longrightarrow> r = r' \<and> p = q)"

definition pte_of :: "'a machine_scheme \<Rightarrow> u64 \<Rightarrow> u64 \<Rightarrow> u64 option" where
  "pte_of m r v =
     (case table_at m r [pml4_idx v, pdpt_idx v, pd_idx v] of
        None \<Rightarrow> None
      | Some t \<Rightarrow> (let e = frames m t (pt_idx v) in if e AND PAGE_PRESENT = 0 then None else Some e))"

definition same_page :: "u64 \<Rightarrow> u64 \<Rightarrow> bool" where
  "same_page v w \<longleftrightarrow> pml4_idx v = pml4_idx w \<and> pdpt_idx v = pdpt_idx w \<and>
     pd_idx v = pd_idx w \<and> pt_idx v = pt_idx w"

lemma virt_to_phys_pte:
  "paging_virt_to_phys r v m =
     (case pte_of m r v of None \<Rightarrow> 0 | Some e \<Rightarrow> (e AND ADDR_MASK) OR (v AND 0xFFF))"
  by (simp add: paging_virt_to_phys_def pte_of_def Let_def table_at.simps(2))

lemma idx_bound [simp]:
  "pml4_idx v < 512" "pdpt_idx v < 512" "pd_idx v < 512" "pt_idx v < 512"
proof -
  have "unat (x AND 0x1FF :: u64) < 512" for x
    using unat_and_mask[of x 9] by (simp add: mask_numeral)
  then show "pml4_idx v < 512" "pdpt_idx v < 512" "pd_idx v < 512" "pt_idx v < 512"
    by (simp_all add: pml4_idx_def pdpt_idx_def pd_idx_def pt_idx_def)
qed

lemma table_path_simps [simp]:
  "table_path []"
  "table_path (i # p) \<longleftrightarrow> i < 512 \<and> length p \<le> 2 \<and> table_path p"
  by (auto simp: table_path_def)

lemma table_path_snoc: "table_path (p @ [i]) \<longleftrightarrow> i < 512 \<and> length p \<le> 2 \<and> table_path p"
  by (auto simp: table_path_def)

lemma table_at_snoc:
  "table_at m r (p @ [i]) =
     (case table_at m r p of None \<Rightarrow> None
      | Some t \<Rightarrow> if frames m t i AND PAGE_PRESENT = 0 then None else Some (frames m t i AND ADDR_MASK))"
  by (induction p arbitrary: r) auto

lemma table_at_append:
  "table_at m r (p @ q) = (case table_at m r p of None \<Rightarrow> None | Some t \<Rightarrow> table_at m t q)"
  by (induction p arbitrary: r) auto

declare table_at.simps(2) [simp del]

lemma table_at_cong: "frames m = frames m' \<Longrightarrow> table_at m r p = table_at m' r p"
  by (induction p arbitrary: r) (auto simp: table_at.simps(2))

lemma spaces_ok_cong:
  "frames m = frames m' \<Longrightarrow> pm m = pm m' \<Longrightarrow> spaces_ok m R = spaces_ok m' R"
  by (simp add: spaces_ok_def table_free_def table_at_cong[of m m'])

lemma pte_of_cong: "frames m = frames m' \<Longrightarrow> pte_of m r v = pte_of m' r v"
  by (auto simp: pte_of_def table_at_cong[of m m'] split: option.splits)

lemma spaces_okD:
  assumes "spaces_ok m R"
  shows "pmm_inv (pm m)"
    and "r \<in> R \<Longrightarrow> table_path p \<Longrightarrow> table_at m r p = Some t \<Longrightarrow> \<not> table_free m t"
    and "r \<in> R \<Longrightarrow> r' \<in> R \<Longrightarrow> table_path p \<Longrightarrow> table_path q \<Longrightarrow> table_at m r p = Some t \<Longrightarrow>
      table_at m r' q = Some t \<Longrightarrow> r = r' \<and> p = q"
  using assms unfolding spaces_ok_def by metis+

section \<open>Words\<close>

lemma addr_mask_or:
  fixes t h :: u64
  assumes "t AND 0xFFF = 0" "h AND ADDR_MASK = 0"
  shows "(t OR h) AND ADDR_MASK = t"
proof -
  have "(t OR h) AND ADDR_MASK = t AND ADDR_MASK"
    using assms(2) by (simp add: bit.conj_disj_distrib2)
  also have "\<dots> = (t AND ADDR_MASK) OR (t AND 0xFFF)" using assms(1) by simp
  also have "\<dots> = t" by (metis bit.conj_disj_distrib bit.disj_cancel_left bit.conj_one_right)
  finally show ?thesis .
qed

lemma present_or: "h AND (1::u64) \<noteq> 0 \<Longrightarrow> (t OR h) AND 1 \<noteq> 0"
  by (metis (no_types, opaque_lifting) bit.conj_disj_distrib2 or_eq_0_iff)

section \<open>Writing one entry\<close>

lemma put_entry_simps [simp]:
  "pm (put_entry t i e m) = pm m"
  "frames (put_entry t i e m) u j = (if u = t \<and> j = i then e else frames m u j)"
  by (simp_all add: put_entry_def)

lemma table_free_put_entry [simp]: "table_free (put_entry t i e m) u = table_free m u"
  by (simp add: table_free_def)

text \<open>
  Writing entry \<open>i\<close> of the table at path \<open>p0\<close> leaves every path that does not go through
  that entry as it was.
\<close>

lemma table_at_put_entry:
  assumes ok: "spaces_ok m R" and r: "r \<in> R" "r0 \<in> R"
    and t: "table_at m r0 p0 = Some t" "table_path p0"
    and q: "table_path q" "\<not> (r = r0 \<and> take (Suc (length p0)) q = p0 @ [i])"
  shows "table_at (put_entry t i e m) r q = table_at m r q"
  using q
proof (induction q rule: rev_induct)
  case (snoc j q)
  have qp: "table_path q" "j < 512" using snoc.prems(1) by (auto simp: table_path_snoc)
  have nq: "\<not> (r = r0 \<and> take (Suc (length p0)) q = p0 @ [i])"
  proof
    assume a: "r = r0 \<and> take (Suc (length p0)) q = p0 @ [i]"
    then have "length (take (Suc (length p0)) q) = Suc (length p0)" by simp
    then have "Suc (length p0) \<le> length q" by simp
    with a snoc.prems(2) show False by simp
  qed
  note IH = snoc.IH[OF qp(1) nq]
  show ?case
  proof (cases "table_at m r q")
    case (Some u)
    have "frames (put_entry t i e m) u j = frames m u j"
    proof (cases "u = t \<and> j = i")
      case True
      with spaces_okD(3)[OF ok r qp(1) t(2) Some] t(1) have "r = r0 \<and> q = p0" by simp
      with True snoc.prems(2) show ?thesis by simp
    qed auto
    with IH Some show ?thesis by (simp add: table_at_snoc)
  qed (simp add: table_at_snoc IH)
qed simp

lemma put_leaf_spaces_ok:
  assumes ok: "spaces_ok m R" and r0: "r0 \<in> R"
    and t: "table_at m r0 p0 = Some t" "table_path p0" "length p0 = 3"
  shows "spaces_ok (put_entry t i e m) R"
    and "r \<in> R \<Longrightarrow> table_path q \<Longrightarrow> table_at (put_entry t i e m) r q = table_at m r q"
proof -
  have eq: "table_at (put_entry t i e m) r q = table_at m r q" if "r \<in> R" "table_path q" for r q
  proof (rule table_at_put_entry[OF ok that(1) r0 t(1,2) that(2)])
    have "length (take (Suc (length p0)) q) \<noteq> length (p0 @ [i])"
      using that(2) t(3) by (simp add: table_path_def)
    then show "\<not> (r = r0 \<and> take (Suc (length p0)) q = p0 @ [i])" by metis
  qed
  show "spaces_ok (put_entry t i e m) R"
    using ok eq unfolding spaces_ok_def by auto
  show "r \<in> R \<Longrightarrow> table_path q \<Longrightarrow> table_at (put_entry t i e m) r q = table_at m r q"
    by (rule eq)
qed

section \<open>Adding a table\<close>

lemma alloc_pt_page_ok:
  assumes inv: "pmm_inv (pm m)" and al: "alloc_pt_page m = (u, m1)" and nz: "u \<noteq> 0"
  shows "u AND 0xFFF = 0" "table_free m u" "\<not> table_free m1 u" "table_free m1 x \<Longrightarrow> table_free m x"
    "j < 512 \<Longrightarrow> frames m1 u j = 0" "x \<noteq> u \<Longrightarrow> frames m1 x = frames m x" "pmm_inv (pm m1)"
    "pmm_used (pm m1) = insert u (pmm_used (pm m))" "pmm_pool (pm m1) = pmm_pool (pm m)"
proof -
  obtain p where p: "pmm_alloc_page (pm m) = (u, p)" "m1 = zero_frame u (m\<lparr>pm := p\<rparr>)"
    using al nz by (auto simp: alloc_pt_page_def split: prod.splits if_splits)
  note a = pmm.alloc_some[OF inv p(1) nz]
  show "u AND 0xFFF = 0" using pmm.pool_aligned[OF inv, of u] a by (simp add: mask_numeral)
  show "table_free m u" "\<not> table_free m1 u" "pmm_inv (pm m1)"
    "pmm_used (pm m1) = insert u (pmm_used (pm m))" "pmm_pool (pm m1) = pmm_pool (pm m)"
    using a by (simp_all add: table_free_def p(2) zero_frame_def)
  show "table_free m1 x \<Longrightarrow> table_free m x" "j < 512 \<Longrightarrow> frames m1 u j = 0"
    "x \<noteq> u \<Longrightarrow> frames m1 x = frames m x"
    using a by (auto simp: table_free_def p(2) zero_frame_def)
qed

lemma alloc_pt_page_fail:
  assumes "pmm_inv (pm m)" "alloc_pt_page m = (0, m1)"
  shows "m1 = m"
proof -
  obtain p where p: "pmm_alloc_page (pm m) = (0, p)" "m1 = m\<lparr>pm := p\<rparr>"
    using assms page_addr_nonzero by (auto simp: alloc_pt_page_def split: prod.splits if_splits)
  with pmm.alloc_none[OF assms(1) p(1)] show ?thesis by simp
qed

lemma alloc_pt_page_count:
  assumes "pmm_inv (pm m)" "alloc_pt_page m = (u, m1)" "0 < free_count (pm m)"
  shows "u \<noteq> 0" "free_count (pm m) = Suc (free_count (pm m1))" "pmm_inv (pm m1)"
proof -
  obtain x p where x: "pmm_alloc_page (pm m) = (x, p)" by (cases "pmm_alloc_page (pm m)")
  have "x \<noteq> 0" by (rule alloc_succeeds[OF assms(1,3) x])
  then have p: "pmm_alloc_page (pm m) = (u, p)" "u \<noteq> 0" "pm m1 = p"
    using assms(2) x by (auto simp: alloc_pt_page_def zero_frame_def)
  then show "u \<noteq> 0" "free_count (pm m) = Suc (free_count (pm m1))" "pmm_inv (pm m1)"
    using free_count_alloc[OF assms(1) p(1)] pmm.alloc_some[OF assms(1) p(1)] by auto
qed

lemma table_at_frames_cong:
  assumes ok: "spaces_ok m R" "r \<in> R" and fr: "\<And>x. x \<noteq> u \<Longrightarrow> frames m' x = frames m x"
    and u: "table_free m u" and q: "table_path q"
  shows "table_at m' r q = table_at m r q"
  using q
proof (induction q rule: rev_induct)
  case (snoc j q)
  then have q: "table_path q" by (simp add: table_path_snoc)
  show ?case
  proof (cases "table_at m r q")
    case (Some x)
    with spaces_okD(2)[OF ok q Some] u have "x \<noteq> u" by auto
    then show ?thesis using snoc.IH[OF q] Some by (simp add: table_at_snoc fr)
  qed (simp add: table_at_snoc snoc.IH[OF q])
qed simp

lemma add_table_at:
  assumes ok: "spaces_ok m R" "r0 \<in> R"
    and t: "table_at m r0 p0 = Some t" "table_path (p0 @ [i])"
    and al: "alloc_pt_page m = (u, m1)" "u \<noteq> 0"
    and h: "hier AND 1 \<noteq> 0" "hier AND ADDR_MASK = 0"
    and q: "r \<in> R" "table_path q"
  shows "table_at (put_entry t i (u OR hier) m1) r q =
    (if r = r0 \<and> take (Suc (length p0)) q = p0 @ [i]
     then if q = p0 @ [i] then Some u else None else table_at m r q)"
proof -
  let ?m = "put_entry t i (u OR hier) m1"
  note A = alloc_pt_page_ok[OF spaces_okD(1)[OF ok(1)] al]
  have p0: "table_path p0" and i: "i < 512" using t(2) by (auto simp: table_path_snoc)
  have eq1: "table_at m1 s p = table_at m s p" if "s \<in> R" "table_path p" for s p
    using table_at_frames_cong[OF ok(1) that(1) A(6) A(2) that(2)] by blast
  have ok1: "spaces_ok m1 R"
    using ok(1) eq1 A(3,4,7) unfolding spaces_ok_def by (auto, metis+)
  have tu: "t \<noteq> u" using spaces_okD(2)[OF ok p0 t(1)] A(2) by auto
  show ?thesis
  proof (cases "r = r0 \<and> take (Suc (length p0)) q = p0 @ [i]")
    case True
    then obtain q' where q': "q = (p0 @ [i]) @ q'" by (metis append_take_drop_id)
    have "table_at ?m r p0 = Some t"
      using table_at_put_entry[OF ok1 q(1) ok(2) _ p0 p0, of t i] eq1[OF q(1) p0] t(1) True by simp
    then have at: "table_at ?m r (p0 @ [i]) = Some u"
      using present_or[OF h(1)] addr_mask_or[OF A(1) h(2)] by (simp add: table_at_snoc)
    have "table_at ?m u q' = (if q' = [] then Some u else None)"
    proof (cases q')
      case (Cons j js)
      then have "j < 512" using q(2) q' by (auto simp: table_path_def)
      with Cons tu A(5) show ?thesis by (auto simp: table_at.simps(2))
    qed simp
    moreover have "table_at ?m r q = table_at ?m u q'"
      unfolding q' by (simp only: table_at_append[of ?m r "p0 @ [i]"] at option.case)
    ultimately show ?thesis using True q' by simp
  next
    case False
    have t1: "table_at m1 r0 p0 = Some t" using eq1[OF ok(2) p0] t(1) by simp
    from table_at_put_entry[OF ok1 q(1) ok(2) t1 p0 q(2) False] eq1[OF q] show ?thesis by (simp only: False if_False)
  qed
qed

text \<open>
  The state of an address-space set between the levels of a mapping: \<open>extends m m' R\<close> says
  that \<open>m'\<close> is well formed, keeps every table of \<open>m\<close> and has the same leaf entries.
\<close>

definition extends :: "'a machine_scheme \<Rightarrow> 'a machine_scheme \<Rightarrow> u64 set \<Rightarrow> bool" where
  "extends m m' R \<longleftrightarrow> spaces_ok m' R \<and>
     (\<forall>r\<in>R. \<forall>q x. table_path q \<longrightarrow> table_at m r q = Some x \<longrightarrow> table_at m' r q = Some x) \<and>
     (\<forall>r\<in>R. \<forall>v. pte_of m' r v = pte_of m r v)"

lemma extends_refl: "spaces_ok m R \<Longrightarrow> extends m m R"
  by (simp add: extends_def)

lemma extends_trans: "extends m m1 R \<Longrightarrow> extends m1 m2 R \<Longrightarrow> extends m m2 R"
  by (simp add: extends_def)

lemma add_table_extends:
  assumes ok: "spaces_ok m R" "r0 \<in> R"
    and t: "table_at m r0 p0 = Some t" "table_path (p0 @ [i])"
    and np: "frames m t i AND PAGE_PRESENT = 0"
    and al: "alloc_pt_page m = (u, m1)" "u \<noteq> 0"
    and h: "hier AND 1 \<noteq> 0" "hier AND ADDR_MASK = 0"
  shows "extends m (put_entry t i (u OR hier) m1) R"
proof -
  let ?m = "put_entry t i (u OR hier) m1"
  note A = alloc_pt_page_ok[OF spaces_okD(1)[OF ok(1)] al]
  note T = add_table_at[OF ok t al h]
  have p0: "table_path p0" "length p0 \<le> 2" and i: "i < 512" using t(2) by (auto simp: table_path_snoc)
  have thr: "table_at m r q = None" if "r \<in> R" "r = r0 \<and> take (Suc (length p0)) q = p0 @ [i]" for r q
  proof -
    from that obtain q' where q': "q = (p0 @ [i]) @ q'" by (metis append_take_drop_id)
    have "table_at m r (p0 @ [i]) = None" using that t(1) np by (simp add: table_at_snoc)
    then show ?thesis unfolding q' by (simp only: table_at_append[of m r "p0 @ [i]"] option.case)
  qed
  have old: "table_at ?m r q = Some x \<Longrightarrow> x = u \<and> r = r0 \<and> q = p0 @ [i] \<or> table_at m r q = Some x"
    if "r \<in> R" "table_path q" for r q x
    using T[OF that] by (auto split: if_splits)
  have keep: "table_at m r q = Some x \<Longrightarrow> table_at ?m r q = Some x" if "r \<in> R" "table_path q" for r q x
    using T[OF that] thr[OF that(1)] by auto
  have notu: "table_at m r q = Some x \<Longrightarrow> x \<noteq> u" if "r \<in> R" "table_path q" for r q x
    using spaces_okD(2)[OF ok(1) that] A(2) by auto
  have "spaces_ok ?m R"
    unfolding spaces_ok_def
  proof (intro conjI ballI allI impI)
    show "pmm_inv (pm ?m)" using A(7) by simp
  next
    fix r p x assume a: "r \<in> R" "table_path p" "table_at ?m r p = Some x"
    then show "\<not> table_free ?m x"
      using old[OF a] A(3,4) spaces_okD(2)[OF ok(1) a(1,2)] by auto
  next
    fix r r' p q x
    assume a: "r \<in> R" "r' \<in> R" "table_path p" "table_path q"
      "table_at ?m r p = Some x" "table_at ?m r' q = Some x"
    note o = old[OF a(1,3,5)] old[OF a(2,4,6)] notu[OF a(1,3)] notu[OF a(2,4)]
    have s: "table_at m r p = Some x \<Longrightarrow> table_at m r' q = Some x \<Longrightarrow> r = r' \<and> p = q"
      using spaces_okD(3)[OF ok(1) a(1,2,3,4)] by blast
    from o s show "r = r'" "p = q" by blast+
  qed
  moreover have "pte_of ?m r v = pte_of m r v" if r: "r \<in> R" for r v
  proof -
    let ?q = "[pml4_idx v, pdpt_idx v, pd_idx v]"
    have q: "table_path ?q" by simp
    show ?thesis
    proof (cases "table_at m r ?q")
      case None
      then have "table_at ?m r ?q = None \<or> table_at ?m r ?q = Some u"
        by (cases "table_at ?m r ?q") (auto dest: old[OF r q])
      moreover have "frames ?m u (pt_idx v) = 0"
        using A(5) notu[OF ok(2) p0(1) t(1)] by simp
      ultimately show ?thesis using None by (auto simp: pte_of_def)
    next
      case (Some x)
      have "x \<noteq> t"
        using spaces_okD(3)[OF ok(1) r ok(2) q p0(1) Some] t(1) p0(2) by auto
      then show ?thesis
        using keep[OF r q Some] Some A(6)[OF notu[OF r q Some]] by (simp add: pte_of_def)
    qed
  qed
  ultimately show ?thesis using keep by (simp add: extends_def)
qed

lemma get_or_create_ok:
  assumes ok: "spaces_ok m R" "r \<in> R" and t: "table_at m r p = Some t" "table_path (p @ [i])"
    and h: "hier AND 1 \<noteq> 0" "hier AND ADDR_MASK = 0"
    and g: "get_or_create hier t i m = (res, m')"
  shows "extends m m' R" "res = Some u \<Longrightarrow> table_at m' r (p @ [i]) = Some u"
proof -
  have "extends m m' R \<and> (res = Some u \<longrightarrow> table_at m' r (p @ [i]) = Some u)"
  proof (cases "frames m t i AND PAGE_PRESENT = 0")
    case True
    obtain w m1 where al: "alloc_pt_page m = (w, m1)" by (cases "alloc_pt_page m")
    show ?thesis
    proof (cases "w = 0")
      case True
      then have "m1 = m" using alloc_pt_page_fail[OF spaces_okD(1)[OF ok(1)]] al by simp
      then show ?thesis
        using g True al \<open>frames m t i AND PAGE_PRESENT = 0\<close> ok(1)
        by (auto simp: get_or_create_def extends_refl)
    next
      case False
      then have m': "res = Some w" "m' = put_entry t i (w OR hier) m1"
        using g al \<open>frames m t i AND PAGE_PRESENT = 0\<close> by (auto simp: get_or_create_def)
      from add_table_extends[OF ok t True al False h] add_table_at[OF ok t al False h ok(2) t(2)]
      show ?thesis by (auto simp: m')
    qed
  next
    case False
    then show ?thesis using g t ok(1) by (auto simp: get_or_create_def table_at_snoc extends_refl)
  qed
  then show "extends m m' R" "res = Some u \<Longrightarrow> table_at m' r (p @ [i]) = Some u" by auto
qed

lemma alloc_pt_page_none:
  "pmm_inv (pm m) \<Longrightarrow> alloc_pt_page m = (0, m1) \<Longrightarrow> free_count (pm m1) = 0"
  using alloc_pt_page_fail[of m m1] alloc_pt_page_count[of m 0 m1] by auto

lemma get_or_create_none:
  "pmm_inv (pm m) \<Longrightarrow> get_or_create hier t i m = (None, m') \<Longrightarrow> free_count (pm m') = 0"
  by (auto simp: get_or_create_def alloc_pt_page_none split: if_splits prod.splits)

section \<open>Mapping a page\<close>

lemma map_leaf_none:
  assumes ok: "spaces_ok m R" "r \<in> R" and h: "hier AND 1 \<noteq> 0" "hier AND ADDR_MASK = 0"
    and mp: "map_leaf hier r v e m = (-1, m')"
  shows "free_count (pm m') = 0"
proof -
  obtain o1 m1 where g1: "get_or_create hier r (pml4_idx v) m = (o1, m1)"
    by (cases "get_or_create hier r (pml4_idx v) m")
  note G1 = get_or_create_ok[OF ok _ _ h g1, of "[]", simplified]
  have ok1: "spaces_ok m1 R" using G1(1) by (simp add: extends_def)
  show ?thesis
  proof (cases o1)
    case None
    then show ?thesis using mp g1 get_or_create_none[OF spaces_okD(1)[OF ok(1)]] by (simp add: map_leaf_def)
  next
    case (Some t1)
    obtain o2 m2 where g2: "get_or_create hier t1 (pdpt_idx v) m1 = (o2, m2)"
      by (cases "get_or_create hier t1 (pdpt_idx v) m1")
    note G2 = get_or_create_ok[OF ok1 ok(2) G1(2)[OF Some] _ h g2, simplified]
    have ok2: "spaces_ok m2 R" using G2(1) by (simp add: extends_def)
    show ?thesis
    proof (cases o2)
      case None
      then show ?thesis using mp g1 Some g2 get_or_create_none[OF spaces_okD(1)[OF ok1]]
        by (simp add: map_leaf_def)
    next
      case (Some t2)
      obtain o3 m3 where g3: "get_or_create hier t2 (pd_idx v) m2 = (o3, m3)"
        by (cases "get_or_create hier t2 (pd_idx v) m2")
      then show ?thesis using mp g1 \<open>o1 = Some t1\<close> g2 Some get_or_create_none[OF spaces_okD(1)[OF ok2]]
        by (cases o3) (auto simp: map_leaf_def)
    qed
  qed
qed

lemma put_leaf_pte:
  assumes ok: "spaces_ok m R" "r0 \<in> R" "r \<in> R"
    and t: "table_at m r0 [pml4_idx v, pdpt_idx v, pd_idx v] = Some t"
    and e: "e AND PAGE_PRESENT \<noteq> 0"
  shows "pte_of (put_entry t (pt_idx v) e m) r w =
    (if r = r0 \<and> same_page v w then Some e else pte_of m r w)"
proof -
  let ?m = "put_entry t (pt_idx v) e m" and ?p = "[pml4_idx v, pdpt_idx v, pd_idx v]"
    and ?q = "[pml4_idx w, pdpt_idx w, pd_idx w]"
  have eq: "table_at ?m r ?q = table_at m r ?q"
    by (rule put_leaf_spaces_ok(2)[OF ok(1,2) t _ _ ok(3)]) auto
  show ?thesis
  proof (cases "table_at m r ?q")
    case None
    then have "\<not> (r = r0 \<and> same_page v w)" using t by (auto simp: same_page_def)
    then show ?thesis using None by (simp add: pte_of_def eq)
  next
    case (Some x)
    have "x = t \<longleftrightarrow> r = r0 \<and> ?q = ?p"
    proof
      assume "x = t"
      with Some have "table_at m r ?q = Some t" by simp
      from spaces_okD(3)[OF ok(1,3,2) _ _ this t] show "r = r0 \<and> ?q = ?p" by simp
    next
      assume "r = r0 \<and> ?q = ?p"
      with Some t show "x = t" by simp
    qed
    then show ?thesis using Some e
      by (auto simp: pte_of_def eq same_page_def)
  qed
qed

lemma map_leaf_ok:
  assumes ok: "spaces_ok m R" "r \<in> R" and h: "hier AND 1 \<noteq> 0" "hier AND ADDR_MASK = 0"
    and e: "e AND PAGE_PRESENT \<noteq> 0" and mp: "map_leaf hier r v e m = (res, m')"
  shows "spaces_ok m' R" "res = 0 \<or> res = -1"
    "r' \<in> R \<Longrightarrow> pte_of m' r' w = (if res = 0 \<and> r' = r \<and> same_page v w then Some e else pte_of m r' w)"
proof -
  obtain o1 m1 where g1: "get_or_create hier r (pml4_idx v) m = (o1, m1)"
    by (cases "get_or_create hier r (pml4_idx v) m")
  note G1 = get_or_create_ok[OF ok _ _ h g1, of "[]", simplified]
  have all: "spaces_ok m' R \<and> (res = 0 \<or> res = -1) \<and> (\<forall>r'\<in>R. \<forall>w. pte_of m' r' w =
      (if res = 0 \<and> r' = r \<and> same_page v w then Some e else pte_of m r' w))"
  proof (cases o1)
    case None
    with mp g1 have "res = -1" "m' = m1" by (auto simp: map_leaf_def)
    with G1(1) show ?thesis by (simp add: extends_def)
  next
    case (Some t1)
    have ok1: "spaces_ok m1 R" and t1: "table_at m1 r [pml4_idx v] = Some t1"
      using G1 Some by (auto simp: extends_def)
    obtain o2 m2 where g2: "get_or_create hier t1 (pdpt_idx v) m1 = (o2, m2)"
      by (cases "get_or_create hier t1 (pdpt_idx v) m1")
    note G2 = get_or_create_ok[OF ok1 ok(2) t1 _ h g2, simplified]
    show ?thesis
    proof (cases o2)
      case None
      with mp g1 Some g2 have "res = -1" "m' = m2" by (auto simp: map_leaf_def)
      with extends_trans[OF G1(1) G2(1)] show ?thesis by (simp add: extends_def)
    next
      case (Some t2)
      have ok2: "spaces_ok m2 R" and t2: "table_at m2 r [pml4_idx v, pdpt_idx v] = Some t2"
        using G2 Some by (auto simp: extends_def)
      obtain o3 m3 where g3: "get_or_create hier t2 (pd_idx v) m2 = (o3, m3)"
        by (cases "get_or_create hier t2 (pd_idx v) m2")
      note G3 = get_or_create_ok[OF ok2 ok(2) t2 _ h g3, simplified]
      note E3 = extends_trans[OF extends_trans[OF G1(1) G2(1)] G3(1)]
      show ?thesis
      proof (cases o3)
        case None
        with mp g1 \<open>o1 = Some t1\<close> g2 Some g3 have "res = -1" "m' = m3" by (auto simp: map_leaf_def)
        with E3 show ?thesis by (simp add: extends_def)
      next
        case (Some t3)
        have ok3: "spaces_ok m3 R" and t3: "table_at m3 r [pml4_idx v, pdpt_idx v, pd_idx v] = Some t3"
          using G3 Some by (auto simp: extends_def)
        have m': "res = 0" "m' = put_entry t3 (pt_idx v) e m3"
          using mp g1 \<open>o1 = Some t1\<close> g2 \<open>o2 = Some t2\<close> g3 Some by (auto simp: map_leaf_def)
        have "spaces_ok m' R" unfolding m' by (rule put_leaf_spaces_ok(1)[OF ok3 ok(2) t3]) auto
        moreover have "pte_of m' r' w = (if r' = r \<and> same_page v w then Some e else pte_of m r' w)"
          if "r' \<in> R" for r' w
          using put_leaf_pte[OF ok3 ok(2) that t3 e] E3 that by (simp add: m' extends_def)
        ultimately show ?thesis using m' by simp
      qed
    qed
  qed
  then show "spaces_ok m' R" "res = 0 \<or> res = -1"
    "r' \<in> R \<Longrightarrow> pte_of m' r' w = (if res = 0 \<and> r' = r \<and> same_page v w then Some e else pte_of m r' w)"
    by auto
qed

section \<open>Creating an address space\<close>

lemma fill_pt_frames:
  "frames (fill_pt t g m) u j = (if u = t \<and> j < 512 then g j else frames m u j)"
  "pm (fill_pt t g m) = pm m"
proof -
  have "frames (fold (\<lambda>i. put_entry t i (g i)) [0..<n] m) u j = (if u = t \<and> j < n then g j else frames m u j) \<and>
      pm (fold (\<lambda>i. put_entry t i (g i)) [0..<n] m) = pm m" for n
    by (induction n) auto
  then show "frames (fill_pt t g m) u j = (if u = t \<and> j < 512 then g j else frames m u j)"
    "pm (fill_pt t g m) = pm m"
    by (simp_all add: fill_pt_def)
qed

lemma fill_pt_ok:
  assumes ok: "spaces_ok m R" "r \<in> R" and t: "table_at m r p = Some t" "table_path p" "length p = 3"
    and g: "\<And>i. i < 512 \<Longrightarrow> g i AND PAGE_PRESENT \<noteq> 0"
  shows "spaces_ok (fill_pt t g m) R"
    "r' \<in> R \<Longrightarrow> table_path q \<Longrightarrow> table_at (fill_pt t g m) r' q = table_at m r' q"
    "r' \<in> R \<Longrightarrow> pte_of (fill_pt t g m) r' w =
       (if r' = r \<and> [pml4_idx w, pdpt_idx w, pd_idx w] = p then Some (g (pt_idx w)) else pte_of m r' w)"
proof -
  define I where "I m' \<longleftrightarrow> spaces_ok m' R \<and>
     (\<forall>r'\<in>R. \<forall>q. table_path q \<longrightarrow> table_at m' r' q = table_at m r' q)" for m' :: "'a machine_scheme"
  have "I (fill_pt t g m)"
    unfolding fill_pt_def
  proof (rule fold_inv)
    show "I m" using ok by (simp add: I_def)
  next
    fix i and m' :: "'a machine_scheme" assume I: "I m'"
    then have at: "table_at m' r p = Some t" "spaces_ok m' R" using t ok(2) by (auto simp: I_def)
    show "I (put_entry t i (g i) m')"
      using I put_leaf_spaces_ok[OF at(2) ok(2) at(1) t(2,3), where i = i and e = "g i"] by (auto simp: I_def)
  qed
  then show 1: "spaces_ok (fill_pt t g m) R"
    and 2: "r' \<in> R \<Longrightarrow> table_path q \<Longrightarrow> table_at (fill_pt t g m) r' q = table_at m r' q" for r' q
    by (auto simp: I_def)
  assume r': "r' \<in> R"
  let ?q = "[pml4_idx w, pdpt_idx w, pd_idx w]"
  have eq: "table_at (fill_pt t g m) r' ?q = table_at m r' ?q" by (rule 2[OF r']) simp
  show "pte_of (fill_pt t g m) r' w =
      (if r' = r \<and> ?q = p then Some (g (pt_idx w)) else pte_of m r' w)"
  proof (cases "table_at m r' ?q")
    case None
    then have "\<not> (r' = r \<and> ?q = p)" using t(1) by auto
    with None show ?thesis unfolding pte_of_def eq by (simp only: None option.case if_False)
  next
    case (Some x)
    have "x = t \<longleftrightarrow> r' = r \<and> ?q = p"
    proof
      assume "x = t"
      with Some have "table_at m r' ?q = Some t" by simp
      from spaces_okD(3)[OF ok(1) r' ok(2) _ t(2) this t(1)] show "r' = r \<and> ?q = p" by simp
    next
      assume "r' = r \<and> ?q = p"
      with Some t show "x = t" by simp
    qed
    then show ?thesis unfolding pte_of_def eq using Some g by (simp add: fill_pt_frames)
  qed
qed

lemma alloc_put_commute:
  assumes "alloc_pt_page m = (u, m1)" "u \<noteq> t"
  shows "alloc_pt_page (put_entry t i e m) = (u, put_entry t i e m1)"
  using assms by (auto simp: alloc_pt_page_def put_entry_def zero_frame_def fun_eq_iff
      split: prod.splits if_splits)

text \<open>A freshly allocated, zeroed page is an empty address space beside the existing ones.\<close>

lemma new_root_ok:
  assumes ok: "spaces_ok m R" and al: "alloc_pt_page m = (r, m1)" "r \<noteq> 0"
  shows "spaces_ok m1 (insert r R)" "pte_of m1 r v = None" "r' \<in> R \<Longrightarrow> pte_of m1 r' v = pte_of m r' v"
    "r \<notin> R" "i < 512 \<Longrightarrow> frames m1 r i = 0"
proof -
  note A = alloc_pt_page_ok[OF spaces_okD(1)[OF ok] al]
  have eq: "table_at m1 s p = table_at m s p" if "s \<in> R" "table_path p" for s p
    using table_at_frames_cong[OF ok that(1) A(6) A(2) that(2)] by blast
  have notr: "table_at m s p = Some t \<Longrightarrow> t \<noteq> r" if "s \<in> R" "table_path p" for s p t
    using spaces_okD(2)[OF ok that] A(2) by auto
  show nR: "r \<notin> R" using notr[of r "[]" r] by auto
  have new: "table_at m1 r p = (if p = [] then Some r else None)" if "table_path p" for p
    using that A(5) by (cases p) (auto simp: table_at.simps(2))
  show "spaces_ok m1 (insert r R)"
    unfolding spaces_ok_def
  proof (intro conjI ballI allI impI)
    show "pmm_inv (pm m1)" by (rule A(7))
  next
    fix s p t assume a: "s \<in> insert r R" "table_path p" "table_at m1 s p = Some t"
    show "\<not> table_free m1 t"
    proof (cases "s = r")
      case True
      with a new[OF a(2)] A(3) show ?thesis by (auto split: if_splits)
    next
      case False
      with a eq have "table_at m s p = Some t" by auto
      with spaces_okD(2)[OF ok _ a(2) this] a(1) False A(4) show ?thesis by auto
    qed
  next
    fix s s' p q t
    assume a: "s \<in> insert r R" "s' \<in> insert r R" "table_path p" "table_path q"
      "table_at m1 s p = Some t" "table_at m1 s' q = Some t"
    have o: "z \<in> R \<Longrightarrow> table_path x \<Longrightarrow> table_at m1 z x = Some t \<Longrightarrow> t \<noteq> r \<and> table_at m z x = Some t"
      and n: "table_path x \<Longrightarrow> table_at m1 r x = Some t \<Longrightarrow> x = [] \<and> t = r" for z x
      using eq notr new by (metis, metis option.distinct(1) option.inject)
    have "s = s' \<and> p = q"
    proof (cases "t = r")
      case True
      with a o n show ?thesis by (metis insertE)
    next
      case False
      with a n have R: "s \<in> R" "s' \<in> R" by (metis insertE)+
      with spaces_okD(3)[OF ok R a(3,4)] o[OF R(1) a(3,5)] o[OF R(2) a(4,6)] show ?thesis by simp
    qed
    then show "s = s'" "p = q" by auto
  qed
  show "pte_of m1 r v = None" using new by (simp add: pte_of_def)
  show "pte_of m1 r' v = pte_of m r' v" if r': "r' \<in> R" for r' v
  proof -
    have q: "table_path [pml4_idx v, pdpt_idx v, pd_idx v]" by simp
    show ?thesis
      using eq[OF r' q] notr[OF r' q] A(6) by (auto simp: pte_of_def split: option.splits)
  qed
  show "i < 512 \<Longrightarrow> frames m1 r i = 0" by (rule A(5))
qed

text \<open>The entry \<open>paging_new_user_space\<close> puts at page \<open>i\<close> of table \<open>p\<close>.\<close>

definition identity_entry :: "nat \<Rightarrow> nat \<Rightarrow> u64" where
  "identity_entry p i = (of_nat p * 0x200000 + of_nat i * 0x1000) OR (PAGE_PRESENT OR PAGE_WRITABLE)"

lemma identity_entry_present [simp]: "identity_entry p i AND PAGE_PRESENT \<noteq> 0"
  unfolding identity_entry_def by (rule present_or) simp

definition low_tables :: "nat \<Rightarrow> u64 \<Rightarrow> bool" where
  "low_tables n v \<longleftrightarrow> pml4_idx v = 0 \<and> pdpt_idx v = 0 \<and> pd_idx v < n"

lemma new_space_pts_ok:
  assumes "spaces_ok m R" "r \<in> R" "table_at m r [0, 0] = Some pd"
    "\<forall>p<512. n \<le> p \<longrightarrow> frames m pd p AND PAGE_PRESENT = 0"
    "\<forall>r'\<in>R. \<forall>v. pte_of m r' v =
       (if r' = r \<and> low_tables n v then Some (identity_entry (pd_idx v) (pt_idx v)) else f r' v)"
    "n \<le> k" "k \<le> 512" "new_space_pts [n..<k] pd m = (res, m')"
  shows "spaces_ok m' R \<and> (\<forall>r'\<in>R - {r}. \<forall>v. pte_of m' r' v = f r' v) \<and>
     (res \<longrightarrow> (\<forall>v. pte_of m' r v =
        (if low_tables k v then Some (identity_entry (pd_idx v) (pt_idx v)) else f r v)))"
  using assms
proof (induction "k - n" arbitrary: n m)
  case 0
  then show ?case by auto
next
  case (Suc d)
  note ok = Suc.prems(1,2) and pd = Suc.prems(3) and np = Suc.prems(4) and pte = Suc.prems(5)
  have nk: "n < k" "n < 512" using Suc.hyps(2) Suc.prems(7) by auto
  obtain t m1 where al: "alloc_pt_page m = (t, m1)" by (cases "alloc_pt_page m")
  show ?case
  proof (cases "t = 0")
    case True
    then have "m' = m" "\<not> res"
      using alloc_pt_page_fail[OF spaces_okD(1)[OF ok(1)]] al Suc.prems(8) nk
      by (auto simp: upt_conv_Cons)
    then show ?thesis using ok pte by auto
  next
    case False
    let ?h = "PAGE_PRESENT OR PAGE_WRITABLE OR PAGE_USER"
    let ?m2 = "put_entry pd n (t OR ?h) m1"
    let ?m3 = "fill_pt t (identity_entry n) ?m2"
    have path: "table_path ([0, 0] @ [n])" using nk by simp
    have h: "?h AND 1 \<noteq> 0" "?h AND ADDR_MASK = 0" by simp_all
    note e = add_table_extends[OF ok pd path _ al False h]
    have np': "frames m pd n AND PAGE_PRESENT = 0" using np nk by simp
    have ok2: "spaces_ok ?m2 R" and pte2: "\<And>r' v. r' \<in> R \<Longrightarrow> pte_of ?m2 r' v = pte_of m r' v"
      and pd2: "table_at ?m2 r [0, 0] = Some pd"
      using e[OF np'] ok(2) pd by (auto simp: extends_def)
    have t2: "table_at ?m2 r [0, 0, n] = Some t"
      using add_table_at[OF ok pd path al False h ok(2) path] by simp
    have p3: "table_path [0, 0, n]" "length [0, 0, n] = 3" using nk by auto
    note f = fill_pt_ok[OF ok2 ok(2) t2 p3, of "identity_entry n", OF identity_entry_present]
    note A = alloc_pt_page_ok[OF spaces_okD(1)[OF ok(1)] al False]
    have "pd \<noteq> t" using spaces_okD(2)[OF ok _ pd] A(2) by auto
    then have np3: "\<forall>p<512. Suc n \<le> p \<longrightarrow> frames ?m3 pd p AND PAGE_PRESENT = 0"
      using np A(6)[of pd] by (auto simp: fill_pt_frames)
    have pte3: "\<forall>r'\<in>R. \<forall>v. pte_of ?m3 r' v = (if r' = r \<and> low_tables (Suc n) v
        then Some (identity_entry (pd_idx v) (pt_idx v)) else f r' v)"
      using f(3) pte2 pte nk by (auto simp: low_tables_def less_Suc_eq)
    have run: "new_space_pts [Suc n..<k] pd ?m3 = (res, m')"
      using Suc.prems(8) nk al False by (simp add: upt_conv_Cons identity_entry_def[abs_def])
    have d: "d = k - Suc n" "Suc n \<le> k" using Suc.hyps(2) nk by auto
    have "spaces_ok ?m3 R" "table_at ?m3 r [0, 0] = Some pd"
      using f(1) f(2)[OF ok(2), of "[0, 0]"] pd2 nk by auto
    then show ?thesis
      by (rule Suc.hyps(1)[OF d(1) _ ok(2) _ np3 pte3 d(2) Suc.prems(7) run])
  qed
qed

lemma new_user_space_ok:
  assumes ok: "spaces_ok m R" and new: "paging_new_user_space m = (r, m')" and r: "r \<noteq> 0"
  shows "spaces_ok m' (insert r R)" "r \<notin> R"
    "r' \<in> R \<Longrightarrow> pte_of m' r' v = pte_of m r' v"
    "pte_of m' r v = (if low_tables NUM_PT v then Some (identity_entry (pd_idx v) (pt_idx v)) else None)"
proof -
  let ?h = "7 :: u64" and ?R = "insert r R"
  have h: "?h AND 1 \<noteq> 0" "?h AND ADDR_MASK = 0" by simp_all
  obtain pml4 m1 where a1: "alloc_pt_page m = (pml4, m1)" by (cases "alloc_pt_page m")
  obtain pdpt m2 where a2: "alloc_pt_page m1 = (pdpt, m2)" by (cases "alloc_pt_page m1")
  obtain pd m3 where a3: "alloc_pt_page m2 = (pd, m3)" by (cases "alloc_pt_page m2")
  let ?m4 = "put_entry pml4 0 (pdpt OR ?h) m3"
  let ?m5 = "put_entry pdpt 0 (pd OR ?h) ?m4"
  obtain okp m6 where lp: "new_space_pts [0..<NUM_PT] pd ?m5 = (okp, m6)"
    by (cases "new_space_pts [0..<NUM_PT] pd ?m5")
  have nz: "pml4 \<noteq> 0" "pdpt \<noteq> 0" "pd \<noteq> 0" and eqs: "okp" "r = pml4" "m' = m6"
    using new r unfolding paging_new_user_space_def Let_def
    by (auto simp: a1 a2 a3 lp split: if_splits)
  note N = new_root_ok[OF ok a1 nz(1)]
  have ok1: "spaces_ok m1 ?R" and inv1: "pmm_inv (pm m1)" using N(1) eqs spaces_okD(1) by auto
  note A2 = alloc_pt_page_ok[OF inv1 a2 nz(2)]
  let ?m2 = "put_entry r 0 (pdpt OR ?h) m2"
  have r0: "table_at m1 r [] = Some r" "table_path ([] @ [0])" "r \<in> ?R" by auto
  have np0: "frames m1 r 0 AND PAGE_PRESENT = 0" using N(5)[of 0] eqs by simp
  note E2 = add_table_extends[OF ok1 r0(3) r0(1,2) np0 a2 nz(2) h]
  have ok2: "spaces_ok ?m2 ?R" using E2 by (simp add: extends_def)
  have t1: "table_at ?m2 r [0] = Some pdpt"
    using add_table_at[OF ok1 r0(3) r0(1,2) a2 nz(2) h r0(3,2)] by simp
  have rpd: "pdpt \<noteq> r" using spaces_okD(2)[OF ok1 r0(3) _ r0(1)] A2(2) by auto
  have np1: "frames ?m2 pdpt 0 AND PAGE_PRESENT = 0" using A2(5)[of 0] rpd by simp
  have "pd \<noteq> r"
  proof
    assume "pd = r"
    moreover have "table_free m2 pd" by (rule alloc_pt_page_ok(2)[OF A2(7) a3 nz(3)])
    ultimately have "table_free m1 r" using A2(4) by simp
    then show False using spaces_okD(2)[OF ok1 r0(3) _ r0(1)] by simp
  qed
  then have a3': "alloc_pt_page ?m2 = (pd, put_entry r 0 (pdpt OR ?h) m3)"
    by (rule alloc_put_commute[OF a3])
  have p1: "table_path ([0] @ [0])" by simp
  note E3 = add_table_extends[OF ok2 r0(3) t1 p1 np1 a3' nz(3) h]
  have t2: "table_at ?m5 r [0, 0] = Some pd"
    using add_table_at[OF ok2 r0(3) t1 p1 a3' nz(3) h r0(3) p1] eqs by simp
  have ok5: "spaces_ok ?m5 ?R" using E3 eqs by (simp add: extends_def)
  have pte5: "\<forall>s\<in>?R. \<forall>v. pte_of ?m5 s v = (if s = r then None else pte_of m s v)"
    using extends_trans[OF E2 E3] N(2,3) eqs by (auto simp: extends_def)
  have zero5: "\<forall>p<512. 0 \<le> p \<longrightarrow> frames ?m5 pd p AND PAGE_PRESENT = 0"
  proof (intro allI impI)
    fix p :: nat assume "p < 512"
    have "pd \<noteq> pdpt"
      using alloc_pt_page_ok(2)[OF A2(7) a3 nz(3)] A2(3) by auto
    then show "frames ?m5 pd p AND PAGE_PRESENT = 0"
      using alloc_pt_page_ok(5)[OF A2(7) a3 nz(3) \<open>p < 512\<close>] \<open>pd \<noteq> r\<close> eqs by simp
  qed
  have pte5': "\<forall>s\<in>?R. \<forall>v. pte_of ?m5 s v = (if s = r \<and> low_tables 0 v
      then Some (identity_entry (pd_idx v) (pt_idx v)) else if s = r then None else pte_of m s v)"
    using pte5 by (simp add: low_tables_def)
  note L = new_space_pts_ok[OF ok5 r0(3) t2 zero5 pte5' _ _ lp]
  show "spaces_ok m' ?R" "r \<notin> R" using L N(4) eqs by auto
  show "r' \<in> R \<Longrightarrow> pte_of m' r' v = pte_of m r' v"
    using L N(4) eqs by auto
  show "pte_of m' r v = (if low_tables NUM_PT v then Some (identity_entry (pd_idx v) (pt_idx v)) else None)"
    using L eqs by auto
qed

section \<open>The low 16 MiB\<close>

lemma unat_and_0x1FF: "unat (x AND 0x1FF :: u64) = unat x mod 512"
  using unat_and_mask[of x 9] by (simp add: mask_numeral)

lemma idx_unat:
  "pml4_idx v = unat v div 2 ^ 39 mod 512" "pdpt_idx v = unat v div 2 ^ 30 mod 512"
  "pd_idx v = unat v div 2 ^ 21 mod 512" "pt_idx v = unat v div 2 ^ 12 mod 512"
  by (simp_all only: pml4_idx_def pdpt_idx_def pd_idx_def pt_idx_def unat_and_0x1FF unat_drop_bit)

lemma low_tables_iff: "v < 2 ^ 48 \<Longrightarrow> low_tables 8 v \<longleftrightarrow> v < 0x1000000"
proof -
  assume "v < 2 ^ 48"
  then have n: "unat v < 2 ^ 48" by (simp add: word_less_nat_alt)
  define a where "a = unat v div 2097152"
  have a: "unat v div 1073741824 = a div 512" "unat v div 549755813888 = a div 262144"
    by (simp_all add: a_def div_mult2_eq[symmetric])
  have idx: "low_tables 8 v \<longleftrightarrow> a div 262144 mod 512 = 0 \<and> a div 512 mod 512 = 0 \<and> a mod 512 < 8"
    by (simp add: low_tables_def idx_unat a a_def)
  have lt: "a < 134217728" using n by (simp add: a_def div_less_iff_less_mult)
  have "low_tables 8 v \<longleftrightarrow> a < 8"
  proof
    assume "low_tables 8 v"
    then have l: "a div 262144 mod 512 = 0" "a div 512 mod 512 = 0" "a mod 512 < 8"
      by (simp_all add: idx)
    have "a div 262144 < 512" using lt by (simp add: div_less_iff_less_mult)
    with l(1) have "a div 262144 = 0" by simp
    then have "a < 262144" by (simp add: div_eq_0_iff)
    then have "a div 512 < 512" by (simp add: div_less_iff_less_mult)
    with l(2) have "a div 512 = 0" by simp
    then have "a < 512" by (simp add: div_eq_0_iff)
    with l(3) show "a < 8" by simp
  next
    assume "a < 8"
    then show "low_tables 8 v" by (simp add: idx)
  qed
  also have "\<dots> \<longleftrightarrow> unat v < 0x1000000" by (simp add: a_def div_less_iff_less_mult)
  finally show ?thesis by (simp add: word_less_nat_alt)
qed

lemma low_page_number: "(n :: nat) < 16777216 \<Longrightarrow>
  n div 2097152 mod 512 * 2097152 + n div 4096 mod 512 * 4096 = n div 4096 * 4096"
proof -
  assume "n < 16777216"
  then have d: "n div 2097152 mod 512 = n div 2097152" by (simp add: div_less_iff_less_mult)
  define k where "k = n div 4096"
  have "n div 2097152 = k div 512" by (simp add: k_def div_mult2_eq[symmetric])
  moreover have "k div 512 * 512 + k mod 512 = k" by (rule div_mult_mod_eq)
  ultimately show ?thesis unfolding d k_def[symmetric] by linarith
qed

lemma identity_addr:
  assumes "v < 0x1000000"
  shows "of_nat (pd_idx v) * 0x200000 + of_nat (pt_idx v) * 0x1000 = v AND ADDR_MASK"
proof -
  have v: "unat v < 16777216" using assms by (simp add: word_less_nat_alt)
  have "(2 :: nat) ^ 21 = 2097152" "(2 :: nat) ^ 12 = 4096" by simp_all
  with low_page_number[OF v] have "pd_idx v * 0x200000 + pt_idx v * 0x1000 = unat (v AND ADDR_MASK)"
    by (simp only: idx_unat unat_page_of)
  then have "(of_nat (pd_idx v * 0x200000 + pt_idx v * 0x1000) :: u64) = of_nat (unat (v AND ADDR_MASK))"
    by (simp only:)
  then show ?thesis by simp
qed

section \<open>Success\<close>

lemma new_space_pts_succeeds:
  "pmm_inv (pm m) \<Longrightarrow> length ps \<le> free_count (pm m) \<Longrightarrow> fst (new_space_pts ps pd m)"
proof (induction ps arbitrary: m)
  case (Cons p ps)
  obtain t m1 where al: "alloc_pt_page m = (t, m1)" by (cases "alloc_pt_page m")
  from Cons.prems have "0 < free_count (pm m)" by simp
  from alloc_pt_page_count[OF Cons.prems(1) al this] Cons.prems(2) show ?case
    by (auto simp: al fill_pt_frames intro!: Cons.IH)
qed simp

lemma alloc_pt_page_succeeds:
  "pmm_inv (pm m) \<Longrightarrow> 0 < free_count (pm m) \<Longrightarrow> \<exists>u m1. alloc_pt_page m = (u, m1) \<and> u \<noteq> 0 \<and>
     pmm_inv (pm m1) \<and> free_count (pm m) = Suc (free_count (pm m1))"
  by (metis alloc_pt_page_count surj_pair)

lemma new_space_succeeds:
  assumes "pmm_inv (pm m)" "11 \<le> free_count (pm m)"
  shows "fst (paging_new_user_space m) \<noteq> 0"
proof -
  obtain a m1 where 1: "alloc_pt_page m = (a, m1)" "a \<noteq> 0" "pmm_inv (pm m1)"
      "free_count (pm m) = Suc (free_count (pm m1))"
    using alloc_pt_page_succeeds[of m] assms by auto
  obtain b m2 where 2: "alloc_pt_page m1 = (b, m2)" "b \<noteq> 0" "pmm_inv (pm m2)"
      "free_count (pm m1) = Suc (free_count (pm m2))"
    using alloc_pt_page_succeeds[of m1] assms 1 by auto
  obtain c m3 where 3: "alloc_pt_page m2 = (c, m3)" "c \<noteq> 0" "pmm_inv (pm m3)"
      "free_count (pm m2) = Suc (free_count (pm m3))"
    using alloc_pt_page_succeeds[of m2] assms 1 2 by auto
  have "fst (new_space_pts [0..<NUM_PT] c (put_entry b 0 (c OR 7) (put_entry a 0 (b OR 7) m3)))"
    using new_space_pts_succeeds[of "put_entry b 0 (c OR 7) (put_entry a 0 (b OR 7) m3)" "[0..<NUM_PT]"]
      1 2 3 assms(2) by simp
  then show ?thesis
    by (auto simp: paging_new_user_space_def Let_def 1 2 3 split: prod.split)
qed

text \<open>A machine as \<^verbatim>\<open>kernel_main\<close> leaves it after \<^verbatim>\<open>pmm_init\<close>.\<close>

definition sample_machine :: machine where
  "sample_machine = \<lparr>pm = pmm_init 0x200000 0x4000000 sample_pmm, frames = (\<lambda>_ _. 0), kernel_pml4 = 0x120000,
     syms = \<lparr>sym_pml4 = 0x120000, sym_pdpt = 0x121000, sym_pd = 0x122000, sym_pt = 0x123000\<rparr>, cr3 = 0x120000\<rparr>"

lemma sample_machine_facts:
  "pmm_inv (pm sample_machine)" "free_count (pm sample_machine) = 15872"
proof -
  have n: "page_count 0x200000 0x4000000 = 15872" by (simp add: page_count_def)
  note F = pmm_init_fields(2)[of "0x200000" "0x4000000" sample_pmm]
    pmm_init_fields(1)[of "0x200000" "0x4000000" sample_pmm]
    pmm_init_fields(3)[of "0x200000" "0x4000000" _ sample_pmm]
  show inv: "pmm_inv (pm sample_machine)"
    using F(1,2) n by (simp add: sample_machine_def pmm_inv_def)
  have "pmm_used (pm sample_machine) = {}"
    using F n by (fastforce simp: pmm_used_def sample_machine_def)
  with free_count_unused[OF inv] F(1) n show "free_count (pm sample_machine) = 15872"
    by (simp add: sample_machine_def)
qed

section \<open>Properties\<close>

lemma user_hier: "(PAGE_PRESENT OR PAGE_WRITABLE OR PAGE_USER) AND 1 \<noteq> 0"
  "(PAGE_PRESENT OR PAGE_WRITABLE OR PAGE_USER) AND ADDR_MASK = 0" by simp_all

lemma spaces_ok_empty: "pmm_inv (pm m) \<Longrightarrow> spaces_ok m {}"
  by (simp add: spaces_ok_def)

lemma sample_space:
  obtains r m where "paging_new_user_space sample_machine = (r, m)" "r \<noteq> 0" "spaces_ok m {r}"
proof -
  obtain r m where new: "paging_new_user_space sample_machine = (r, m)"
    by (cases "paging_new_user_space sample_machine")
  have inv: "pmm_inv (pm sample_machine)" by (rule sample_machine_facts)
  have r: "r \<noteq> 0" using new_space_succeeds[of sample_machine] new sample_machine_facts by simp
  show ?thesis using that[OF new r] new_user_space_ok(1)[OF spaces_ok_empty[OF inv] new r] by simp
qed



text \<open>
  C23 (refinement).  \<^verbatim>\<open>paging_map_user_page\<close> implements the update of the abstract address
  space: on success the page of \<open>v\<close> maps to the new entry, every other page of every
  address space is as before and the walk of \<^verbatim>\<open>paging_virt_to_phys\<close> finds the new frame
  at the offset of \<open>v\<close>; it fails only when no page is free, and then no mapping changes.
\<close>

theorem paging_map_user_page_correct:
  assumes "spaces_ok m R" "r \<in> R" "flags AND ADDR_MASK = 0"
    and "paging_map_user_page r v p flags m = (res, m')"
  shows "spaces_ok m' R \<and> (res = 0 \<or> res = -1 \<and> free_count (pm m') = 0) \<and>
    (\<forall>r'\<in>R. \<forall>w. pte_of m' r' w =
       (if res = 0 \<and> r' = r \<and> same_page v w
        then Some ((p AND ADDR_MASK) OR flags OR PAGE_PRESENT OR PAGE_USERALLOC) else pte_of m r' w)) \<and>
    (res = 0 \<longrightarrow> paging_virt_to_phys r v m' = (p AND ADDR_MASK) OR (v AND 0xFFF))"
proof -
  let ?e = "(p AND ADDR_MASK) OR flags OR PAGE_PRESENT OR PAGE_USERALLOC"
  have e: "?e AND PAGE_PRESENT \<noteq> 0"
    using present_or[of "PAGE_PRESENT OR PAGE_USERALLOC" "(p AND ADDR_MASK) OR flags"] by (simp add: or.assoc)
  note mp = assms(4)[unfolded paging_map_user_page_def]
  note M = map_leaf_ok[OF assms(1,2) user_hier e mp]
  have "res = -1 \<Longrightarrow> free_count (pm m') = 0"
    using map_leaf_none[OF assms(1,2) user_hier] mp by simp
  moreover have "res = 0 \<Longrightarrow> pte_of m' r v = Some ?e"
    using M(3)[OF assms(2), of v] by (simp add: same_page_def)
  moreover have "?e AND ADDR_MASK = p AND ADDR_MASK"
    using assms(3) addr_mask_or[of "p AND ADDR_MASK" "flags OR PAGE_PRESENT OR PAGE_USERALLOC"]
    by (simp add: or.assoc and.assoc bit.conj_disj_distrib2)
  ultimately show ?thesis using M(1,2) M(3) by (auto simp: virt_to_phys_pte)
qed

theorem paging_map_user_page_correct_witness:
  "\<exists>r (m :: machine) res m'. spaces_ok m {r} \<and> paging_map_user_page r 0x1000000 0x300000 7 m = (res, m') \<and>
     spaces_ok m' {r} \<and> res \<in> {0, -1}"
proof -
  obtain r m where s: "paging_new_user_space sample_machine = (r, m)" "r \<noteq> 0" "spaces_ok m {r}"
    by (rule sample_space)
  obtain res m' where mp: "paging_map_user_page r 0x1000000 0x300000 7 m = (res, m')"
    by (cases "paging_map_user_page r 0x1000000 0x300000 7 m")
  have "spaces_ok m' {r} \<and> res \<in> {0, -1}"
    using paging_map_user_page_correct [OF s(3) _ _ mp] by auto
  with s(3) mp show ?thesis by blast
qed

end
