(* ===== verification/Fifo.thy ===== *)
theory Fifo
  imports Prelude
begin

text \<open>
  Bounded queues.  The kernel has three of them: the key events of \<^verbatim>\<open>drivers/keyboard.c\<close>, the mouse
  events of \<^verbatim>\<open>drivers/mouse.c\<close> and the bytes of a pipe (\<^verbatim>\<open>sched.h\<close>).  The locale states what their
  clients rely on; \<open>ring\<close> is the abstraction of a circular buffer all three share.
\<close>

section \<open>The interface\<close>

locale bounded_fifo =
  fixes put :: "'a \<Rightarrow> 's \<Rightarrow> 's"
    and get :: "'s \<Rightarrow> 'a option \<times> 's"
    and contents :: "'s \<Rightarrow> 'a list"
    and capacity :: nat
    and inv :: "'s \<Rightarrow> bool"
  assumes put_law: "inv s \<Longrightarrow> inv (put x s) \<and>
      contents (put x s) = (if length (contents s) < capacity then contents s @ [x] else contents s)"
    and get_empty: "inv s \<Longrightarrow> contents s = [] \<Longrightarrow> get s = (None, s)"
    and get_some: "inv s \<Longrightarrow> contents s = x # xs \<Longrightarrow>
      \<exists>s'. get s = (Some x, s') \<and> inv s' \<and> contents s' = xs"
    and bounded: "inv s \<Longrightarrow> length (contents s) \<le> capacity"

text \<open>Reading until the queue is empty, at most \<open>n\<close> times.\<close>

fun drain :: "('s \<Rightarrow> 'a option \<times> 's) \<Rightarrow> nat \<Rightarrow> 's \<Rightarrow> 'a list \<times> 's" where
  "drain gt 0 s = ([], s)"
| "drain gt (Suc n) s =
     (case gt s of (None, s') \<Rightarrow> ([], s')
      | (Some x, s') \<Rightarrow> (case drain gt n s' of (xs, s'') \<Rightarrow> (x # xs, s'')))"

context bounded_fifo begin

lemma put_many:
  "inv s \<Longrightarrow> inv (fold put xs s) \<and> contents (fold put xs s) = contents s @ take (capacity - length (contents s)) xs"
proof (induction xs arbitrary: s)
  case (Cons x xs)
  note P = put_law[OF Cons.prems, of x]
  show ?case
  proof (cases "length (contents s) < capacity")
    case True
    then have "capacity - length (contents s) = Suc (capacity - length (contents s @ [x]))" by simp
    then show ?thesis using Cons.IH[of "put x s"] P True by simp
  qed (use Cons.IH[of "put x s"] P in auto)
qed simp

lemma put_many_take:
  "inv s \<Longrightarrow> inv (fold put xs s) \<and> contents (fold put xs s) = take capacity (contents s @ xs)"
  using put_many[of s xs] bounded[of s] by simp

lemma drain_spec:
  "inv s \<Longrightarrow> \<exists>s'. drain get n s = (take n (contents s), s') \<and> inv s' \<and> contents s' = drop n (contents s)"
proof (induction n arbitrary: s)
  case (Suc n)
  show ?case
  proof (cases "contents s")
    case Nil
    then show ?thesis using get_empty[OF Suc.prems Nil] Suc.prems by simp
  next
    case (Cons x xs)
    from get_some[OF Suc.prems Cons] obtain t where t: "get s = (Some x, t)" "inv t" "contents t = xs" by blast
    from Suc.IH[OF t(2)] t Cons show ?thesis by auto
  qed
qed simp

text \<open>What was put comes out, in order, up to the capacity; the rest was dropped.\<close>

lemma fifo:
  "inv s \<Longrightarrow> contents s = [] \<Longrightarrow> \<exists>s'. drain get capacity (fold put xs s) = (take capacity xs, s') \<and>
     inv s' \<and> contents s' = []"
  using put_many[of s xs] drain_spec[of "fold put xs s" capacity] by auto

end

section \<open>Circular buffers\<close>

text \<open>The \<open>c\<close> elements of a circular buffer of size \<open>n\<close> from index \<open>r\<close> on.\<close>

definition ring :: "nat \<Rightarrow> (nat \<Rightarrow> 'a) \<Rightarrow> nat \<Rightarrow> nat \<Rightarrow> 'a list" where
  "ring n buf r c = map (\<lambda>k. buf ((r + k) mod n)) [0..<c]"

lemma length_ring [simp]: "length (ring n buf r c) = c"
  by (simp add: ring_def)

lemma ring_0 [simp]: "ring n buf r 0 = []"
  by (simp add: ring_def)

lemma ring_put: "c < n \<Longrightarrow> ring n (buf((r + c) mod n := x)) r (Suc c) = ring n buf r c @ [x]"
proof -
  assume c: "c < n"
  have "(r + k) mod n \<noteq> (r + c) mod n" if "k < c" for k
  proof
    assume "(r + k) mod n = (r + c) mod n"
    then have "(r + c - (r + k)) mod n = 0" by (metis mod_eq_dvd_iff_nat le_add1 nat_add_left_cancel_le
          less_imp_le_nat that dvd_imp_mod_0)
    with c that show False by simp
  qed
  then show ?thesis by (auto simp: ring_def)
qed

lemma ring_get: "ring n buf r (Suc c) = buf (r mod n) # ring n buf ((r + 1) mod n) c"
  by (auto simp: ring_def upt_conv_Cons map_Suc_upt[symmetric] mod_simps comp_def
      simp del: upt_Suc map_Suc_upt intro!: map_cong)

text \<open>The number of elements when only the two indices are kept: one slot stays free.\<close>

definition ring_count :: "nat \<Rightarrow> nat \<Rightarrow> nat \<Rightarrow> nat" where
  "ring_count n r w = (w + n - r) mod n"

lemma ring_count:
  assumes "r < n" "w < n"
  shows "ring_count n r w < n" "(r + ring_count n r w) mod n = w" "ring_count n r w = 0 \<longleftrightarrow> r = w"
    "(w + 1) mod n = r \<longleftrightarrow> ring_count n r w = n - 1"
    "(w + 1) mod n \<noteq> r \<Longrightarrow> ring_count n r ((w + 1) mod n) = Suc (ring_count n r w)"
    "r \<noteq> w \<Longrightarrow> ring_count n r w = Suc (ring_count n ((r + 1) mod n) w)"
proof -
  have c: "ring_count n r w = (if r \<le> w then w - r else w + n - r)" if "r < n" "w < n" for r w
    using that by (auto simp: ring_count_def mod_if)
  have s: "(w + 1) mod n = (if w + 1 = n then 0 else w + 1)" "(r + 1) mod n = (if r + 1 = n then 0 else r + 1)"
    using assms by auto
  show "ring_count n r w < n" "(r + ring_count n r w) mod n = w" "ring_count n r w = 0 \<longleftrightarrow> r = w"
    using assms by (auto simp: c mod_if)
  show "(w + 1) mod n = r \<longleftrightarrow> ring_count n r w = n - 1"
    using assms c[OF assms] s by (auto split: if_splits)
  show "(w + 1) mod n \<noteq> r \<Longrightarrow> ring_count n r ((w + 1) mod n) = Suc (ring_count n r w)"
    using assms c[OF assms] c[of r "(w + 1) mod n"] s by (auto split: if_splits)
  show "r \<noteq> w \<Longrightarrow> ring_count n r w = Suc (ring_count n ((r + 1) mod n) w)"
    using assms c[OF assms] c[of "(r + 1) mod n" w] s by (auto split: if_splits)
qed

text \<open>The two index operations on the elements between the indices.\<close>

definition ring_elems :: "nat \<Rightarrow> (nat \<Rightarrow> 'a) \<Rightarrow> nat \<Rightarrow> nat \<Rightarrow> 'a list" where
  "ring_elems n buf r w = ring n buf r (ring_count n r w)"

lemma ring_elems_put:
  assumes "r < n" "w < n"
  shows "(w + 1) mod n = r \<Longrightarrow> length (ring_elems n buf r w) = n - 1"
    "(w + 1) mod n \<noteq> r \<Longrightarrow> ring_elems n (buf(w := x)) r ((w + 1) mod n) = ring_elems n buf r w @ [x]"
    "(w + 1) mod n \<noteq> r \<Longrightarrow> length (ring_elems n buf r w) < n - 1"
    "length (ring_elems n buf r w) \<le> n - 1"
proof -
  note R = ring_count[OF assms]
  show "(w + 1) mod n = r \<Longrightarrow> length (ring_elems n buf r w) = n - 1"
    using R(4) by (simp add: ring_elems_def)
  show "(w + 1) mod n \<noteq> r \<Longrightarrow> ring_elems n (buf(w := x)) r ((w + 1) mod n) = ring_elems n buf r w @ [x]"
    using ring_put[OF R(1), where r = r and buf = buf and x = x, unfolded R(2)] R(5)
    by (simp add: ring_elems_def)
  show "(w + 1) mod n \<noteq> r \<Longrightarrow> length (ring_elems n buf r w) < n - 1" "length (ring_elems n buf r w) \<le> n - 1"
    using R(1,4) by (auto simp: ring_elems_def)
qed

lemma ring_elems_get:
  assumes "r < n" "w < n"
  shows "ring_elems n buf r w = [] \<longleftrightarrow> r = w"
    "r \<noteq> w \<Longrightarrow> ring_elems n buf r w = buf r # ring_elems n buf ((r + 1) mod n) w"
proof -
  note R = ring_count[OF assms]
  have "length (ring_elems n buf r w) = 0 \<longleftrightarrow> r = w" using R(3) by (simp add: ring_elems_def)
  then show "ring_elems n buf r w = [] \<longleftrightarrow> r = w" by simp
  show "r \<noteq> w \<Longrightarrow> ring_elems n buf r w = buf r # ring_elems n buf ((r + 1) mod n) w"
    using assms(1) by (simp add: ring_elems_def R(6) ring_get)
qed

end
