(* ===== verification/Keyboard.thy ===== *)
theory Keyboard
  imports Fifo
begin

text \<open>
  The terminal state of \<^verbatim>\<open>kernel/tty.c\<close> and the PS/2 keyboard driver \<^verbatim>\<open>kernel/drivers/keyboard.c\<close>:
  the modifier and \<^verbatim>\<open>E0\<close>-prefix state machine fed by IRQ 1 and the queue of key events that
  system calls and the console read.  The queue is an interpretation of \<open>bounded_fifo\<close>.
\<close>

section \<open>Terminal\<close>

abbreviation TTY_MODE_COOKED :: c_int where "TTY_MODE_COOKED \<equiv> 0"
abbreviation TTY_MODE_RAW :: c_int where "TTY_MODE_RAW \<equiv> 1"

record tty =
  foreground_pgid :: c_int
  tty_mode :: c_int

definition tty_init :: "tty \<Rightarrow> tty" where
  "tty_init t = t\<lparr>foreground_pgid := 0, tty_mode := TTY_MODE_COOKED\<rparr>"

definition tty_get_foreground_pgid :: "tty \<Rightarrow> c_int" where
  "tty_get_foreground_pgid t = foreground_pgid t"

definition tty_set_foreground_pgid :: "c_int \<Rightarrow> tty \<Rightarrow> tty" where
  "tty_set_foreground_pgid pgid t = t\<lparr>foreground_pgid := pgid\<rparr>"

definition tty_get_mode :: "tty \<Rightarrow> c_int" where
  "tty_get_mode t = tty_mode t"

definition tty_set_mode :: "c_int \<Rightarrow> tty \<Rightarrow> tty" where
  "tty_set_mode mode t = t\<lparr>tty_mode := mode\<rparr>"

section \<open>Key events\<close>

record key_event =
  ev_key :: u8
  ev_modifiers :: u8
  ev_pressed :: u8
  ev_scancode :: u8

abbreviation KEY_BUFFER_SIZE :: nat where "KEY_BUFFER_SIZE \<equiv> 64"

record keyboard =
  key_buffer :: "nat \<Rightarrow> key_event"
  key_read_idx :: nat
  key_write_idx :: nat
  mod_state :: u8
  extended :: bool

abbreviation MOD_SHIFT :: u8 where "MOD_SHIFT \<equiv> 1"
abbreviation MOD_CTRL :: u8 where "MOD_CTRL \<equiv> 2"
abbreviation MOD_ALT :: u8 where "MOD_ALT \<equiv> 4"
abbreviation MOD_SUPER :: u8 where "MOD_SUPER \<equiv> 8"
abbreviation SIGINT :: c_int where "SIGINT \<equiv> 2"

text \<open>The two translation tables; the entries past the end of the initialiser are 0.\<close>

definition scancode_lower :: "u8 list" where
  "scancode_lower =
     [0, 27] @ bytes_of ''1234567890-='' @ [8] @
     [9] @ bytes_of ''qwertyuiop[]'' @ [10] @
     [0] @ bytes_of ''asdfghjkl;'' @ [39, 96] @
     [0] @ bytes_of ''#zxcvbnm,./'' @ [0] @
     bytes_of ''*'' @ [0, 32, 0] @
     replicate 10 0 @ [0, 0] @
     [0, 0, 0] @ bytes_of ''-'' @ [0, 0, 0] @ bytes_of ''+'' @
     replicate 5 0 @ replicate 3 0 @ [0, 0] @ replicate 39 0"

definition scancode_upper :: "u8 list" where
  "scancode_upper =
     [0, 27] @ bytes_of ''!'' @ [34, 0x9C] @ bytes_of ''$%^&*()_+'' @ [8] @
     [9] @ bytes_of ''QWERTYUIOP{}'' @ [10] @
     [0] @ bytes_of ''ASDFGHJKL:@~'' @
     [0] @ bytes_of ''~ZXCVBNM<>?'' @ [0] @
     bytes_of ''*'' @ [0, 32, 0] @
     replicate 10 0 @ [0, 0] @
     [0, 0, 0] @ bytes_of ''-'' @ [0, 0, 0] @ bytes_of ''+'' @
     replicate 5 0 @ replicate 3 0 @ [0, 0] @ replicate 39 0"

lemma scancode_lengths: "length scancode_lower = 128" "length scancode_upper = 128"
  by (simp_all add: scancode_lower_def scancode_upper_def)

definition keyboard_init :: "keyboard \<Rightarrow> keyboard" where
  "keyboard_init k = k\<lparr>key_read_idx := 0, key_write_idx := 0, mod_state := 0, extended := False\<rparr>"

text \<open>The end of the handler: add the event to the buffer if there is room.\<close>

definition key_enqueue :: "key_event \<Rightarrow> keyboard \<Rightarrow> keyboard" where
  "key_enqueue ev k =
     (let next_write = (key_write_idx k + 1) mod KEY_BUFFER_SIZE
      in if next_write \<noteq> key_read_idx k
         then k\<lparr>key_buffer := (key_buffer k)(key_write_idx k := ev), key_write_idx := next_write\<rparr>
         else k)"

definition update_modifier :: "u8 \<Rightarrow> bool \<Rightarrow> keyboard \<Rightarrow> keyboard" where
  "update_modifier m released k =
     k\<lparr>mod_state := (if released then mod_state k AND NOT m else mod_state k OR m), extended := False\<rparr>"

text \<open>The key of an extended scancode; \<open>None\<close> for the default branch of the switch.\<close>

definition extended_key :: "u8 \<Rightarrow> u8 option" where
  "extended_key code =
     (if code = 0x48 then Some 0x80 else if code = 0x50 then Some 0x81
      else if code = 0x4B then Some 0x82 else if code = 0x4D then Some 0x83
      else if code = 0x47 then Some 0x84 else if code = 0x4F then Some 0x85
      else if code = 0x49 then Some 0x86 else if code = 0x51 then Some 0x87
      else if code = 0x52 then Some 0x89 else if code = 0x53 then Some 0x88 else None)"

definition regular_key :: "u8 \<Rightarrow> u8 \<Rightarrow> u8 option" where
  "regular_key mods code =
     (let shifted = mods AND MOD_SHIFT \<noteq> 0;
          key = (if shifted then scancode_upper ! unat code else scancode_lower ! unat code);
          key = (if code = 0x56 then (if shifted then 124 else 92) else key)
      in if key = 0
         then if code \<ge> 0x3B \<and> code \<le> 0x44 then Some (0x8A + (code - 0x3B))
              else if code = 0x57 then Some 0x94
              else if code = 0x58 then Some 0x95
              else None
         else Some key)"

text \<open>
  The interrupt handler.  \<open>signal\<close> stands for \<^verbatim>\<open>sched_signal_pgid\<close> acting on the rest of the
  kernel's state \<open>w\<close>.
\<close>

definition keyboard_handle_scancode ::
  "(c_int \<Rightarrow> c_int \<Rightarrow> 'w \<Rightarrow> 'w) \<Rightarrow> tty \<Rightarrow> u8 \<Rightarrow> keyboard \<times> 'w \<Rightarrow> keyboard \<times> 'w" where
  "keyboard_handle_scancode signal t scancode = (\<lambda>(k, w).
     if scancode = 0xE0 then (k\<lparr>extended := True\<rparr>, w) else
     let released = scancode AND 0x80 \<noteq> 0; code = scancode AND 0x7F;
         event = \<lparr>ev_key = 0, ev_modifiers = mod_state k, ev_pressed = (if released then 0 else 1),
                  ev_scancode = scancode\<rparr>
     in
     if code = 0x2A \<or> code = 0x36 then (update_modifier MOD_SHIFT released k, w) else
     if code = 0x1D \<or> extended k \<and> code = 0x1D then (update_modifier MOD_CTRL released k, w) else
     if code = 0x38 \<or> extended k \<and> code = 0x38 then (update_modifier MOD_ALT released k, w) else
     if extended k \<and> (code = 0x5B \<or> code = 0x5C) then (update_modifier MOD_SUPER released k, w) else
     if \<not> released \<and> mod_state k AND MOD_CTRL \<noteq> 0 \<and> code = 0x2E
     then (k\<lparr>extended := False\<rparr>,
           if tty_get_mode t = TTY_MODE_COOKED
           then (let fg_pgid = tty_get_foreground_pgid t
                 in if fg_pgid \<noteq> 0 then signal fg_pgid SIGINT w else w)
           else w) else
     if released then (k\<lparr>extended := False\<rparr>, w) else
     (case (if extended k then extended_key code else regular_key (mod_state k) code) of
        None \<Rightarrow> (k\<lparr>extended := False\<rparr>, w)
      | Some key \<Rightarrow> (key_enqueue (event\<lparr>ev_key := key\<rparr>) (k\<lparr>extended := False\<rparr>), w)))"

definition keyboard_has_event :: "keyboard \<Rightarrow> bool" where
  "keyboard_has_event k \<longleftrightarrow> key_read_idx k \<noteq> key_write_idx k"

definition keyboard_poll_event :: "keyboard \<Rightarrow> key_event option \<times> keyboard" where
  "keyboard_poll_event k =
     (if \<not> keyboard_has_event k then (None, k)
      else (Some (key_buffer k (key_read_idx k)),
            k\<lparr>key_read_idx := (key_read_idx k + 1) mod KEY_BUFFER_SIZE\<rparr>))"

text \<open>
  \<^verbatim>\<open>keyboard_get_event\<close> waits for an interrupt while the queue is empty; \<open>None\<close> is that wait.
  \<^verbatim>\<open>keyboard_getchar\<close> takes events until one is a character or a special key.
\<close>

definition keyboard_get_event :: "keyboard \<Rightarrow> (key_event \<times> keyboard) option" where
  "keyboard_get_event k =
     (if \<not> keyboard_has_event k then None
      else Some (key_buffer k (key_read_idx k),
                 k\<lparr>key_read_idx := (key_read_idx k + 1) mod KEY_BUFFER_SIZE\<rparr>))"

definition char_of_event :: "key_event \<Rightarrow> u8 option" where
  "char_of_event ev =
     (let key = ev_key ev in
      if key \<ge> 0x20 \<and> key < 0x7F then Some key
      else if key = 10 \<or> key = 8 \<or> key = 9 \<or> key = 27 then Some key
      else if key \<ge> 0x80 then Some 0
      else None)"

partial_function (option) keyboard_getchar :: "keyboard \<Rightarrow> ((u8 \<times> u8) \<times> keyboard) option" where
  "keyboard_getchar k =
     (case keyboard_get_event k of
        None \<Rightarrow> None
      | Some (ev, k') \<Rightarrow>
          (case char_of_event ev of
             Some c \<Rightarrow> Some ((c, ev_modifiers ev), k')
           | None \<Rightarrow> keyboard_getchar k'))"

definition keyboard_get_modifiers :: "keyboard \<Rightarrow> u8" where
  "keyboard_get_modifiers k = mod_state k"

section \<open>The queue\<close>

definition keyboard_inv :: "keyboard \<Rightarrow> bool" where
  "keyboard_inv k \<longleftrightarrow> key_read_idx k < 64 \<and> key_write_idx k < 64"

definition key_contents :: "keyboard \<Rightarrow> key_event list" where
  "key_contents k = ring_elems 64 (key_buffer k) (key_read_idx k) (key_write_idx k)"

interpretation keys: bounded_fifo key_enqueue keyboard_poll_event key_contents 63 keyboard_inv
proof unfold_locales
  fix k x assume "keyboard_inv k"
  then have rw: "key_read_idx k < 64" "key_write_idx k < 64" by (simp_all add: keyboard_inv_def)
  note R = ring_elems_put[OF rw, where buf = "key_buffer k"]
  show "keyboard_inv (key_enqueue x k) \<and> key_contents (key_enqueue x k) =
      (if length (key_contents k) < 63 then key_contents k @ [x] else key_contents k)"
    using R(1,3) rw
    by (auto simp: key_enqueue_def key_contents_def keyboard_inv_def Let_def R(2)[where x = x, simplified])
next
  fix k assume "keyboard_inv k"
  then have rw: "key_read_idx k < 64" "key_write_idx k < 64" by (simp_all add: keyboard_inv_def)
  note R = ring_elems_get[OF rw, where buf = "key_buffer k"]
  show "key_contents k = [] \<Longrightarrow> keyboard_poll_event k = (None, k)"
    using R(1) by (simp add: keyboard_poll_event_def keyboard_has_event_def key_contents_def)
  show "length (key_contents k) \<le> 63" using ring_elems_put(4)[OF rw] by (simp add: key_contents_def)
  fix x xs assume "key_contents k = x # xs"
  then show "\<exists>k'. keyboard_poll_event k = (Some x, k') \<and> keyboard_inv k' \<and> key_contents k' = xs"
    using R rw by (cases "key_read_idx k = key_write_idx k")
      (auto simp: keyboard_poll_event_def keyboard_has_event_def keyboard_inv_def key_contents_def)
qed

section \<open>The handler\<close>

lemma update_modifier_simps [simp]:
  "keyboard_inv (update_modifier m rel k) = keyboard_inv k"
  "key_contents (update_modifier m rel k) = key_contents k"
  "mod_state (update_modifier m rel k) = (if rel then mod_state k AND NOT m else mod_state k OR m)"
  by (simp_all add: update_modifier_def keyboard_inv_def key_contents_def)

lemma extended_simps [simp]:
  "keyboard_inv (k\<lparr>extended := b\<rparr>) = keyboard_inv k"
  "key_contents (k\<lparr>extended := b\<rparr>) = key_contents k"
  by (simp_all add: keyboard_inv_def key_contents_def)

lemma key_enqueue_mods [simp]: "mod_state (key_enqueue ev k) = mod_state k"
  by (simp add: key_enqueue_def Let_def)

lemma key_of_nonzero:
  "regular_key m c = Some key \<Longrightarrow> key \<noteq> 0"
  "extended_key c = Some key \<Longrightarrow> key \<noteq> 0"
proof -
  have "0x8A + (c - 0x3B) \<noteq> 0" if "0x3B \<le> c" "c \<le> 0x44"
  proof -
    have "unat (c - 0x3B) = unat c - 0x3B" using that(1) by (simp add: unat_sub)
    with that have "unat (c - 0x3B) \<le> 9" by (simp add: word_le_nat_alt)
    then have "unat (0x8A + (c - 0x3B)) = 0x8A + unat (c - 0x3B)" by (subst unat_plus_small) auto
    then show ?thesis by (metis add_is_0 unat_0 zero_neq_numeral)
  qed
  then show "regular_key m c = Some key \<Longrightarrow> key \<noteq> 0"
    by (auto simp: regular_key_def Let_def split: if_splits)
qed (auto simp: extended_key_def split: if_splits)

text \<open>The key a press of \<open>code\<close> queues, if any.\<close>

definition key_of :: "keyboard \<Rightarrow> u8 \<Rightarrow> u8 option" where
  "key_of k code = (if extended k then extended_key code else regular_key (mod_state k) code)"

lemma key_of_nonzero': "key_of k code = Some key \<Longrightarrow> key \<noteq> 0"
  by (auto simp: key_of_def dest: key_of_nonzero split: if_splits)

lemma enqueue_effect:
  assumes "keyboard_inv k" "key_of k code = Some key"
  shows "keyboard_inv (key_enqueue (ev\<lparr>ev_key := key\<rparr>) (k\<lparr>extended := False\<rparr>)) \<and>
    (key_contents (key_enqueue (ev\<lparr>ev_key := key\<rparr>) (k\<lparr>extended := False\<rparr>)) = key_contents k \<or>
     length (key_contents k) < 63 \<and> key \<noteq> 0 \<and>
     key_contents (key_enqueue (ev\<lparr>ev_key := key\<rparr>) (k\<lparr>extended := False\<rparr>)) =
       key_contents k @ [ev\<lparr>ev_key := key\<rparr>])"
  using keys.put_law[of "k\<lparr>extended := False\<rparr>" "ev\<lparr>ev_key := key\<rparr>"] assms key_of_nonzero'[OF assms(2)]
  by (cases "length (key_contents k) < 63") simp_all

text \<open>
  C28 (type).  Every scancode keeps the indices of the event buffer in range and appends
  at most one event, which is a press with a non-zero key, carries the modifiers held before
  the scancode and is dropped when 63 events wait.
\<close>

theorem keyboard_scancode_effect:
  assumes "keyboard_inv k" "keyboard_handle_scancode signal t sc (k, w) = (k', w')"
  shows "keyboard_inv k' \<and> (key_contents k' = key_contents k \<or>
    (\<exists>key. key \<noteq> 0 \<and> sc AND 0x80 = 0 \<and> length (key_contents k) < 63 \<and> key_contents k' = key_contents k @
       [\<lparr>ev_key = key, ev_modifiers = mod_state k, ev_pressed = 1, ev_scancode = sc\<rparr>]))"
proof -
  let ?code = "sc AND 0x7F"
  note E = enqueue_effect[OF assms(1), of ?code _
      "\<lparr>ev_key = 0, ev_modifiers = mod_state k, ev_pressed = 1, ev_scancode = sc\<rparr>", simplified]
  show ?thesis
    using assms unfolding keyboard_handle_scancode_def Let_def case_prod_conv key_of_def[symmetric]
    by (cases "key_of k ?code") (auto split: if_splits dest: E)
qed

theorem keyboard_scancode_effect_witness:
  "keyboard_inv (fst (keyboard_handle_scancode (\<lambda>_ _ w. w) \<lparr>foreground_pgid = 0, tty_mode = 0\<rparr> 0x1E
     (\<lparr>key_buffer = (\<lambda>_. undefined), key_read_idx = 5, key_write_idx = 63, mod_state = 1, extended = False\<rparr>, ())))"
  using keyboard_scancode_effect [of "\<lparr>key_buffer = (\<lambda>_. undefined), key_read_idx = 5, key_write_idx = 63,
      mod_state = 1, extended = False\<rparr>" "\<lambda>_ _ w. w" "\<lparr>foreground_pgid = 0, tty_mode = 0\<rparr>" "0x1E" "()"]
  by (simp add: keyboard_inv_def prod_eq_iff)

text \<open>
  The handler signals the foreground process group, with \<^verbatim>\<open>SIGINT\<close>, exactly
  when C is pressed while Ctrl is held, the terminal is in cooked mode and a group is in the
  foreground; otherwise the rest of the kernel is untouched.  Ctrl-C is never queued.
\<close>

theorem keyboard_ctrl_c:
  assumes "keyboard_handle_scancode signal t sc (k, w) = (k', w')"
  shows "w' = (if sc = 0x2E \<and> mod_state k AND MOD_CTRL \<noteq> 0 \<and> tty_mode t = TTY_MODE_COOKED \<and>
      foreground_pgid t \<noteq> 0 then signal (foreground_pgid t) SIGINT w else w) \<and>
    (sc = 0x2E \<and> mod_state k AND MOD_CTRL \<noteq> 0 \<longrightarrow> key_contents k' = key_contents k)"
proof -
  have "(255 :: u8) = - 1" by simp
  then have "sc AND 255 = sc" by (simp only: and.right_neutral)
  then have split: "sc = (sc AND 0x80) OR (sc AND 0x7F)"
    by (simp add: bit.conj_disj_distrib[symmetric])
  have c: "sc AND 0x80 = 0 \<and> sc AND 0x7F = 0x2E \<longleftrightarrow> sc = 0x2E" using split by auto
  show ?thesis
    using assms c unfolding keyboard_handle_scancode_def Let_def case_prod_conv
    by (auto simp: tty_get_mode_def tty_get_foreground_pgid_def split: if_splits option.splits)
qed

theorem keyboard_ctrl_c_witness:
  "snd (keyboard_handle_scancode (\<lambda>p s w. (p, s) # w) \<lparr>foreground_pgid = 7, tty_mode = 0\<rparr> 0x2E
     (\<lparr>key_buffer = (\<lambda>_. undefined), key_read_idx = 0, key_write_idx = 0, mod_state = 2, extended = False\<rparr>, [])) =
   [(7, 2)]"
  using keyboard_ctrl_c [of "\<lambda>p s w. (p, s) # w" "\<lparr>foreground_pgid = 7, tty_mode = 0\<rparr>" "0x2E"
     "\<lparr>key_buffer = (\<lambda>_. undefined), key_read_idx = 0, key_write_idx = 0, mod_state = 2, extended = False\<rparr>" "[]"]
  by (simp add: prod_eq_iff)

section \<open>Reading characters\<close>

lemma keyboard_get_event_poll:
  "keyboard_get_event k = (case keyboard_poll_event k of (None, _) \<Rightarrow> None | (Some ev, k') \<Rightarrow> Some (ev, k'))"
  by (simp add: keyboard_get_event_def keyboard_poll_event_def)

text \<open>
  C29 (liveness).  \<^verbatim>\<open>keyboard_getchar\<close> skips the events that are no character and returns the first
  one that is, with its modifiers, leaving the events behind it; it waits for an interrupt
  exactly when the queue holds no such event.
\<close>

theorem keyboard_getchar_correct:
  assumes "keyboard_inv k"
  shows "case dropWhile (\<lambda>ev. char_of_event ev = None) (key_contents k) of
      [] \<Rightarrow> keyboard_getchar k = None
    | ev # evs \<Rightarrow> \<exists>k'. keyboard_getchar k = Some ((the (char_of_event ev), ev_modifiers ev), k') \<and>
        keyboard_inv k' \<and> key_contents k' = evs"
  using assms
proof (induction "key_contents k" arbitrary: k)
  case Nil
  then have "keyboard_poll_event k = (None, k)" using keys.get_empty by simp
  then have "keyboard_getchar k = None" by (subst keyboard_getchar.simps) (simp add: keyboard_get_event_poll)
  then show ?case unfolding Nil(1)[symmetric] by simp
next
  case (Cons ev evs)
  obtain k' where k': "keyboard_poll_event k = (Some ev, k')" "keyboard_inv k'" "key_contents k' = evs"
    using keys.get_some[OF Cons.prems Cons.hyps(2)[symmetric]] by blast
  have run: "keyboard_getchar k =
      (case char_of_event ev of Some c \<Rightarrow> Some ((c, ev_modifiers ev), k') | None \<Rightarrow> keyboard_getchar k')"
    by (subst keyboard_getchar.simps) (simp add: keyboard_get_event_poll k')
  show ?case
  proof (cases "char_of_event ev")
    case None
    with run have gc: "keyboard_getchar k = keyboard_getchar k'" by simp
    have dw: "dropWhile (\<lambda>ev. char_of_event ev = None) (key_contents k) =
        dropWhile (\<lambda>ev. char_of_event ev = None) (key_contents k')"
      unfolding Cons.hyps(2)[symmetric] k'(3)[symmetric] using None by simp
    show ?thesis unfolding gc dw by (rule Cons.hyps(1)[OF k'(3)[symmetric] k'(2)])
  qed (use run k' in \<open>simp add: Cons.hyps(2)[symmetric]\<close>)
qed

theorem keyboard_getchar_correct_witness:
  "keyboard_getchar \<lparr>key_buffer = (\<lambda>_. \<lparr>ev_key = 97, ev_modifiers = 0, ev_pressed = 1, ev_scancode = 0x1E\<rparr>),
     key_read_idx = 63, key_write_idx = 0, mod_state = 0, extended = False\<rparr> \<noteq> None"
  using keyboard_getchar_correct [of "\<lparr>key_buffer = (\<lambda>_. \<lparr>ev_key = 97, ev_modifiers = 0, ev_pressed = 1,
     ev_scancode = 0x1E\<rparr>), key_read_idx = 63, key_write_idx = 0, mod_state = 0, extended = False\<rparr>"]
  by (simp add: keyboard_inv_def key_contents_def ring_elems_def ring_count_def ring_def char_of_event_def) auto

end
