(* ===== verification/Ports.thy ===== *)
theory Ports
  imports Prelude
begin

text \<open>
  Port input and output.  The \<^verbatim>\<open>in\<close> and \<^verbatim>\<open>out\<close> instructions of the drivers act on a device
  whose behaviour is not part of the repository: the operations take its transition
  functions as a record, and its state is a type variable.
\<close>

record 'd ports =
  port_in8 :: "u16 \<Rightarrow> 'd \<Rightarrow> u8 \<times> 'd"
  port_out8 :: "u16 \<Rightarrow> u8 \<Rightarrow> 'd \<Rightarrow> 'd"
  port_in16 :: "u16 \<Rightarrow> 'd \<Rightarrow> u16 \<times> 'd"
  port_out16 :: "u16 \<Rightarrow> u16 \<Rightarrow> 'd \<Rightarrow> 'd"
  port_in32 :: "u16 \<Rightarrow> 'd \<Rightarrow> u32 \<times> 'd"
  port_out32 :: "u16 \<Rightarrow> u32 \<Rightarrow> 'd \<Rightarrow> 'd"

text \<open>
  Polling a status port until a test succeeds, at most \<open>n\<close> times: the wait loops of the
  drivers.
\<close>

fun poll_port :: "'d ports \<Rightarrow> u16 \<Rightarrow> (u8 \<Rightarrow> bool) \<Rightarrow> nat \<Rightarrow> 'd \<Rightarrow> bool \<times> 'd" where
  "poll_port io p ready 0 d = (False, d)"
| "poll_port io p ready (Suc n) d =
     (case port_in8 io p d of (v, d') \<Rightarrow> if ready v then (True, d') else poll_port io p ready n d')"

lemma poll_port_ready:
  "port_in8 io p d = (v, d') \<Longrightarrow> ready v \<Longrightarrow> 0 < n \<Longrightarrow> poll_port io p ready n d = (True, d')"
  by (cases n) auto

end
