(* ===== verification/Framebuffer.thy ===== *)
theory Framebuffer
  imports Prelude
begin

text \<open>
  The linear framebuffer of \<^verbatim>\<open>kernel/drivers/framebuffer.c\<close> and the glyph drawing of
  \<^verbatim>\<open>kernel/font.c\<close>.  Video memory is a byte buffer that starts at the address \<^verbatim>\<open>fb\<close>; coordinates are
  C ints, written as integers: the largest product, \<open>height * width * 4\<close>, is the size of
  the video memory, which the model takes to be below 2 GiB.
\<close>

section \<open>State\<close>

record fbuf =
  fb_addr :: u32
  fb_w :: u16
  fb_h :: u16
  fb_depth :: u8
  vram :: bytes

text \<open>\<open>low\<close> is the boot information the loader left below 1 MiB.\<close>

definition fb_init :: "bytes \<Rightarrow> fbuf \<Rightarrow> fbuf" where
  "fb_init low f = f\<lparr>fb_addr := le32 low 0x5028, fb_w := le16 low 0x5012, fb_h := le16 low 0x5014,
     fb_depth := low 0x5019\<rparr>"

definition fb_width :: "fbuf \<Rightarrow> int" where "fb_width f = uint (fb_w f)"
definition fb_height :: "fbuf \<Rightarrow> int" where "fb_height f = uint (fb_h f)"
definition fb_bpp :: "fbuf \<Rightarrow> int" where "fb_bpp f = uint (fb_depth f)"
definition fb_base_addr :: "fbuf \<Rightarrow> u64" where "fb_base_addr f = ucast (fb_addr f)"

section \<open>Pixels\<close>

text \<open>The bytes \<^verbatim>\<open>fb_putpixel\<close> stores for a colour at a depth; none at an unsupported depth.\<close>

definition rgb565 :: "u32 \<Rightarrow> u16" where
  "rgb565 colour =
     (let r = drop_bit 16 colour AND 0xFF; g = drop_bit 8 colour AND 0xFF; b = colour AND 0xFF
      in ucast (push_bit 11 (drop_bit 3 r) OR push_bit 5 (drop_bit 2 g) OR drop_bit 3 b))"

definition pixel_bytes :: "u8 \<Rightarrow> u32 \<Rightarrow> u8 list" where
  "pixel_bytes bpp colour =
     (if bpp = 16 then [ucast (rgb565 colour), ucast (drop_bit 8 (rgb565 colour))]
      else if bpp = 24 then [ucast colour, ucast (drop_bit 8 colour), ucast (drop_bit 16 colour)]
      else if bpp = 32 then [ucast colour, ucast (drop_bit 8 colour), ucast (drop_bit 16 colour),
        ucast (drop_bit 24 colour)]
      else [])"

definition fb_putpixel :: "int \<Rightarrow> int \<Rightarrow> u32 \<Rightarrow> fbuf \<Rightarrow> fbuf" where
  "fb_putpixel x y colour f =
     (if fb_addr f = 0 \<or> fb_w f = 0 \<or> fb_h f = 0 then f
      else if x < 0 \<or> y < 0 \<or> x \<ge> fb_width f \<or> y \<ge> fb_height f then f
      else let bytes_per_pixel = fb_bpp f div 8;
               pos = (y * fb_width f + x) * bytes_per_pixel
           in f\<lparr>vram := put_list (vram f) (nat pos) (pixel_bytes (fb_depth f) colour)\<rparr>)"

text \<open>
  \<^verbatim>\<open>fb_present_buffer\<close> copies \<open>size\<close> bytes: whole quadwords first, then the rest.  \<open>src\<close> is the
  source buffer, \<open>None\<close> for a null pointer.
\<close>

definition copy_quads :: "bytes \<Rightarrow> nat \<Rightarrow> bytes \<Rightarrow> nat \<Rightarrow> nat \<Rightarrow> bytes" where
  "copy_quads dst d src s n =
     (let q = n div 8; r = n mod 8
      in blit (blit dst d src s (q * 8)) (d + q * 8) src (s + q * 8) r)"

definition fb_present_buffer :: "bytes option \<Rightarrow> u64 \<Rightarrow> fbuf \<Rightarrow> fbuf" where
  "fb_present_buffer src sz f =
     (case src of None \<Rightarrow> f
      | Some s \<Rightarrow> if fb_addr f = 0 \<or> sz = 0 then f
                  else f\<lparr>vram := copy_quads (vram f) 0 s 0 (unat sz)\<rparr>)"

definition fb_present_buffer_rect :: "bytes option \<Rightarrow> int \<Rightarrow> int \<Rightarrow> int \<Rightarrow> int \<Rightarrow> fbuf \<Rightarrow> fbuf" where
  "fb_present_buffer_rect src x y w h f =
     (case src of None \<Rightarrow> f
      | Some s \<Rightarrow>
        if fb_addr f = 0 then f else
        if w \<le> 0 \<or> h \<le> 0 then f else
        let cw = (if x < 0 then w + x else w); cx = (if x < 0 then 0 else x);
            ch = (if y < 0 then h + y else h); cy = (if y < 0 then 0 else y) in
        if cw \<le> 0 \<or> ch \<le> 0 then f else
        if cx \<ge> fb_width f \<or> cy \<ge> fb_height f then f else
        let cw = (if cx + cw > fb_width f then fb_width f - cx else cw);
            ch = (if cy + ch > fb_height f then fb_height f - cy else ch) in
        if cw \<le> 0 \<or> ch \<le> 0 then f else
        let bytes_per_pixel = fb_bpp f div 8 in
        if bytes_per_pixel \<le> 0 then f else
        let stride = nat (fb_width f * bytes_per_pixel); row_bytes = nat (cw * bytes_per_pixel);
            start = nat cy * stride + nat (cx * bytes_per_pixel)
        in f\<lparr>vram := fold (\<lambda>row v. copy_quads v (start + row * stride) s (start + row * stride) row_bytes)
               [0..<nat ch] (vram f)\<rparr>)"

section \<open>Reading the screen back\<close>

definition fb_ready :: "fbuf \<Rightarrow> bool" where
  "fb_ready f \<longleftrightarrow> fb_addr f \<noteq> 0 \<and> fb_depth f \<in> {16, 24, 32}"

definition on_screen :: "fbuf \<Rightarrow> int \<Rightarrow> int \<Rightarrow> bool" where
  "on_screen f x y \<longleftrightarrow> 0 \<le> x \<and> 0 \<le> y \<and> x < fb_width f \<and> y < fb_height f"

definition pixel_size :: "fbuf \<Rightarrow> nat" where
  "pixel_size f = nat (fb_bpp f div 8)"

definition pixel_at :: "fbuf \<Rightarrow> int \<Rightarrow> int \<Rightarrow> u8 list" where
  "pixel_at f x y = get_list (vram f) (nat (y * fb_width f + x) * pixel_size f) (pixel_size f)"

text \<open>What the drawing operations keep: everything but the contents of video memory.\<close>

definition same_mode :: "fbuf \<Rightarrow> fbuf \<Rightarrow> bool" where
  "same_mode f g \<longleftrightarrow> fb_addr g = fb_addr f \<and> fb_w g = fb_w f \<and> fb_h g = fb_h f \<and> fb_depth g = fb_depth f"

lemma same_mode_simps:
  assumes "same_mode f g"
  shows "fb_width g = fb_width f" "fb_height g = fb_height f" "on_screen g x y = on_screen f x y"
    "fb_ready g = fb_ready f" "pixel_size g = pixel_size f" "fb_depth g = fb_depth f"
  using assms by (simp_all add: same_mode_def fb_width_def fb_height_def on_screen_def fb_ready_def
      pixel_size_def fb_bpp_def)

lemma same_mode_refl [simp]: "same_mode f f" by (simp add: same_mode_def)

lemma same_mode_trans: "same_mode f g \<Longrightarrow> same_mode g h \<Longrightarrow> same_mode f h"
  by (simp add: same_mode_def)

lemma putpixel_mode [simp]: "same_mode f (fb_putpixel x y c f)"
  by (simp add: fb_putpixel_def same_mode_def Let_def)

lemma length_pixel_bytes: "fb_ready f \<Longrightarrow> length (pixel_bytes (fb_depth f) c) = pixel_size f"
  by (auto simp: fb_ready_def pixel_bytes_def pixel_size_def fb_bpp_def)

lemma pixel_index_inj:
  assumes "on_screen f x y" "on_screen f x' y'" "y * fb_width f + x = y' * fb_width f + x'"
  shows "x = x' \<and> y = y'"
proof -
  have "(y * fb_width f + x) div fb_width f = y" "(y' * fb_width f + x') div fb_width f = y'"
    using assms(1,2) by (auto simp: on_screen_def)
  with assms(3) show ?thesis by auto
qed

lemma pixel_at_put_list:
  fixes i j :: int
  assumes "0 \<le> i" "0 \<le> j" "length xs = n"
  shows "get_list (put_list v (nat i * n) xs) (nat j * n) n = (if i = j then xs else get_list v (nat j * n) n)"
proof (cases "i = j")
  case True
  then show ?thesis using get_put_list[of v "nat i * n" xs] assms by simp
next
  case False
  then have "nat i \<noteq> nat j" using assms by simp
  then have "nat i + 1 \<le> nat j \<or> nat j + 1 \<le> nat i" by linarith
  then have "(nat i + 1) * n \<le> nat j * n \<or> (nat j + 1) * n \<le> nat i * n" by (meson mult_le_mono1)
  then show ?thesis using False assms by (intro trans[OF get_put_list_other]) (auto simp: algebra_simps)
qed

lemma putpixel_pixel:
  assumes "fb_ready f" "on_screen f x' y'"
  shows "pixel_at (fb_putpixel x y c f) x' y' =
    (if x = x' \<and> y = y' then pixel_bytes (fb_depth f) c else pixel_at f x' y')"
proof (cases "on_screen f x y")
  case True
  then have nz: "fb_addr f \<noteq> 0" "fb_w f \<noteq> 0" "fb_h f \<noteq> 0"
    using assms(1) by (auto simp: fb_ready_def on_screen_def fb_width_def fb_height_def)
  let ?i = "y * fb_width f + x" and ?j = "y' * fb_width f + x'"
  have pos: "0 \<le> ?i" "0 \<le> ?j" using True assms(2) by (auto simp: on_screen_def fb_width_def)
  have "nat (?i * (fb_bpp f div 8)) = nat ?i * pixel_size f"
    using pos by (simp add: pixel_size_def nat_mult_distrib)
  then have v: "vram (fb_putpixel x y c f) =
      put_list (vram f) (nat ?i * pixel_size f) (pixel_bytes (fb_depth f) c)"
    using True nz by (simp add: fb_putpixel_def on_screen_def Let_def)
  have "?i = ?j \<longleftrightarrow> x = x' \<and> y = y'" using pixel_index_inj[OF True assms(2)] by auto
  then show ?thesis
    using pixel_at_put_list[OF pos length_pixel_bytes[OF assms(1)]] same_mode_simps[OF putpixel_mode]
    by (simp add: pixel_at_def v)
next
  case False
  then have "fb_putpixel x y c f = f" by (auto simp: fb_putpixel_def on_screen_def)
  moreover have "\<not> (x = x' \<and> y = y')" using False assms(2) by auto
  ultimately show ?thesis by auto
qed

section \<open>Nested drawing loops\<close>

lemma fold_product:
  "fold (\<lambda>r. fold (g r) cols) rows s = fold (\<lambda>(r, c). g r c) (List.product rows cols) s"
proof (induction rows arbitrary: s)
  case (Cons r rows)
  have "fold (\<lambda>(r, c). g r c) (map (Pair r) cols) s = fold (g r) cols s" for s
    by (induction cols arbitrary: s) auto
  then show ?case using Cons by simp
qed simp

lemma paint:
  assumes "fb_ready f"
  shows "same_mode f (fold (\<lambda>p. if cond p then fb_putpixel (px p) (py p) c else id) ps f)"
    and "on_screen f x y \<Longrightarrow>
      pixel_at (fold (\<lambda>p. if cond p then fb_putpixel (px p) (py p) c else id) ps f) x y =
        (if \<exists>p\<in>set ps. cond p \<and> px p = x \<and> py p = y then pixel_bytes (fb_depth f) c else pixel_at f x y)"
proof -
  let ?F = "\<lambda>p. if cond p then fb_putpixel (px p) (py p) c else id"
  have m: "same_mode f (fold ?F ps f)" for f
    by (induction ps arbitrary: f) (auto intro: same_mode_trans[OF putpixel_mode])
  show "same_mode f (fold ?F ps f)" by (rule m)
  show "on_screen f x y \<Longrightarrow> pixel_at (fold ?F ps f) x y =
        (if \<exists>p\<in>set ps. cond p \<and> px p = x \<and> py p = y then pixel_bytes (fb_depth f) c else pixel_at f x y)"
    using assms
  proof (induction ps arbitrary: f)
    case (Cons p ps)
    let ?f = "?F p f"
    have sm: "same_mode f ?f" by simp
    show ?case
      using Cons.IH[of ?f] Cons.prems same_mode_simps[OF sm] putpixel_pixel[of f x y "px p" "py p" c] by auto
  qed simp
qed

section \<open>Glyphs\<close>

record font =
  font_addr :: "bytes option"
  font_width :: u8
  font_height :: u8
  first_char_code :: u8
  last_char_code :: u8

text \<open>The glyphs of codes 0 to 127 and 128 to 255, sixteen rows of eight pixels each.\<close>

definition vga_font_low :: "u8 list list" where
  "vga_font_low =
     [[0, 0, 0, 0, 0, 0, 0, 0, 0, 0, 0, 0, 0, 0, 0, 0],
      [0, 0, 126, 129, 165, 129, 129, 189, 153, 129, 129, 126, 0, 0, 0, 0],
      [0, 0, 126, 255, 219, 255, 255, 195, 231, 255, 255, 126, 0, 0, 0, 0],
      [0, 0, 0, 0, 108, 254, 254, 254, 254, 124, 56, 16, 0, 0, 0, 0],
      [0, 0, 0, 0, 16, 56, 124, 254, 124, 56, 16, 0, 0, 0, 0, 0],
      [0, 0, 0, 24, 60, 60, 231, 231, 231, 24, 24, 60, 0, 0, 0, 0],
      [0, 0, 0, 24, 60, 126, 255, 255, 126, 24, 24, 60, 0, 0, 0, 0],
      [0, 0, 0, 0, 0, 0, 24, 60, 60, 24, 0, 0, 0, 0, 0, 0],
      [255, 255, 255, 255, 255, 255, 231, 195, 195, 231, 255, 255, 255, 255, 255, 255],
      [0, 0, 0, 0, 0, 60, 102, 66, 66, 102, 60, 0, 0, 0, 0, 0],
      [255, 255, 255, 255, 255, 195, 153, 189, 189, 153, 195, 255, 255, 255, 255, 255],
      [0, 0, 30, 14, 26, 50, 120, 204, 204, 204, 204, 120, 0, 0, 0, 0],
      [0, 0, 60, 102, 102, 102, 102, 60, 24, 126, 24, 24, 0, 0, 0, 0],
      [0, 0, 63, 51, 63, 48, 48, 48, 48, 112, 240, 224, 0, 0, 0, 0],
      [0, 0, 127, 99, 127, 99, 99, 99, 99, 103, 231, 230, 192, 0, 0, 0],
      [0, 0, 0, 24, 24, 219, 60, 231, 60, 219, 24, 24, 0, 0, 0, 0],
      [0, 128, 192, 224, 240, 248, 254, 248, 240, 224, 192, 128, 0, 0, 0, 0],
      [0, 2, 6, 14, 30, 62, 254, 62, 30, 14, 6, 2, 0, 0, 0, 0],
      [0, 0, 24, 60, 126, 24, 24, 24, 126, 60, 24, 0, 0, 0, 0, 0],
      [0, 0, 102, 102, 102, 102, 102, 102, 102, 0, 102, 102, 0, 0, 0, 0],
      [0, 0, 127, 219, 219, 219, 123, 27, 27, 27, 27, 27, 0, 0, 0, 0],
      [0, 124, 198, 96, 56, 108, 198, 198, 108, 56, 12, 198, 124, 0, 0, 0],
      [0, 0, 0, 0, 0, 0, 0, 0, 254, 254, 254, 254, 0, 0, 0, 0],
      [0, 0, 24, 60, 126, 24, 24, 24, 126, 60, 24, 126, 0, 0, 0, 0],
      [0, 0, 24, 60, 126, 24, 24, 24, 24, 24, 24, 24, 0, 0, 0, 0],
      [0, 0, 24, 24, 24, 24, 24, 24, 24, 126, 60, 24, 0, 0, 0, 0],
      [0, 0, 0, 0, 0, 24, 12, 254, 12, 24, 0, 0, 0, 0, 0, 0],
      [0, 0, 0, 0, 0, 48, 96, 254, 96, 48, 0, 0, 0, 0, 0, 0],
      [0, 0, 0, 0, 0, 0, 192, 192, 192, 254, 0, 0, 0, 0, 0, 0],
      [0, 0, 0, 0, 0, 40, 108, 254, 108, 40, 0, 0, 0, 0, 0, 0],
      [0, 0, 0, 0, 16, 56, 56, 124, 124, 254, 254, 0, 0, 0, 0, 0],
      [0, 0, 0, 0, 254, 254, 124, 124, 56, 56, 16, 0, 0, 0, 0, 0],
      [0, 0, 0, 0, 0, 0, 0, 0, 0, 0, 0, 0, 0, 0, 0, 0],
      [0, 0, 24, 60, 60, 60, 24, 24, 24, 0, 24, 24, 0, 0, 0, 0],
      [0, 102, 102, 102, 36, 0, 0, 0, 0, 0, 0, 0, 0, 0, 0, 0],
      [0, 0, 0, 108, 108, 254, 108, 108, 108, 254, 108, 108, 0, 0, 0, 0],
      [24, 24, 124, 198, 194, 192, 124, 6, 6, 134, 198, 124, 24, 24, 0, 0],
      [0, 0, 0, 0, 194, 198, 12, 24, 48, 96, 198, 134, 0, 0, 0, 0],
      [0, 0, 56, 108, 108, 56, 118, 220, 204, 204, 204, 118, 0, 0, 0, 0],
      [0, 48, 48, 48, 96, 0, 0, 0, 0, 0, 0, 0, 0, 0, 0, 0],
      [0, 0, 12, 24, 48, 48, 48, 48, 48, 48, 24, 12, 0, 0, 0, 0],
      [0, 0, 48, 24, 12, 12, 12, 12, 12, 12, 24, 48, 0, 0, 0, 0],
      [0, 0, 0, 0, 0, 102, 60, 255, 60, 102, 0, 0, 0, 0, 0, 0],
      [0, 0, 0, 0, 0, 24, 24, 126, 24, 24, 0, 0, 0, 0, 0, 0],
      [0, 0, 0, 0, 0, 0, 0, 0, 0, 24, 24, 24, 48, 0, 0, 0],
      [0, 0, 0, 0, 0, 0, 0, 254, 0, 0, 0, 0, 0, 0, 0, 0],
      [0, 0, 0, 0, 0, 0, 0, 0, 0, 0, 24, 24, 0, 0, 0, 0],
      [0, 0, 0, 0, 2, 6, 12, 24, 48, 96, 192, 128, 0, 0, 0, 0],
      [0, 0, 56, 108, 198, 198, 214, 214, 198, 198, 108, 56, 0, 0, 0, 0],
      [0, 0, 24, 56, 120, 24, 24, 24, 24, 24, 24, 126, 0, 0, 0, 0],
      [0, 0, 124, 198, 6, 12, 24, 48, 96, 192, 198, 254, 0, 0, 0, 0],
      [0, 0, 124, 198, 6, 6, 60, 6, 6, 6, 198, 124, 0, 0, 0, 0],
      [0, 0, 12, 28, 60, 108, 204, 254, 12, 12, 12, 30, 0, 0, 0, 0],
      [0, 0, 254, 192, 192, 192, 252, 6, 6, 6, 198, 124, 0, 0, 0, 0],
      [0, 0, 56, 96, 192, 192, 252, 198, 198, 198, 198, 124, 0, 0, 0, 0],
      [0, 0, 254, 198, 6, 6, 12, 24, 48, 48, 48, 48, 0, 0, 0, 0],
      [0, 0, 124, 198, 198, 198, 124, 198, 198, 198, 198, 124, 0, 0, 0, 0],
      [0, 0, 124, 198, 198, 198, 126, 6, 6, 6, 12, 120, 0, 0, 0, 0],
      [0, 0, 0, 0, 24, 24, 0, 0, 0, 24, 24, 0, 0, 0, 0, 0],
      [0, 0, 0, 0, 24, 24, 0, 0, 0, 24, 24, 48, 0, 0, 0, 0],
      [0, 0, 0, 6, 12, 24, 48, 96, 48, 24, 12, 6, 0, 0, 0, 0],
      [0, 0, 0, 0, 0, 126, 0, 0, 126, 0, 0, 0, 0, 0, 0, 0],
      [0, 0, 0, 96, 48, 24, 12, 6, 12, 24, 48, 96, 0, 0, 0, 0],
      [0, 0, 124, 198, 198, 12, 24, 24, 24, 0, 24, 24, 0, 0, 0, 0],
      [0, 0, 0, 124, 198, 198, 222, 222, 222, 220, 192, 124, 0, 0, 0, 0],
      [0, 0, 16, 56, 108, 198, 198, 254, 198, 198, 198, 198, 0, 0, 0, 0],
      [0, 0, 252, 102, 102, 102, 124, 102, 102, 102, 102, 252, 0, 0, 0, 0],
      [0, 0, 60, 102, 194, 192, 192, 192, 192, 194, 102, 60, 0, 0, 0, 0],
      [0, 0, 248, 108, 102, 102, 102, 102, 102, 102, 108, 248, 0, 0, 0, 0],
      [0, 0, 254, 102, 98, 104, 120, 104, 96, 98, 102, 254, 0, 0, 0, 0],
      [0, 0, 254, 102, 98, 104, 120, 104, 96, 96, 96, 240, 0, 0, 0, 0],
      [0, 0, 60, 102, 194, 192, 192, 222, 198, 198, 102, 58, 0, 0, 0, 0],
      [0, 0, 198, 198, 198, 198, 254, 198, 198, 198, 198, 198, 0, 0, 0, 0],
      [0, 0, 60, 24, 24, 24, 24, 24, 24, 24, 24, 60, 0, 0, 0, 0],
      [0, 0, 30, 12, 12, 12, 12, 12, 204, 204, 204, 120, 0, 0, 0, 0],
      [0, 0, 230, 102, 102, 108, 120, 120, 108, 102, 102, 230, 0, 0, 0, 0],
      [0, 0, 240, 96, 96, 96, 96, 96, 96, 98, 102, 254, 0, 0, 0, 0],
      [0, 0, 198, 238, 254, 254, 214, 198, 198, 198, 198, 198, 0, 0, 0, 0],
      [0, 0, 198, 230, 246, 254, 222, 206, 198, 198, 198, 198, 0, 0, 0, 0],
      [0, 0, 124, 198, 198, 198, 198, 198, 198, 198, 198, 124, 0, 0, 0, 0],
      [0, 0, 252, 102, 102, 102, 124, 96, 96, 96, 96, 240, 0, 0, 0, 0],
      [0, 0, 124, 198, 198, 198, 198, 198, 198, 214, 222, 124, 12, 14, 0, 0],
      [0, 0, 252, 102, 102, 102, 124, 108, 102, 102, 102, 230, 0, 0, 0, 0],
      [0, 0, 124, 198, 198, 96, 56, 12, 6, 198, 198, 124, 0, 0, 0, 0],
      [0, 0, 126, 126, 90, 24, 24, 24, 24, 24, 24, 60, 0, 0, 0, 0],
      [0, 0, 198, 198, 198, 198, 198, 198, 198, 198, 198, 124, 0, 0, 0, 0],
      [0, 0, 198, 198, 198, 198, 198, 198, 198, 108, 56, 16, 0, 0, 0, 0],
      [0, 0, 198, 198, 198, 198, 214, 214, 214, 254, 238, 108, 0, 0, 0, 0],
      [0, 0, 198, 198, 108, 124, 56, 56, 124, 108, 198, 198, 0, 0, 0, 0],
      [0, 0, 102, 102, 102, 102, 60, 24, 24, 24, 24, 60, 0, 0, 0, 0],
      [0, 0, 254, 198, 134, 12, 24, 48, 96, 194, 198, 254, 0, 0, 0, 0],
      [0, 0, 60, 48, 48, 48, 48, 48, 48, 48, 48, 60, 0, 0, 0, 0],
      [0, 0, 0, 128, 192, 224, 112, 56, 28, 14, 6, 2, 0, 0, 0, 0],
      [0, 0, 60, 12, 12, 12, 12, 12, 12, 12, 12, 60, 0, 0, 0, 0],
      [16, 56, 108, 198, 0, 0, 0, 0, 0, 0, 0, 0, 0, 0, 0, 0],
      [0, 0, 0, 0, 0, 0, 0, 0, 0, 0, 0, 0, 0, 255, 0, 0],
      [0, 48, 24, 12, 0, 0, 0, 0, 0, 0, 0, 0, 0, 0, 0, 0],
      [0, 0, 0, 0, 0, 120, 12, 124, 204, 204, 204, 118, 0, 0, 0, 0],
      [0, 0, 224, 96, 96, 120, 108, 102, 102, 102, 102, 124, 0, 0, 0, 0],
      [0, 0, 0, 0, 0, 124, 198, 192, 192, 192, 198, 124, 0, 0, 0, 0],
      [0, 0, 28, 12, 12, 60, 108, 204, 204, 204, 204, 118, 0, 0, 0, 0],
      [0, 0, 0, 0, 0, 124, 198, 254, 192, 192, 198, 124, 0, 0, 0, 0],
      [0, 0, 28, 54, 50, 48, 120, 48, 48, 48, 48, 120, 0, 0, 0, 0],
      [0, 0, 0, 0, 0, 118, 204, 204, 204, 204, 204, 124, 12, 204, 120, 0],
      [0, 0, 224, 96, 96, 108, 118, 102, 102, 102, 102, 230, 0, 0, 0, 0],
      [0, 0, 24, 24, 0, 56, 24, 24, 24, 24, 24, 60, 0, 0, 0, 0],
      [0, 0, 6, 6, 0, 14, 6, 6, 6, 6, 6, 6, 102, 102, 60, 0],
      [0, 0, 224, 96, 96, 102, 108, 120, 120, 108, 102, 230, 0, 0, 0, 0],
      [0, 0, 56, 24, 24, 24, 24, 24, 24, 24, 24, 60, 0, 0, 0, 0],
      [0, 0, 0, 0, 0, 236, 254, 214, 214, 214, 214, 198, 0, 0, 0, 0],
      [0, 0, 0, 0, 0, 220, 102, 102, 102, 102, 102, 102, 0, 0, 0, 0],
      [0, 0, 0, 0, 0, 124, 198, 198, 198, 198, 198, 124, 0, 0, 0, 0],
      [0, 0, 0, 0, 0, 220, 102, 102, 102, 102, 102, 124, 96, 96, 240, 0],
      [0, 0, 0, 0, 0, 118, 204, 204, 204, 204, 204, 124, 12, 12, 30, 0],
      [0, 0, 0, 0, 0, 220, 118, 102, 96, 96, 96, 240, 0, 0, 0, 0],
      [0, 0, 0, 0, 0, 124, 198, 96, 56, 12, 198, 124, 0, 0, 0, 0],
      [0, 0, 16, 48, 48, 252, 48, 48, 48, 48, 54, 28, 0, 0, 0, 0],
      [0, 0, 0, 0, 0, 204, 204, 204, 204, 204, 204, 118, 0, 0, 0, 0],
      [0, 0, 0, 0, 0, 198, 198, 198, 198, 198, 108, 56, 0, 0, 0, 0],
      [0, 0, 0, 0, 0, 198, 198, 214, 214, 214, 254, 108, 0, 0, 0, 0],
      [0, 0, 0, 0, 0, 198, 108, 56, 56, 56, 108, 198, 0, 0, 0, 0],
      [0, 0, 0, 0, 0, 198, 198, 198, 198, 198, 198, 126, 6, 12, 248, 0],
      [0, 0, 0, 0, 0, 254, 204, 24, 48, 96, 198, 254, 0, 0, 0, 0],
      [0, 0, 14, 24, 24, 24, 112, 24, 24, 24, 24, 14, 0, 0, 0, 0],
      [0, 0, 24, 24, 24, 24, 24, 24, 24, 24, 24, 24, 0, 0, 0, 0],
      [0, 0, 112, 24, 24, 24, 14, 24, 24, 24, 24, 112, 0, 0, 0, 0],
      [0, 118, 220, 0, 0, 0, 0, 0, 0, 0, 0, 0, 0, 0, 0, 0],
      [0, 0, 0, 0, 16, 56, 108, 198, 198, 198, 254, 0, 0, 0, 0, 0]]"

definition vga_font_high :: "u8 list list" where
  "vga_font_high =
     [[0, 0, 60, 102, 194, 192, 192, 192, 192, 194, 102, 60, 24, 112, 0, 0],
      [0, 0, 204, 0, 0, 204, 204, 204, 204, 204, 204, 118, 0, 0, 0, 0],
      [0, 12, 24, 48, 0, 124, 198, 254, 192, 192, 198, 124, 0, 0, 0, 0],
      [0, 16, 56, 108, 0, 120, 12, 124, 204, 204, 204, 118, 0, 0, 0, 0],
      [0, 0, 204, 0, 0, 120, 12, 124, 204, 204, 204, 118, 0, 0, 0, 0],
      [0, 96, 48, 24, 0, 120, 12, 124, 204, 204, 204, 118, 0, 0, 0, 0],
      [0, 56, 108, 56, 0, 120, 12, 124, 204, 204, 204, 118, 0, 0, 0, 0],
      [0, 0, 0, 0, 0, 124, 198, 192, 192, 192, 198, 124, 24, 112, 0, 0],
      [0, 16, 56, 108, 0, 124, 198, 254, 192, 192, 198, 124, 0, 0, 0, 0],
      [0, 0, 198, 0, 0, 124, 198, 254, 192, 192, 198, 124, 0, 0, 0, 0],
      [0, 96, 48, 24, 0, 124, 198, 254, 192, 192, 198, 124, 0, 0, 0, 0],
      [0, 0, 102, 0, 0, 56, 24, 24, 24, 24, 24, 60, 0, 0, 0, 0],
      [0, 24, 60, 102, 0, 56, 24, 24, 24, 24, 24, 60, 0, 0, 0, 0],
      [0, 96, 48, 24, 0, 56, 24, 24, 24, 24, 24, 60, 0, 0, 0, 0],
      [0, 198, 0, 16, 56, 108, 198, 198, 254, 198, 198, 198, 0, 0, 0, 0],
      [56, 108, 56, 16, 56, 108, 198, 254, 198, 198, 198, 198, 0, 0, 0, 0],
      [12, 24, 0, 254, 102, 98, 104, 120, 104, 98, 102, 254, 0, 0, 0, 0],
      [0, 0, 0, 0, 0, 236, 54, 54, 126, 216, 216, 110, 0, 0, 0, 0],
      [0, 0, 62, 108, 204, 204, 254, 204, 204, 204, 204, 206, 0, 0, 0, 0],
      [0, 16, 56, 108, 0, 124, 198, 198, 198, 198, 198, 124, 0, 0, 0, 0],
      [0, 0, 198, 0, 0, 124, 198, 198, 198, 198, 198, 124, 0, 0, 0, 0],
      [0, 96, 48, 24, 0, 124, 198, 198, 198, 198, 198, 124, 0, 0, 0, 0],
      [0, 48, 120, 204, 0, 204, 204, 204, 204, 204, 204, 118, 0, 0, 0, 0],
      [0, 96, 48, 24, 0, 204, 204, 204, 204, 204, 204, 118, 0, 0, 0, 0],
      [0, 0, 198, 0, 0, 198, 198, 198, 198, 198, 198, 126, 6, 12, 120, 0],
      [0, 198, 0, 124, 198, 198, 198, 198, 198, 198, 198, 124, 0, 0, 0, 0],
      [0, 198, 0, 198, 198, 198, 198, 198, 198, 198, 198, 124, 0, 0, 0, 0],
      [0, 24, 24, 124, 198, 192, 192, 192, 198, 124, 24, 24, 0, 0, 0, 0],
      [0, 56, 108, 100, 96, 240, 96, 96, 96, 96, 230, 252, 0, 0, 0, 0],
      [0, 0, 102, 102, 60, 24, 126, 24, 126, 24, 24, 24, 0, 0, 0, 0],
      [0, 248, 204, 204, 248, 196, 204, 222, 204, 204, 204, 198, 0, 0, 0, 0],
      [0, 14, 27, 24, 24, 24, 126, 24, 24, 24, 216, 112, 0, 0, 0, 0],
      [0, 24, 48, 96, 0, 120, 12, 124, 204, 204, 204, 118, 0, 0, 0, 0],
      [0, 12, 24, 48, 0, 56, 24, 24, 24, 24, 24, 60, 0, 0, 0, 0],
      [0, 24, 48, 96, 0, 124, 198, 198, 198, 198, 198, 124, 0, 0, 0, 0],
      [0, 24, 48, 96, 0, 204, 204, 204, 204, 204, 204, 118, 0, 0, 0, 0],
      [0, 0, 118, 220, 0, 220, 102, 102, 102, 102, 102, 102, 0, 0, 0, 0],
      [118, 220, 0, 198, 230, 246, 254, 222, 206, 198, 198, 198, 0, 0, 0, 0],
      [0, 0, 60, 108, 108, 62, 0, 126, 0, 0, 0, 0, 0, 0, 0, 0],
      [0, 0, 56, 108, 108, 56, 0, 124, 0, 0, 0, 0, 0, 0, 0, 0],
      [0, 0, 48, 48, 0, 48, 48, 96, 192, 198, 198, 124, 0, 0, 0, 0],
      [0, 0, 0, 0, 0, 0, 254, 192, 192, 192, 192, 0, 0, 0, 0, 0],
      [0, 0, 0, 0, 0, 0, 254, 6, 6, 6, 6, 0, 0, 0, 0, 0],
      [0, 96, 224, 98, 102, 108, 24, 48, 96, 220, 134, 12, 24, 62, 0, 0],
      [0, 96, 224, 98, 102, 108, 24, 48, 102, 206, 154, 63, 6, 6, 0, 0],
      [0, 0, 24, 24, 0, 24, 24, 24, 60, 60, 60, 24, 0, 0, 0, 0],
      [0, 0, 0, 0, 0, 54, 108, 216, 108, 54, 0, 0, 0, 0, 0, 0],
      [0, 0, 0, 0, 0, 216, 108, 54, 108, 216, 0, 0, 0, 0, 0, 0],
      [17, 68, 17, 68, 17, 68, 17, 68, 17, 68, 17, 68, 17, 68, 17, 68],
      [85, 170, 85, 170, 85, 170, 85, 170, 85, 170, 85, 170, 85, 170, 85, 170],
      [221, 119, 221, 119, 221, 119, 221, 119, 221, 119, 221, 119, 221, 119, 221, 119],
      [24, 24, 24, 24, 24, 24, 24, 24, 24, 24, 24, 24, 24, 24, 24, 24],
      [24, 24, 24, 24, 24, 24, 24, 248, 24, 24, 24, 24, 24, 24, 24, 24],
      [24, 24, 24, 24, 24, 248, 24, 248, 24, 24, 24, 24, 24, 24, 24, 24],
      [54, 54, 54, 54, 54, 54, 54, 246, 54, 54, 54, 54, 54, 54, 54, 54],
      [0, 0, 0, 0, 0, 0, 0, 254, 54, 54, 54, 54, 54, 54, 54, 54],
      [0, 0, 0, 0, 0, 248, 24, 248, 24, 24, 24, 24, 24, 24, 24, 24],
      [54, 54, 54, 54, 54, 246, 6, 246, 54, 54, 54, 54, 54, 54, 54, 54],
      [54, 54, 54, 54, 54, 54, 54, 54, 54, 54, 54, 54, 54, 54, 54, 54],
      [0, 0, 0, 0, 0, 254, 6, 246, 54, 54, 54, 54, 54, 54, 54, 54],
      [54, 54, 54, 54, 54, 246, 6, 254, 0, 0, 0, 0, 0, 0, 0, 0],
      [54, 54, 54, 54, 54, 54, 54, 254, 0, 0, 0, 0, 0, 0, 0, 0],
      [24, 24, 24, 24, 24, 248, 24, 248, 0, 0, 0, 0, 0, 0, 0, 0],
      [0, 0, 0, 0, 0, 0, 0, 248, 24, 24, 24, 24, 24, 24, 24, 24],
      [24, 24, 24, 24, 24, 24, 24, 31, 0, 0, 0, 0, 0, 0, 0, 0],
      [24, 24, 24, 24, 24, 24, 24, 255, 0, 0, 0, 0, 0, 0, 0, 0],
      [0, 0, 0, 0, 0, 0, 0, 255, 24, 24, 24, 24, 24, 24, 24, 24],
      [24, 24, 24, 24, 24, 24, 24, 31, 24, 24, 24, 24, 24, 24, 24, 24],
      [0, 0, 0, 0, 0, 0, 0, 255, 0, 0, 0, 0, 0, 0, 0, 0],
      [24, 24, 24, 24, 24, 24, 24, 255, 24, 24, 24, 24, 24, 24, 24, 24],
      [24, 24, 24, 24, 24, 31, 24, 31, 24, 24, 24, 24, 24, 24, 24, 24],
      [54, 54, 54, 54, 54, 54, 54, 55, 54, 54, 54, 54, 54, 54, 54, 54],
      [54, 54, 54, 54, 54, 55, 48, 63, 0, 0, 0, 0, 0, 0, 0, 0],
      [0, 0, 0, 0, 0, 63, 48, 55, 54, 54, 54, 54, 54, 54, 54, 54],
      [54, 54, 54, 54, 54, 247, 0, 255, 0, 0, 0, 0, 0, 0, 0, 0],
      [0, 0, 0, 0, 0, 255, 0, 247, 54, 54, 54, 54, 54, 54, 54, 54],
      [54, 54, 54, 54, 54, 55, 48, 55, 54, 54, 54, 54, 54, 54, 54, 54],
      [0, 0, 0, 0, 0, 255, 0, 255, 0, 0, 0, 0, 0, 0, 0, 0],
      [54, 54, 54, 54, 54, 247, 0, 247, 54, 54, 54, 54, 54, 54, 54, 54],
      [24, 24, 24, 24, 24, 255, 0, 255, 0, 0, 0, 0, 0, 0, 0, 0],
      [54, 54, 54, 54, 54, 54, 54, 255, 0, 0, 0, 0, 0, 0, 0, 0],
      [0, 0, 0, 0, 0, 255, 0, 255, 24, 24, 24, 24, 24, 24, 24, 24],
      [0, 0, 0, 0, 0, 0, 0, 255, 54, 54, 54, 54, 54, 54, 54, 54],
      [54, 54, 54, 54, 54, 54, 54, 63, 0, 0, 0, 0, 0, 0, 0, 0],
      [24, 24, 24, 24, 24, 31, 24, 31, 0, 0, 0, 0, 0, 0, 0, 0],
      [0, 0, 0, 0, 0, 31, 24, 31, 24, 24, 24, 24, 24, 24, 24, 24],
      [0, 0, 0, 0, 0, 0, 0, 63, 54, 54, 54, 54, 54, 54, 54, 54],
      [54, 54, 54, 54, 54, 54, 54, 255, 54, 54, 54, 54, 54, 54, 54, 54],
      [24, 24, 24, 24, 24, 255, 24, 255, 24, 24, 24, 24, 24, 24, 24, 24],
      [24, 24, 24, 24, 24, 24, 24, 248, 0, 0, 0, 0, 0, 0, 0, 0],
      [0, 0, 0, 0, 0, 0, 0, 31, 24, 24, 24, 24, 24, 24, 24, 24],
      [255, 255, 255, 255, 255, 255, 255, 255, 255, 255, 255, 255, 255, 255, 255, 255],
      [0, 0, 0, 0, 0, 0, 0, 255, 255, 255, 255, 255, 255, 255, 255, 255],
      [240, 240, 240, 240, 240, 240, 240, 240, 240, 240, 240, 240, 240, 240, 240, 240],
      [15, 15, 15, 15, 15, 15, 15, 15, 15, 15, 15, 15, 15, 15, 15, 15],
      [255, 255, 255, 255, 255, 255, 255, 0, 0, 0, 0, 0, 0, 0, 0, 0],
      [0, 0, 0, 0, 0, 118, 220, 216, 216, 216, 220, 118, 0, 0, 0, 0],
      [0, 0, 120, 204, 204, 204, 216, 204, 198, 198, 198, 204, 0, 0, 0, 0],
      [0, 0, 254, 198, 198, 192, 192, 192, 192, 192, 192, 192, 0, 0, 0, 0],
      [0, 0, 0, 0, 0, 254, 108, 108, 108, 108, 108, 108, 0, 0, 0, 0],
      [0, 0, 254, 198, 96, 48, 24, 24, 48, 96, 198, 254, 0, 0, 0, 0],
      [0, 0, 0, 0, 0, 126, 216, 216, 216, 216, 216, 112, 0, 0, 0, 0],
      [0, 0, 0, 0, 0, 102, 102, 102, 102, 102, 102, 124, 96, 96, 192, 0],
      [0, 0, 0, 0, 118, 220, 24, 24, 24, 24, 24, 24, 0, 0, 0, 0],
      [0, 0, 126, 24, 60, 102, 102, 102, 102, 60, 24, 126, 0, 0, 0, 0],
      [0, 0, 56, 108, 198, 198, 254, 198, 198, 198, 108, 56, 0, 0, 0, 0],
      [0, 0, 56, 108, 198, 198, 198, 108, 108, 108, 108, 238, 0, 0, 0, 0],
      [0, 0, 30, 48, 24, 12, 62, 102, 102, 102, 102, 60, 0, 0, 0, 0],
      [0, 0, 0, 0, 0, 126, 219, 219, 219, 126, 0, 0, 0, 0, 0, 0],
      [0, 0, 0, 3, 6, 126, 219, 219, 243, 126, 96, 192, 0, 0, 0, 0],
      [0, 0, 28, 48, 96, 96, 124, 96, 96, 96, 48, 28, 0, 0, 0, 0],
      [0, 0, 0, 124, 198, 198, 198, 198, 198, 198, 198, 198, 0, 0, 0, 0],
      [0, 0, 0, 0, 254, 0, 0, 254, 0, 0, 254, 0, 0, 0, 0, 0],
      [0, 0, 0, 0, 24, 24, 126, 24, 24, 0, 0, 126, 0, 0, 0, 0],
      [0, 0, 0, 48, 24, 12, 6, 12, 24, 48, 0, 126, 0, 0, 0, 0],
      [0, 0, 0, 12, 24, 48, 96, 48, 24, 12, 0, 126, 0, 0, 0, 0],
      [0, 0, 14, 27, 27, 24, 24, 24, 24, 24, 24, 24, 24, 24, 24, 24],
      [24, 24, 24, 24, 24, 24, 24, 24, 24, 216, 216, 216, 112, 0, 0, 0],
      [0, 0, 0, 0, 0, 24, 0, 126, 0, 24, 0, 0, 0, 0, 0, 0],
      [0, 0, 0, 0, 0, 118, 220, 0, 118, 220, 0, 0, 0, 0, 0, 0],
      [0, 56, 108, 108, 56, 0, 0, 0, 0, 0, 0, 0, 0, 0, 0, 0],
      [0, 0, 0, 0, 0, 0, 0, 24, 24, 0, 0, 0, 0, 0, 0, 0],
      [0, 0, 0, 0, 0, 0, 0, 24, 0, 0, 0, 0, 0, 0, 0, 0],
      [0, 15, 12, 12, 12, 12, 12, 236, 108, 108, 60, 28, 0, 0, 0, 0],
      [0, 108, 54, 54, 54, 54, 54, 0, 0, 0, 0, 0, 0, 0, 0, 0],
      [0, 60, 102, 12, 24, 50, 126, 0, 0, 0, 0, 0, 0, 0, 0, 0],
      [0, 0, 0, 0, 126, 126, 126, 126, 126, 126, 126, 0, 0, 0, 0, 0],
      [0, 0, 0, 0, 0, 0, 0, 0, 0, 0, 0, 0, 0, 0, 0, 0]]"

definition vga_font_8x16 :: "u8 list" where
  "vga_font_8x16 = concat vga_font_low @ concat vga_font_high"

definition default_font :: font where
  "default_font = \<lparr>font_addr = Some (\<lambda>i. byte_at vga_font_8x16 i), font_width = 8, font_height = 16,
     first_char_code = 0, last_char_code = 255\<rparr>"

text \<open>One pixel of the loops of \<^verbatim>\<open>font_draw_char\<close>.\<close>

definition glyph_bit :: "font \<Rightarrow> bytes \<Rightarrow> nat \<Rightarrow> nat \<Rightarrow> nat \<Rightarrow> bool" where
  "glyph_bit fo addr glyph row col =
     (let bytes_per_row = (unat (font_width fo) + 7) div 8;
          byte_index = row * bytes_per_row + col div 8;
          bit_mask = drop_bit (col mod 8) 0x80
      in addr (glyph * (bytes_per_row * unat (font_height fo)) + byte_index) AND bit_mask \<noteq> 0)"

definition font_draw_char :: "font \<Rightarrow> u8 \<Rightarrow> int \<Rightarrow> int \<Rightarrow> u32 \<Rightarrow> fbuf \<Rightarrow> fbuf" where
  "font_draw_char fo c x y colour f =
     (case font_addr fo of None \<Rightarrow> f
      | Some addr \<Rightarrow>
        let code = (if c < first_char_code fo \<or> c > last_char_code fo then 63 else c);
            glyph_index = unat (code - first_char_code fo)
        in fold (\<lambda>row. fold (\<lambda>col f.
             if \<not> glyph_bit fo addr glyph_index row col then f else
             let px = x + int col; py = y + int row in
             if px < 0 \<or> py < 0 \<or> px \<ge> fb_width f \<or> py \<ge> fb_height f then f
             else fb_putpixel px py colour f) [0..<unat (font_width fo)]) [0..<unat (font_height fo)] f)"

fun draw_string :: "font \<Rightarrow> cstr \<Rightarrow> int \<Rightarrow> u32 \<Rightarrow> int \<times> int \<Rightarrow> fbuf \<Rightarrow> fbuf" where
  "draw_string fo [] x colour cur f = f"
| "draw_string fo (c # s) x colour (cx, cy) f =
     (if c = 10 then draw_string fo s x colour (x, cy + uint (font_height fo)) f
      else draw_string fo s x colour (cx + uint (font_width fo), cy) (font_draw_char fo c cx cy colour f))"

definition font_draw_string :: "font \<Rightarrow> cstr \<Rightarrow> int \<Rightarrow> int \<Rightarrow> u32 \<Rightarrow> fbuf \<Rightarrow> fbuf" where
  "font_draw_string fo str x y colour f = draw_string fo str x colour (x, y) f"

lemma vga_font_shape:
  "length vga_font_low = 128" "length vga_font_high = 128"
  "list_all (\<lambda>g. length g = 16) vga_font_low" "list_all (\<lambda>g. length g = 16) vga_font_high"
  "list_all (\<lambda>b. b = 0) (vga_font_low ! 32)"
  by code_simp+

lemma vga_font_rows:
  "length vga_font_low = 128" "length vga_font_high = 128"
  "\<forall>g\<in>set vga_font_low. length g = 16" "\<forall>g\<in>set vga_font_high. length g = 16"
  using vga_font_shape by (simp_all add: list_all_iff)

lemma nth_concat_uniform:
  "\<forall>g\<in>set xss. length g = n \<Longrightarrow> k < length xss \<Longrightarrow> j < n \<Longrightarrow> concat xss ! (k * n + j) = xss ! k ! j"
proof (induction xss arbitrary: k)
  case (Cons xs xss)
  then show ?case by (cases k) (auto simp: nth_append algebra_simps)
qed simp

lemma length_concat_uniform: "\<forall>g\<in>set xss. length g = n \<Longrightarrow> length (concat xss) = length xss * n"
  by (induction xss) auto

text \<open>The bit of a character of the default font: the leftmost pixel is the top bit of its row.\<close>

definition char_pixel :: "u8 \<Rightarrow> nat \<Rightarrow> nat \<Rightarrow> bool" where
  "char_pixel c row col \<longleftrightarrow> bit ((vga_font_low @ vga_font_high) ! unat c ! row) (7 - col)"

lemma drop_push_one: "c \<le> k \<Longrightarrow> k < 8 \<Longrightarrow> drop_bit c (push_bit k 1) = (push_bit (k - c) 1 :: u8)"
  by (rule bit_word_eqI) (auto simp: bit_drop_bit_eq bit_push_bit_iff bit_1_iff simp del: push_bit_of_1)

lemma mask_bit: "col < 8 \<Longrightarrow> (v AND drop_bit col 0x80 \<noteq> (0 :: u8)) \<longleftrightarrow> bit v (7 - col)"
proof -
  assume c: "col < 8"
  have "(0x80 :: u8) = push_bit 7 1" by simp
  then have "drop_bit col 0x80 = (push_bit (7 - col) 1 :: u8)"
    using c drop_push_one[of col 7] by (simp only:)
  then show ?thesis
    by (simp add: bit_iff_and_push_bit_not_eq_0)
qed

lemma unat_u8_less: "unat (c :: u8) < 256"
  using unat_lt_two_power[of c] by simp

lemma default_font_fields:
  "font_addr default_font = Some (byte_at vga_font_8x16)" "font_width default_font = 8"
  "font_height default_font = 16" "first_char_code default_font = 0" "last_char_code default_font = 255"
  by (simp_all add: default_font_def)

lemma default_glyph_bit:
  assumes "row < 16" "col < 8"
  shows "glyph_bit default_font (byte_at vga_font_8x16) (unat c) row col = char_pixel c row col"
proof -
  let ?font = "vga_font_low @ vga_font_high"
  have u: "\<forall>g\<in>set ?font. length g = 16" "length ?font = 256"
    using vga_font_rows by auto
  have c: "unat c < 256" by (rule unat_u8_less)
  have v: "vga_font_8x16 = concat ?font" by (simp add: vga_font_8x16_def)
  have "unat c * 16 + row < 4096" using c assms(1) by linarith
  then have "byte_at vga_font_8x16 (unat c * 16 + row) = ?font ! unat c ! row"
    using nth_concat_uniform[OF u(1), of "unat c" row] c u assms(1) length_concat_uniform[OF u(1)]
    by (simp add: byte_at_def v)
  then show ?thesis
    using assms mask_bit[OF assms(2)] by (simp add: glyph_bit_def default_font_fields char_pixel_def)
qed

lemma blank_space: "row < 16 \<Longrightarrow> \<not> char_pixel 32 row col"
proof -
  assume r: "row < 16"
  have "(vga_font_low @ vga_font_high) ! 32 = vga_font_low ! 32"
    by (simp add: nth_append vga_font_rows)
  moreover have "\<forall>b\<in>set (vga_font_low ! 32). b = 0" "length (vga_font_low ! 32) = 16"
    using vga_font_shape by (simp_all add: list_all_iff)
  ultimately have "(vga_font_low @ vga_font_high) ! 32 ! row = 0" using r by simp
  then show ?thesis by (simp add: char_pixel_def)
qed

lemma no_u8_above: "\<not> (255 :: u8) < c"
  using unat_u8_less[of c] by (simp add: word_less_nat_alt)

lemma draw_char_pixels:
  assumes "fb_ready f"
  shows "same_mode f (font_draw_char default_font c x y colour f)"
    and "on_screen f x' y' \<Longrightarrow> pixel_at (font_draw_char default_font c x y colour f) x' y' =
      (if \<exists>row<16. \<exists>col<8. char_pixel c row col \<and> x' = x + int col \<and> y' = y + int row
       then pixel_bytes (fb_depth f) colour else pixel_at f x' y')"
proof -
  let ?cond = "\<lambda>(row, col). char_pixel c row col"
  let ?ps = "List.product [0..<16] [0..<8]"
  have put: "(if px < 0 \<or> py < 0 \<or> px \<ge> fb_width f \<or> py \<ge> fb_height f then f else fb_putpixel px py colour f)
      = fb_putpixel px py colour f" for px py f
    by (auto simp: fb_putpixel_def)
  have d: "font_draw_char default_font c x y colour f =
      fold (\<lambda>row. fold (\<lambda>col. if ?cond (row, col) then fb_putpixel (x + int col) (y + int row) colour else id)
        [0..<8]) [0..<16] f"
    unfolding font_draw_char_def Let_def put
    by (simp add: default_font_fields no_u8_above del: upt_Suc) (intro fold_cong refl ext, simp add: default_glyph_bit)
  have d': "font_draw_char default_font c x y colour f =
      fold (\<lambda>p. if ?cond p then fb_putpixel (x + int (snd p)) (y + int (fst p)) colour else id) ?ps f"
    unfolding d fold_product by (rule fold_cong) auto
  note P = paint[OF assms, where cond = ?cond and px = "\<lambda>p. x + int (snd p)" and py = "\<lambda>p. y + int (fst p)"
      and c = colour and ps = ?ps]
  show "same_mode f (font_draw_char default_font c x y colour f)" unfolding d' by (rule P(1))
  show "on_screen f x' y' \<Longrightarrow> pixel_at (font_draw_char default_font c x y colour f) x' y' =
      (if \<exists>row<16. \<exists>col<8. char_pixel c row col \<and> x' = x + int col \<and> y' = y + int row
       then pixel_bytes (fb_depth f) colour else pixel_at f x' y')"
    unfolding d' by (subst P(2)) (force simp del: upt_Suc)+
qed

end
