(* ===== verification/Mouse.thy ===== *)
theory Mouse
  imports Fifo Ports Framebuffer "HOL-Library.Signed_Division"
begin

text \<open>
  The mouse driver \<^verbatim>\<open>kernel/drivers/mouse.c\<close>: the PS/2 controller set-up, the three-byte packet
  parser fed by IRQ 12, the pointer position and the event queue, an interpretation of
  \<open>bounded_fifo\<close>.  The USB driver reports through \<open>mouse_update_relative\<close> and
  \<open>mouse_update_absolute\<close> as well.
\<close>

section \<open>State\<close>

abbreviation MOUSE_EVENT_MOVE :: u8 where "MOUSE_EVENT_MOVE \<equiv> 1"
abbreviation MOUSE_EVENT_BUTTON :: u8 where "MOUSE_EVENT_BUTTON \<equiv> 2"
abbreviation MOUSE_BUFFER_SIZE :: nat where "MOUSE_BUFFER_SIZE \<equiv> 64"

record mouse_event =
  me_type :: u8
  me_x :: u16
  me_y :: u16
  me_buttons :: u8
  me_button :: u8
  me_pressed :: u8

record mouse =
  mouse_buffer :: "nat \<Rightarrow> mouse_event"
  mouse_read_idx :: nat
  mouse_write_idx :: nat
  packet :: "nat \<Rightarrow> u8"
  packet_idx :: nat
  mouse_x :: int
  mouse_y :: int
  mouse_buttons :: u8

section \<open>The controller\<close>

definition ps2_wait_write :: "'d ports \<Rightarrow> 'd \<Rightarrow> bool \<times> 'd" where
  "ps2_wait_write io d = poll_port io 0x64 (\<lambda>v. v AND 0x02 = 0) 100000 d"

definition ps2_wait_read :: "'d ports \<Rightarrow> 'd \<Rightarrow> bool \<times> 'd" where
  "ps2_wait_read io d = poll_port io 0x64 (\<lambda>v. v AND 0x01 \<noteq> 0) 100000 d"

definition mouse_write_cmd :: "'d ports \<Rightarrow> u8 \<Rightarrow> 'd \<Rightarrow> bool \<times> 'd" where
  "mouse_write_cmd io v d =
     (case ps2_wait_write io d of (ok, d) \<Rightarrow> if \<not> ok then (False, d) else
      let d = port_out8 io 0x64 0xD4 d in
      case ps2_wait_write io d of (ok, d) \<Rightarrow> if \<not> ok then (False, d) else
      (True, port_out8 io 0x60 v d))"

text \<open>The byte read, \<open>None\<close> when the wait runs out.\<close>

definition mouse_read_data :: "'d ports \<Rightarrow> 'd \<Rightarrow> u8 option \<times> 'd" where
  "mouse_read_data io d =
     (case ps2_wait_read io d of (ok, d) \<Rightarrow> if \<not> ok then (None, d) else
      case port_in8 io 0x60 d of (v, d) \<Rightarrow> (Some v, d))"

text \<open>Discarding pending bytes, at most \<open>n\<close>.\<close>

fun mouse_flush :: "'d ports \<Rightarrow> nat \<Rightarrow> 'd \<Rightarrow> 'd" where
  "mouse_flush io 0 d = d"
| "mouse_flush io (Suc n) d =
     (case port_in8 io 0x64 d of (v, d) \<Rightarrow>
        if v AND 0x01 = 0 then d else mouse_flush io n (snd (port_in8 io 0x60 d)))"

definition mouse_command :: "'d ports \<Rightarrow> u8 \<Rightarrow> 'd \<Rightarrow> 'd" where
  "mouse_command io v d =
     (case mouse_write_cmd io v d of (ok, d) \<Rightarrow> if ok then snd (mouse_read_data io d) else d)"

definition mouse_setup :: "'d ports \<Rightarrow> 'd \<Rightarrow> 'd" where
  "mouse_setup io d =
     (let d = mouse_flush io 32 d in
      case ps2_wait_write io d of (ok, d) \<Rightarrow> if \<not> ok then d else
      let d = port_out8 io 0x64 0xA8 d in
      case ps2_wait_write io d of (ok, d) \<Rightarrow> if \<not> ok then d else
      let d = port_out8 io 0x64 0x20 d in
      case mouse_read_data io d of (None, d) \<Rightarrow> d | (Some status, d) \<Rightarrow>
      let status = (status OR 0x02) AND NOT 0x20 in
      case ps2_wait_write io d of (ok, d) \<Rightarrow> if \<not> ok then d else
      let d = port_out8 io 0x64 0x60 d in
      case ps2_wait_write io d of (ok, d) \<Rightarrow> if \<not> ok then d else
      let d = port_out8 io 0x60 status d in
      mouse_command io 0xF4 (mouse_command io 0xF6 d))"

definition mouse_init :: "'d ports \<Rightarrow> fbuf \<Rightarrow> mouse \<times> 'd \<Rightarrow> mouse \<times> 'd" where
  "mouse_init io f = (\<lambda>(m, d).
     let w = fb_width f; h = fb_height f
     in (m\<lparr>mouse_read_idx := 0, mouse_write_idx := 0, packet_idx := 0, mouse_buttons := 0,
           mouse_x := (if w > 0 then w div 2 else 0), mouse_y := (if h > 0 then h div 2 else 0)\<rparr>,
         mouse_setup io d))"

section \<open>Events\<close>

definition mouse_queue_event :: "mouse_event \<Rightarrow> mouse \<Rightarrow> mouse" where
  "mouse_queue_event ev m =
     (let next_write = (mouse_write_idx m + 1) mod MOUSE_BUFFER_SIZE
      in if next_write = mouse_read_idx m then m
         else m\<lparr>mouse_buffer := (mouse_buffer m)(mouse_write_idx m := ev), mouse_write_idx := next_write\<rparr>)"

definition move_event :: "u8 \<Rightarrow> mouse \<Rightarrow> mouse_event" where
  "move_event buttons m =
     \<lparr>me_type = MOUSE_EVENT_MOVE, me_x = word_of_int (mouse_x m), me_y = word_of_int (mouse_y m),
      me_buttons = buttons, me_button = 0, me_pressed = 0\<rparr>"

text \<open>The loop over the three buttons and the final assignment, shared by both updates.\<close>

definition button_event :: "u8 \<Rightarrow> nat \<Rightarrow> mouse \<Rightarrow> mouse_event" where
  "button_event buttons b m =
     \<lparr>me_type = MOUSE_EVENT_BUTTON, me_x = word_of_int (mouse_x m), me_y = word_of_int (mouse_y m),
      me_buttons = buttons, me_button = of_nat (b + 1),
      me_pressed = (if buttons AND push_bit b 1 \<noteq> 0 then 1 else 0)\<rparr>"

definition update_buttons :: "u8 \<Rightarrow> mouse \<Rightarrow> mouse" where
  "update_buttons buttons m =
     (let changed = buttons XOR mouse_buttons m;
          m = (if changed \<noteq> 0
               then fold (\<lambda>b m. if changed AND push_bit b 1 = 0 then m
                                else mouse_queue_event (button_event buttons b m) m) [0..<3] m
               else m)
      in m\<lparr>mouse_buttons := buttons\<rparr>)"

definition mouse_update_relative :: "fbuf \<Rightarrow> int \<Rightarrow> int \<Rightarrow> u8 \<Rightarrow> mouse \<Rightarrow> mouse" where
  "mouse_update_relative f dx dy buttons m =
     (let m = (if dx \<noteq> 0 \<or> dy \<noteq> 0
               then let x = mouse_x m + dx; y = mouse_y m + dy;
                        max_x = fb_width f - 1; max_y = fb_height f - 1;
                        x = (if x < 0 then 0 else x); y = (if y < 0 then 0 else y);
                        max_x = (if max_x < 0 then 0 else max_x); max_y = (if max_y < 0 then 0 else max_y);
                        x = (if x > max_x then max_x else x); y = (if y > max_y then max_y else y);
                        m = m\<lparr>mouse_x := x, mouse_y := y\<rparr>
                    in mouse_queue_event (move_event buttons m) m
               else m)
      in update_buttons buttons m)"

text \<open>
  The scaling multiplies two C ints: a product that does not fit is undefined behaviour.
  C division truncates towards zero.
\<close>

definition fits_int :: "int \<Rightarrow> bool" where
  "fits_int n \<longleftrightarrow> - (2 ^ 31) \<le> n \<and> n < 2 ^ 31"

definition mouse_update_absolute :: "fbuf \<Rightarrow> int \<Rightarrow> int \<Rightarrow> int \<Rightarrow> int \<Rightarrow> u8 \<Rightarrow> mouse \<Rightarrow> mouse outcome" where
  "mouse_update_absolute f abs_x abs_y abs_max_x abs_max_y buttons m =
     (let w = fb_width f; h = fb_height f;
          w = (if w \<le> 0 then 1 else w); h = (if h \<le> 0 then 1 else h);
          abs_max_x = (if abs_max_x \<le> 0 then 1 else abs_max_x);
          abs_max_y = (if abs_max_y \<le> 0 then 1 else abs_max_y)
      in if \<not> fits_int (abs_x * (w - 1)) \<or> \<not> fits_int (abs_y * (h - 1)) then Undef
      else let new_x = (abs_x * (w - 1)) sdiv abs_max_x; new_y = (abs_y * (h - 1)) sdiv abs_max_y;
               new_x = (if new_x < 0 then 0 else new_x); new_y = (if new_y < 0 then 0 else new_y);
               new_x = (if new_x \<ge> w then w - 1 else new_x); new_y = (if new_y \<ge> h then h - 1 else new_y);
               m = (if new_x \<noteq> mouse_x m \<or> new_y \<noteq> mouse_y m
                    then let m = m\<lparr>mouse_x := new_x, mouse_y := new_y\<rparr>
                         in mouse_queue_event (move_event buttons m) m
                    else m)
           in Done (update_buttons buttons m))"

definition mouse_handle_byte :: "fbuf \<Rightarrow> u8 \<Rightarrow> mouse \<Rightarrow> mouse" where
  "mouse_handle_byte f data_byte m =
     (if packet_idx m = 0 \<and> data_byte AND 0x08 = 0 then m
      else let m = m\<lparr>packet := (packet m)(packet_idx m := data_byte), packet_idx := packet_idx m + 1\<rparr>
      in if packet_idx m < 3 then m
      else let m = m\<lparr>packet_idx := 0\<rparr>
      in if packet m 0 AND 0xC0 \<noteq> 0 then m
      else let dx = uint (packet m 1) - (if packet m 0 AND 0x10 \<noteq> 0 then 256 else 0);
               dy = uint (packet m 2) - (if packet m 0 AND 0x20 \<noteq> 0 then 256 else 0);
               buttons = packet m 0 AND 0x07
           in mouse_update_relative f dx (- dy) buttons m)"

definition mouse_poll_event :: "mouse \<Rightarrow> mouse_event option \<times> mouse" where
  "mouse_poll_event m =
     (if mouse_read_idx m = mouse_write_idx m then (None, m)
      else (Some (mouse_buffer m (mouse_read_idx m)),
            m\<lparr>mouse_read_idx := (mouse_read_idx m + 1) mod MOUSE_BUFFER_SIZE\<rparr>))"

definition mouse_get_x :: "mouse \<Rightarrow> int" where "mouse_get_x m = mouse_x m"
definition mouse_get_y :: "mouse \<Rightarrow> int" where "mouse_get_y m = mouse_y m"
definition mouse_get_buttons :: "mouse \<Rightarrow> u8" where "mouse_get_buttons m = mouse_buttons m"

section \<open>The queue\<close>

definition mouse_queue_inv :: "mouse \<Rightarrow> bool" where
  "mouse_queue_inv m \<longleftrightarrow> mouse_read_idx m < 64 \<and> mouse_write_idx m < 64"

definition mouse_contents :: "mouse \<Rightarrow> mouse_event list" where
  "mouse_contents m = ring_elems 64 (mouse_buffer m) (mouse_read_idx m) (mouse_write_idx m)"

interpretation mouse_events: bounded_fifo mouse_queue_event mouse_poll_event mouse_contents 63 mouse_queue_inv
proof unfold_locales
  fix m x assume "mouse_queue_inv m"
  then have rw: "mouse_read_idx m < 64" "mouse_write_idx m < 64" by (simp_all add: mouse_queue_inv_def)
  note R = ring_elems_put[OF rw, where buf = "mouse_buffer m"]
  show "mouse_queue_inv (mouse_queue_event x m) \<and> mouse_contents (mouse_queue_event x m) =
      (if length (mouse_contents m) < 63 then mouse_contents m @ [x] else mouse_contents m)"
    using R(1,3) rw
    by (auto simp: mouse_queue_event_def mouse_contents_def mouse_queue_inv_def Let_def R(2)[where x = x, simplified])
next
  fix m assume "mouse_queue_inv m"
  then have rw: "mouse_read_idx m < 64" "mouse_write_idx m < 64" by (simp_all add: mouse_queue_inv_def)
  note R = ring_elems_get[OF rw, where buf = "mouse_buffer m"]
  show "mouse_contents m = [] \<Longrightarrow> mouse_poll_event m = (None, m)"
    using R(1) by (simp add: mouse_poll_event_def mouse_contents_def)
  show "length (mouse_contents m) \<le> 63" using ring_elems_put(4)[OF rw] by (simp add: mouse_contents_def)
  fix x xs assume "mouse_contents m = x # xs"
  then show "\<exists>m'. mouse_poll_event m = (Some x, m') \<and> mouse_queue_inv m' \<and> mouse_contents m' = xs"
    using R rw by (cases "mouse_read_idx m = mouse_write_idx m")
      (auto simp: mouse_poll_event_def mouse_queue_inv_def mouse_contents_def)
qed

section \<open>Updates\<close>

definition clamp :: "int \<Rightarrow> int \<Rightarrow> int" where
  "clamp n v = (let hi = max 0 (n - 1) in if v < 0 then 0 else min v hi)"

definition mouse_inv :: "fbuf \<Rightarrow> mouse \<Rightarrow> bool" where
  "mouse_inv f m \<longleftrightarrow> mouse_queue_inv m \<and> packet_idx m < 3 \<and>
     0 \<le> mouse_x m \<and> mouse_x m \<le> max 0 (fb_width f - 1) \<and>
     0 \<le> mouse_y m \<and> mouse_y m \<le> max 0 (fb_height f - 1)"

text \<open>The buttons whose state differs.\<close>

definition button_changes :: "u8 \<Rightarrow> u8 \<Rightarrow> nat list" where
  "button_changes old new = filter (\<lambda>b. (new XOR old) AND push_bit b 1 \<noteq> 0) [0..<3]"

lemma mouse_queue_event_frame [simp]:
  "mouse_x (mouse_queue_event ev m) = mouse_x m" "mouse_y (mouse_queue_event ev m) = mouse_y m"
  "mouse_buttons (mouse_queue_event ev m) = mouse_buttons m" "packet (mouse_queue_event ev m) = packet m"
  "packet_idx (mouse_queue_event ev m) = packet_idx m"
  by (simp_all add: mouse_queue_event_def Let_def)

lemma queue_events_frame [simp]:
  "mouse_x (fold mouse_queue_event evs m) = mouse_x m" "mouse_y (fold mouse_queue_event evs m) = mouse_y m"
  "mouse_buttons (fold mouse_queue_event evs m) = mouse_buttons m"
  "packet (fold mouse_queue_event evs m) = packet m"
  "packet_idx (fold mouse_queue_event evs m) = packet_idx m"
  by (induction evs arbitrary: m) auto

lemma button_event_queue [simp]: "button_event bs b (mouse_queue_event ev m) = button_event bs b m"
  by (simp add: button_event_def)

lemma button_loop:
  "fold (\<lambda>b m. if changed AND push_bit b 1 = 0 then m else mouse_queue_event (button_event bs b m) m) ks m =
   fold mouse_queue_event (map (\<lambda>b. button_event bs b m) (filter (\<lambda>b. changed AND push_bit b 1 \<noteq> 0) ks)) m"
  by (induction ks arbitrary: m) auto

lemma update_buttons_fold:
  "update_buttons bs m =
     (fold mouse_queue_event (map (\<lambda>b. button_event bs b m) (button_changes (mouse_buttons m) bs)) m)
       \<lparr>mouse_buttons := bs\<rparr>"
  unfolding update_buttons_def button_changes_def Let_def button_loop by auto

text \<open>The events an update reports: a movement first, then the buttons that changed.\<close>

definition update_events :: "bool \<Rightarrow> u8 \<Rightarrow> mouse \<Rightarrow> mouse_event list" where
  "update_events moved bs m = (if moved then [move_event bs m] else []) @
     map (\<lambda>b. button_event bs b m) (button_changes (mouse_buttons m) bs)"

lemma mouse_fields [simp]:
  "mouse_queue_inv (m\<lparr>mouse_buttons := bs\<rparr>) = mouse_queue_inv m"
  "mouse_contents (m\<lparr>mouse_buttons := bs\<rparr>) = mouse_contents m"
  "mouse_queue_inv (m\<lparr>mouse_x := x, mouse_y := y\<rparr>) = mouse_queue_inv m"
  "mouse_contents (m\<lparr>mouse_x := x, mouse_y := y\<rparr>) = mouse_contents m"
  "mouse_queue_inv (m\<lparr>packet := p, packet_idx := i\<rparr>) = mouse_queue_inv m"
  "mouse_contents (m\<lparr>packet := p, packet_idx := i\<rparr>) = mouse_contents m"
  by (simp_all add: mouse_queue_inv_def mouse_contents_def)

lemma update_fold:
  "update_buttons bs (if moved then mouse_queue_event (move_event bs m) m else m) =
     (fold mouse_queue_event (update_events moved bs m) m)\<lparr>mouse_buttons := bs\<rparr>"
  by (simp add: update_buttons_fold update_events_def)

lemma update_spec:
  assumes "mouse_queue_inv m"
    and "m' = update_buttons bs (if moved then mouse_queue_event (move_event bs m) m else m)"
  shows "mouse_queue_inv m' \<and> mouse_contents m' = take 63 (mouse_contents m @ update_events moved bs m) \<and>
    mouse_x m' = mouse_x m \<and> mouse_y m' = mouse_y m \<and> mouse_buttons m' = bs \<and>
    packet m' = packet m \<and> packet_idx m' = packet_idx m"
  using mouse_events.put_many_take[OF assms(1)] unfolding assms(2) update_fold by simp

definition moved_to :: "int \<Rightarrow> int \<Rightarrow> mouse \<Rightarrow> mouse" where
  "moved_to x y m = m\<lparr>mouse_x := x, mouse_y := y\<rparr>"

lemma update_relative_eq:
  "mouse_inv f m \<Longrightarrow> mouse_update_relative f dx dy bs m =
     (let moved = (dx \<noteq> 0 \<or> dy \<noteq> 0);
          n = moved_to (clamp (fb_width f) (mouse_x m + dx)) (clamp (fb_height f) (mouse_y m + dy)) m
      in update_buttons bs (if moved then mouse_queue_event (move_event bs n) n else n))"
  by (auto simp: mouse_update_relative_def moved_to_def clamp_def mouse_inv_def Let_def min_def max_def)

lemma clamp_range: "0 \<le> clamp n v" "clamp n v \<le> max 0 (n - 1)"
  by (auto simp: clamp_def Let_def)

lemma update_relative_spec:
  assumes "mouse_inv f m" "m' = mouse_update_relative f dx dy bs m"
  shows "mouse_inv f m' \<and> mouse_x m' = clamp (fb_width f) (mouse_x m + dx) \<and>
    mouse_y m' = clamp (fb_height f) (mouse_y m + dy) \<and> mouse_buttons m' = bs \<and> packet_idx m' = packet_idx m \<and>
    mouse_contents m' = take 63 (mouse_contents m @ update_events (dx \<noteq> 0 \<or> dy \<noteq> 0) bs
      (moved_to (clamp (fb_width f) (mouse_x m + dx)) (clamp (fb_height f) (mouse_y m + dy)) m))"
proof -
  let ?n = "moved_to (clamp (fb_width f) (mouse_x m + dx)) (clamp (fb_height f) (mouse_y m + dy)) m"
  have "mouse_queue_inv ?n" using assms(1) by (simp add: mouse_inv_def moved_to_def)
  from update_spec[OF this assms(2)[unfolded update_relative_eq[OF assms(1)] Let_def]] assms(1)
  show ?thesis using clamp_range by (simp add: mouse_inv_def moved_to_def)
qed

section \<open>Packets\<close>

lemma packet_bits:
  fixes b :: u8
  shows "(b AND 0x08 = 0) = (\<not> bit b 3)" "(b AND 0x10 = 0) = (\<not> bit b 4)" "(b AND 0x20 = 0) = (\<not> bit b 5)"
    "(b AND 0xC0 = 0) = (\<not> bit b 6 \<and> \<not> bit b 7)" "b AND 0x07 = take_bit 3 b"
proof -
  have p: "(0x08 :: u8) = push_bit 3 1" "(0x10 :: u8) = push_bit 4 1" "(0x20 :: u8) = push_bit 5 1"
    "(0xC0 :: u8) = push_bit 6 1 OR push_bit 7 1" "(0x07 :: u8) = mask 3"
    by (simp_all add: mask_numeral)
  show "(b AND 0x08 = 0) = (\<not> bit b 3)" "(b AND 0x10 = 0) = (\<not> bit b 4)" "(b AND 0x20 = 0) = (\<not> bit b 5)"
    unfolding p bit_iff_and_push_bit_not_eq_0 by simp_all
  show "(b AND 0xC0 = 0) = (\<not> bit b 6 \<and> \<not> bit b 7)"
    unfolding p bit_iff_and_push_bit_not_eq_0 bit.conj_disj_distrib or_eq_0_iff by simp
  show "b AND 0x07 = take_bit 3 b" unfolding p take_bit_eq_mask ..
qed

text \<open>
  C27 (functional).  From a packet boundary, a byte without the sync bit is skipped; otherwise
  three bytes form a packet, after which the parser is at a boundary again.  A packet with an
  overflow bit changes nothing; any other moves the pointer by the two 9-bit signed deltas,
  the vertical one negated, clamped to the screen, and queues one movement event if there was
  any movement and one event for each button that changed, as far as the queue has room.
\<close>

theorem mouse_packet_correct:
  assumes "mouse_inv f m" "packet_idx m = 0" "m' = fold (mouse_handle_byte f) [b0, b1, b2] m"
    and "dx = uint b1 - (if bit b0 4 then 256 else 0)" "dy = uint b2 - (if bit b0 5 then 256 else 0)"
  shows "(\<not> bit b0 3 \<longrightarrow> mouse_handle_byte f b0 m = m) \<and>
    (bit b0 3 \<longrightarrow> mouse_inv f m' \<and> packet_idx m' = 0 \<and>
      (if bit b0 6 \<or> bit b0 7
       then mouse_x m' = mouse_x m \<and> mouse_y m' = mouse_y m \<and> mouse_buttons m' = mouse_buttons m \<and>
         mouse_contents m' = mouse_contents m
       else let x = clamp (fb_width f) (mouse_x m + dx); y = clamp (fb_height f) (mouse_y m - dy)
         in mouse_x m' = x \<and> mouse_y m' = y \<and> mouse_buttons m' = take_bit 3 b0 \<and>
           mouse_contents m' = take 63 (mouse_contents m @
             update_events (dx \<noteq> 0 \<or> dy \<noteq> 0) (take_bit 3 b0) (moved_to x y m))))"
proof -
  note B = packet_bits[of b0]
  have q: "mouse_queue_inv m" "mouse_handle_byte f b0 m = (if bit b0 3 then
      m\<lparr>packet := (packet m)(0 := b0), packet_idx := 1\<rparr> else m)"
    using assms(1,2) B(1) by (auto simp: mouse_inv_def mouse_handle_byte_def Let_def)
  have skip: "\<not> bit b0 3 \<longrightarrow> mouse_handle_byte f b0 m = m" using q(2) by simp
  have run: "mouse_inv f m' \<and> packet_idx m' = 0 \<and>
      (if bit b0 6 \<or> bit b0 7
       then mouse_x m' = mouse_x m \<and> mouse_y m' = mouse_y m \<and> mouse_buttons m' = mouse_buttons m \<and>
         mouse_contents m' = mouse_contents m
       else let x = clamp (fb_width f) (mouse_x m + dx); y = clamp (fb_height f) (mouse_y m - dy)
         in mouse_x m' = x \<and> mouse_y m' = y \<and> mouse_buttons m' = take_bit 3 b0 \<and>
           mouse_contents m' = take 63 (mouse_contents m @
             update_events (dx \<noteq> 0 \<or> dy \<noteq> 0) (take_bit 3 b0) (moved_to x y m)))" if sync: "bit b0 3"
  proof -
    let ?n = "m\<lparr>packet := ((packet m)(0 := b0))(1 := b1, 2 := b2), packet_idx := 0\<rparr>"
    have n: "mouse_inv f ?n" using assms(1) by (simp add: mouse_inv_def mouse_queue_inv_def)
    have m': "m' = (if bit b0 6 \<or> bit b0 7 then ?n else mouse_update_relative f dx (- dy) (take_bit 3 b0) ?n)"
      unfolding assms(3) using q(2) sync
      by (auto simp: mouse_handle_byte_def Let_def B assms(4,5) numeral_2_eq_2)
    show ?thesis
    proof (cases "bit b0 6 \<or> bit b0 7")
      case True
      with m' n show ?thesis by simp
    next
      case False
      with m' have "m' = mouse_update_relative f dx (- dy) (take_bit 3 b0) ?n" by simp
      from update_relative_spec[OF n this] show ?thesis
        using False by (simp add: update_events_def moved_to_def Let_def move_event_def button_event_def)
    qed
  qed
  from skip run show ?thesis by blast
qed

text \<open>A packet on a 640 by 480 screen: right button pressed, 5 to the right, 300 up (clamped).\<close>

definition sample_mouse :: mouse where
  "sample_mouse = \<lparr>mouse_buffer = (\<lambda>_. undefined), mouse_read_idx = 9, mouse_write_idx = 9,
     packet = (\<lambda>_. 0), packet_idx = 0, mouse_x = 320, mouse_y = 240, mouse_buttons = 0\<rparr>"

theorem mouse_packet_correct_witness:
  "let f = \<lparr>fb_addr = 1, fb_w = 640, fb_h = 480, fb_depth = 32, vram = (\<lambda>_. 0)\<rparr>;
       m' = fold (mouse_handle_byte f) [0x0A, 5, 250] sample_mouse
   in mouse_x m' = 325 \<and> mouse_y m' = 0 \<and> mouse_buttons m' = 2"
proof -
  let ?f = "\<lparr>fb_addr = 1, fb_w = 640, fb_h = 480, fb_depth = 32, vram = (\<lambda>_. 0)\<rparr>"
  have inv: "mouse_inv ?f sample_mouse" "packet_idx sample_mouse = 0"
    by (simp_all add: mouse_inv_def mouse_queue_inv_def sample_mouse_def fb_width_def fb_height_def)
  show ?thesis
    using mouse_packet_correct [OF inv refl, of 5 5 "0x0A" 250 250]
    by (simp add: sample_mouse_def clamp_def fb_width_def fb_height_def)
qed

end
