(* ===== verification/Console.thy ===== *)
theory Console
  imports Framebuffer
begin

text \<open>
  The text console of \<^verbatim>\<open>kernel/console.c\<close>: an 80 by 25 array of characters, a cursor, and the
  framebuffer it is drawn on.  \<open>shown\<close> is what the console promises: every pixel of the
  25 rows is the pixel of the glyph of the character stored for its cell.
\<close>

section \<open>State\<close>

abbreviation CONSOLE_COLS :: int where "CONSOLE_COLS \<equiv> 80"
abbreviation CONSOLE_ROWS :: int where "CONSOLE_ROWS \<equiv> 25"
abbreviation CONSOLE_FG :: u32 where "CONSOLE_FG \<equiv> 0xFFFFFF"
abbreviation CONSOLE_BG :: u32 where "CONSOLE_BG \<equiv> 0"

record console =
  cursor_row :: int
  cursor_col :: int
  console_chars :: "int \<Rightarrow> int \<Rightarrow> u8"
  screen :: fbuf

section \<open>Drawing\<close>

definition fill_rect :: "int \<Rightarrow> int \<Rightarrow> int \<Rightarrow> int \<Rightarrow> u32 \<Rightarrow> fbuf \<Rightarrow> fbuf" where
  "fill_rect x y w h colour f =
     fold (\<lambda>yy. fold (\<lambda>xx. fb_putpixel (x + xx) (y + yy) colour) [0..w - 1]) [0..h - 1] f"

definition draw_cell :: "int \<Rightarrow> int \<Rightarrow> u8 \<Rightarrow> fbuf \<Rightarrow> fbuf" where
  "draw_cell row col ch f =
     (let cell_x = col * uint (font_width default_font); cell_y = row * uint (font_height default_font)
      in font_draw_char default_font ch cell_x cell_y CONSOLE_FG
           (fill_rect cell_x cell_y (uint (font_width default_font)) (uint (font_height default_font)) CONSOLE_BG f))"

definition redraw_all :: "console \<Rightarrow> console" where
  "redraw_all c = c\<lparr>screen := fold (\<lambda>row. fold (\<lambda>col. draw_cell row col (console_chars c row col))
     [0..CONSOLE_COLS - 1]) [0..CONSOLE_ROWS - 1] (screen c)\<rparr>"

section \<open>Operations\<close>

definition put_char :: "int \<Rightarrow> int \<Rightarrow> u8 \<Rightarrow> console \<Rightarrow> console" where
  "put_char row col ch c = c\<lparr>console_chars := (console_chars c)(row := (console_chars c row)(col := ch))\<rparr>"

definition scroll_up :: "console \<Rightarrow> console" where
  "scroll_up c =
     (let c = fold (\<lambda>row c. fold (\<lambda>col c. put_char (row - 1) col (console_chars c row col) c)
                     [0..CONSOLE_COLS - 1] c) [1..CONSOLE_ROWS - 1] c;
          c = fold (\<lambda>col. put_char (CONSOLE_ROWS - 1) col 32) [0..CONSOLE_COLS - 1] c
      in (redraw_all c)\<lparr>cursor_row := CONSOLE_ROWS - 1\<rparr>)"

definition console_clear :: "console \<Rightarrow> console" where
  "console_clear c =
     (let c = fold (\<lambda>row. fold (\<lambda>col. put_char row col 32) [0..CONSOLE_COLS - 1]) [0..CONSOLE_ROWS - 1] c
      in c\<lparr>screen := fill_rect 0 0 (CONSOLE_COLS * uint (font_width default_font))
                       (CONSOLE_ROWS * uint (font_height default_font)) CONSOLE_BG (screen c),
           cursor_row := 0, cursor_col := 0\<rparr>)"

definition console_init :: "console \<Rightarrow> console" where
  "console_init c = console_clear c"

text \<open>Storing a character in the array and drawing its cell.\<close>

definition show_char :: "u8 \<Rightarrow> console \<Rightarrow> console" where
  "show_char ch c = (put_char (cursor_row c) (cursor_col c) ch c)
     \<lparr>screen := draw_cell (cursor_row c) (cursor_col c) ch (screen c)\<rparr>"

text \<open>The loop of the tab: blanks up to the next multiple of 8, with a break at the line's end.\<close>

function tab_loop :: "int \<Rightarrow> console \<Rightarrow> console" where
  "tab_loop next c =
     (if cursor_col c < next
      then let c = show_char 32 c; c = c\<lparr>cursor_col := cursor_col c + 1\<rparr>
           in if cursor_col c \<ge> CONSOLE_COLS
              then c\<lparr>cursor_col := 0, cursor_row := cursor_row c + 1\<rparr>
              else tab_loop next c
      else c)"
  by pat_completeness auto
termination
  by (relation "measure (\<lambda>(next, c). nat (next - cursor_col c))") (auto simp: show_char_def put_char_def Let_def)

declare tab_loop.simps [simp del]

definition putc_body :: "int \<Rightarrow> console \<Rightarrow> console" where
  "putc_body ch c =
     (if ch = 10 then c\<lparr>cursor_col := 0, cursor_row := cursor_row c + 1\<rparr>
      else if ch = 13 then c\<lparr>cursor_col := 0\<rparr>
      else if ch = 8
      then (if cursor_col c > 0 then show_char 32 (c\<lparr>cursor_col := cursor_col c - 1\<rparr>) else c)
      else if ch = 9 then tab_loop ((cursor_col c + 8) AND NOT 7) c
      else (let ch = (if ch < 0x20 \<or> ch > 0x7E then 63 else ch); c = show_char (word_of_int ch) c
            in c\<lparr>cursor_col := cursor_col c + 1\<rparr>))"

definition console_putc :: "int \<Rightarrow> console \<Rightarrow> console" where
  "console_putc ch c =
     (let c = putc_body ch c;
          c = (if cursor_col c \<ge> CONSOLE_COLS
               then c\<lparr>cursor_col := 0, cursor_row := cursor_row c + 1\<rparr> else c)
      in if cursor_row c \<ge> CONSOLE_ROWS then scroll_up c else c)"

definition console_write :: "bytes option \<Rightarrow> int \<Rightarrow> console \<Rightarrow> int \<times> console" where
  "console_write buf count c =
     (case buf of None \<Rightarrow> (-1, c)
      | Some b \<Rightarrow> if count < 0 then (-1, c)
                  else (count, fold (\<lambda>i. console_putc (uint (b (nat i)))) [0..count - 1] c))"

definition console_get_cursor :: "console \<Rightarrow> int \<times> int" where
  "console_get_cursor c = (cursor_row c, cursor_col c)"

definition console_set_cursor :: "int \<Rightarrow> int \<Rightarrow> console \<Rightarrow> console" where
  "console_set_cursor row col c =
     (let row = (if row < 0 then 0 else row);
          col = (if col < 0 then 0 else col);
          row = (if row \<ge> CONSOLE_ROWS then CONSOLE_ROWS - 1 else row);
          col = (if col \<ge> CONSOLE_COLS then CONSOLE_COLS - 1 else col)
      in c\<lparr>cursor_row := row, cursor_col := col\<rparr>)"

section \<open>What the console promises\<close>

definition in_cell :: "int \<Rightarrow> int \<Rightarrow> bool" where
  "in_cell row col \<longleftrightarrow> 0 \<le> row \<and> row < 25 \<and> 0 \<le> col \<and> col < 80"

text \<open>The pixel of the glyph of \<open>ch\<close> at offset \<open>(i, j)\<close> of its cell.\<close>

definition cell_colour :: "u8 \<Rightarrow> int \<Rightarrow> int \<Rightarrow> u32" where
  "cell_colour ch i j = (if char_pixel ch (nat j) (nat i) then CONSOLE_FG else CONSOLE_BG)"

definition shown :: "console \<Rightarrow> bool" where
  "shown c \<longleftrightarrow> (\<forall>x y. on_screen (screen c) x y \<and> x < 640 \<and> y < 400 \<longrightarrow>
     pixel_at (screen c) x y = pixel_bytes (fb_depth (screen c))
       (cell_colour (console_chars c (y div 16) (x div 8)) (x mod 8) (y mod 16)))"

definition cursor_ok :: "console \<Rightarrow> bool" where
  "cursor_ok c \<longleftrightarrow> in_cell (cursor_row c) (cursor_col c)"

definition console_inv :: "console \<Rightarrow> bool" where
  "console_inv c \<longleftrightarrow> fb_ready (screen c) \<and> cursor_ok c \<and> shown c"

section \<open>Drawing a cell\<close>

lemma font_size: "uint (font_width default_font) = 8" "uint (font_height default_font) = 16"
  by (simp_all add: default_font_fields)

lemma fill_rect_pixels:
  assumes "fb_ready f"
  shows "same_mode f (fill_rect x y w h colour f)"
    and "on_screen f x' y' \<Longrightarrow> pixel_at (fill_rect x y w h colour f) x' y' =
      (if x \<le> x' \<and> x' < x + w \<and> y \<le> y' \<and> y' < y + h then pixel_bytes (fb_depth f) colour
       else pixel_at f x' y')"
proof -
  let ?ps = "List.product [0..h - 1] [0..w - 1]"
  have d: "fill_rect x y w h colour f =
      fold (\<lambda>p. if True then fb_putpixel (x + snd p) (y + fst p) colour else id) ?ps f"
    unfolding fill_rect_def fold_product by (rule fold_cong) auto
  note P = paint[OF assms, where cond = "\<lambda>_. True" and px = "\<lambda>p. x + snd p" and py = "\<lambda>p. y + fst p"
      and c = colour and ps = ?ps]
  show "same_mode f (fill_rect x y w h colour f)" unfolding d by (rule P(1))
  assume s: "on_screen f x' y'"
  have "(\<exists>p\<in>set ?ps. True \<and> x + snd p = x' \<and> y + fst p = y') \<longleftrightarrow> x \<le> x' \<and> x' < x + w \<and> y \<le> y' \<and> y' < y + h"
    by (auto intro: bexI[of _ "x' - x"] bexI[of _ "y' - y"])
  then show "pixel_at (fill_rect x y w h colour f) x' y' =
      (if x \<le> x' \<and> x' < x + w \<and> y \<le> y' \<and> y' < y + h then pixel_bytes (fb_depth f) colour
       else pixel_at f x' y')"
    unfolding d by (subst P(2)[OF s]) simp
qed

lemma in_cell_iff:
  fixes x y row col :: int
  shows "(col * 8 \<le> x \<and> x < col * 8 + 8 \<and> row * 16 \<le> y \<and> y < row * 16 + 16) \<longleftrightarrow> x div 8 = col \<and> y div 16 = row"
    "(\<exists>r<16. \<exists>k<8. p r k \<and> x = col * 8 + int k \<and> y = row * 16 + int r) \<longleftrightarrow>
     x div 8 = col \<and> y div 16 = row \<and> p (nat (y mod 16)) (nat (x mod 8))"
proof -
  show "(col * 8 \<le> x \<and> x < col * 8 + 8 \<and> row * 16 \<le> y \<and> y < row * 16 + 16) \<longleftrightarrow> x div 8 = col \<and> y div 16 = row"
    by linarith
  show "(\<exists>r<16. \<exists>k<8. p r k \<and> x = col * 8 + int k \<and> y = row * 16 + int r) \<longleftrightarrow>
     x div 8 = col \<and> y div 16 = row \<and> p (nat (y mod 16)) (nat (x mod 8))" (is "?L \<longleftrightarrow> ?R")
  proof
    assume ?R
    moreover have "nat (y mod 16) < 16" "nat (x mod 8) < 8" by (simp_all add: nat_less_iff)
    moreover have "x = x div 8 * 8 + int (nat (x mod 8))" "y = y div 16 * 16 + int (nat (y mod 16))" by simp_all
    ultimately show ?L by metis
  qed auto
qed

lemma draw_cell_pixels:
  assumes "fb_ready f"
  shows "same_mode f (draw_cell row col ch f)"
    and "on_screen f x y \<Longrightarrow> pixel_at (draw_cell row col ch f) x y =
      (if x div 8 = col \<and> y div 16 = row then pixel_bytes (fb_depth f) (cell_colour ch (x mod 8) (y mod 16))
       else pixel_at f x y)"
proof -
  let ?g = "fill_rect (col * 8) (row * 16) 8 16 CONSOLE_BG f"
  note F = fill_rect_pixels[OF assms, where x = "col * 8" and y = "row * 16" and w = 8 and h = 16
      and colour = CONSOLE_BG]
  note S = same_mode_simps[OF F(1)]
  have g: "fb_ready ?g" using assms by (simp add: S)
  note D = draw_char_pixels[OF g, where c = ch and x = "col * 8" and y = "row * 16" and colour = CONSOLE_FG]
  have d: "draw_cell row col ch f = font_draw_char default_font ch (col * 8) (row * 16) CONSOLE_FG ?g"
    by (simp add: draw_cell_def font_size Let_def)
  show "same_mode f (draw_cell row col ch f)" unfolding d by (rule same_mode_trans[OF F(1) D(1)])
  assume s: "on_screen f x y"
  then have s': "on_screen ?g x y" by (simp add: S)
  show "pixel_at (draw_cell row col ch f) x y =
      (if x div 8 = col \<and> y div 16 = row then pixel_bytes (fb_depth f) (cell_colour ch (x mod 8) (y mod 16))
       else pixel_at f x y)"
    unfolding d D(2)[OF s'] F(2)[OF s] in_cell_iff S by (simp add: cell_colour_def)
qed

lemma draw_cells:
  assumes "fb_ready f"
  shows "same_mode f (fold (\<lambda>(row, col). draw_cell row col (chars row col)) ps f)"
    and "on_screen f x y \<Longrightarrow> pixel_at (fold (\<lambda>(row, col). draw_cell row col (chars row col)) ps f) x y =
      (if (y div 16, x div 8) \<in> set ps
       then pixel_bytes (fb_depth f) (cell_colour (chars (y div 16) (x div 8)) (x mod 8) (y mod 16))
       else pixel_at f x y)"
proof -
  let ?D = "\<lambda>ps f. fold (\<lambda>(row, col). draw_cell row col (chars row col)) ps f"
  have "same_mode f (?D ps f) \<and> (on_screen f x y \<longrightarrow> pixel_at (?D ps f) x y =
      (if (y div 16, x div 8) \<in> set ps
       then pixel_bytes (fb_depth f) (cell_colour (chars (y div 16) (x div 8)) (x mod 8) (y mod 16))
       else pixel_at f x y))"
    using assms
  proof (induction ps arbitrary: f)
    case (Cons p ps)
    obtain row col where p: "p = (row, col)" by (cases p)
    let ?f = "draw_cell row col (chars row col) f"
    note D = draw_cell_pixels[OF Cons.prems, where row = row and col = col and ch = "chars row col"]
    note S = same_mode_simps[OF D(1)]
    have ready: "fb_ready ?f" using Cons.prems by (simp add: S)
    note IH = Cons.IH[OF ready]
    have "same_mode f (?D (p # ps) f)" using IH same_mode_trans[OF D(1)] by (simp add: p)
    moreover have "on_screen f x y \<Longrightarrow> pixel_at (?D (p # ps) f) x y =
      (if (y div 16, x div 8) \<in> set (p # ps)
       then pixel_bytes (fb_depth f) (cell_colour (chars (y div 16) (x div 8)) (x mod 8) (y mod 16))
       else pixel_at f x y)"
      using IH D(2) by (auto simp: p S)
    ultimately show ?case by simp
  qed simp
  then show "same_mode f (?D ps f)" "on_screen f x y \<Longrightarrow> pixel_at (?D ps f) x y =
      (if (y div 16, x div 8) \<in> set ps
       then pixel_bytes (fb_depth f) (cell_colour (chars (y div 16) (x div 8)) (x mod 8) (y mod 16))
       else pixel_at f x y)" by auto
qed

section \<open>Redrawing, clearing and scrolling\<close>

lemma screen_cell:
  assumes "on_screen f x y" "x < 640" "y < 400"
  shows "in_cell (y div 16) (x div 8)"
  using assms by (auto simp: in_cell_def on_screen_def)

lemma redraw_all_frame [simp]:
  "cursor_row (redraw_all c) = cursor_row c" "cursor_col (redraw_all c) = cursor_col c"
  "console_chars (redraw_all c) = console_chars c"
  by (simp_all add: redraw_all_def)

lemma redraw_all_shown:
  assumes "fb_ready (screen c)"
  shows "fb_ready (screen (redraw_all c))" "shown (redraw_all c)"
proof -
  let ?ps = "List.product [0..CONSOLE_ROWS - 1] [0..CONSOLE_COLS - 1]"
  have d: "screen (redraw_all c) = fold (\<lambda>(row, col). draw_cell row col (console_chars c row col)) ?ps (screen c)"
    by (simp add: redraw_all_def fold_product)
  note D = draw_cells[OF assms, where chars = "console_chars c" and ps = ?ps, folded d]
  note S = same_mode_simps[OF D(1)]
  show "fb_ready (screen (redraw_all c))" using assms by (simp add: S)
  have "(y div 16, x div 8) \<in> set ?ps" if "on_screen (screen c) x y" "x < 640" "y < 400" for x y
    using screen_cell[OF that] by (simp add: in_cell_def)
  then show "shown (redraw_all c)" unfolding shown_def S by (auto simp: D(2) simp del: upto.simps set_product)
qed

lemma put_char_simps [simp]:
  "screen (put_char row col ch c) = screen c" "cursor_row (put_char row col ch c) = cursor_row c"
  "cursor_col (put_char row col ch c) = cursor_col c"
  "console_chars (put_char row col ch c) r k = (if r = row \<and> k = col then ch else console_chars c r k)"
  by (simp_all add: put_char_def)

text \<open>Storing characters at the cells of a list, each computed from an array that stays as it is.\<close>

lemma put_chars:
  "screen (fold (\<lambda>p. put_char (fst p) (snd p) (g p)) ps c) = screen c"
  "cursor_row (fold (\<lambda>p. put_char (fst p) (snd p) (g p)) ps c) = cursor_row c"
  "cursor_col (fold (\<lambda>p. put_char (fst p) (snd p) (g p)) ps c) = cursor_col c"
  "console_chars (fold (\<lambda>p. put_char (fst p) (snd p) (g p)) ps c) r k =
     (if (r, k) \<in> set ps then g (r, k) else console_chars c r k)"
  by (induction ps arbitrary: c) auto

lemma copy_row:
  assumes "row \<noteq> row'"
  shows "screen (fold (\<lambda>col c. put_char row' col (console_chars c row col) c) cols c) = screen c"
    "cursor_row (fold (\<lambda>col c. put_char row' col (console_chars c row col) c) cols c) = cursor_row c"
    "cursor_col (fold (\<lambda>col c. put_char row' col (console_chars c row col) c) cols c) = cursor_col c"
    "console_chars (fold (\<lambda>col c. put_char row' col (console_chars c row col) c) cols c) r k =
       (if r = row' \<and> k \<in> set cols then console_chars c row k else console_chars c r k)"
  using assms by (induction cols arbitrary: c) auto

lemma shift_rows:
  fixes c :: console
  defines "F \<equiv> \<lambda>n. fold (\<lambda>row c. fold (\<lambda>col c. put_char (row - 1) col (console_chars c row col) c)
     [0..CONSOLE_COLS - 1] c) [1..int n] c"
  shows "screen (F n) = screen c \<and> cursor_row (F n) = cursor_row c \<and> cursor_col (F n) = cursor_col c \<and>
    (\<forall>r k. console_chars (F n) r k =
       (if 0 \<le> r \<and> r < int n \<and> 0 \<le> k \<and> k < 80 then console_chars c (r + 1) k else console_chars c r k))"
proof (induction n)
  case 0
  then show ?case by (auto simp: F_def)
next
  case (Suc n)
  have "[1..int (Suc n)] = [1..int n] @ [int n + 1]" using upto_rec2[of 1 "int (Suc n)"] by simp
  then have F: "F (Suc n) = fold (\<lambda>col c. put_char (int n) col (console_chars c (int n + 1) col) c)
      [0..CONSOLE_COLS - 1] (F n)"
    by (simp add: F_def del: upto.simps)
  have "int n + 1 \<noteq> int n" by simp
  note C = copy_row[OF this, where cols = "[0..CONSOLE_COLS - 1]" and c = "F n", folded F]
  show ?case using Suc.IH C by auto
qed

lemma scroll_up_spec:
  assumes "fb_ready (screen c)"
  shows "fb_ready (screen (scroll_up c))" "shown (scroll_up c)" "cursor_row (scroll_up c) = 24"
    "cursor_col (scroll_up c) = cursor_col c"
    "in_cell row col \<Longrightarrow>
       console_chars (scroll_up c) row col = (if row = 24 then 32 else console_chars c (row + 1) col)"
proof -
  define d where "d = fold (\<lambda>row c. fold (\<lambda>col c. put_char (row - 1) col (console_chars c row col) c)
     [0..CONSOLE_COLS - 1] c) [1..CONSOLE_ROWS - 1] c"
  define e where "e = fold (\<lambda>col. put_char (CONSOLE_ROWS - 1) col 32) [0..CONSOLE_COLS - 1] d"
  have s: "scroll_up c = (redraw_all e)\<lparr>cursor_row := 24\<rparr>"
    by (simp add: scroll_up_def d_def e_def Let_def)
  have D: "screen d = screen c \<and> cursor_row d = cursor_row c \<and> cursor_col d = cursor_col c \<and>
    (\<forall>r k. console_chars d r k =
       (if 0 \<le> r \<and> r < 24 \<and> 0 \<le> k \<and> k < 80 then console_chars c (r + 1) k else console_chars c r k))"
    unfolding d_def using shift_rows[of 24 c] by simp
  have e: "e = fold (\<lambda>p. put_char (fst p) (snd p) 32) (map (Pair 24) [0..79]) d"
    unfolding e_def by (simp add: fold_map comp_def del: upto.simps)
  note E = put_chars[where g = "\<lambda>_. 32" and ps = "map (Pair 24) [0..79]" and c = d, folded e]
  have "fb_ready (screen e)" using assms D E(1) by simp
  from redraw_all_shown[OF this]
  show "fb_ready (screen (scroll_up c))" "shown (scroll_up c)"
    unfolding s shown_def by simp_all
  show "cursor_row (scroll_up c) = 24" "cursor_col (scroll_up c) = cursor_col c"
    unfolding s using D E(3) by simp_all
  show "in_cell row col \<Longrightarrow>
       console_chars (scroll_up c) row col = (if row = 24 then 32 else console_chars c (row + 1) col)"
    unfolding s using D E(4) by (auto simp: in_cell_def)
qed

lemma console_clear_spec:
  assumes "fb_ready (screen c)"
  shows "fb_ready (screen (console_clear c))" "shown (console_clear c)"
    "cursor_row (console_clear c) = 0" "cursor_col (console_clear c) = 0"
    "in_cell row col \<Longrightarrow> console_chars (console_clear c) row col = 32"
proof -
  define d where "d = fold (\<lambda>row. fold (\<lambda>col. put_char row col 32) [0..CONSOLE_COLS - 1]) [0..CONSOLE_ROWS - 1] c"
  let ?ps = "List.product [0..CONSOLE_ROWS - 1] [0..CONSOLE_COLS - 1]"
  have d: "d = fold (\<lambda>p. put_char (fst p) (snd p) 32) ?ps c"
    unfolding d_def fold_product by (simp add: case_prod_beta')
  note D = put_chars[where g = "\<lambda>_. 32" and ps = ?ps and c = c, folded d]
  have cl: "console_clear c = d\<lparr>screen := fill_rect 0 0 640 400 CONSOLE_BG (screen c), cursor_row := 0, cursor_col := 0\<rparr>"
    unfolding console_clear_def d_def[symmetric] Let_def font_size using D(1) by simp
  have r: "fb_ready (screen c)" by (rule assms)
  note F = fill_rect_pixels[OF r, where x = 0 and y = 0 and w = 640 and h = 400 and colour = CONSOLE_BG]
  note S = same_mode_simps[OF F(1)]
  show "fb_ready (screen (console_clear c))" using assms by (simp add: cl S)
  show "cursor_row (console_clear c) = 0" "cursor_col (console_clear c) = 0" by (simp_all add: cl)
  show ch: "in_cell row col \<Longrightarrow> console_chars (console_clear c) row col = 32" for row col
    using D(4) by (simp add: cl in_cell_def)
  have blank: "cell_colour 32 i j = CONSOLE_BG" if "j < 16" for i j
    using blank_space[of "nat j"] that by (simp add: cell_colour_def nat_less_iff)
  show "shown (console_clear c)"
    unfolding shown_def
  proof (intro allI impI)
    fix x y assume a: "on_screen (screen (console_clear c)) x y \<and> x < 640 \<and> y < 400"
    then have on: "on_screen (screen c) x y" by (simp add: cl S)
    have "pixel_at (screen (console_clear c)) x y = pixel_bytes (fb_depth (screen c)) CONSOLE_BG"
      using F(2)[OF on] a on by (simp add: cl on_screen_def)
    moreover have "console_chars (console_clear c) (y div 16) (x div 8) = 32"
      by (rule ch[OF screen_cell[OF on]]) (use a in auto)
    ultimately show "pixel_at (screen (console_clear c)) x y =
        pixel_bytes (fb_depth (screen (console_clear c)))
          (cell_colour (console_chars (console_clear c) (y div 16) (x div 8)) (x mod 8) (y mod 16))"
      by (simp add: blank cl S)
  qed
qed

section \<open>Writing a character\<close>

lemma show_char_spec:
  assumes "fb_ready (screen c)" "shown c"
  shows "fb_ready (screen (show_char ch c))" "shown (show_char ch c)"
    "cursor_row (show_char ch c) = cursor_row c" "cursor_col (show_char ch c) = cursor_col c"
    "console_chars (show_char ch c) r k =
       (if r = cursor_row c \<and> k = cursor_col c then ch else console_chars c r k)"
proof -
  note D = draw_cell_pixels[OF assms(1), where row = "cursor_row c" and col = "cursor_col c" and ch = ch]
  note S = same_mode_simps[OF D(1)]
  show "fb_ready (screen (show_char ch c))" using assms(1) by (simp add: show_char_def S)
  show "shown (show_char ch c)"
    using assms(2) unfolding shown_def by (auto simp: show_char_def S D(2))
  show "cursor_row (show_char ch c) = cursor_row c" "cursor_col (show_char ch c) = cursor_col c"
    "console_chars (show_char ch c) r k =
       (if r = cursor_row c \<and> k = cursor_col c then ch else console_chars c r k)"
    by (simp_all add: show_char_def)
qed

lemma shown_cursor [simp]: "shown (c\<lparr>cursor_row := r, cursor_col := k\<rparr>) = shown c"
  "shown (c\<lparr>cursor_col := k\<rparr>) = shown c" "shown (c\<lparr>cursor_col := k, cursor_row := r\<rparr>) = shown c"
  by (simp_all add: shown_def)

text \<open>The tab loop blanks the cells from the cursor to \<open>stop\<close>, or to the end of the line.\<close>

lemma tab_loop_spec:
  assumes "fb_ready (screen c)" "shown c" "cursor_col c \<le> stop" "cursor_col c < 80" "stop \<le> 80"
  shows "fb_ready (screen (tab_loop stop c)) \<and> shown (tab_loop stop c) \<and>
    (cursor_row (tab_loop stop c), cursor_col (tab_loop stop c)) =
      (if stop = 80 then (cursor_row c + 1, 0) else (cursor_row c, stop)) \<and>
    (\<forall>r k. console_chars (tab_loop stop c) r k =
       (if r = cursor_row c \<and> cursor_col c \<le> k \<and> k < stop then 32 else console_chars c r k))"
  using assms
proof (induction stop c rule: tab_loop.induct)
  case (1 stop c)
  show ?case
  proof (cases "cursor_col c < stop")
    case False
    then have "tab_loop stop c = c" by (subst tab_loop.simps) simp
    with 1 False show ?thesis by auto
  next
    case lt: True
    let ?c = "(show_char 32 c)\<lparr>cursor_col := cursor_col (show_char 32 c) + 1\<rparr>"
    note C = show_char_spec[OF "1.prems"(1,2), where ch = 32]
    show ?thesis
    proof (cases "cursor_col c = 79")
      case True
      then have "stop = 80" using lt 1 by simp
      moreover have "tab_loop stop c = ?c\<lparr>cursor_col := 0, cursor_row := cursor_row ?c + 1\<rparr>"
        using True lt C(4) by (subst tab_loop.simps) (simp add: Let_def)
      ultimately show ?thesis using C True by (simp add: shown_def)
    next
      case False
      then have t: "tab_loop stop c = tab_loop stop ?c"
        using lt C(4) "1.prems" by (subst tab_loop.simps) (simp add: Let_def)
      have "fb_ready (screen ?c)" "shown ?c" "cursor_col ?c \<le> stop" "cursor_col ?c < 80"
        using C lt False "1.prems" by auto
      from "1.IH"[OF lt refl refl _ this "1.prems"(5)] show ?thesis
        unfolding t using C False lt "1.prems"(4) by auto
    qed
  qed
qed

section \<open>The abstract terminal\<close>

type_synonym textscreen = "(int \<Rightarrow> int \<Rightarrow> u8) \<times> int \<times> int"

definition text_newline :: "textscreen \<Rightarrow> textscreen" where
  "text_newline = (\<lambda>(chars, row, col).
     if row = 24 then (\<lambda>i k. if i = 24 then 32 else chars (i + 1) k, 24, 0) else (chars, row + 1, 0))"

definition text_set :: "int \<Rightarrow> (int \<Rightarrow> bool) \<Rightarrow> u8 \<Rightarrow> (int \<Rightarrow> int \<Rightarrow> u8) \<Rightarrow> int \<Rightarrow> int \<Rightarrow> u8" where
  "text_set row cols ch chars = (\<lambda>i k. if i = row \<and> cols k then ch else chars i k)"

definition text_goto :: "(int \<Rightarrow> int \<Rightarrow> u8) \<Rightarrow> int \<Rightarrow> int \<Rightarrow> textscreen" where
  "text_goto chars row col = (if col = 80 then text_newline (chars, row, col) else (chars, row, col))"

definition text_putc :: "int \<Rightarrow> textscreen \<Rightarrow> textscreen" where
  "text_putc ch = (\<lambda>(chars, row, col).
     if ch = 10 then text_newline (chars, row, col)
     else if ch = 13 then (chars, row, 0)
     else if ch = 8 then (if col > 0 then (text_set row (\<lambda>k. k = col - 1) 32 chars, row, col - 1) else (chars, row, col))
     else if ch = 9
     then (let stop = (col div 8 + 1) * 8
           in text_goto (text_set row (\<lambda>k. col \<le> k \<and> k < stop) 32 chars) row stop)
     else (let ch = (if 0x20 \<le> ch \<and> ch \<le> 0x7E then word_of_int ch else 63)
           in text_goto (text_set row (\<lambda>k. k = col) ch chars) row (col + 1)))"

definition represents :: "console \<Rightarrow> textscreen \<Rightarrow> bool" where
  "represents c = (\<lambda>(chars, row, col). cursor_row c = row \<and> cursor_col c = col \<and>
     (\<forall>i k. in_cell i k \<longrightarrow> console_chars c i k = chars i k))"

section \<open>Refinement\<close>

text \<open>The end of \<^verbatim>\<open>console_putc\<close>: wrap the column, then scroll.\<close>

definition settle :: "console \<Rightarrow> console" where
  "settle c =
     (let c = (if cursor_col c \<ge> CONSOLE_COLS
               then c\<lparr>cursor_col := 0, cursor_row := cursor_row c + 1\<rparr> else c)
      in if cursor_row c \<ge> CONSOLE_ROWS then scroll_up c else c)"

lemma console_putc_settle: "console_putc ch c = settle (putc_body ch c)"
  by (simp add: console_putc_def settle_def Let_def)

lemma settle_newline:
  assumes "fb_ready (screen c)" "shown c" "\<forall>i k. in_cell i k \<longrightarrow> console_chars c i k = chars i k"
    and "cursor_row c = row + 1" "cursor_col c = 0" "0 \<le> row" "row \<le> 24"
  shows "console_inv (settle c) \<and> represents (settle c) (text_newline (chars, row, col))"
proof (cases "row = 24")
  case True
  then have s: "settle c = scroll_up c" using assms by (simp add: settle_def)
  note S = scroll_up_spec[OF assms(1)]
  have "console_chars c (i + 1) k = chars (i + 1) k" if "in_cell i k" "i \<noteq> 24" for i k
    using assms(3) that by (simp add: in_cell_def)
  then show ?thesis
    using S assms True by (auto simp: s console_inv_def cursor_ok_def in_cell_def represents_def text_newline_def)
next
  case False
  then have s: "settle c = c" using assms by (simp add: settle_def Let_def)
  show ?thesis using assms False
    by (simp add: s console_inv_def cursor_ok_def in_cell_def represents_def text_newline_def)
qed

lemma settle_goto:
  assumes "fb_ready (screen c)" "shown c" "\<forall>i k. in_cell i k \<longrightarrow> console_chars c i k = chars i k"
    and "cursor_row c = row" "cursor_col c = col" "0 \<le> row" "row \<le> 24" "0 \<le> col" "col \<le> 80"
  shows "console_inv (settle c) \<and> represents (settle c) (text_goto chars row col)"
proof (cases "col = 80")
  case True
  let ?c = "c\<lparr>cursor_col := 0, cursor_row := cursor_row c + 1\<rparr>"
  have "settle c = settle ?c" using assms True by (simp add: settle_def Let_def)
  then show ?thesis
    using settle_newline[of ?c chars row col] assms True by (simp add: text_goto_def shown_def)
next
  case False
  then have s: "settle c = c" using assms by (simp add: settle_def Let_def)
  show ?thesis using assms False
    by (simp add: s console_inv_def cursor_ok_def in_cell_def represents_def text_goto_def)
qed

lemma next_tab: "((col :: int) + 8) AND NOT 7 = (col div 8 + 1) * 8"
proof -
  have "(col + 8) AND NOT (mask 3) = push_bit 3 (drop_bit 3 (col + 8))"
    by (rule bit_eqI) (auto simp: bit_and_iff bit_not_iff bit_mask_iff bit_push_bit_iff bit_drop_bit_eq)
  also have "\<dots> = (col div 8 + 1) * 8"
    using div_add_self2[of 8 col] by (simp add: push_bit_eq_mult drop_bit_eq_div)
  finally show ?thesis by (simp add: mask_numeral)
qed

text \<open>A cleared console on a 640 by 480 screen of 32 bits per pixel.\<close>

definition sample_console :: console where
  "sample_console = console_clear \<lparr>cursor_row = 7, cursor_col = 3, console_chars = (\<lambda>_ _. 65),
     screen = \<lparr>fb_addr = 0xE0000000, fb_w = 640, fb_h = 480, fb_depth = 32, vram = (\<lambda>_. 0)\<rparr>\<rparr>"

lemma console_clear_inv:
  assumes "fb_ready (screen c)"
  shows "console_inv (console_clear c) \<and> represents (console_clear c) (\<lambda>_ _. 32, 0, 0)"
  using console_clear_spec[OF assms] by (simp add: console_inv_def cursor_ok_def in_cell_def represents_def)

lemma sample_console_facts: "console_inv sample_console" "represents sample_console (\<lambda>_ _. 32, 0, 0)"
  using console_clear_inv[of "\<lparr>cursor_row = 7, cursor_col = 3, console_chars = (\<lambda>_ _. 65),
     screen = \<lparr>fb_addr = 0xE0000000, fb_w = 640, fb_h = 480, fb_depth = 32, vram = (\<lambda>_. 0)\<rparr>\<rparr>"]
  by (simp_all add: sample_console_def fb_ready_def)

lemma console_putc_step:
  assumes "console_inv c" "represents c t"
  shows "console_inv (console_putc ch c) \<and> represents (console_putc ch c) (text_putc ch t)"
proof -
  obtain chars row col where t: "t = (chars, row, col)" by (cases t)
  have c: "fb_ready (screen c)" "shown c" "\<forall>i k. in_cell i k \<longrightarrow> console_chars c i k = chars i k"
      "cursor_row c = row" "cursor_col c = col" "0 \<le> row" "row \<le> 24" "0 \<le> col" "col < 80"
    using assms by (auto simp: t represents_def console_inv_def cursor_ok_def in_cell_def)
  consider "ch = 10" | "ch = 13" | "ch = 8" | "ch = 9" | "ch \<noteq> 10 \<and> ch \<noteq> 13 \<and> ch \<noteq> 8 \<and> ch \<noteq> 9" by blast
  then show ?thesis
  proof cases
    case 1
    then show ?thesis using settle_newline[of "c\<lparr>cursor_col := 0, cursor_row := row + 1\<rparr>" chars row col] c
      by (simp add: console_putc_settle putc_body_def t text_putc_def shown_def)
  next
    case 2
    then show ?thesis using settle_goto[of "c\<lparr>cursor_col := 0\<rparr>" chars row 0] c
      by (simp add: console_putc_settle putc_body_def t text_putc_def text_goto_def)
  next
    case 3
    show ?thesis
    proof (cases "col > 0")
      case True
      let ?c = "show_char 32 (c\<lparr>cursor_col := col - 1\<rparr>)"
      have c': "fb_ready (screen (c\<lparr>cursor_col := col - 1\<rparr>))" "shown (c\<lparr>cursor_col := col - 1\<rparr>)"
        using c by simp_all
      show ?thesis
        using settle_goto[of ?c "text_set row (\<lambda>k. k = col - 1) 32 chars" row "col - 1"] c 3 True
          show_char_spec[OF c', of 32]
        by (simp add: console_putc_settle putc_body_def t text_putc_def text_goto_def text_set_def)
    next
      case False
      then show ?thesis using settle_goto[of c chars row col] c 3
        by (simp add: console_putc_settle putc_body_def t text_putc_def text_goto_def)
    qed
  next
    case 4
    define stop where "stop = (col div 8 + 1) * 8"
    have st: "col \<le> stop" "stop \<le> 80" "(col + 8) AND NOT 7 = stop" using c(8,9) next_tab[of col]
      by (auto simp: stop_def)
    have b: "putc_body ch c = tab_loop stop c" using 4 c(5) st(3) by (simp add: putc_body_def)
    have T: "fb_ready (screen (tab_loop stop c)) \<and> shown (tab_loop stop c) \<and>
        (cursor_row (tab_loop stop c), cursor_col (tab_loop stop c)) = (if stop = 80 then (row + 1, 0) else (row, stop)) \<and>
        (\<forall>i k. in_cell i k \<longrightarrow> console_chars (tab_loop stop c) i k =
           text_set row (\<lambda>k. col \<le> k \<and> k < stop) 32 chars i k)"
      using tab_loop_spec[of c stop] c st by (auto simp: text_set_def)
    have t': "text_putc ch t = text_goto (text_set row (\<lambda>k. col \<le> k \<and> k < stop) 32 chars) row stop"
      using 4 by (simp add: t text_putc_def stop_def Let_def)
    show ?thesis
    proof (cases "stop = 80")
      case True
      then show ?thesis
        using settle_newline[of "tab_loop stop c" "text_set row (\<lambda>k. col \<le> k \<and> k < stop) 32 chars" row stop] T c
        by (simp add: console_putc_settle b t' text_goto_def)
    next
      case False
      then show ?thesis
        using settle_goto[of "tab_loop stop c" "text_set row (\<lambda>k. col \<le> k \<and> k < stop) 32 chars" row stop] T c st
        by (simp add: console_putc_settle b t')
    qed
  next
    case 5
    define b where "b = (if 0x20 \<le> ch \<and> ch \<le> 0x7E then word_of_int ch else 63 :: u8)"
    let ?c = "show_char b c" and ?chars = "text_set row (\<lambda>k. k = col) b chars"
    have body: "putc_body ch c = ?c\<lparr>cursor_col := cursor_col ?c + 1\<rparr>"
      using 5 by (auto simp: putc_body_def b_def Let_def)
    have t': "text_putc ch t = text_goto ?chars row (col + 1)"
      using 5 by (simp add: t text_putc_def b_def)
    show ?thesis
      using settle_goto[of "?c\<lparr>cursor_col := cursor_col ?c + 1\<rparr>" ?chars row "col + 1"] c
        show_char_spec[OF c(1,2), of b]
      by (simp add: console_putc_settle body t' text_set_def)
  qed
qed

text \<open>
  C25 (refinement).  \<^verbatim>\<open>console_putc\<close> implements the abstract terminal on every character: the
  cursor and the 25 by 80 characters change as \<open>text_putc\<close> says (newline, carriage return,
  backspace, tab, printable characters, wrapping and scrolling included), the cursor stays on
  the screen, and every pixel of the text area shows the glyph of the character stored there.
\<close>

theorem console_putc_refines:
  assumes "console_inv c" "represents c t"
  shows "console_inv (console_putc ch c) \<and> represents (console_putc ch c) (text_putc ch t)"
  by (rule console_putc_step[OF assms])

theorem console_putc_refines_witness:
  "represents (console_putc 10 (console_putc 65 sample_console))
     (\<lambda>i k. if i = 0 \<and> k = 0 then 65 else 32, 1, 0)"
proof -
  note A = console_putc_step [OF sample_console_facts, of 65]
  from console_putc_refines [OF A[THEN conjunct1] A[THEN conjunct2], of 10]
  show ?thesis by (simp add: text_putc_def text_goto_def text_newline_def text_set_def)
qed

lemma console_write_fold:
  assumes "console_inv c" "represents c t"
  shows "console_inv (fold console_putc chs c) \<and> represents (fold console_putc chs c) (fold text_putc chs t)"
  using assms
proof (induction chs arbitrary: c t)
  case (Cons ch chs)
  from console_putc_step[OF Cons.prems] Cons.IH[of "console_putc ch c" "text_putc ch t"] show ?case by simp
qed simp

text \<open>
  \<^verbatim>\<open>console_write\<close> rejects a null buffer and a negative count with -1 and no
  effect; otherwise it returns the count and the terminal has received exactly the bytes of
  the buffer, as unsigned characters, in order.
\<close>

lemma console_write_spec:
  assumes "console_inv c" "represents c t" "console_write buf count c = (res, c')"
  shows "if buf = None \<or> count < 0 then res = -1 \<and> c' = c
    else res = count \<and> console_inv c' \<and>
      represents c' (fold text_putc (map uint (get_list (the buf) 0 (nat count))) t)"
proof (cases "buf = None \<or> count < 0")
  case False
  then obtain b where b: "buf = Some b" "0 \<le> count" by auto
  have idx: "map (\<lambda>i. uint (b (nat i))) [0..count - 1] = map uint (get_list b 0 (nat count))"
    by (rule nth_equalityI) (use b(2) in \<open>auto simp: nth_upto nat_add_distrib\<close>)
  have "c' = fold console_putc (map (\<lambda>i. uint (b (nat i))) [0..count - 1]) c" "res = count"
    using assms(3) b by (auto simp: console_write_def fold_map comp_def)
  then show ?thesis
    using console_write_fold[OF assms(1,2)] False b unfolding idx by simp
qed (use assms in \<open>auto simp: console_write_def split: option.splits\<close>)

end
