(* ===== verification/Task.thy ===== *)
theory Task
  imports Fifo Address_Space
begin

text \<open>
  The data of the scheduler: tasks, file descriptor tables, pipes, and the record \<open>kernel\<close>
  of all scheduler globals, which extends the machine of \<open>Paging\<close>.  Pointers to tasks and
  pipes are indices into the arrays \<^verbatim>\<open>tasks\<close> and \<^verbatim>\<open>pipes\<close>; a pointer to a \<^verbatim>\<open>vfs_node\<close> is a
  natural number the file system theories interpret.  The operations here are the ones that
  touch one task or one pipe (\<^verbatim>\<open>kernel/sched.c\<close>, \<^verbatim>\<open>kernel/sched.h\<close>).
\<close>

section \<open>Records\<close>

abbreviation MAX_TASKS :: nat where "MAX_TASKS \<equiv> 16"
abbreviation MAX_PIPES :: nat where "MAX_PIPES \<equiv> 16"
abbreviation MAX_FDS :: nat where "MAX_FDS \<equiv> 64"
abbreviation PIPE_BUF_SIZE :: nat where "PIPE_BUF_SIZE \<equiv> 512"
abbreviation VFS_MAX_PATH :: nat where "VFS_MAX_PATH \<equiv> 256"
abbreviation KSTACK_SIZE :: u64 where "KSTACK_SIZE \<equiv> 0x4000"
abbreviation KSTACK_PAGES :: nat where "KSTACK_PAGES \<equiv> 4"
abbreviation USTACK_PAGES :: nat where "USTACK_PAGES \<equiv> 4"

datatype task_state = Unused | Runnable | Zombie | Waiting
datatype fd_kind = FD_UNUSED | FD_FILE | FD_DIR | FD_CONSOLE | FD_PIPE

type_synonym node_ref = nat

record pipe =
  p_buffer :: bytes
  read_pos :: nat
  write_pos :: nat
  p_count :: nat
  read_open :: bool
  write_open :: bool

record fd_entry =
  fd_type :: fd_kind
  fd_node :: "node_ref option"
  fd_offset :: u32
  fd_flags :: c_int
  fd_pipe :: "nat option"

record task =
  task_id :: u64
  task_cr3 :: u64
  task_rsp :: u64
  kernel_stack_base :: u64
  kernel_stack_top :: u64
  user_stack_top :: u64
  task_entry :: u64
  is_user :: bool
  is_idle :: bool
  task_state :: task_state
  task_next :: "nat option"
  parent_id :: c_int
  exit_code :: c_int
  waiting_for :: c_int
  task_pgid :: c_int
  fd_table :: "nat \<Rightarrow> fd_entry"
  task_cwd :: bytes
  pending_signals :: u64
  blocked_signals :: u64
  signal_handlers :: "nat \<Rightarrow> u64"

text \<open>The registers \<^verbatim>\<open>syscall_entry.asm\<close> saves for \<^verbatim>\<open>fork\<close>.\<close>

record user_context =
  ctx_rsp :: u64
  ctx_rip :: u64
  ctx_rflags :: u64
  ctx_rbx :: u64
  ctx_rbp :: u64
  ctx_r12 :: u64
  ctx_r13 :: u64
  ctx_r14 :: u64
  ctx_r15 :: u64

record kernel = machine +
  tasks :: "nat \<Rightarrow> task"
  runq :: "nat option"
  current :: "nat option"
  pipes :: "nat \<Rightarrow> pipe"
  next_task_id :: u64
  sched_ready :: bool
  sched_running :: bool
  kstacks :: "nat \<Rightarrow> u64"
  current_kernel_rsp :: u64
  tss_rsp0 :: u64
  user_ctx :: user_context

definition upd_task :: "nat \<Rightarrow> (task \<Rightarrow> task) \<Rightarrow> 'a kernel_scheme \<Rightarrow> 'a kernel_scheme" where
  "upd_task i f k = k\<lparr>tasks := (tasks k)(i := f (tasks k i))\<rparr>"

section \<open>File descriptors\<close>

definition fd_unused :: fd_entry where
  "fd_unused = \<lparr>fd_type = FD_UNUSED, fd_node = None, fd_offset = 0, fd_flags = 0, fd_pipe = None\<rparr>"

definition task_fd_init :: "task \<Rightarrow> task" where
  "task_fd_init t =
     t\<lparr>fd_table := fold (\<lambda>i tb. tb(i := (tb i)\<lparr>fd_type := FD_CONSOLE\<rparr>)) [0, 1, 2]
                     (fold (\<lambda>i tb. tb(i := fd_unused)) [0..<MAX_FDS] (fd_table t)),
       task_cwd := put_list (task_cwd t) 0 [47, 0]\<rparr>"

definition task_fd_alloc :: "task \<Rightarrow> int" where
  "task_fd_alloc t =
     (case List.find (\<lambda>i. fd_type (fd_table t i) = FD_UNUSED) [3..<MAX_FDS] of
        Some i \<Rightarrow> int i | None \<Rightarrow> -1)"

definition task_fd_free :: "int \<Rightarrow> task \<Rightarrow> task" where
  "task_fd_free fd t =
     (if fd \<ge> 3 \<and> fd < int MAX_FDS then t\<lparr>fd_table := (fd_table t)(nat fd := fd_unused)\<rparr> else t)"

definition task_fd_get :: "int \<Rightarrow> task \<Rightarrow> nat option" where
  "task_fd_get fd t =
     (if fd < 0 \<or> fd \<ge> int MAX_FDS then None
      else if fd_type (fd_table t (nat fd)) = FD_UNUSED then None
      else Some (nat fd))"

section \<open>Pipes\<close>

definition pipe_alloc :: "'a kernel_scheme \<Rightarrow> nat option \<times> 'a kernel_scheme" where
  "pipe_alloc k =
     (case List.find (\<lambda>i. \<not> read_open (pipes k i) \<and> \<not> write_open (pipes k i)) [0..<MAX_PIPES] of
        None \<Rightarrow> (None, k)
      | Some i \<Rightarrow> (Some i, k\<lparr>pipes := (pipes k)(i := (pipes k i)\<lparr>read_pos := 0, write_pos := 0, p_count := 0,
          read_open := True, write_open := True\<rparr>)\<rparr>))"

text \<open>One turn of the loops of \<^verbatim>\<open>SYS_READ\<close> and \<^verbatim>\<open>SYS_WRITE\<close> on a pipe.\<close>

definition pipe_put :: "u8 \<Rightarrow> pipe \<Rightarrow> pipe" where
  "pipe_put b p =
     (if p_count p < PIPE_BUF_SIZE
      then p\<lparr>p_buffer := (p_buffer p)(write_pos p := b), write_pos := (write_pos p + 1) mod PIPE_BUF_SIZE,
             p_count := p_count p + 1\<rparr>
      else p)"

definition pipe_get :: "pipe \<Rightarrow> u8 option \<times> pipe" where
  "pipe_get p =
     (if p_count p > 0
      then (Some (p_buffer p (read_pos p)),
            p\<lparr>read_pos := (read_pos p + 1) mod PIPE_BUF_SIZE, p_count := p_count p - 1\<rparr>)
      else (None, p))"

definition pipe_inv :: "pipe \<Rightarrow> bool" where
  "pipe_inv p \<longleftrightarrow> read_pos p < 512 \<and> p_count p \<le> 512 \<and> write_pos p = (read_pos p + p_count p) mod 512"

definition pipe_contents :: "pipe \<Rightarrow> u8 list" where
  "pipe_contents p = ring 512 (p_buffer p) (read_pos p) (p_count p)"

interpretation pipe: bounded_fifo pipe_put pipe_get pipe_contents 512 pipe_inv
proof unfold_locales
  fix p x assume inv: "pipe_inv p"
  show "pipe_inv (pipe_put x p) \<and> pipe_contents (pipe_put x p) =
      (if length (pipe_contents p) < 512 then pipe_contents p @ [x] else pipe_contents p)"
    using inv ring_put[of "p_count p" 512 "p_buffer p" "read_pos p" x]
    by (auto simp: pipe_inv_def pipe_put_def pipe_contents_def mod_simps)
next
  fix p assume inv: "pipe_inv p"
  show "pipe_contents p = [] \<Longrightarrow> pipe_get p = (None, p)"
    using length_ring[of 512 "p_buffer p" "read_pos p" "p_count p"] by (simp add: pipe_get_def pipe_contents_def)
  show "length (pipe_contents p) \<le> 512" using inv by (simp add: pipe_contents_def pipe_inv_def)
  fix x xs assume c: "pipe_contents p = x # xs"
  then obtain n where n: "p_count p = Suc n"
    using length_ring[of 512 "p_buffer p" "read_pos p" "p_count p"] by (cases "p_count p") (auto simp: pipe_contents_def)
  show "\<exists>p'. pipe_get p = (Some x, p') \<and> pipe_inv p' \<and> pipe_contents p' = xs"
    using c inv unfolding pipe_contents_def n ring_get
    by (auto simp: pipe_get_def pipe_inv_def n mod_simps)
qed

section \<open>Task slots\<close>

definition fresh_task :: "u64 \<Rightarrow> task \<Rightarrow> task" where
  "fresh_task tid t = task_fd_init
     (t\<lparr>task_state := Runnable, task_id := tid, task_next := None, task_cr3 := 0, task_rsp := 0,
        kernel_stack_base := 0, kernel_stack_top := 0, user_stack_top := 0, task_entry := 0,
        is_user := False, is_idle := False, parent_id := 0, exit_code := 0, waiting_for := -1,
        pending_signals := 0, blocked_signals := 0,
        signal_handlers := fold (\<lambda>j h. h(j := 0)) [0..<32] (signal_handlers t), task_pgid := 0\<rparr>)"

definition alloc_task :: "'a kernel_scheme \<Rightarrow> nat option \<times> 'a kernel_scheme" where
  "alloc_task k =
     (case List.find (\<lambda>i. task_state (tasks k i) = Unused) [0..<MAX_TASKS] of
        None \<Rightarrow> (None, k)
      | Some i \<Rightarrow> (Some i, (upd_task i (fresh_task (next_task_id k)) k)\<lparr>next_task_id := next_task_id k + 1\<rparr>))"

definition sched_init :: "'a kernel_scheme \<Rightarrow> 'a kernel_scheme" where
  "sched_init k =
     (fold (\<lambda>i k. (upd_task i (\<lambda>t. t\<lparr>task_state := Unused, task_next := None\<rparr>) k)
                     \<lparr>kstacks := (kstacks k)(i := 0)\<rparr>) [0..<MAX_TASKS] k)
       \<lparr>runq := None, current := None, next_task_id := 1, sched_running := False, sched_ready := True\<rparr>"

definition sched_current :: "'a kernel_scheme \<Rightarrow> nat option" where
  "sched_current k = current k"

definition sched_get_task :: "c_int \<Rightarrow> 'a kernel_scheme \<Rightarrow> nat option" where
  "sched_get_task pid k =
     List.find (\<lambda>i. task_state (tasks k i) \<noteq> Unused \<and> ucast (task_id (tasks k i)) = pid) [0..<MAX_TASKS]"

definition sched_start :: "'a kernel_scheme \<Rightarrow> 'a kernel_scheme" where
  "sched_start k = k\<lparr>sched_running := True\<rparr>"

section \<open>Operations on the machine\<close>

text \<open>
  The paging operations run on the kernel record as well and leave its own part, \<open>machine.more\<close>,
  alone.
\<close>

lemma put_entry_more [frame_simps]: "machine.more (put_entry t i e m) = machine.more m"
  by (simp add: put_entry_def)

lemma fold_more:
  "(\<And>x m. machine.more (f x m) = machine.more m) \<Longrightarrow> machine.more (fold f xs m) = machine.more m"
  by (induction xs arbitrary: m) auto

lemma fill_pt_more [frame_simps]: "machine.more (fill_pt t g m) = machine.more m"
  by (simp add: fill_pt_def fold_more put_entry_more)

lemma pm_update_more [frame_simps]: "machine.more (m\<lparr>pm := p\<rparr>) = machine.more m"
  by simp

lemma alloc_pt_page_more [frame_simps]: "machine.more (snd (alloc_pt_page m)) = machine.more m"
  by (simp add: alloc_pt_page_def zero_frame_def split: prod.splits)

lemma new_space_pts_more [frame_simps]: "machine.more (snd (new_space_pts ps pd m)) = machine.more m"
proof (induction ps arbitrary: m)
  case (Cons p ps)
  show ?case using alloc_pt_page_more[of m]
    by (cases "alloc_pt_page m") (simp add: Cons frame_simps)
qed simp

lemma new_user_space_more [frame_simps]: "machine.more (snd (paging_new_user_space m)) = machine.more m"
proof -
  obtain a m1 where 1: "alloc_pt_page m = (a, m1)" by (cases "alloc_pt_page m")
  obtain b m2 where 2: "alloc_pt_page m1 = (b, m2)" by (cases "alloc_pt_page m1")
  obtain c m3 where 3: "alloc_pt_page m2 = (c, m3)" by (cases "alloc_pt_page m2")
  have m: "machine.more m1 = machine.more m" "machine.more m2 = machine.more m1" "machine.more m3 = machine.more m2"
    using alloc_pt_page_more[of m] alloc_pt_page_more[of m1] alloc_pt_page_more[of m2] 1 2 3 by simp_all
  show ?thesis
    using new_space_pts_more[of "[0..<NUM_PT]" c "put_entry b 0 (c OR 7) (put_entry a 0 (b OR 7) m3)"] m
    by (auto simp: paging_new_user_space_def Let_def 1 2 3 put_entry_more split: prod.splits)
qed

lemma get_or_create_more [frame_simps]: "machine.more (snd (get_or_create h t i m)) = machine.more m"
  using alloc_pt_page_more[of m]
  by (auto simp: get_or_create_def put_entry_more split: prod.splits)

lemma map_leaf_more [frame_simps]: "machine.more (snd (map_leaf h r v e m)) = machine.more m"
proof -
  have g: "machine.more m' = machine.more m" if "get_or_create h t i m = (res, m')" for t i m res m'
    using get_or_create_more[of h t i m] that by simp
  show ?thesis
    by (auto simp: map_leaf_def put_entry_more dest!: g split: prod.splits option.splits)
qed

lemma map_user_page_more [frame_simps]: "machine.more (snd (paging_map_user_page r v p f m)) = machine.more m"
  by (simp add: paging_map_user_page_def map_leaf_more)

lemma map_kernel_page_more [frame_simps]: "machine.more (snd (paging_map_kernel_page r v p f m)) = machine.more m"
  by (simp add: paging_map_kernel_page_def map_leaf_more)

lemma for_each_more:
  assumes "\<And>x m. machine.more (snd (f x m)) = machine.more m"
  shows "machine.more (snd (for_each f xs m)) = machine.more m"
proof (induction xs arbitrary: m)
  case (Cons x xs)
  show ?case using Cons assms[of x m] by (cases "f x m") auto
qed simp

lemma clone_leaf_more: "machine.more (snd (clone_leaf d i j k pt l m)) = machine.more m"
proof -
  have mu: "machine.more m' = machine.more m" if "paging_map_user_page r v p f m = (res, m')"
    for r v p f and m m' :: "'a machine_scheme" and res
    using map_user_page_more[of r v p f m] that by simp
  show ?thesis
    by (auto simp: clone_leaf_def Let_def copy_frame_def dest!: mu split: prod.splits)
qed

lemma clone_more [frame_simps]: "machine.more (snd (paging_clone_user_pages d s m)) = machine.more m"
proof -
  have 1: "machine.more (snd (clone_pt d i j pd k m)) = machine.more m" for d i j pd k m
    by (simp add: clone_pt_def for_each_more[OF clone_leaf_more])
  have 2: "machine.more (snd (clone_pd d i pdpt j m)) = machine.more m" for d i pdpt j m
    by (simp add: clone_pd_def for_each_more[OF 1])
  have 3: "machine.more (snd (clone_pdpt d s i m)) = machine.more m" for d s i m
    by (simp add: clone_pdpt_def for_each_more[OF 2])
  show ?thesis using for_each_more[of "clone_pdpt d s" "[0..<PT_ENTRIES]" m, OF 3]
    by (cases "for_each (clone_pdpt d s) [0..<PT_ENTRIES] m") (simp add: paging_clone_user_pages_def)
qed

lemma free_space_more [frame_simps]: "machine.more (paging_free_user_space r m) = machine.more m"
proof -
  have 0: "machine.more (free_leaf pt l m) = machine.more m" for pt l m
    by (simp add: free_leaf_def free_frame_def put_entry_more Let_def)
  have 1: "machine.more (free_pt pd k m) = machine.more m" for pd k m
    by (simp add: free_pt_def free_frame_def fold_more[OF 0] Let_def)
  have 2: "machine.more (free_pd pdpt j m) = machine.more m" for pdpt j m
    by (simp add: free_pd_def free_frame_def fold_more[OF 1] Let_def)
  have 3: "machine.more (free_pdpt r i m) = machine.more m" for r i m
    by (simp add: free_pdpt_def free_frame_def fold_more[OF 2] Let_def)
  show ?thesis by (simp add: paging_free_user_space_def free_frame_def fold_more[OF 3])
qed

lemma mark_supervisor_more [frame_simps]: "machine.more (paging_mark_supervisor_region a n m) = machine.more m"
proof -
  have "machine.more (boot_pt_update f a m) = machine.more m" for f a and m :: "'a machine_scheme"
    by (simp add: boot_pt_update_def Let_def put_entry_more)
  note b = fold_more[OF this]
  show ?thesis by (simp add: paging_mark_supervisor_region_def boot_region_def b)
qed

text \<open>The scheduler's own state is a function of \<open>machine.more\<close>.\<close>

lemma kernel_part:
  fixes k k' :: "'a kernel_scheme"
  assumes "machine.more k' = machine.more k"
  shows "tasks k' = tasks k" "runq k' = runq k" "current k' = current k" "pipes k' = pipes k"
    "next_task_id k' = next_task_id k" "sched_ready k' = sched_ready k" "sched_running k' = sched_running k"
    "kstacks k' = kstacks k" "current_kernel_rsp k' = current_kernel_rsp k" "tss_rsp0 k' = tss_rsp0 k"
    "user_ctx k' = user_ctx k"
  using assms by (cases k; cases k'; simp)+

end
