(* ===== verification/Runq.thy ===== *)
theory Runq
  imports Task
begin

text \<open>
  The run queue of \<^verbatim>\<open>kernel/sched.c\<close>: a circular list linked through \<^verbatim>\<open>task.next\<close> with \<^verbatim>\<open>runq\<close> as
  its entry point.  \<open>ring_of k xs\<close> says that the queue is the list \<open>xs\<close> of distinct slots, the
  entry point first; \<open>enqueue\<close> and \<open>dequeue\<close> are an insertion and a removal in that list.
\<close>

section \<open>Operations\<close>

definition enqueue :: "nat \<Rightarrow> 'a kernel_scheme \<Rightarrow> 'a kernel_scheme" where
  "enqueue t k =
     (case runq k of
        None \<Rightarrow> (upd_task t (\<lambda>x. x\<lparr>task_next := Some t\<rparr>) k)\<lparr>runq := Some t\<rparr>
      | Some r \<Rightarrow>
          let k = upd_task t (\<lambda>x. x\<lparr>task_next := task_next (tasks k r)\<rparr>) k
          in upd_task r (\<lambda>x. x\<lparr>task_next := Some t\<rparr>) k)"

text \<open>The \<^verbatim>\<open>do ... while\<close> loop of \<^verbatim>\<open>dequeue\<close>; following a null link is undefined behaviour.\<close>

definition unlink_after :: "nat \<Rightarrow> nat \<Rightarrow> 'a kernel_scheme \<Rightarrow> 'a kernel_scheme" where
  "unlink_after t prev k =
     (let k = upd_task prev (\<lambda>x. x\<lparr>task_next := task_next (tasks k t)\<rparr>) k
      in if runq k = Some t then k\<lparr>runq := task_next (tasks k t)\<rparr> else k)"

partial_function (option) dequeue_loop ::
  "nat \<Rightarrow> nat \<Rightarrow> 'a kernel_scheme \<Rightarrow> 'a kernel_scheme outcome option" where
  "dequeue_loop t prev k =
     (if task_next (tasks k prev) = Some t then Some (Done (unlink_after t prev k))
      else (case task_next (tasks k prev) of
              None \<Rightarrow> Some Undef
            | Some prev' \<Rightarrow> if Some prev' = runq k then Some (Done k) else dequeue_loop t prev' k))"

definition dequeue :: "nat \<Rightarrow> 'a kernel_scheme \<Rightarrow> 'a kernel_scheme outcome option" where
  "dequeue t k =
     (case runq k of
        None \<Rightarrow> Some (Done k)
      | Some r \<Rightarrow>
          if r = t \<and> task_next (tasks k t) = Some t then Some (Done (k\<lparr>runq := None\<rparr>))
          else dequeue_loop t r k)"

section \<open>Linked paths\<close>

fun links :: "(nat \<Rightarrow> nat option) \<Rightarrow> nat list \<Rightarrow> nat \<Rightarrow> bool" where
  "links nx [] e = True"
| "links nx [x] e = (nx x = Some e)"
| "links nx (x # y # ys) e = (nx x = Some y \<and> links nx (y # ys) e)"

lemma links_Cons: "links nx (x # xs) e \<longleftrightarrow> nx x = Some (hd (xs @ [e])) \<and> links nx xs e"
  by (cases xs) auto

lemma links_append: "links nx (xs @ ys) e \<longleftrightarrow> links nx xs (hd (ys @ [e])) \<and> links nx ys e"
proof (induction xs)
  case (Cons x xs)
  then show ?case by (cases xs) (auto simp: links_Cons)
qed simp

lemma links_cong: "(\<And>x. x \<in> set xs \<Longrightarrow> nx x = nx' x) \<Longrightarrow> links nx xs e = links nx' xs e"
  by (induction nx xs e rule: links.induct) auto

definition next_of :: "'a kernel_scheme \<Rightarrow> nat \<Rightarrow> nat option" where
  "next_of k i = task_next (tasks k i)"

definition ring_of :: "'a kernel_scheme \<Rightarrow> nat list \<Rightarrow> bool" where
  "ring_of k xs \<longleftrightarrow> distinct xs \<and> set xs \<subseteq> {..<MAX_TASKS} \<and>
     runq k = (if xs = [] then None else Some (hd xs)) \<and> (xs \<noteq> [] \<longrightarrow> links (next_of k) xs (hd xs))"

lemma upd_task_simps [simp]:
  "tasks (upd_task i f k) j = (if j = i then f (tasks k i) else tasks k j)"
  "runq (upd_task i f k) = runq k" "current (upd_task i f k) = current k" "pipes (upd_task i f k) = pipes k"
  "next_task_id (upd_task i f k) = next_task_id k" "sched_running (upd_task i f k) = sched_running k"
  "sched_ready (upd_task i f k) = sched_ready k" "kstacks (upd_task i f k) = kstacks k"
  "pm (upd_task i f k) = pm k" "frames (upd_task i f k) = frames k" "kernel_pml4 (upd_task i f k) = kernel_pml4 k"
  "cr3 (upd_task i f k) = cr3 k" "syms (upd_task i f k) = syms k"
  by (simp_all add: upd_task_def)

lemma next_of_upd_task: "(\<And>t. task_next (f t) = task_next t) \<Longrightarrow> next_of (upd_task i f k) = next_of k"
  by (auto simp: next_of_def fun_eq_iff)

lemma ring_of_cong:
  "runq k = runq k' \<Longrightarrow> next_of k = next_of k' \<Longrightarrow> ring_of k xs = ring_of k' xs"
  by (simp add: ring_of_def)

section \<open>Insertion\<close>

definition insert_second :: "'b \<Rightarrow> 'b list \<Rightarrow> 'b list" where
  "insert_second x xs = (case xs of [] \<Rightarrow> [x] | y # ys \<Rightarrow> y # x # ys)"

lemma set_insert_second [simp]: "set (insert_second x xs) = insert x (set xs)"
  by (auto simp: insert_second_def split: list.splits)

lemma enqueue_next:
  "next_of (enqueue t k) = (case runq k of None \<Rightarrow> (next_of k)(t := Some t)
     | Some r \<Rightarrow> (next_of k)(t := next_of k r, r := Some t))"
  by (auto simp: enqueue_def next_of_def fun_eq_iff Let_def split: option.splits)

lemma enqueue_runq: "runq (enqueue t k) = (case runq k of None \<Rightarrow> Some t | Some r \<Rightarrow> Some r)"
  by (auto simp: enqueue_def Let_def split: option.splits)

lemma enqueue_ring:
  assumes "ring_of k xs" "t \<notin> set xs" "t < 16"
  shows "ring_of (enqueue t k) (insert_second t xs)"
proof (cases xs)
  case Nil
  with assms show ?thesis
    by (simp add: ring_of_def enqueue_next enqueue_runq insert_second_def)
next
  case (Cons r ys)
  have l: "links (next_of k) (r # ys) r" "runq k = Some r" "r \<noteq> t" "distinct (r # ys)" "t \<notin> set ys"
    using assms by (auto simp: ring_of_def Cons)
  have "links (next_of (enqueue t k)) ys r"
    using l by (subst links_cong[where nx' = "next_of k"]) (auto simp: enqueue_next links_Cons)
  then have "links (next_of (enqueue t k)) (r # t # ys) r"
    using l by (auto simp: links_Cons enqueue_next)
  then show ?thesis using assms l by (auto simp: ring_of_def enqueue_runq insert_second_def Cons)
qed

section \<open>Removal\<close>

lemma dequeue_loop_found:
  "links (next_of k) (p # ps) t \<Longrightarrow> t \<notin> set ps \<Longrightarrow> (\<forall>q\<in>set ps. runq k \<noteq> Some q) \<Longrightarrow>
     dequeue_loop t p k = Some (Done (unlink_after t (last (p # ps)) k))"
proof (induction ps arbitrary: p)
  case Nil
  then show ?case by (subst dequeue_loop.simps) (simp add: next_of_def)
next
  case (Cons q ps)
  then have "task_next (tasks k p) = Some q" "q \<noteq> t" "Some q \<noteq> runq k"
    by (auto simp: next_of_def)
  then show ?case using Cons.IH[of q] Cons.prems by (subst dequeue_loop.simps) simp
qed

lemma dequeue_loop_absent:
  "links (next_of k) (p # ps) r \<Longrightarrow> runq k = Some r \<Longrightarrow> t \<notin> set ps \<Longrightarrow> t \<noteq> r \<Longrightarrow> r \<notin> set ps \<Longrightarrow>
     dequeue_loop t p k = Some (Done k)"
proof (induction ps arbitrary: p)
  case Nil
  then show ?case by (subst dequeue_loop.simps) (simp add: next_of_def)
next
  case (Cons q ps)
  then have "task_next (tasks k p) = Some q" "q \<noteq> t" "Some q \<noteq> runq k"
    by (auto simp: next_of_def)
  then show ?case using Cons.IH[of q] Cons.prems by (subst dequeue_loop.simps) simp
qed

text \<open>What \<open>dequeue\<close> leaves alone: it only changes links and the entry point.\<close>

definition same_but_links :: "'a kernel_scheme \<Rightarrow> 'a kernel_scheme \<Rightarrow> bool" where
  "same_but_links k k' \<longleftrightarrow> (\<exists>nx r. k' = k\<lparr>tasks := (\<lambda>i. (tasks k i)\<lparr>task_next := nx i\<rparr>), runq := r\<rparr>)"

lemma same_but_links_refl: "same_but_links k k"
  unfolding same_but_links_def
  by (rule exI[of _ "\<lambda>i. task_next (tasks k i)"], rule exI[of _ "runq k"]) simp

lemma same_but_linksD:
  assumes "same_but_links k k'"
  shows "task_state (tasks k' i) = task_state (tasks k i)" "task_id (tasks k' i) = task_id (tasks k i)"
    "current k' = current k" "next_task_id k' = next_task_id k" "kstacks k' = kstacks k"
    "task_cr3 (tasks k' i) = task_cr3 (tasks k i)" "exit_code (tasks k' i) = exit_code (tasks k i)"
    "waiting_for (tasks k' i) = waiting_for (tasks k i)" "is_idle (tasks k' i) = is_idle (tasks k i)"
    "pm k' = pm k" "frames k' = frames k" "kernel_pml4 k' = kernel_pml4 k" "task_pgid (tasks k' i) = task_pgid (tasks k i)"
    "pending_signals (tasks k' i) = pending_signals (tasks k i)" "pipes k' = pipes k"
    "sched_running k' = sched_running k" "sched_ready k' = sched_ready k"
  using assms by (auto simp: same_but_links_def)

lemma unlink_after_same: "same_but_links k (unlink_after t p k)"
  unfolding same_but_links_def
  by (rule exI[of _ "\<lambda>i. if i = p then task_next (tasks k t) else task_next (tasks k i)"],
      rule exI[of _ "runq (unlink_after t p k)"])
     (auto simp: unlink_after_def upd_task_def Let_def fun_eq_iff)

lemma unlink_after_next:
  "next_of (unlink_after t p k) = (next_of k)(p := next_of k t)"
  "runq (unlink_after t p k) = (if runq k = Some t then next_of k t else runq k)"
  by (auto simp: unlink_after_def next_of_def Let_def fun_eq_iff)

lemma dequeue_ring:
  assumes ring: "ring_of k xs"
  shows "\<exists>k'. dequeue t k = Some (Done k') \<and> ring_of k' (remove1 t xs) \<and> same_but_links k k'"
proof (cases xs)
  case Nil
  with ring show ?thesis by (simp add: dequeue_def ring_of_def same_but_links_refl)
next
  case (Cons r ys)
  then have r: "runq k = Some r" "links (next_of k) (r # ys) r" "distinct (r # ys)" "set xs \<subseteq> {..<16}"
    using ring by (auto simp: ring_of_def)
  show ?thesis
  proof (cases "t = r")
    case True
    show ?thesis
    proof (cases ys)
      case Nil
      then have "dequeue t k = Some (Done (k\<lparr>runq := None\<rparr>))"
        using r True by (simp add: dequeue_def next_of_def)
      moreover have "same_but_links k (k\<lparr>runq := None\<rparr>)"
        unfolding same_but_links_def
        by (rule exI[of _ "\<lambda>i. task_next (tasks k i)"], rule exI[of _ None]) simp
      ultimately show ?thesis using True Cons Nil by (simp add: ring_of_def)
    next
      case ys: (Cons y zs)
      let ?k = "unlink_after t (last ys) k"
      have nx: "next_of k r = Some y" using r(2) ys by simp
      have "dequeue t k = dequeue_loop t r k" using r nx ys True by (auto simp: dequeue_def next_of_def)
      also have "\<dots> = Some (Done (unlink_after t (last (r # ys)) k))"
        by (rule dequeue_loop_found) (use r True in auto)
      also have "\<dots> = Some (Done ?k)" using ys by simp
      finally have d: "dequeue t k = Some (Done ?k)" .
      obtain us l where us: "ys = us @ [l]" using ys by (metis rev_exhaust list.distinct(1))
      have "links (next_of k) us l" using r(2) us by (auto simp: links_Cons links_append)
      moreover have "l \<notin> set us" using r(3) us by simp
      ultimately have "links (next_of ?k) us l"
        by (subst links_cong[where nx' = "next_of k"]) (auto simp: unlink_after_next us)
      then have "links (next_of ?k) ys y"
        using nx True by (simp add: us links_append unlink_after_next)
      then have "ring_of ?k ys" using r nx ys True Cons by (auto simp: ring_of_def unlink_after_next)
      then show ?thesis using d unlink_after_same[of k t "last ys"] True Cons by simp
    qed
  next
    case False
    then have dl: "dequeue t k = dequeue_loop t r k" using r by (simp add: dequeue_def)
    show ?thesis
    proof (cases "t \<in> set ys")
      case False
      then have "dequeue t k = Some (Done k)"
        using dequeue_loop_absent[of k r ys r t] r dl \<open>t \<noteq> r\<close> by simp
      then show ?thesis using ring False \<open>t \<noteq> r\<close> Cons by (simp add: remove1_idem same_but_links_refl)
    next
      case True
      then obtain as bs where ab: "ys = as @ t # bs" "t \<notin> set as" using split_list_first by metis
      let ?p = "last (r # as)" and ?k = "unlink_after t (last (r # as)) k"
      have l: "links (next_of k) (r # as) t" "next_of k t = Some (hd (bs @ [r]))" "links (next_of k) bs r"
        using r(2) ab links_append[of "next_of k" "r # as" "t # bs" r] by (simp_all add: links_Cons)
      have d: "dequeue t k = Some (Done ?k)"
        unfolding dl by (rule dequeue_loop_found[OF l(1)]) (use r ab in auto)
      obtain us where us: "r # as = us @ [?p]" by (metis append_butlast_last_id list.distinct(1))
      have dist: "?p \<notin> set us" "?p \<notin> set bs" "?p \<noteq> t"
      proof -
        have "distinct ((us @ [?p]) @ t # bs)" using r(3) ab us by (metis append_Cons append_assoc)
        then show "?p \<notin> set us" "?p \<notin> set bs" "?p \<noteq> t" by auto
      qed
      have "links (next_of k) us ?p" using l(1) us links_append[of "next_of k" us "[?p]" t] by (metis hd_append2 hd_Cons_tl list.sel(1) list.distinct(1) append_Cons append_Nil)
      then have "links (next_of ?k) us ?p"
        using dist by (subst links_cong[where nx' = "next_of k"]) (auto simp: unlink_after_next)
      moreover have "links (next_of ?k) bs r"
        using l(3) dist by (subst links_cong[where nx' = "next_of k"]) (auto simp: unlink_after_next)
      ultimately have "links (next_of ?k) ((us @ [?p]) @ bs) r"
        using l(2) by (simp add: links_append links_Cons unlink_after_next)
      then have "links (next_of ?k) (r # as @ bs) r" using us by (metis append_Cons)
      then have "ring_of ?k (r # as @ bs)"
        using r ab \<open>t \<noteq> r\<close> Cons by (auto simp: ring_of_def unlink_after_next)
      then show ?thesis using d unlink_after_same[of k t ?p] ab \<open>t \<noteq> r\<close> Cons by (auto simp: remove1_append)
    qed
  qed
qed

end
