(* ===== verification/Sched.thy ===== *)
theory Sched
  imports Runq
begin

text \<open>
  The scheduler proper (\<^verbatim>\<open>kernel/sched.c\<close>): kernel stacks, signals, the timer tick, exit and
  wait, fork.  Code that halts the CPU until an interrupt is split at that point: \<open>sched_exit\<close>
  is the state in which the task stays, \<open>sched_waitpid\<close> answers \<open>Blocked\<close> with the slot it waits
  for and \<open>waitpid_resume\<close> is the code after the wait.
\<close>

section \<open>Kernel stacks\<close>

text \<open>The loop over the remaining pages; \<open>False\<close> when one cannot be allocated.\<close>

fun alloc_rest :: "nat \<Rightarrow> 'a machine_scheme \<Rightarrow> bool \<times> 'a machine_scheme" where
  "alloc_rest 0 m = (True, m)"
| "alloc_rest (Suc n) m =
     (case pmm_alloc_page (pm m) of (page, p) \<Rightarrow>
        if page = 0 then (False, m\<lparr>pm := p\<rparr>) else alloc_rest n (m\<lparr>pm := p\<rparr>))"

definition alloc_stack :: "nat \<Rightarrow> 'a machine_scheme \<Rightarrow> u64 \<times> 'a machine_scheme" where
  "alloc_stack num_pages m =
     (case pmm_alloc_page (pm m) of (base, p) \<Rightarrow>
        if base = 0 then (0, m\<lparr>pm := p\<rparr>)
        else (case alloc_rest (num_pages - 1) (m\<lparr>pm := p\<rparr>) of
                (ok, m) \<Rightarrow> (if ok then base else 0, m)))"

definition free_stack :: "u64 \<Rightarrow> nat \<Rightarrow> 'a machine_scheme \<Rightarrow> 'a machine_scheme" where
  "free_stack base num_pages m =
     (if base = 0 then m
      else fold (\<lambda>i m. m\<lparr>pm := pmm_free_page (base + of_nat i * 4096) (pm m)\<rparr>) [0..<num_pages] m)"

section \<open>Signals\<close>

abbreviation SIGTERM :: nat where "SIGTERM \<equiv> 15"
abbreviation SIGINT_NO :: nat where "SIGINT_NO \<equiv> 2"

text \<open>Waking a task that waits for \<open>pid\<close>.\<close>

definition wake_task :: "c_int \<Rightarrow> nat \<Rightarrow> 'a kernel_scheme \<Rightarrow> 'a kernel_scheme" where
  "wake_task pid i k =
     (if task_state (tasks k i) = Waiting \<and> waiting_for (tasks k i) = pid
      then upd_task i (\<lambda>t. t\<lparr>task_state := Runnable, waiting_for := -1\<rparr>) k else k)"

definition sched_wake_waiters :: "c_int \<Rightarrow> 'a kernel_scheme \<Rightarrow> 'a kernel_scheme" where
  "sched_wake_waiters pid k = fold (wake_task pid) [0..<MAX_TASKS] k"

fun deliver_loop :: "nat list \<Rightarrow> nat \<Rightarrow> 'a kernel_scheme \<Rightarrow> 'a kernel_scheme" where
  "deliver_loop [] t k = k"
| "deliver_loop (sig # sigs) t k =
     (if pending_signals (tasks k t) AND push_bit sig 1 = 0 then deliver_loop sigs t k
      else let k = upd_task t (\<lambda>x. x\<lparr>pending_signals := pending_signals x AND NOT (push_bit sig 1)\<rparr>) k
      in if blocked_signals (tasks k t) AND push_bit sig 1 \<noteq> 0 then deliver_loop sigs t k
      else if sig = SIGTERM \<or> sig = SIGINT_NO
      then fold (wake_task (ucast (task_id (tasks k t)))) [0..<16]
             (upd_task t (\<lambda>x. x\<lparr>task_state := Zombie, exit_code := -1\<rparr>) k)
      else k)"

definition sched_deliver_signals :: "nat option \<Rightarrow> 'a kernel_scheme \<Rightarrow> 'a kernel_scheme" where
  "sched_deliver_signals t k =
     (case t of None \<Rightarrow> k
      | Some t \<Rightarrow> if pending_signals (tasks k t) = 0 then k else deliver_loop [1..<32] t k)"

definition sched_signal_pgid :: "c_int \<Rightarrow> nat \<Rightarrow> 'a kernel_scheme \<Rightarrow> 'a kernel_scheme" where
  "sched_signal_pgid pgid sig k =
     fold (\<lambda>i k. if task_state (tasks k i) \<noteq> Unused \<and> task_pgid (tasks k i) = pgid
                 then upd_task i (\<lambda>t. t\<lparr>pending_signals := pending_signals t OR push_bit sig 1\<rparr>) k
                 else k) [0..<MAX_TASKS] k"

section \<open>The timer tick\<close>

text \<open>
  The search of \<^verbatim>\<open>sched_tick\<close>: the value of \<^verbatim>\<open>current\<close> and of \<^verbatim>\<open>idle\<close> when the loop is left.
\<close>

partial_function (option) tick_loop ::
  "nat \<Rightarrow> nat option \<Rightarrow> nat \<Rightarrow> 'a kernel_scheme \<Rightarrow> (nat option \<times> nat option) option" where
  "tick_loop start idle cur k =
     (case task_next (tasks k cur) of
        None \<Rightarrow> Some (None, idle)
      | Some c \<Rightarrow>
          if task_state (tasks k c) \<noteq> Runnable
          then (if c = start then Some (Some c, idle) else tick_loop start idle c k)
          else if \<not> is_idle (tasks k c) then Some (Some c, idle)
          else let idle = (if idle = None then Some c else idle)
               in if c = start then Some (Some c, idle) else tick_loop start idle c k)"

text \<open>The end of \<^verbatim>\<open>sched_tick\<close>: switch to the task \<open>c\<close>.\<close>

definition tick_switch :: "u64 \<Rightarrow> nat \<Rightarrow> 'a kernel_scheme \<Rightarrow> u64 \<times> 'a kernel_scheme" where
  "tick_switch frame c k =
     (let k = k\<lparr>current := Some c\<rparr> in
      if task_rsp (tasks k c) = 0 then (frame, k)
      else let k = (if kernel_stack_top (tasks k c) \<noteq> 0
                    then k\<lparr>tss_rsp0 := kernel_stack_top (tasks k c),
                           current_kernel_rsp := kernel_stack_top (tasks k c)\<rparr> else k);
               k = (if task_cr3 (tasks k c) \<noteq> 0 then k\<lparr>cr3 := task_cr3 (tasks k c)\<rparr> else k);
               k = sched_deliver_signals (Some c) k
           in (task_rsp (tasks k c), k))"

definition sched_tick :: "u64 \<Rightarrow> 'a kernel_scheme \<Rightarrow> (u64 \<times> 'a kernel_scheme) option" where
  "sched_tick frame k =
     (if frame = 0 then Some (frame, k)
      else if \<not> sched_ready k \<or> runq k = None then Some (frame, k)
      else case current k of None \<Rightarrow> Some (frame, k) | Some cur \<Rightarrow>
      if \<not> sched_running k then Some (frame, k)
      else let k = upd_task cur (\<lambda>t. t\<lparr>task_rsp := frame\<rparr>) k
      in case tick_loop cur None cur k of
           None \<Rightarrow> None
         | Some (c, idle) \<Rightarrow>
             (case c of
                Some c \<Rightarrow> if task_state (tasks k c) = Runnable then Some (tick_switch frame c k)
                  else (case idle of Some i \<Rightarrow> Some (tick_switch frame i k)
                        | None \<Rightarrow> Some (frame, k\<lparr>current := Some c\<rparr>))
              | None \<Rightarrow> (case idle of Some i \<Rightarrow> Some (tick_switch frame i k)
                         | None \<Rightarrow> Some (frame, k\<lparr>current := None\<rparr>))))"

section \<open>Exit and wait\<close>

definition sched_exit :: "c_int \<Rightarrow> 'a kernel_scheme \<Rightarrow> 'a kernel_scheme" where
  "sched_exit code k =
     (case current k of None \<Rightarrow> k
      | Some c \<Rightarrow>
          let k = upd_task c (\<lambda>t. t\<lparr>exit_code := code, task_state := Zombie\<rparr>) k
          in fold (wake_task (ucast (task_id (tasks k c)))) [0..<MAX_TASKS] k)"

definition release_memory :: "nat \<Rightarrow> 'a kernel_scheme \<Rightarrow> 'a kernel_scheme" where
  "release_memory t k =
     (let k = (if task_cr3 (tasks k t) \<noteq> 0 \<and> task_cr3 (tasks k t) \<noteq> paging_kernel_pml4 k
               then paging_free_user_space (task_cr3 (tasks k t)) k else k)
      in if kstacks k t \<noteq> 0
         then (free_stack (kstacks k t) KSTACK_PAGES k)\<lparr>kstacks := (kstacks k)(t := 0)\<rparr> else k)"

definition task_reap :: "nat \<Rightarrow> 'a kernel_scheme \<Rightarrow> 'a kernel_scheme outcome option" where
  "task_reap t k =
     (case dequeue t k of
        None \<Rightarrow> None
      | Some Undef \<Rightarrow> Some Undef
      | Some (Done k) \<Rightarrow>
          Some (Done (upd_task t (\<lambda>x. x\<lparr>task_state := Unused\<rparr>) (release_memory t k))))"

datatype wait_result = Exited c_int | Blocked nat

text \<open>The code after the wait loop, and the reaping of a task that is already a zombie.\<close>

definition waitpid_resume :: "nat \<Rightarrow> 'a kernel_scheme \<Rightarrow> (wait_result \<times> 'a kernel_scheme) outcome option" where
  "waitpid_resume child k =
     (let code = exit_code (tasks k child)
      in case task_reap child k of
           None \<Rightarrow> None | Some Undef \<Rightarrow> Some Undef | Some (Done k) \<Rightarrow> Some (Done (Exited code, k)))"

definition sched_waitpid :: "c_int \<Rightarrow> 'a kernel_scheme \<Rightarrow> (wait_result \<times> 'a kernel_scheme) outcome option" where
  "sched_waitpid pid k =
     (case List.find (\<lambda>i. ucast (task_id (tasks k i)) = pid) [0..<MAX_TASKS] of
        None \<Rightarrow> Some (Done (Exited (-1), k))
      | Some child \<Rightarrow>
          if task_state (tasks k child) = Zombie then waitpid_resume child k
          else case current k of None \<Rightarrow> Some Undef
          | Some c \<Rightarrow> Some (Done (Blocked child,
              upd_task c (\<lambda>t. t\<lparr>task_state := Waiting, waiting_for := pid\<rparr>) k)))"

section \<open>Frames on a stack\<close>

definition put_qword :: "u64 \<Rightarrow> u64 \<Rightarrow> 'a machine_scheme \<Rightarrow> 'a machine_scheme" where
  "put_qword addr v m = put_entry (addr AND ADDR_MASK) (unat (addr AND 0xFFF) div 8) v m"

definition get_qword :: "u64 \<Rightarrow> 'a machine_scheme \<Rightarrow> u64" where
  "get_qword addr m = frames m (addr AND ADDR_MASK) (unat (addr AND 0xFFF) div 8)"

definition mem_zero :: "u64 \<Rightarrow> nat \<Rightarrow> 'a machine_scheme \<Rightarrow> 'a machine_scheme" where
  "mem_zero dst quads m = fold (\<lambda>i. put_qword (dst + of_nat i * 8) 0) [0..<quads] m"

text \<open>The offsets of the fields of \<^verbatim>\<open>struct irq_frame\<close> and \<^verbatim>\<open>struct irq_frame_user\<close>.\<close>

abbreviation off_r15 :: u64 where "off_r15 \<equiv> 0"
abbreviation off_r14 :: u64 where "off_r14 \<equiv> 8"
abbreviation off_r13 :: u64 where "off_r13 \<equiv> 16"
abbreviation off_r12 :: u64 where "off_r12 \<equiv> 24"
abbreviation off_rbp :: u64 where "off_rbp \<equiv> 64"
abbreviation off_rdi :: u64 where "off_rdi \<equiv> 72"
abbreviation off_rsi :: u64 where "off_rsi \<equiv> 80"
abbreviation off_rbx :: u64 where "off_rbx \<equiv> 104"
abbreviation off_rax :: u64 where "off_rax \<equiv> 112"
abbreviation off_int_no :: u64 where "off_int_no \<equiv> 120"
abbreviation off_err_code :: u64 where "off_err_code \<equiv> 128"
abbreviation off_rip :: u64 where "off_rip \<equiv> 136"
abbreviation off_cs :: u64 where "off_cs \<equiv> 144"
abbreviation off_rflags :: u64 where "off_rflags \<equiv> 152"
abbreviation off_rsp :: u64 where "off_rsp \<equiv> 160"
abbreviation off_ss :: u64 where "off_ss \<equiv> 168"

definition put_fields :: "u64 \<Rightarrow> (u64 \<times> u64) list \<Rightarrow> 'a machine_scheme \<Rightarrow> 'a machine_scheme" where
  "put_fields frame fs m = fold (\<lambda>(off, v). put_qword (frame + off) v) fs m"

section \<open>Creating tasks\<close>

text \<open>Giving the task in slot \<open>t\<close> a kernel stack: \<open>False\<close> when there is no memory.\<close>

definition give_kstack :: "nat \<Rightarrow> 'a kernel_scheme \<Rightarrow> bool \<times> 'a kernel_scheme" where
  "give_kstack t k =
     (case alloc_stack KSTACK_PAGES k of (base, k) \<Rightarrow>
        let k = k\<lparr>kstacks := (kstacks k)(t := base)\<rparr> in
        if base = 0 then (False, k)
        else (True, paging_mark_supervisor_region base KSTACK_SIZE
               (upd_task t (\<lambda>x. x\<lparr>kernel_stack_base := base, kernel_stack_top := base + KSTACK_SIZE\<rparr>) k)))"

definition release_slot :: "nat \<Rightarrow> 'a kernel_scheme \<Rightarrow> 'a kernel_scheme" where
  "release_slot t k = upd_task t (\<lambda>x. x\<lparr>task_state := Unused\<rparr>) k"

definition sched_bootstrap_current :: "'a kernel_scheme \<Rightarrow> 'a kernel_scheme" where
  "sched_bootstrap_current k =
     (case alloc_task k of
        (None, k) \<Rightarrow> k
      | (Some t, k) \<Rightarrow>
          enqueue t ((upd_task t (\<lambda>x. x\<lparr>is_user := False, task_cr3 := paging_kernel_pml4 k,
             task_pgid := ucast (task_id x)\<rparr>) k)\<lparr>current := Some t\<rparr>))"

definition sched_create_kernel :: "u64 \<Rightarrow> 'a kernel_scheme \<Rightarrow> nat option \<times> 'a kernel_scheme" where
  "sched_create_kernel entry k =
     (case alloc_task k of
        (None, k) \<Rightarrow> (None, k)
      | (Some t, k) \<Rightarrow>
          (case give_kstack t k of
             (False, k) \<Rightarrow> (None, release_slot t k)
           | (True, k) \<Rightarrow>
               let k = upd_task t (\<lambda>x. x\<lparr>task_cr3 := paging_kernel_pml4 k\<rparr>) k;
                   frame = kernel_stack_top (tasks k t) - 160;
                   k = put_fields frame [(off_rip, entry), (off_cs, 0x08), (off_rflags, 0x202),
                         (off_int_no, 0), (off_err_code, 0)] (mem_zero frame 20 k);
                   k = upd_task t (\<lambda>x. x\<lparr>task_rsp := frame, task_entry := entry, is_user := False,
                         task_pgid := ucast (task_id x)\<rparr>) k
               in (Some t, enqueue t k)))"

text \<open>The copy of the working directory in \<^verbatim>\<open>sched_fork\<close>: up to the NUL, which is not copied.\<close>

definition cstr_len :: "bytes \<Rightarrow> nat \<Rightarrow> nat" where
  "cstr_len b n = (case List.find (\<lambda>i. b i = 0) [0..<n] of Some i \<Rightarrow> i | None \<Rightarrow> n)"

definition fork_child :: "nat \<Rightarrow> nat \<Rightarrow> 'a kernel_scheme \<Rightarrow> 'a kernel_scheme" where
  "fork_child p c k =
     (let parent = tasks k p;
          frame = kernel_stack_top (tasks k c) - 176;
          u = user_ctx k;
          k = put_fields frame [(off_rip, ctx_rip u), (off_cs, 0x23), (off_rflags, ctx_rflags u), (off_rax, 0),
                (off_rbx, ctx_rbx u), (off_rbp, ctx_rbp u), (off_r12, ctx_r12 u), (off_r13, ctx_r13 u),
                (off_r14, ctx_r14 u), (off_r15, ctx_r15 u), (off_rsp, ctx_rsp u), (off_ss, 0x1B)] (mem_zero frame 22 k)
      in upd_task c (\<lambda>x. x\<lparr>task_rsp := frame, task_entry := task_entry parent, is_user := True,
           user_stack_top := user_stack_top parent, parent_id := ucast (task_id parent),
           task_pgid := task_pgid parent,
           fd_table := fold (\<lambda>i tb. tb(i := fd_table parent i)) [0..<MAX_FDS] (fd_table x),
           task_cwd := blit (task_cwd x) 0 (task_cwd parent) 0 (cstr_len (task_cwd parent) VFS_MAX_PATH)\<rparr>) k)"

definition sched_fork :: "'a kernel_scheme \<Rightarrow> c_int \<times> 'a kernel_scheme" where
  "sched_fork k =
     (case current k of None \<Rightarrow> (-1, k)
      | Some p \<Rightarrow>
      if \<not> is_user (tasks k p) then (-1, k) else
      case alloc_task k of
        (None, k) \<Rightarrow> (-1, k)
      | (Some c, k) \<Rightarrow>
      case paging_new_user_space k of (pml4, k) \<Rightarrow>
      if pml4 = 0 then (-1, release_slot c k) else
      case paging_clone_user_pages pml4 (task_cr3 (tasks k p)) k of (r, k) \<Rightarrow>
      if r < 0 then (-1, release_slot c (paging_free_user_space pml4 k)) else
      let k = upd_task c (\<lambda>x. x\<lparr>task_cr3 := pml4\<rparr>) k in
      case give_kstack c k of
        (False, k) \<Rightarrow> (-1, release_slot c (paging_free_user_space pml4 k))
      | (True, k) \<Rightarrow>
          let k = enqueue c (fork_child p c k)
          in (ucast (task_id (tasks k c)), k))"

end
