(* ===== verification/Sched_Lemmas.thy ===== *)
theory Sched_Lemmas
  imports Sched
begin

text \<open>
  What the scheduler's operations do to the run queue and the task table.  \<open>keeps\<close> is the
  frame of the operations that leave the structure alone; \<open>sched_inv\<close> is the invariant of the
  scheduler: the run queue holds exactly the slots in use, the current task is one of them,
  and the identifiers in use are distinct.
\<close>

section \<open>Loops over the task table\<close>

lemma each_task:
  "fold (\<lambda>i k. if P (tasks k i) then upd_task i f k else k) [0..<n] k =
   k\<lparr>tasks := \<lambda>i. if i < n \<and> P (tasks k i) then f (tasks k i) else tasks k i\<rparr>"
proof (induction n)
  case (Suc n)
  then show ?case by (auto simp: upd_task_def fun_eq_iff less_Suc_eq)
qed simp

lemma wake_waiters:
  "fold (wake_task pid) [0..<n] k = k\<lparr>tasks := \<lambda>i.
     if i < n \<and> task_state (tasks k i) = Waiting \<and> waiting_for (tasks k i) = pid
     then (tasks k i)\<lparr>task_state := Runnable, waiting_for := -1\<rparr> else tasks k i\<rparr>"
  using each_task[of "\<lambda>t. task_state t = Waiting \<and> waiting_for t = pid"
      "\<lambda>t. t\<lparr>task_state := Runnable, waiting_for := -1\<rparr>" n k]
  by (simp add: wake_task_def[abs_def])

section \<open>The frame\<close>

definition keeps :: "'a kernel_scheme \<Rightarrow> 'a kernel_scheme \<Rightarrow> bool" where
  "keeps k k' \<longleftrightarrow> runq k' = runq k \<and> current k' = current k \<and> next_task_id k' = next_task_id k \<and>
     (\<forall>i. task_next (tasks k' i) = task_next (tasks k i) \<and> task_id (tasks k' i) = task_id (tasks k i) \<and>
          (task_state (tasks k' i) = Unused \<longleftrightarrow> task_state (tasks k i) = Unused))"

lemma keeps_refl [simp]: "keeps k k"
  by (simp add: keeps_def)

lemma keeps_trans: "keeps k k' \<Longrightarrow> keeps k' k'' \<Longrightarrow> keeps k k''"
  by (simp add: keeps_def)

lemma keeps_upd_task:
  "task_next (f (tasks k i)) = task_next (tasks k i) \<Longrightarrow> task_id (f (tasks k i)) = task_id (tasks k i) \<Longrightarrow>
   (task_state (f (tasks k i)) = Unused \<longleftrightarrow> task_state (tasks k i) = Unused) \<Longrightarrow> keeps k (upd_task i f k)"
  by (simp add: keeps_def)

lemma keeps_more: "machine.more k' = machine.more k \<Longrightarrow> keeps k k'"
  using kernel_part[of k' k] by (simp add: keeps_def)

lemma keeps_wake: "keeps k (fold (wake_task pid) [0..<n] k)"
  by (simp add: wake_waiters keeps_def)

definition used_slots :: "'a kernel_scheme \<Rightarrow> nat set" where
  "used_slots k = {i. i < MAX_TASKS \<and> task_state (tasks k i) \<noteq> Unused}"

definition ids_ok :: "'a kernel_scheme \<Rightarrow> bool" where
  "ids_ok k \<longleftrightarrow> (\<forall>i\<in>used_slots k. task_id (tasks k i) < next_task_id k) \<and>
     (\<forall>i\<in>used_slots k. \<forall>j\<in>used_slots k. task_id (tasks k i) = task_id (tasks k j) \<longrightarrow> i = j)"

definition sched_inv :: "'a kernel_scheme \<Rightarrow> bool" where
  "sched_inv k \<longleftrightarrow> (\<exists>xs. ring_of k xs \<and> set xs = used_slots k) \<and>
     (\<forall>c. current k = Some c \<longrightarrow> c \<in> used_slots k) \<and> ids_ok k"

lemma keeps_used_slots: "keeps k k' \<Longrightarrow> used_slots k' = used_slots k"
  by (auto simp: keeps_def used_slots_def)

lemma keeps_ring: "keeps k k' \<Longrightarrow> ring_of k' xs = ring_of k xs"
  by (rule ring_of_cong) (auto simp: keeps_def next_of_def)

lemma keeps_inv: "keeps k k' \<Longrightarrow> sched_inv k \<Longrightarrow> sched_inv k'"
  using keeps_used_slots[of k k'] keeps_ring[of k k'] by (simp add: sched_inv_def ids_ok_def keeps_def)

section \<open>Signals\<close>

lemma deliver_loop_keeps: "task_state (tasks k t) \<noteq> Unused \<Longrightarrow> keeps k (deliver_loop sigs t k)"
proof (induction sigs arbitrary: k)
  case (Cons sig sigs)
  let ?k = "upd_task t (\<lambda>x. x\<lparr>pending_signals := pending_signals x AND NOT (push_bit sig 1)\<rparr>) k"
  have k: "keeps k ?k" "task_state (tasks ?k t) \<noteq> Unused" using Cons.prems by (simp_all add: keeps_upd_task)
  have z: "keeps ?k (upd_task t (\<lambda>x. x\<lparr>task_state := Zombie, exit_code := -1\<rparr>) ?k)"
    using k(2) by (simp add: keeps_upd_task)
  show ?case
    using Cons.IH[OF k(2)] Cons.IH[OF Cons.prems] keeps_trans[OF k(1)]
      keeps_trans[OF k(1) keeps_trans[OF z keeps_wake]] k(1)
    by (simp add: Let_def)
qed simp

lemma deliver_signals_keeps:
  "task_state (tasks k t) \<noteq> Unused \<Longrightarrow> keeps k (sched_deliver_signals (Some t) k)"
  by (simp add: sched_deliver_signals_def deliver_loop_keeps)

lemma signal_pgid_tasks:
  "sched_signal_pgid pgid sig k = k\<lparr>tasks := \<lambda>i.
     if i < 16 \<and> task_state (tasks k i) \<noteq> Unused \<and> task_pgid (tasks k i) = pgid
     then (tasks k i)\<lparr>pending_signals := pending_signals (tasks k i) OR push_bit sig 1\<rparr> else tasks k i\<rparr>"
  unfolding sched_signal_pgid_def
  using each_task[of "\<lambda>t. task_state t \<noteq> Unused \<and> task_pgid t = pgid"
      "\<lambda>t. t\<lparr>pending_signals := pending_signals t OR push_bit sig 1\<rparr>" 16 k] by simp

lemma signal_pgid_keeps: "keeps k (sched_signal_pgid pgid sig k)"
  by (simp add: signal_pgid_tasks keeps_def)

section \<open>The tick\<close>

text \<open>The order in which the tick looks at the queue: from the slot behind \<open>c\<close> round to \<open>c\<close>.\<close>

definition turn :: "nat list \<Rightarrow> nat \<Rightarrow> nat list" where
  "turn xs c = tl (dropWhile (\<lambda>x. x \<noteq> c) xs) @ takeWhile (\<lambda>x. x \<noteq> c) xs @ [c]"

lemma turn_split: "c \<notin> set as \<Longrightarrow> turn (as @ c # bs) c = bs @ as @ [c]"
  by (simp add: turn_def takeWhile_append dropWhile_append)

lemma turn_links:
  assumes "ring_of k xs" "c \<in> set xs"
  obtains zs where "turn xs c = zs @ [c]" "links (next_of k) (c # zs) c" "c \<notin> set zs" "set (turn xs c) = set xs"
proof -
  obtain as bs where ab: "xs = as @ c # bs" "c \<notin> set as" using assms(2) split_list_first by metis
  let ?e = "hd xs"
  have l: "links (next_of k) (as @ c # bs) ?e" "distinct (as @ c # bs)" using assms ab(1) by (auto simp: ring_of_def)
  then have l': "links (next_of k) as c" "next_of k c = Some (hd (bs @ [?e]))" "links (next_of k) bs ?e"
    by (simp_all add: links_append links_Cons)
  have e: "hd (as @ [c]) = ?e" by (cases as) (simp_all add: ab(1))
  have h: "hd (bs @ [?e]) = hd (bs @ as @ [c])" using e by (cases bs) simp_all
  have "links (next_of k) (c # bs @ as) c" using l' by (simp add: links_Cons links_append e h)
  moreover have "turn xs c = (bs @ as) @ [c]" using turn_split[OF ab(2)] ab(1) by simp
  moreover have "c \<notin> set (bs @ as)" using l(2) by auto
  moreover have "set (turn xs c) = set xs" using calculation(2) ab(1) by auto
  ultimately show ?thesis using that by blast
qed

definition runs :: "'a kernel_scheme \<Rightarrow> nat \<Rightarrow> bool" where
  "runs k i \<longleftrightarrow> task_state (tasks k i) = Runnable"

lemma tick_loop_walk:
  "links (next_of k) (p # ps) start \<Longrightarrow> start \<notin> set ps \<Longrightarrow>
   case List.find (\<lambda>i. runs k i \<and> \<not> is_idle (tasks k i)) (ps @ [start]) of
     Some c \<Rightarrow> \<exists>i. tick_loop start idle p k = Some (Some c, i)
   | None \<Rightarrow> tick_loop start idle p k =
       Some (Some start, if idle = None then List.find (runs k) (ps @ [start]) else idle)"
proof (induction ps arbitrary: p idle)
  case Nil
  then show ?case by (subst (1 2) tick_loop.simps) (auto simp: next_of_def runs_def Let_def)
next
  case (Cons q ps)
  then have q': "next_of k p = Some q" "q \<noteq> start" "links (next_of k) (q # ps) start" "start \<notin> set ps"
    by auto
  then have q: "task_next (tasks k p) = Some q" "q \<noteq> start" "links (next_of k) (q # ps) start" "start \<notin> set ps"
    by (simp_all add: next_of_def)
  show ?case
  proof (cases "runs k q \<and> \<not> is_idle (tasks k q)")
    case True
    then show ?thesis using q by (subst (1 2) tick_loop.simps) (simp add: runs_def)
  next
    case False
    let ?idle = "if runs k q \<and> idle = None then Some q else idle"
    have step: "tick_loop start idle p k = tick_loop start ?idle q k"
      using q False by (subst tick_loop.simps) (auto simp: runs_def Let_def)
    have f: "List.find (\<lambda>i. runs k i \<and> \<not> is_idle (tasks k i)) ((q # ps) @ [start]) =
        List.find (\<lambda>i. runs k i \<and> \<not> is_idle (tasks k i)) (ps @ [start])"
      using False by auto
    show ?thesis
      using Cons.IH[OF q(3,4), of ?idle] unfolding step f
      by (auto split: option.splits if_splits)
  qed
qed

text \<open>
  The task the tick switches to: the first runnable task behind the current one that is not
  an idle task; failing that the current task if it is runnable; failing that the first
  runnable (idle) task; none otherwise.
\<close>

definition pick_next :: "'a kernel_scheme \<Rightarrow> nat list \<Rightarrow> nat \<Rightarrow> nat option" where
  "pick_next k xs c =
     (case List.find (\<lambda>i. runs k i \<and> \<not> is_idle (tasks k i)) (turn xs c) of
        Some t \<Rightarrow> Some t
      | None \<Rightarrow> if runs k c then Some c else List.find (runs k) (turn xs c))"

lemma sched_tick_pick:
  assumes "ring_of k xs" "current k = Some c" "c \<in> set xs" "frame \<noteq> 0" "sched_ready k" "sched_running k"
  defines "k1 \<equiv> upd_task c (\<lambda>t. t\<lparr>task_rsp := frame\<rparr>) k"
  shows "sched_tick frame k = Some (case pick_next k xs c of Some t \<Rightarrow> tick_switch frame t k1 | None \<Rightarrow> (frame, k1))"
proof -
  have n1: "next_of k1 = next_of k" "runs k1 = runs k" "\<And>i. is_idle (tasks k1 i) = is_idle (tasks k i)"
    by (auto simp: k1_def next_of_def runs_def fun_eq_iff)
  have c1: "k1\<lparr>current := Some c\<rparr> = k1" using assms(2) by (simp add: k1_def upd_task_def)
  have rq: "runq k \<noteq> None" using assms(1,3) by (auto simp: ring_of_def)
  obtain zs where z: "turn xs c = zs @ [c]" "links (next_of k1) (c # zs) c" "c \<notin> set zs"
    using turn_links[OF assms(1,3)] n1(1) by metis
  note W = tick_loop_walk[OF z(2,3), of None, unfolded n1 z(1)[symmetric]]
  have t: "sched_tick frame k = (case tick_loop c None c k1 of
           None \<Rightarrow> None
         | Some (c, idle) \<Rightarrow>
             (case c of
                Some c \<Rightarrow> if task_state (tasks k1 c) = Runnable then Some (tick_switch frame c k1)
                  else (case idle of Some i \<Rightarrow> Some (tick_switch frame i k1)
                        | None \<Rightarrow> Some (frame, k1\<lparr>current := Some c\<rparr>))
              | None \<Rightarrow> (case idle of Some i \<Rightarrow> Some (tick_switch frame i k1)
                         | None \<Rightarrow> Some (frame, k1\<lparr>current := None\<rparr>))))"
    using assms rq by (auto simp: sched_tick_def k1_def[symmetric])
  have rk: "task_state (tasks k1 i) = Runnable \<longleftrightarrow> runs k i" for i by (simp add: k1_def runs_def)
  show ?thesis
  proof (cases "List.find (\<lambda>i. runs k i \<and> \<not> is_idle (tasks k i)) (turn xs c)")
    case (Some d)
    then obtain i where "tick_loop c None c k1 = Some (Some d, i)" using W by auto
    moreover have "runs k d" using Some by (auto simp: find_Some_iff)
    ultimately show ?thesis unfolding t using Some by (simp add: pick_next_def rk)
  next
    case None
    then have "tick_loop c None c k1 = Some (Some c, List.find (runs k) (turn xs c))" using W by simp
    then show ?thesis unfolding t using None c1
      by (auto simp: pick_next_def rk split: option.split)
  qed
qed

lemma pick_next_in: "pick_next k xs c = Some t \<Longrightarrow> c \<in> set xs \<Longrightarrow> ring_of k xs \<Longrightarrow> t \<in> set xs \<and> runs k t"
proof -
  assume p: "pick_next k xs c = Some t" and c: "c \<in> set xs" "ring_of k xs"
  obtain zs where "set (turn xs c) = set xs" using turn_links[OF c(2,1)] by metis
  with p c(1) show ?thesis
    by (auto simp: pick_next_def find_Some_iff split: option.splits if_splits)
qed

section \<open>The invariant\<close>

lemma sched_invD:
  assumes "sched_inv k"
  obtains xs where "ring_of k xs" "set xs = used_slots k" "distinct xs"
  using assms by (auto simp: sched_inv_def ring_of_def)

lemma sched_inv_current: "sched_inv k \<Longrightarrow> c \<in> used_slots k \<Longrightarrow> sched_inv (k\<lparr>current := Some c\<rparr>)"
proof -
  have "ring_of (k\<lparr>current := Some c\<rparr>) xs = ring_of k xs" for xs
    by (rule ring_of_cong) (simp_all add: next_of_def fun_eq_iff)
  then show "sched_inv k \<Longrightarrow> c \<in> used_slots k \<Longrightarrow> sched_inv (k\<lparr>current := Some c\<rparr>)"
    by (simp add: sched_inv_def used_slots_def ids_ok_def)
qed

lemma tick_switch_inv:
  assumes "sched_inv k" "c \<in> used_slots k" "tick_switch frame c k = (r, k')"
  shows "sched_inv k'"
proof -
  let ?k = "k\<lparr>current := Some c\<rparr>"
  have inv: "sched_inv ?k" by (rule sched_inv_current[OF assms(1,2)])
  define k2 where "k2 = (let k = (if kernel_stack_top (tasks ?k c) \<noteq> 0
      then ?k\<lparr>tss_rsp0 := kernel_stack_top (tasks ?k c), current_kernel_rsp := kernel_stack_top (tasks ?k c)\<rparr> else ?k)
      in if task_cr3 (tasks k c) \<noteq> 0 then k\<lparr>cr3 := task_cr3 (tasks k c)\<rparr> else k)"
  have "keeps ?k k2" by (simp add: k2_def keeps_def Let_def)
  moreover have "task_state (tasks k2 c) \<noteq> Unused" using assms(2) by (simp add: k2_def Let_def used_slots_def)
  ultimately have "keeps ?k (sched_deliver_signals (Some c) k2)"
    using keeps_trans deliver_signals_keeps by blast
  moreover have "k' = ?k \<or> k' = sched_deliver_signals (Some c) k2"
    using assms(3) by (auto simp: tick_switch_def k2_def Let_def split: if_splits)
  ultimately show ?thesis using inv keeps_inv by blast
qed

lemma sched_tick_inv:
  assumes "sched_inv k" "sched_tick frame k = Some (r, k')"
  shows "sched_inv k'"
proof (cases "frame = 0 \<or> \<not> sched_ready k \<or> runq k = None \<or> current k = None \<or> \<not> sched_running k")
  case True
  with assms(2) have "k' = k" by (auto simp: sched_tick_def split: if_splits option.splits)
  with assms(1) show ?thesis by simp
next
  case False
  then obtain c where c: "current k = Some c" by auto
  obtain xs where xs: "ring_of k xs" "set xs = used_slots k" using assms(1) by (rule sched_invD)
  let ?k = "upd_task c (\<lambda>t. t\<lparr>task_rsp := frame\<rparr>) k"
  have cx: "c \<in> set xs" using assms(1) c xs(2) by (simp add: sched_inv_def)
  have inv: "sched_inv ?k" by (rule keeps_inv[OF _ assms(1)]) (simp add: keeps_upd_task)
  have u: "used_slots ?k = used_slots k" by (rule keeps_used_slots) (simp add: keeps_upd_task)
  have t: "sched_tick frame k = Some (case pick_next k xs c of Some t \<Rightarrow> tick_switch frame t ?k | None \<Rightarrow> (frame, ?k))"
    using False by (intro sched_tick_pick[OF xs(1) c cx]) auto
  show ?thesis
  proof (cases "pick_next k xs c")
    case None
    with t assms(2) inv show ?thesis by simp
  next
    case (Some d)
    with t assms(2) have "tick_switch frame d ?k = (r, k')" by simp
    moreover have "d \<in> used_slots ?k" using pick_next_in[OF Some cx xs(1)] xs(2) u by simp
    ultimately show ?thesis using tick_switch_inv[OF inv] by blast
  qed
qed

lemma sched_exit_keeps: "sched_inv k \<Longrightarrow> keeps k (sched_exit code k)"
proof (cases "current k")
  case (Some c)
  moreover assume "sched_inv k"
  ultimately have "task_state (tasks k c) \<noteq> Unused" by (simp add: sched_inv_def used_slots_def)
  then have "keeps k (upd_task c (\<lambda>t. t\<lparr>exit_code := code, task_state := Zombie\<rparr>) k)" by (simp add: keeps_upd_task)
  from keeps_trans[OF this keeps_wake] show ?thesis by (simp add: sched_exit_def Some Let_def)
qed (simp add: sched_exit_def)

lemma free_stack_more: "machine.more (free_stack b n m) = machine.more m"
proof -
  have "machine.more (fold (\<lambda>i m. m\<lparr>pm := pmm_free_page (b + of_nat i * 4096) (pm m)\<rparr>) [0..<n] m) = machine.more m"
    by (rule fold_more) simp
  then show ?thesis by (simp add: free_stack_def)
qed

lemma keeps_kstacks: "keeps k (k\<lparr>kstacks := s\<rparr>)"
  by (simp add: keeps_def)

lemma release_memory_tasks: "tasks (release_memory t k) = tasks k"
  "runq (release_memory t k) = runq k" "current (release_memory t k) = current k"
  "next_task_id (release_memory t k) = next_task_id k"
proof -
  note F = kernel_part[OF free_space_more[of "task_cr3 (tasks k t)" k]]
  note S = kernel_part[OF free_stack_more[of "kstacks k t" KSTACK_PAGES]]
  show "tasks (release_memory t k) = tasks k" "runq (release_memory t k) = runq k"
    "current (release_memory t k) = current k" "next_task_id (release_memory t k) = next_task_id k"
    by (simp_all add: release_memory_def Let_def F S)
qed

lemma task_reap_inv:
  assumes inv: "sched_inv k" and t: "current k \<noteq> Some t"
  shows "\<exists>k'. task_reap t k = Some (Done k') \<and> sched_inv k' \<and>
    tasks k' = (\<lambda>i. (tasks k i)\<lparr>task_next := task_next (tasks k' i),
      task_state := if i = t then Unused else task_state (tasks k i)\<rparr>) \<and>
    current k' = current k \<and> used_slots k' = used_slots k - {t}"
proof -
  obtain xs where xs: "ring_of k xs" "set xs = used_slots k" "distinct xs" using inv by (rule sched_invD)
  obtain k1 where k1: "dequeue t k = Some (Done k1)" "ring_of k1 (remove1 t xs)" "same_but_links k k1"
    using dequeue_ring[OF xs(1)] by blast
  let ?k = "upd_task t (\<lambda>x. x\<lparr>task_state := Unused\<rparr>) (release_memory t k1)"
  note R = release_memory_tasks[of t k1] and S = same_but_linksD[OF k1(3)]
  have st: "task_state (tasks ?k i) = (if i = t then Unused else task_state (tasks k i))" for i
    by (simp add: R S)
  have id: "task_id (tasks ?k i) = task_id (tasks k i)" for i by (simp add: R S)
  have us: "used_slots ?k = used_slots k - {t}" unfolding used_slots_def st by auto
  have ring: "ring_of ?k (remove1 t xs)"
    using k1(2) by (subst ring_of_cong[where k' = k1]) (auto simp: R next_of_def)
  have "sched_inv ?k"
    unfolding sched_inv_def
  proof (intro conjI)
    show "\<exists>xs. ring_of ?k xs \<and> set xs = used_slots ?k"
      using ring us xs by (intro exI[of _ "remove1 t xs"]) simp
    show "\<forall>c. current ?k = Some c \<longrightarrow> c \<in> used_slots ?k"
      using inv t unfolding us by (auto simp: R S sched_inv_def)
    show "ids_ok ?k" using inv unfolding ids_ok_def us id by (auto simp: R S sched_inv_def ids_ok_def)
  qed
  moreover have "task_reap t k = Some (Done ?k)" by (simp add: task_reap_def k1)
  moreover have "tasks ?k = (\<lambda>i. (tasks k i)\<lparr>task_next := task_next (tasks ?k i),
      task_state := if i = t then Unused else task_state (tasks k i)\<rparr>)"
    using k1(3) by (auto simp: R same_but_links_def fun_eq_iff)
  ultimately show ?thesis using us by (auto simp: R S)
qed

section \<open>Creating tasks\<close>

text \<open>Between the allocation of a slot and its insertion in the queue.\<close>

definition pending_inv :: "nat \<Rightarrow> 'a kernel_scheme \<Rightarrow> bool" where
  "pending_inv t k \<longleftrightarrow> (\<exists>xs. ring_of k xs \<and> t \<notin> set xs \<and> used_slots k = insert t (set xs) \<and>
     (\<forall>c. current k = Some c \<longrightarrow> c \<in> set xs)) \<and> ids_ok k"

lemma keeps_pending: "keeps k k' \<Longrightarrow> pending_inv t k \<Longrightarrow> pending_inv t k'"
  using keeps_used_slots[of k k'] keeps_ring[of k k'] by (simp add: pending_inv_def ids_ok_def keeps_def)

lemma unat_inc: "(n :: u64) \<noteq> -1 \<Longrightarrow> unat (n + 1) = Suc (unat n)"
  by (metis add.commute add.inverse_inverse eq_neg_iff_add_eq_0 unatSuc)

lemma alloc_task_pending:
  assumes inv: "sched_inv k" and al: "alloc_task k = (Some t, k')" and nx: "next_task_id k \<noteq> -1"
  shows "pending_inv t k'" "t \<notin> used_slots k" "used_slots k' = insert t (used_slots k)"
    "current k' = current k" "task_id (tasks k' t) = next_task_id k" "i \<noteq> t \<Longrightarrow> tasks k' i = tasks k i"
proof -
  obtain xs where xs: "ring_of k xs" "set xs = used_slots k" "distinct xs" using inv by (rule sched_invD)
  have f: "List.find (\<lambda>i. task_state (tasks k i) = Unused) [0..<MAX_TASKS] = Some t"
    and k': "k' = (upd_task t (fresh_task (next_task_id k)) k)\<lparr>next_task_id := next_task_id k + 1\<rparr>"
    using al by (auto simp: alloc_task_def split: option.splits)
  from find_upt_SomeD[OF f] have t: "t < 16" "task_state (tasks k t) = Unused" by auto
  then show tn: "t \<notin> used_slots k" by (simp add: used_slots_def)
  have fr: "task_state (fresh_task n x) = Runnable" "task_id (fresh_task n x) = n" for n x
    by (simp_all add: fresh_task_def task_fd_init_def)
  show us: "used_slots k' = insert t (used_slots k)"
    using t by (auto simp: k' used_slots_def fr)
  show "current k' = current k" "task_id (tasks k' t) = next_task_id k" "i \<noteq> t \<Longrightarrow> tasks k' i = tasks k i"
    by (simp_all add: k' fr)
  have "links (next_of k') xs (hd xs) = links (next_of k) xs (hd xs)"
    by (rule links_cong) (use tn xs(2) in \<open>auto simp: k' next_of_def\<close>)
  then have ring: "ring_of k' xs" using xs(1) by (simp add: ring_of_def k')
  have lt: "x < next_task_id k \<Longrightarrow> x < next_task_id k + 1" "next_task_id k < next_task_id k + 1" for x
    using unat_inc[OF nx] by (simp_all add: word_less_nat_alt)
  have id: "task_id (tasks k' i) = (if i = t then next_task_id k else task_id (tasks k i))"
    "next_task_id k' = next_task_id k + 1" for i
    by (simp_all add: k' fr)
  have old: "task_id (tasks k i) < next_task_id k" if "i \<in> used_slots k" for i
    using inv that by (simp add: sched_inv_def ids_ok_def)
  have "ids_ok k'"
    unfolding ids_ok_def us id
  proof (intro conjI ballI impI)
    fix i assume "i \<in> insert t (used_slots k)"
    then show "(if i = t then next_task_id k else task_id (tasks k i)) < next_task_id k + 1"
      using old lt by auto
  next
    fix i j assume "i \<in> insert t (used_slots k)" "j \<in> insert t (used_slots k)"
      "(if i = t then next_task_id k else task_id (tasks k i)) = (if j = t then next_task_id k else task_id (tasks k j))"
    then show "i = j" using old[of i] old[of j] inv
      by (auto simp: sched_inv_def ids_ok_def split: if_splits)
  qed
  then show "pending_inv t k'"
    using ring tn us xs(2) inv unfolding pending_inv_def sched_inv_def by (auto simp: k')
qed

lemma release_slot_inv: "pending_inv t k \<Longrightarrow> sched_inv (release_slot t k)"
proof -
  assume "pending_inv t k"
  then obtain xs where xs: "ring_of k xs" "t \<notin> set xs" "used_slots k = insert t (set xs)"
      "\<forall>c. current k = Some c \<longrightarrow> c \<in> set xs" "ids_ok k"
    by (auto simp: pending_inv_def)
  have us: "used_slots (release_slot t k) = set xs"
    using xs(2,3) by (auto simp: used_slots_def release_slot_def)
  have "ring_of (release_slot t k) xs"
    using xs(1) by (subst ring_of_cong[where k' = k]) (auto simp: release_slot_def next_of_def)
  moreover have "current (release_slot t k) = current k" by (simp add: release_slot_def)
  moreover have idr: "task_id (tasks (release_slot t k) i) = task_id (tasks k i)"
    "next_task_id (release_slot t k) = next_task_id k" for i
    by (simp_all add: release_slot_def)
  moreover have "ids_ok (release_slot t k)"
    using xs(5) unfolding ids_ok_def us xs(3) idr by blast
  ultimately show ?thesis using xs(4) us unfolding sched_inv_def by auto
qed

lemma enqueue_inv:
  assumes "ring_of k xs" "t \<notin> set xs" "used_slots k = insert t (set xs)"
    "\<forall>c. current k = Some c \<longrightarrow> c \<in> insert t (set xs)" "ids_ok k"
  shows "sched_inv (enqueue t k)"
proof -
  have "t < 16" using assms(3) by (auto simp: used_slots_def)
  have st: "task_state (tasks (enqueue t k) i) = task_state (tasks k i)" "task_id (tasks (enqueue t k) i) = task_id (tasks k i)"
    "current (enqueue t k) = current k" "next_task_id (enqueue t k) = next_task_id k" for i
    by (auto simp: enqueue_def Let_def split: option.splits)
  have us: "used_slots (enqueue t k) = insert t (set xs)" using assms(3) unfolding used_slots_def st .
  show ?thesis
    unfolding sched_inv_def
  proof (intro conjI)
    show "\<exists>ys. ring_of (enqueue t k) ys \<and> set ys = used_slots (enqueue t k)"
      using enqueue_ring[OF assms(1,2) \<open>t < 16\<close>] us by (intro exI[of _ "insert_second t xs"]) simp
    show "\<forall>c. current (enqueue t k) = Some c \<longrightarrow> c \<in> used_slots (enqueue t k)"
      using assms(4) unfolding us st .
    show "ids_ok (enqueue t k)" using assms(5) unfolding ids_ok_def us st assms(3) .
  qed
qed

lemma enqueue_pending_inv: "pending_inv t k \<Longrightarrow> sched_inv (enqueue t k)"
  by (auto simp: pending_inv_def intro: enqueue_inv)

end
