(* ===== verification/Sched_Props.thy ===== *)
theory Sched_Props
  imports Sched_Lemmas
begin

text \<open>
  The scheduler as a transition system and its properties: the invariant holds in every
  reachable state, the tick is round robin, waiting and exiting hand the exit code over,
  signals, and what \<^verbatim>\<open>fork\<close> gives the child.
\<close>

section \<open>Creation keeps the invariant\<close>

lemma alloc_rest_more: "machine.more (snd (alloc_rest n m)) = machine.more m"
  by (induction n arbitrary: m) (auto split: prod.splits)

lemma alloc_stack_more: "machine.more (snd (alloc_stack n m)) = machine.more m"
proof -
  obtain b p where "pmm_alloc_page (pm m) = (b, p)" by (cases "pmm_alloc_page (pm m)")
  moreover obtain ok m' where "alloc_rest (n - 1) (m\<lparr>pm := p\<rparr>) = (ok, m')"
    by (cases "alloc_rest (n - 1) (m\<lparr>pm := p\<rparr>)")
  ultimately show ?thesis using alloc_rest_more[of "n - 1" "m\<lparr>pm := p\<rparr>"] by (simp add: alloc_stack_def)
qed

lemma put_qword_more: "machine.more (put_qword a v m) = machine.more m"
  by (simp add: put_qword_def put_entry_more)

lemma put_fields_more: "machine.more (put_fields a fs m) = machine.more m"
  unfolding put_fields_def by (rule fold_more) (auto simp: put_qword_more split: prod.splits)

lemma mem_zero_more: "machine.more (mem_zero a n m) = machine.more m"
  unfolding mem_zero_def by (rule fold_more) (rule put_qword_more)

lemma give_kstack_keeps: "give_kstack t k = (ok, k') \<Longrightarrow> keeps k k'"
proof -
  assume g: "give_kstack t k = (ok, k')"
  obtain b k1 where a: "alloc_stack KSTACK_PAGES k = (b, k1)" by (cases "alloc_stack KSTACK_PAGES k")
  have 1: "keeps k k1" using keeps_more[of k1 k] alloc_stack_more[of KSTACK_PAGES k] a by simp
  let ?k2 = "k1\<lparr>kstacks := (kstacks k1)(t := b)\<rparr>"
  let ?k3 = "upd_task t (\<lambda>x. x\<lparr>kernel_stack_base := b, kernel_stack_top := b + KSTACK_SIZE\<rparr>) ?k2"
  have 2: "keeps k ?k2" by (rule keeps_trans[OF 1 keeps_kstacks])
  have "keeps ?k2 ?k3" by (rule keeps_upd_task) simp_all
  moreover have "keeps ?k3 (paging_mark_supervisor_region b KSTACK_SIZE ?k3)"
    by (rule keeps_more) (rule mark_supervisor_more)
  ultimately have "keeps k (paging_mark_supervisor_region b KSTACK_SIZE ?k3)"
    using 2 keeps_trans by blast
  with g a 2 show ?thesis by (auto simp: give_kstack_def Let_def split: if_splits)
qed

lemma fork_child_keeps: "keeps k (fork_child p c k)"
proof -
  let ?f = "kernel_stack_top (tasks k c) - 176" and ?u = "user_ctx k"
  define k1 where "k1 = put_fields ?f [(off_rip, ctx_rip ?u), (off_cs, 0x23), (off_rflags, ctx_rflags ?u), (off_rax, 0),
                (off_rbx, ctx_rbx ?u), (off_rbp, ctx_rbp ?u), (off_r12, ctx_r12 ?u), (off_r13, ctx_r13 ?u),
                (off_r14, ctx_r14 ?u), (off_r15, ctx_r15 ?u), (off_rsp, ctx_rsp ?u), (off_ss, 0x1B)] (mem_zero ?f 22 k)"
  have "keeps k k1" by (rule keeps_more) (simp add: k1_def put_fields_more mem_zero_more)
  then show ?thesis unfolding fork_child_def Let_def k1_def[symmetric]
    by (rule keeps_trans) (rule keeps_upd_task, simp_all)
qed

lemma sched_fork_inv:
  assumes inv: "sched_inv k" and nx: "next_task_id k \<noteq> -1" and f: "sched_fork k = (r, k')"
  shows "sched_inv k'"
proof (cases "current k = None \<or> \<not> is_user (tasks k (the (current k))) \<or> fst (alloc_task k) = None")
  case True
  then have "k' = k"
    using f by (auto simp: sched_fork_def alloc_task_def split: option.splits if_splits)
  with inv show ?thesis by simp
next
  case False
  then obtain p c k1 where p: "current k = Some p" "is_user (tasks k p)" and al: "alloc_task k = (Some c, k1)"
    by (cases "alloc_task k") auto
  note P = alloc_task_pending(1)[OF inv al nx]
  obtain pml4 k2 where n: "paging_new_user_space k1 = (pml4, k2)" by (cases "paging_new_user_space k1")
  have 2: "keeps k1 k2" using keeps_more[of k2 k1] new_user_space_more[of k1] n by simp
  obtain q k3 where cl: "paging_clone_user_pages pml4 (task_cr3 (tasks k2 p)) k2 = (q, k3)"
    by (cases "paging_clone_user_pages pml4 (task_cr3 (tasks k2 p)) k2")
  have 3: "keeps k1 k3"
    using keeps_trans[OF 2] keeps_more[of k3 k2] clone_more[of pml4 "task_cr3 (tasks k2 p)" k2] cl by simp
  let ?k4 = "upd_task c (\<lambda>x. x\<lparr>task_cr3 := pml4\<rparr>) k3"
  have 4: "keeps k1 ?k4" by (rule keeps_trans[OF 3]) (simp add: keeps_upd_task)
  obtain ok k5 where g: "give_kstack c ?k4 = (ok, k5)" by (cases "give_kstack c ?k4")
  have 5: "keeps k1 k5" by (rule keeps_trans[OF 4 give_kstack_keeps[OF g]])
  have free: "keeps k1 m \<Longrightarrow> sched_inv (release_slot c (paging_free_user_space pml4 m))" for m
    by (rule release_slot_inv, rule keeps_pending[OF _ P], erule keeps_trans, rule keeps_more, rule free_space_more)
  have slot: "sched_inv (release_slot c k2)" by (rule release_slot_inv[OF keeps_pending[OF 2 P]])
  have "sched_inv (enqueue c (fork_child p c k5))"
    by (rule enqueue_pending_inv[OF keeps_pending[OF keeps_trans[OF 5 fork_child_keeps] P]])
  with slot free[OF 3] free[OF 5] f p al n cl g show ?thesis
    by (auto simp: sched_fork_def Let_def split: if_splits bool.splits)
qed

lemma sched_create_kernel_inv:
  assumes inv: "sched_inv k" and nx: "next_task_id k \<noteq> -1" and f: "sched_create_kernel e k = (r, k')"
  shows "sched_inv k'"
proof (cases "alloc_task k")
  case (Pair o1 k1)
  show ?thesis
  proof (cases o1)
    case None
    with Pair have "k1 = k" by (auto simp: alloc_task_def split: option.splits)
    with f None Pair inv show ?thesis by (simp add: sched_create_kernel_def)
  next
    case (Some t)
    with Pair have al: "alloc_task k = (Some t, k1)" by simp
    note P = alloc_task_pending(1)[OF inv al nx]
    obtain ok k2 where g: "give_kstack t k1 = (ok, k2)" by (cases "give_kstack t k1")
    have 2: "keeps k1 k2" by (rule give_kstack_keeps[OF g])
    define k3 where "k3 = upd_task t (\<lambda>x. x\<lparr>task_cr3 := paging_kernel_pml4 k2\<rparr>) k2"
    define fr where "fr = kernel_stack_top (tasks k3 t) - 160"
    define k4 where "k4 = put_fields fr [(off_rip, e), (off_cs, 0x08), (off_rflags, 0x202),
        (off_int_no, 0), (off_err_code, 0)] (mem_zero fr 20 k3)"
    let ?k5 = "upd_task t (\<lambda>x. x\<lparr>task_rsp := fr, task_entry := e, is_user := False, task_pgid := ucast (task_id x)\<rparr>) k4"
    have "keeps k2 k3" unfolding k3_def by (rule keeps_upd_task) simp_all
    moreover have "keeps k3 k4" by (rule keeps_more) (simp add: k4_def put_fields_more mem_zero_more)
    moreover have "keeps k4 ?k5" by (rule keeps_upd_task) simp_all
    ultimately have 5: "keeps k1 ?k5" using 2 keeps_trans by blast
    show ?thesis
    proof (cases ok)
      case True
      have fr2: "kernel_stack_top (tasks k2 t) - 160 = fr" by (simp add: fr_def k3_def)
      have "k' = enqueue t ?k5"
        using f al g True by (simp add: sched_create_kernel_def Let_def k3_def[symmetric] fr2 k4_def[symmetric])
      then show ?thesis using enqueue_pending_inv[OF keeps_pending[OF 5 P]] by simp
    next
      case False
      then have "k' = release_slot t k2" using f al g by (simp add: sched_create_kernel_def)
      then show ?thesis using release_slot_inv[OF keeps_pending[OF 2 P]] by simp
    qed
  qed
qed

section \<open>Bootstrapping\<close>

lemma sched_init_fields:
  "i < 16 \<Longrightarrow> task_state (tasks (sched_init k) i) = Unused" "runq (sched_init k) = None"
  "current (sched_init k) = None" "next_task_id (sched_init k) = 1" "sched_ready (sched_init k)"
  "\<not> sched_running (sched_init k)"
proof -
  have "i < n \<Longrightarrow> task_state (tasks (fold (\<lambda>i k. (upd_task i (\<lambda>t. t\<lparr>task_state := Unused, task_next := None\<rparr>) k)
      \<lparr>kstacks := (kstacks k)(i := 0)\<rparr>) [0..<n] k) i) = Unused" for n
    by (induction n) (auto simp: less_Suc_eq)
  then show "i < 16 \<Longrightarrow> task_state (tasks (sched_init k) i) = Unused" by (simp add: sched_init_def)
qed (simp_all add: sched_init_def)

lemma sched_init_inv: "sched_inv (sched_init k)"
proof -
  have "used_slots (sched_init k) = {}" by (auto simp: used_slots_def sched_init_fields)
  moreover have "ring_of (sched_init k) []" by (simp add: ring_of_def sched_init_fields)
  ultimately show ?thesis by (auto simp: sched_inv_def ids_ok_def sched_init_fields)
qed

lemma bootstrap_inv:
  assumes inv: "sched_inv k" and nx: "next_task_id k \<noteq> -1"
  shows "sched_inv (sched_bootstrap_current k)"
proof (cases "alloc_task k")
  case (Pair o1 k1)
  show ?thesis
  proof (cases o1)
    case None
    with Pair have "k1 = k" by (auto simp: alloc_task_def split: option.splits)
    with None Pair inv show ?thesis by (simp add: sched_bootstrap_current_def)
  next
    case (Some t)
    with Pair have al: "alloc_task k = (Some t, k1)" by simp
    obtain xs where xs: "ring_of k1 xs" "t \<notin> set xs" "used_slots k1 = insert t (set xs)" "ids_ok k1"
      using alloc_task_pending(1)[OF inv al nx] by (auto simp: pending_inv_def)
    let ?k2 = "upd_task t (\<lambda>x. x\<lparr>is_user := False, task_cr3 := paging_kernel_pml4 k1, task_pgid := ucast (task_id x)\<rparr>) k1"
    let ?k3 = "?k2\<lparr>current := Some t\<rparr>"
    have k: "keeps k1 ?k2" by (rule keeps_upd_task) simp_all
    have r: "ring_of ?k3 ys = ring_of ?k2 ys" for ys
      by (rule ring_of_cong) (simp_all add: next_of_def fun_eq_iff)
    have us: "used_slots ?k3 = used_slots ?k2" by (simp add: used_slots_def)
    have ids: "ids_ok ?k3 = ids_ok ?k2" unfolding ids_ok_def us by simp
    have "ids_ok ?k2" using xs(4) k keeps_used_slots[OF k] by (simp add: ids_ok_def keeps_def)
    then have 3: "ids_ok ?k3" unfolding ids .
    have 1: "ring_of ?k3 xs" using xs(1) keeps_ring[OF k] by (simp only: r)
    have 2: "used_slots ?k3 = insert t (set xs)" using xs(3) keeps_used_slots[OF k] by (simp only: us)
    have "\<forall>c. current ?k3 = Some c \<longrightarrow> c \<in> insert t (set xs)" by simp
    from enqueue_inv[OF 1 xs(2) 2 this 3] have "sched_inv (enqueue t ?k3)" .
    then show ?thesis by (simp add: sched_bootstrap_current_def al)
  qed
qed

section \<open>The transition system\<close>

text \<open>
  The scheduler's steps: interrupts of the timer, keyboard signals, and the system calls of
  the current task.  \<open>Resume\<close> is the code behind the wait loop, run by a task that was woken;
  the child it reaps is not itself.  Identifiers are not reused: fewer than \<open>2 ^ 64\<close> tasks are
  created.
\<close>

inductive sched_step :: "kernel \<Rightarrow> kernel \<Rightarrow> bool" where
  Tick: "sched_tick frame k = Some (r, k') \<Longrightarrow> sched_step k k'"
| Start: "sched_step k (sched_start k)"
| Exit: "sched_step k (sched_exit code k)"
| Signal: "sched_step k (sched_signal_pgid pgid sig k)"
| Wait: "sched_waitpid pid k = Some (Done (w, k')) \<Longrightarrow>
    (\<forall>c. current k = Some c \<longrightarrow> ucast (task_id (tasks k c)) \<noteq> pid) \<Longrightarrow> sched_step k k'"
| Resume: "waitpid_resume child k = Some (Done (w, k')) \<Longrightarrow> current k \<noteq> Some child \<Longrightarrow> sched_step k k'"
| Fork: "sched_fork k = (r, k') \<Longrightarrow> next_task_id k \<noteq> -1 \<Longrightarrow> sched_step k k'"
| Create: "sched_create_kernel entry k = (t, k') \<Longrightarrow> next_task_id k \<noteq> -1 \<Longrightarrow> sched_step k k'"

inductive_simps sched_step_simps: "sched_step k k'"

inductive reachable :: "kernel \<Rightarrow> bool" where
  Boot: "reachable (sched_bootstrap_current (sched_init k))"
| Step: "reachable k \<Longrightarrow> sched_step k k' \<Longrightarrow> reachable k'"

lemma waitpid_resume_inv:
  assumes "sched_inv k" "current k \<noteq> Some child" "waitpid_resume child k = Some (Done (w, k'))"
  shows "sched_inv k'"
proof -
  obtain k1 where "task_reap child k = Some (Done k1)" "sched_inv k1"
    using task_reap_inv[OF assms(1,2)] by blast
  with assms(3) show ?thesis by (simp add: waitpid_resume_def)
qed

lemma waitpid_inv:
  assumes inv: "sched_inv k" and w: "sched_waitpid pid k = Some (Done (w, k'))"
    and s: "\<forall>c. current k = Some c \<longrightarrow> ucast (task_id (tasks k c)) \<noteq> pid"
  shows "sched_inv k'"
proof (cases "List.find (\<lambda>i. ucast (task_id (tasks k i)) = pid) [0..<MAX_TASKS]")
  case None
  with w inv show ?thesis by (simp add: sched_waitpid_def)
next
  case (Some child)
  then have "ucast (task_id (tasks k child)) = pid" by (auto dest: find_upt_SomeD)
  with s have ne: "current k \<noteq> Some child" by auto
  show ?thesis
  proof (cases "task_state (tasks k child) = Zombie")
    case True
    then have "waitpid_resume child k = Some (Done (w, k'))" using w Some by (simp add: sched_waitpid_def)
    then show ?thesis by (rule waitpid_resume_inv[OF inv ne])
  next
    case False
    then obtain c where c: "current k = Some c" "k' = upd_task c (\<lambda>t. t\<lparr>task_state := Waiting, waiting_for := pid\<rparr>) k"
      using w Some by (auto simp: sched_waitpid_def split: option.splits)
    then have "task_state (tasks k c) \<noteq> Unused" using inv by (simp add: sched_inv_def used_slots_def)
    then show ?thesis unfolding c(2) by (intro keeps_inv[OF keeps_upd_task inv]) simp_all
  qed
qed

lemma sched_step_inv: "sched_step k k' \<Longrightarrow> sched_inv k \<Longrightarrow> sched_inv k'"
proof (induction rule: sched_step.induct)
  case (Tick frame k r k')
  then show ?case by (blast intro: sched_tick_inv)
next
  case (Start k)
  have "keeps k (sched_start k)" by (simp add: keeps_def sched_start_def)
  then show ?case using Start by (rule keeps_inv)
next
  case (Exit k code)
  then show ?case by (blast intro: keeps_inv sched_exit_keeps)
next
  case (Signal k pgid sig)
  then show ?case by (blast intro: keeps_inv signal_pgid_keeps)
next
  case (Wait pid k w k')
  then show ?case by (blast intro: waitpid_inv)
next
  case (Resume child k w k')
  then show ?case by (blast intro: waitpid_resume_inv)
next
  case (Fork k r k')
  then show ?case by (blast intro: sched_fork_inv)
next
  case (Create entry k t k')
  then show ?case by (blast intro: sched_create_kernel_inv)
qed

text \<open>
  In every reachable state of the scheduler the run queue is a well-formed
  circular list of exactly the slots in use, the current task is one of them, and the
  identifiers of the tasks in use are distinct and below the next one to hand out.
\<close>

theorem reachable_sched_inv:
  assumes "reachable k"
  shows "sched_inv k"
  using assms
proof (induction rule: reachable.induct)
  case (Boot k)
  show ?case by (rule bootstrap_inv[OF sched_init_inv]) (simp add: sched_init_fields)
qed (rule sched_step_inv)

theorem reachable_sched_inv_witness:
  "sched_inv (sched_start (sched_bootstrap_current (sched_init (undefined :: kernel))))"
  by (rule reachable_sched_inv, rule reachable.Step[OF reachable.Boot], rule sched_step.Start)

section \<open>Round robin\<close>

text \<open>
  C19 (functional).  A tick of the running scheduler always returns: it saves the interrupted
  frame, looks at the queue once round from the slot behind the current task, and switches
  to the first runnable task that is not an idle task; if there is none it stays with the
  current task while that is runnable, and takes an idle task otherwise.
\<close>

theorem sched_tick_round_robin:
  assumes "sched_inv k" "current k = Some c" "frame \<noteq> 0" "sched_ready k" "sched_running k"
  shows "\<exists>xs. ring_of k xs \<and> set xs = used_slots k \<and> c \<in> set xs \<and>
    sched_tick frame k =
      (let k1 = upd_task c (\<lambda>t. t\<lparr>task_rsp := frame\<rparr>) k
       in Some (case pick_next k xs c of Some t \<Rightarrow> tick_switch frame t k1 | None \<Rightarrow> (frame, k1)))"
proof -
  obtain xs where xs: "ring_of k xs" "set xs = used_slots k" using assms(1) by (rule sched_invD)
  have c: "c \<in> set xs" using assms(1,2) xs(2) by (simp add: sched_inv_def)
  show ?thesis
    using xs c sched_tick_pick[OF xs(1) assms(2) c assms(3-5)] by (auto simp: Let_def)
qed

text \<open>Two kernel tasks in slots 0 and 1; slot 0 runs and slot 1 is next.\<close>

definition blank_task :: task where
  "blank_task = \<lparr>task_id = 0, task_cr3 = 0, task_rsp = 0, kernel_stack_base = 0, kernel_stack_top = 0,
     user_stack_top = 0, task_entry = 0, is_user = False, is_idle = False, task_state = Unused, task_next = None,
     parent_id = 0, exit_code = 0, waiting_for = -1, task_pgid = 0, fd_table = (\<lambda>_. fd_unused), task_cwd = (\<lambda>_. 0),
     pending_signals = 0, blocked_signals = 0, signal_handlers = (\<lambda>_. 0)\<rparr>"

definition sample_kernel :: kernel where
  "sample_kernel = \<lparr>pm = sample_pmm, frames = (\<lambda>_ _. 0), kernel_pml4 = 0x120000,
     syms = \<lparr>sym_pml4 = 0x120000, sym_pdpt = 0x121000, sym_pd = 0x122000, sym_pt = 0x123000\<rparr>, cr3 = 0x120000,
     tasks = (\<lambda>_. blank_task)(
       0 := blank_task\<lparr>task_id := 1, task_state := Runnable, task_next := Some 1\<rparr>,
       1 := blank_task\<lparr>task_id := 2, task_state := Waiting, waiting_for := 1, task_next := Some 0, task_rsp := 0x5000\<rparr>,
       2 := blank_task\<lparr>task_id := 3, task_cwd := put_list (\<lambda>_. 0) 0 (bytes_of ''/home/u'')\<rparr>),
     runq = Some 0, current = Some 0, pipes = undefined, next_task_id = 4, sched_ready = True,
     sched_running = True, kstacks = (\<lambda>_. 0), current_kernel_rsp = 0, tss_rsp0 = 0, user_ctx = undefined\<rparr>"

lemma sample_kernel_slots: "used_slots sample_kernel = {0, 1}"
  by (auto simp: used_slots_def sample_kernel_def blank_task_def)

lemma sample_kernel_fields:
  "current sample_kernel = Some 0" "sched_ready sample_kernel" "sched_running sample_kernel"
  "task_state (tasks sample_kernel 1) = Waiting" "waiting_for (tasks sample_kernel 1) = 1"
  "task_id (tasks sample_kernel 0) = 1" "task_id (tasks sample_kernel 1) = 2" "task_id (tasks sample_kernel 2) = 3"
  "task_state (tasks sample_kernel 2) = Unused" "task_state (tasks sample_kernel 0) = Runnable"
  by (simp_all add: sample_kernel_def blank_task_def)

lemma sample_kernel_inv: "sched_inv sample_kernel"
  unfolding sched_inv_def
proof (intro conjI)
  have "ring_of sample_kernel [0, 1]" by (simp add: ring_of_def sample_kernel_def next_of_def)
  then show "\<exists>xs. ring_of sample_kernel xs \<and> set xs = used_slots sample_kernel"
    by (intro exI[of _ "[0, 1]"]) (simp add: sample_kernel_slots)
  show "\<forall>c. current sample_kernel = Some c \<longrightarrow> c \<in> used_slots sample_kernel"
    unfolding sample_kernel_slots by (simp add: sample_kernel_def)
  show "ids_ok sample_kernel"
    unfolding ids_ok_def sample_kernel_slots by (simp add: sample_kernel_def blank_task_def)
qed

theorem sched_tick_round_robin_witness:
  "\<exists>xs. ring_of sample_kernel xs \<and> set xs = {0, 1}"
  using sched_tick_round_robin [OF sample_kernel_inv sample_kernel_fields(1), of 1] sample_kernel_fields(2,3)
  unfolding sample_kernel_slots by auto

section \<open>Waiting and exiting\<close>

lemma sched_exit_tasks:
  assumes "current k = Some c"
  shows "tasks (sched_exit code k) i =
    (let t = if i = c then (tasks k c)\<lparr>exit_code := code, task_state := Zombie\<rparr> else tasks k i
     in if i < 16 \<and> task_state t = Waiting \<and> waiting_for t = ucast (task_id (tasks k c))
        then t\<lparr>task_state := Runnable, waiting_for := -1\<rparr> else t)"
  by (simp add: sched_exit_def assms Let_def wake_waiters)

text \<open>
  C20 (functional).  When the current task exits while another waits for it, the waiting task
  becomes runnable and the exiting one a zombie with its exit code; when the waiting task
  runs again it returns that code, and the slot of the child is free and out of the queue.
\<close>

theorem wait_exit_handover:
  assumes "sched_inv k" "current k = Some c" "p \<in> used_slots k" "p \<noteq> c"
    and "task_state (tasks k p) = Waiting" "waiting_for (tasks k p) = ucast (task_id (tasks k c))"
  shows "let k1 = sched_exit code k in
    task_state (tasks k1 p) = Runnable \<and> task_state (tasks k1 c) = Zombie \<and>
    (\<exists>k2. waitpid_resume c (k1\<lparr>current := Some p\<rparr>) = Some (Done (Exited code, k2)) \<and> sched_inv k2 \<and>
       used_slots k2 = used_slots k - {c} \<and> task_state (tasks k2 p) = Runnable)"
proof -
  let ?k1 = "sched_exit code k"
  note T = sched_exit_tasks[OF assms(2), of code]
  have st: "task_state (tasks ?k1 p) = Runnable" "task_state (tasks ?k1 c) = Zombie" "exit_code (tasks ?k1 c) = code"
    using assms by (auto simp: T Let_def used_slots_def)
  have K: "keeps k ?k1" by (rule sched_exit_keeps[OF assms(1)])
  have us: "used_slots ?k1 = used_slots k" by (rule keeps_used_slots[OF K])
  have inv: "sched_inv (?k1\<lparr>current := Some p\<rparr>)"
    using sched_inv_current[OF keeps_inv[OF K assms(1)]] assms(3) us by simp
  have "current (?k1\<lparr>current := Some p\<rparr>) \<noteq> Some c" using assms(4) by simp
  from task_reap_inv[OF inv this] obtain k2 where k2: "task_reap c (?k1\<lparr>current := Some p\<rparr>) = Some (Done k2)"
      "sched_inv k2" "used_slots k2 = used_slots (?k1\<lparr>current := Some p\<rparr>) - {c}"
    and t2: "tasks k2 = (\<lambda>i. (tasks (?k1\<lparr>current := Some p\<rparr>) i)\<lparr>task_next := task_next (tasks k2 i),
      task_state := if i = c then Unused else task_state (tasks (?k1\<lparr>current := Some p\<rparr>) i)\<rparr>)" by blast
  have "task_state (tasks k2 p) = Runnable" using st(1) assms(4) by (subst t2) simp
  moreover have "used_slots (?k1\<lparr>current := Some p\<rparr>) = used_slots k" using us by (simp add: used_slots_def)
  ultimately show ?thesis using st k2 by (simp add: waitpid_resume_def Let_def)
qed

theorem wait_exit_handover_witness:
  "task_state (tasks (sched_exit 42 sample_kernel) 1) = Runnable"
  using wait_exit_handover [OF sample_kernel_inv sample_kernel_fields(1), of 1 42] sample_kernel_fields
  unfolding sample_kernel_slots by (simp add: Let_def)

text \<open>
  The search of \<^verbatim>\<open>sched_waitpid\<close> does not look at the state of the slot: an identifier
  that only a freed slot still carries (a child already reaped, or 0 in a slot never used)
  is not reported as an error; the caller blocks although no task with that identifier exists.
\<close>

theorem waitpid_stale_blocks:
  assumes "current k = Some c" "i < 16" "task_state (tasks k i) = Unused" "ucast (task_id (tasks k i)) = pid"
    and "\<forall>j\<in>used_slots k. ucast (task_id (tasks k j)) \<noteq> pid" "c \<in> used_slots k"
  shows "sched_get_task pid k = None \<and> (\<exists>child k'. sched_waitpid pid k = Some (Done (Blocked child, k')) \<and>
    task_state (tasks k' c) = Waiting \<and> task_state (tasks k' child) = Unused)"
proof -
  have "List.find (\<lambda>i. ucast (task_id (tasks k i)) = pid) [0..<MAX_TASKS] \<noteq> None"
    using assms(2,4) by (auto simp: find_upt_None)
  then obtain child where f: "List.find (\<lambda>i. ucast (task_id (tasks k i)) = pid) [0..<MAX_TASKS] = Some child" by auto
  then have ch: "child < 16" "ucast (task_id (tasks k child)) = pid" by (auto dest: find_upt_SomeD)
  then have un: "task_state (tasks k child) = Unused" using assms(5) by (auto simp: used_slots_def)
  then have "child \<noteq> c" using assms(6) by (auto simp: used_slots_def)
  moreover have "sched_get_task pid k = None"
    unfolding sched_get_task_def find_upt_None using assms(5) by (auto simp: used_slots_def)
  ultimately show ?thesis using f un assms(1) by (simp add: sched_waitpid_def)
qed

theorem waitpid_stale_blocks_witness:
  "sched_get_task 3 sample_kernel = None \<and>
   (\<exists>child k'. sched_waitpid 3 sample_kernel = Some (Done (Blocked child, k')))"
  using waitpid_stale_blocks [OF sample_kernel_fields(1), of 2 3] sample_kernel_fields
  unfolding sample_kernel_slots by auto

end
