(* ===== verification/Signal_Fork.thy ===== *)
theory Signal_Fork
  imports Sched_Props
begin

text \<open>
  Signal delivery, the child that \<^verbatim>\<open>sched_fork\<close> builds, and kernel stacks.
\<close>

section \<open>Signal delivery\<close>

lemma bit_test: "(x AND push_bit n 1 = (0 :: u64)) \<longleftrightarrow> \<not> bit x n" "(x AND 2 ^ n = (0 :: u64)) \<longleftrightarrow> \<not> bit x n"
  using bit_iff_and_push_bit_not_eq_0[of x n] by simp_all

definition deliverable :: "task \<Rightarrow> nat \<Rightarrow> bool" where
  "deliverable x s \<longleftrightarrow> bit (pending_signals x) s \<and> \<not> bit (blocked_signals x) s"

text \<open>Killing a task the way \<^verbatim>\<open>sched_deliver_signals\<close> does: zombie, -1, waiters woken.\<close>

definition kill_by_signal :: "nat \<Rightarrow> 'a kernel_scheme \<Rightarrow> 'a kernel_scheme" where
  "kill_by_signal t k = fold (wake_task (ucast (task_id (tasks k t)))) [0..<16]
     (upd_task t (\<lambda>x. x\<lparr>task_state := Zombie, exit_code := -1\<rparr>) k)"

definition set_pending :: "nat \<Rightarrow> u64 \<Rightarrow> 'a kernel_scheme \<Rightarrow> 'a kernel_scheme" where
  "set_pending t v k = upd_task t (\<lambda>x. x\<lparr>pending_signals := v\<rparr>) k"

lemma set_pending_twice [simp]: "set_pending t v (set_pending t w k) = set_pending t v k"
  by (simp add: set_pending_def upd_task_def)

lemma set_pending_same: "set_pending t (pending_signals (tasks k t)) k = k"
  by (simp add: set_pending_def upd_task_def)

text \<open>The state after delivery of the signal \<open>r\<close>, and the signals a delivery of \<open>r\<close> leaves pending.\<close>

definition delivered :: "nat option \<Rightarrow> nat \<Rightarrow> u64 \<Rightarrow> 'a kernel_scheme \<Rightarrow> 'a kernel_scheme" where
  "delivered r t v k =
     (case r of
        None \<Rightarrow> set_pending t v k
      | Some s \<Rightarrow> if s = SIGTERM \<or> s = SIGINT_NO then kill_by_signal t (set_pending t v k) else set_pending t v k)"

definition beyond :: "nat option \<Rightarrow> nat \<Rightarrow> bool" where
  "beyond r j = (case r of Some s \<Rightarrow> s < j | None \<Rightarrow> 32 \<le> j)"

lemma delivered_set_pending: "delivered r t v (set_pending t w k) = delivered r t v k"
  by (simp add: delivered_def split: option.split)

lemma deliver_loop_spec:
  assumes "n \<le> 32"
  shows "\<exists>v. deliver_loop [n..<32] t k = delivered (List.find (deliverable (tasks k t)) [n..<32]) t v k \<and>
    (\<forall>j<64. bit v j \<longleftrightarrow> bit (pending_signals (tasks k t)) j \<and>
       (j < n \<or> beyond (List.find (deliverable (tasks k t)) [n..<32]) j))"
  using assms
proof (induction "32 - n" arbitrary: n k)
  case 0
  then have "n = 32" by simp
  then show ?case using set_pending_same[of t k]
    by (intro exI[of _ "pending_signals (tasks k t)"]) (auto simp: delivered_def beyond_def)
next
  case (Suc d)
  then have n: "n < 32" "d = 32 - Suc n" "Suc n \<le> 32" by auto
  let ?x = "tasks k t"
  let ?r = "List.find (deliverable ?x) [Suc n..<32]"
  define clr where "clr = pending_signals ?x AND NOT (push_bit n 1)"
  let ?k = "set_pending t clr k"
  have clr: "bit clr j \<longleftrightarrow> bit (pending_signals ?x) j \<and> j \<noteq> n" if "j < 64" for j
    using that by (auto simp: clr_def bit_and_iff bit_not_iff bit_push_bit_iff bit_1_iff simp del: push_bit_of_1)
  have kt: "tasks ?k t = ?x\<lparr>pending_signals := clr\<rparr>" by (simp add: set_pending_def)
  have eqd: "List.find (deliverable (tasks ?k t)) [Suc n..<32] = ?r"
    using clr by (intro find_cong refl) (auto simp: deliverable_def kt)
  show ?case
  proof (cases "deliverable ?x n")
    case True
    then have f: "List.find (deliverable ?x) [n..<32] = Some n"
      using n(1) by (simp add: upt_conv_Cons)
    have "deliver_loop [n..<32] t k = delivered (Some n) t clr k"
      using n(1) True
      by (simp add: upt_conv_Cons bit_test set_pending_def upd_task_def kill_by_signal_def clr_def deliverable_def delivered_def)
    then show ?thesis unfolding f using clr by (intro exI[of _ clr]) (auto simp: beyond_def)
  next
    case nd: False
    then have f: "List.find (deliverable ?x) [n..<32] = ?r"
      using n(1) by (simp add: upt_conv_Cons)
    have far: "n < j" if "beyond ?r j" for j
      using that n(1) by (auto simp: beyond_def split: option.splits dest: find_upt_SomeD)
    show ?thesis
    proof (cases "bit (pending_signals ?x) n")
      case False
      obtain v where v: "deliver_loop [Suc n..<32] t k = delivered ?r t v k"
        "\<forall>j<64. bit v j \<longleftrightarrow> bit (pending_signals ?x) j \<and> (j < Suc n \<or> beyond ?r j)"
        using Suc.hyps(1)[OF n(2,3), of k] by blast
      have "deliver_loop [n..<32] t k = deliver_loop [Suc n..<32] t k"
        using n(1) False by (simp add: upt_conv_Cons bit_test)
      moreover have "j < Suc n \<longleftrightarrow> j < n" if "bit (pending_signals ?x) j" for j
        using that False less_Suc_eq by auto
      ultimately show ?thesis using v unfolding f by (intro exI[of _ v]) auto
    next
      case True
      then have blocked: "bit (blocked_signals ?x) n" using nd by (simp add: deliverable_def)
      obtain v where v: "deliver_loop [Suc n..<32] t ?k = delivered ?r t v k"
        "\<forall>j<64. bit v j \<longleftrightarrow> bit clr j \<and> (j < Suc n \<or> beyond ?r j)"
        using Suc.hyps(1)[OF n(2,3), of ?k] unfolding eqd delivered_set_pending unfolding kt by auto
      have "deliver_loop [n..<32] t k = deliver_loop [Suc n..<32] t ?k"
        using n(1) True blocked by (simp add: upt_conv_Cons bit_test set_pending_def upd_task_def clr_def)
      moreover have "bit clr j \<and> (j < Suc n \<or> beyond ?r j) \<longleftrightarrow>
          bit (pending_signals ?x) j \<and> (j < n \<or> beyond ?r j)" if "j < 64" for j
        using clr[OF that] far[of j] less_Suc_eq by auto
      ultimately show ?thesis using v unfolding f by (intro exI[of _ v]) simp
    qed
  qed
qed

text \<open>
  C22 (functional).  \<^verbatim>\<open>sched_deliver_signals\<close> delivers the lowest pending signal below 32 that is
  not blocked: SIGINT and SIGTERM turn the task into a zombie with exit code -1 and wake the
  tasks that wait for it, any other signal has no effect but losing its pending bit.  Every
  blocked signal below the delivered one loses its pending bit as well, so that it is gone
  when it is unblocked; signals from 32 on stay pending for ever.
\<close>

theorem deliver_signals_correct:
  "\<exists>v. sched_deliver_signals (Some t) k = delivered (List.find (deliverable (tasks k t)) [1..<32]) t v k \<and>
    (\<forall>j<64. bit v j \<longleftrightarrow> bit (pending_signals (tasks k t)) j \<and>
       (j = 0 \<or> beyond (List.find (deliverable (tasks k t)) [1..<32]) j))"
proof (cases "pending_signals (tasks k t) = 0")
  case True
  then have "List.find (deliverable (tasks k t)) [1..<32] = None" by (auto simp: find_upt_None deliverable_def)
  moreover have "set_pending t 0 k = k" using set_pending_same[of t k] unfolding True .
  ultimately show ?thesis using True
    by (intro exI[of _ 0]) (simp add: sched_deliver_signals_def delivered_def)
next
  case False
  then have "sched_deliver_signals (Some t) k = deliver_loop [1..<32] t k"
    by (simp add: sched_deliver_signals_def)
  then show ?thesis using deliver_loop_spec[of 1 t k] by (simp add: less_Suc_eq)
qed

text \<open>Signals 1 (blocked) and 2 (SIGINT) are pending: SIGINT kills, and signal 1 is lost.\<close>

theorem deliver_signals_correct_witness:
  "let k = upd_task 0 (\<lambda>t. t\<lparr>pending_signals := 6, blocked_signals := 2\<rparr>) sample_kernel
   in \<exists>v. sched_deliver_signals (Some 0) k = kill_by_signal 0 (set_pending 0 v k) \<and> \<not> bit v 1 \<and> \<not> bit v 2"
proof -
  define k where "k = upd_task 0 (\<lambda>t. t\<lparr>pending_signals := 6, blocked_signals := 2\<rparr>) sample_kernel"
  have b: "bit (6 :: u64) 2" "bit (2 :: u64) 1" "\<not> bit (2 :: u64) 2"
    by (simp_all add: bit_iff_and_push_bit_not_eq_0)
  have f: "List.find (deliverable (tasks k 0)) [1..<32] = Some 2"
  proof (rule find_upt_SomeI)
    fix j :: nat assume "1 \<le> j" "j < 2"
    then have "j = 1" by simp
    then show "\<not> deliverable (tasks k 0) j" using b by (simp add: deliverable_def k_def)
  qed (simp_all add: deliverable_def k_def b)
  obtain v where v: "sched_deliver_signals (Some 0) k = delivered (Some 2) 0 v k"
      "\<forall>j<64. bit v j \<longleftrightarrow> bit (pending_signals (tasks k 0)) j \<and> (j = 0 \<or> beyond (Some 2) j)"
    using deliver_signals_correct [of 0 k] unfolding f by blast
  from v(2) have "\<not> bit v 1" "\<not> bit v 2" by (auto simp: beyond_def)
  with v(1) show ?thesis unfolding k_def[symmetric] Let_def by (auto simp: delivered_def)
qed

section \<open>Frames on an aligned page\<close>

lemma page_offset:
  fixes p o' :: u64
  assumes "p AND 0xFFF = 0" "o' < 0x1000"
  shows "(p + o') AND 0xFFF = o'" "(p + o') AND ADDR_MASK = p"
proof -
  have m: "mask 12 = (0xFFF :: u64)" by (simp add: mask_numeral)
  have "unat o' < 4096" using assms(2) by (simp add: word_less_nat_alt)
  then have "unat (o' AND mask 12) = unat o'" by (simp add: unat_and_mask)
  then have o1: "o' AND 0xFFF = o'" unfolding m by (simp add: word_unat_eq_iff)
  have "o' AND ADDR_MASK = o' AND (0xFFF AND ADDR_MASK)" by (subst (1) o1[symmetric]) (simp only: and.assoc)
  then have o: "o' AND 0xFFF = o'" "o' AND ADDR_MASK = 0" using o1 by simp_all
  have "p AND o' = 0"
  proof -
    have "p AND o' = p AND (0xFFF AND o')" using o(1) by (simp add: ac_simps)
    then show ?thesis using assms(1) by (simp add: and.assoc[symmetric])
  qed
  then have "p + o' = p OR o'" by (simp add: disjunctive_add_eq_or)
  then show "(p + o') AND 0xFFF = o'" "(p + o') AND ADDR_MASK = p"
    using o assms(1) addr_mask_or[OF assms(1) o(2)] by (simp_all add: bit.conj_disj_distrib2)
qed


lemma get_put_qword:
  fixes p a b v :: u64
  assumes "p AND 0xFFF = 0" "a < 0x1000" "b < 0x1000"
  shows "get_qword (p + a) (put_qword (p + b) v m) =
    (if unat a div 8 = unat b div 8 then v else get_qword (p + a) m)"
  unfolding get_qword_def put_qword_def page_offset[OF assms(1,2)] page_offset[OF assms(1,3)] by simp

text \<open>Writing fields at offsets that are multiples of 8 into one page.\<close>

definition fields_ok :: "u64 \<Rightarrow> u64 list \<Rightarrow> bool" where
  "fields_ok a offs \<longleftrightarrow> (\<forall>o' \<in> set offs. a + o' < 0x1000 \<and> (a + o') AND 7 = 0)"

lemma get_put_fields:
  fixes p a :: u64
  assumes "p AND 0xFFF = 0" "fields_ok a (map fst fs)" "a + x < 0x1000" "(a + x) AND 7 = 0"
  shows "get_qword (p + a + x) (put_fields (p + a) fs m) =
    (case map_of (rev fs) x of Some v \<Rightarrow> v | None \<Rightarrow> get_qword (p + a + x) m)"
  using assms(2)
proof (induction fs rule: rev_induct)
  case Nil
  show ?case by (simp add: put_fields_def)
next
  case (snoc f fs)
  obtain b v where f: "f = (b, v)" by fastforce
  have b: "a + b < 0x1000" "(a + b) AND 7 = 0" using snoc.prems by (simp_all add: f fields_ok_def)
  have IH: "get_qword (p + a + x) (put_fields (p + a) fs m) =
    (case map_of (rev fs) x of Some v \<Rightarrow> v | None \<Rightarrow> get_qword (p + a + x) m)"
    using snoc by (simp add: fields_ok_def)
  have m7: "unat (w :: u64) mod 8 = 0" if "w AND 7 = 0" for w
    using unat_and_mask[of w 3] that by (simp add: mask_numeral)
  have "unat (a + x) div 8 = unat (a + b) div 8 \<longleftrightarrow> unat (a + x) = unat (a + b)"
    using m7[OF assms(4)] m7[OF b(2)] by (metis mult_div_mod_eq)
  then have eq: "unat (a + x) div 8 = unat (a + b) div 8 \<longleftrightarrow> b = x" by (auto simp: word_unat_eq_iff[symmetric])
  have "put_fields (p + a) (fs @ [f]) m = put_qword (p + (a + b)) v (put_fields (p + a) fs m)"
    by (simp add: put_fields_def f add.assoc)
  then show ?case
    using get_put_qword[OF assms(1,3) b(1), of v "put_fields (p + a) fs m"] IH
    unfolding eq by (auto simp: f add.assoc)
qed

lemma mem_zero_fields: "mem_zero dst n m = put_fields dst (map (\<lambda>i. (of_nat i * 8, 0)) [0..<n]) m"
  by (simp add: mem_zero_def put_fields_def fold_map comp_def)

section \<open>The child of a fork\<close>

definition fork_fields :: "user_context \<Rightarrow> (u64 \<times> u64) list" where
  "fork_fields u = [(off_rip, ctx_rip u), (off_cs, 0x23), (off_rflags, ctx_rflags u), (off_rax, 0),
     (off_rbx, ctx_rbx u), (off_rbp, ctx_rbp u), (off_r12, ctx_r12 u), (off_r13, ctx_r13 u),
     (off_r14, ctx_r14 u), (off_r15, ctx_r15 u), (off_rsp, ctx_rsp u), (off_ss, 0x1B)]"

lemma fork_frame_read:
  fixes top x :: u64
  assumes top: "top AND 0xFFF = 0" and x: "x \<in> set (map (\<lambda>i. of_nat i * 8) [0..<22])"
  shows "get_qword (top - 176 + x) (put_fields (top - 176) (fork_fields u) (mem_zero (top - 176) 22 m)) =
    (case map_of (fork_fields u) x of Some v \<Rightarrow> v | None \<Rightarrow> 0)"
proof -
  let ?offs = "map (\<lambda>i. of_nat i * 8) [0..<22] :: u64 list"
  let ?zs = "map (\<lambda>i. (of_nat i * 8, 0)) [0..<22] :: (u64 \<times> u64) list"
  have p: "(top - 0x1000) AND 0xFFF = 0"
  proof -
    have m: "w AND 0xFFF = 0 \<longleftrightarrow> unat w mod 4096 = 0" for w :: u64
      using unat_and_mask[of w 12] by (simp add: mask_numeral word_unat_eq_iff)
    have "unat (top - 0x1000) = (unat top + 0xFFFFFFFFFFFFF000) mod 2 ^ 64"
      using unat_word_ariths(1)[of top "- 0x1000"] by simp
    then have "unat (top - 0x1000) mod 4096 = (unat top + 0xFFFFFFFFFFFFF000) mod 4096"
      by (simp only:) (simp add: mod_mod_cancel)
    also have "\<dots> = 0" using top unfolding m by (simp add: mod_add_left_eq[symmetric, of "unat top"])
    finally show ?thesis unfolding m .
  qed
  have eq: "top - 176 = (top - 0x1000) + 0xF50" by simp
  have o1: "fields_ok 0xF50 ?offs" by (simp add: fields_ok_def upt_rec)
  have ox: "0xF50 + x < 0x1000" "(0xF50 + x) AND 7 = 0" using o1 x by (simp_all only: fields_ok_def) 
  have sub: "set (map fst (fork_fields u)) \<subseteq> set ?offs" "set (map fst ?zs) \<subseteq> set ?offs"
    by (simp_all add: fork_fields_def upt_rec)
  have o2: "fields_ok 0xF50 (map fst (fork_fields u))" "fields_ok 0xF50 (map fst ?zs)"
    using o1 sub unfolding fields_ok_def by blast+
  have "distinct (map fst (fork_fields u))" by (simp add: fork_fields_def)
  then have r: "map_of (rev (fork_fields u)) = map_of (fork_fields u)" by (subst map_of_inject_set) (simp_all add: rev_map[symmetric])
  have "map_of (rev ?zs) x = Some 0" using x by (simp add: upt_rec) blast
  then show ?thesis
    using get_put_fields[OF p o2(1) ox, of "mem_zero (top - 176) 22 m"] get_put_fields[OF p o2(2) ox, of m]
    unfolding mem_zero_fields eq r by (simp split: option.split)
qed



end
