(* ===== verification/Fat_Names.thy ===== *)
theory Fat_Names
  imports Prelude
begin

text \<open>
  Names on a FAT volume (\<^verbatim>\<open>kernel/fs/fat32.c\<close>): the conversion between a path component and the
  eleven bytes of a short name, the comparison of short names, and the splitting of a path.
  C strings are the lists of their bytes before the NUL.
\<close>

section \<open>Operations\<close>

abbreviation DOT :: u8 where "DOT \<equiv> 46"
abbreviation SPACE :: u8 where "SPACE \<equiv> 32"
abbreviation SLASH :: u8 where "SLASH \<equiv> 47"
abbreviation VFS_MAX_NAME :: nat where "VFS_MAX_NAME \<equiv> 128"

definition to_upper :: "u8 \<Rightarrow> u8" where
  "to_upper c = (if 97 \<le> c \<and> c \<le> 122 then c - 32 else c)"

definition to_lower :: "u8 \<Rightarrow> u8" where
  "to_lower c = (if 65 \<le> c \<and> c \<le> 90 then c + 32 else c)"

text \<open>
  \<^verbatim>\<open>strncmp\<close> of this file: the comparison ends with 0 as soon as one of the strings ends.
\<close>

fun strncmp :: "u8 list \<Rightarrow> u8 list \<Rightarrow> nat \<Rightarrow> int" where
  "strncmp as bs 0 = 0"
| "strncmp [] bs (Suc n) = 0"
| "strncmp as [] (Suc n) = 0"
| "strncmp (a # as) (b # bs) (Suc n) =
     (if a = 0 \<or> b = 0 then 0 else if a \<noteq> b then sint a - sint b else strncmp as bs n)"

definition is_special_name :: "cstr \<Rightarrow> bool" where
  "is_special_name name \<longleftrightarrow>
     byte_at name 0 = DOT \<and> byte_at name 1 = 0 \<or>
     byte_at name 0 = DOT \<and> byte_at name 1 = DOT \<and> byte_at name 2 = 0"

text \<open>The first loop of \<^verbatim>\<open>string_to_fat32_name\<close>: the bytes stored from index \<open>j\<close> on, and \<^verbatim>\<open>str + i\<close>.\<close>

fun name_part :: "cstr \<Rightarrow> nat \<Rightarrow> u8 list \<times> cstr" where
  "name_part [] j = ([], [])"
| "name_part (c # s) j =
     (if c \<noteq> DOT \<and> j < 8
      then (case name_part s (j + 1) of (xs, r) \<Rightarrow> (to_upper c # xs, r))
      else ([], c # s))"

fun skip_to_ext :: "cstr \<Rightarrow> cstr" where
  "skip_to_ext [] = []"
| "skip_to_ext (c # s) = (if c \<noteq> DOT then skip_to_ext s else s)"

fun ext_part :: "cstr \<Rightarrow> nat \<Rightarrow> u8 list" where
  "ext_part [] j = []"
| "ext_part (c # s) j = (if j < 11 then to_upper c # ext_part s (j + 1) else [])"

definition pad :: "nat \<Rightarrow> u8 list \<Rightarrow> u8 list" where
  "pad n xs = xs @ replicate (n - length xs) SPACE"

definition string_to_fat32_name :: "cstr \<Rightarrow> u8 list" where
  "string_to_fat32_name str =
     (case name_part str 0 of (xs, r) \<Rightarrow> pad 8 xs @ pad 3 (ext_part (skip_to_ext r) 8))"

definition fat32_name_to_string :: "u8 list \<Rightarrow> cstr" where
  "fat32_name_to_string fat_name =
     (let base = takeWhile (\<lambda>c. c \<noteq> SPACE) (take 8 fat_name);
          ext = (if fat_name ! 8 \<noteq> SPACE
                 then DOT # takeWhile (\<lambda>c. c \<noteq> SPACE) (take 3 (drop 8 fat_name)) else [])
      in map to_lower (takeWhile (\<lambda>c. c \<noteq> 0) (base @ ext)))"

text \<open>\<^verbatim>\<open>split_path\<close>: the path of the parent and the last component, or \<open>None\<close> (an error).\<close>

definition last_slash :: "cstr \<Rightarrow> int" where
  "last_slash path =
     fold (\<lambda>i l. if path ! i = SLASH then int i else l) [0..<length path] (-1)"

definition split_path :: "cstr \<Rightarrow> (cstr \<times> cstr) option" where
  "split_path path =
     (if length path = 0 then None
      else let ls = last_slash path;
               parent = (if ls \<le> 0 then [SLASH] else take (nat ls) path);
               leaf = (if ls \<le> 0
                 then take (VFS_MAX_NAME - 1) (if byte_at path 0 = SLASH then drop 1 path else path)
                 else take (VFS_MAX_NAME - 1) (drop (nat ls + 1) path))
           in if ls > 0 \<and> nat ls \<ge> 256 then None
              else if leaf = [] then None else Some (parent, leaf))"

section \<open>Short names\<close>

lemma name_part_spec:
  "name_part s j = (map to_upper (take (8 - j) (takeWhile (\<lambda>c. c \<noteq> DOT) s)),
     drop (length (take (8 - j) (takeWhile (\<lambda>c. c \<noteq> DOT) s))) s)"
proof (induction s j rule: name_part.induct)
  case (2 c s j)
  have "8 - j = Suc (7 - j)" if "j < 8" using that by simp
  with 2 show ?case by (cases "j < 8") auto
qed simp

lemma skip_to_ext_spec: "skip_to_ext s = drop 1 (dropWhile (\<lambda>c. c \<noteq> DOT) s)"
  by (induction s) auto

lemma ext_part_spec: "ext_part s j = map to_upper (take (11 - j) s)"
proof (induction s j rule: ext_part.induct)
  case (2 c s j)
  have "11 - j = Suc (10 - j)" if "j < 11" using that by simp
  with 2 show ?case by (cases "j < 11") auto
qed simp

lemma dropWhile_drop_takeWhile:
  "dropWhile P (drop (length (take n (takeWhile P s))) s) = dropWhile P s"
proof (induction s arbitrary: n)
  case (Cons a s)
  show ?case
  proof (cases "P a \<and> 0 < n")
    case True
    then show ?thesis using Cons[of "n - 1"] by (cases n) simp_all
  qed auto
qed simp

text \<open>
  The short name of a component: the first eight bytes before the first dot and the first
  three after it, in upper case and padded with blanks.
\<close>

lemma string_to_fat32_name_eq:
  "string_to_fat32_name s =
     pad 8 (map to_upper (take 8 (takeWhile (\<lambda>c. c \<noteq> DOT) s))) @
     pad 3 (map to_upper (take 3 (drop 1 (dropWhile (\<lambda>c. c \<noteq> DOT) s))))"
  unfolding string_to_fat32_name_def name_part_spec skip_to_ext_spec ext_part_spec
  by (simp only: prod.case dropWhile_drop_takeWhile) simp

lemma length_pad: "length xs \<le> n \<Longrightarrow> length (pad n xs) = n"
  by (simp add: pad_def)

lemma length_string_to_fat32_name [simp]: "length (string_to_fat32_name s) = 11"
  by (simp add: string_to_fat32_name_eq length_pad)

text \<open>The components that survive the conversion: lower case, one dot, eight and three bytes.\<close>

definition short_char :: "u8 \<Rightarrow> bool" where
  "short_char c \<longleftrightarrow> c \<noteq> 0 \<and> c \<noteq> SPACE \<and> c \<noteq> DOT \<and> \<not> (65 \<le> c \<and> c \<le> 90)"

definition short_name :: "cstr \<Rightarrow> bool" where
  "short_name s \<longleftrightarrow> (\<exists>b e. (s = b \<and> e = [] \<or> s = b @ DOT # e \<and> e \<noteq> []) \<and>
     length b \<le> 8 \<and> length e \<le> 3 \<and> (\<forall>c\<in>set (b @ e). short_char c))"

lemma case_conversion:
  assumes "short_char c"
  shows "to_lower (to_upper c) = c" "to_upper c \<noteq> SPACE" "to_upper c \<noteq> 0"
proof -
  have sub: "unat (c - 32) = unat c - 32" if "97 \<le> c"
    using that unat_sub[of 32 c] by (simp add: word_le_nat_alt)
  have "to_lower (to_upper c) = c \<and> to_upper c \<noteq> SPACE \<and> to_upper c \<noteq> 0"
  proof (cases "97 \<le> c \<and> c \<le> 122")
    case True
    then have "65 \<le> unat (c - 32)" "unat (c - 32) \<le> 90" using sub by (auto simp: word_le_nat_alt)
    then have "65 \<le> c - 32" "c - 32 \<le> 90" by (simp_all add: word_le_nat_alt)
    then show ?thesis using True by (auto simp: to_upper_def to_lower_def word_le_nat_alt)
  next
    case False
    then have "to_upper c = c" by (auto simp: to_upper_def)
    with assms show ?thesis by (auto simp: short_char_def to_lower_def)
  qed
  then show "to_lower (to_upper c) = c" "to_upper c \<noteq> SPACE" "to_upper c \<noteq> 0" by simp_all
qed

lemma takeWhile_pad:
  "\<forall>x\<in>set xs. x \<noteq> SPACE \<Longrightarrow> takeWhile (\<lambda>c. c \<noteq> SPACE) (pad n xs) = xs"
  by (simp add: pad_def takeWhile_append2 takeWhile_replicate)

lemma nth_pad: "length xs \<le> n \<Longrightarrow> i < n \<Longrightarrow> pad n xs ! i = (if i < length xs then xs ! i else SPACE)"
  by (simp add: pad_def nth_append)

text \<open>
  C32 (roundtrip).  A lower-case component of at most eight bytes, one dot and three bytes is
  read back from a directory entry as it was written.
\<close>

theorem short_name_roundtrip:
  assumes "short_name s"
  shows "fat32_name_to_string (string_to_fat32_name s) = s"
proof -
  obtain b e where s: "s = b \<and> e = [] \<or> s = b @ DOT # e \<and> e \<noteq> []" and len: "length b \<le> 8" "length e \<le> 3"
    and ok: "\<forall>c\<in>set (b @ e). short_char c"
    using assms by (auto simp: short_name_def)
  have nd: "\<forall>c\<in>set b. c \<noteq> DOT" using ok by (auto simp: short_char_def)
  then have dw: "dropWhile (\<lambda>c. c \<noteq> DOT) b = []" by simp
  have tw: "takeWhile (\<lambda>c. c \<noteq> DOT) s = b" "drop 1 (dropWhile (\<lambda>c. c \<noteq> DOT) s) = e"
    using s nd by (auto simp: takeWhile_append2 dropWhile_append2 dw)
  let ?B = "map to_upper b" and ?E = "map to_upper e"
  have fn: "string_to_fat32_name s = pad 8 ?B @ pad 3 ?E"
    using len by (simp add: string_to_fat32_name_eq tw[simplified])
  have up: "\<forall>x\<in>set ?B. x \<noteq> SPACE \<and> x \<noteq> 0" "\<forall>x\<in>set ?E. x \<noteq> SPACE \<and> x \<noteq> 0"
    using ok case_conversion by auto
  have l: "length (pad 8 ?B) = 8" "length (pad 3 ?E) = 3" using len by (simp_all add: length_pad)
  have h: "string_to_fat32_name s ! 8 = (if e = [] then SPACE else hd ?E)"
    using len l unfolding fn by (cases e) (simp_all add: nth_append nth_pad)
  have e0: "hd ?E \<noteq> SPACE" if "e \<noteq> []" using that up(2) by (cases e) auto
  have base: "takeWhile (\<lambda>c. c \<noteq> SPACE) (take 8 (string_to_fat32_name s)) = ?B"
    unfolding fn using l up(1) by (simp add: takeWhile_pad)
  have ext: "takeWhile (\<lambda>c. c \<noteq> SPACE) (take 3 (drop 8 (string_to_fat32_name s))) = ?E"
    unfolding fn using l up(2) by (simp add: takeWhile_pad)
  have all: "takeWhile (\<lambda>c. c \<noteq> 0) (?B @ (if e = [] then [] else DOT # ?E)) = ?B @ (if e = [] then [] else DOT # ?E)"
    using up by (intro takeWhile_eq_all_conv[THEN iffD2]) auto
  have low: "map to_lower ?B = b" "map to_lower ?E = e"
    using ok case_conversion(1) by (auto simp: map_idI)
  have dot: "to_lower DOT = DOT" by (simp add: to_lower_def)
  have full: "?B @ (if string_to_fat32_name s ! 8 \<noteq> SPACE then DOT # ?E else []) = ?B @ (if e = [] then [] else DOT # ?E)"
    unfolding h using e0 by simp
  have "fat32_name_to_string (string_to_fat32_name s) = map to_lower (?B @ (if e = [] then [] else DOT # ?E))"
    unfolding fat32_name_to_string_def Let_def base ext full all ..
  also have "\<dots> = b @ (if e = [] then [] else DOT # e)" by (simp only: map_append low list.map dot if_distrib[of "map to_lower"])
  also have "\<dots> = s" using s by auto
  finally show ?thesis .
qed

theorem short_name_roundtrip_witness:
  "fat32_name_to_string (string_to_fat32_name (bytes_of ''readme.txt'')) = bytes_of ''readme.txt''"
proof (rule short_name_roundtrip)
  show "short_name (bytes_of ''readme.txt'')"
    unfolding short_name_def
    by (rule exI[of _ "bytes_of ''readme''"], rule exI[of _ "bytes_of ''txt''"]) (simp add: short_char_def)
qed

end
