(* ===== verification/Fat_Table.thy ===== *)
theory Fat_Table
  imports Fat_Names "HOL-Library.Signed_Division" "HOL-Library.Monad_Syntax"
begin

text \<open>
  The file system state and the allocation table (\<^verbatim>\<open>kernel/fs/fat32.c\<close>).  The disk is an array of
  512-byte sectors addressed by 28-bit LBAs, as the ATA driver presents it; a cluster is read
  into and written from the buffer \<^verbatim>\<open>cluster_buffer\<close>, the table goes through \<^verbatim>\<open>sector_buffer\<close>.
  A walk along a cluster chain need not end on a damaged table, so the operations that walk
  answer an \<open>option\<close>: \<open>None\<close> is a loop that never ends.
\<close>

section \<open>State\<close>

type_synonym disk = "nat \<Rightarrow> bytes"

record fat32_fs =
  fat_start_lba :: u32
  cluster_start_lba :: u32
  sectors_per_cluster :: u32
  root_cluster :: u32
  bytes_per_sector :: u32
  bytes_per_cluster :: u32
  total_clusters :: u32

text \<open>Function pointers of a node are either null or the operation of this file system.\<close>

record vfs_node =
  v_name :: cstr
  v_flags :: u32
  v_size :: u32
  v_inode :: u32
  v_read :: bool
  v_write :: bool
  v_readdir :: bool
  v_finddir :: bool
  private_data :: u32

record dirent =
  d_name :: cstr
  d_inode :: u32

record fat =
  disk :: disk
  fs :: fat32_fs
  root_node :: vfs_node
  sector_buffer :: bytes
  cluster_buffer :: bytes
  dirent_buf :: dirent
  node_cache :: "nat \<Rightarrow> vfs_node"
  node_cache_used :: nat

abbreviation CLUSTER_BUFFER_SIZE :: u32 where "CLUSTER_BUFFER_SIZE \<equiv> 4096"
abbreviation END_OF_CHAIN :: u32 where "END_OF_CHAIN \<equiv> 0x0FFFFFFF"

abbreviation FAT32_E_OK :: c_int where "FAT32_E_OK \<equiv> 0"
abbreviation FAT32_E_NOENT :: c_int where "FAT32_E_NOENT \<equiv> -2"
abbreviation FAT32_E_EXIST :: c_int where "FAT32_E_EXIST \<equiv> -3"
abbreviation FAT32_E_NOTDIR :: c_int where "FAT32_E_NOTDIR \<equiv> -4"
abbreviation FAT32_E_ISDIR :: c_int where "FAT32_E_ISDIR \<equiv> -5"
abbreviation FAT32_E_NOTEMPTY :: c_int where "FAT32_E_NOTEMPTY \<equiv> -6"
abbreviation FAT32_E_INVAL :: c_int where "FAT32_E_INVAL \<equiv> -8"
abbreviation FAT32_E_NOSPC :: c_int where "FAT32_E_NOSPC \<equiv> -9"

section \<open>Sectors\<close>

text \<open>
  What \<^verbatim>\<open>ata_read_sectors\<close> and \<^verbatim>\<open>ata_write_sectors\<close> do to the disk: \<open>count\<close> sectors from the low 28
  bits of the address on; a count of 0 is refused.
\<close>

definition lba28 :: "u32 \<Rightarrow> nat" where
  "lba28 lba = unat (lba AND 0x0FFFFFFF)"

definition disk_read :: "u32 \<Rightarrow> u8 \<Rightarrow> disk \<Rightarrow> bytes \<Rightarrow> c_int \<times> bytes" where
  "disk_read lba count d buf =
     (if count = 0 then (-1, buf)
      else (0, \<lambda>k. if k < unat count * 512 then d (lba28 lba + k div 512) (k mod 512) else buf k))"

definition disk_write :: "u32 \<Rightarrow> u8 \<Rightarrow> bytes \<Rightarrow> disk \<Rightarrow> c_int \<times> disk" where
  "disk_write lba count buf d =
     (if count = 0 then (-1, d)
      else (0, \<lambda>s. if lba28 lba \<le> s \<and> s < lba28 lba + unat count
                   then (\<lambda>k. if k < 512 then buf (512 * (s - lba28 lba) + k) else d s k) else d s))"

section \<open>Clusters\<close>

definition cluster_to_lba :: "u32 \<Rightarrow> 'a fat_scheme \<Rightarrow> u32" where
  "cluster_to_lba cluster f = cluster_start_lba (fs f) + (cluster - 2) * sectors_per_cluster (fs f)"

text \<open>\<^verbatim>\<open>read_cluster(cluster, cluster_buffer)\<close> and its counterpart.\<close>

definition cluster_io_ok :: "'a fat_scheme \<Rightarrow> bool" where
  "cluster_io_ok f \<longleftrightarrow> \<not> (sectors_per_cluster (fs f) = 0 \<or> bytes_per_cluster (fs f) = 0) \<and>
     \<not> bytes_per_cluster (fs f) > CLUSTER_BUFFER_SIZE"

definition read_cluster :: "u32 \<Rightarrow> 'a fat_scheme \<Rightarrow> c_int \<times> 'a fat_scheme" where
  "read_cluster cluster f =
     (if \<not> cluster_io_ok f then (FAT32_E_INVAL, f)
      else case disk_read (cluster_to_lba cluster f) (ucast (sectors_per_cluster (fs f))) (disk f) (cluster_buffer f) of
             (r, b) \<Rightarrow> (r, f\<lparr>cluster_buffer := b\<rparr>))"

definition write_cluster :: "u32 \<Rightarrow> 'a fat_scheme \<Rightarrow> c_int \<times> 'a fat_scheme" where
  "write_cluster cluster f =
     (if \<not> cluster_io_ok f then (FAT32_E_INVAL, f)
      else case disk_write (cluster_to_lba cluster f) (ucast (sectors_per_cluster (fs f))) (cluster_buffer f) (disk f) of
             (r, d) \<Rightarrow> (r, f\<lparr>disk := d\<rparr>))"

text \<open>The same without the result, which most callers ignore.\<close>

definition load_cluster :: "u32 \<Rightarrow> 'a fat_scheme \<Rightarrow> 'a fat_scheme" where
  "load_cluster cluster f = snd (read_cluster cluster f)"

definition store_cluster :: "u32 \<Rightarrow> 'a fat_scheme \<Rightarrow> 'a fat_scheme" where
  "store_cluster cluster f = snd (write_cluster cluster f)"

definition edit_buffer :: "(bytes \<Rightarrow> bytes) \<Rightarrow> 'a fat_scheme \<Rightarrow> 'a fat_scheme" where
  "edit_buffer g f = f\<lparr>cluster_buffer := g (cluster_buffer f)\<rparr>"

section \<open>The allocation table\<close>

definition fat_sector :: "u32 \<Rightarrow> 'a fat_scheme \<Rightarrow> u32" where
  "fat_sector cluster f = fat_start_lba (fs f) + (cluster * 4) div bytes_per_sector (fs f)"

definition fat_offset :: "u32 \<Rightarrow> 'a fat_scheme \<Rightarrow> nat" where
  "fat_offset cluster f = unat ((cluster * 4) mod bytes_per_sector (fs f))"

definition load_sector :: "u32 \<Rightarrow> 'a fat_scheme \<Rightarrow> 'a fat_scheme" where
  "load_sector lba f = f\<lparr>sector_buffer := snd (disk_read lba 1 (disk f) (sector_buffer f))\<rparr>"

definition get_next_cluster :: "u32 \<Rightarrow> 'a fat_scheme \<Rightarrow> u32 \<times> 'a fat_scheme" where
  "get_next_cluster cluster f =
     (let f = load_sector (fat_sector cluster f) f
      in (le32 (sector_buffer f) (fat_offset cluster f) AND 0x0FFFFFFF, f))"

definition set_fat_entry :: "u32 \<Rightarrow> u32 \<Rightarrow> 'a fat_scheme \<Rightarrow> 'a fat_scheme" where
  "set_fat_entry cluster v f =
     (let f = load_sector (fat_sector cluster f) f;
          f = f\<lparr>sector_buffer := put32 (sector_buffer f) (fat_offset cluster f) v\<rparr>
      in f\<lparr>disk := snd (disk_write (fat_sector cluster f) 1 (sector_buffer f) (disk f))\<rparr>)"

definition is_end_of_chain :: "u32 \<Rightarrow> bool" where
  "is_end_of_chain cluster \<longleftrightarrow> cluster \<ge> 0x0FFFFFF8"

text \<open>The loop of \<^verbatim>\<open>find_free_cluster\<close>, over the clusters that are left.\<close>

fun free_scan :: "nat list \<Rightarrow> 'a fat_scheme \<Rightarrow> u32 \<times> 'a fat_scheme" where
  "free_scan [] f = (0, f)"
| "free_scan (i # is) f =
     (case get_next_cluster (of_nat i) f of
        (e, f) \<Rightarrow> if e = 0 then (of_nat i, f) else free_scan is f)"

definition find_free_cluster :: "'a fat_scheme \<Rightarrow> u32 \<times> 'a fat_scheme" where
  "find_free_cluster f = free_scan [2..<unat (total_clusters (fs f))] f"

text \<open>The loop of \<^verbatim>\<open>free_cluster_chain\<close>: the cluster it stops at.\<close>

partial_function (option) free_chain_loop :: "u32 \<Rightarrow> 'a fat_scheme \<Rightarrow> (u32 \<times> 'a fat_scheme) option" where
  "free_chain_loop cluster f =
     (if is_end_of_chain cluster \<or> cluster = 0 then Some (cluster, f)
      else case get_next_cluster cluster f of (nxt, f) \<Rightarrow>
        let f = set_fat_entry cluster 0 f
        in if nxt = cluster then Some (cluster, f) else free_chain_loop nxt f)"

definition free_cluster_chain :: "u32 \<Rightarrow> 'a fat_scheme \<Rightarrow> 'a fat_scheme option" where
  "free_cluster_chain cluster f =
     (if cluster < 2 then Some f
      else if cluster = root_cluster (fs f) then Some f
      else case free_chain_loop cluster f of
             None \<Rightarrow> None
           | Some (cluster, f) \<Rightarrow>
               Some (if \<not> is_end_of_chain cluster \<and> cluster \<ge> 2 then set_fat_entry cluster 0 f else f))"

definition alloc_cluster_zeroed :: "'a fat_scheme \<Rightarrow> u32 \<times> 'a fat_scheme" where
  "alloc_cluster_zeroed f =
     (case find_free_cluster f of (cl, f) \<Rightarrow>
        if cl = 0 then (0, f)
        else let f = set_fat_entry cl END_OF_CHAIN f;
                 f = edit_buffer (\<lambda>b k. if k < unat (bytes_per_cluster (fs f)) then 0 else b k) f
             in (cl, store_cluster cl f))"

text \<open>The loop of \<^verbatim>\<open>append_cluster\<close>: the last cluster, or \<open>None\<close> when the guard trips.\<close>

fun append_loop :: "nat \<Rightarrow> u32 \<Rightarrow> 'a fat_scheme \<Rightarrow> u32 option \<times> 'a fat_scheme" where
  "append_loop left cur f =
     (case get_next_cluster cur f of (nxt, f) \<Rightarrow>
        if is_end_of_chain nxt then (Some cur, f)
        else (case get_next_cluster cur f of (nxt, f) \<Rightarrow>
          case left of 0 \<Rightarrow> (None, f) | Suc left \<Rightarrow> append_loop left nxt f))"

definition append_cluster :: "u32 \<Rightarrow> u32 \<Rightarrow> 'a fat_scheme \<Rightarrow> c_int \<times> 'a fat_scheme" where
  "append_cluster head new_cluster f =
     (if head < 2 \<or> new_cluster < 2 then (FAT32_E_INVAL, f)
      else case append_loop (unat (total_clusters (fs f))) head f of
             (None, f) \<Rightarrow> (FAT32_E_INVAL, f)
           | (Some cur, f) \<Rightarrow>
               (FAT32_E_OK, set_fat_entry new_cluster END_OF_CHAIN (set_fat_entry cur new_cluster f)))"

section \<open>Mounting\<close>

text \<open>\<^verbatim>\<open>fat32_init\<close>: the fields of the boot sector at their offsets in \<^verbatim>\<open>struct fat32_bpb\<close>.\<close>

definition empty_node :: vfs_node where
  "empty_node = \<lparr>v_name = [], v_flags = 0, v_size = 0, v_inode = 0, v_read = False, v_write = False,
     v_readdir = False, v_finddir = False, private_data = 0\<rparr>"

definition fat32_init :: "u32 \<Rightarrow> 'a fat_scheme \<Rightarrow> c_int \<times> 'a fat_scheme" where
  "fat32_init partition_lba f =
     (let f = load_sector partition_lba f;
          b = sector_buffer f;
          spc = b 13; reserved = ucast (le16 b 14) :: u32; fats = ucast (b 16) :: u32;
          fat_size = le32 b 36
      in if le16 b 22 \<noteq> 0 \<or> fat_size = 0 then (-1, f)
         else if le16 b 11 \<noteq> 512 then (-1, f)
         else if spc = 0 then (-1, f)
         else if spc AND (spc - 1) \<noteq> 0 then (-1, f)
         else let f = f\<lparr>fs := (fs f)\<lparr>bytes_per_sector := ucast (le16 b 11), sectors_per_cluster := ucast spc,
                          bytes_per_cluster := ucast (le16 b 11) * ucast spc\<rparr>\<rparr>
         in if bytes_per_cluster (fs f) > CLUSTER_BUFFER_SIZE then (-1, f)
         else let start = partition_lba + reserved;
                  data_sectors = le32 b 32 - (reserved + fats * fat_size);
                  f = f\<lparr>fs := (fs f)\<lparr>fat_start_lba := start, cluster_start_lba := start + fats * fat_size,
                          root_cluster := le32 b 44,
                          total_clusters := of_int (sint data_sectors sdiv int (unat spc))\<rparr>,
                        root_node := empty_node\<lparr>v_name := [SLASH], v_flags := 2, v_inode := le32 b 44,
                          v_readdir := True, v_finddir := True\<rparr>\<rparr>
         in (0, f))"

end
