(* ===== verification/Fat_Chain.thy ===== *)
theory Fat_Chain
  imports Fat_Table
begin

text \<open>
  What the table and cluster operations of \<^verbatim>\<open>Fat_Table\<close> do, seen through two functions of the
  state: \<open>fat_of\<close>, the allocation table, and \<open>cdata\<close>, the bytes of a cluster; and the cluster
  chains of files and directories.  \<open>fat_ok\<close> is the layout \<^verbatim>\<open>fat32_init\<close> sets up: the table lies
  before the data area, clusters do not overlap, and everything is within reach of 28-bit
  addresses.
\<close>

section \<open>Layout\<close>

definition fat_ok :: "'a fat_scheme \<Rightarrow> bool" where
  "fat_ok f \<longleftrightarrow> bytes_per_sector (fs f) = 512 \<and>
     0 < unat (sectors_per_cluster (fs f)) \<and> unat (sectors_per_cluster (fs f)) \<le> 8 \<and>
     bytes_per_cluster (fs f) = 512 * sectors_per_cluster (fs f) \<and>
     unat (fat_start_lba (fs f)) + (4 * (unat (total_clusters (fs f)) + 2)) div 512 < unat (cluster_start_lba (fs f)) \<and>
     unat (cluster_start_lba (fs f)) + unat (total_clusters (fs f)) * unat (sectors_per_cluster (fs f)) < 2 ^ 28"

definition valid_cluster :: "'a fat_scheme \<Rightarrow> u32 \<Rightarrow> bool" where
  "valid_cluster f c \<longleftrightarrow> 2 \<le> unat c \<and> unat c < unat (total_clusters (fs f)) + 2"

definition fat_of :: "'a fat_scheme \<Rightarrow> u32 \<Rightarrow> u32" where
  "fat_of f c = le32 (disk f (lba28 (fat_sector c f))) (fat_offset c f) AND 0x0FFFFFFF"

definition cdata :: "'a fat_scheme \<Rightarrow> u32 \<Rightarrow> u8 list" where
  "cdata f c = map (\<lambda>k. disk f (lba28 (cluster_to_lba c f) + k div 512) (k mod 512))
     [0..<unat (bytes_per_cluster (fs f))]"

abbreviation bpc :: "'a fat_scheme \<Rightarrow> nat" where "bpc f \<equiv> unat (bytes_per_cluster (fs f))"
abbreviation spc :: "'a fat_scheme \<Rightarrow> nat" where "spc f \<equiv> unat (sectors_per_cluster (fs f))"

lemma fat_okD:
  assumes "fat_ok f"
  shows "bytes_per_sector (fs f) = 512" "0 < spc f" "spc f \<le> 8" "bpc f = 512 * spc f"
    "unat (total_clusters (fs f)) < 2 ^ 28" "unat (fat_start_lba (fs f)) < 2 ^ 28" "unat (cluster_start_lba (fs f)) < 2 ^ 28"
    "cluster_io_ok f"
proof -
  note ok = assms[unfolded fat_ok_def]
  show 1: "bytes_per_sector (fs f) = 512" "0 < spc f" "spc f \<le> 8" using ok by simp_all
  have m: "unat (512 * sectors_per_cluster (fs f)) = 512 * spc f"
    using 1 by (subst unat_mult_small) simp_all
  then show 2: "bpc f = 512 * spc f" using ok by simp
  have "unat (total_clusters (fs f)) * 1 \<le> unat (total_clusters (fs f)) * spc f" using 1 by (intro mult_le_mono) simp_all
  then show "unat (total_clusters (fs f)) < 2 ^ 28" "unat (fat_start_lba (fs f)) < 2 ^ 28" "unat (cluster_start_lba (fs f)) < 2 ^ 28"
    using ok by linarith+
  show "cluster_io_ok f" using 1 2 by (auto simp: cluster_io_ok_def word_less_nat_alt unat_eq_0[symmetric])
qed

lemma lba28_small: "unat l < 2 ^ 28 \<Longrightarrow> lba28 l = unat l"
  using unat_and_mask[of l 28] by (simp add: lba28_def mask_numeral)

lemma fat_place:
  assumes "fat_ok f" "valid_cluster f c"
  shows "lba28 (fat_sector c f) = unat (fat_start_lba (fs f)) + 4 * unat c div 512"
    "fat_offset c f = 4 * unat c mod 512" "lba28 (fat_sector c f) < unat (cluster_start_lba (fs f))"
proof -
  note ok = assms(1)[unfolded fat_ok_def] and D = fat_okD[OF assms(1)]
  have c: "unat c < 2 ^ 28 + 2" using assms(2) D(5) by (simp add: valid_cluster_def)
  then have m: "unat (c * 4) = 4 * unat c" by (subst unat_mult_small) simp_all
  then show "fat_offset c f = 4 * unat c mod 512" by (simp add: fat_offset_def D(1) unat_mod)
  have d: "unat (c * 4 div 512) = 4 * unat c div 512" by (simp add: unat_div m)
  have le: "4 * unat c div 512 \<le> (4 * (unat (total_clusters (fs f)) + 2)) div 512"
    using assms(2) by (intro div_le_mono) (simp add: valid_cluster_def)
  then have s: "unat (fat_sector c f) = unat (fat_start_lba (fs f)) + 4 * unat c div 512"
    using ok D(7) by (simp add: fat_sector_def D(1)) (subst unat_plus_small, simp_all add: d)
  moreover from s le ok have lt: "unat (fat_sector c f) < unat (cluster_start_lba (fs f))" by linarith
  ultimately show "lba28 (fat_sector c f) = unat (fat_start_lba (fs f)) + 4 * unat c div 512"
    "lba28 (fat_sector c f) < unat (cluster_start_lba (fs f))"
    using D(7) by (simp_all add: lba28_small)
qed

lemma cluster_place:
  assumes "fat_ok f" "valid_cluster f c"
  shows "lba28 (cluster_to_lba c f) = unat (cluster_start_lba (fs f)) + (unat c - 2) * spc f"
proof -
  note ok = assms(1)[unfolded fat_ok_def] and D = fat_okD[OF assms(1)]
  have c2: "unat (c - 2) = unat c - 2" using assms(2) unat_sub[of 2 c] by (simp add: valid_cluster_def word_le_nat_alt)
  have "(unat c - 2) * spc f \<le> unat (total_clusters (fs f)) * spc f"
    using assms(2) by (intro mult_le_mono) (auto simp: valid_cluster_def)
  then have le: "unat (cluster_start_lba (fs f)) + (unat c - 2) * spc f < 2 ^ 28" using ok by linarith
  then have m: "unat ((c - 2) * sectors_per_cluster (fs f)) = (unat c - 2) * spc f"
    by (subst unat_mult_small) (simp_all add: c2)
  have "unat (cluster_to_lba c f) = unat (cluster_start_lba (fs f)) + (unat c - 2) * spc f"
    unfolding cluster_to_lba_def using le by (subst unat_plus_small) (simp_all add: m)
  then show ?thesis using le by (simp add: lba28_small)
qed

section \<open>Reading and writing the table\<close>

lemma load_sector_simps [simp]:
  "disk (load_sector l f) = disk f" "fs (load_sector l f) = fs f" "root_node (load_sector l f) = root_node f"
  "cluster_buffer (load_sector l f) = cluster_buffer f" "dirent_buf (load_sector l f) = dirent_buf f"
  "node_cache (load_sector l f) = node_cache f" "node_cache_used (load_sector l f) = node_cache_used f"
  by (simp_all add: load_sector_def)

text \<open>What the views depend on.\<close>

lemma view_cong:
  assumes "disk f' = disk f" "fs f' = fs f"
  shows "fat_ok f' = fat_ok f" "valid_cluster f' c = valid_cluster f c" "fat_of f' c = fat_of f c"
    "cdata f' c = cdata f c" "cluster_to_lba c f' = cluster_to_lba c f" "fat_sector c f' = fat_sector c f"
    "fat_offset c f' = fat_offset c f" "cluster_io_ok f' = cluster_io_ok f"
  using assms by (simp_all add: fat_ok_def valid_cluster_def fat_of_def cdata_def fat_sector_def fat_offset_def
      cluster_to_lba_def cluster_io_ok_def)

lemmas load_sector_view [simp] = view_cong[of "load_sector l f" f for l f, OF load_sector_simps(1,2)]

lemma le32_below: "(\<And>k. k < n \<Longrightarrow> b k = b' k) \<Longrightarrow> off + 4 \<le> n \<Longrightarrow> le32 b off = le32 b' off"
  by (rule le32_cong) simp

lemma get_next_cluster_eq:
  assumes "bytes_per_sector (fs f) = 512"
  shows "get_next_cluster c f = (fat_of f c, load_sector (fat_sector c f) f)"
proof -
  have "unat (c * 4 mod 512) mod 4 = 0"
  proof -
    have "unat (c * 4) mod 4 = (unat c * 4 mod 2 ^ 32) mod 4" by (simp add: unat_word_ariths)
    also have "\<dots> = 0" by (simp add: mod_mod_cancel)
    finally show ?thesis by (simp add: unat_mod mod_mod_cancel)
  qed
  moreover have "unat (c * 4 mod 512) < 512" by (simp add: unat_mod)
  ultimately have "fat_offset c f + 4 \<le> 512" by (simp add: fat_offset_def assms) presburger
  then have "le32 (sector_buffer (load_sector (fat_sector c f) f)) (fat_offset c f) =
      le32 (disk f (lba28 (fat_sector c f))) (fat_offset c f)"
    by (intro le32_below[of 512]) (simp_all add: load_sector_def disk_read_def)
  then show ?thesis by (simp add: get_next_cluster_def Let_def fat_of_def)
qed

lemma disk_write_apply:
  "snd (disk_write lba c b d) s k =
     (if c \<noteq> 0 \<and> lba28 lba \<le> s \<and> s < lba28 lba + unat c \<and> k < 512 then b (512 * (s - lba28 lba) + k) else d s k)"
  by (simp add: disk_write_def)

lemma set_fat_entry_simps [simp]:
  "fs (set_fat_entry c v f) = fs f" "root_node (set_fat_entry c v f) = root_node f"
  "cluster_buffer (set_fat_entry c v f) = cluster_buffer f" "dirent_buf (set_fat_entry c v f) = dirent_buf f"
  "node_cache (set_fat_entry c v f) = node_cache f" "node_cache_used (set_fat_entry c v f) = node_cache_used f"
  by (simp_all add: set_fat_entry_def Let_def)

lemma set_fat_entry_disk:
  assumes "fat_offset c f + 4 \<le> 512"
  shows "disk (set_fat_entry c v f) s k =
    (if s = lba28 (fat_sector c f) \<and> k < 512 then put32 (disk f s) (fat_offset c f) v k else disk f s k)"
proof -
  have sec: "fat_sector c (f\<lparr>sector_buffer := b\<rparr>) = fat_sector c f" "fat_offset c (f\<lparr>sector_buffer := b\<rparr>) = fat_offset c f" for b
    by (simp_all add: fat_sector_def fat_offset_def)
  show ?thesis
    using assms
    by (simp add: set_fat_entry_def Let_def disk_write_apply put32_apply sec load_sector_def disk_read_def)
qed

lemma fat_ok_fs: "fs f' = fs f \<Longrightarrow> fat_ok f' = fat_ok f" "fs f' = fs f \<Longrightarrow> valid_cluster f' c = valid_cluster f c"
  "fs f' = fs f \<Longrightarrow> fat_sector c f' = fat_sector c f" "fs f' = fs f \<Longrightarrow> fat_offset c f' = fat_offset c f"
  "fs f' = fs f \<Longrightarrow> cluster_to_lba c f' = cluster_to_lba c f"
  by (simp_all add: fat_ok_def valid_cluster_def fat_sector_def fat_offset_def cluster_to_lba_def)

lemma offset_bound: "fat_ok f \<Longrightarrow> valid_cluster f c \<Longrightarrow> fat_offset c f + 4 \<le> 512 \<and> fat_offset c f mod 4 = 0"
proof -
  assume "fat_ok f" "valid_cluster f c"
  then have e: "fat_offset c f = 4 * unat c mod 512" by (rule fat_place)
  have "4 * unat c mod 512 = 4 * (unat c mod 128)" by (simp add: mult_mod_right)
  then show ?thesis unfolding e by simp
qed

text \<open>Writing an entry changes that entry and nothing else.\<close>

lemma set_fat_entry_view:
  assumes ok: "fat_ok f" and c: "valid_cluster f c"
  shows "valid_cluster f c' \<Longrightarrow> fat_of (set_fat_entry c v f) c' = (if c' = c then v AND 0x0FFFFFFF else fat_of f c')"
    and "valid_cluster f c' \<Longrightarrow> cdata (set_fat_entry c v f) c' = cdata f c'"
    and "fat_ok (set_fat_entry c v f)" "valid_cluster (set_fat_entry c v f) = valid_cluster f"
proof -
  note ob = offset_bound[OF ok c]
  note E = fat_ok_fs[OF set_fat_entry_simps(1)[of c v f]]
  show "fat_ok (set_fat_entry c v f)" "valid_cluster (set_fat_entry c v f) = valid_cluster f"
    using ok by (simp_all add: E fun_eq_iff)
  show "fat_of (set_fat_entry c v f) c' = (if c' = c then v AND 0x0FFFFFFF else fat_of f c')" if c': "valid_cluster f c'"
  proof (cases "lba28 (fat_sector c' f) = lba28 (fat_sector c f)")
    case same: True
    let ?s = "lba28 (fat_sector c f)"
    note ob' = offset_bound[OF ok c']
    have "le32 (disk (set_fat_entry c v f) ?s) (fat_offset c' f) = le32 (put32 (disk f ?s) (fat_offset c f) v) (fat_offset c' f)"
      using ob' ob by (intro le32_below[of 512]) (simp_all add: set_fat_entry_disk)
    also have "\<dots> = (if c' = c then v else le32 (disk f ?s) (fat_offset c' f))"
    proof (cases "c' = c")
      case False
      then have "unat c' \<noteq> unat c" by (simp add: word_unat_eq_iff)
      moreover have "4 * unat c' div 512 = 4 * unat c div 512"
        using same fat_place(1)[OF ok c] fat_place(1)[OF ok c'] by linarith
      ultimately have "4 * unat c' mod 512 \<noteq> 4 * unat c mod 512"
        by (metis mult_cancel1 div_mult_mod_eq zero_neq_numeral)
      then have "fat_offset c' f \<noteq> fat_offset c f" using fat_place(2)[OF ok c] fat_place(2)[OF ok c'] by simp
      then have "fat_offset c' f + 4 \<le> fat_offset c f \<or> fat_offset c f + 4 \<le> fat_offset c' f"
        using ob ob' by presburger
      then show ?thesis using False by (simp add: buf_simps)
    qed (simp add: buf_simps)
    finally show ?thesis by (simp add: fat_of_def E same)
  next
    case False
    then have "disk (set_fat_entry c v f) (lba28 (fat_sector c' f)) = disk f (lba28 (fat_sector c' f))"
      using ob by (auto simp: fun_eq_iff set_fat_entry_disk)
    moreover have "c' \<noteq> c" using False by auto
    ultimately show ?thesis by (simp add: fat_of_def E)
  qed
  show "cdata (set_fat_entry c v f) c' = cdata f c'" if c': "valid_cluster f c'"
  proof -
    have "lba28 (cluster_to_lba c' f) + j \<noteq> lba28 (fat_sector c f)" for j
      using fat_place(3)[OF ok c] cluster_place[OF ok c'] by linarith
    then show ?thesis using ob by (simp add: cdata_def E set_fat_entry_disk)
  qed
qed

section \<open>Reading and writing clusters\<close>

lemma load_cluster_simps [simp]:
  "disk (load_cluster c f) = disk f" "fs (load_cluster c f) = fs f" "root_node (load_cluster c f) = root_node f"
  "sector_buffer (load_cluster c f) = sector_buffer f" "dirent_buf (load_cluster c f) = dirent_buf f"
  "node_cache (load_cluster c f) = node_cache f" "node_cache_used (load_cluster c f) = node_cache_used f"
  by (simp_all add: load_cluster_def read_cluster_def split: prod.splits)

lemmas load_cluster_view [simp] = view_cong[of "load_cluster c f" f for c f, OF load_cluster_simps(1,2)]

lemma store_cluster_simps [simp]:
  "cluster_buffer (store_cluster c f) = cluster_buffer f" "fs (store_cluster c f) = fs f"
  "root_node (store_cluster c f) = root_node f" "sector_buffer (store_cluster c f) = sector_buffer f"
  "dirent_buf (store_cluster c f) = dirent_buf f"
  "node_cache (store_cluster c f) = node_cache f" "node_cache_used (store_cluster c f) = node_cache_used f"
  by (simp_all add: store_cluster_def write_cluster_def split: prod.splits)

lemma spc8: "fat_ok f \<Longrightarrow> unat (ucast (sectors_per_cluster (fs f)) :: u8) = spc f \<and> (ucast (sectors_per_cluster (fs f)) :: u8) \<noteq> 0"
proof -
  assume "fat_ok f"
  note D = fat_okD[OF this]
  have "unat (ucast (sectors_per_cluster (fs f)) :: u8) = spc f" using D(3) by (simp add: unsigned_ucast_eq take_bit_nat_eq_self)
  then show ?thesis using D(2) by (auto simp: unat_eq_0[symmetric])
qed

lemma get_list_load: "fat_ok f \<Longrightarrow> get_list (cluster_buffer (load_cluster c f)) 0 (bpc f) = cdata f c"
proof -
  assume ok: "fat_ok f"
  note D = fat_okD[OF ok] and S = spc8[OF ok]
  have "cluster_buffer (load_cluster c f) k = disk f (lba28 (cluster_to_lba c f) + k div 512) (k mod 512)" if "k < bpc f" for k
    using that D(4,8) S by (simp add: load_cluster_def read_cluster_def disk_read_def)
  then show ?thesis by (simp add: get_list_def cdata_def)
qed

lemma length_cdata [simp]: "length (cdata f c) = bpc f"
  by (simp add: cdata_def)

lemma nth_load: "fat_ok f \<Longrightarrow> k < bpc f \<Longrightarrow> cluster_buffer (load_cluster c f) k = cdata f c ! k"
  using get_list_load[of f c] by (metis nth_get_list add_0)

lemma store_cluster_disk:
  assumes "fat_ok f"
  shows "disk (store_cluster c f) s k =
    (if lba28 (cluster_to_lba c f) \<le> s \<and> s < lba28 (cluster_to_lba c f) + spc f \<and> k < 512
     then cluster_buffer f (512 * (s - lba28 (cluster_to_lba c f)) + k) else disk f s k)"
  using fat_okD(8)[OF assms] spc8[OF assms]
    disk_write_apply[of "cluster_to_lba c f" "ucast (sectors_per_cluster (fs f))" "cluster_buffer f" "disk f"]
  by (simp add: store_cluster_def write_cluster_def split: prod.splits) (metis snd_conv)

lemma store_cluster_view:
  assumes ok: "fat_ok f" and c: "valid_cluster f c"
  shows "valid_cluster f c' \<Longrightarrow> cdata (store_cluster c f) c' =
      (if c' = c then get_list (cluster_buffer f) 0 (bpc f) else cdata f c')"
    and "valid_cluster f c' \<Longrightarrow> fat_of (store_cluster c f) c' = fat_of f c'"
    and "fat_ok (store_cluster c f)" "valid_cluster (store_cluster c f) = valid_cluster f"
proof -
  note E = fat_ok_fs[OF store_cluster_simps(2)[of c f]] and D = fat_okD[OF ok]
  show "fat_ok (store_cluster c f)" "valid_cluster (store_cluster c f) = valid_cluster f"
    using ok by (simp_all add: E fun_eq_iff)
  show "fat_of (store_cluster c f) c' = fat_of f c'" if c': "valid_cluster f c'"
  proof -
    have "lba28 (fat_sector c' f) < lba28 (cluster_to_lba c f)"
      using fat_place(3)[OF ok c'] cluster_place[OF ok c] by linarith
    then have "disk (store_cluster c f) (lba28 (fat_sector c' f)) = disk f (lba28 (fat_sector c' f))"
      by (simp add: fun_eq_iff store_cluster_disk[OF ok])
    then show ?thesis by (simp add: fat_of_def E)
  qed
  show "cdata (store_cluster c f) c' = (if c' = c then get_list (cluster_buffer f) 0 (bpc f) else cdata f c')"
    if c': "valid_cluster f c'"
  proof (rule nth_equalityI)
    fix k assume k: "k < length (cdata (store_cluster c f) c')"
    then have kb: "k < bpc f" by simp
    then have kd: "k div 512 < spc f" using D(4) by (simp add: less_mult_imp_div_less mult.commute)
    note P = cluster_place[OF ok c] cluster_place[OF ok c']
    let ?s = "lba28 (cluster_to_lba c' f) + k div 512"
    have "lba28 (cluster_to_lba c f) \<le> ?s \<and> ?s < lba28 (cluster_to_lba c f) + spc f \<longleftrightarrow> c' = c"
    proof (cases "c' = c")
      case False
      then have "unat c' < unat c \<or> unat c < unat c'" by (auto simp: word_unat_eq_iff)
      then have "Suc (unat c' - 2) \<le> unat c - 2 \<or> Suc (unat c - 2) \<le> unat c' - 2"
        using c c' by (auto simp: valid_cluster_def)
      then have "Suc (unat c' - 2) * spc f \<le> (unat c - 2) * spc f \<or> Suc (unat c - 2) * spc f \<le> (unat c' - 2) * spc f"
        using mult_le_mono1 by blast
      then show ?thesis using False kd unfolding P mult_Suc by auto
    qed (use kd in simp)
    then show "cdata (store_cluster c f) c' ! k = (if c' = c then get_list (cluster_buffer f) 0 (bpc f) else cdata f c') ! k"
      using kb by (auto simp: cdata_def E store_cluster_disk[OF ok])
  qed simp
qed

section \<open>Allocation\<close>

text \<open>What only the sector buffer distinguishes.\<close>

definition same_but_sector :: "'a fat_scheme \<Rightarrow> 'a fat_scheme \<Rightarrow> bool" where
  "same_but_sector f f' \<longleftrightarrow> (\<exists>b. f' = f\<lparr>sector_buffer := b\<rparr>)"

lemma same_but_sector_refl [simp]: "same_but_sector f f"
  unfolding same_but_sector_def by (rule exI[of _ "sector_buffer f"]) simp

lemma same_but_sector_load [simp]: "same_but_sector f (load_sector l f)"
  by (auto simp: same_but_sector_def load_sector_def)

lemma same_but_sector_trans: "same_but_sector f g \<Longrightarrow> same_but_sector g h \<Longrightarrow> same_but_sector f h"
  by (auto simp: same_but_sector_def)

lemma same_but_sectorD:
  assumes "same_but_sector f f'"
  shows "disk f' = disk f" "fs f' = fs f" "root_node f' = root_node f" "cluster_buffer f' = cluster_buffer f"
    "dirent_buf f' = dirent_buf f" "node_cache f' = node_cache f" "node_cache_used f' = node_cache_used f"
  using assms by (auto simp: same_but_sector_def)

lemma free_scan_spec:
  assumes "bytes_per_sector (fs f) = 512"
  shows "\<exists>f'. free_scan is f = (case List.find (\<lambda>i. fat_of f (of_nat i) = 0) is of Some i \<Rightarrow> of_nat i | None \<Rightarrow> 0, f') \<and>
    same_but_sector f f'"
  using assms
proof (induction "is" arbitrary: f)
  case (Cons i "is")
  let ?f = "load_sector (fat_sector (of_nat i) f) f"
  from Cons.IH[of ?f] Cons.prems obtain f' where f': "free_scan is ?f =
      (case List.find (\<lambda>i. fat_of f (of_nat i) = 0) is of Some i \<Rightarrow> of_nat i | None \<Rightarrow> 0, f')" "same_but_sector ?f f'"
    by auto
  show ?case
    using f' same_but_sector_trans[OF same_but_sector_load f'(2)] get_next_cluster_eq[OF Cons.prems, of "of_nat i"]
    by simp
qed simp

lemma find_free_cluster_spec:
  assumes "fat_ok f"
  obtains f' where "find_free_cluster f =
      (case List.find (\<lambda>i. fat_of f (of_nat i) = 0) [2..<unat (total_clusters (fs f))] of Some i \<Rightarrow> of_nat i | None \<Rightarrow> 0, f')"
    "same_but_sector f f'"
  using free_scan_spec[OF fat_okD(1)[OF assms]] unfolding find_free_cluster_def by blast

text \<open>The part of the state that the operations on the table and on clusters never touch.\<close>

definition same_nodes :: "'a fat_scheme \<Rightarrow> 'a fat_scheme \<Rightarrow> bool" where
  "same_nodes f f' \<longleftrightarrow> fs f' = fs f \<and> root_node f' = root_node f \<and> node_cache f' = node_cache f \<and>
     node_cache_used f' = node_cache_used f"

lemma same_nodes_refl [simp]: "same_nodes f f"
  by (simp add: same_nodes_def)

lemma same_nodes_trans: "same_nodes f g \<Longrightarrow> same_nodes g h \<Longrightarrow> same_nodes f h"
  by (simp add: same_nodes_def)

lemma same_nodes_ok: "same_nodes f f' \<Longrightarrow> fat_ok f' = fat_ok f" "same_nodes f f' \<Longrightarrow> valid_cluster f' = valid_cluster f"
  using fat_ok_fs[of f' f] by (auto simp: same_nodes_def fun_eq_iff)

lemma same_nodes_simps [simp]:
  "same_nodes f (load_sector l f)" "same_nodes f (set_fat_entry c v f)" "same_nodes f (load_cluster c f)"
  "same_nodes f (store_cluster c f)" "same_nodes f (edit_buffer g f)"
  by (simp_all add: same_nodes_def edit_buffer_def)

lemma same_but_sector_nodes: "same_but_sector f f' \<Longrightarrow> same_nodes f f'"
  by (auto simp: same_but_sector_def same_nodes_def)

text \<open>
  \<open>table_is f t\<close>: the allocation table holds \<open>t\<close>, on the clusters of the volume;
  \<open>clusters_are f d\<close>: their contents are \<open>d\<close>.
\<close>

definition table_is :: "'a fat_scheme \<Rightarrow> (u32 \<Rightarrow> u32) \<Rightarrow> bool" where
  "table_is f t \<longleftrightarrow> (\<forall>c. valid_cluster f c \<longrightarrow> fat_of f c = t c)"

definition clusters_are :: "'a fat_scheme \<Rightarrow> (u32 \<Rightarrow> u8 list) \<Rightarrow> bool" where
  "clusters_are f d \<longleftrightarrow> (\<forall>c. valid_cluster f c \<longrightarrow> cdata f c = d c)"

lemma table_is_self: "table_is f (fat_of f)" "clusters_are f (cdata f)"
  by (simp_all add: table_is_def clusters_are_def)

lemma alloc_cluster_zeroed_spec:
  assumes ok: "fat_ok f"
  shows "case List.find (\<lambda>i. fat_of f (of_nat i) = 0) [2..<unat (total_clusters (fs f))] of
      None \<Rightarrow> \<exists>f'. alloc_cluster_zeroed f = (0, f') \<and> same_but_sector f f'
    | Some i \<Rightarrow> \<exists>f'. alloc_cluster_zeroed f = (of_nat i, f') \<and> same_nodes f f' \<and> fat_ok f' \<and>
        valid_cluster f (of_nat i) \<and> fat_of f (of_nat i) = 0 \<and>
        table_is f' ((fat_of f)(of_nat i := END_OF_CHAIN)) \<and>
        clusters_are f' ((cdata f)(of_nat i := replicate (bpc f) 0))"
proof -
  let ?r = "List.find (\<lambda>i. fat_of f (of_nat i) = 0) [2..<unat (total_clusters (fs f))]"
  obtain g where g: "find_free_cluster f = (case ?r of Some i \<Rightarrow> of_nat i | None \<Rightarrow> 0, g)" "same_but_sector f g"
    using find_free_cluster_spec[OF ok] by blast
  show ?thesis
  proof (cases ?r)
    case None
    with g show ?thesis by (auto simp: alloc_cluster_zeroed_def)
  next
    case (Some i)
    let ?c = "of_nat i :: u32"
    from find_upt_SomeD[OF Some] have i: "2 \<le> i" "i < unat (total_clusters (fs f))" "fat_of f ?c = 0" by auto
    then have u: "unat ?c = i" using unat_lt_two_power[of "total_clusters (fs f)"] by (intro unat_of_nat_small) simp
    then have v: "valid_cluster f ?c" and nz: "?c \<noteq> 0" using i by (auto simp: valid_cluster_def)
    note G = view_cong[OF same_but_sectorD(1,2)[OF g(2)]]
    have okg: "fat_ok g" and vg: "valid_cluster g ?c" using ok v G by simp_all
    note S = set_fat_entry_view[OF okg vg, where v = END_OF_CHAIN]
    define h where "h = edit_buffer (\<lambda>b k. if k < bpc f then 0 else b k) (set_fat_entry ?c END_OF_CHAIN g)"
    have hs: "disk h = disk (set_fat_entry ?c END_OF_CHAIN g)" "fs h = fs (set_fat_entry ?c END_OF_CHAIN g)"
      by (simp_all add: h_def edit_buffer_def)
    note H = view_cong[OF hs]
    have okh: "fat_ok h" and vh: "valid_cluster h ?c" using S(3,4) vg H by simp_all
    note T = store_cluster_view[OF okh vh]
    have fsh: "fs h = fs f" using hs same_but_sectorD(2)[OF g(2)] by simp
    have res: "alloc_cluster_zeroed f = (?c, store_cluster ?c h)"
      using g(1) Some nz same_but_sectorD(2)[OF g(2)] by (simp add: alloc_cluster_zeroed_def h_def Let_def)
    have vv: "valid_cluster h c \<longleftrightarrow> valid_cluster f c" "valid_cluster g c \<longleftrightarrow> valid_cluster f c"
      "valid_cluster (store_cluster ?c h) c \<longleftrightarrow> valid_cluster f c" for c
      using H G S(4) T(4) by simp_all
    have "get_list (cluster_buffer h) 0 (bpc h) = replicate (bpc f) 0"
      using same_but_sectorD(2)[OF g(2)] by (intro nth_equalityI) (simp_all add: h_def edit_buffer_def)
    then have "clusters_are (store_cluster ?c h) ((cdata f)(?c := replicate (bpc f) 0))"
      by (auto simp: clusters_are_def vv T(1) S(2) H G fun_upd_def)
    moreover have "table_is (store_cluster ?c h) ((fat_of f)(?c := END_OF_CHAIN))"
      by (auto simp: table_is_def vv T(2) S(1) H G fun_upd_def)
    moreover have "same_nodes f (store_cluster ?c h)"
      using same_but_sectorD[OF g(2)] by (simp add: same_nodes_def h_def edit_buffer_def)
    ultimately show ?thesis using Some res v i(3) T(3) by auto
  qed
qed

section \<open>Chains\<close>

fun chain :: "'a fat_scheme \<Rightarrow> u32 \<Rightarrow> u32 list \<Rightarrow> bool" where
  "chain f c [] = is_end_of_chain c"
| "chain f c (x # xs) = (x = c \<and> valid_cluster f c \<and> chain f (fat_of f c) xs)"

lemma valid_not_end:
  assumes "fat_ok f" "valid_cluster f c"
  shows "\<not> is_end_of_chain c" "c \<noteq> 0" "\<not> c < 2"
proof -
  let ?t = "unat (total_clusters (fs f))" and ?C = "unat (cluster_start_lba (fs f))"
  have l: "?C + ?t * spc f < 2 ^ 28" "(4 * (?t + 2)) div 512 < ?C" "0 < spc f" using assms(1) by (auto simp: fat_ok_def)
  have "?t * 1 \<le> ?t * spc f" using l(3) by (intro mult_le_mono) simp_all
  then have "?C + ?t < 2 ^ 28" using l(1) by linarith
  moreover have "4 * (?t + 2) < 512 * (4 * (?t + 2) div 512) + 512"
    using dividend_less_times_div[of 512 "4 * (?t + 2)"] by simp
  ultimately have "?t + 2 < 2 ^ 28 - 8" using l(2) by simp
  then have "unat c < 0x0FFFFFF8" using assms(2) by (simp add: valid_cluster_def)
  then show "\<not> is_end_of_chain c" by (simp add: is_end_of_chain_def word_le_nat_alt)
  show "c \<noteq> 0" "\<not> c < 2" using assms(2) by (auto simp: valid_cluster_def word_less_nat_alt)
qed

lemma chain_valid: "chain f c xs \<Longrightarrow> x \<in> set xs \<Longrightarrow> valid_cluster f x"
  by (induction f c xs rule: chain.induct) auto

lemma chain_det: "fat_ok f \<Longrightarrow> chain f c xs \<Longrightarrow> chain f c ys \<Longrightarrow> xs = ys"
proof (induction f c xs arbitrary: ys rule: chain.induct)
  case (1 f c)
  then show ?case using valid_not_end(1)[of f c] by (cases ys) auto
next
  case (2 f c x xs)
  then show ?case using valid_not_end(1)[of f c] by (cases ys) auto
qed

lemma chain_suffix: "chain f c (xs @ ys) \<Longrightarrow> ys \<noteq> [] \<Longrightarrow> chain f (hd ys) ys"
  by (induction f c xs rule: chain.induct) (cases ys, auto)

lemma chain_distinct: "fat_ok f \<Longrightarrow> chain f c xs \<Longrightarrow> distinct xs"
proof (rule ccontr)
  assume ok: "fat_ok f" and ch: "chain f c xs" and "\<not> distinct xs"
  then obtain as bs cs y where xs: "xs = as @ [y] @ bs @ [y] @ cs" using not_distinct_decomp by blast
  have "chain f y (y # bs @ [y] @ cs)" using chain_suffix[of f c as "y # bs @ [y] @ cs"] ch xs by simp
  moreover have "chain f y (y # cs)" using chain_suffix[of f c "as @ [y] @ bs" "y # cs"] ch xs by simp
  ultimately have "bs @ [y] @ cs = cs" using chain_det[OF ok] by blast
  then have "length (bs @ [y] @ cs) = length cs" by simp
  then show False by simp
qed

lemma chain_cong:
  assumes "\<And>x. x \<in> set xs \<Longrightarrow> fat_of f' x = fat_of f x" "valid_cluster f' = valid_cluster f"
  shows "chain f' c xs = chain f c xs"
  using assms by (induction f c xs rule: chain.induct) auto

lemma chain_view: "disk f' = disk f \<Longrightarrow> fs f' = fs f \<Longrightarrow> chain f' c xs = chain f c xs"
  by (rule chain_cong) (simp_all add: view_cong fun_eq_iff)

lemma chain_length:
  assumes "fat_ok f" "chain f c xs"
  shows "length xs \<le> unat (total_clusters (fs f))"
proof -
  let ?n = "unat (total_clusters (fs f))"
  have "unat ` set xs \<subseteq> {2..<?n + 2}"
    using chain_valid[OF assms(2)] by (auto simp: valid_cluster_def)
  then have "card (unat ` set xs) \<le> card {2..<?n + 2}" by (intro card_mono) simp_all
  moreover have "inj_on unat (set xs)" by (intro inj_onI) (simp only: word_unat_eq_iff)
  then have "card (unat ` set xs) = length xs"
    using distinct_card[OF chain_distinct[OF assms]] by (simp only: card_image)
  ultimately show ?thesis by simp
qed

text \<open>Appending a cluster to a chain.\<close>

declare append_loop.simps [simp del]

lemma append_loop_spec:
  assumes "bytes_per_sector (fs f) = 512" "chain f c xs" "xs \<noteq> []" "length xs \<le> Suc n" "fat_ok f"
  shows "\<exists>f'. append_loop n c f = (Some (last xs), f') \<and> same_but_sector f f'"
  using assms
proof (induction xs arbitrary: n c f)
  case (Cons x xs)
  from Cons.prems(2) have x: "x = c" "valid_cluster f c" "chain f (fat_of f c) xs" by auto
  let ?f1 = "load_sector (fat_sector c f) f" and ?f2 = "load_sector (fat_sector c f) (load_sector (fat_sector c f) f)"
  have g1: "get_next_cluster c f = (fat_of f c, ?f1)" by (rule get_next_cluster_eq[OF Cons.prems(1)])
  have g2: "get_next_cluster c ?f1 = (fat_of f c, ?f2)" using get_next_cluster_eq[of ?f1 c] Cons.prems(1) by simp
  show ?case
  proof (cases xs)
    case Nil
    then show ?thesis using x g1 by (subst append_loop.simps) (auto intro!: exI[of _ ?f1])
  next
    case xs: (Cons y ys)
    then have ne: "\<not> is_end_of_chain (fat_of f c)" using x(3) valid_not_end(1)[OF Cons.prems(5)] by auto
    obtain k where n: "n = Suc k" using Cons.prems(4) xs by (cases n) auto
    have "\<exists>f'. append_loop k (fat_of f c) ?f2 = (Some (last xs), f') \<and> same_but_sector ?f2 f'"
      using Cons.prems x xs by (intro Cons.IH) (auto simp: n chain_view[of ?f2 f])
    then obtain f' where "append_loop k (fat_of f c) ?f2 = (Some (last xs), f')" "same_but_sector ?f2 f'" by blast
    moreover from this(2) have "same_but_sector f f'"
      using same_but_sector_trans same_but_sector_load by blast
    ultimately show ?thesis
      using g1 g2 ne n xs by (subst append_loop.simps) (auto intro!: exI[of _ f'])
  qed
qed simp

lemma append_cluster_spec:
  assumes ok: "fat_ok f" and ch: "chain f c xs" "xs \<noteq> []" and new: "valid_cluster f x" "x \<notin> set xs"
  shows "\<exists>f'. append_cluster c x f = (FAT32_E_OK, f') \<and> same_nodes f f' \<and> fat_ok f' \<and> cluster_buffer f' = cluster_buffer f \<and>
    table_is f' ((fat_of f)(last xs := x, x := END_OF_CHAIN)) \<and> clusters_are f' (cdata f)"
proof -
  have "length xs \<le> Suc (unat (total_clusters (fs f)))" using chain_length[OF ok ch(1)] by simp
  then obtain g where g: "append_loop (unat (total_clusters (fs f))) c f = (Some (last xs), g)" "same_but_sector f g"
    using append_loop_spec[OF fat_okD(1)[OF ok] ch _ ok] by blast
  have l: "valid_cluster f (last xs)" using chain_valid[OF ch(1)] ch(2) by simp
  have cv: "valid_cluster f c" using ch by (cases xs) auto
  note G = view_cong[OF same_but_sectorD(1,2)[OF g(2)]]
  have okg: "fat_ok g" "valid_cluster g (last xs)" using ok l G by simp_all
  let ?h = "set_fat_entry (last xs) x g"
  note S = set_fat_entry_view[OF okg, where v = x]
  have okh: "fat_ok ?h" "valid_cluster ?h x" using S(3,4) new G by simp_all
  note T = set_fat_entry_view[OF okh, where v = END_OF_CHAIN]
  have xm: "x AND 0x0FFFFFFF = x"
  proof -
    have "unat x < 2 ^ 28" using valid_not_end(1)[OF ok new(1)] by (simp add: is_end_of_chain_def word_le_nat_alt)
    then have "unat (x AND mask 28) = unat x" by (simp add: unat_and_mask)
    then show ?thesis by (simp add: mask_numeral word_unat_eq_iff)
  qed
  have vv: "valid_cluster ?h y \<longleftrightarrow> valid_cluster f y" "valid_cluster g y \<longleftrightarrow> valid_cluster f y"
    "valid_cluster (set_fat_entry x END_OF_CHAIN ?h) y \<longleftrightarrow> valid_cluster f y" for y
    using G S(4) T(4) by simp_all
  have "append_cluster c x f = (FAT32_E_OK, set_fat_entry x END_OF_CHAIN ?h)"
    using g(1) valid_not_end(3)[OF ok cv] valid_not_end(3)[OF ok new(1)] by (simp add: append_cluster_def)
  moreover have "table_is (set_fat_entry x END_OF_CHAIN ?h) ((fat_of f)(last xs := x, x := END_OF_CHAIN))"
    by (auto simp: table_is_def vv T(1) S(1) G xm fun_upd_def)
  moreover have "clusters_are (set_fat_entry x END_OF_CHAIN ?h) (cdata f)"
    by (auto simp: clusters_are_def vv T(2) S(2) G)
  ultimately show ?thesis using T(3) same_but_sectorD[OF g(2)] by (simp add: same_nodes_def)
qed

lemma chain_snoc:
  assumes "chain f c xs" "xs \<noteq> []" "distinct xs" "valid_cluster f' = valid_cluster f" "chain f' x [x]"
    and "\<forall>y\<in>set xs. fat_of f' y = (if y = last xs then x else fat_of f y)"
  shows "chain f' c (xs @ [x])"
  using assms
proof (induction f c xs rule: chain.induct)
  case (2 f c y ys)
  show ?case
  proof (cases "ys = []")
    case False
    then have "c \<noteq> last ys" using 2 by auto
    then show ?thesis using 2 False by auto
  qed (use 2 in auto)
qed simp

lemma chain_append:
  assumes "chain f c xs" "xs \<noteq> []" "distinct xs" "valid_cluster f x" "x \<notin> set xs"
    and "table_is f' ((fat_of f)(last xs := x, x := END_OF_CHAIN))" "valid_cluster f' = valid_cluster f"
  shows "chain f' c (xs @ [x])"
  using assms chain_valid[OF assms(1)]
  by (intro chain_snoc[OF assms(1-3,7)]) (auto simp: table_is_def is_end_of_chain_def)

text \<open>Releasing a chain.\<close>

lemma free_chain_loop_spec:
  assumes "fat_ok f" "chain f c xs"
  shows "\<exists>e f'. free_chain_loop c f = Some (e, f') \<and> is_end_of_chain e \<and> same_nodes f f' \<and> fat_ok f' \<and>
    table_is f' (\<lambda>y. if y \<in> set xs then 0 else fat_of f y) \<and> clusters_are f' (cdata f)"
  using assms
proof (induction xs arbitrary: c f)
  case Nil
  then show ?case
    by (subst free_chain_loop.simps) (auto simp: table_is_self intro!: exI[of _ c] exI[of _ f] )
next
  case (Cons x xs)
  from Cons.prems(2) have x: "x = c" "valid_cluster f c" "chain f (fat_of f c) xs" by auto
  note d = chain_distinct[OF Cons.prems] and V = valid_not_end[OF Cons.prems(1) x(2)]
  let ?g = "load_sector (fat_sector c f) f"
  have okg: "fat_ok ?g" "valid_cluster ?g c" using Cons.prems(1) x(2) by simp_all
  let ?h = "set_fat_entry c 0 ?g"
  note S = set_fat_entry_view[OF okg, where v = 0]
  have tab: "fat_of ?h y = (if y = c then 0 else fat_of f y)" "cdata ?h y = cdata f y" if "valid_cluster f y" for y
    using S(1,2)[of y] that by simp_all
  have vh: "valid_cluster ?h = valid_cluster f" using S(4) by (simp add: fun_eq_iff)
  have "chain ?h (fat_of f c) xs = chain f (fat_of f c) xs"
    using d x chain_valid[OF x(3)] vh by (intro chain_cong) (auto simp: tab(1))
  then obtain e f' where IH: "free_chain_loop (fat_of f c) ?h = Some (e, f')" "is_end_of_chain e" "same_nodes ?h f'" "fat_ok f'"
      "table_is f' (\<lambda>y. if y \<in> set xs then 0 else fat_of ?h y)" "clusters_are f' (cdata ?h)"
    using Cons.IH[OF S(3), of "fat_of f c"] x(3) by auto
  have "fat_of f c \<noteq> c"
  proof
    assume e: "fat_of f c = c"
    with x(3) V(1) have "xs = c # tl xs" by (cases xs) auto
    with d x(1) show False by (cases xs) auto
  qed
  then have "free_chain_loop c f = Some (e, f')"
    using get_next_cluster_eq[OF fat_okD(1)[OF Cons.prems(1)], of c] V IH(1)
    by (subst free_chain_loop.simps) (simp add: Let_def)
  moreover have "same_nodes f f'" using same_nodes_trans[OF _ IH(3)] by (simp add: same_nodes_def)
  moreover have "table_is f' (\<lambda>y. if y \<in> set (x # xs) then 0 else fat_of f y)"
    using IH(5) same_nodes_ok(2)[OF IH(3)] by (auto simp: table_is_def vh tab(1) x(1))
  moreover have "clusters_are f' (cdata f)"
    using IH(6) same_nodes_ok(2)[OF IH(3)] by (auto simp: clusters_are_def vh tab(2))
  ultimately show ?case using IH(2,4) by blast
qed

section \<open>Properties\<close>

text \<open>A volume of eight clusters: the root directory in cluster 2, a file in clusters 3 and 4.\<close>

definition sample_fs :: fat32_fs where
  "sample_fs = \<lparr>fat_start_lba = 32, cluster_start_lba = 33, sectors_per_cluster = 1, root_cluster = 2,
     bytes_per_sector = 512, bytes_per_cluster = 512, total_clusters = 8\<rparr>"

definition sample_fat :: fat where
  "sample_fat = \<lparr>disk = (\<lambda>_ _. 0)(32 := put32 (put32 (put32 (\<lambda>_. 0) 8 END_OF_CHAIN) 12 4) 16 END_OF_CHAIN),
     fs = sample_fs, root_node = empty_node\<lparr>v_name := [SLASH], v_flags := 2, v_inode := 2, v_readdir := True, v_finddir := True\<rparr>,
     sector_buffer = (\<lambda>_. 0), cluster_buffer = (\<lambda>_. 0), dirent_buf = \<lparr>d_name = [], d_inode = 0\<rparr>,
     node_cache = (\<lambda>_. empty_node), node_cache_used = 0\<rparr>"

lemma sample_fat_ok: "fat_ok sample_fat"
  by (simp add: fat_ok_def sample_fat_def sample_fs_def)

lemma sample_valid: "valid_cluster sample_fat c \<longleftrightarrow> 2 \<le> unat c \<and> unat c < 10"
  by (simp add: valid_cluster_def sample_fat_def sample_fs_def)

lemma sample_table: "valid_cluster sample_fat c \<Longrightarrow>
    fat_of sample_fat c = (if c = 2 \<or> c = 4 then END_OF_CHAIN else if c = 3 then 4 else 0)"
proof -
  assume c: "valid_cluster sample_fat c"
  have b: "unat c < 10" using c by (simp add: sample_valid)
  have s: "lba28 (fat_sector c sample_fat) = 32" "fat_offset c sample_fat = 4 * unat c"
    using fat_place(1,2)[OF sample_fat_ok c] b by (simp_all add: sample_fat_def sample_fs_def)
  have d: "disk sample_fat 32 = put32 (put32 (put32 (\<lambda>_. 0) 8 END_OF_CHAIN) 12 4) 16 END_OF_CHAIN"
    by (simp add: sample_fat_def)
  consider "unat c = 2" | "unat c = 3" | "unat c = 4" | "2 \<noteq> unat c \<and> 3 \<noteq> unat c \<and> 4 \<noteq> unat c" by metis
  then show ?thesis
  proof cases
    case 4
    then have "4 * unat c \<noteq> 8" "4 * unat c \<noteq> 12" "4 * unat c \<noteq> 16" by auto
    then have "4 * unat c + 4 \<le> 8 \<or> 8 + 4 \<le> 4 * unat c" "4 * unat c + 4 \<le> 12 \<or> 12 + 4 \<le> 4 * unat c"
      "4 * unat c + 4 \<le> 16 \<or> 16 + 4 \<le> 4 * unat c" by presburger+
    then have "fat_of sample_fat c = 0" unfolding fat_of_def s d by (simp add: buf_simps) (simp add: le32_def)
    with 4 show ?thesis by auto
  qed (simp_all add: fat_of_def s d buf_simps word_unat_eq_iff)
qed

text \<open>
  A table entry reads back as it was written, in its low 28 bits; every other
  entry and the contents of every cluster are as before.
\<close>

theorem fat_entry_roundtrip:
  assumes "fat_ok f" "valid_cluster f c"
  shows "fst (get_next_cluster c (set_fat_entry c v f)) = v AND 0x0FFFFFFF \<and>
    (\<forall>c'. valid_cluster f c' \<and> c' \<noteq> c \<longrightarrow> fst (get_next_cluster c' (set_fat_entry c v f)) = fst (get_next_cluster c' f)) \<and>
    (\<forall>c'. valid_cluster f c' \<longrightarrow> cdata (set_fat_entry c v f) c' = cdata f c')"
  using set_fat_entry_view[OF assms] assms(2) fat_okD(1)[OF assms(1)] by (simp add: get_next_cluster_eq)

theorem fat_entry_roundtrip_witness:
  "fst (get_next_cluster 3 (set_fat_entry 3 9 sample_fat)) = 9 \<and> fst (get_next_cluster 4 (set_fat_entry 3 9 sample_fat)) = END_OF_CHAIN"
proof -
  have v: "valid_cluster sample_fat 3" "valid_cluster sample_fat 4" by (simp_all add: sample_valid)
  show ?thesis using fat_entry_roundtrip [OF sample_fat_ok v(1), of 9] v
    by (simp add: get_next_cluster_eq fat_okD(1)[OF sample_fat_ok] sample_table)
qed

text \<open>
  \<^verbatim>\<open>alloc_cluster_zeroed\<close> followed by \<^verbatim>\<open>append_cluster\<close>, the step by which files and
  directories grow: when a cluster in the range of the search is free, the chain gets
  exactly that cluster, zeroed, at its end; the other clusters of the volume keep their contents
  and table entries.
\<close>

theorem grow_chain_correct:
  assumes ok: "fat_ok f" and ch: "chain f c xs" "xs \<noteq> []"
    and free: "List.find (\<lambda>i. fat_of f (of_nat i) = 0) [2..<unat (total_clusters (fs f))] = Some i"
  shows "\<exists>f1 f2. alloc_cluster_zeroed f = (of_nat i, f1) \<and> append_cluster c (of_nat i) f1 = (FAT32_E_OK, f2) \<and>
    fat_ok f2 \<and> chain f2 c (xs @ [of_nat i]) \<and> cdata f2 (of_nat i) = replicate (bpc f) 0 \<and>
    (\<forall>y. valid_cluster f y \<and> y \<noteq> of_nat i \<longrightarrow> cdata f2 y = cdata f y) \<and>
    (\<forall>y. valid_cluster f y \<and> y \<noteq> of_nat i \<and> y \<noteq> last xs \<longrightarrow> fat_of f2 y = fat_of f y)"
proof -
  let ?x = "of_nat i :: u32"
  obtain f1 where f1: "alloc_cluster_zeroed f = (?x, f1)" "same_nodes f f1" "fat_ok f1" "valid_cluster f ?x" "fat_of f ?x = 0"
      "table_is f1 ((fat_of f)(?x := END_OF_CHAIN))" "clusters_are f1 ((cdata f)(?x := replicate (bpc f) 0))"
    using alloc_cluster_zeroed_spec[OF ok] unfolding free by auto
  have v1: "valid_cluster f1 = valid_cluster f" by (rule same_nodes_ok(2)[OF f1(2)])
  have nin: "?x \<notin> set xs"
  proof
    assume "?x \<in> set xs"
    then obtain as bs where "xs = as @ ?x # bs" by (meson split_list)
    then have c: "chain f ?x (?x # bs)" using chain_suffix[of f c as "?x # bs"] ch by simp
    then have "chain f 0 bs" using f1(5) by simp
    then show False using valid_not_end(2)[OF ok, of 0] by (cases bs) (auto simp: is_end_of_chain_def)
  qed
  have ch1: "chain f1 c xs"
    using ch(1) chain_valid[OF ch(1)] nin f1(6) by (subst chain_cong[OF _ v1]) (auto simp: table_is_def v1)
  obtain f2 where f2: "append_cluster c ?x f1 = (FAT32_E_OK, f2)" "same_nodes f1 f2" "fat_ok f2"
      "table_is f2 ((fat_of f1)(last xs := ?x, ?x := END_OF_CHAIN))" "clusters_are f2 (cdata f1)"
    using append_cluster_spec[OF f1(3) ch1 ch(2) _ nin] f1(4) unfolding v1 by blast
  have v2: "valid_cluster f2 = valid_cluster f" using same_nodes_ok(2)[OF f2(2)] v1 by simp
  have "chain f2 c (xs @ [?x])"
    using f1(4) by (intro chain_append[OF ch1 ch(2) chain_distinct[OF ok ch(1)] _ nin f2(4)]) (simp_all add: v1 v2)
  then show ?thesis
    using f1 f2 v1 v2 by (intro exI[of _ f1] exI[of _ f2]) (auto simp: table_is_def clusters_are_def)
qed

lemma sample_chain: "chain sample_fat 3 [3, 4]"
  by (simp add: sample_valid sample_table is_end_of_chain_def)

lemma sample_free: "List.find (\<lambda>i. fat_of sample_fat (of_nat i) = 0) [2..<8] = Some 5"
proof (rule find_upt_SomeI)
  fix j :: nat assume "2 \<le> j" "j < 5"
  then consider "j = 2" | "j = 3" | "j = 4" by linarith
  then show "fat_of sample_fat (of_nat j) \<noteq> 0" by cases (simp_all add: sample_table sample_valid)
qed (simp_all add: sample_table sample_valid)

theorem grow_chain_correct_witness:
  "\<exists>f1 f2. alloc_cluster_zeroed sample_fat = (5, f1) \<and> append_cluster 3 5 f1 = (FAT32_E_OK, f2) \<and> chain f2 3 [3, 4, 5]"
proof -
  have t: "unat (total_clusters (fs sample_fat)) = 8" by (simp add: sample_fat_def sample_fs_def)
  show ?thesis using grow_chain_correct [OF sample_fat_ok sample_chain, of 5] sample_free unfolding t by auto
qed

text \<open>
  C31 (termination).  \<^verbatim>\<open>free_cluster_chain\<close> on a chain that does not start at the root directory returns,
  having marked exactly the clusters of the chain free.
\<close>

theorem free_cluster_chain_correct:
  assumes ok: "fat_ok f" and ch: "chain f c xs" and c: "2 \<le> c" "c \<noteq> root_cluster (fs f)"
  shows "\<exists>f'. free_cluster_chain c f = Some f' \<and> fat_ok f' \<and>
    (\<forall>y. valid_cluster f y \<longrightarrow> fat_of f' y = (if y \<in> set xs then 0 else fat_of f y) \<and> cdata f' y = cdata f y)"
proof -
  obtain e f' where l: "free_chain_loop c f = Some (e, f')" "is_end_of_chain e" "same_nodes f f'" "fat_ok f'"
      "table_is f' (\<lambda>y. if y \<in> set xs then 0 else fat_of f y)" "clusters_are f' (cdata f)"
    using free_chain_loop_spec[OF ok ch] by blast
  then show ?thesis using c same_nodes_ok(2)[OF l(3)]
    by (auto simp: free_cluster_chain_def table_is_def clusters_are_def)
qed

theorem free_cluster_chain_correct_witness:
  "\<exists>f'. free_cluster_chain 3 sample_fat = Some f' \<and> fat_of f' 3 = 0 \<and> fat_of f' 4 = 0 \<and> fat_of f' 2 = END_OF_CHAIN"
proof -
  have "(2 :: u32) \<le> 3" "3 \<noteq> root_cluster (fs sample_fat)" by (simp_all add: sample_fat_def sample_fs_def)
  from free_cluster_chain_correct [OF sample_fat_ok sample_chain this] show ?thesis
    by (auto simp: sample_table sample_valid)
qed

text \<open>
  The search for a free cluster runs to \<^verbatim>\<open>total_clusters\<close> although the data clusters are
  numbered from 2 to \<^verbatim>\<open>total_clusters + 1\<close>: on a volume where only the last two are free it answers
  that the disk is full.
\<close>

theorem last_clusters_never_found:
  assumes "fat_ok f" "0 < total_clusters (fs f)"
    and "\<forall>c. valid_cluster f c \<and> c < total_clusters (fs f) \<longrightarrow> fat_of f c \<noteq> 0"
  shows "fst (find_free_cluster f) = 0 \<and> valid_cluster f (total_clusters (fs f) + 1) \<and>
    (2 \<le> total_clusters (fs f) \<longrightarrow> valid_cluster f (total_clusters (fs f)))"
proof -
  let ?t = "unat (total_clusters (fs f))"
  have t: "?t < 2 ^ 28" by (rule fat_okD(5)[OF assms(1)])
  have "fat_of f (of_nat i) \<noteq> 0" if "2 \<le> i" "i < ?t" for i
  proof -
    have "unat (of_nat i :: u32) = i" using that t by (intro unat_of_nat_small) simp
    then show ?thesis using assms(3) that by (simp add: valid_cluster_def word_less_nat_alt)
  qed
  then have n: "List.find (\<lambda>i. fat_of f (of_nat i) = 0) [2..<?t] = None" by (simp add: find_upt_None)
  have "unat (total_clusters (fs f) + 1) = ?t + 1" using t by (subst unat_plus_small) simp_all
  moreover have "0 < ?t" using assms(2) by (simp add: word_less_nat_alt)
  ultimately have "valid_cluster f (total_clusters (fs f) + 1)" by (simp add: valid_cluster_def)
  moreover have "fst (find_free_cluster f) = 0"
    by (rule find_free_cluster_spec[OF assms(1)]) (simp add: n)
  ultimately show ?thesis by (auto simp: valid_cluster_def word_le_nat_alt)
qed

text \<open>A volume of two clusters: both are free, and none is found.\<close>

theorem last_clusters_never_found_witness:
  "let f = sample_fat\<lparr>fs := sample_fs\<lparr>total_clusters := 2\<rparr>, disk := (\<lambda>_ _. 0)\<rparr>
   in fst (find_free_cluster f) = 0 \<and> fat_of f 2 = 0 \<and> fat_of f 3 = 0"
proof -
  define f where "f = sample_fat\<lparr>fs := sample_fs\<lparr>total_clusters := 2\<rparr>, disk := (\<lambda>_ _. 0)\<rparr>"
  have "fat_ok f" "0 < total_clusters (fs f)" by (simp_all add: f_def fat_ok_def sample_fs_def)
  moreover have "\<forall>c. valid_cluster f c \<and> c < total_clusters (fs f) \<longrightarrow> fat_of f c \<noteq> 0"
    by (auto simp: f_def valid_cluster_def sample_fs_def word_less_nat_alt)
  moreover have "fat_of f c = 0" for c by (simp add: fat_of_def f_def le32_def)
  ultimately show ?thesis using last_clusters_never_found [of f] unfolding f_def[symmetric] Let_def by blast
qed

end
