(* ===== verification/Fat_Dir.thy ===== *)
theory Fat_Dir
  imports Fat_Chain
begin

text \<open>
  Directories of \<^verbatim>\<open>kernel/fs/fat32.c\<close>: the fields of a directory entry in the cluster buffer, the
  node cache, and the operations that search and extend a directory.  A pointer to a
  \<^verbatim>\<open>struct vfs_node\<close> is a number, 0 for the root node and \<open>Suc i\<close> for slot \<open>i\<close> of the cache; every
  call in the repository passes a node that is not null.  A pointer to an entry is its index in
  the cluster buffer.
\<close>

section \<open>Directory entries\<close>

abbreviation ATTR_VOLUME_ID :: u8 where "ATTR_VOLUME_ID \<equiv> 0x08"
abbreviation ATTR_DIRECTORY :: u8 where "ATTR_DIRECTORY \<equiv> 0x10"
abbreviation ATTR_ARCHIVE :: u8 where "ATTR_ARCHIVE \<equiv> 0x20"
abbreviation ATTR_LFN :: u8 where "ATTR_LFN \<equiv> 0x0F"
abbreviation VFS_FILE :: u32 where "VFS_FILE \<equiv> 1"
abbreviation VFS_DIRECTORY :: u32 where "VFS_DIRECTORY \<equiv> 2"
abbreviation DELETED :: u8 where "DELETED \<equiv> 0xE5"

definition ent_name :: "bytes \<Rightarrow> nat \<Rightarrow> u8 list" where
  "ent_name b i = get_list b (32 * i) 11"

definition ent_attr :: "bytes \<Rightarrow> nat \<Rightarrow> u8" where
  "ent_attr b i = b (32 * i + 11)"

definition ent_cluster :: "bytes \<Rightarrow> nat \<Rightarrow> u32" where
  "ent_cluster b i = push_bit 16 (ucast (le16 b (32 * i + 20))) OR ucast (le16 b (32 * i + 26))"

definition ent_size :: "bytes \<Rightarrow> nat \<Rightarrow> u32" where
  "ent_size b i = le32 b (32 * i + 28)"

definition set_ent_name :: "nat \<Rightarrow> u8 list \<Rightarrow> bytes \<Rightarrow> bytes" where
  "set_ent_name i n b = put_list b (32 * i) n"

definition set_ent_attr :: "nat \<Rightarrow> u8 \<Rightarrow> bytes \<Rightarrow> bytes" where
  "set_ent_attr i a b = b(32 * i + 11 := a)"

definition set_ent_cluster :: "nat \<Rightarrow> u32 \<Rightarrow> bytes \<Rightarrow> bytes" where
  "set_ent_cluster i c b = put16 (put16 b (32 * i + 26) (ucast (c AND 0xFFFF))) (32 * i + 20)
     (ucast (drop_bit 16 c AND 0xFFFF))"

definition set_ent_size :: "nat \<Rightarrow> u32 \<Rightarrow> bytes \<Rightarrow> bytes" where
  "set_ent_size i v b = put32 b (32 * i + 28) v"

definition entries_per_cluster :: "'a fat_scheme \<Rightarrow> nat" where
  "entries_per_cluster f = unat (bytes_per_cluster (fs f) div 32)"

definition is_lfn :: "bytes \<Rightarrow> nat \<Rightarrow> bool" where
  "is_lfn b i \<longleftrightarrow> ent_attr b i AND ATTR_LFN = ATTR_LFN"

section \<open>Searching\<close>

text \<open>
  The loop over the entries of one cluster: it stops at the end marker, skips deleted entries
  and stops at the first entry that is wanted.
\<close>

datatype scan = Hit nat | EndMark | NoHit

fun scan_entries :: "(nat \<Rightarrow> bool) \<Rightarrow> bytes \<Rightarrow> nat list \<Rightarrow> scan" where
  "scan_entries want b [] = NoHit"
| "scan_entries want b (i # is) =
     (if b (32 * i) = 0 then EndMark
      else if b (32 * i) = DELETED then scan_entries want b is
      else if want i then Hit i else scan_entries want b is)"

text \<open>
  The walk along the clusters of a directory: the body sees each cluster in the buffer and
  answers a result (\<open>Inl\<close>), which the walk returns with the cluster, or what it carries to the
  next cluster (\<open>Inr\<close>).
\<close>

partial_function (option) walk_dir ::
  "('b \<Rightarrow> bytes \<Rightarrow> nat \<Rightarrow> 'r + 'b) \<Rightarrow> 'b \<Rightarrow> u32 \<Rightarrow> 'a fat_scheme \<Rightarrow> ((u32 \<times> 'r + 'b) \<times> 'a fat_scheme) option" where
  "walk_dir body acc cluster f =
     (if is_end_of_chain cluster then Some (Inr acc, f)
      else let f = load_cluster cluster f in
        case body acc (cluster_buffer f) (entries_per_cluster f) of
          Inl r \<Rightarrow> Some (Inl (cluster, r), f)
        | Inr acc \<Rightarrow> (case get_next_cluster cluster f of (nxt, f) \<Rightarrow> walk_dir body acc nxt f))"

definition wants_entry :: "u8 list \<Rightarrow> bytes \<Rightarrow> nat \<Rightarrow> bool" where
  "wants_entry fat_name b i \<longleftrightarrow> \<not> is_lfn b i \<and> strncmp (ent_name b i) fat_name 11 = 0"

definition node_of :: "nat \<Rightarrow> 'a fat_scheme \<Rightarrow> vfs_node" where
  "node_of r f = (case r of 0 \<Rightarrow> root_node f | Suc i \<Rightarrow> node_cache f i)"

definition upd_node :: "nat \<Rightarrow> (vfs_node \<Rightarrow> vfs_node) \<Rightarrow> 'a fat_scheme \<Rightarrow> 'a fat_scheme" where
  "upd_node r g f = (case r of 0 \<Rightarrow> f\<lparr>root_node := g (root_node f)\<rparr>
     | Suc i \<Rightarrow> f\<lparr>node_cache := (node_cache f)(i := g (node_cache f i))\<rparr>)"

definition is_dir :: "nat \<Rightarrow> 'a fat_scheme \<Rightarrow> bool" where
  "is_dir r f \<longleftrightarrow> v_flags (node_of r f) AND VFS_DIRECTORY \<noteq> 0"

definition is_file :: "nat \<Rightarrow> 'a fat_scheme \<Rightarrow> bool" where
  "is_file r f \<longleftrightarrow> v_flags (node_of r f) AND VFS_FILE \<noteq> 0"

text \<open>
  The search of a cluster for an entry: \<open>None\<close> is the end marker, at which the search ends.
  \<open>find_entry_in_dir\<close> answers an error, or the index of the entry and its cluster.
\<close>

definition scan_body :: "(bytes \<Rightarrow> nat \<Rightarrow> bool) \<Rightarrow> unit \<Rightarrow> bytes \<Rightarrow> nat \<Rightarrow> nat option + unit" where
  "scan_body want u b n =
     (case scan_entries (want b) b [0..<n] of
        EndMark \<Rightarrow> Inl None | Hit i \<Rightarrow> Inl (Some i) | NoHit \<Rightarrow> Inr ())"

definition find_entry_in_dir :: "nat \<Rightarrow> u8 list \<Rightarrow> 'a fat_scheme \<Rightarrow> ((c_int + nat \<times> u32) \<times> 'a fat_scheme) option" where
  "find_entry_in_dir dir fat_name f =
     (if \<not> is_dir dir f then Some (Inl FAT32_E_NOTDIR, f)
      else do {
        (r, f) \<leftarrow> walk_dir (scan_body (wants_entry fat_name)) () (v_inode (node_of dir f)) f;
        Some (case r of Inl (cluster, Some i) \<Rightarrow> Inr (i, cluster) | _ \<Rightarrow> Inl FAT32_E_NOENT, f)
      })"

text \<open>
  The loop of \<^verbatim>\<open>ensure_dir_slot\<close>: the free slot it finds, or the last cluster of the directory.
\<close>

definition free_slot :: "'a fat_scheme \<Rightarrow> nat option" where
  "free_slot f = List.find (\<lambda>i. cluster_buffer f (32 * i) = 0 \<or> cluster_buffer f (32 * i) = DELETED)
     [0..<entries_per_cluster f]"

partial_function (option) slot_loop :: "u32 \<Rightarrow> 'a fat_scheme \<Rightarrow> ((nat option \<times> u32) \<times> 'a fat_scheme) option" where
  "slot_loop cluster f =
     (if is_end_of_chain cluster then Some ((None, cluster), f)
      else let f = load_cluster cluster f in
        case free_slot f of
          Some i \<Rightarrow> Some ((Some i, cluster), f)
        | None \<Rightarrow> (case get_next_cluster cluster f of (nxt, f) \<Rightarrow>
            if is_end_of_chain nxt then Some ((None, cluster), f) else slot_loop nxt f))"

definition extend_dir :: "u32 \<Rightarrow> 'a fat_scheme \<Rightarrow> (c_int + nat \<times> u32) \<times> 'a fat_scheme" where
  "extend_dir cluster f =
     (case alloc_cluster_zeroed f of (new_cluster, f) \<Rightarrow>
        if new_cluster = 0 then (Inl FAT32_E_NOSPC, f)
        else case append_cluster cluster new_cluster f of (st, f) \<Rightarrow>
          if st \<noteq> FAT32_E_OK then (Inl FAT32_E_INVAL, set_fat_entry new_cluster 0 f)
          else (Inr (0, new_cluster), load_cluster new_cluster f))"

definition ensure_dir_slot :: "nat \<Rightarrow> 'a fat_scheme \<Rightarrow> ((c_int + nat \<times> u32) \<times> 'a fat_scheme) option" where
  "ensure_dir_slot dir f =
     (if \<not> is_dir dir f then Some (Inl FAT32_E_NOTDIR, f)
      else do {
        ((slot, cluster), f) \<leftarrow> slot_loop (v_inode (node_of dir f)) f;
        Some (case slot of Some i \<Rightarrow> (Inr (i, cluster), f) | None \<Rightarrow> extend_dir cluster f)
      })"

section \<open>Nodes\<close>

abbreviation NODE_CACHE_SIZE :: nat where "NODE_CACHE_SIZE \<equiv> 64"

definition alloc_node :: "'a fat_scheme \<Rightarrow> nat option \<times> 'a fat_scheme" where
  "alloc_node f =
     (if node_cache_used f < NODE_CACHE_SIZE
      then (Some (Suc (node_cache_used f)), f\<lparr>node_cache_used := node_cache_used f + 1\<rparr>)
      else (None, f))"

definition new_node :: "nat \<Rightarrow> bytes \<Rightarrow> vfs_node \<Rightarrow> vfs_node" where
  "new_node i b n =
     (let n = n\<lparr>v_name := fat32_name_to_string (ent_name b i), v_inode := ent_cluster b i,
                v_size := ent_size b i, private_data := 0\<rparr>;
          d = (ent_attr b i AND ATTR_DIRECTORY \<noteq> 0)
      in n\<lparr>v_flags := (if d then VFS_DIRECTORY else VFS_FILE), v_read := \<not> d, v_write := \<not> d,
           v_readdir := d, v_finddir := d\<rparr>)"

definition create_node :: "nat \<Rightarrow> 'a fat_scheme \<Rightarrow> nat option \<times> 'a fat_scheme" where
  "create_node i f =
     (let b = cluster_buffer f; cluster = ent_cluster b i;
          hit = (if cluster \<ge> 2
                 then List.find (\<lambda>j. v_inode (node_cache f j) = cluster) [0..<node_cache_used f] else None)
      in case hit of
           Some j \<Rightarrow> (Some (Suc j), upd_node (Suc j)
             (\<lambda>n. n\<lparr>v_name := fat32_name_to_string (ent_name b i), v_size := ent_size b i\<rparr>) f)
         | None \<Rightarrow> (case alloc_node f of
             (None, f) \<Rightarrow> (None, f)
           | (Some r, f) \<Rightarrow> (Some r, upd_node r (new_node i b) f)))"

section \<open>Listing and looking up\<close>

definition listed :: "bytes \<Rightarrow> nat \<Rightarrow> bool" where
  "listed b i \<longleftrightarrow> \<not> is_lfn b i \<and> ent_attr b i AND ATTR_VOLUME_ID = 0"

text \<open>The scan of \<^verbatim>\<open>fat32_readdir\<close>: the entry, the end of the directory, or the count so far.\<close>

fun readdir_scan :: "bytes \<Rightarrow> u32 \<Rightarrow> nat list \<Rightarrow> u32 \<Rightarrow> nat option + u32" where
  "readdir_scan b index [] n = Inr n"
| "readdir_scan b index (i # is) n =
     (if b (32 * i) = 0 then Inl None
      else if b (32 * i) = DELETED then readdir_scan b index is n
      else if \<not> listed b i then readdir_scan b index is n
      else if b (32 * i) = DOT then readdir_scan b index is n
      else if n = index then Inl (Some i) else readdir_scan b index is (n + 1))"

definition readdir_body :: "u32 \<Rightarrow> u32 \<Rightarrow> bytes \<Rightarrow> nat \<Rightarrow> nat option + u32" where
  "readdir_body index n b entries = readdir_scan b index [0..<entries] n"

definition fat32_readdir :: "nat \<Rightarrow> u32 \<Rightarrow> 'a fat_scheme \<Rightarrow> (bool \<times> 'a fat_scheme) option" where
  "fat32_readdir node index f =
     (if \<not> is_dir node f then Some (False, f)
      else if bytes_per_cluster (fs f) = 0 \<or> bytes_per_cluster (fs f) > CLUSTER_BUFFER_SIZE then Some (False, f)
      else do {
        (r, f) \<leftarrow> walk_dir (readdir_body index) 0 (v_inode (node_of node f)) f;
        Some (case r of
            Inl (_, Some i) \<Rightarrow> (True, f\<lparr>dirent_buf := \<lparr>d_name = fat32_name_to_string (ent_name (cluster_buffer f) i),
                                                d_inode = ent_cluster (cluster_buffer f) i\<rparr>\<rparr>)
          | _ \<Rightarrow> (False, f))
      })"

definition wants_listed :: "u8 list \<Rightarrow> bytes \<Rightarrow> nat \<Rightarrow> bool" where
  "wants_listed fat_name b i \<longleftrightarrow> listed b i \<and> strncmp (ent_name b i) fat_name 11 = 0"

definition fat32_finddir :: "nat \<Rightarrow> cstr \<Rightarrow> 'a fat_scheme \<Rightarrow> (nat option \<times> 'a fat_scheme) option" where
  "fat32_finddir node name f =
     (if \<not> is_dir node f then Some (None, f)
      else do {
        (r, f) \<leftarrow> walk_dir (scan_body (wants_listed (string_to_fat32_name name))) () (v_inode (node_of node f)) f;
        Some (case r of
            Inl (_, Some i) \<Rightarrow>
              (case create_node i f of
                 (None, f) \<Rightarrow> (None, f)
               | (Some child, f) \<Rightarrow> (Some child, upd_node child (\<lambda>n. n\<lparr>private_data := v_inode (node_of node f)\<rparr>) f))
          | _ \<Rightarrow> (None, f))
      })"

end
