(* ===== verification/Fat_File.thy ===== *)
theory Fat_File
  imports Fat_Dir
begin

text \<open>
  Files of \<^verbatim>\<open>kernel/fs/fat32.c\<close>: reading and writing along the cluster chain, flushing the len to
  the directory entry, truncation, and the operations of \<^verbatim>\<open>vfs.c\<close> that dispatch to them.  A read
  that copies beyond the cluster buffer is \<open>Undef\<close>; the bytes read are the result, the bytes
  to write an argument.
\<close>

section \<open>Reading\<close>

text \<open>The loop that skips to the cluster of the offset: the position and cluster it ends at.\<close>

partial_function (option) skip_loop :: "u32 \<Rightarrow> u32 \<Rightarrow> u32 \<Rightarrow> 'a fat_scheme \<Rightarrow> ((u32 \<times> u32) \<times> 'a fat_scheme) option" where
  "skip_loop offset file_pos cluster f =
     (if \<not> (file_pos + bytes_per_cluster (fs f) \<le> offset \<and> \<not> is_end_of_chain cluster)
      then Some ((file_pos, cluster), f)
      else let file_pos = file_pos + bytes_per_cluster (fs f) in
        case get_next_cluster cluster f of (nxt, f) \<Rightarrow> skip_loop offset file_pos nxt f)"

definition read_amount :: "u32 \<Rightarrow> u32 \<Rightarrow> u32 \<Rightarrow> u32 \<Rightarrow> u32 \<Rightarrow> u32 \<Rightarrow> u32 \<times> u32" where
  "read_amount cluster_bytes offset len node_size file_pos bytes_read =
     (let cluster_offset = (if file_pos < offset then offset - file_pos else 0);
          to_copy = cluster_bytes - cluster_offset;
          to_copy = (if to_copy > len - bytes_read then len - bytes_read else to_copy);
          to_copy = (if file_pos + cluster_offset + to_copy > node_size
                     then node_size - file_pos - cluster_offset else to_copy)
      in (cluster_offset, to_copy))"

partial_function (option) read_loop ::
  "u32 \<Rightarrow> u32 \<Rightarrow> u32 \<Rightarrow> u32 \<Rightarrow> u32 \<Rightarrow> u8 list \<Rightarrow> 'a fat_scheme \<Rightarrow> (u8 list outcome \<times> 'a fat_scheme) option" where
  "read_loop offset len node_size file_pos cluster out f =
     (if \<not> (of_nat (length out) < len \<and> \<not> is_end_of_chain cluster) then Some (Done out, f)
      else let f = load_cluster cluster f in
        case read_amount (bytes_per_cluster (fs f)) offset len node_size file_pos (of_nat (length out)) of
          (co, n) \<Rightarrow>
            if unat co + unat n > unat CLUSTER_BUFFER_SIZE then Some (Undef, f)
            else let out = out @ get_list (cluster_buffer f) (unat co) (unat n);
                     file_pos = file_pos + bytes_per_cluster (fs f)
                 in case get_next_cluster cluster f of
                      (nxt, f) \<Rightarrow> read_loop offset len node_size file_pos nxt out f)"

text \<open>The result of a read: -1, or the bytes, whose number the function returns.\<close>

definition fat32_read :: "nat \<Rightarrow> u32 \<Rightarrow> u32 \<Rightarrow> 'a fat_scheme \<Rightarrow> (u8 list option outcome \<times> 'a fat_scheme) option" where
  "fat32_read node offset len f =
     (if \<not> is_file node f then Some (Done None, f)
      else if bytes_per_cluster (fs f) = 0 \<or> bytes_per_cluster (fs f) > CLUSTER_BUFFER_SIZE then Some (Done None, f)
      else do {
        ((file_pos, cluster), f) \<leftarrow> skip_loop offset 0 (v_inode (node_of node f)) f;
        (r, f) \<leftarrow> read_loop offset len (v_size (node_of node f)) file_pos cluster [] f;
        Some (case r of Done out \<Rightarrow> Done (Some out) | Undef \<Rightarrow> Undef, f)
      })"

section \<open>Writing\<close>

text \<open>The next cluster of a chain, allocated when the chain ends; \<open>None\<close> when the disk is full.\<close>

definition next_or_new :: "u32 \<Rightarrow> 'a fat_scheme \<Rightarrow> u32 option \<times> 'a fat_scheme" where
  "next_or_new cluster f =
     (case get_next_cluster cluster f of (nxt, f) \<Rightarrow>
        if is_end_of_chain nxt
        then (case alloc_cluster_zeroed f of (new_cl, f) \<Rightarrow>
          if new_cl = 0 then (None, f) else (Some new_cl, snd (append_cluster cluster new_cl f)))
        else (Some nxt, f))"

partial_function (option) seek_loop :: "u32 \<Rightarrow> u32 \<Rightarrow> u32 \<Rightarrow> 'a fat_scheme \<Rightarrow> ((u32 \<times> u32) option \<times> 'a fat_scheme) option" where
  "seek_loop offset file_pos cluster f =
     (if \<not> file_pos + bytes_per_cluster (fs f) \<le> offset then Some (Some (file_pos, cluster), f)
      else case next_or_new cluster f of
             (None, f) \<Rightarrow> Some (None, f)
           | (Some nxt, f) \<Rightarrow> seek_loop offset (file_pos + bytes_per_cluster (fs f)) nxt f)"

text \<open>The loop that writes: the number of bytes written when it ends.\<close>

partial_function (option) write_loop ::
  "u32 \<Rightarrow> u32 \<Rightarrow> bytes \<Rightarrow> u32 \<Rightarrow> u32 \<Rightarrow> u32 \<Rightarrow> 'a fat_scheme \<Rightarrow> (u32 \<times> 'a fat_scheme) option" where
  "write_loop offset len buf file_pos cluster written f =
     (if \<not> written < len then Some (written, f)
      else let f = load_cluster cluster f;
               co = (if file_pos < offset then offset - file_pos else 0);
               n = bytes_per_cluster (fs f) - co;
               n = (if n > len - written then len - written else n);
               f = edit_buffer (\<lambda>b. blit b (unat co) buf (unat written) (unat n)) f;
               f = store_cluster cluster f;
               written = written + n;
               file_pos = file_pos + bytes_per_cluster (fs f)
           in if written < len
              then (case next_or_new cluster f of
                      (None, f) \<Rightarrow> Some (written, f)
                    | (Some nxt, f) \<Rightarrow> write_loop offset len buf file_pos nxt written f)
              else write_loop offset len buf file_pos cluster written f)"

text \<open>The cluster to start at: the first of the file, allocated when it has none.\<close>

definition first_cluster :: "nat \<Rightarrow> 'a fat_scheme \<Rightarrow> u32 option \<times> 'a fat_scheme" where
  "first_cluster node f =
     (let cluster = v_inode (node_of node f) in
      if cluster < 2
      then (case alloc_cluster_zeroed f of (cl, f) \<Rightarrow>
        if cl = 0 then (None, f) else (Some cl, upd_node node (\<lambda>n. n\<lparr>v_inode := cl\<rparr>) f))
      else (Some cluster, f))"

definition fat32_write :: "nat \<Rightarrow> u32 \<Rightarrow> u32 \<Rightarrow> bytes \<Rightarrow> 'a fat_scheme \<Rightarrow> (c_int \<times> 'a fat_scheme) option" where
  "fat32_write node offset len buf f =
     (if \<not> is_file node f then Some (-1, f)
      else if len = 0 then Some (0, f)
      else if bytes_per_cluster (fs f) = 0 \<or> bytes_per_cluster (fs f) > CLUSTER_BUFFER_SIZE then Some (-1, f)
      else case first_cluster node f of
          (None, f) \<Rightarrow> Some (-1, f)
        | (Some cluster, f) \<Rightarrow> do {
            (r, f) \<leftarrow> seek_loop offset 0 cluster f;
            (case r of
               None \<Rightarrow> Some (-1, f)
             | Some (file_pos, cluster) \<Rightarrow> do {
                 (written, f) \<leftarrow> write_loop offset len buf file_pos cluster 0 f;
                 Some (ucast written,
                   if offset + written > v_size (node_of node f)
                   then upd_node node (\<lambda>n. n\<lparr>v_size := offset + written\<rparr>) f else f)
               })
          })"

section \<open>Sizes\<close>

definition fat32_flush_size :: "nat \<Rightarrow> 'a fat_scheme \<Rightarrow> (c_int \<times> 'a fat_scheme) option" where
  "fat32_flush_size node f =
     (if \<not> is_file node f then Some (-1, f)
      else if private_data (node_of node f) < 2 then Some (-1, f)
      else do {
        (r, f) \<leftarrow> walk_dir (scan_body (wants_entry (string_to_fat32_name (v_name (node_of node f))))) ()
                    (private_data (node_of node f)) f;
        Some (case r of
            Inl (cluster, Some i) \<Rightarrow> (0, store_cluster cluster (edit_buffer
              (set_ent_cluster i (v_inode (node_of node f)) \<circ> set_ent_size i (v_size (node_of node f))) f))
          | _ \<Rightarrow> (-1, f))
      })"

definition fat32_truncate :: "nat \<Rightarrow> c_int \<Rightarrow> 'a fat_scheme \<Rightarrow> (c_int \<times> 'a fat_scheme) option" where
  "fat32_truncate node len f =
     (if \<not> is_file node f then Some (FAT32_E_INVAL, f)
      else if len = 0
      then do {
        f \<leftarrow> (if v_inode (node_of node f) \<ge> 2 then free_cluster_chain (v_inode (node_of node f)) f else Some f);
        Some (FAT32_E_OK, upd_node node (\<lambda>n. n\<lparr>v_inode := 0, v_size := 0\<rparr>) f)
      }
      else Some (FAT32_E_OK, f))"

section \<open>Dispatch\<close>

text \<open>The operations of \<^verbatim>\<open>vfs.c\<close>: a node without the operation answers -1 or null.\<close>

definition vfs_read :: "nat \<Rightarrow> u32 \<Rightarrow> u32 \<Rightarrow> 'a fat_scheme \<Rightarrow> (u8 list option outcome \<times> 'a fat_scheme) option" where
  "vfs_read node offset len f =
     (if v_read (node_of node f) then fat32_read node offset len f else Some (Done None, f))"

definition vfs_write :: "nat \<Rightarrow> u32 \<Rightarrow> u32 \<Rightarrow> bytes \<Rightarrow> 'a fat_scheme \<Rightarrow> (c_int \<times> 'a fat_scheme) option" where
  "vfs_write node offset len buf f =
     (if v_write (node_of node f) then fat32_write node offset len buf f else Some (-1, f))"

definition vfs_readdir :: "nat \<Rightarrow> u32 \<Rightarrow> 'a fat_scheme \<Rightarrow> (bool \<times> 'a fat_scheme) option" where
  "vfs_readdir node index f =
     (if is_dir node f \<and> v_readdir (node_of node f) then fat32_readdir node index f else Some (False, f))"

definition vfs_finddir :: "nat \<Rightarrow> cstr \<Rightarrow> 'a fat_scheme \<Rightarrow> (nat option \<times> 'a fat_scheme) option" where
  "vfs_finddir node name f =
     (if is_dir node f \<and> v_finddir (node_of node f) then fat32_finddir node name f else Some (None, f))"

end
