(* ===== verification/Vfs.thy ===== *)
theory Vfs
  imports Fat_File
begin

text \<open>
  Path resolution (\<^verbatim>\<open>kernel/fs/vfs.c\<close>) and the operations of \<^verbatim>\<open>fat32.c\<close> that work on names and paths:
  creating, removing and moving files and directories.  \<^verbatim>\<open>vfs_resolve_path\<close> reaches a file system
  only through the \<^verbatim>\<open>finddir\<close> pointer of its nodes, so the lookup is an argument of the model.
\<close>

section \<open>Path resolution\<close>

text \<open>
  One turn of the outer loop consumes a component: the bytes up to the next slash, of which
  the first 127 are kept, and the slash.
\<close>

fun split_component :: "cstr \<Rightarrow> cstr \<times> cstr" where
  "split_component [] = ([], [])"
| "split_component (c # s) =
     (if c = SLASH then ([], s) else (case split_component s of (w, r) \<Rightarrow> (c # w, r)))"

definition next_component :: "cstr \<Rightarrow> cstr \<times> cstr" where
  "next_component path = (case split_component path of (w, r) \<Rightarrow> (take (VFS_MAX_NAME - 1) w, r))"

lemma split_component_shorter: "path \<noteq> [] \<Longrightarrow> length (snd (split_component path)) < length path"
proof (induction path rule: split_component.induct)
  case (2 c s)
  then show ?case by (cases "s = []") (auto split: prod.splits)
qed simp

lemma next_component_shorter: "path \<noteq> [] \<Longrightarrow> length (snd (next_component path)) < length path"
  using split_component_shorter[of path] by (cases "split_component path") (simp add: next_component_def)

text \<open>\<^verbatim>\<open>stack\<close> holds the nodes above the current one, the last pushed first.\<close>

abbreviation STACK_SIZE :: nat where "STACK_SIZE \<equiv> 128"

function resolve_loop ::
  "('n \<Rightarrow> cstr \<Rightarrow> 's \<Rightarrow> ('n option \<times> 's) option) \<Rightarrow> 'n \<Rightarrow> cstr \<Rightarrow> 'n list \<Rightarrow> 'n \<Rightarrow> 's \<Rightarrow> ('n option \<times> 's) option" where
  "resolve_loop finddir root path stack cur s =
     (if path = [] then Some (Some cur, s)
      else case next_component path of (w, rest) \<Rightarrow>
        if w = [] then resolve_loop finddir root rest stack cur s
        else if w = [DOT] then resolve_loop finddir root rest stack cur s
        else if w = [DOT, DOT] then
          (case stack of
             up # stack' \<Rightarrow> resolve_loop finddir root rest stack' up s
           | [] \<Rightarrow> resolve_loop finddir root rest stack root s)
        else if length stack < STACK_SIZE then
          (case finddir cur w s of
             None \<Rightarrow> None
           | Some (None, s) \<Rightarrow> Some (None, s)
           | Some (Some nxt, s) \<Rightarrow> resolve_loop finddir root rest (cur # stack) nxt s)
        else Some (None, s))"
  by pat_completeness auto
termination
  by (relation "measure (\<lambda>(_, _, path, _). length path)")
     (use next_component_shorter in \<open>fastforce simp: prod_eq_iff\<close>)+

declare resolve_loop.simps [simp del]

definition vfs_resolve_path ::
  "('n \<Rightarrow> cstr \<Rightarrow> 's \<Rightarrow> ('n option \<times> 's) option) \<Rightarrow> 'n option \<Rightarrow> cstr \<Rightarrow> 's \<Rightarrow> ('n option \<times> 's) option" where
  "vfs_resolve_path finddir root path s =
     (case root of None \<Rightarrow> Some (None, s)
      | Some root \<Rightarrow>
          if byte_at path 0 = SLASH \<and> byte_at path 1 = 0 then Some (Some root, s)
          else resolve_loop finddir root (if byte_at path 0 = SLASH then drop 1 path else path) [] root s)"

text \<open>The global \<^verbatim>\<open>root_node\<close> of \<^verbatim>\<open>vfs.c\<close>, beside the state of the file system.\<close>

record volume = fat +
  vfs_root_node :: "nat option"

definition vfs_root :: "'a volume_scheme \<Rightarrow> nat option" where
  "vfs_root f = vfs_root_node f"

definition vfs_set_root :: "nat option \<Rightarrow> 'a volume_scheme \<Rightarrow> 'a volume_scheme" where
  "vfs_set_root node f = f\<lparr>vfs_root_node := node\<rparr>"

definition resolve :: "cstr \<Rightarrow> 'a volume_scheme \<Rightarrow> (nat option \<times> 'a volume_scheme) option" where
  "resolve path f = vfs_resolve_path vfs_finddir (vfs_root_node f) path f"

section \<open>Creating and removing\<close>

definition dir_is_empty :: "nat \<Rightarrow> 'a fat_scheme \<Rightarrow> (bool \<times> 'a fat_scheme) option" where
  "dir_is_empty dir f =
     (if \<not> is_dir dir f then Some (False, f)
      else do { (found, f) \<leftarrow> vfs_readdir dir 0 f; Some (\<not> found, f) })"

text \<open>\<^verbatim>\<open>fat32_mkdir\<close> uses the first cluster of the parent only and stops at the first entry never used.\<close>

definition new_dir_cluster :: "u32 \<Rightarrow> u32 \<Rightarrow> 'a fat_scheme \<Rightarrow> 'a fat_scheme" where
  "new_dir_cluster cl parent f =
     (let f = set_fat_entry cl END_OF_CHAIN f;
          f = edit_buffer (\<lambda>b k. if k < unat (bytes_per_cluster (fs f)) then 0 else b k) f;
          f = edit_buffer (set_ent_cluster 0 cl \<circ> set_ent_attr 0 ATTR_DIRECTORY \<circ> set_ent_name 0 (pad 11 [DOT])) f;
          f = edit_buffer (set_ent_cluster 1 parent \<circ> set_ent_attr 1 ATTR_DIRECTORY \<circ> set_ent_name 1 (pad 11 [DOT, DOT])) f
      in store_cluster cl f)"

definition fat32_mkdir :: "nat \<Rightarrow> cstr \<Rightarrow> 'a fat_scheme \<Rightarrow> c_int \<times> 'a fat_scheme" where
  "fat32_mkdir parent name f =
     (case find_free_cluster f of (cl, f) \<Rightarrow>
        if cl = 0 then (-1, f)
        else let p = v_inode (node_of parent f);
                 f = load_cluster p (new_dir_cluster cl p f);
                 f = (case List.find (\<lambda>i. cluster_buffer f (32 * i) = 0) [0..<entries_per_cluster f] of
                        None \<Rightarrow> f
                      | Some i \<Rightarrow> edit_buffer (set_ent_size i 0 \<circ> set_ent_cluster i cl \<circ> set_ent_attr i ATTR_DIRECTORY \<circ>
                                    set_ent_name i (string_to_fat32_name name)) f)
             in (0, store_cluster p f))"

definition fat32_create_file :: "nat \<Rightarrow> cstr \<Rightarrow> 'a fat_scheme \<Rightarrow> (nat option \<times> 'a fat_scheme) option" where
  "fat32_create_file parent name f =
     (if \<not> is_dir parent f then Some (None, f)
      else if is_special_name name then Some (None, f)
      else do {
        (existing, f) \<leftarrow> fat32_finddir parent name f;
        if existing \<noteq> None then Some (None, f)
        else do {
          (slot, f) \<leftarrow> ensure_dir_slot parent f;
          (case slot of
             Inl _ \<Rightarrow> Some (None, f)
           | Inr (i, slot_cluster) \<Rightarrow>
               let f = edit_buffer (set_ent_size i 0 \<circ> set_ent_cluster i 0 \<circ> set_ent_attr i ATTR_ARCHIVE \<circ>
                         set_ent_name i (string_to_fat32_name name)) f;
                   f = store_cluster slot_cluster f
               in do {
                 (node, f) \<leftarrow> fat32_finddir parent name f;
                 Some (case node of
                     None \<Rightarrow> (None, f)
                   | Some n \<Rightarrow> (Some n, upd_node n (\<lambda>x. x\<lparr>private_data := v_inode (node_of parent f)\<rparr>) f))
               })
        }
      })"

definition mark_deleted :: "nat \<Rightarrow> u32 \<Rightarrow> 'a fat_scheme \<Rightarrow> 'a fat_scheme" where
  "mark_deleted i cluster f = store_cluster cluster (edit_buffer (\<lambda>b. b(32 * i := DELETED)) f)"

definition fat32_unlink :: "nat \<Rightarrow> cstr \<Rightarrow> 'a fat_scheme \<Rightarrow> (c_int \<times> 'a fat_scheme) option" where
  "fat32_unlink parent name f =
     (if \<not> is_dir parent f then Some (FAT32_E_INVAL, f)
      else if is_special_name name then Some (FAT32_E_INVAL, f)
      else do {
        (r, f) \<leftarrow> find_entry_in_dir parent (string_to_fat32_name name) f;
        Some (case r of
            Inl st \<Rightarrow> (st, f)
          | Inr (i, cluster) \<Rightarrow>
              if ent_attr (cluster_buffer f) i AND ATTR_DIRECTORY \<noteq> 0 then (FAT32_E_ISDIR, f)
              else (FAT32_E_OK, mark_deleted i cluster f))
      })"

text \<open>The end of \<^verbatim>\<open>fat32_rmdir\<close>, after the directory was found to be empty.\<close>

definition remove_dir_entry :: "nat \<Rightarrow> u8 list \<Rightarrow> 'a fat_scheme \<Rightarrow> (c_int \<times> 'a fat_scheme) option" where
  "remove_dir_entry parent fat_name f = do {
     (r, f) \<leftarrow> find_entry_in_dir parent fat_name f;
     (case r of
        Inl st \<Rightarrow> Some (st, f)
      | Inr (i, cluster) \<Rightarrow>
          let first = ent_cluster (cluster_buffer f) i in do {
            f \<leftarrow> (if first \<ge> 2 \<and> first \<noteq> root_cluster (fs f) then free_cluster_chain first f else Some f);
            Some (FAT32_E_OK, mark_deleted i cluster f)
          })
   }"

definition fat32_rmdir :: "nat \<Rightarrow> cstr \<Rightarrow> 'a fat_scheme \<Rightarrow> (c_int \<times> 'a fat_scheme) option" where
  "fat32_rmdir parent name f =
     (if \<not> is_dir parent f then Some (FAT32_E_INVAL, f)
      else if is_special_name name then Some (FAT32_E_INVAL, f)
      else do {
        (r, f) \<leftarrow> find_entry_in_dir parent (string_to_fat32_name name) f;
        (case r of
           Inl st \<Rightarrow> Some (st, f)
         | Inr (i, cluster) \<Rightarrow>
             if ent_attr (cluster_buffer f) i AND ATTR_DIRECTORY = 0 then Some (FAT32_E_NOTDIR, f)
             else do {
               (d, f) \<leftarrow> fat32_finddir parent name f;
               (case d of
                  None \<Rightarrow> Some (FAT32_E_NOENT, f)
                | Some d \<Rightarrow> do {
                    (empty, f) \<leftarrow> dir_is_empty d f;
                    if \<not> empty then Some (FAT32_E_NOTEMPTY, f)
                    else remove_dir_entry parent (string_to_fat32_name name) f
                  })
             })
      })"

section \<open>Moving\<close>

definition entry_in_place :: "nat \<Rightarrow> u8 list \<Rightarrow> u8 \<Rightarrow> u32 \<Rightarrow> u32 \<Rightarrow> bytes \<Rightarrow> bytes" where
  "entry_in_place i n a c v = set_ent_size i v \<circ> set_ent_cluster i c \<circ> set_ent_attr i a \<circ> set_ent_name i n"

text \<open>
  The part of \<^verbatim>\<open>fat32_rename\<close> after the source entry was found.  The rollback writes the buffer,
  which by then holds a cluster of the other directory, over the source cluster.
\<close>

definition move_entry :: "nat \<Rightarrow> u32 \<Rightarrow> u8 list \<Rightarrow> nat \<Rightarrow> u8 list \<Rightarrow> 'a fat_scheme \<Rightarrow> (c_int \<times> 'a fat_scheme) option" where
  "move_entry i cluster old_fat new_parent new_fat f =
     (let b = cluster_buffer f; attr = ent_attr b i; first = ent_cluster b i; sz = ent_size b i;
          f = mark_deleted i cluster f
      in do {
        (slot, f) \<leftarrow> ensure_dir_slot new_parent f;
        Some (case slot of
            Inl st \<Rightarrow> (st, store_cluster cluster (edit_buffer (set_ent_name i old_fat) f))
          | Inr (j, dst) \<Rightarrow>
              let f = store_cluster dst (edit_buffer (entry_in_place j new_fat attr first sz) f) in
              if attr AND ATTR_DIRECTORY \<noteq> 0 \<and> first \<ge> 2
              then (FAT32_E_OK, store_cluster first (edit_buffer (set_ent_cluster 1 (v_inode (node_of new_parent f)))
                      (load_cluster first f)))
              else (FAT32_E_OK, f))
      })"

definition fat32_rename :: "nat \<Rightarrow> cstr \<Rightarrow> nat \<Rightarrow> cstr \<Rightarrow> 'a fat_scheme \<Rightarrow> (c_int \<times> 'a fat_scheme) option" where
  "fat32_rename old_parent old_name new_parent new_name f =
     (if \<not> is_dir old_parent f \<or> \<not> is_dir new_parent f then Some (FAT32_E_NOTDIR, f)
      else if is_special_name old_name \<or> is_special_name new_name then Some (FAT32_E_INVAL, f)
      else do {
        (existing, f) \<leftarrow> fat32_finddir new_parent new_name f;
        if existing \<noteq> None then Some (FAT32_E_EXIST, f)
        else do {
          (r, f) \<leftarrow> find_entry_in_dir old_parent (string_to_fat32_name old_name) f;
          (case r of
             Inl st \<Rightarrow> Some (st, f)
           | Inr (i, cluster) \<Rightarrow>
               move_entry i cluster (string_to_fat32_name old_name) new_parent (string_to_fat32_name new_name) f)
        }
      })"

section \<open>Paths\<close>

text \<open>
  \<^verbatim>\<open>ensure_path_exists\<close>: a component longer than 127 bytes is cut into several, unlike in
  \<^verbatim>\<open>vfs_resolve_path\<close>.
\<close>

fun take_component :: "nat \<Rightarrow> cstr \<Rightarrow> cstr \<times> cstr" where
  "take_component len [] = ([], [])"
| "take_component len (c # s) =
     (if c \<noteq> SLASH \<and> len < VFS_MAX_NAME - 1
      then (case take_component (len + 1) s of (w, r) \<Rightarrow> (c # w, r)) else ([], c # s))"

definition skip_slash :: "cstr \<Rightarrow> cstr" where
  "skip_slash p = (if byte_at p 0 = SLASH then drop 1 p else p)"

lemma take_component_length: "length (fst (take_component n p)) + length (snd (take_component n p)) = length p"
  by (induction n p rule: take_component.induct) (auto split: prod.splits)

lemma take_component_shorter: "p \<noteq> [] \<Longrightarrow> length (skip_slash (snd (take_component 0 p))) < length p"
  using take_component_length[of 0 p] by (cases p) (auto simp: skip_slash_def split: prod.splits)

function ensure_loop :: "cstr \<Rightarrow> nat \<Rightarrow> 'a fat_scheme \<Rightarrow> (nat option \<times> 'a fat_scheme) option" where
  "ensure_loop p cur f =
     (if p = [] then Some (Some cur, f)
      else let w = fst (take_component 0 p); p' = skip_slash (snd (take_component 0 p)) in
        if w = [] then ensure_loop p' cur f
        else do {
          (child, f) \<leftarrow> vfs_finddir cur w f;
          (child, f) \<leftarrow> (case child of
              Some c \<Rightarrow> Some (Some c, f)
            | None \<Rightarrow> (case fat32_mkdir cur w f of
                (st, f) \<Rightarrow> if st \<noteq> 0 then Some (None, f) else vfs_finddir cur w f));
          (case child of
             None \<Rightarrow> Some (None, f)
           | Some c \<Rightarrow> if \<not> is_dir c f then Some (None, f) else ensure_loop p' c f)
        })"
  by pat_completeness auto
termination
  by (relation "measure (\<lambda>(p, _, _). length p)") (use take_component_shorter in auto)

declare ensure_loop.simps [simp del]

definition ensure_path_exists :: "cstr \<Rightarrow> 'a fat_scheme \<Rightarrow> (nat option \<times> 'a fat_scheme) option" where
  "ensure_path_exists path f =
     (if path = [] then Some (None, f)
      else if cluster_start_lba (fs f) = 0 then Some (None, f)
      else ensure_loop (skip_slash path) 0 f)"

text \<open>The parent directory of a path, or an error: the common start of the path operations.\<close>

definition parent_dir :: "cstr \<Rightarrow> 'a volume_scheme \<Rightarrow> ((c_int + nat) \<times> 'a volume_scheme) option" where
  "parent_dir parent_path f = do {
     (p, f) \<leftarrow> resolve parent_path f;
     Some (case p of None \<Rightarrow> (Inl FAT32_E_NOENT, f)
           | Some p \<Rightarrow> if \<not> is_dir p f then (Inl FAT32_E_NOTDIR, f) else (Inr p, f))
   }"

definition fat32_touch_path :: "cstr \<Rightarrow> 'a volume_scheme \<Rightarrow> (c_int \<times> 'a volume_scheme) option" where
  "fat32_touch_path path f =
     (case split_path path of None \<Rightarrow> Some (FAT32_E_INVAL, f)
      | Some (parent_path, leaf) \<Rightarrow>
          if is_special_name leaf then Some (FAT32_E_INVAL, f)
          else do {
            (p, f) \<leftarrow> parent_dir parent_path f;
            (case p of Inl e \<Rightarrow> Some (e, f)
             | Inr p \<Rightarrow> do {
                 (existing, f) \<leftarrow> fat32_finddir p leaf f;
                 if existing \<noteq> None then Some (FAT32_E_OK, f)
                 else do {
                   (node, f) \<leftarrow> fat32_create_file p leaf f;
                   Some (if node \<noteq> None then FAT32_E_OK else FAT32_E_NOSPC, f)
                 }
               })
          })"

definition fat32_rm_path :: "cstr \<Rightarrow> 'a volume_scheme \<Rightarrow> (c_int \<times> 'a volume_scheme) option" where
  "fat32_rm_path path f =
     (case split_path path of None \<Rightarrow> Some (FAT32_E_INVAL, f)
      | Some (parent_path, leaf) \<Rightarrow> do {
          (p, f) \<leftarrow> parent_dir parent_path f;
          (case p of Inl e \<Rightarrow> Some (e, f) | Inr p \<Rightarrow> fat32_unlink p leaf f)
        })"

definition fat32_rmdir_path :: "cstr \<Rightarrow> 'a volume_scheme \<Rightarrow> (c_int \<times> 'a volume_scheme) option" where
  "fat32_rmdir_path path f =
     (case split_path path of None \<Rightarrow> Some (FAT32_E_INVAL, f)
      | Some (parent_path, leaf) \<Rightarrow> do {
          (p, f) \<leftarrow> parent_dir parent_path f;
          (case p of Inl e \<Rightarrow> Some (e, f) | Inr p \<Rightarrow> fat32_rmdir p leaf f)
        })"

definition into_itself :: "cstr \<Rightarrow> cstr \<Rightarrow> bool" where
  "into_itself src dst \<longleftrightarrow> length src > 0 \<and> length dst > length src \<and>
     strncmp dst src (length src) = 0 \<and> byte_at dst (length src) = SLASH"

definition fat32_mv_path :: "cstr \<Rightarrow> cstr \<Rightarrow> 'a volume_scheme \<Rightarrow> (c_int \<times> 'a volume_scheme) option" where
  "fat32_mv_path src dst f =
     (case (split_path src, split_path dst) of
        (Some (src_parent_path, src_leaf), Some (dst_parent_path, dst_leaf)) \<Rightarrow>
          if is_special_name src_leaf \<or> is_special_name dst_leaf then Some (FAT32_E_INVAL, f)
          else do {
            (sp, f) \<leftarrow> resolve src_parent_path f;
            (dp, f) \<leftarrow> resolve dst_parent_path f;
            (case (sp, dp) of
               (Some sp, Some dp) \<Rightarrow>
                 if \<not> is_dir sp f \<or> \<not> is_dir dp f then Some (FAT32_E_NOTDIR, f)
                 else if into_itself src dst then Some (FAT32_E_INVAL, f)
                 else fat32_rename sp src_leaf dp dst_leaf f
             | _ \<Rightarrow> Some (FAT32_E_NOENT, f))
          }
      | _ \<Rightarrow> Some (FAT32_E_INVAL, f))"

text \<open>The visitor of \<^verbatim>\<open>fat32_ls_path\<close> acts on a state of its own.\<close>

partial_function (option) ls_loop ::
  "(dirent \<Rightarrow> 'c \<Rightarrow> c_int \<times> 'c) option \<Rightarrow> nat \<Rightarrow> u32 \<Rightarrow> 'c \<Rightarrow> 'a fat_scheme \<Rightarrow> ('c \<times> 'a fat_scheme) option" where
  "ls_loop visitor dir idx ctx f =
     Option.bind (fat32_readdir dir idx f) (\<lambda>(found, f).
       if \<not> found then Some (ctx, f)
       else case visitor of
              None \<Rightarrow> ls_loop visitor dir (idx + 1) ctx f
            | Some v \<Rightarrow> (case v (dirent_buf f) ctx of
                (r, ctx) \<Rightarrow> if r \<noteq> 0 then Some (ctx, f) else ls_loop visitor dir (idx + 1) ctx f))"

definition fat32_ls_path ::
  "cstr \<Rightarrow> (dirent \<Rightarrow> 'c \<Rightarrow> c_int \<times> 'c) option \<Rightarrow> 'c \<Rightarrow> 'a volume_scheme \<Rightarrow> ((c_int \<times> 'c) \<times> 'a volume_scheme) option" where
  "fat32_ls_path path visitor ctx f = do {
     (dir, f) \<leftarrow> resolve path f;
     (case dir of
        None \<Rightarrow> Some ((FAT32_E_NOENT, ctx), f)
      | Some dir \<Rightarrow>
          if \<not> is_dir dir f then Some ((FAT32_E_NOTDIR, ctx), f)
          else do { (ctx, f) \<leftarrow> ls_loop visitor dir 0 ctx f; Some ((FAT32_E_OK, ctx), f) })
   }"

end
