(* ===== verification/Syscall_Path.thy ===== *)
theory Syscall_Path
  imports Signal_Fork Vfs
begin

text \<open>
  The string helpers of \<^verbatim>\<open>kernel/syscall.c\<close> and \<^verbatim>\<open>build_path\<close>, which makes the path a program
  passes absolute.  Strings are buffers here, because the helpers write into arrays of 256
  bytes: what they do to a string that does not fit is the point.
\<close>

section \<open>String helpers\<close>

text \<open>
  \<^verbatim>\<open>str_len\<close> is applied to the working directory only, an array of 256 bytes: without a NUL in it
  the loop runs past the array.
\<close>

definition str_len :: "bytes \<Rightarrow> nat outcome" where
  "str_len s = (case List.find (\<lambda>i. s i = 0) [0..<VFS_MAX_PATH] of Some i \<Rightarrow> Done i | None \<Rightarrow> Undef)"

definition str_copy :: "bytes \<Rightarrow> bytes \<Rightarrow> nat \<Rightarrow> bytes" where
  "str_copy dst src max_len =
     (let i = cstr_len src (max_len - 1) in (blit dst 0 src 0 i)(i := 0))"

text \<open>
  \<open>cwd\<close> is the working directory of the current task, \<open>None\<close> when there is no current task;
  \<open>out\<close> is an array of 256 bytes.
\<close>

definition build_path :: "bytes option \<Rightarrow> bytes \<Rightarrow> bytes \<Rightarrow> bytes outcome" where
  "build_path cwd path out =
     (if path 0 = SLASH then Done (str_copy out path VFS_MAX_PATH)
      else case cwd of None \<Rightarrow> Undef | Some cwd \<Rightarrow>
      case str_len cwd of Undef \<Rightarrow> Undef | Done cwd_len \<Rightarrow>
      let out = str_copy out cwd VFS_MAX_PATH;
          slash = (cwd_len > 0 \<and> cwd (cwd_len - 1) \<noteq> SLASH)
      in if slash \<and> cwd_len + 1 \<ge> VFS_MAX_PATH then Undef
      else let out = (if slash then out(cwd_len := SLASH, cwd_len + 1 := 0) else out);
               cwd_len = (if slash then cwd_len + 1 else cwd_len);
               i = cstr_len path (VFS_MAX_PATH - 1 - cwd_len)
           in Done ((blit out cwd_len path 0 i)(cwd_len + i := 0)))"

section \<open>What they compute\<close>

text \<open>The string a buffer of \<open>n\<close> bytes holds.\<close>

definition cstr_of :: "nat \<Rightarrow> bytes \<Rightarrow> cstr" where
  "cstr_of n b = get_list b 0 (cstr_len b n)"

lemma cstr_len_le: "cstr_len b n \<le> n"
  by (auto simp: cstr_len_def split: option.splits dest: find_upt_SomeD)

lemma cstr_len_before: "i < cstr_len b n \<Longrightarrow> b i \<noteq> 0"
  by (auto simp: cstr_len_def find_upt_None split: option.splits dest: find_upt_SomeD)

lemma cstr_len_at: "cstr_len b n < n \<Longrightarrow> b (cstr_len b n) = 0"
  by (auto simp: cstr_len_def split: option.splits dest: find_upt_SomeD)

lemma cstr_len_eqI: "\<lbrakk>i < n; b i = 0; \<And>j. j < i \<Longrightarrow> b j \<noteq> 0\<rbrakk> \<Longrightarrow> cstr_len b n = i"
  unfolding cstr_len_def by (subst find_upt_SomeI[of 0 i n]) auto

lemma cstr_len_min: "m \<le> n \<Longrightarrow> cstr_len b m = min m (cstr_len b n)"
proof (cases "cstr_len b n < m")
  case True
  assume m: "m \<le> n"
  then have "b (cstr_len b n) = 0" using True by (intro cstr_len_at) simp
  then have "cstr_len b m = cstr_len b n" using True cstr_len_before by (intro cstr_len_eqI) auto
  with True show ?thesis by simp
next
  case False
  then have nz: "\<forall>j<m. b j \<noteq> 0" using cstr_len_before[of _ b n] by auto
  have "cstr_len b m = m"
  proof (rule ccontr)
    assume "cstr_len b m \<noteq> m"
    then have l: "cstr_len b m < m" using cstr_len_le[of b m] by linarith
    from nz[rule_format, OF l] cstr_len_at[OF l] show False by simp
  qed
  with False show ?thesis by simp
qed

lemma cstr_of_nul_free: "nul_free (cstr_of n b)"
  using cstr_len_before[of _ b n] by (auto simp: nul_free_def cstr_of_def get_list_def)

lemma cstr_of_min: "m \<le> n \<Longrightarrow> cstr_of m b = take m (cstr_of n b)"
  by (rule nth_equalityI) (auto simp: cstr_of_def cstr_len_min)

lemma length_cstr_of [simp]: "length (cstr_of n b) = cstr_len b n"
  by (simp add: cstr_of_def)

text \<open>A buffer holds the NUL-terminated string \<open>s\<close>.\<close>

definition holds :: "bytes \<Rightarrow> cstr \<Rightarrow> bool" where
  "holds b s \<longleftrightarrow> nul_free s \<and> b (length s) = 0 \<and> (\<forall>i<length s. b i = s ! i)"

lemma holds_len: "holds b s \<Longrightarrow> length s < n \<Longrightarrow> cstr_len b n = length s"
  by (rule cstr_len_eqI) (auto simp: holds_def dest: nul_free_nth)

lemma holds_cstr_of: "holds b s \<Longrightarrow> length s < n \<Longrightarrow> cstr_of n b = s"
  by (rule nth_equalityI) (auto simp: holds_len cstr_of_def holds_def)

lemma holds_cstr_of_le: "holds b s \<Longrightarrow> length s \<le> n \<Longrightarrow> cstr_of n b = s"
  using cstr_of_min[of n "Suc n" b] holds_cstr_of[of b s "Suc n"] by simp

lemma str_len_holds: "holds b s \<Longrightarrow> length s < VFS_MAX_PATH \<Longrightarrow> str_len b = Done (length s)"
  unfolding str_len_def by (subst find_upt_SomeI[of 0 "length s"]) (auto simp: holds_def dest: nul_free_nth)

lemma str_copy_holds: "0 < n \<Longrightarrow> holds (str_copy dst src n) (cstr_of (n - 1) src)"
  using cstr_of_nul_free[of "n - 1" src]
  by (auto simp: holds_def str_copy_def Let_def blit_def cstr_of_def)

text \<open>
  What a program means by a path: the path itself when it starts at the root, else the working
  directory, a slash unless it ends in one, and the path.
\<close>

definition absolute :: "cstr \<Rightarrow> cstr \<Rightarrow> cstr" where
  "absolute cwd path =
     (if byte_at path 0 = SLASH then path
      else cwd @ (if cwd \<noteq> [] \<and> last cwd \<noteq> SLASH then [SLASH] else []) @ path)"

lemma holds_append:
  assumes "holds out s" "nul_free s"
  shows "holds ((blit out (length s) path 0 (cstr_len path n))(length s + cstr_len path n := 0)) (s @ cstr_of n path)"
  using assms cstr_of_nul_free[of n path]
  by (auto simp: holds_def blit_def cstr_of_def nth_append)

lemma holds_snoc: "holds b s \<Longrightarrow> c \<noteq> 0 \<Longrightarrow> holds (b(length s := c, length s + 1 := 0)) (s @ [c])"
  by (auto simp: holds_def nth_append)

lemma build_path_holds:
  assumes "holds cwd c" "length c \<le> 254"
  shows "\<exists>b. build_path (Some cwd) path out = Done b \<and> holds b (take 255 (absolute c (cstr_of 256 path)))"
proof (cases "path 0 = SLASH")
  case True
  have "cstr_len path 256 \<noteq> 0" using True cstr_len_at[of path 256] by (cases "cstr_len path 256 = 0") auto
  then have "byte_at (cstr_of 256 path) 0 = SLASH" using True by (simp add: byte_at_def cstr_of_def)
  moreover have "cstr_of 255 path = take 255 (cstr_of 256 path)" by (rule cstr_of_min) simp
  ultimately show ?thesis using True str_copy_holds[of 256 out path] by (simp add: build_path_def absolute_def)
next
  case False
  have len: "str_len cwd = Done (length c)" by (rule str_len_holds) (use assms in simp_all)
  have nf: "nul_free c" using assms(1) by (simp add: holds_def)
  let ?slash = "length c > 0 \<and> cwd (length c - 1) \<noteq> SLASH"
  let ?c = "c @ (if ?slash then [SLASH] else [])"
  let ?o = "str_copy out cwd 256"
  let ?o1 = "if ?slash then ?o(length c := SLASH, length c + 1 := 0) else ?o"
  have o: "holds ?o c" using str_copy_holds[of 256 out cwd] holds_cstr_of[OF assms(1), of 255] assms(2) by simp
  have o1: "holds ?o1 ?c" using o holds_snoc[OF o, of SLASH] by (cases "c = []") auto
  have lc: "length ?c \<le> 255" using assms(2) by simp
  let ?n = "255 - length ?c"
  have "build_path (Some cwd) path out = Done ((blit ?o1 (length ?c) path 0 (cstr_len path ?n))(length ?c + cstr_len path ?n := 0))"
    using False len assms(2) by (simp add: build_path_def Let_def)
  moreover have "holds ((blit ?o1 (length ?c) path 0 (cstr_len path ?n))(length ?c + cstr_len path ?n := 0)) (?c @ cstr_of ?n path)"
    by (rule holds_append[OF o1]) (use nf in simp)
  moreover have "?c @ cstr_of ?n path = take 255 (absolute c (cstr_of 256 path))"
  proof -
    have e: "?slash = (c \<noteq> [] \<and> last c \<noteq> SLASH)"
      using assms(1) by (cases c rule: rev_cases) (auto simp: holds_def)
    have "byte_at (cstr_of 256 path) 0 \<noteq> SLASH" using False by (auto simp: byte_at_def cstr_of_def)
    then have "absolute c (cstr_of 256 path) = ?c @ cstr_of 256 path" unfolding e by (simp add: absolute_def)
    moreover have "cstr_of ?n path = take ?n (cstr_of 256 path)" by (rule cstr_of_min) simp
    ultimately show ?thesis using lc by simp
  qed
  ultimately show ?thesis by metis
qed

text \<open>
  A path is made absolute: in a working directory of at most 254 bytes the result
  is the absolute path, cut to the 255 bytes a path buffer holds, whatever the buffer
  held before.
\<close>

theorem build_path_correct:
  assumes "holds cwd c" "length c \<le> 254"
  shows "\<exists>b. build_path (Some cwd) path out = Done b \<and> cstr_of 256 b = take 255 (absolute c (cstr_of 256 path))"
proof -
  obtain b where b: "build_path (Some cwd) path out = Done b" "holds b (take 255 (absolute c (cstr_of 256 path)))"
    using build_path_holds[OF assms] by blast
  from holds_cstr_of[OF b(2), of 256] b(1) show ?thesis by simp
qed

lemma holds_put_list: "nul_free s \<Longrightarrow> holds (put_list b 0 (s @ [0])) s"
  by (auto simp: holds_def put_list_def nth_append)

theorem build_path_correct_witness:
  "\<exists>b. build_path (Some (put_list (\<lambda>_. 0) 0 (bytes_of ''/home'' @ [0]))) (put_list (\<lambda>_. 0) 0 (bytes_of ''a.txt'' @ [0])) (\<lambda>_. 7) = Done b \<and>
    cstr_of 256 b = bytes_of ''/home/a.txt''"
proof -
  have h: "holds (put_list (\<lambda>_. 0) 0 (bytes_of ''/home'' @ [0])) (bytes_of ''/home'')"
    "holds (put_list (\<lambda>_. 0) 0 (bytes_of ''a.txt'' @ [0])) (bytes_of ''a.txt'')"
    by (rule holds_put_list, simp)+
  have "take 255 (absolute (bytes_of ''/home'') (bytes_of ''a.txt'')) = bytes_of ''/home/a.txt''"
    by (simp add: absolute_def)
  then show ?thesis
    using build_path_correct [OF h(1), of "put_list (\<lambda>_. 0) 0 (bytes_of ''a.txt'' @ [0])" "\<lambda>_. 7"] holds_cstr_of[OF h(2), of 256]
    by simp
qed

text \<open>
  A working directory of 255 bytes that does not end in a slash makes \<^verbatim>\<open>build_path\<close> write the
  byte after the end of its buffer, for every relative path.
\<close>

theorem build_path_overflow:
  assumes "holds cwd c" "length c = 255" "last c \<noteq> SLASH" "path 0 \<noteq> SLASH"
  shows "build_path (Some cwd) path out = Undef"
proof -
  have "str_len cwd = Done 255" using str_len_holds[OF assms(1)] assms(2) by simp
  moreover have "cwd 254 = last c"
  proof -
    have "c \<noteq> []" using assms(2) by auto
    then show ?thesis using assms(1,2) by (simp add: last_conv_nth holds_def)
  qed
  ultimately show ?thesis using assms(3,4) by (simp add: build_path_def Let_def)
qed

theorem build_path_overflow_witness:
  "build_path (Some (put_list (\<lambda>_. 0) 0 (replicate 255 65 @ [0]))) (\<lambda>_. 66) (\<lambda>_. 0) = Undef"
  by (rule build_path_overflow [OF holds_put_list]) (simp_all add: nul_free_def)

end
