(* ===== verification/Syscall.thy ===== *)
theory Syscall
  imports Syscall_Path Keyboard Mouse Console
begin

text \<open>
  The system calls of \<^verbatim>\<open>kernel/syscall.c\<close>, each case of the handler as a definition over the state
  of the whole system, and the handler itself.

  The memory of the running program is a map from addresses to bytes.  The handler checks no
  pointer it is given, and neither does the model: an address that is not mapped, on
  which the processor faults, and an address that belongs to the kernel are outside it.
  A call that ends in a halt instruction answers how it waits: \<^verbatim>\<open>exit\<close> for good, \<^verbatim>\<open>yield\<close> until the next
  interrupt, after which it returns 0, and \<^verbatim>\<open>waitpid\<close> until the task is runnable again, after which it goes
  on as \<open>waitpid_resume\<close>.  \<open>None\<close> is a loop over a cyclic cluster chain; \<open>Undef\<close> is undefined
  behaviour, such as a null pointer that is followed.
\<close>

section \<open>State\<close>

record system =
  kern :: kernel
  vol :: volume
  keyb :: keyboard
  term_state :: tty
  pointer :: mouse
  cons :: console
  user_mem :: "u64 \<Rightarrow> u8"
  system_ticks :: u64

datatype reply = Ret u64 | Exits | Yields | Waits nat

type_synonym sysres = "(reply \<times> system) outcome option"

definition ret :: "c_int \<Rightarrow> system \<Rightarrow> sysres" where
  "ret v s = Some (Done (Ret (scast v), s))"

abbreviation undef :: sysres where "undef \<equiv> Some Undef"

definition user_put :: "u64 \<Rightarrow> u8 list \<Rightarrow> system \<Rightarrow> system" where
  "user_put p xs s = s\<lparr>user_mem := \<lambda>a. if unat (a - p) < length xs then xs ! unat (a - p) else user_mem s a\<rparr>"

definition user_bytes :: "u64 \<Rightarrow> system \<Rightarrow> bytes" where
  "user_bytes p s = (\<lambda>i. user_mem s (p + of_nat i))"

definition u16_bytes :: "u16 \<Rightarrow> u8 list" where
  "u16_bytes v = [ucast v, ucast (drop_bit 8 v)]"

definition u32_bytes :: "u32 \<Rightarrow> u8 list" where
  "u32_bytes v = [ucast v, ucast (drop_bit 8 v), ucast (drop_bit 16 v), ucast (drop_bit 24 v)]"

definition c_int_of :: "u64 \<Rightarrow> c_int" where
  "c_int_of v = ucast v"

text \<open>A dereference of \<^verbatim>\<open>sched_current()\<close>; an operation of the file system; a path of the program.\<close>

definition with_task :: "(nat \<Rightarrow> sysres) \<Rightarrow> system \<Rightarrow> sysres" where
  "with_task g s = (case sched_current (kern s) of None \<Rightarrow> undef | Some t \<Rightarrow> g t)"

definition on_volume :: "(volume \<Rightarrow> ('r \<times> volume) option) \<Rightarrow> ('r \<Rightarrow> system \<Rightarrow> sysres) \<Rightarrow> system \<Rightarrow> sysres" where
  "on_volume g h s = Option.bind (g (vol s)) (\<lambda>(r, v). h r (s\<lparr>vol := v\<rparr>))"

definition with_path :: "u64 \<Rightarrow> (bytes \<Rightarrow> system \<Rightarrow> sysres) \<Rightarrow> system \<Rightarrow> sysres" where
  "with_path p g s =
     (case build_path (map_option (\<lambda>t. task_cwd (tasks (kern s) t)) (sched_current (kern s))) (user_bytes p s) (\<lambda>_. 0) of
        Undef \<Rightarrow> undef | Done path \<Rightarrow> g path s)"

abbreviation path_of :: "bytes \<Rightarrow> cstr" where "path_of \<equiv> cstr_of 256"

definition upd_fd :: "nat \<Rightarrow> nat \<Rightarrow> (fd_entry \<Rightarrow> fd_entry) \<Rightarrow> system \<Rightarrow> system" where
  "upd_fd t i g s = s\<lparr>kern := upd_task t (\<lambda>x. x\<lparr>fd_table := (fd_table x)(i := g (fd_table x i))\<rparr>) (kern s)\<rparr>"

definition upd_pipe :: "nat \<Rightarrow> (pipe \<Rightarrow> pipe) \<Rightarrow> system \<Rightarrow> system" where
  "upd_pipe p g s = s\<lparr>kern := (kern s)\<lparr>pipes := (pipes (kern s))(p := g (pipes (kern s) p))\<rparr>\<rparr>"

text \<open>The entry of a descriptor of the current task.\<close>

definition with_fd :: "c_int \<Rightarrow> (nat \<Rightarrow> nat \<Rightarrow> fd_entry \<Rightarrow> sysres) \<Rightarrow> system \<Rightarrow> sysres" where
  "with_fd fd g s = with_task (\<lambda>t.
     case task_fd_get (sint fd) (tasks (kern s) t) of
       None \<Rightarrow> ret (-1) s
     | Some i \<Rightarrow> g t i (fd_table (tasks (kern s) t) i)) s"

section \<open>Reading and writing\<close>

text \<open>The loops over the bytes of a pipe.\<close>

definition pipe_read :: "nat \<Rightarrow> pipe \<Rightarrow> u8 list \<times> pipe" where
  "pipe_read n p = drain pipe_get n p"

definition pipe_write :: "u8 list \<Rightarrow> pipe \<Rightarrow> pipe" where
  "pipe_write bs p = fold pipe_put bs p"

definition sys_read :: "c_int \<Rightarrow> u64 \<Rightarrow> c_int \<Rightarrow> system \<Rightarrow> sysres" where
  "sys_read fd buf count s = with_fd fd (\<lambda>t i entry.
     case fd_type entry of
       FD_CONSOLE \<Rightarrow> ret 0 s
     | FD_FILE \<Rightarrow> (case fd_node entry of
           None \<Rightarrow> ret (-1) s
         | Some node \<Rightarrow> on_volume (vfs_read node (fd_offset entry) count) (\<lambda>r s.
             case r of
               Undef \<Rightarrow> undef
             | Done None \<Rightarrow> ret (-1) s
             | Done (Some bs) \<Rightarrow>
                 let s = user_put buf bs s; n = of_nat (length bs) :: c_int
                 in ret n (if sint n > 0 then upd_fd t i (\<lambda>e. e\<lparr>fd_offset := fd_offset e + n\<rparr>) s else s)) s)
     | FD_PIPE \<Rightarrow> (case fd_pipe entry of
           None \<Rightarrow> undef
         | Some p \<Rightarrow>
             if p_count (pipes (kern s) p) = 0 then ret 0 s
             else let to_read = min (int (p_count (pipes (kern s) p))) (sint count);
                      (bs, q) = pipe_read (nat to_read) (pipes (kern s) p)
                  in ret (word_of_int to_read) (user_put buf bs (upd_pipe p (\<lambda>_. q) s)))
     | _ \<Rightarrow> ret (-1) s) s"

definition sys_write :: "c_int \<Rightarrow> u64 \<Rightarrow> c_int \<Rightarrow> system \<Rightarrow> sysres" where
  "sys_write fd buf count s = with_fd fd (\<lambda>t i entry.
     case fd_type entry of
       FD_CONSOLE \<Rightarrow> (case console_write (if buf = 0 then None else Some (user_bytes buf s)) (sint count) (cons s) of
           (r, c) \<Rightarrow> ret (word_of_int r) (s\<lparr>cons := c\<rparr>))
     | FD_PIPE \<Rightarrow> (case fd_pipe entry of
           None \<Rightarrow> undef
         | Some p \<Rightarrow>
             if p_count (pipes (kern s) p) \<ge> PIPE_BUF_SIZE then ret 0 s
             else let to_write = min (sint count) (int PIPE_BUF_SIZE - int (p_count (pipes (kern s) p)))
                  in ret (word_of_int to_write)
                       (upd_pipe p (pipe_write (get_list (user_bytes buf s) 0 (nat to_write))) s))
     | FD_FILE \<Rightarrow> (case fd_node entry of
           None \<Rightarrow> ret (-1) s
         | Some node \<Rightarrow> on_volume (vfs_write node (fd_offset entry) count (user_bytes buf s)) (\<lambda>n s.
             ret n (if sint n > 0 then upd_fd t i (\<lambda>e. e\<lparr>fd_offset := fd_offset e + n\<rparr>) s else s)) s)
     | _ \<Rightarrow> ret (-1) s) s"

section \<open>Files and directories\<close>

abbreviation O_RDONLY :: c_int where "O_RDONLY \<equiv> 0"
abbreviation O_WRONLY :: c_int where "O_WRONLY \<equiv> 1"
abbreviation O_CREAT :: c_int where "O_CREAT \<equiv> 0x100"
abbreviation O_TRUNC :: c_int where "O_TRUNC \<equiv> 0x200"
abbreviation O_APPEND :: c_int where "O_APPEND \<equiv> 0x400"

text \<open>The end of \<^verbatim>\<open>SYS_OPEN\<close>: a descriptor for the node.\<close>

definition open_node :: "nat \<Rightarrow> c_int \<Rightarrow> system \<Rightarrow> sysres" where
  "open_node node flags s = with_task (\<lambda>t.
     let fd = task_fd_alloc (tasks (kern s) t) in
     if fd < 0 then ret (-1) s
     else let i = nat fd; n = node_of node (vol s);
              kind = (if v_flags n AND VFS_DIRECTORY \<noteq> 0 then FD_DIR else FD_FILE);
              s = upd_fd t i (\<lambda>e. e\<lparr>fd_node := Some node, fd_offset := 0, fd_flags := flags, fd_type := kind\<rparr>) s
          in ret (word_of_int fd)
               (if flags AND O_APPEND \<noteq> 0 \<and> kind = FD_FILE then upd_fd t i (\<lambda>e. e\<lparr>fd_offset := v_size n\<rparr>) s else s)) s"

definition sys_open :: "u64 \<Rightarrow> c_int \<Rightarrow> system \<Rightarrow> sysres" where
  "sys_open path flags s = with_path path (\<lambda>full_path s.
     on_volume (\<lambda>v. do {
         (node, v) \<leftarrow> resolve (path_of full_path) v;
         if node = None \<and> flags AND O_CREAT \<noteq> 0
         then do { (_, v) \<leftarrow> fat32_touch_path (path_of full_path) v; resolve (path_of full_path) v }
         else Some (node, v)
       })
       (\<lambda>node s. case node of
           None \<Rightarrow> ret (-1) s
         | Some n \<Rightarrow>
             if flags AND O_TRUNC \<noteq> 0 \<and> is_file n (vol s)
             then on_volume (fat32_truncate n 0) (\<lambda>_. open_node n flags) s
             else open_node n flags s) s) s"

definition sys_close :: "c_int \<Rightarrow> system \<Rightarrow> sysres" where
  "sys_close fd s =
     (if sint fd < 0 then ret (-1) s
      else with_fd fd (\<lambda>t i entry.
        if sint fd < 3 then ret (-1) s
        else let finish = (\<lambda>s. ret 0 (s\<lparr>kern := upd_task t (task_fd_free (sint fd)) (kern s)\<rparr>));
                 release = (\<lambda>s. case (fd_type entry, fd_pipe entry) of
                   (FD_PIPE, Some p) \<Rightarrow>
                     if fd_flags entry = O_RDONLY then upd_pipe p (\<lambda>q. q\<lparr>read_open := False\<rparr>) s
                     else if fd_flags entry = O_WRONLY then upd_pipe p (\<lambda>q. q\<lparr>write_open := False\<rparr>) s
                     else s
                 | _ \<Rightarrow> s)
             in case (fd_type entry, fd_node entry) of
                  (FD_FILE, Some node) \<Rightarrow> on_volume (fat32_flush_size node) (\<lambda>_ s. finish (release s)) s
                | _ \<Rightarrow> finish (release s)) s)"

text \<open>The three fields of \<^verbatim>\<open>struct stat\<close>.\<close>

definition put_stat :: "u64 \<Rightarrow> nat \<Rightarrow> system \<Rightarrow> system" where
  "put_stat buf node s =
     (let n = node_of node (vol s) in
      user_put buf (u32_bytes (v_size n)
        @ u32_bytes (if v_flags n AND VFS_DIRECTORY \<noteq> 0 then 0x4000 else 0x8000) @ u32_bytes (v_inode n)) s)"

definition sys_stat :: "u64 \<Rightarrow> u64 \<Rightarrow> system \<Rightarrow> sysres" where
  "sys_stat path buf s = with_path path (\<lambda>full_path s. on_volume (resolve (path_of full_path))
     (\<lambda>node s. case node of None \<Rightarrow> ret (-1) s | Some n \<Rightarrow> ret 0 (put_stat buf n s)) s) s"

definition sys_fstat :: "c_int \<Rightarrow> u64 \<Rightarrow> system \<Rightarrow> sysres" where
  "sys_fstat fd buf s =
     (if sint fd < 0 then ret (-1) s
      else with_fd fd (\<lambda>t i entry.
        case fd_node entry of None \<Rightarrow> ret (-1) s | Some n \<Rightarrow> ret 0 (put_stat buf n s)) s)"

text \<open>The calls that pass a path to an operation of the file system and answer 0 or -1.\<close>

definition path_op :: "(cstr \<Rightarrow> volume \<Rightarrow> (c_int \<times> volume) option) \<Rightarrow> u64 \<Rightarrow> system \<Rightarrow> sysres" where
  "path_op g path s = with_path path (\<lambda>full_path s.
     on_volume (g (path_of full_path)) (\<lambda>r. ret (if r = 0 then 0 else -1)) s) s"

definition sys_mkdir :: "u64 \<Rightarrow> system \<Rightarrow> sysres" where
  "sys_mkdir path s = with_path path (\<lambda>full_path s.
     on_volume (ensure_path_exists (path_of full_path)) (\<lambda>r. ret (if r = None then -1 else 0)) s) s"

definition sys_rmdir :: "u64 \<Rightarrow> system \<Rightarrow> sysres" where "sys_rmdir = path_op fat32_rmdir_path"
definition sys_unlink :: "u64 \<Rightarrow> system \<Rightarrow> sysres" where "sys_unlink = path_op fat32_rm_path"
definition sys_create :: "u64 \<Rightarrow> system \<Rightarrow> sysres" where "sys_create = path_op fat32_touch_path"

definition sys_rename :: "u64 \<Rightarrow> u64 \<Rightarrow> system \<Rightarrow> sysres" where
  "sys_rename oldp newp s = with_path oldp (\<lambda>full_old s. with_path newp (\<lambda>full_new s.
     on_volume (fat32_mv_path (path_of full_old) (path_of full_new)) (\<lambda>r. ret (if r = 0 then 0 else -1)) s) s) s"

definition sys_truncate :: "u64 \<Rightarrow> c_int \<Rightarrow> system \<Rightarrow> sysres" where
  "sys_truncate path len s = with_path path (\<lambda>full_path s. on_volume (resolve (path_of full_path))
     (\<lambda>node s. case node of
        None \<Rightarrow> ret (-1) s
      | Some n \<Rightarrow> on_volume (fat32_truncate n len) (\<lambda>r. ret (if r = 0 then 0 else -1)) s) s) s"

definition sys_readdir :: "c_int \<Rightarrow> u64 \<Rightarrow> c_int \<Rightarrow> system \<Rightarrow> sysres" where
  "sys_readdir fd buf index s =
     (if sint fd < 0 then ret (-1) s
      else with_fd fd (\<lambda>t i entry.
        case (fd_type entry, fd_node entry) of
          (FD_DIR, Some node) \<Rightarrow> on_volume (vfs_readdir node index) (\<lambda>found s.
            if \<not> found then ret (-1) s
            else let name = d_name (dirent_buf (vol s)); s = user_put buf (take 255 name @ [0]) s
                 in on_volume (vfs_finddir node name) (\<lambda>child s.
                      ret 0 (user_put (buf + 256) (u32_bytes
                        (case child of Some c \<Rightarrow> if is_dir c (vol s) then 1 else 0 | None \<Rightarrow> 0)) s)) s) s
        | _ \<Rightarrow> ret (-1) s) s)"

definition sys_chdir :: "u64 \<Rightarrow> system \<Rightarrow> sysres" where
  "sys_chdir path s = with_path path (\<lambda>full_path s. on_volume (resolve (path_of full_path))
     (\<lambda>node s. case node of
        None \<Rightarrow> ret (-1) s
      | Some n \<Rightarrow> if \<not> is_dir n (vol s) then ret (-1) s
          else with_task (\<lambda>t. ret 0 (s\<lparr>kern := upd_task t
                 (\<lambda>x. x\<lparr>task_cwd := str_copy (task_cwd x) full_path VFS_MAX_PATH\<rparr>) (kern s)\<rparr>)) s) s) s"

definition sys_getcwd :: "u64 \<Rightarrow> c_int \<Rightarrow> system \<Rightarrow> sysres" where
  "sys_getcwd buf len s = with_task (\<lambda>t.
     let cwd = task_cwd (tasks (kern s) t) in
     case str_len cwd of
       Undef \<Rightarrow> undef
     | Done n \<Rightarrow> if int n \<ge> sint len then ret (-1) s
                 else ret (of_nat n) (user_put buf (cstr_of (nat (sint len) - 1) cwd @ [0]) s)) s"

definition sys_seek :: "c_int \<Rightarrow> c_int \<Rightarrow> c_int \<Rightarrow> system \<Rightarrow> sysres" where
  "sys_seek fd offset whence s = with_fd fd (\<lambda>t i entry.
     if fd_type entry = FD_CONSOLE \<or> fd_type entry = FD_DIR then ret (-1) s
     else if whence = 2 \<and> fd_node entry = None then undef
     else let new_offset =
           (if whence = 0 then offset
            else if whence = 1 then fd_offset entry + offset
            else if whence = 2 then v_size (node_of (the (fd_node entry)) (vol s)) + offset
            else 0)
       in if sint new_offset < 0 then ret (-1) s
          else ret new_offset (upd_fd t i (\<lambda>e. e\<lparr>fd_offset := new_offset\<rparr>) s)) s"

section \<open>Pipes and descriptors\<close>

definition sys_pipe :: "u64 \<Rightarrow> system \<Rightarrow> sysres" where
  "sys_pipe fds s =
     (case pipe_alloc (kern s) of
        (None, k) \<Rightarrow> ret (-1) (s\<lparr>kern := k\<rparr>)
      | (Some p, k) \<Rightarrow>
          let s = s\<lparr>kern := k\<rparr> in with_task (\<lambda>t.
            let read_fd = task_fd_alloc (tasks (kern s) t) in
            if read_fd < 0 then ret (-1) s
            else let write_fd = task_fd_alloc (tasks (kern s) t) in
            if write_fd < 0 then ret (-1) (s\<lparr>kern := upd_task t (task_fd_free read_fd) (kern s)\<rparr>)
            else let s = upd_fd t (nat read_fd) (\<lambda>e. e\<lparr>fd_type := FD_PIPE, fd_pipe := Some p, fd_flags := O_RDONLY\<rparr>) s;
                     s = upd_fd t (nat write_fd) (\<lambda>e. e\<lparr>fd_type := FD_PIPE, fd_pipe := Some p, fd_flags := O_WRONLY\<rparr>) s
                 in ret 0 (user_put fds (u32_bytes (word_of_int read_fd) @ u32_bytes (word_of_int write_fd)) s)) s)"

definition sys_dup2 :: "c_int \<Rightarrow> c_int \<Rightarrow> system \<Rightarrow> sysres" where
  "sys_dup2 oldfd newfd s = with_fd oldfd (\<lambda>t i _.
     if sint newfd < 0 \<or> sint newfd \<ge> int MAX_FDS then ret (-1) s
     else let n = nat (sint newfd);
              s = (if fd_type (fd_table (tasks (kern s) t) n) \<noteq> FD_UNUSED
                   then s\<lparr>kern := upd_task t (task_fd_free (sint newfd)) (kern s)\<rparr> else s)
          in ret newfd (upd_fd t n (\<lambda>_. fd_table (tasks (kern s) t) i) s)) s"

section \<open>Processes\<close>

definition sys_exit :: "c_int \<Rightarrow> system \<Rightarrow> sysres" where
  "sys_exit code s = with_task (\<lambda>_. Some (Done (Exits, s\<lparr>kern := sched_exit code (kern s)\<rparr>))) s"

definition sys_fork :: "system \<Rightarrow> sysres" where
  "sys_fork s = (case sched_fork (kern s) of (r, k) \<Rightarrow> ret r (s\<lparr>kern := k\<rparr>))"

definition sys_waitpid :: "c_int \<Rightarrow> system \<Rightarrow> sysres" where
  "sys_waitpid pid s = Option.bind (sched_waitpid pid (kern s)) (\<lambda>r.
     case r of
       Undef \<Rightarrow> undef
     | Done (Exited code, k) \<Rightarrow> ret code (s\<lparr>kern := k\<rparr>)
     | Done (Blocked child, k) \<Rightarrow> Some (Done (Waits child, s\<lparr>kern := k\<rparr>)))"

definition sys_getpid :: "system \<Rightarrow> sysres" where
  "sys_getpid s = Some (Done (Ret (case sched_current (kern s) of Some t \<Rightarrow> task_id (tasks (kern s) t) | None \<Rightarrow> 0), s))"

definition sys_kill :: "c_int \<Rightarrow> c_int \<Rightarrow> system \<Rightarrow> sysres" where
  "sys_kill pid sig s =
     (case sched_get_task pid (kern s) of
        None \<Rightarrow> ret (-1) s
      | Some t \<Rightarrow>
          if sint sig < 0 then ret (-1) s
          else if sig = 9
          then ret 0 (s\<lparr>kern := sched_wake_waiters pid
                 (upd_task t (\<lambda>x. x\<lparr>task_state := Zombie, exit_code := -1\<rparr>) (kern s))\<rparr>)
          else if sint sig \<ge> 64 then undef
          else ret 0 (s\<lparr>kern := upd_task t
                 (\<lambda>x. x\<lparr>pending_signals := pending_signals x OR push_bit (unat sig) 1\<rparr>) (kern s)\<rparr>))"

definition sys_signal :: "c_int \<Rightarrow> u64 \<Rightarrow> system \<Rightarrow> sysres" where
  "sys_signal sig handler s =
     (if sint sig < 1 \<or> sint sig > 31 then ret (-1) s
      else with_task (\<lambda>t. Some (Done (Ret (signal_handlers (tasks (kern s) t) (unat sig)),
        s\<lparr>kern := upd_task t (\<lambda>x. x\<lparr>signal_handlers := (signal_handlers x)(unat sig := handler)\<rparr>) (kern s)\<rparr>))) s)"

definition sys_setpgid :: "c_int \<Rightarrow> c_int \<Rightarrow> system \<Rightarrow> sysres" where
  "sys_setpgid pid pgid s =
     (let set = (\<lambda>pid. let pgid = (if pgid = 0 then pid else pgid) in
            case sched_get_task pid (kern s) of
              None \<Rightarrow> ret (-1) s
            | Some t \<Rightarrow> ret 0 (s\<lparr>kern := upd_task t (\<lambda>x. x\<lparr>task_pgid := pgid\<rparr>) (kern s)\<rparr>))
      in if pid = 0 then with_task (\<lambda>t. set (ucast (task_id (tasks (kern s) t)))) s else set pid)"

section \<open>Screen and input\<close>

definition sys_fb_info :: "u64 \<Rightarrow> system \<Rightarrow> sysres" where
  "sys_fb_info out s =
     (if out = 0 then ret (-1) s
      else let f = screen (cons s);
               w = word_of_int (fb_width f) :: u32; h = word_of_int (fb_height f) :: u32; b = word_of_int (fb_bpp f) :: u32
           in ret 0 (user_put out (u32_bytes w @ u32_bytes h @ u32_bytes b @ u32_bytes (w * (b div 8))) s))"

definition upd_screen :: "(fbuf \<Rightarrow> fbuf) \<Rightarrow> system \<Rightarrow> system" where
  "upd_screen g s = s\<lparr>cons := (cons s)\<lparr>screen := g (screen (cons s))\<rparr>\<rparr>"

definition sys_fb_putpixel :: "c_int \<Rightarrow> c_int \<Rightarrow> u32 \<Rightarrow> system \<Rightarrow> sysres" where
  "sys_fb_putpixel x y colour s = ret 0 (upd_screen (fb_putpixel (sint x) (sint y) colour) s)"

text \<open>The ten bytes of \<^verbatim>\<open>struct user_input_event\<close>.\<close>

definition input_event :: "u8 \<Rightarrow> u8 \<Rightarrow> u8 \<Rightarrow> u8 \<Rightarrow> u8 \<Rightarrow> u8 \<Rightarrow> u16 \<Rightarrow> u16 \<Rightarrow> u8 list" where
  "input_event kind key modifiers pressed scancode buttons x y =
     [kind, key, modifiers, pressed, scancode, buttons] @ u16_bytes x @ u16_bytes y"

definition sys_input_poll :: "u64 \<Rightarrow> system \<Rightarrow> sysres" where
  "sys_input_poll out s =
     (if out = 0 then ret (-1) s
      else case keyboard_poll_event (keyb s) of
        (None, k) \<Rightarrow>
          let s = s\<lparr>keyb := k\<rparr> in
          (case mouse_poll_event (pointer s) of
             (None, m) \<Rightarrow> ret 0 (s\<lparr>pointer := m\<rparr>)
           | (Some mev, m) \<Rightarrow>
               let s = s\<lparr>pointer := m\<rparr> in
               ret 1 (user_put out (input_event (if me_type mev = MOUSE_EVENT_BUTTON then 3 else 2) 0
                 (keyboard_get_modifiers (keyb s)) (me_pressed mev) (me_button mev) (me_buttons mev) (me_x mev) (me_y mev)) s))
      | (Some ev, k) \<Rightarrow>
          let s = s\<lparr>keyb := k\<rparr> in
          ret 1 (user_put out (input_event 1 (ev_key ev) (ev_modifiers ev) (ev_pressed ev) (ev_scancode ev)
            (mouse_get_buttons (pointer s)) (word_of_int (mouse_get_x (pointer s))) (word_of_int (mouse_get_y (pointer s)))) s))"

definition fb_bytes :: "fbuf \<Rightarrow> u64" where
  "fb_bytes f =
     (let b = word_of_int (fb_bpp f) :: u64 in
      word_of_int (fb_width f) * word_of_int (fb_height f) * (if b \<noteq> 0 then b div 8 else 4))"

definition map_fb_page :: "nat \<Rightarrow> nat \<Rightarrow> kernel \<Rightarrow> bool \<times> kernel" where
  "map_fb_page t i k =
     (case pmm_alloc_page (pm k) of
        (page, p) \<Rightarrow>
          let k = k\<lparr>pm := p\<rparr> in
          if page = 0 then (False, k)
          else (True, snd (paging_map_user_page (task_cr3 (tasks k t)) (0x2000000 + of_nat i * 0x1000) page
                 (PAGE_PRESENT OR PAGE_WRITABLE OR PAGE_USER) k)))"

definition sys_fb_map :: "system \<Rightarrow> sysres" where
  "sys_fb_map s =
     (case sched_current (kern s) of
        None \<Rightarrow> ret 0 s
      | Some t \<Rightarrow>
          let len = fb_bytes (screen (cons s)) in
          if len = 0 then ret 0 s
          else case for_each (map_fb_page t) [0..<unat ((len + 0xFFF) div 0x1000)] (kern s) of
            (False, k) \<Rightarrow> ret 0 (s\<lparr>kern := k\<rparr>)
          | (True, k) \<Rightarrow> Some (Done (Ret 0x2000000,
              user_put 0x2000000 (replicate (8 * unat (len div 8)) 0) (s\<lparr>kern := k\<rparr>))))"

definition sys_fb_present :: "u64 \<Rightarrow> system \<Rightarrow> sysres" where
  "sys_fb_present src s =
     (if src = 0 then ret (-1) s
      else ret 0 (upd_screen (\<lambda>f. fb_present_buffer (Some (user_bytes src s)) (fb_bytes f) f) s))"

definition sys_fb_present_rect :: "u64 \<Rightarrow> c_int \<Rightarrow> c_int \<Rightarrow> c_int \<Rightarrow> c_int \<Rightarrow> system \<Rightarrow> sysres" where
  "sys_fb_present_rect src x y w h s =
     (if src = 0 then ret (-1) s
      else ret 0 (upd_screen (fb_present_buffer_rect (Some (user_bytes src s)) (sint x) (sint y) (sint w) (sint h)) s))"

section \<open>The handler\<close>

definition syscall_handler :: "u64 \<Rightarrow> u64 \<Rightarrow> u64 \<Rightarrow> u64 \<Rightarrow> u64 \<Rightarrow> u64 \<Rightarrow> system \<Rightarrow> sysres" where
  "syscall_handler num arg1 arg2 arg3 arg4 arg5 s =
     (if num = 0 then sys_exit (c_int_of arg1) s
      else if num = 1 then sys_read (c_int_of arg1) arg2 (c_int_of arg3) s
      else if num = 2 then sys_write (c_int_of arg1) arg2 (c_int_of arg3) s
      else if num = 3 then sys_open arg1 (c_int_of arg2) s
      else if num = 4 then sys_close (c_int_of arg1) s
      else if num = 5 then sys_stat arg1 arg2 s
      else if num = 6 then sys_fstat (c_int_of arg1) arg2 s
      else if num = 7 then sys_mkdir arg1 s
      else if num = 8 then sys_rmdir arg1 s
      else if num = 9 then sys_unlink arg1 s
      else if num = 10 then sys_readdir (c_int_of arg1) arg2 (c_int_of arg3) s
      else if num = 11 then sys_chdir arg1 s
      else if num = 12 then sys_getcwd arg1 (c_int_of arg2) s
      else if num = 13 then sys_rename arg1 arg2 s
      else if num = 14 then sys_truncate arg1 (c_int_of arg2) s
      else if num = 15 then sys_create arg1 s
      else if num = 16 then sys_seek (c_int_of arg1) (c_int_of arg2) (c_int_of arg3) s
      else if num = 17 then Some (Done (Yields, s))
      else if num = 18 then sys_pipe arg1 s
      else if num = 19 then sys_dup2 (c_int_of arg1) (c_int_of arg2) s
      else if num = 20 then sys_fork s
      else if num = 21 then ret (-1) s
      else if num = 22 then sys_waitpid (c_int_of arg1) s
      else if num = 23 then sys_getpid s
      else if num = 24 then sys_kill (c_int_of arg1) (c_int_of arg2) s
      else if num = 25 then sys_signal (c_int_of arg1) arg2 s
      else if num = 26 then sys_setpgid (c_int_of arg1) (c_int_of arg2) s
      else if num = 27 then ret 0 (s\<lparr>term_state := tty_set_foreground_pgid (c_int_of arg1) (term_state s)\<rparr>)
      else if num = 28 then ret (tty_get_foreground_pgid (term_state s)) s
      else if num = 29 then sys_fb_info arg1 s
      else if num = 30 then sys_fb_putpixel (c_int_of arg1) (c_int_of arg2) (ucast arg3) s
      else if num = 31 then sys_input_poll arg1 s
      else if num = 32 then Some (Done (Ret (system_ticks s), s))
      else if num = 33 then sys_fb_map s
      else if num = 34 then sys_fb_present arg1 s
      else if num = 35 then sys_fb_present_rect arg1 (c_int_of arg2) (c_int_of arg3) (c_int_of arg4) (c_int_of arg5) s
      else ret (-1) s)"

section \<open>Initialisation\<close>

text \<open>The model-specific registers, written and read in two halves.\<close>

abbreviation MSR_EFER :: u32 where "MSR_EFER \<equiv> 0xC0000080"
abbreviation MSR_STAR :: u32 where "MSR_STAR \<equiv> 0xC0000081"
abbreviation MSR_LSTAR :: u32 where "MSR_LSTAR \<equiv> 0xC0000082"
abbreviation MSR_FMASK :: u32 where "MSR_FMASK \<equiv> 0xC0000084"

definition wrmsr :: "u32 \<Rightarrow> u64 \<Rightarrow> (u32 \<Rightarrow> u32 \<times> u32) \<Rightarrow> u32 \<Rightarrow> u32 \<times> u32" where
  "wrmsr msr v r = r(msr := (ucast (v AND 0xFFFFFFFF), ucast (drop_bit 32 v)))"

definition rdmsr :: "u32 \<Rightarrow> (u32 \<Rightarrow> u32 \<times> u32) \<Rightarrow> u64" where
  "rdmsr msr r = (case r msr of (low, high) \<Rightarrow> push_bit 32 (ucast high) OR ucast low)"

definition syscall_init :: "u64 \<Rightarrow> (u32 \<Rightarrow> u32 \<times> u32) \<Rightarrow> u32 \<Rightarrow> u32 \<times> u32" where
  "syscall_init entry r =
     (let r = wrmsr MSR_EFER (rdmsr MSR_EFER r OR 1) r;
          r = wrmsr MSR_STAR (push_bit 32 0x0008 OR push_bit 48 0x0010) r;
          r = wrmsr MSR_LSTAR entry r
      in wrmsr MSR_FMASK 0x200 r)"

end
