(* ===== verification/Syscall_Safety.thy ===== *)
theory Syscall_Safety
  imports Syscall
begin

text \<open>
  What no system call does: whatever a program passes to the handler, the structure of the scheduler
  stays intact and the descriptors, working directory, address space, registers and signal
  handlers of every other task in use stay as they are.
\<close>

section \<open>The frame of a system call\<close>

text \<open>The state of a task that belongs to the task alone.\<close>

definition own_state :: "task \<Rightarrow> (nat \<Rightarrow> fd_entry) \<times> bytes \<times> u64 \<times> u64 \<times> (nat \<Rightarrow> u64)" where
  "own_state t = (fd_table t, task_cwd t, task_cr3 t, task_rsp t, signal_handlers t)"

definition isolated :: "kernel \<Rightarrow> kernel \<Rightarrow> bool" where
  "isolated k k' \<longleftrightarrow> (\<forall>i. current k \<noteq> Some i \<and> task_state (tasks k i) \<noteq> Unused \<longrightarrow>
     own_state (tasks k' i) = own_state (tasks k i))"

definition calm :: "kernel \<Rightarrow> kernel \<Rightarrow> bool" where
  "calm k k' \<longleftrightarrow> keeps k k' \<and> isolated k k'"

lemma calm_refl [simp]: "calm k k"
  by (simp add: calm_def isolated_def)

lemma calm_trans: "calm k k' \<Longrightarrow> calm k' k'' \<Longrightarrow> calm k k''"
  by (auto simp: calm_def isolated_def keeps_def)

lemma calm_inv: "calm k k' \<Longrightarrow> sched_inv k \<Longrightarrow> sched_inv k'"
  by (auto simp: calm_def intro: keeps_inv)

lemma calm_more: "machine.more k' = machine.more k \<Longrightarrow> calm k k'"
  using keeps_more[of k' k] kernel_part[of k' k] by (simp add: calm_def isolated_def)

lemma calm_tasks: "tasks k' = tasks k \<Longrightarrow> runq k' = runq k \<Longrightarrow> current k' = current k \<Longrightarrow>
    next_task_id k' = next_task_id k \<Longrightarrow> calm k k'"
  by (simp add: calm_def isolated_def keeps_def)

lemma calm_current:
  assumes "current k = Some t" "task_next (g (tasks k t)) = task_next (tasks k t)"
    "task_id (g (tasks k t)) = task_id (tasks k t)" "task_state (g (tasks k t)) = task_state (tasks k t)"
  shows "calm k (upd_task t g k)"
  using assms by (simp add: calm_def isolated_def keeps_def)

lemma calm_shared:
  assumes "own_state (g (tasks k t)) = own_state (tasks k t)" "task_next (g (tasks k t)) = task_next (tasks k t)"
    "task_id (g (tasks k t)) = task_id (tasks k t)" "task_state (g (tasks k t)) = Unused \<longleftrightarrow> task_state (tasks k t) = Unused"
  shows "calm k (upd_task t g k)"
  using assms by (simp add: calm_def isolated_def keeps_def)

lemma calm_wake: "calm k (fold (wake_task pid) [0..<n] k)"
  by (simp add: calm_def isolated_def keeps_wake) (simp add: wake_waiters own_state_def)

text \<open>A call that returns has been calm.\<close>

definition safe :: "kernel \<Rightarrow> sysres \<Rightarrow> bool" where
  "safe k r \<longleftrightarrow> (\<forall>v s'. r = Some (Done (v, s')) \<longrightarrow> calm k (kern s'))"

named_theorems safe_rules \<open>calls that are calm\<close>

lemma safe_basic [safe_rules]: "safe k undef" "safe k None" "calm k (kern s) \<Longrightarrow> safe k (ret v s)"
    "calm k (kern s) \<Longrightarrow> safe k (Some (Done (r, s)))"
  by (simp_all add: safe_def ret_def)

lemma safe_with_task [safe_rules]:
  "(\<And>t. current (kern s) = Some t \<Longrightarrow> safe k (g t)) \<Longrightarrow> safe k (with_task g s)"
  by (simp add: with_task_def sched_current_def safe_rules split: option.splits)

lemma safe_with_fd [safe_rules]:
  assumes "calm k (kern s)" "\<And>t i. current (kern s) = Some t \<Longrightarrow> safe k (g t i (fd_table (tasks (kern s) t) i))"
  shows "safe k (with_fd fd g s)"
  unfolding with_fd_def using assms by (intro safe_rules) (simp add: safe_rules split: option.splits)

lemma safe_on_volume [safe_rules]:
  "(\<And>r v. safe k (h r (s\<lparr>vol := v\<rparr>))) \<Longrightarrow> safe k (on_volume g h s)"
  by (simp add: on_volume_def safe_rules split: Option.bind_splits)

lemma safe_with_path [safe_rules]: "(\<And>p. safe k (g p s)) \<Longrightarrow> safe k (with_path p g s)"
  by (simp add: with_path_def safe_rules split: outcome.splits)

lemma safe_if [safe_rules]: "(b \<Longrightarrow> safe k x) \<Longrightarrow> (\<not> b \<Longrightarrow> safe k y) \<Longrightarrow> safe k (if b then x else y)"
  by simp

lemma safe_cases [safe_rules]:
  "safe k x \<Longrightarrow> (\<And>a. o1 = Some a \<Longrightarrow> safe k (h a)) \<Longrightarrow> safe k (case o1 of None \<Rightarrow> x | Some a \<Rightarrow> h a)"
  "safe k x \<Longrightarrow> (\<And>a. o2 = Done a \<Longrightarrow> safe k (g a)) \<Longrightarrow> safe k (case o2 of Done a \<Rightarrow> g a | Undef \<Rightarrow> x)"
  by (simp_all split: option.splits outcome.splits)

lemma kern_simps [simp]:
  "kern (user_put p xs s) = kern s" "kern (put_stat buf n s) = kern s" "kern (upd_screen h s) = kern s"
  by (simp_all add: user_put_def put_stat_def upd_screen_def Let_def)

lemma calm_upd_fd: "calm k (kern s) \<Longrightarrow> current (kern s) = Some t \<Longrightarrow> calm k (kern (upd_fd t i g s))"
  unfolding upd_fd_def system.select_convs system.update_convs
  by (erule calm_trans) (simp add: calm_current)

lemma current_upd_fd [simp]: "current (kern (upd_fd t i g s)) = current (kern s)"
  by (simp add: upd_fd_def upd_task_def)

lemma calm_upd_pipe: "calm k (kern s) \<Longrightarrow> calm k (kern (upd_pipe p g s))"
  by (erule calm_trans) (simp add: calm_tasks upd_pipe_def)

lemma current_upd_pipe [simp]: "current (kern (upd_pipe p g s)) = current (kern s)"
  by (simp add: upd_pipe_def)

lemma calm_upd_current: "calm k (kern s) \<Longrightarrow> current (kern s) = Some t \<Longrightarrow>
    (\<And>x. task_next (g x) = task_next x \<and> task_id (g x) = task_id x \<and> task_state (g x) = task_state x) \<Longrightarrow>
    calm k (upd_task t g (kern s))"
  by (erule calm_trans) (simp add: calm_current)

section \<open>Files, pipes and descriptors\<close>

lemma safe_sys_read: "safe (kern s) (sys_read fd buf count s)"
  unfolding sys_read_def Let_def
  by (intro safe_rules; (split fd_kind.split)?)
    (auto intro!: safe_rules calm_upd_fd calm_upd_pipe split: fd_kind.splits option.splits outcome.splits prod.splits)

lemmas safe_splits = fd_kind.splits option.splits outcome.splits prod.splits

lemma safe_sys_write: "safe (kern s) (sys_write fd buf count s)"
  unfolding sys_write_def Let_def
  by (intro safe_rules; (split fd_kind.split)?)
    (auto intro!: safe_rules calm_upd_fd calm_upd_pipe split: safe_splits)

lemma safe_open_node: "calm k (kern s) \<Longrightarrow> safe k (open_node node flags s)"
  unfolding open_node_def Let_def by (intro safe_rules) (auto intro!: calm_upd_fd)

lemma safe_sys_open: "safe (kern s) (sys_open path flags s)"
  unfolding sys_open_def by (intro safe_rules safe_open_node) simp_all

lemma safe_sys_close: "safe (kern s) (sys_close fd s)"
  unfolding sys_close_def Let_def
  by (intro safe_rules; (split prod.split fd_kind.split)?)
    (auto intro!: safe_rules calm_upd_current calm_upd_pipe simp: task_fd_free_def split: safe_splits)

lemma safe_path_op: "safe (kern s) (path_op g path s)"
  unfolding path_op_def by (intro safe_rules) simp

lemma safe_paths:
  "safe (kern s) (sys_rmdir path s)" "safe (kern s) (sys_unlink path s)" "safe (kern s) (sys_create path s)"
  "safe (kern s) (sys_mkdir path s)" "safe (kern s) (sys_rename path path' s)" "safe (kern s) (sys_truncate path len s)"
  "safe (kern s) (sys_stat path buf s)" "safe (kern s) (sys_fstat fd buf s)"
  unfolding sys_rmdir_def sys_unlink_def sys_create_def sys_mkdir_def sys_rename_def sys_truncate_def sys_stat_def sys_fstat_def
  by (intro safe_path_op safe_rules; simp)+

lemma safe_sys_readdir: "safe (kern s) (sys_readdir fd buf index s)"
  unfolding sys_readdir_def Let_def
  by (intro safe_rules; (split prod.split fd_kind.split)?)
    (auto intro!: safe_rules split: safe_splits)

lemma safe_sys_chdir: "safe (kern s) (sys_chdir path s)"
  unfolding sys_chdir_def by (intro safe_rules) (auto intro!: calm_upd_current)

lemma safe_sys_getcwd: "safe (kern s) (sys_getcwd buf len s)"
  unfolding sys_getcwd_def Let_def by (intro safe_rules) simp_all

lemma safe_sys_seek: "safe (kern s) (sys_seek fd offset whence s)"
  unfolding sys_seek_def Let_def by (intro safe_rules calm_upd_fd) simp_all

lemma safe_sys_dup2: "safe (kern s) (sys_dup2 oldfd newfd s)"
  unfolding sys_dup2_def Let_def
  by (intro safe_rules) (auto intro!: calm_upd_fd calm_upd_current simp: task_fd_free_def)

lemma safe_sys_pipe: "safe (kern s) (sys_pipe fds s)"
proof (cases "pipe_alloc (kern s)")
  case (Pair p k)
  then have k: "calm (kern s) k" by (auto simp: pipe_alloc_def calm_tasks split: option.splits)
  show ?thesis
    unfolding sys_pipe_def Pair Let_def prod.case
    using k by (intro safe_rules) (auto intro!: calm_upd_fd calm_upd_current[of "kern s" "s\<lparr>kern := k\<rparr>", simplified] simp: task_fd_free_def)
qed

section \<open>Processes\<close>

lemma safe_sys_exit: "sched_inv (kern s) \<Longrightarrow> safe (kern s) (sys_exit code s)"
proof -
  assume inv: "sched_inv (kern s)"
  have "calm (kern s) (sched_exit code (kern s))"
  proof (cases "current (kern s)")
    case (Some c)
    let ?k = "upd_task c (\<lambda>t. t\<lparr>exit_code := code, task_state := Zombie\<rparr>) (kern s)"
    have "task_state (tasks (kern s) c) \<noteq> Unused" using inv Some by (simp add: sched_inv_def used_slots_def)
    then have "calm (kern s) ?k" by (intro calm_shared) (simp_all add: own_state_def)
    from calm_trans[OF this calm_wake] show ?thesis by (simp add: sched_exit_def Some Let_def)
  qed (simp add: sched_exit_def)
  then show ?thesis unfolding sys_exit_def by (intro safe_rules) simp
qed

lemma safe_sys_kill: "safe (kern s) (sys_kill pid sig s)"
proof (cases "sched_get_task pid (kern s)")
  case (Some t)
  then have u: "task_state (tasks (kern s) t) \<noteq> Unused" by (auto simp: sched_get_task_def dest: find_upt_SomeD)
  let ?k = "upd_task t (\<lambda>x. x\<lparr>task_state := Zombie, exit_code := -1\<rparr>) (kern s)"
  have "calm (kern s) ?k" using u by (intro calm_shared) (simp_all add: own_state_def)
  from calm_trans[OF this calm_wake] have 1: "calm (kern s) (sched_wake_waiters pid ?k)"
    by (simp add: sched_wake_waiters_def)
  have 2: "calm (kern s) (upd_task t (\<lambda>x. x\<lparr>pending_signals := pending_signals x OR push_bit (unat sig) 1\<rparr>) (kern s))"
    by (rule calm_shared) (simp_all add: own_state_def)
  show ?thesis unfolding sys_kill_def Some option.case using 1 2 by (intro safe_rules) simp_all
qed (simp add: sys_kill_def safe_rules)

lemma safe_small:
  "safe (kern s) (sys_getpid s)" "safe (kern s) (sys_signal sig h s)" "safe (kern s) (sys_fb_info out s)"
  "safe (kern s) (sys_fb_putpixel x y c s)" "safe (kern s) (sys_fb_present src s)"
  "safe (kern s) (sys_fb_present_rect src x y w h' s)"
  unfolding sys_getpid_def sys_signal_def sys_fb_info_def sys_fb_putpixel_def sys_fb_present_def sys_fb_present_rect_def Let_def
  by ((intro safe_rules calm_upd_current[simplified]); (auto intro!: calm_upd_current)?)+

lemma safe_sys_setpgid: "safe (kern s) (sys_setpgid pid pgid s)"
proof -
  have "calm (kern s) (upd_task t (\<lambda>x. x\<lparr>task_pgid := g\<rparr>) (kern s))" for t g
    by (rule calm_shared) (simp_all add: own_state_def)
  then show ?thesis unfolding sys_setpgid_def Let_def by (intro safe_rules) simp_all
qed

lemma safe_sys_input_poll: "safe (kern s) (sys_input_poll out s)"
  unfolding sys_input_poll_def Let_def by (auto intro!: safe_rules split: option.splits prod.splits)

lemma map_fb_page_more: "machine.more (snd (map_fb_page t i k)) = machine.more k"
proof (cases "pmm_alloc_page (pm k)")
  case (Pair page p)
  then show ?thesis using map_user_page_more[of _ _ _ _ "k\<lparr>pm := p\<rparr>"]
    by (simp add: map_fb_page_def Let_def)
qed

lemma safe_sys_fb_map: "safe (kern s) (sys_fb_map s)"
proof -
  have "calm (kern s) k" if "for_each (map_fb_page t) xs (kern s) = (ok, k)" for t xs ok k
    using for_each_more[of "map_fb_page t" xs "kern s", OF map_fb_page_more] that by (intro calm_more) simp
  then show ?thesis unfolding sys_fb_map_def Let_def
    by (auto intro!: safe_rules split: option.splits prod.splits bool.splits)
qed

section \<open>Every system call\<close>

lemma syscall_handler_safe:
  assumes "sched_inv (kern s)" "num \<noteq> 20" "num \<noteq> 22"
  shows "safe (kern s) (syscall_handler num a1 a2 a3 a4 a5 s)"
  unfolding syscall_handler_def using assms
  by (intro safe_if safe_sys_exit safe_sys_read safe_sys_write safe_sys_open safe_sys_close safe_paths safe_sys_readdir
      safe_sys_chdir safe_sys_getcwd safe_sys_seek safe_sys_pipe safe_sys_dup2 safe_sys_kill safe_small safe_sys_setpgid
      safe_sys_input_poll safe_sys_fb_map) (simp_all add: safe_rules)

text \<open>\<open>others t k k'\<close>: the tasks in other slots than \<open>t\<close> keep what is theirs.\<close>

definition others :: "nat \<Rightarrow> kernel \<Rightarrow> kernel \<Rightarrow> bool" where
  "others t k k' \<longleftrightarrow> (\<forall>i. i \<noteq> t \<longrightarrow> own_state (tasks k' i) = own_state (tasks k i))"

lemma others_refl [simp]: "others t k k"
  by (simp add: others_def)

lemma others_trans: "others t k k' \<Longrightarrow> others t k' k'' \<Longrightarrow> others t k k''"
  by (simp add: others_def)

lemma others_more: "machine.more k' = machine.more k \<Longrightarrow> others t k k'"
  using kernel_part[of k' k] by (simp add: others_def)

lemma others_upd: "others t k (upd_task t g k)"
  by (simp add: others_def)

lemma others_enqueue: "others t k (enqueue t k)"
  by (auto simp: others_def enqueue_def own_state_def Let_def split: option.splits)

lemma others_kstack: "give_kstack t k = (ok, k') \<Longrightarrow> others t k k'"
proof -
  assume g: "give_kstack t k = (ok, k')"
  obtain b k1 where a: "alloc_stack KSTACK_PAGES k = (b, k1)" by (cases "alloc_stack KSTACK_PAGES k")
  let ?k2 = "k1\<lparr>kstacks := (kstacks k1)(t := b)\<rparr>"
  let ?k3 = "upd_task t (\<lambda>x. x\<lparr>kernel_stack_base := b, kernel_stack_top := b + KSTACK_SIZE\<rparr>) ?k2"
  have "others t k k1" using others_more[of k1 k] alloc_stack_more[of KSTACK_PAGES k] a by simp
  then have 2: "others t k ?k2" by (simp add: others_def)
  have "others t ?k3 (paging_mark_supervisor_region b KSTACK_SIZE ?k3)" by (rule others_more) (rule mark_supervisor_more)
  then have "others t k (paging_mark_supervisor_region b KSTACK_SIZE ?k3)"
    using others_trans[OF 2 others_upd] others_trans by blast
  with 2 g a show ?thesis by (auto simp: give_kstack_def Let_def split: if_splits)
qed

lemma others_fork_child: "others t k (fork_child p t k)"
proof -
  let ?f = "kernel_stack_top (tasks k t) - 176" and ?u = "user_ctx k"
  define k1 where "k1 = put_fields ?f [(off_rip, ctx_rip ?u), (off_cs, 0x23), (off_rflags, ctx_rflags ?u), (off_rax, 0),
                (off_rbx, ctx_rbx ?u), (off_rbp, ctx_rbp ?u), (off_r12, ctx_r12 ?u), (off_r13, ctx_r13 ?u),
                (off_r14, ctx_r14 ?u), (off_r15, ctx_r15 ?u), (off_rsp, ctx_rsp ?u), (off_ss, 0x1B)] (mem_zero ?f 22 k)"
  have "others t k k1" by (rule others_more) (simp add: k1_def put_fields_more mem_zero_more)
  then show ?thesis unfolding fork_child_def Let_def k1_def[symmetric] by (rule others_trans) (rule others_upd)
qed

lemma fork_others:
  fixes k k' :: kernel
  assumes f: "sched_fork k = (r, k')" and i: "task_state (tasks k i) \<noteq> Unused"
  shows "own_state (tasks k' i) = own_state (tasks k i)"
proof (cases "current k = None \<or> \<not> is_user (tasks k (the (current k))) \<or> fst (alloc_task k) = None")
  case True
  then have "k' = k"
    using f by (auto simp: sched_fork_def alloc_task_def split: option.splits if_splits)
  then show ?thesis by simp
next
  case False
  then obtain p c k1 where p: "current k = Some p" "is_user (tasks k p)" and al: "alloc_task k = (Some c, k1)"
    by (cases "alloc_task k") auto
  have c: "task_state (tasks k c) = Unused" and 1: "others c k k1"
    using al by (auto simp: alloc_task_def others_def split: option.splits dest: find_upt_SomeD)
  obtain pml4 k2 where n: "paging_new_user_space k1 = (pml4, k2)" by (cases "paging_new_user_space k1")
  have 2: "others c k k2" using others_trans[OF 1] others_more[of k2 k1] new_user_space_more[of k1] n by simp
  obtain q k3 where cl: "paging_clone_user_pages pml4 (task_cr3 (tasks k2 p)) k2 = (q, k3)"
    by (cases "paging_clone_user_pages pml4 (task_cr3 (tasks k2 p)) k2")
  have 3: "others c k k3"
    using others_trans[OF 2] others_more[of k3 k2] clone_more[of pml4 "task_cr3 (tasks k2 p)" k2] cl by simp
  let ?k4 = "upd_task c (\<lambda>x. x\<lparr>task_cr3 := pml4\<rparr>) k3"
  obtain ok k5 where g: "give_kstack c ?k4 = (ok, k5)" by (cases "give_kstack c ?k4")
  have 5: "others c k k5" by (rule others_trans[OF others_trans[OF 3 others_upd] others_kstack[OF g]])
  have free: "others c k m \<Longrightarrow> others c k (release_slot c (paging_free_user_space pml4 m))" for m
    unfolding release_slot_def by (rule others_trans[OF others_trans[OF _ others_more[OF free_space_more]] others_upd])
  have slot: "others c k (release_slot c k2)" unfolding release_slot_def by (rule others_trans[OF 2 others_upd])
  have "others c k (enqueue c (fork_child p c k5))"
    by (rule others_trans[OF others_trans[OF 5 others_fork_child] others_enqueue])
  with slot free[OF 3] free[OF 5] f p al n cl g have "others c k k'"
    by (auto simp: sched_fork_def Let_def split: if_splits bool.splits)
  with c i show ?thesis by (auto simp: others_def)
qed

lemma waitpid_own_state:
  assumes inv: "sched_inv k" and w: "sched_waitpid pid k = Some (Done (v, k'))"
    and s: "\<forall>c. current k = Some c \<longrightarrow> ucast (task_id (tasks k c)) \<noteq> pid"
  shows "own_state (tasks k' i) = own_state (tasks k i)"
proof (cases "List.find (\<lambda>i. ucast (task_id (tasks k i)) = pid) [0..<MAX_TASKS]")
  case None
  with w show ?thesis by (simp add: sched_waitpid_def)
next
  case (Some child)
  then have "ucast (task_id (tasks k child)) = pid" by (auto dest: find_upt_SomeD)
  with s have ne: "current k \<noteq> Some child" by auto
  show ?thesis
  proof (cases "task_state (tasks k child) = Zombie")
    case True
    obtain k1 where k1: "task_reap child k = Some (Done k1)"
      "tasks k1 = (\<lambda>i. (tasks k i)\<lparr>task_next := task_next (tasks k1 i),
        task_state := if i = child then Unused else task_state (tasks k i)\<rparr>)"
      using task_reap_inv[OF inv ne] by blast
    then have "k' = k1" using w Some True by (simp add: sched_waitpid_def waitpid_resume_def)
    moreover have "own_state (tasks k1 i) = own_state (tasks k i)" by (subst k1(2)) (simp add: own_state_def)
    ultimately show ?thesis by simp
  next
    case False
    then obtain c where c: "current k = Some c" "k' = upd_task c (\<lambda>t. t\<lparr>task_state := Waiting, waiting_for := pid\<rparr>) k"
      using w Some by (auto simp: sched_waitpid_def split: option.splits)
    then show ?thesis by (simp add: own_state_def)
  qed
qed

lemma sys_waitpid_returns:
  "sys_waitpid pid s = Some (Done (r, s')) \<Longrightarrow> \<exists>v. sched_waitpid pid (kern s) = Some (Done (v, kern s'))"
  by (auto simp: sys_waitpid_def ret_def split: Option.bind_splits outcome.splits wait_result.splits)

lemma sys_fork_returns:
  "sys_fork s = Some (Done (r, s')) \<Longrightarrow> \<exists>v. sched_fork (kern s) = (v, kern s')"
  by (auto simp: sys_fork_def ret_def split: prod.splits)

lemma syscall_sched_inv:
  assumes inv: "sched_inv (kern s)" and nx: "next_task_id (kern s) \<noteq> -1"
    and self: "\<forall>c. num = 22 \<and> current (kern s) = Some c \<longrightarrow> ucast (task_id (tasks (kern s) c)) \<noteq> c_int_of a1"
    and call: "syscall_handler num a1 a2 a3 a4 a5 s = Some (Done (r, s'))"
  shows "sched_inv (kern s')"
proof -
  consider (fork) "num = 20" | (wait) "num = 22" | (other) "num \<noteq> 20" "num \<noteq> 22" by blast
  then show ?thesis
  proof cases
    case fork
    then have "sys_fork s = Some (Done (r, s'))" using call by (simp add: syscall_handler_def)
    with sys_fork_returns sched_fork_inv[OF inv nx] show ?thesis by blast
  next
    case wait
    then have "sys_waitpid (c_int_of a1) s = Some (Done (r, s'))" using call by (simp add: syscall_handler_def)
    then obtain v where w: "sched_waitpid (c_int_of a1) (kern s) = Some (Done (v, kern s'))" using sys_waitpid_returns by blast
    show ?thesis by (rule waitpid_inv[OF inv w]) (use self wait in blast)
  next
    case other
    with syscall_handler_safe[OF inv] call have "calm (kern s) (kern s')" unfolding safe_def by blast
    then show ?thesis using inv by (rule calm_inv)
  qed
qed


text \<open>A system whose tasks are those of \<open>sample_kernel\<close>: task 1 runs, task 2 waits for it.\<close>

definition sample_system :: system where
  "sample_system = \<lparr>kern = sample_kernel, vol = undefined, keyb = undefined, term_state = undefined,
     pointer = undefined, cons = undefined, user_mem = (\<lambda>_. 0), system_ticks = 0\<rparr>"

lemma sample_kill: "\<exists>s'. syscall_handler 24 2 9 0 0 0 sample_system = Some (Done (Ret 0, s')) \<and>
    task_state (tasks (kern s') 1) = Zombie"
proof -
  have f: "sched_get_task 2 sample_kernel = Some 1"
    unfolding sched_get_task_def using sample_kernel_fields by (intro find_upt_SomeI) auto
  show ?thesis
    by (simp add: syscall_handler_def sys_kill_def sample_system_def c_int_of_def f ret_def sched_wake_waiters_def wake_waiters)
qed




end
