(* ===== verification/Fat_Lookup.thy ===== *)
theory Fat_Lookup
  imports Vfs
begin

text \<open>
  What the searches of \<^verbatim>\<open>Fat_Dir\<close> find: on a directory whose clusters form a chain every walk
  returns, and it sees the entries of the directory as one list that ends at the end marker.
\<close>

section \<open>Walks along a chain\<close>

text \<open>States that differ in the two buffers only.\<close>

definition same_volume :: "'a fat_scheme \<Rightarrow> 'a fat_scheme \<Rightarrow> bool" where
  "same_volume f f' \<longleftrightarrow> (\<exists>b c. f' = f\<lparr>sector_buffer := b, cluster_buffer := c\<rparr>)"

lemma same_volume_refl [simp]: "same_volume f f"
  unfolding same_volume_def by (rule exI[of _ "sector_buffer f"], rule exI[of _ "cluster_buffer f"]) simp

lemma same_volume_trans: "same_volume f g \<Longrightarrow> same_volume g h \<Longrightarrow> same_volume f h"
proof -
  assume "same_volume f g" "same_volume g h"
  then obtain b c where "h = f\<lparr>sector_buffer := b, cluster_buffer := c\<rparr>" by (auto simp: same_volume_def)
  then show ?thesis unfolding same_volume_def by blast
qed

lemma same_volume_load [simp]: "same_volume f (load_sector l f)" "same_volume f (load_cluster c f)"
proof -
  show "same_volume f (load_sector l f)"
    unfolding same_volume_def load_sector_def by (rule exI, rule exI[of _ "cluster_buffer f"]) simp
  have "load_cluster c f = f\<lparr>sector_buffer := sector_buffer f, cluster_buffer := cluster_buffer (load_cluster c f)\<rparr>"
    by (simp add: load_cluster_def read_cluster_def split: prod.splits)
  then show "same_volume f (load_cluster c f)" unfolding same_volume_def by blast
qed

lemma same_volumeD:
  assumes "same_volume f f'"
  shows "disk f' = disk f" "fs f' = fs f" "root_node f' = root_node f" "dirent_buf f' = dirent_buf f"
    "node_cache f' = node_cache f" "node_cache_used f' = node_cache_used f" "node_of r f' = node_of r f"
    "same_nodes f f'"
  using assms by (auto simp: same_volume_def node_of_def same_nodes_def split: nat.splits)

lemma same_volume_view:
  assumes "same_volume f f'"
  shows "fat_ok f' = fat_ok f" "valid_cluster f' c = valid_cluster f c" "fat_of f' c = fat_of f c"
    "cdata f' c = cdata f c" "chain f' c xs = chain f c xs" "entries_per_cluster f' = entries_per_cluster f"
  using view_cong[OF same_volumeD(1,2)[OF assms]] chain_view[OF same_volumeD(1,2)[OF assms]] same_volumeD(2)[OF assms]
  by (simp_all add: entries_per_cluster_def)

text \<open>
  A body looks at the bytes of the cluster only; then the walk is a fold over the contents of
  the clusters.
\<close>

definition local_body :: "('b \<Rightarrow> bytes \<Rightarrow> nat \<Rightarrow> 'r + 'b) \<Rightarrow> bool" where
  "local_body body \<longleftrightarrow>
     (\<forall>acc b b' n. (\<forall>k<n. b k = b' k) \<longrightarrow> body acc b (n div 32) = body acc b' (n div 32))"

fun walk_list :: "('b \<Rightarrow> bytes \<Rightarrow> nat \<Rightarrow> 'r + 'b) \<Rightarrow> 'b \<Rightarrow> (u32 \<times> u8 list) list \<Rightarrow> u32 \<times> 'r + 'b" where
  "walk_list body acc [] = Inr acc"
| "walk_list body acc ((c, d) # cs) =
     (case body acc (\<lambda>k. d ! k) (length d div 32) of Inl r \<Rightarrow> Inl (c, r) | Inr acc \<Rightarrow> walk_list body acc cs)"

definition contents_of :: "'a fat_scheme \<Rightarrow> u32 list \<Rightarrow> (u32 \<times> u8 list) list" where
  "contents_of f xs = map (\<lambda>c. (c, cdata f c)) xs"

lemma contents_of_simps [simp]:
  "contents_of f [] = []" "contents_of f (x # xs) = (x, cdata f x) # contents_of f xs"
  by (simp_all add: contents_of_def)

lemma contents_of_cong: "same_volume f f' \<Longrightarrow> contents_of f' xs = contents_of f xs"
  by (simp add: contents_of_def same_volume_view)

lemma entries_per_cluster_eq: "entries_per_cluster f = bpc f div 32"
  by (simp add: entries_per_cluster_def unat_div)

lemma local_body_load:
  assumes "local_body body" "fat_ok f"
  shows "body acc (cluster_buffer (load_cluster c f)) (entries_per_cluster f) =
    body acc (\<lambda>k. cdata f c ! k) (length (cdata f c) div 32)"
  unfolding entries_per_cluster_eq length_cdata
  using assms(1) nth_load[OF assms(2)] unfolding local_body_def by blast

text \<open>On a chain the walk returns, with the cluster of the answer in the buffer.\<close>

lemma walk_dir_chain:
  assumes "local_body body" "fat_ok f" "chain f c xs"
  shows "\<exists>f'. walk_dir body acc c f = Some (walk_list body acc (contents_of f xs), f') \<and> same_volume f f' \<and>
    (\<forall>x r. walk_list body acc (contents_of f xs) = Inl (x, r) \<longrightarrow>
      x \<in> set xs \<and> (\<forall>k<bpc f. cluster_buffer f' k = cdata f x ! k))"
  using assms(2-3)
proof (induction xs arbitrary: c f acc)
  case Nil
  then show ?case by (subst walk_dir.simps) auto
next
  case (Cons x xs)
  from Cons.prems(2) have x: "x = c" "valid_cluster f c" "chain f (fat_of f c) xs" by simp_all
  note ne = valid_not_end(1)[OF Cons.prems(1) x(2)]
  let ?f1 = "load_cluster c f"
  let ?f2 = "load_sector (fat_sector c f) ?f1"
  have "entries_per_cluster ?f1 = entries_per_cluster f" by (simp add: entries_per_cluster_def)
  note b = local_body_load[OF assms(1) Cons.prems(1), of acc c, folded this]
  have g: "get_next_cluster c ?f1 = (fat_of f c, ?f2)"
    using get_next_cluster_eq[of ?f1 c] fat_okD(1)[OF Cons.prems(1)] by simp
  show ?case
  proof (cases "body acc (\<lambda>k. cdata f c ! k) (length (cdata f c) div 32)")
    case (Inl r)
    then have "walk_dir body acc c f = Some (Inl (c, r), ?f1)"
      using ne b by (subst walk_dir.simps) (simp add: Let_def)
    then show ?thesis using Inl x(1) nth_load[OF Cons.prems(1)] by simp
  next
    case (Inr acc')
    have "same_volume f ?f2" by (rule same_volume_trans[OF same_volume_load(2) same_volume_load(1)])
    note V = same_volume_view[OF this] contents_of_cong[OF this] same_volumeD(2)[OF this]
    from Cons.IH[of ?f2 "fat_of f c" acc'] obtain f' where
      f': "walk_dir body acc' (fat_of f c) ?f2 = Some (walk_list body acc' (contents_of f xs), f')"
      "same_volume ?f2 f'"
      "\<And>y r. walk_list body acc' (contents_of f xs) = Inl (y, r) \<Longrightarrow>
        y \<in> set xs \<and> (\<forall>k<bpc f. cluster_buffer f' k = cdata f y ! k)"
      using Cons.prems x unfolding V by blast
    have "walk_dir body acc c f = Some (walk_list body acc' (contents_of f xs), f')"
      using ne b g Inr f'(1) by (subst walk_dir.simps) (simp add: Let_def)
    then show ?thesis
      using f'(3) same_volume_trans[OF \<open>same_volume f ?f2\<close> f'(2)] x(1) Inr by auto
  qed
qed

section \<open>Entries\<close>

lemma entry_cong:
  assumes "\<And>k. k < n \<Longrightarrow> b k = b' k" "i < n div 32"
  shows "b (32 * i) = b' (32 * i)" "ent_name b i = ent_name b' i" "ent_attr b i = ent_attr b' i"
    "ent_cluster b i = ent_cluster b' i" "ent_size b i = ent_size b' i" "listed b i = listed b' i"
    "is_lfn b i = is_lfn b' i"
proof -
  have "32 * i + k < n" if "k < 32" for k using assms(2) that by linarith
  then have e: "b (32 * i + k) = b' (32 * i + k)" if "k < 32" for k using that assms(1) by blast
  show "b (32 * i) = b' (32 * i)" using e[of 0] by simp
  show n: "ent_name b i = ent_name b' i" unfolding ent_name_def using e by (intro get_list_cong) simp
  show a: "ent_attr b i = ent_attr b' i" by (simp add: ent_attr_def e)
  then show "listed b i = listed b' i" "is_lfn b i = is_lfn b' i" by (simp_all add: listed_def is_lfn_def)
  show "ent_cluster b i = ent_cluster b' i"
    using e[of 20] e[of 21] e[of 26] e[of 27] by (simp add: ent_cluster_def le16_def ac_simps)
  show "ent_size b i = ent_size b' i" unfolding ent_size_def
    by (rule le32_cong) (use e in \<open>simp add: add.assoc\<close>)
qed

lemma scan_entries_cong:
  assumes "\<And>i. i \<in> set is \<Longrightarrow> b (32 * i) = b' (32 * i) \<and> want i = want' i"
  shows "scan_entries want b is = scan_entries want' b' is"
  using assms by (induction "is") auto

text \<open>Writing an entry and reading its fields.\<close>

lemma mask16_bits: "bit (0xFFFF :: int) n \<longleftrightarrow> n < 16"
proof -
  have "(0xFFFF :: int) = mask 16" by (simp add: mask_numeral)
  then show ?thesis by (simp only: bit_mask_iff) auto
qed

lemma ent_cluster_set: "ent_cluster (set_ent_cluster i c b) i = c"
proof -
  have "push_bit 16 (ucast (ucast (drop_bit 16 c AND 0xFFFF) :: u16)) OR ucast (ucast (c AND 0xFFFF) :: u16) = c"
    by (rule bit_word_eqI)
      (auto simp: bit_or_iff bit_push_bit_iff bit_ucast_iff bit_and_iff bit_drop_bit_eq mask16_bits)
  moreover have "le16 (set_ent_cluster i c b) (32 * i + 20) = ucast (drop_bit 16 c AND 0xFFFF)"
    "le16 (set_ent_cluster i c b) (32 * i + 26) = ucast (c AND 0xFFFF)"
    by (simp_all add: set_ent_cluster_def buf_simps)
  ultimately show ?thesis by (simp add: ent_cluster_def)
qed

lemma set_ent_outside:
  assumes "k < 32 * i \<or> 32 * i + 32 \<le> k"
  shows "set_ent_attr i a b k = b k" "set_ent_cluster i c b k = b k" "set_ent_size i v b k = b k"
    "length n \<le> 32 \<Longrightarrow> set_ent_name i n b k = b k"
  using assms by (auto simp: set_ent_attr_def set_ent_cluster_def set_ent_size_def set_ent_name_def put16_apply put32_apply put_list_def)

lemma entry_in_place_fields:
  assumes "length n = 11"
  shows "ent_name (entry_in_place i n a c v b) i = n" "ent_attr (entry_in_place i n a c v b) i = a"
    "ent_cluster (entry_in_place i n a c v b) i = c" "ent_size (entry_in_place i n a c v b) i = v"
    "k < 32 * i \<or> 32 * i + 32 \<le> k \<Longrightarrow> entry_in_place i n a c v b k = b k"
proof -
  let ?b1 = "set_ent_name i n b" and ?b2 = "set_ent_attr i a (set_ent_name i n b)"
  let ?b3 = "set_ent_cluster i c ?b2"
  have e: "entry_in_place i n a c v b = set_ent_size i v ?b3" by (simp add: entry_in_place_def)
  have b3: "set_ent_size i v ?b3 (32 * i + k) = ?b3 (32 * i + k)" if "k < 28" for k
    using that by (simp add: set_ent_size_def put32_apply)
  have b2: "?b3 (32 * i + k) = ?b2 (32 * i + k)" if "k < 20" for k
    using that by (simp add: set_ent_cluster_def put16_apply)
  show "ent_name (entry_in_place i n a c v b) i = n"
  proof (rule nth_equalityI)
    fix k assume "k < length (ent_name (entry_in_place i n a c v b) i)"
    then have k: "k < 11" by (simp add: ent_name_def)
    have "ent_name (entry_in_place i n a c v b) i ! k = ?b2 (32 * i + k)"
      using k by (simp add: e ent_name_def b3 b2)
    also have "\<dots> = n ! k" using k assms by (simp add: set_ent_attr_def set_ent_name_def put_list_def)
    finally show "ent_name (entry_in_place i n a c v b) i ! k = n ! k" .
  qed (simp add: ent_name_def assms)
  show "ent_attr (entry_in_place i n a c v b) i = a"
  proof -
    have "ent_attr (entry_in_place i n a c v b) i = ?b2 (32 * i + 11)" by (simp add: e ent_attr_def b3 b2)
    then show ?thesis by (simp add: set_ent_attr_def)
  qed
  have "ent_cluster (set_ent_size i v ?b3) i = ent_cluster ?b3 i"
    using b3[of 20] b3[of 21] b3[of 26] b3[of 27] by (simp add: ent_cluster_def le16_def ac_simps)
  then show "ent_cluster (entry_in_place i n a c v b) i = c" unfolding e by (simp add: ent_cluster_set)
  show "ent_size (entry_in_place i n a c v b) i = v"
    unfolding e by (simp add: ent_size_def set_ent_size_def buf_simps)
  show "entry_in_place i n a c v b k = b k" if "k < 32 * i \<or> 32 * i + 32 \<le> k"
    unfolding e using assms by (simp add: set_ent_outside[OF that])
qed

text \<open>The entries of a directory, as pairs of a cluster and an index, and the search in them.\<close>

definition slots :: "nat \<Rightarrow> u32 list \<Rightarrow> (u32 \<times> nat) list" where
  "slots n xs = concat (map (\<lambda>c. map (Pair c) [0..<n]) xs)"

definition entry_at :: "'a fat_scheme \<Rightarrow> u32 \<Rightarrow> bytes" where
  "entry_at f c = (\<lambda>k. cdata f c ! k)"

definition find_slot :: "'a fat_scheme \<Rightarrow> (bytes \<Rightarrow> nat \<Rightarrow> bool) \<Rightarrow> u32 list \<Rightarrow> (u32 \<times> nat) option" where
  "find_slot f want xs =
     (case List.find (\<lambda>(c, i). entry_at f c (32 * i) = 0 \<or> entry_at f c (32 * i) \<noteq> DELETED \<and> want (entry_at f c) i)
             (slots (bpc f div 32) xs) of
        Some (c, i) \<Rightarrow> if entry_at f c (32 * i) = 0 then None else Some (c, i)
      | None \<Rightarrow> None)"

lemma find_map_Pair: "List.find P (map (Pair c) is) = map_option (Pair c) (List.find (\<lambda>i. P (c, i)) is)"
  by (induction "is") auto

lemma scan_entries_find:
  "scan_entries want b is = (case List.find (\<lambda>i. b (32 * i) = 0 \<or> b (32 * i) \<noteq> DELETED \<and> want i) is of
     None \<Rightarrow> NoHit | Some i \<Rightarrow> if b (32 * i) = 0 then EndMark else Hit i)"
  by (induction "is") auto

text \<open>The searches look at fields of the entry.\<close>

definition local_want :: "(bytes \<Rightarrow> nat \<Rightarrow> bool) \<Rightarrow> bool" where
  "local_want want \<longleftrightarrow> (\<forall>n b b' i. (\<forall>k<n. b k = b' k) \<longrightarrow> i < n div 32 \<longrightarrow> want b i = want b' i)"

lemma local_wantD: "local_want want \<Longrightarrow> \<forall>k<n. b k = b' k \<Longrightarrow> i < n div 32 \<Longrightarrow> want b i = want b' i"
  unfolding local_want_def
  by (drule spec[of _ n], drule spec[of _ b], drule spec[of _ b'], drule spec[of _ i], drule mp, assumption, drule mp)

lemma local_wants [simp]: "local_want (wants_entry n)" "local_want (wants_listed n)"
  unfolding local_want_def wants_entry_def wants_listed_def using entry_cong by (metis (no_types, lifting))+

lemma scan_body_local: "local_want want \<Longrightarrow> local_body (scan_body want)"
  unfolding local_body_def
proof (intro allI impI)
  fix acc n and b b' :: bytes
  assume w: "local_want want" and e: "\<forall>k<n. b k = b' k"
  have "scan_entries (want b) b [0..<n div 32] = scan_entries (want b') b' [0..<n div 32]"
  proof (rule scan_entries_cong)
    fix i assume "i \<in> set [0..<n div 32]"
    then have i: "i < n div 32" by simp
    have "want b i = want b' i" using w e i by (rule local_wantD)
    moreover have "b (32 * i) = b' (32 * i)" by (rule entry_cong(1)[OF e[rule_format] i])
    ultimately show "b (32 * i) = b' (32 * i) \<and> want b i = want b' i" by blast
  qed
  then show "scan_body want acc b (n div 32) = scan_body want acc b' (n div 32)" unfolding scan_body_def by (simp only:)
qed

lemma walk_scan:
  "(case walk_list (scan_body want) () (contents_of f xs) of Inl (c, Some i) \<Rightarrow> Some (c, i) | _ \<Rightarrow> None) = find_slot f want xs"
proof (induction xs)
  case Nil
  then show ?case by (simp add: find_slot_def slots_def)
next
  case (Cons c xs)
  let ?b = "\<lambda>k. cdata f c ! k" and ?n = "bpc f div 32"
  let ?F = "List.find (\<lambda>i. ?b (32 * i) = 0 \<or> ?b (32 * i) \<noteq> DELETED \<and> want ?b i) [0..<?n]"
  have s: "slots ?n (c # xs) = map (Pair c) [0..<?n] @ slots ?n xs" by (simp add: slots_def)
  show ?case
  proof (cases ?F)
    case None
    then show ?thesis using Cons
      by (simp add: find_slot_def s find_append find_map_Pair scan_body_def scan_entries_find entry_at_def)
  next
    case (Some i)
    then show ?thesis
      by (simp add: find_slot_def s find_append find_map_Pair scan_body_def scan_entries_find entry_at_def)
  qed
qed

text \<open>The search of a directory: it returns, and answers the slot that \<open>find_slot\<close> names.\<close>

lemma search_dir:
  assumes "local_want want" "fat_ok f" "chain f c xs"
  obtains r f' where "walk_dir (scan_body want) () c f = Some (r, f')" "same_volume f f'"
    "(case r of Inl (x, Some i) \<Rightarrow> Some (x, i) | _ \<Rightarrow> None) = find_slot f want xs"
    "\<And>x i. find_slot f want xs = Some (x, i) \<Longrightarrow> x \<in> set xs \<and> (\<forall>k<bpc f. cluster_buffer f' k = entry_at f x k)"
proof -
  let ?r = "walk_list (scan_body want) () (contents_of f xs)"
  obtain f' where f': "walk_dir (scan_body want) () c f = Some (?r, f')" "same_volume f f'"
    "\<And>x r. ?r = Inl (x, r) \<Longrightarrow> x \<in> set xs \<and> (\<forall>k<bpc f. cluster_buffer f' k = cdata f x ! k)"
    using walk_dir_chain[OF scan_body_local[OF assms(1)] assms(2,3), of "()"] by blast
  have "x \<in> set xs \<and> (\<forall>k<bpc f. cluster_buffer f' k = entry_at f x k)" if "find_slot f want xs = Some (x, i)" for x i
    using f'(3)[of x] that walk_scan[of want f xs] by (auto simp: entry_at_def split: sum.splits prod.splits option.splits)
  with f'(1,2) walk_scan[of want f xs] show ?thesis by (rule that)
qed

section \<open>Nodes for entries\<close>

lemma upd_node_simps [simp]:
  "disk (upd_node r g f) = disk f" "fs (upd_node r g f) = fs f" "node_cache_used (upd_node r g f) = node_cache_used f"
  "cluster_buffer (upd_node r g f) = cluster_buffer f" "sector_buffer (upd_node r g f) = sector_buffer f"
  "node_of q (upd_node r g f) = (if q = r then g (node_of q f) else node_of q f)"
  by (auto simp: upd_node_def node_of_def split: nat.splits)

lemma upd_node_view [simp]: "fat_ok (upd_node r g f) = fat_ok f" "chain (upd_node r g f) c xs = chain f c xs"
  "fat_of (upd_node r g f) c = fat_of f c" "cdata (upd_node r g f) c = cdata f c"
  using view_cong[of "upd_node r g f" f] chain_view[of "upd_node r g f" f] by simp_all

text \<open>The cached node with a given first cluster, as \<^verbatim>\<open>create_node\<close> looks for it.\<close>

definition cached :: "u32 \<Rightarrow> 'a fat_scheme \<Rightarrow> nat option" where
  "cached cl f = (if cl \<ge> 2 then List.find (\<lambda>j. v_inode (node_cache f j) = cl) [0..<node_cache_used f] else None)"

text \<open>What a node says about the entry \<open>i\<close> of the cluster \<open>b\<close>.\<close>

definition describes :: "vfs_node \<Rightarrow> bytes \<Rightarrow> nat \<Rightarrow> bool" where
  "describes x b i \<longleftrightarrow> v_name x = fat32_name_to_string (ent_name b i) \<and> v_inode x = ent_cluster b i \<and>
     v_size x = ent_size b i"

lemma create_node_cases:
  obtains (cached) j where "cached (ent_cluster (cluster_buffer f) i) f = Some j"
      "create_node i f = (Some (Suc j), upd_node (Suc j)
         (\<lambda>n. n\<lparr>v_name := fat32_name_to_string (ent_name (cluster_buffer f) i), v_size := ent_size (cluster_buffer f) i\<rparr>) f)"
      "v_inode (node_of (Suc j) f) = ent_cluster (cluster_buffer f) i" "j < node_cache_used f"
    | (fresh) "cached (ent_cluster (cluster_buffer f) i) f = None" "node_cache_used f < 64"
      "create_node i f = (Some (Suc (node_cache_used f)), upd_node (Suc (node_cache_used f))
         (new_node i (cluster_buffer f)) (f\<lparr>node_cache_used := node_cache_used f + 1\<rparr>))"
    | (full) "cached (ent_cluster (cluster_buffer f) i) f = None" "64 \<le> node_cache_used f" "create_node i f = (None, f)"
proof (cases "cached (ent_cluster (cluster_buffer f) i) f")
  case (Some j)
  then have "v_inode (node_cache f j) = ent_cluster (cluster_buffer f) i" "j < node_cache_used f"
    by (auto simp: cached_def split: if_splits dest: find_upt_SomeD)
  with Some show ?thesis by (intro cached[of j]) (simp_all add: create_node_def Let_def cached_def[symmetric] node_of_def)
next
  case None
  then show ?thesis
    by (cases "node_cache_used f < 64")
      (auto intro: fresh full simp: create_node_def Let_def cached_def[symmetric] alloc_node_def)
qed

lemma new_node_fields:
  "describes (new_node i b x) b i" "private_data (new_node i b x) = 0"
  "v_flags (new_node i b x) = (if ent_attr b i AND ATTR_DIRECTORY \<noteq> 0 then VFS_DIRECTORY else VFS_FILE)"
  by (simp_all add: new_node_def Let_def describes_def)

lemma create_node_some:
  assumes "create_node i f = (Some n, f')"
  shows "describes (node_of n f') (cluster_buffer f) i" "disk f' = disk f" "fs f' = fs f"
    "r \<noteq> n \<Longrightarrow> node_of r f' = node_of r f" "n \<le> node_cache_used f + 1"
    "r \<le> node_cache_used f \<Longrightarrow> v_inode (node_of r f') = v_inode (node_of r f)"
    "n \<le> node_cache_used f'" "node_cache_used f \<le> node_cache_used f'"
proof -
  have "describes (node_of n f') (cluster_buffer f) i \<and> disk f' = disk f \<and> fs f' = fs f \<and>
    (r \<noteq> n \<longrightarrow> node_of r f' = node_of r f) \<and> n \<le> node_cache_used f + 1 \<and>
    (r \<le> node_cache_used f \<longrightarrow> v_inode (node_of r f') = v_inode (node_of r f)) \<and>
    n \<le> node_cache_used f' \<and> node_cache_used f \<le> node_cache_used f'"
  proof (cases rule: create_node_cases[of f i])
    case (cached j)
    then show ?thesis using assms by (auto simp: describes_def)
  next
    case fresh
    have "node_of q (f\<lparr>node_cache_used := m\<rparr>) = node_of q f" for q m by (simp add: node_of_def split: nat.splits)
    then show ?thesis using assms fresh new_node_fields(1) by auto
  next
    case full
    then show ?thesis using assms by simp
  qed
  then show "describes (node_of n f') (cluster_buffer f) i" "disk f' = disk f" "fs f' = fs f"
    "r \<noteq> n \<Longrightarrow> node_of r f' = node_of r f" "n \<le> node_cache_used f + 1"
    "r \<le> node_cache_used f \<Longrightarrow> v_inode (node_of r f') = v_inode (node_of r f)"
    "n \<le> node_cache_used f'" "node_cache_used f \<le> node_cache_used f'" by blast+
qed

lemma describes_cong: "i < n div 32 \<Longrightarrow> (\<And>k. k < n \<Longrightarrow> b k = b' k) \<Longrightarrow> describes x b i = describes x b' i"
  using entry_cong[of n b b' i] by (simp add: describes_def)

lemma find_SomeD: "List.find P xs = Some x \<Longrightarrow> x \<in> set xs \<and> P x"
  by (induction xs) (auto split: if_splits)

lemma find_slot_index: "find_slot f want xs = Some (c, i) \<Longrightarrow> i < bpc f div 32 \<and> c \<in> set xs \<and> want (entry_at f c) i"
proof -
  assume f: "find_slot f want xs = Some (c, i)"
  let ?P = "\<lambda>(c, i). entry_at f c (32 * i) = 0 \<or> entry_at f c (32 * i) \<noteq> DELETED \<and> want (entry_at f c) i"
  from f have "List.find ?P (slots (bpc f div 32) xs) = Some (c, i)" and nz: "entry_at f c (32 * i) \<noteq> 0"
    by (auto simp: find_slot_def split: option.splits prod.splits if_splits)
  from find_SomeD[OF this(1)] nz show ?thesis by (auto simp: slots_def)
qed

section \<open>Lookup\<close>

text \<open>
  C30 (functional).  Looking up a name in a directory whose clusters form a chain returns.  It
  finds the first entry before the end marker that carries the short name of the component
  and is neither deleted, nor part of a long name, nor a volume label; the node it answers
  describes that entry and remembers the directory, and nothing is written to the disk.
  It answers null exactly when there is no such entry or when a new node is needed and all
  64 are used up.
\<close>

theorem finddir_correct:
  assumes ok: "fat_ok f" and d: "is_dir node f" and ch: "chain f (v_inode (node_of node f)) xs"
    and node: "node \<le> node_cache_used f"
  shows "\<exists>r f'. fat32_finddir node name f = Some (r, f') \<and> disk f' = disk f \<and>
    (case find_slot f (wants_listed (string_to_fat32_name name)) xs of
       None \<Rightarrow> r = None
     | Some (c, i) \<Rightarrow>
         (case r of
            None \<Rightarrow> 64 \<le> node_cache_used f \<and> cached (ent_cluster (entry_at f c) i) f = None
          | Some n \<Rightarrow> describes (node_of n f') (entry_at f c) i \<and>
              private_data (node_of n f') = v_inode (node_of node f)))"
proof -
  let ?w = "wants_listed (string_to_fat32_name name)"
  obtain r g where g: "walk_dir (scan_body ?w) () (v_inode (node_of node f)) f = Some (r, g)" "same_volume f g"
    "(case r of Inl (x, Some i) \<Rightarrow> Some (x, i) | _ \<Rightarrow> None) = find_slot f ?w xs"
    "\<And>x i. find_slot f ?w xs = Some (x, i) \<Longrightarrow> x \<in> set xs \<and> (\<forall>k<bpc f. cluster_buffer g k = entry_at f x k)"
    using search_dir[OF local_wants(2) ok ch] by blast
  note G = same_volumeD[OF g(2)]
  show ?thesis
  proof (cases "find_slot f ?w xs")
    case None
    then show ?thesis using d g(1,3) G
      by (cases r) (auto simp: fat32_finddir_def split: option.splits)
  next
    case (Some ci)
    obtain c i where ci: "ci = (c, i)" by fastforce
    then have r: "r = Inl (c, Some i)" using g(3) Some by (auto split: sum.splits prod.splits option.splits)
    have i: "i < bpc f div 32" using find_slot_index Some ci by blast
    have b: "\<And>k. k < bpc f \<Longrightarrow> cluster_buffer g k = entry_at f c k" using g(4) Some ci by blast
    note D = describes_cong[OF i b] and E = entry_cong(4)[OF b i]
    have cg: "cached x g = cached x f" for x using G by (simp add: cached_def)
    show ?thesis
    proof (cases "create_node i g")
      case (Pair q h)
      then have res: "fat32_finddir node name f = Some (case q of None \<Rightarrow> (None, h)
          | Some n \<Rightarrow> (Some n, upd_node n (\<lambda>x. x\<lparr>private_data := v_inode (node_of node h)\<rparr>) h))"
        using d g(1) r by (simp add: fat32_finddir_def split: option.splits)
      show ?thesis
      proof (cases q)
        case None
        then have "64 \<le> node_cache_used g \<and> cached (ent_cluster (cluster_buffer g) i) g = None \<and> h = g"
          using Pair by (cases rule: create_node_cases[of g i]) auto
        then show ?thesis using res None Some ci G E by (auto simp: cg)
      next
        case q: (Some n)
        note C = create_node_some[OF Pair[unfolded q]]
        have "v_inode (node_of node h) = v_inode (node_of node f)" using C(6)[of node] node G by simp
        moreover have "describes (node_of n h) (entry_at f c) i" using C(1) D by simp
        ultimately show ?thesis using res q Some ci G C(2) by (auto simp: describes_def)
      qed
    qed
  qed
qed

text \<open>The sample volume with the file \<^verbatim>\<open>readme.txt\<close>, 600 bytes in clusters 3 and 4.\<close>

definition sample_dir :: bytes where
  "sample_dir = entry_in_place 0 (string_to_fat32_name (bytes_of ''readme.txt'')) ATTR_ARCHIVE 3 600 (\<lambda>_. 0)"

definition sample_vol :: fat where
  "sample_vol = sample_fat\<lparr>disk := (disk sample_fat)(33 := sample_dir)\<rparr>"

lemma sample_vol_ok: "fat_ok sample_vol" "is_dir 0 sample_vol" "v_inode (node_of 0 sample_vol) = 2"
  "bpc sample_vol = 512" "node_cache_used sample_vol = 0" "cached c sample_vol = None"
  "v_finddir (node_of 0 sample_vol)"
  using fat_ok_fs(1)[of sample_vol sample_fat] sample_fat_ok
  by (simp_all add: sample_vol_def sample_fat_def sample_fs_def is_dir_def node_of_def cached_def)

lemma sample_vol_valid: "valid_cluster sample_vol c = valid_cluster sample_fat c"
  using fat_ok_fs(2)[of sample_vol sample_fat] by (simp add: sample_vol_def)

lemma sample_vol_table: "valid_cluster sample_fat c \<Longrightarrow> fat_of sample_vol c = fat_of sample_fat c"
proof -
  assume c: "valid_cluster sample_fat c"
  have fs: "fs sample_vol = fs sample_fat" by (simp add: sample_vol_def)
  note F = fat_ok_fs[OF fs]
  have "lba28 (fat_sector c sample_fat) < 33"
    using fat_place(3)[OF sample_fat_ok c] by (simp add: sample_fat_def sample_fs_def)
  then have "disk sample_vol (lba28 (fat_sector c sample_fat)) = disk sample_fat (lba28 (fat_sector c sample_fat))"
    by (simp add: sample_vol_def)
  then show ?thesis by (simp only: fat_of_def F)
qed

lemma sample_vol_chains: "chain sample_vol 2 [2]" "chain sample_vol 3 [3, 4]"
  by (simp_all add: sample_vol_valid sample_valid sample_vol_table sample_table is_end_of_chain_def)

lemma sample_entry: "k < 512 \<Longrightarrow> entry_at sample_vol 2 k = sample_dir k"
proof -
  assume k: "k < 512"
  have v: "valid_cluster sample_vol 2" by (simp add: sample_vol_valid sample_valid)
  have "lba28 (cluster_to_lba 2 sample_vol) = 33"
    using cluster_place[OF sample_vol_ok(1) v] by (simp add: sample_vol_def sample_fat_def sample_fs_def)
  then show ?thesis using k sample_vol_ok(4) by (simp add: entry_at_def cdata_def) (simp add: sample_vol_def)
qed

lemma strncmp_refl [simp]: "strncmp n n k = 0"
proof (induction k arbitrary: n)
  case (Suc k)
  then show ?case by (cases n) auto
qed simp

lemma sample_dir_fields:
  "ent_name sample_dir 0 = string_to_fat32_name (bytes_of ''readme.txt'')" "ent_attr sample_dir 0 = ATTR_ARCHIVE"
  "ent_cluster sample_dir 0 = 3" "ent_size sample_dir 0 = 600"
  unfolding sample_dir_def by (rule entry_in_place_fields, rule length_string_to_fat32_name)+

lemma sample_first_byte: "sample_dir 0 = 82"
proof -
  have "sample_dir 0 = ent_name sample_dir 0 ! 0" by (simp add: ent_name_def)
  also have "\<dots> = 82" unfolding sample_dir_fields by (simp add: string_to_fat32_name_def to_upper_def pad_def)
  finally show ?thesis .
qed

lemma sample_slot: "find_slot sample_vol (wants_listed (string_to_fat32_name (bytes_of ''readme.txt''))) [2] = Some (2, 0)"
proof -
  have "listed sample_dir 0" by (simp add: listed_def is_lfn_def sample_dir_fields)
  then have "wants_listed (string_to_fat32_name (bytes_of ''readme.txt'')) sample_dir 0"
    by (simp add: wants_listed_def sample_dir_fields(1))
  then have "wants_listed (string_to_fat32_name (bytes_of ''readme.txt'')) (entry_at sample_vol 2) 0"
    using local_wantD[OF local_wants(2), of 512 "entry_at sample_vol 2" sample_dir 0] sample_entry by simp
  moreover have "entry_at sample_vol 2 0 = 82" using sample_entry[of 0] sample_first_byte by simp
  moreover have "[0..<16] = 0 # [1..<16]" by (simp add: upt_rec)
  ultimately show ?thesis by (simp add: find_slot_def slots_def sample_vol_ok(4))
qed

theorem finddir_correct_witness:
  "\<exists>n f'. fat32_finddir 0 (bytes_of ''readme.txt'') sample_vol = Some (Some n, f') \<and>
    v_inode (node_of n f') = 3 \<and> v_size (node_of n f') = 600"
proof -
  obtain r f' where r: "fat32_finddir 0 (bytes_of ''readme.txt'') sample_vol = Some (r, f')"
    "case r of None \<Rightarrow> 64 \<le> node_cache_used sample_vol \<and> cached (ent_cluster (entry_at sample_vol 2) 0) sample_vol = None
     | Some n \<Rightarrow> describes (node_of n f') (entry_at sample_vol 2) 0 \<and> private_data (node_of n f') = v_inode (node_of 0 sample_vol)"
    using finddir_correct [OF sample_vol_ok(1,2), of "[2]" "bytes_of ''readme.txt''"] sample_vol_chains(1) sample_vol_ok(3)
    unfolding sample_slot by auto
  have "ent_cluster (entry_at sample_vol 2) 0 = 3" "ent_size (entry_at sample_vol 2) 0 = 600"
    using entry_cong(4,5)[of 512 "entry_at sample_vol 2" sample_dir 0] sample_entry sample_dir_fields by simp_all
  with r(2) sample_vol_ok(5) have "\<exists>n. r = Some n \<and> v_inode (node_of n f') = 3 \<and> v_size (node_of n f') = 600"
    by (cases r) (simp_all add: describes_def)
  with r(1) show ?thesis by blast
qed

end
