(* ===== verification/Fat_Read.thy ===== *)
theory Fat_Read
  imports Fat_Lookup
begin

text \<open>
  Reading and overwriting files whose clusters form a chain: the loops of \<^verbatim>\<open>fat32_read\<close> and
  \<^verbatim>\<open>fat32_write\<close> return, and they read and write the slice of the file's bytes one expects.
\<close>

section \<open>The bytes of a file\<close>

definition file_bytes :: "'a fat_scheme \<Rightarrow> u32 list \<Rightarrow> u8 list" where
  "file_bytes f xs = concat (map (cdata f) xs)"

lemma file_bytes_simps [simp]:
  "file_bytes f [] = []" "file_bytes f (x # xs) = cdata f x @ file_bytes f xs"
  by (simp_all add: file_bytes_def)

lemma length_file_bytes: "length (file_bytes f xs) = bpc f * length xs"
  by (induction xs) (simp_all add: algebra_simps)

lemma file_bytes_cong: "(\<And>x. x \<in> set xs \<Longrightarrow> cdata f' x = cdata f x) \<Longrightarrow> file_bytes f' xs = file_bytes f xs"
  unfolding file_bytes_def by (metis (no_types, lifting) map_eq_conv)

lemma unat_plus32: "unat a + unat b < 2 ^ 32 \<Longrightarrow> unat (a + b :: u32) = unat a + unat b"
  by (rule unat_plus_small) simp

lemma bytes_rest: "n \<le> k \<Longrightarrow> n * b + b * (k - n) = b * (k :: nat)"
  by (metis add_mult_distrib2 le_add_diff_inverse mult.commute)

section \<open>Skipping to the offset\<close>

lemma skip_loop_chain:
  assumes "fat_ok f" "chain f c xs" "unat fp + bpc f * Suc (length xs) < 2 ^ 32" "fp \<le> offset"
  shows "\<exists>n c' f'. skip_loop offset fp c f = Some ((fp + of_nat (n * bpc f), c'), f') \<and> same_volume f f' \<and>
    chain f c' (drop n xs) \<and> n = min (length xs) ((unat offset - unat fp) div bpc f)"
  using assms(2-4,1)
proof (induction xs arbitrary: c f fp)
  case Nil
  then have "is_end_of_chain c" by simp
  then have "skip_loop offset fp c f = Some ((fp, c), f)" by (subst skip_loop.simps) simp
  then show ?case using Nil(1) by (intro exI[of _ 0] exI[of _ c] exI[of _ f]) simp
next
  case (Cons x xs)
  from Cons.prems(1) have x: "x = c" "valid_cluster f c" "chain f (fat_of f c) xs" by simp_all
  note ok = Cons.prems(4) and D = fat_okD[OF Cons.prems(4)]
  note ne = valid_not_end(1)[OF ok x(2)]
  have B: "0 < bpc f" using D(2,4) by simp
  have le: "unat fp \<le> unat offset" using Cons.prems(3) by (simp add: word_le_nat_alt)
  have bb: "bpc f * Suc (length (x # xs)) = bpc f + bpc f * Suc (length xs)" by simp
  have fits: "unat fp + bpc f + bpc f * Suc (length xs) < 2 ^ 32" using Cons.prems(2) unfolding bb by linarith
  then have u: "unat (fp + bytes_per_cluster (fs f)) = unat fp + bpc f" by (intro unat_plus32) linarith
  show ?case
  proof (cases "unat fp + bpc f \<le> unat offset")
    case False
    then have "(unat offset - unat fp) div bpc f = 0" using le by (intro div_less) linarith
    moreover have "\<not> fp + bytes_per_cluster (fs f) \<le> offset" using False by (simp add: word_le_nat_alt u)
    then have "skip_loop offset fp c f = Some ((fp, c), f)" by (subst skip_loop.simps) simp
    ultimately show ?thesis
      using Cons.prems(1) by (intro exI[of _ 0] exI[of _ c] exI[of _ f]) simp
  next
    case True
    let ?f1 = "load_sector (fat_sector c f) f"
    have g: "get_next_cluster c f = (fat_of f c, ?f1)" by (rule get_next_cluster_eq[OF D(1)])
    have V: "fs ?f1 = fs f" "fat_ok ?f1" "chain ?f1 (fat_of f c) xs"
      using ok x(3) chain_view[of ?f1 f] by simp_all
    have le': "fp + bytes_per_cluster (fs f) \<le> offset" using True by (simp add: word_le_nat_alt u)
    have fits': "unat (fp + bytes_per_cluster (fs ?f1)) + bpc ?f1 * Suc (length xs) < 2 ^ 32"
      unfolding V u using fits .
    obtain n c' f' where IH: "skip_loop offset (fp + bytes_per_cluster (fs f)) (fat_of f c) ?f1 =
        Some ((fp + bytes_per_cluster (fs f) + of_nat (n * bpc f), c'), f')" "same_volume ?f1 f'"
        "chain ?f1 c' (drop n xs)" "n = min (length xs) ((unat offset - (unat fp + bpc f)) div bpc f)"
      using Cons.IH[OF V(3) fits' _ V(2)] le' unfolding V u by blast
    then have IH3: "chain f c' (drop n xs)" using chain_view[of ?f1 f] by simp
    have "(unat offset - unat fp) div bpc f = Suc ((unat offset - (unat fp + bpc f)) div bpc f)"
    proof -
      define y where "y = unat offset - (unat fp + bpc f)"
      have e: "unat offset - unat fp = bpc f + y" using True unfolding y_def by linarith
      have "bpc f \<noteq> 0" using B by linarith
      from div_add_self1[OF this, of y] show ?thesis unfolding y_def[symmetric] e by (simp only: Suc_eq_plus1)
    qed
    then have "Suc n = min (length (x # xs)) ((unat offset - unat fp) div bpc f)" using IH(4) by simp
    moreover have "skip_loop offset fp c f = Some ((fp + of_nat (Suc n * bpc f), c'), f')"
      using ne g IH(1) le' by (subst skip_loop.simps) (simp add: Let_def algebra_simps)
    moreover have "chain f c' (drop (Suc n) (x # xs))" using IH3 by simp
    ultimately show ?thesis
      using same_volume_trans[OF same_volume_load(1) IH(2)] by blast
  qed
qed

section \<open>The amount of one turn\<close>

lemma read_amount_nat:
  assumes "read_amount cb offset len sz fp rd = (co, n)"
    and "unat fp + unat cb < 2 ^ 32" "unat rd \<le> unat len" "unat offset - unat fp < unat cb"
    and "unat fp + (unat offset - unat fp) \<le> unat sz"
  shows "unat co = unat offset - unat fp"
    "unat n = min (min (unat cb - (unat offset - unat fp)) (unat len - unat rd)) (unat sz - unat fp - (unat offset - unat fp))"
proof -
  have co: "co = (if fp < offset then offset - fp else 0)" using assms(1) by (simp add: read_amount_def Let_def)
  then show uco: "unat co = unat offset - unat fp"
    by (auto simp: word_less_nat_alt word_le_nat_alt unat_sub)
  define t1 where "t1 = cb - co"
  have t1: "unat t1 = unat cb - unat co" unfolding t1_def using assms(4) uco by (intro unat_sub) (simp add: word_le_nat_alt)
  have ul: "unat (len - rd) = unat len - unat rd" using assms(3) by (intro unat_sub) (simp add: word_le_nat_alt)
  define t2 where "t2 = (if t1 > len - rd then len - rd else t1)"
  have t2: "unat t2 = min (unat cb - unat co) (unat len - unat rd)"
    unfolding t2_def using t1 ul by (auto simp: word_less_nat_alt)
  have n: "n = (if fp + co + t2 > sz then sz - fp - co else t2)"
    using assms(1) unfolding read_amount_def Let_def co[symmetric] t1_def[symmetric] t2_def[symmetric] by simp
  have s1: "unat (fp + co) = unat fp + unat co" using assms(2,4) uco by (intro unat_plus32) linarith
  have s2: "unat (fp + co + t2) = unat fp + unat co + unat t2"
  proof -
    have "unat (fp + co) + unat t2 < 2 ^ 32" using assms(2,4) t2 s1 uco by linarith
    from unat_plus32[OF this] show ?thesis using s1 by simp
  qed
  have z: "unat (sz - fp - co) = unat sz - unat fp - unat co"
  proof -
    have "unat (sz - (fp + co)) = unat sz - unat (fp + co)" using assms(5) uco s1 by (intro unat_sub) (simp add: word_le_nat_alt)
    then show ?thesis using s1 by (simp add: diff_diff_add)
  qed
  show "unat n = min (min (unat cb - (unat offset - unat fp)) (unat len - unat rd)) (unat sz - unat fp - (unat offset - unat fp))"
    unfolding uco[symmetric] t2[symmetric]
  proof (cases "unat sz < unat fp + unat co + unat t2")
    case True
    then have "n = sz - fp - co" using n s2 by (simp add: word_less_nat_alt)
    then have "unat n = unat sz - unat fp - unat co" using z by simp
    with True show "unat n = min (unat t2) (unat sz - unat fp - unat co)" by simp
  next
    case False
    then have "n = t2" using n s2 by (simp add: word_less_nat_alt)
    with False show "unat n = min (unat t2) (unat sz - unat fp - unat co)" by simp
  qed
qed

section \<open>Reading a file\<close>

text \<open>One step of a slice over the first cluster of a file and the rest.\<close>

lemma slice_step:
  assumes "length d = B" "co \<le> B" "co \<le> S" "n = min (min (B - co) L) (S - co)" "rest \<noteq> [] \<Longrightarrow> B \<le> S"
  shows "take L (drop co (take S (d @ rest))) = take n (drop co d) @ take (L - n) (take (S - B) rest)"
proof (cases "B \<le> S")
  case True
  then show ?thesis using assms by (auto simp: min_def)
next
  case False
  then show ?thesis using assms by (auto simp: min_def drop_take)
qed

lemma get_list_load_slice:
  assumes "fat_ok f" "co + n \<le> bpc f"
  shows "get_list (cluster_buffer (load_cluster c f)) co n = take n (drop co (cdata f c))"
  by (rule nth_equalityI) (use assms in \<open>simp_all add: nth_load\<close>)

lemma read_loop_step:
  assumes "\<not> is_end_of_chain c" "of_nat (length out) < len"
    "read_amount (bytes_per_cluster (fs f)) offset len sz fp (of_nat (length out)) = (co, n)"
    "unat co + unat n \<le> 4096" "get_next_cluster c (load_cluster c f) = (nxt, f')"
  shows "read_loop offset len sz fp c out f = read_loop offset len sz (fp + bytes_per_cluster (fs f)) nxt
    (out @ get_list (cluster_buffer (load_cluster c f)) (unat co) (unat n)) f'"
  using assms by (subst read_loop.simps) (simp add: Let_def)

lemma read_loop_chain:
  assumes "fat_ok f" "chain f c ys" "unat fp + bpc f * Suc (length ys) < 2 ^ 32" "length out \<le> unat len"
    "unat offset - unat fp < bpc f" "ys \<noteq> [] \<Longrightarrow> unat fp + (unat offset - unat fp) \<le> unat sz"
    "unat fp + bpc f * (length ys - 1) \<le> unat sz \<or> ys = []"
  shows "\<exists>f'. read_loop offset len sz fp c out f = Some (Done (out @
      take (unat len - length out) (drop (unat offset - unat fp) (take (unat sz - unat fp) (file_bytes f ys)))), f') \<and>
    same_volume f f'"
  using assms(2-7,1)
proof (induction ys arbitrary: c f fp out)
  case Nil
  then have "is_end_of_chain c" by simp
  then show ?case by (subst read_loop.simps) auto
next
  case (Cons x xs)
  from Cons.prems(1) have x: "x = c" "valid_cluster f c" "chain f (fat_of f c) xs" by simp_all
  note ok = Cons.prems(7) and D = fat_okD[OF Cons.prems(7)]
  note ne = valid_not_end(1)[OF ok x(2)]
  let ?o = "unat offset - unat fp"
  have uo: "unat (of_nat (length out) :: u32) = length out"
    using Cons.prems(3) unat_lt_two_power[of len] by (intro unat_of_nat_small) simp
  show ?case
  proof (cases "length out < unat len")
    case False
    then have "\<not> (of_nat (length out) :: u32) < len" by (simp add: word_less_nat_alt uo)
    then show ?thesis using False by (subst read_loop.simps) auto
  next
    case True
    then have lt: "(of_nat (length out) :: u32) < len" by (simp add: word_less_nat_alt uo)
    obtain co n where am: "read_amount (bytes_per_cluster (fs f)) offset len sz fp (of_nat (length out)) = (co, n)"
      by fastforce
    have fpb: "unat fp + bpc f < 2 ^ 32" and bb: "unat fp + bpc f + bpc f * Suc (length xs) < 2 ^ 32"
      using Cons.prems(2) by simp_all
    have le: "unat (of_nat (length out) :: u32) \<le> unat len" unfolding uo using True by simp
    have sz: "unat fp + ?o \<le> unat sz" using Cons.prems(5) by simp
    note A = read_amount_nat[OF am fpb le Cons.prems(4) sz, unfolded uo]
    define m where "m = min (min (bpc f - ?o) (unat len - length out)) (unat sz - unat fp - ?o)"
    note A = A[folded m_def]
    have mb: "m \<le> bpc f - ?o" "m \<le> unat len - length out" unfolding m_def by simp_all
    let ?f1 = "load_cluster c f"
    let ?f2 = "load_sector (fat_sector c f) ?f1"
    let ?out = "out @ take m (drop ?o (cdata f c))"
    have cn: "?o + m \<le> bpc f" using Cons.prems(4) mb by linarith
    have g: "get_next_cluster c ?f1 = (fat_of f c, ?f2)"
      using get_next_cluster_eq[of ?f1 c] D(1) by simp
    have "same_volume f ?f2" by (rule same_volume_trans[OF same_volume_load(2) same_volume_load(1)])
    note V = same_volume_view[OF this] same_volumeD(2)[OF this]
    have "bpc f \<le> 4096" using D(3,4) by linarith
    with cn have b4: "unat co + unat n \<le> 4096" unfolding A by (rule order_trans)
    have gl: "get_list (cluster_buffer ?f1) (unat co) (unat n) = take m (drop ?o (cdata f c))"
      unfolding A by (rule get_list_load_slice[OF ok cn])
    note step = read_loop_step[OF ne lt am b4 g, unfolded gl]
    have u: "unat (fp + bytes_per_cluster (fs f)) = unat fp + bpc f" using fpb by (rule unat_plus32)
    have lo: "length ?out = length out + m" using mb(1) by simp
    have o': "unat offset - (unat fp + bpc f) = 0" using Cons.prems(4) by linarith
    have tight: "xs \<noteq> [] \<Longrightarrow> unat fp + bpc f + bpc f * (length xs - 1) \<le> unat sz"
      using Cons.prems(6) by (cases xs) (simp_all add: algebra_simps)
    have "\<exists>f'. read_loop offset len sz (fp + bytes_per_cluster (fs f)) (fat_of f c) ?out ?f2 = Some (Done (?out @
        take (unat len - length ?out) (drop (unat offset - unat (fp + bytes_per_cluster (fs f)))
          (take (unat sz - unat (fp + bytes_per_cluster (fs f))) (file_bytes ?f2 xs)))), f') \<and> same_volume ?f2 f'"
    proof (rule Cons.IH)
      show "chain ?f2 (fat_of f c) xs" using x(3) V(5) by blast
      show "unat (fp + bytes_per_cluster (fs f)) + bpc ?f2 * Suc (length xs) < 2 ^ 32" unfolding u V(7) by (rule bb)
      show "length ?out \<le> unat len" unfolding lo using True mb(2) by linarith
      show "unat offset - unat (fp + bytes_per_cluster (fs f)) < bpc ?f2" unfolding u o' V(7) using D(2,4) by simp
      show "unat (fp + bytes_per_cluster (fs f)) + (unat offset - unat (fp + bytes_per_cluster (fs f))) \<le> unat sz"
        if "xs \<noteq> []" unfolding u o' using tight[OF that] by linarith
      show "unat (fp + bytes_per_cluster (fs f)) + bpc ?f2 * (length xs - 1) \<le> unat sz \<or> xs = []"
        unfolding u V(7) using tight by blast
      show "fat_ok ?f2" using ok V(1) by blast
    qed
    then obtain f' where f': "read_loop offset len sz (fp + bytes_per_cluster (fs f)) (fat_of f c) ?out ?f2 = Some (Done (?out @
        take (unat len - length ?out) (drop (unat offset - (unat fp + bpc f)) (take (unat sz - (unat fp + bpc f)) (file_bytes f xs)))), f')"
      "same_volume ?f2 f'"
      unfolding u using file_bytes_cong[of xs ?f2 f] V(4) by auto
    have "take (unat len - length out) (drop ?o (take (unat sz - unat fp) (cdata f c @ file_bytes f xs))) =
      take m (drop ?o (cdata f c)) @ take (unat len - length out - m) (take (unat sz - unat fp - bpc f) (file_bytes f xs))"
    proof (rule slice_step)
      show "?o \<le> bpc f" using Cons.prems(4) by linarith
      show "?o \<le> unat sz - unat fp" using sz by linarith
      show "bpc f \<le> unat sz - unat fp" if "file_bytes f xs \<noteq> []"
        using that tight by (cases xs) auto
    qed (simp_all add: m_def)
    then show ?thesis
      unfolding step f'(1) lo o' x(1) using same_volume_trans[OF \<open>same_volume f ?f2\<close> f'(2)]
      by (intro exI[of _ f']) simp
  qed
qed

lemma file_bytes_drop: "file_bytes f (drop n xs) = drop (n * bpc f) (file_bytes f xs)"
proof (induction n arbitrary: xs)
  case (Suc n)
  then show ?case by (cases xs) (simp_all add: algebra_simps)
qed simp

lemma file_slice_drop:
  assumes "n * bpc f \<le> offset"
  shows "drop (offset - n * bpc f) (take (sz - n * bpc f) (file_bytes f (drop n xs))) = drop offset (take sz (file_bytes f xs))"
  using assms by (simp add: file_bytes_drop drop_take)

lemma bpc_bound: "fat_ok f \<Longrightarrow> 0 < bpc f \<and> bpc f \<le> 4096 \<and> bytes_per_cluster (fs f) \<noteq> 0 \<and> \<not> bytes_per_cluster (fs f) > 4096"
proof -
  assume "fat_ok f"
  note D = fat_okD[OF this]
  have b: "0 < bpc f" "bpc f \<le> 4096" using D(2,3,4) by linarith+
  then have "\<not> bytes_per_cluster (fs f) > 4096" by (simp add: word_less_nat_alt)
  with b show ?thesis by auto
qed

text \<open>Where the skip ends, as numbers.\<close>

lemma skip_loop_start:
  assumes "fat_ok f" "chain f c xs" "bpc f * length xs + 4096 < 2 ^ 32"
  obtains n c' f' where "skip_loop offset 0 c f = Some ((of_nat (n * bpc f), c'), f')" "same_volume f f'"
    "chain f c' (drop n xs)" "n = min (length xs) (unat offset div bpc f)" "unat (of_nat (n * bpc f) :: u32) = n * bpc f"
proof -
  note b = bpc_bound[OF assms(1)]
  have "bpc f * Suc (length xs) = bpc f * length xs + bpc f" by simp
  then have "unat (0 :: u32) + bpc f * Suc (length xs) < 2 ^ 32" using assms(3) b by (simp del: mult_Suc_right)
  from skip_loop_chain[OF assms(1,2) this, of offset] obtain n c' f' where
    r: "skip_loop offset 0 c f = Some ((of_nat (n * bpc f), c'), f')" "same_volume f f'" "chain f c' (drop n xs)"
      "n = min (length xs) (unat offset div bpc f)" by auto
  have "n * bpc f \<le> length xs * bpc f" using r(4) by (intro mult_right_mono) simp_all
  also have "\<dots> < 2 ^ 32" using assms(3) unfolding mult.commute[of "length xs"] by linarith
  finally have "unat (of_nat (n * bpc f) :: u32) = n * bpc f" by (intro unat_of_nat_small) simp
  with r show ?thesis by (intro that)
qed

lemma fat32_read_slice:
  assumes "fat_ok f" "is_file node f" "chain f (v_inode (node_of node f)) xs" "bpc f * length xs + 4096 < 2 ^ 32"
    and "bpc f * (length xs - 1) \<le> unat (v_size (node_of node f))" "offset \<le> v_size (node_of node f)"
  shows "\<exists>f'. fat32_read node offset len f = Some (Done (Some
      (take (unat len) (drop (unat offset) (take (unat (v_size (node_of node f))) (file_bytes f xs))))), f') \<and> same_volume f f'"
proof -
  note b = bpc_bound[OF assms(1)]
  let ?sz = "v_size (node_of node f)"
  obtain n c f1 where s: "skip_loop offset 0 (v_inode (node_of node f)) f = Some ((of_nat (n * bpc f), c), f1)"
    "same_volume f f1" "chain f c (drop n xs)" "n = min (length xs) (unat offset div bpc f)"
    and u: "unat (of_nat (n * bpc f) :: u32) = n * bpc f" by (rule skip_loop_start[OF assms(1,3,4)])
  note V = same_volume_view[OF s(2)] same_volumeD(2,7)[OF s(2)]
  have le: "unat offset \<le> unat ?sz" using assms(6) by (simp add: word_le_nat_alt)
  have nle: "n * bpc f \<le> unat offset"
  proof -
    have "n * bpc f \<le> unat offset div bpc f * bpc f" using s(4) by (intro mult_right_mono) simp_all
    then show ?thesis using div_times_less_eq_dividend[of "unat offset" "bpc f"] by linarith
  qed
  let ?out = "take (unat len) (drop (unat offset) (take (unat ?sz) (file_bytes f xs)))"
  have loop: "\<exists>f2. read_loop offset len ?sz (of_nat (n * bpc f)) c [] f1 = Some (Done ?out, f2) \<and> same_volume f1 f2"
  proof (cases "drop n xs")
    case Nil
    then have e: "is_end_of_chain c" "length xs = n" using s(3,4) by simp_all
    have "length (file_bytes f xs) \<le> unat offset" unfolding length_file_bytes e(2) using nle by (simp add: mult.commute)
    then have "?out = []" by simp
    then show ?thesis using e(1) by (subst read_loop.simps) auto
  next
    case (Cons x ys)
    then have n: "n < length xs" by (metis drop_all linorder_not_less list.discI)
    then have "n = unat offset div bpc f" using s(4) by linarith
    then have o: "unat offset - n * bpc f < bpc f" using b by (simp add: minus_div_mult_eq_mod)
    have L: "length (drop n xs) = length xs - n" by simp
    have tot: "n * bpc f + bpc f * (length xs - n) = bpc f * length xs"
      using n by (intro bytes_rest) simp
    have "\<exists>f2. read_loop offset len ?sz (of_nat (n * bpc f)) c [] f1 = Some (Done ([] @ take (unat len - length ([] :: u8 list))
        (drop (unat offset - unat (of_nat (n * bpc f) :: u32)) (take (unat ?sz - unat (of_nat (n * bpc f) :: u32))
          (file_bytes f1 (drop n xs))))), f2) \<and> same_volume f1 f2"
    proof (rule read_loop_chain)
      show "fat_ok f1" "chain f1 c (drop n xs)" using assms(1) s(3) V by simp_all
      show "unat (of_nat (n * bpc f) :: u32) + bpc f1 * Suc (length (drop n xs)) < 2 ^ 32"
        unfolding u V(7) L mult_Suc_right using assms(4) b tot by linarith
      show "unat offset - unat (of_nat (n * bpc f) :: u32) < bpc f1" unfolding u V(7) by (rule o)
      show "unat (of_nat (n * bpc f) :: u32) + (unat offset - unat (of_nat (n * bpc f) :: u32)) \<le> unat ?sz"
        unfolding u using nle le by linarith
      have "n * bpc f + bpc f * (length xs - n - 1) = bpc f * (length xs - 1)"
      proof -
        obtain k where "length xs = n + Suc k" using less_imp_Suc_add[OF n] by auto
        then show ?thesis by (simp add: algebra_simps)
      qed
      then show "unat (of_nat (n * bpc f) :: u32) + bpc f1 * (length (drop n xs) - 1) \<le> unat ?sz \<or> drop n xs = []"
        unfolding u V(7) L using assms(5) by linarith
    qed simp
    moreover have "file_bytes f1 (drop n xs) = file_bytes f (drop n xs)" by (rule file_bytes_cong) (rule V(4))
    ultimately show ?thesis unfolding u using file_slice_drop[OF nle, of "unat ?sz" xs] by simp
  qed
  then obtain f2 where f2: "read_loop offset len ?sz (of_nat (n * bpc f)) c [] f1 = Some (Done ?out, f2)" "same_volume f1 f2" by blast
  have "fat32_read node offset len f = Some (Done (Some ?out), f2)"
    using assms(2) b s(1) f2(1) V(8)[of node] by (simp add: fat32_read_def)
  then show ?thesis using same_volume_trans[OF s(2) f2(2)] by blast
qed

text \<open>
  C17 (functional).  Reading a file whose clusters form a chain, from an offset that is not beyond its
  size, returns: it answers the bytes of the file from the offset on, at most as many as
  asked and none beyond the size, and changes nothing but the two buffers.  The chain has
  no cluster that lies wholly beyond the size.
\<close>

theorem fat32_read_correct:
  assumes "fat_ok f" "is_file node f" "chain f (v_inode (node_of node f)) xs" "bpc f * length xs + 4096 < 2 ^ 32"
    and "bpc f * (length xs - 1) \<le> unat (v_size (node_of node f))" "offset \<le> v_size (node_of node f)"
  shows "\<exists>f'. fat32_read node offset len f = Some (Done (Some
      (take (unat len) (drop (unat offset) (take (unat (v_size (node_of node f))) (file_bytes f xs))))), f') \<and> same_volume f f'"
  by (rule fat32_read_slice[OF assms])

text \<open>An open file on the sample volume: node 1 describes \<^verbatim>\<open>readme.txt\<close>.\<close>

definition sample_open :: fat where
  "sample_open = upd_node 1 (new_node 0 sample_dir) sample_vol"

lemma sample_open_node:
  "v_inode (node_of 1 sample_open) = 3" "v_size (node_of 1 sample_open) = 600" "is_file 1 sample_open"
  "private_data (node_of 1 sample_open) = 0"
  by (simp_all add: sample_open_def new_node_def Let_def sample_dir_fields is_file_def)

lemma sample_open_ok: "fat_ok sample_open" "chain sample_open 3 [3, 4]" "bpc sample_open = 512"
  "length (file_bytes sample_open [3, 4]) = 1024"
proof -
  show "fat_ok sample_open" "chain sample_open 3 [3, 4]" and b: "bpc sample_open = 512"
    using sample_vol_ok(1,4) sample_vol_chains(2) by (simp_all add: sample_open_def del: chain.simps)
  show "length (file_bytes sample_open [3, 4]) = 1024" by (simp add: length_file_bytes b)
qed

theorem fat32_read_correct_witness:
  "\<exists>out f'. fat32_read 1 550 100 sample_open = Some (Done (Some out), f') \<and> length out = 50"
proof -
  note N = sample_open_node and O = sample_open_ok
  have "\<exists>f'. fat32_read 1 550 100 sample_open = Some (Done (Some (take (unat (100 :: u32)) (drop (unat (550 :: u32))
      (take (unat (v_size (node_of 1 sample_open))) (file_bytes sample_open [3, 4]))))), f') \<and> same_volume sample_open f'"
    by (rule fat32_read_correct [OF O(1) N(3)]) (use N O in \<open>simp_all del: chain.simps file_bytes_simps\<close>)
  moreover have "length (take (unat (100 :: u32)) (drop (unat (550 :: u32))
      (take (unat (v_size (node_of 1 sample_open))) (file_bytes sample_open [3, 4])))) = 50"
    using N O by (simp del: file_bytes_simps)
  ultimately show ?thesis by blast
qed

text \<open>
  A read that starts beyond the size of the file, but inside its last cluster, copies
  memory from beyond the cluster buffer: the subtraction of the position from the size
  wraps.  The position of a descriptor can be set beyond the size by \<^verbatim>\<open>SYS_SEEK\<close>.
\<close>

theorem fat32_read_beyond_size:
  assumes "fat_ok f" "is_file node f" "chain f (v_inode (node_of node f)) xs" "bpc f * length xs + 4096 < 2 ^ 32"
    and "v_size (node_of node f) < offset" "unat offset < bpc f * length xs" "0 < len"
  shows "\<exists>f'. fat32_read node offset len f = Some (Undef, f')"
proof -
  note b = bpc_bound[OF assms(1)]
  let ?sz = "v_size (node_of node f)"
  obtain n c f1 where s: "skip_loop offset 0 (v_inode (node_of node f)) f = Some ((of_nat (n * bpc f), c), f1)"
    "same_volume f f1" "chain f c (drop n xs)" "n = min (length xs) (unat offset div bpc f)"
    and u: "unat (of_nat (n * bpc f) :: u32) = n * bpc f" by (rule skip_loop_start[OF assms(1,3,4)])
  note V = same_volume_view[OF s(2)] same_volumeD(2,7)[OF s(2)]
  have q: "unat offset div bpc f < length xs" using assms(6) by (simp add: less_mult_imp_div_less mult.commute)
  then have n: "n = unat offset div bpc f" "n < length xs" using s(4) by simp_all
  define fp where "fp = (of_nat (n * bpc f) :: u32)"
  have o: "unat offset = unat fp + (unat offset - unat fp)" "unat offset - unat fp < bpc f"
  proof -
    have "n * bpc f \<le> unat offset" "unat offset - n * bpc f < bpc f"
      unfolding n(1) using b by (simp_all add: minus_div_mult_eq_mod)
    then show "unat offset = unat fp + (unat offset - unat fp)" "unat offset - unat fp < bpc f"
      unfolding fp_def u by linarith+
  qed
  have "chain f c (drop n xs)" "drop n xs \<noteq> []" using s(3) n(2) by simp_all
  then have c: "valid_cluster f c" by (cases "drop n xs") auto
  have ne: "\<not> is_end_of_chain c" using valid_not_end(1)[OF assms(1) c] by simp
  define t where "t = (if bytes_per_cluster (fs f) - (offset - fp) > len then len else bytes_per_cluster (fs f) - (offset - fp))"
  have lefp: "fp \<le> offset" using o(1) by (simp add: word_le_nat_alt)
  have uo: "unat (offset - fp) = unat offset - unat fp" using lefp by (simp add: unat_sub word_le_nat_alt)
  have uc: "unat (bytes_per_cluster (fs f) - (offset - fp)) = bpc f - (unat offset - unat fp)"
    using o(2) uo by (subst unat_sub) (simp_all add: word_le_nat_alt)
  have t: "unat t \<le> bpc f - (unat offset - unat fp)"
    unfolding t_def using uc by (auto simp: word_less_nat_alt)
  have top: "unat fp + bpc f \<le> bpc f * length xs"
  proof -
    have "(n + 1) * bpc f \<le> length xs * bpc f" using n(2) by (intro mult_right_mono) simp_all
    then show ?thesis unfolding fp_def u by (simp add: algebra_simps)
  qed
  have ut: "unat (offset + t) = unat offset + unat t"
    using t o top assms(4) by (intro unat_plus32) linarith
  have over: "?sz < offset + t" using assms(5) ut by (simp add: word_less_nat_alt)
  have wrap: "unat (?sz - offset) = 2 ^ 32 + unat ?sz - unat offset"
    using assms(5) unat_lt_two_power[of offset] by (subst unat_sub_if') (simp add: word_less_nat_alt)
  have am: "read_amount (bytes_per_cluster (fs f)) offset len ?sz fp 0 = (offset - fp, ?sz - offset)"
    using over lefp unfolding read_amount_def Let_def t_def by (auto simp: algebra_simps)
  have big: "4096 < unat (offset - fp) + unat (?sz - offset)"
    unfolding uo wrap using o top b assms(4) by linarith
  have "read_loop offset len ?sz fp c [] f1 = Some (Undef, load_cluster c f1)"
    using assms(7) ne am big V(7) by (subst read_loop.simps) (simp add: Let_def)
  then have "fat32_read node offset len f = Some (Undef, load_cluster c f1)"
    using assms(2) b s(1) V(8)[of node] by (simp add: fat32_read_def fp_def)
  then show ?thesis by blast
qed

theorem fat32_read_beyond_size_witness: "\<exists>f'. fat32_read 1 601 1 sample_open = Some (Undef, f')"
  by (rule fat32_read_beyond_size [OF sample_open_ok(1) sample_open_node(3), of "[3, 4]"])
    (use sample_open_node sample_open_ok in \<open>simp_all del: chain.simps\<close>)

end
