(* ===== verification/Fat_Write.thy ===== *)
theory Fat_Write
  imports Fat_Read
begin

text \<open>
  Overwriting files in place: the loops of \<^verbatim>\<open>fat32_write\<close> on a file whose chain already has a
  cluster for every byte to write, and reading back what was written.
\<close>

section \<open>Replacing a part of a list\<close>

definition overwrite :: "nat \<Rightarrow> 'a list \<Rightarrow> 'a list \<Rightarrow> 'a list" where
  "overwrite off xs ys = take off ys @ xs @ drop (off + length xs) ys"

lemma overwrite_Nil [simp]: "overwrite off [] ys = ys"
  by (simp add: overwrite_def)

lemma length_overwrite: "off + length xs \<le> length ys \<Longrightarrow> length (overwrite off xs ys) = length ys"
  by (simp add: overwrite_def)

lemma overwrite_inside: "off + length xs \<le> length d \<Longrightarrow> overwrite off xs (d @ ys) = overwrite off xs d @ ys"
  by (simp add: overwrite_def)

lemma overwrite_across:
  "off + length xs = length d \<Longrightarrow> overwrite off (xs @ zs) (d @ ys) = overwrite off xs d @ overwrite 0 zs ys"
  by (simp add: overwrite_def add.assoc[symmetric])

lemma nth_overwrite:
  "off + length xs \<le> length ys \<Longrightarrow> i < length ys \<Longrightarrow>
   overwrite off xs ys ! i = (if off \<le> i \<and> i < off + length xs then xs ! (i - off) else ys ! i)"
  by (auto simp: overwrite_def nth_append min_def)

lemma overwrite_drop:
  "k \<le> off \<Longrightarrow> off + length xs \<le> length ys \<Longrightarrow> overwrite off xs ys = take k ys @ overwrite (off - k) xs (drop k ys)"
  by (simp add: overwrite_def take_drop min_def) (metis append_take_drop_id le_add_diff_inverse take_add append_assoc drop_take)

lemma slice_overwrite:
  "off + length xs \<le> n \<Longrightarrow> n \<le> length ys \<Longrightarrow> take (length xs) (drop off (take n (overwrite off xs ys))) = xs"
  by (simp add: overwrite_def)

section \<open>One cluster\<close>

definition write_cluster_part :: "u32 \<Rightarrow> nat \<Rightarrow> bytes \<Rightarrow> nat \<Rightarrow> nat \<Rightarrow> 'a fat_scheme \<Rightarrow> 'a fat_scheme" where
  "write_cluster_part c co buf w n f =
     store_cluster c (edit_buffer (\<lambda>b. blit b co buf w n) (load_cluster c f))"

lemma edit_buffer_view [simp]:
  "disk (edit_buffer g f) = disk f" "fs (edit_buffer g f) = fs f" "cluster_buffer (edit_buffer g f) = g (cluster_buffer f)"
  by (simp_all add: edit_buffer_def)

lemma write_cluster_part_view:
  assumes ok: "fat_ok f" and c: "valid_cluster f c" and n: "co + n \<le> bpc f"
  shows "fat_ok (write_cluster_part c co buf w n f)" "same_nodes f (write_cluster_part c co buf w n f)"
    "valid_cluster f x \<Longrightarrow> fat_of (write_cluster_part c co buf w n f) x = fat_of f x"
    "valid_cluster f x \<Longrightarrow> cdata (write_cluster_part c co buf w n f) x =
       (if x = c then overwrite co (get_list buf w n) (cdata f c) else cdata f x)"
proof -
  let ?g = "edit_buffer (\<lambda>b. blit b co buf w n) (load_cluster c f)"
  have V: "fat_ok ?g = fat_ok f" "valid_cluster ?g x = valid_cluster f x" "fat_of ?g x = fat_of f x" "cdata ?g x = cdata f x" for x
    using view_cong[of ?g f] by simp_all
  note S = store_cluster_view[of ?g c, unfolded V, OF ok c] 
  show "fat_ok (write_cluster_part c co buf w n f)" using S(3) by (simp add: write_cluster_part_def)
  show "same_nodes f (write_cluster_part c co buf w n f)" unfolding write_cluster_part_def
    by (rule same_nodes_trans[OF same_nodes_trans[OF same_nodes_simps(3) same_nodes_simps(5)] same_nodes_simps(4)])
  show "valid_cluster f x \<Longrightarrow> fat_of (write_cluster_part c co buf w n f) x = fat_of f x"
    using S(2) by (simp add: write_cluster_part_def)
  have "get_list (cluster_buffer ?g) 0 (bpc ?g) = overwrite co (get_list buf w n) (cdata f c)"
  proof (rule nth_equalityI)
    show "length (get_list (cluster_buffer ?g) 0 (bpc ?g)) = length (overwrite co (get_list buf w n) (cdata f c))"
      using n by (subst length_overwrite) simp_all
    fix k assume "k < length (get_list (cluster_buffer ?g) 0 (bpc ?g))"
    then have k: "k < bpc f" by simp
    have "overwrite co (get_list buf w n) (cdata f c) ! k = (if co \<le> k \<and> k < co + n then buf (w + (k - co)) else cdata f c ! k)"
      using n k by (subst nth_overwrite) auto
    then show "get_list (cluster_buffer ?g) 0 (bpc ?g) ! k = overwrite co (get_list buf w n) (cdata f c) ! k"
      using k by (simp add: blit_def nth_load[OF ok])
  qed
  then show "valid_cluster f x \<Longrightarrow> cdata (write_cluster_part c co buf w n f) x =
       (if x = c then overwrite co (get_list buf w n) (cdata f c) else cdata f x)"
    using S(1) by (simp add: write_cluster_part_def)
qed

section \<open>Finding the cluster of the offset\<close>

lemma next_existing:
  assumes ok: "fat_ok f" and "valid_cluster f (fat_of f c)"
  shows "next_or_new c f = (Some (fat_of f c), load_sector (fat_sector c f) f)"
  using assms valid_not_end(1)[OF assms] by (simp add: next_or_new_def get_next_cluster_eq fat_okD(1))

lemma seek_loop_chain:
  assumes "fat_ok f" "chain f c xs" "unat fp + bpc f * length xs < 2 ^ 32" "fp \<le> offset"
    "unat offset - unat fp < bpc f * length xs"
  shows "\<exists>n c' f'. seek_loop offset fp c f = Some (Some (fp + of_nat (n * bpc f), c'), f') \<and> same_volume f f' \<and>
    chain f c' (drop n xs) \<and> n = (unat offset - unat fp) div bpc f"
  using assms(2-5,1)
proof (induction xs arbitrary: c f fp)
  case Nil
  then show ?case by simp
next
  case (Cons x xs)
  from Cons.prems(1) have x: "x = c" "valid_cluster f c" "chain f (fat_of f c) xs" by simp_all
  note ok = Cons.prems(5) and D = fat_okD[OF Cons.prems(5)]
  have B: "0 < bpc f" using D(2,4) by simp
  have le: "unat fp \<le> unat offset" using Cons.prems(3) by (simp add: word_le_nat_alt)
  have bb: "bpc f * length (x # xs) = bpc f + bpc f * length xs" by simp
  have fits: "unat fp + bpc f + bpc f * length xs < 2 ^ 32" using Cons.prems(2) unfolding bb by linarith
  then have u: "unat (fp + bytes_per_cluster (fs f)) = unat fp + bpc f" by (intro unat_plus32) linarith
  show ?case
  proof (cases "unat fp + bpc f \<le> unat offset")
    case False
    then have "(unat offset - unat fp) div bpc f = 0" using le by (intro div_less) linarith
    moreover have "\<not> fp + bytes_per_cluster (fs f) \<le> offset" using False by (simp add: word_le_nat_alt u)
    then have "seek_loop offset fp c f = Some (Some (fp, c), f)" by (subst seek_loop.simps) simp
    ultimately show ?thesis
      using Cons.prems(1) by (intro exI[of _ 0] exI[of _ c] exI[of _ f]) simp
  next
    case True
    let ?f1 = "load_sector (fat_sector c f) f"
    have rest: "unat offset - (unat fp + bpc f) < bpc f * length xs" using Cons.prems(4) True unfolding bb by linarith
    then have "xs \<noteq> []" by auto
    then have "valid_cluster f (fat_of f c)" using x(3) by (cases xs) auto
    note nx = next_existing[OF ok this]
    have V: "fs ?f1 = fs f" "fat_ok ?f1" "chain ?f1 (fat_of f c) xs"
      using ok x(3) chain_view[of ?f1 f] by simp_all
    have le': "fp + bytes_per_cluster (fs f) \<le> offset" using True by (simp add: word_le_nat_alt u)
    have fits': "unat (fp + bytes_per_cluster (fs ?f1)) + bpc ?f1 * length xs < 2 ^ 32"
      unfolding V u using fits .
    have rest': "unat offset - unat (fp + bytes_per_cluster (fs ?f1)) < bpc ?f1 * length xs"
      unfolding V u using rest .
    obtain n c' f' where IH: "seek_loop offset (fp + bytes_per_cluster (fs f)) (fat_of f c) ?f1 =
        Some (Some (fp + bytes_per_cluster (fs f) + of_nat (n * bpc f), c'), f')" "same_volume ?f1 f'"
        "chain ?f1 c' (drop n xs)" "n = (unat offset - (unat fp + bpc f)) div bpc f"
      using Cons.IH[OF V(3) fits' _ rest' V(2)] le' unfolding V u by blast
    then have IH3: "chain f c' (drop n xs)" using chain_view[of ?f1 f] by simp
    have "(unat offset - unat fp) div bpc f = Suc ((unat offset - (unat fp + bpc f)) div bpc f)"
    proof -
      define y where "y = unat offset - (unat fp + bpc f)"
      have e: "unat offset - unat fp = bpc f + y" using True unfolding y_def by linarith
      have "bpc f \<noteq> 0" using B by linarith
      from div_add_self1[OF this, of y] show ?thesis unfolding y_def[symmetric] e by (simp only: Suc_eq_plus1)
    qed
    then have "Suc n = (unat offset - unat fp) div bpc f" using IH(4) by simp
    moreover have "seek_loop offset fp c f = Some (Some (fp + of_nat (Suc n * bpc f), c'), f')"
      using nx IH(1) le' by (subst seek_loop.simps) (simp add: Let_def algebra_simps)
    moreover have "chain f c' (drop (Suc n) (x # xs))" using IH3 by simp
    ultimately show ?thesis
      using same_volume_trans[OF same_volume_load(1) IH(2)] by blast
  qed
qed

section \<open>The loop that writes\<close>

text \<open>The files \<open>f\<close> and \<open>g\<close> agree but for the contents of the clusters \<open>xs\<close>.\<close>

definition only_clusters :: "u32 list \<Rightarrow> 'a fat_scheme \<Rightarrow> 'a fat_scheme \<Rightarrow> bool" where
  "only_clusters xs f g \<longleftrightarrow> same_nodes f g \<and> fat_ok g \<and>
     (\<forall>x. valid_cluster f x \<longrightarrow> fat_of g x = fat_of f x \<and> (x \<notin> set xs \<longrightarrow> cdata g x = cdata f x))"

lemma only_clusters_refl: "fat_ok f \<Longrightarrow> only_clusters xs f f"
  by (simp add: only_clusters_def)

lemma only_clusters_trans: "only_clusters xs f g \<Longrightarrow> only_clusters ys g h \<Longrightarrow> set ys \<subseteq> set xs \<Longrightarrow> only_clusters xs f h"
  using same_nodes_ok(2)[of f g] by (auto simp: only_clusters_def intro: same_nodes_trans)

lemma only_clusters_mono: "only_clusters ys f g \<Longrightarrow> set ys \<subseteq> set xs \<Longrightarrow> only_clusters xs f g"
  by (auto simp: only_clusters_def)

lemma only_clusters_same: "same_volume f g \<Longrightarrow> fat_ok f \<Longrightarrow> only_clusters xs f g"
  using same_volumeD(8)[of f g] same_volume_view[of f g] by (simp add: only_clusters_def)

lemma only_clusters_chain: "only_clusters xs f g \<Longrightarrow> chain f c ys \<Longrightarrow> chain g c ys"
  using chain_cong[of ys g f c] chain_valid[of f c ys] same_nodes_ok(2)[of f g] by (auto simp: only_clusters_def)

lemma only_clusters_part:
  assumes "fat_ok f" "valid_cluster f c" "co + n \<le> bpc f"
  shows "only_clusters [c] f (write_cluster_part c co buf w n f)"
  using write_cluster_part_view[OF assms] by (simp add: only_clusters_def)

lemma write_loop_stop: "unat written = unat len \<Longrightarrow> write_loop offset len buf fp c written f = Some (written, f)"
  by (subst write_loop.simps) (simp add: word_less_nat_alt)

lemma write_loop_step:
  assumes "unat written < unat len" "unat offset - unat fp < bpc f" "unat fp + bpc f < 2 ^ 32"
    and "n = min (bpc f - (unat offset - unat fp)) (unat len - unat written)"
    and "g = write_cluster_part c (unat offset - unat fp) buf (unat written) n f"
  shows "write_loop offset len buf fp c written f =
    (if unat written + n < unat len
     then (case next_or_new c g of
             (None, f) \<Rightarrow> Some (written + of_nat n, f)
           | (Some nxt, f) \<Rightarrow> write_loop offset len buf (fp + bytes_per_cluster (fs g)) nxt (written + of_nat n) f)
     else Some (written + of_nat n, g))" (is ?eq)
    "unat (written + of_nat n) = unat written + n"
proof -
  define co where "co = (if fp < offset then offset - fp else 0)"
  have co: "unat co = unat offset - unat fp" unfolding co_def by (auto simp: word_less_nat_alt word_le_nat_alt unat_sub)
  have t1: "unat (bytes_per_cluster (fs f) - co) = bpc f - unat co"
    using assms(2) co by (intro unat_sub) (simp add: word_le_nat_alt)
  have t2: "unat (len - written) = unat len - unat written"
    using assms(1) by (intro unat_sub) (simp add: word_le_nat_alt)
  define nw where "nw = (if bytes_per_cluster (fs f) - co > len - written then len - written else bytes_per_cluster (fs f) - co)"
  have nw: "unat nw = n" unfolding nw_def assms(4) using t1 t2 co by (auto simp: word_less_nat_alt)
  have nw': "nw = of_nat n" unfolding nw[symmetric] by simp
  have "unat written + unat nw < 2 ^ 32"
  proof -
    have "unat nw \<le> unat len - unat written" unfolding nw assms(4) by simp
    moreover have "unat len < 2 ^ 32" using unat_lt_two_power[of len] by simp
    ultimately show ?thesis using assms(1) by linarith
  qed
  from unat_plus32[OF this] show w: "unat (written + of_nat n) = unat written + n" using nw nw' by simp
  have lt: "written < len" "(written + of_nat n < len) = (unat written + n < unat len)"
    using assms(1) w by (simp_all only: word_less_nat_alt)
  have stop: "write_loop offset len buf p q (written + of_nat n) h = Some (written + of_nat n, h)"
    if "\<not> unat written + n < unat len" for p q h
  proof (rule write_loop_stop)
    have "n \<le> unat len - unat written" unfolding assms(4) by simp
    then show "unat (written + of_nat n) = unat len"
      using that assms(1) unfolding w by linarith
  qed
  have lf: "fs (load_cluster c f) = fs f" by simp
  have "store_cluster c (edit_buffer (\<lambda>b. blit b (unat co) buf (unat written) (unat nw)) (load_cluster c f)) = g"
    unfolding assms(5) write_cluster_part_def co nw ..
  then have "write_loop offset len buf fp c written f =
    (if written + nw < len
     then (case next_or_new c g of
             (None, f) \<Rightarrow> Some (written + nw, f)
           | (Some nxt, f) \<Rightarrow> write_loop offset len buf (fp + bytes_per_cluster (fs g)) nxt (written + nw) f)
     else write_loop offset len buf (fp + bytes_per_cluster (fs g)) c (written + nw) g)"
    by (subst write_loop.simps)
      (simp only: Let_def lt(1) not_True_eq_False if_False lf co_def[symmetric] nw_def[symmetric])
  note eq = this[unfolded nw' lt(2)]
  show ?eq
  proof (cases "unat written + n < unat len")
    case True
    with eq show ?thesis by simp
  next
    case False
    with eq stop[OF False] show ?thesis by simp
  qed
qed

lemma file_bytes_only: "only_clusters ys f g \<Longrightarrow> chain f c xs \<Longrightarrow> set ys \<inter> set xs = {} \<Longrightarrow> file_bytes g xs = file_bytes f xs"
  by (rule file_bytes_cong) (use chain_valid[of f c xs] in \<open>auto simp: only_clusters_def\<close>)

lemma write_loop_chain:
  assumes "fat_ok f" "chain f c ys" "unat fp + bpc f * length ys < 2 ^ 32" "unat written \<le> unat len"
    "unat offset - unat fp < bpc f" "unat offset - unat fp + (unat len - unat written) \<le> bpc f * length ys"
  shows "\<exists>g. write_loop offset len buf fp c written f = Some (len, g) \<and> only_clusters ys f g \<and>
    file_bytes g ys = overwrite (unat offset - unat fp) (get_list buf (unat written) (unat len - unat written)) (file_bytes f ys)"
  using assms(2-6,1)
proof (induction ys arbitrary: c f fp written)
  case Nil
  then have "unat written = unat len" by simp
  then have "written = len" by (simp only: word_unat_eq_iff)
  with Nil(6) show ?case using write_loop_stop[of len len offset buf fp c f]
    by (intro exI[of _ f]) (simp add: only_clusters_refl)
next
  case (Cons x xs)
  from Cons.prems(1) have x: "x = c" "valid_cluster f c" "chain f (fat_of f c) xs" by simp_all
  note ok = Cons.prems(6)
  show ?case
  proof (cases "unat written < unat len")
    case False
    then have "unat written = unat len" using Cons.prems(3) by simp
    then have "written = len" by (simp only: word_unat_eq_iff)
    with ok show ?thesis using write_loop_stop[of len len offset buf fp c f]
      by (intro exI[of _ f]) (simp add: only_clusters_refl)
  next
    case True
    let ?o = "unat offset - unat fp" and ?L = "unat len - unat written"
    define n where "n = min (bpc f - ?o) ?L"
    define g where "g = write_cluster_part c ?o buf (unat written) n f"
    have bb: "bpc f * length (x # xs) = bpc f + bpc f * length xs" by simp
    have fits: "unat fp + bpc f < 2 ^ 32" "unat fp + bpc f + bpc f * length xs < 2 ^ 32"
      using Cons.prems(2) unfolding bb by linarith+
    note step = write_loop_step[OF True Cons.prems(4) fits(1) n_def g_def]
    have nb: "?o + n \<le> bpc f" "n \<le> ?L" unfolding n_def using Cons.prems(4) by linarith+
    note G = write_cluster_part_view[OF ok x(2) nb(1), where buf = buf and w = "unat written", folded g_def]
    have og: "only_clusters [c] f g" unfolding g_def by (rule only_clusters_part[OF ok x(2) nb(1)])
    have dist: "c \<notin> set xs" using chain_distinct[OF ok Cons.prems(1)] x(1) by simp
    have fsg: "fs g = fs f" using G(2) by (simp add: same_nodes_def)
    have og': "only_clusters (x # xs) f g" by (rule only_clusters_mono[OF og]) (simp add: x(1))
    have rest: "file_bytes g xs = file_bytes f xs" by (rule file_bytes_only[OF og x(3)]) (simp add: dist)
    have head: "cdata g c = overwrite ?o (get_list buf (unat written) n) (cdata f c)" using G(4)[OF x(2)] by simp
    show ?thesis
    proof (cases "unat written + n < unat len")
      case False
      then have "n = ?L" using nb(2) by linarith
      then have "unat (written + of_nat n) = unat len" using step(2) True by linarith
      then have "written + of_nat n = len" by (simp only: word_unat_eq_iff)
      then have "write_loop offset len buf fp c written f = Some (len, g)" using step(1) False by simp
      moreover have "file_bytes g (x # xs) = overwrite ?o (get_list buf (unat written) ?L) (file_bytes f (x # xs))"
        using nb(1) overwrite_inside[of ?o "get_list buf (unat written) n" "cdata f c" "file_bytes f xs"]
        by (simp add: x(1) rest head \<open>n = ?L\<close>)
      ultimately show ?thesis using og' by blast
    next
      case more: True
      then have "n \<noteq> ?L" by linarith
      then have "n = bpc f - ?o" unfolding n_def by (metis min_def)
      then have n: "?o + n = bpc f" using Cons.prems(4) by linarith
      have left: "unat len - (unat written + n) \<le> bpc f * length xs"
        using Cons.prems(5) n unfolding bb by linarith
      then have "xs \<noteq> []" using more by auto
      then have nv: "valid_cluster f (fat_of f c)" using x(3) by (cases xs) auto
      have gc: "fat_of g c = fat_of f c" using G(3) x(2) by simp
      have vg: "valid_cluster g = valid_cluster f" by (rule same_nodes_ok(2)[OF G(2)])
      let ?g2 = "load_sector (fat_sector c g) g"
      have nx: "next_or_new c g = (Some (fat_of f c), ?g2)"
        using next_existing[of g c] G(1) nv gc vg by simp
      have chg: "chain ?g2 (fat_of f c) xs"
        using only_clusters_chain[OF og x(3)] chain_view[of ?g2 g] by simp
      have w: "unat (written + of_nat n) = unat written + n" by (rule step(2))
      have u: "unat (fp + bytes_per_cluster (fs f)) = unat fp + bpc f" using fits(1) by (rule unat_plus32)
      have o': "unat offset - (unat fp + bpc f) = 0" using Cons.prems(4) by linarith
      have fs2: "fs ?g2 = fs f" using fsg by simp
      have "\<exists>h. write_loop offset len buf (fp + bytes_per_cluster (fs f)) (fat_of f c) (written + of_nat n) ?g2 = Some (len, h) \<and>
        only_clusters xs ?g2 h \<and>
        file_bytes h xs = overwrite (unat offset - unat (fp + bytes_per_cluster (fs f)))
          (get_list buf (unat (written + of_nat n)) (unat len - unat (written + of_nat n))) (file_bytes ?g2 xs)"
      proof (rule Cons.IH)
        show "unat (fp + bytes_per_cluster (fs f)) + bpc ?g2 * length xs < 2 ^ 32" unfolding u fs2 by (rule fits(2))
        show "unat (written + of_nat n) \<le> unat len" unfolding w using more by linarith
        show "unat offset - unat (fp + bytes_per_cluster (fs f)) < bpc ?g2" unfolding u fs2 o' using Cons.prems(4) by linarith
        show "unat offset - unat (fp + bytes_per_cluster (fs f)) + (unat len - unat (written + of_nat n)) \<le> bpc ?g2 * length xs"
          unfolding u fs2 o' w using left by linarith
      qed (use chg G(1) in simp_all)
      then obtain h where h: "write_loop offset len buf (fp + bytes_per_cluster (fs f)) (fat_of f c) (written + of_nat n) ?g2 = Some (len, h)"
        "only_clusters xs ?g2 h"
        "file_bytes h xs = overwrite 0 (get_list buf (unat written + n) (unat len - (unat written + n))) (file_bytes ?g2 xs)"
        unfolding u w o' by blast
      have g2: "only_clusters (x # xs) f ?g2"
        using og' only_clusters_same[OF same_volume_load(1) G(1), of "[]"] by (rule only_clusters_trans) simp
      have oh: "only_clusters (x # xs) f h"
        using g2 h(2) by (rule only_clusters_trans) auto
      have "write_loop offset len buf fp c written f = Some (len, h)"
        using step(1) more nx h(1) fsg by simp
      moreover have "cdata h c = cdata g c"
        using h(2) dist x(2) vg same_nodes_ok(2)[of g ?g2] by (auto simp: only_clusters_def)
      moreover have "get_list buf (unat written) ?L = get_list buf (unat written) n @ get_list buf (unat written + n) (unat len - (unat written + n))"
      proof -
        have "?L = n + (unat len - (unat written + n))" using nb(2) by linarith
        then show ?thesis using get_list_append[of buf "unat written" n "unat len - (unat written + n)"] by simp
      qed
      moreover have "file_bytes ?g2 xs = file_bytes f xs" using rest file_bytes_cong[of xs ?g2 g] by simp
      ultimately have "file_bytes h (x # xs) = overwrite ?o (get_list buf (unat written) ?L) (file_bytes f (x # xs))"
        using overwrite_across[of ?o "get_list buf (unat written) n" "cdata f c"] n by (simp add: x(1) head h(3))
      then show ?thesis using \<open>write_loop offset len buf fp c written f = Some (len, h)\<close> oh by blast
    qed
  qed
qed

section \<open>Writing a file\<close>

lemma first_cluster_chain: "fat_ok f \<Longrightarrow> chain f (v_inode (node_of node f)) xs \<Longrightarrow> xs \<noteq> [] \<Longrightarrow>
    first_cluster node f = (Some (v_inode (node_of node f)), f)"
  by (cases xs) (auto simp: first_cluster_def valid_cluster_def Let_def word_less_nat_alt)

lemma only_clusters_node: "only_clusters xs f g \<Longrightarrow> node_of r g = node_of r f"
  by (auto simp: only_clusters_def same_nodes_def node_of_def split: nat.splits)

lemma seek_loop_start:
  assumes ok: "fat_ok f" and ch: "chain f c xs" and len: "bpc f * length xs + 4096 < 2 ^ 32" and o: "unat offset < bpc f * length xs"
  obtains c' f' where "seek_loop offset 0 c f = Some (Some (of_nat (unat offset div bpc f * bpc f), c'), f')" "same_volume f f'"
    "chain f c' (drop (unat offset div bpc f) xs)" "unat (of_nat (unat offset div bpc f * bpc f) :: u32) = unat offset div bpc f * bpc f"
proof -
  have "unat (0 :: u32) + bpc f * length xs < 2 ^ 32" "unat offset - unat (0 :: u32) < bpc f * length xs" using len o by simp_all
  from seek_loop_chain[OF ok ch this(1) _ this(2)] obtain c' f' where
    r: "seek_loop offset 0 c f = Some (Some (of_nat (unat offset div bpc f * bpc f), c'), f')" "same_volume f f'"
    "chain f c' (drop (unat offset div bpc f) xs)" by auto
  have "unat offset div bpc f * bpc f \<le> unat offset" by simp
  then have "unat (of_nat (unat offset div bpc f * bpc f) :: u32) = unat offset div bpc f * bpc f"
    using unat_lt_two_power[of offset] by (intro unat_of_nat_small) (rule le_less_trans)
  with r show ?thesis by (rule that)
qed

lemma fat32_write_in_place:
  assumes ok: "fat_ok f" and isf: "is_file node f" and ch: "chain f (v_inode (node_of node f)) xs"
    and len: "bpc f * length xs + 4096 < 2 ^ 32" "0 < len" "unat offset + unat len \<le> bpc f * length xs"
  shows "\<exists>f'. fat32_write node offset len buf f = Some (len, f') \<and> only_clusters xs f (upd_node node (\<lambda>_. node_of node f) f') \<and>
    file_bytes f' xs = overwrite (unat offset) (get_list buf 0 (unat len)) (file_bytes f xs) \<and>
    node_of node f' = (node_of node f)\<lparr>v_size := max (v_size (node_of node f)) (offset + len)\<rparr>"
proof -
  note b = bpc_bound[OF ok]
  have pl: "0 < unat len" using len(2) by (simp add: word_less_nat_alt)
  then have o: "unat offset < bpc f * length xs" using len(3) by linarith
  then have ne: "xs \<noteq> []" by auto
  let ?n = "unat offset div bpc f"
  obtain c f1 where s: "seek_loop offset 0 (v_inode (node_of node f)) f = Some (Some (of_nat (?n * bpc f), c), f1)"
    "same_volume f f1" "chain f c (drop ?n xs)" and u: "unat (of_nat (?n * bpc f) :: u32) = ?n * bpc f"
    by (rule seek_loop_start[OF ok ch len(1) o])
  note V = same_volume_view[OF s(2)] same_volumeD(2)[OF s(2)]
  have n: "?n < length xs" using o by (simp add: less_mult_imp_div_less mult.commute)
  have m: "?n * bpc f \<le> unat offset" "unat offset - ?n * bpc f < bpc f"
    using b by (simp_all add: minus_div_mult_eq_mod)
  have tot: "?n * bpc f + bpc f * (length xs - ?n) = bpc f * length xs"
    using n by (intro bytes_rest) simp
  let ?data = "get_list buf 0 (unat len)"
  have "\<exists>g. write_loop offset len buf (of_nat (?n * bpc f)) c 0 f1 = Some (len, g) \<and> only_clusters (drop ?n xs) f1 g \<and>
    file_bytes g (drop ?n xs) = overwrite (unat offset - unat (of_nat (?n * bpc f) :: u32))
      (get_list buf (unat (0 :: u32)) (unat len - unat (0 :: u32))) (file_bytes f1 (drop ?n xs))"
  proof (rule write_loop_chain)
    show "fat_ok f1" "chain f1 c (drop ?n xs)" using ok s(3) V by simp_all
    show "unat (of_nat (?n * bpc f) :: u32) + bpc f1 * length (drop ?n xs) < 2 ^ 32"
      unfolding u V(7) length_drop tot using len(1) by linarith
    show "unat offset - unat (of_nat (?n * bpc f) :: u32) < bpc f1" unfolding u V(7) by (rule m(2))
    have "unat offset - ?n * bpc f + unat len \<le> bpc f * (length xs - ?n)" using len(3) m(1) tot by linarith
    then show "unat offset - unat (of_nat (?n * bpc f) :: u32) + (unat len - unat (0 :: u32)) \<le> bpc f1 * length (drop ?n xs)"
      unfolding u V(7) length_drop by simp
  qed simp
  then obtain g where g: "write_loop offset len buf (of_nat (?n * bpc f)) c 0 f1 = Some (len, g)" "only_clusters (drop ?n xs) f1 g"
    "file_bytes g (drop ?n xs) = overwrite (unat offset - ?n * bpc f) ?data (file_bytes f1 (drop ?n xs))"
    unfolding u by auto
  have og: "only_clusters xs f g"
    using only_clusters_same[OF s(2) ok] g(2) set_drop_subset[of ?n xs] by (rule only_clusters_trans)
  have dist: "distinct xs" by (rule chain_distinct[OF ok ch])
  have "cdata g x = cdata f x" if "x \<in> set (take ?n xs)" for x
  proof -
    have v: "valid_cluster f x" using that chain_valid[OF ch] by (meson in_set_takeD)
    have "x \<notin> set (drop ?n xs)" using that dist by (metis append_take_drop_id disjoint_iff distinct_append)
    then show ?thesis using g(2) v V(2)[of x] V(4)[of x] by (simp add: only_clusters_def)
  qed
  then have front: "file_bytes g (take ?n xs) = file_bytes f (take ?n xs)" by (rule file_bytes_cong)
  have fb1: "file_bytes f1 (drop ?n xs) = file_bytes f (drop ?n xs)" by (rule file_bytes_cong) (rule V(4))
  have app: "file_bytes h xs = file_bytes h (take ?n xs) @ file_bytes h (drop ?n xs)" for h :: "'a fat_scheme"
    unfolding file_bytes_def by (metis append_take_drop_id concat_append map_append)
  have take: "take (?n * bpc f) (file_bytes f xs) = file_bytes f (take ?n xs)"
    unfolding app[of f] using n by (simp add: length_file_bytes mult.commute)
  have "file_bytes g xs = take (?n * bpc f) (file_bytes f xs) @
      overwrite (unat offset - ?n * bpc f) ?data (drop (?n * bpc f) (file_bytes f xs))"
    by (subst app[of g]) (simp only: front g(3) fb1 file_bytes_drop[of f ?n xs] take)
  also have "\<dots> = overwrite (unat offset) ?data (file_bytes f xs)"
    using m(1) len(3) by (intro overwrite_drop[symmetric]) (simp_all add: length_file_bytes)
  finally have "file_bytes g xs = overwrite (unat offset) ?data (file_bytes f xs)" .
  moreover define f' where "f' = (if offset + len > v_size (node_of node g)
      then upd_node node (\<lambda>n. n\<lparr>v_size := offset + len\<rparr>) g else g)"
  have nodes: "node_of r g = node_of r f" for r by (rule only_clusters_node[OF og])
  have "fat32_write node offset len buf f = Some (len, f')"
    using isf len(2) b first_cluster_chain[OF ok ch ne] s(1) g(1) by (simp add: fat32_write_def f'_def)
  moreover have fb: "file_bytes f' ys = file_bytes g ys" for ys by (rule file_bytes_cong) (simp add: f'_def)
  moreover have "node_of node f' = (node_of node f)\<lparr>v_size := max (v_size (node_of node f)) (offset + len)\<rparr>"
    by (auto simp: f'_def nodes max_def)
  moreover have "only_clusters xs f (upd_node node (\<lambda>_. node_of node f) f')"
  proof -
    have "upd_node node (\<lambda>_. node_of node f) f' = g"
      unfolding nodes[of node, symmetric] f'_def by (cases node) (simp_all add: upd_node_def node_of_def)
    with og show ?thesis by simp
  qed
  ultimately show ?thesis by metis
qed

text \<open>
  C18 (functional).  Writing inside the clusters a file already has returns the number of bytes asked;
  it replaces exactly those bytes of the file, and changes no other cluster, no entry
  of the allocation table and nothing of the node but its size, which grows to the
  end of the write.
\<close>

theorem fat32_write_correct:
  assumes ok: "fat_ok f" and isf: "is_file node f" and ch: "chain f (v_inode (node_of node f)) xs"
    and len: "bpc f * length xs + 4096 < 2 ^ 32" "0 < len" "unat offset + unat len \<le> bpc f * length xs"
  shows "\<exists>f'. fat32_write node offset len buf f = Some (len, f') \<and> only_clusters xs f (upd_node node (\<lambda>_. node_of node f) f') \<and>
    file_bytes f' xs = overwrite (unat offset) (get_list buf 0 (unat len)) (file_bytes f xs) \<and>
    node_of node f' = (node_of node f)\<lparr>v_size := max (v_size (node_of node f)) (offset + len)\<rparr>"
  by (rule fat32_write_in_place[OF assms])

lemma open_file_after_write:
  assumes "only_clusters xs f (upd_node node (\<lambda>_. node_of node f) g)" "node_of node g = (node_of node f)\<lparr>v_size := s\<rparr>"
    "chain f c xs" "is_file node f"
  shows "fat_ok g" "chain g c xs" "is_file node g" "bpc g = bpc f"
proof -
  let ?g = "upd_node node (\<lambda>_. node_of node f) g"
  have "fat_ok ?g" "chain ?g c xs" "fs ?g = fs f"
    using assms(1) only_clusters_chain[OF assms(1,3)] by (auto simp: only_clusters_def same_nodes_def)
  then show "fat_ok g" "chain g c xs" "bpc g = bpc f" by simp_all
  show "is_file node g" using assms(2,4) by (simp add: is_file_def)
qed

lemma fat32_write_read:
  assumes "fat_ok f" "is_file node f" "chain f (v_inode (node_of node f)) xs"
    and len: "bpc f * length xs + 4096 < 2 ^ 32" "0 < len" "unat offset + unat len \<le> bpc f * length xs"
    and tight: "bpc f * (length xs - 1) \<le> unat (v_size (node_of node f))"
  shows "\<exists>f1 f2. fat32_write node offset len buf f = Some (len, f1) \<and>
    node_of node f1 = (node_of node f)\<lparr>v_size := max (v_size (node_of node f)) (offset + len)\<rparr> \<and>
    fat32_read node offset len f1 = Some (Done (Some (get_list buf 0 (unat len))), f2)"
proof -
  let ?sz = "max (v_size (node_of node f)) (offset + len)"
  obtain g where g: "fat32_write node offset len buf f = Some (len, g)"
    "only_clusters xs f (upd_node node (\<lambda>_. node_of node f) g)"
    "file_bytes g xs = overwrite (unat offset) (get_list buf 0 (unat len)) (file_bytes f xs)"
    "node_of node g = (node_of node f)\<lparr>v_size := ?sz\<rparr>"
    using fat32_write_in_place[OF assms(1-6), of buf] by blast
  note O = open_file_after_write[OF g(2,4) assms(3,2)]
  have s: "unat (offset + len) = unat offset + unat len" using len(1,3) by (intro unat_plus32) linarith
  have sz: "unat offset + unat len \<le> unat ?sz" "unat (v_size (node_of node f)) \<le> unat ?sz"
    using s by (auto simp: max_def word_le_nat_alt)
  have le: "offset \<le> v_size (node_of node g)" unfolding g(4) using sz(1) by (simp add: word_le_nat_alt)
  have "\<exists>h. fat32_read node offset len g = Some (Done (Some
      (take (unat len) (drop (unat offset) (take (unat (v_size (node_of node g))) (file_bytes g xs))))), h) \<and> same_volume g h"
    using O le len(1) tight sz(2) g(4) by (intro fat32_read_slice) simp_all
  moreover have "take (unat len) (drop (unat offset) (take (unat ?sz) (file_bytes g xs))) = get_list buf 0 (unat len)"
  proof -
    let ?fb = "file_bytes f xs" and ?d = "get_list buf 0 (unat len)"
    have "take (unat ?sz) (file_bytes g xs) = take (min (unat ?sz) (length ?fb)) (file_bytes g xs)"
      unfolding g(3) using len(3) by (simp add: length_overwrite length_file_bytes min_def)
    moreover have "take (length ?d) (drop (unat offset) (take (min (unat ?sz) (length ?fb)) (overwrite (unat offset) ?d ?fb))) = ?d"
      using sz(1) len(3) by (intro slice_overwrite) (simp_all add: length_file_bytes)
    ultimately show ?thesis by (simp add: g(3))
  qed
  ultimately show ?thesis using g(1,4) by auto
qed

text \<open>
  What is written to a file inside the clusters it has reads back from the same
  offset, whatever the file held before.
\<close>

theorem fat32_write_read_roundtrip:
  assumes "fat_ok f" "is_file node f" "chain f (v_inode (node_of node f)) xs"
    and len: "bpc f * length xs + 4096 < 2 ^ 32" "0 < len" "unat offset + unat len \<le> bpc f * length xs"
    and tight: "bpc f * (length xs - 1) \<le> unat (v_size (node_of node f))"
  shows "\<exists>f1 f2. fat32_write node offset len buf f = Some (len, f1) \<and>
    fat32_read node offset len f1 = Some (Done (Some (get_list buf 0 (unat len))), f2)"
  using fat32_write_read[OF assms, of buf] by blast

theorem fat32_write_correct_witness:
  "\<exists>f'. fat32_write 1 510 4 (\<lambda>_. 7) sample_open = Some (4, f') \<and>
    file_bytes f' [3, 4] = overwrite 510 [7, 7, 7, 7] (file_bytes sample_open [3, 4]) \<and> v_size (node_of 1 f') = 600"
proof -
  have "\<exists>f'. fat32_write 1 510 4 (\<lambda>_. 7) sample_open = Some (4, f') \<and>
      only_clusters [3, 4] sample_open (upd_node 1 (\<lambda>_. node_of 1 sample_open) f') \<and>
      file_bytes f' [3, 4] = overwrite (unat (510 :: u32)) (get_list (\<lambda>_. 7) 0 (unat (4 :: u32))) (file_bytes sample_open [3, 4]) \<and>
      node_of 1 f' = (node_of 1 sample_open)\<lparr>v_size := max (v_size (node_of 1 sample_open)) (510 + 4)\<rparr>"
    by (rule fat32_write_correct [OF sample_open_ok(1) sample_open_node(3)])
      (use sample_open_node sample_open_ok in \<open>simp_all del: chain.simps file_bytes_simps\<close>)
  moreover have "get_list (\<lambda>_. 7) 0 (unat (4 :: u32)) = [7, 7, 7, 7 :: u8]"
    by (simp add: get_list_def upt_rec)
  ultimately show ?thesis using sample_open_node(2) by (auto simp: max_def simp del: file_bytes_simps)
qed

theorem fat32_write_read_roundtrip_witness:
  "\<exists>f1 f2. fat32_write 1 510 4 (\<lambda>_. 7) sample_open = Some (4, f1) \<and>
    fat32_read 1 510 4 f1 = Some (Done (Some (get_list (\<lambda>_. 7) 0 (unat (4 :: u32)))), f2)"
  by (rule fat32_write_read_roundtrip [OF sample_open_ok(1) sample_open_node(3), of "[3, 4]"])
    (use sample_open_node sample_open_ok in \<open>simp_all del: chain.simps file_bytes_simps\<close>)

end
