(* ===== verification/Syscall_Props.thy ===== *)
theory Syscall_Props
  imports Syscall_Safety Fat_Write
begin

text \<open>
  What the system calls do: the bytes that go into a pipe come out of it, what is written to a
  file is read back through a descriptor, the working directory is what was set, and what
  becomes of the descriptors in \<^verbatim>\<open>pipe\<close> and \<^verbatim>\<open>dup2\<close>.
\<close>

section \<open>Descriptors\<close>

text \<open>The descriptor \<open>fd\<close> of the current task is open, with the entry \<open>e\<close> in place \<open>i\<close>.\<close>

definition open_fd :: "system \<Rightarrow> nat \<Rightarrow> c_int \<Rightarrow> nat \<Rightarrow> fd_entry \<Rightarrow> bool" where
  "open_fd s t fd i e \<longleftrightarrow> current (kern s) = Some t \<and> task_fd_get (sint fd) (tasks (kern s) t) = Some i \<and>
     fd_table (tasks (kern s) t) i = e"

lemma with_fd_open: "open_fd s t fd i e \<Longrightarrow> with_fd fd g s = g t i e"
  by (simp add: open_fd_def with_fd_def with_task_def sched_current_def)

lemma open_fd_range: "open_fd s t fd i e \<Longrightarrow> 0 \<le> sint fd \<and> sint fd < 64 \<and> i = nat (sint fd) \<and> fd_type e \<noteq> FD_UNUSED"
  by (auto simp: open_fd_def task_fd_get_def split: if_splits)

lemma open_fd_simps [simp]:
  "open_fd (user_put p xs s) t fd i e = open_fd s t fd i e" "open_fd (s\<lparr>vol := v\<rparr>) t fd i e = open_fd s t fd i e"
  "open_fd (upd_pipe q g s) t fd i e = open_fd s t fd i e"
  by (simp_all add: open_fd_def user_put_def upd_pipe_def)

lemma open_fd_upd: "open_fd s t fd i e \<Longrightarrow> fd_type (g e) = fd_type e \<Longrightarrow> open_fd (upd_fd t i g s) t fd i (g e)"
  by (auto simp: open_fd_def upd_fd_def task_fd_get_def split: if_splits)

lemma vol_simps [simp]:
  "vol (user_put p xs s) = vol s" "vol (upd_fd t i g s) = vol s" "vol (upd_pipe q h s) = vol s"
  "pipes (kern (user_put p xs s)) = pipes (kern s)" "pipes (kern (upd_fd t i g s)) = pipes (kern s)"
  "user_mem (upd_fd t i g s) = user_mem s" "user_mem (upd_pipe q h s) = user_mem s"
  by (simp_all add: user_put_def upd_fd_def upd_pipe_def upd_task_def)

lemma scast_nat: "n < 2 ^ 31 \<Longrightarrow> scast (of_nat n :: c_int) = (of_nat n :: u64)"
  by (simp add: signed_of_nat signed_take_bit_int_eq_self)

lemma ret_nat: "n < 2 ^ 31 \<Longrightarrow> ret (of_nat n) s = Some (Done (Ret (of_nat n), s))"
  by (simp add: ret_def scast_nat)

text \<open>The bytes of a list, in user memory.\<close>

definition in_memory :: "system \<Rightarrow> u64 \<Rightarrow> u8 list \<Rightarrow> bool" where
  "in_memory s p xs \<longleftrightarrow> (\<forall>i<length xs. user_mem s (p + of_nat i) = xs ! i)"

lemma in_memory_put: "length xs < 2 ^ 64 \<Longrightarrow> in_memory (user_put p xs s) p xs"
proof -
  assume l: "length xs < 2 ^ 64"
  have "unat (of_nat i :: u64) = i" if "i < length xs" for i
    using that l by (intro unat_of_nat_small) simp
  then show ?thesis by (simp add: in_memory_def user_put_def)
qed

section \<open>Pipes\<close>

lemma pipe_write_contents: "pipe_inv q \<Longrightarrow> pipe_inv (pipe_write bs q) \<and>
    pipe_contents (pipe_write bs q) = take 512 (pipe_contents q @ bs)"
  unfolding pipe_write_def using pipe.put_many_take[of q bs] by simp

lemma pipe_read_contents: "pipe_inv q \<Longrightarrow> \<exists>q'. pipe_read n q = (take n (pipe_contents q), q') \<and> pipe_inv q' \<and>
    pipe_contents q' = drop n (pipe_contents q)"
  unfolding pipe_read_def by (rule pipe.drain_spec)

lemma length_pipe_contents [simp]: "length (pipe_contents q) = p_count q"
  by (simp add: pipe_contents_def)

lemma pipe_count_le: "pipe_inv q \<Longrightarrow> p_count q \<le> 512"
  by (simp add: pipe_inv_def)

lemma unat_of_sint: "0 \<le> sint (n :: c_int) \<Longrightarrow> unat n = nat (sint n)"
proof -
  assume "0 \<le> sint n"
  then have "uint n = sint n" using sint_lt[of n] by (simp add: uint_sint take_bit_int_eq_self)
  then show ?thesis by (simp add: unat_eq_nat_uint)
qed

lemma sint_of_small: "unat (n :: c_int) < 2 ^ 31 \<Longrightarrow> \<not> sint n < 0"
proof -
  assume n: "unat n < 2 ^ 31"
  have "int (unat n) < int (2 ^ 31)" using n by (simp only: of_nat_less_iff)
  then have "uint n < 2 ^ 31" by simp
  moreover have "- (2 ^ 31) \<le> uint n" by (rule order_trans[of _ 0]) simp_all
  ultimately have "sint n = uint n" unfolding sint_uint by (intro signed_take_bit_int_eq_self) simp_all
  then show ?thesis by simp
qed

lemma nat_of_sint: "0 \<le> sint (n :: c_int) \<Longrightarrow> nat (sint n) < 2 ^ 31"
  using sint_lt[of n] by simp

lemma sys_write_pipe:
  assumes e: "open_fd s t fd i e" "fd_type e = FD_PIPE" "fd_pipe e = Some p"
    and inv: "pipe_inv (pipes (kern s) p)" and n: "0 \<le> sint n"
  shows "\<exists>q. sys_write fd buf n s = Some (Done (Ret (of_nat (min (nat (sint n)) (512 - p_count (pipes (kern s) p)))),
      upd_pipe p (\<lambda>_. q) s)) \<and> pipe_inv q \<and>
    pipe_contents q = take 512 (pipe_contents (pipes (kern s) p) @ get_list (user_bytes buf s) 0 (nat (sint n)))"
proof -
  let ?q = "pipes (kern s) p" and ?n = "nat (sint n)"
  note c = pipe_count_le[OF inv]
  show ?thesis
  proof (cases "p_count ?q = 512")
    case True
    have "upd_pipe p (\<lambda>_. ?q) s = s" by (simp add: upd_pipe_def)
    moreover have "sys_write fd buf n s = ret 0 s"
      using e(2,3) True by (simp add: sys_write_def with_fd_open[OF e(1)])
    ultimately show ?thesis using True inv ret_nat[of 0 s] by (intro exI[of _ ?q]) simp
  next
    case False
    let ?m = "min ?n (512 - p_count ?q)" and ?bs = "get_list (user_bytes buf s) 0"
    have m: "min (sint n) (512 - int (p_count ?q)) = int ?m" using n c by (simp add: min_def nat_le_iff)
    have "sys_write fd buf n s = ret (of_nat ?m) (upd_pipe p (pipe_write (?bs ?m)) s)"
      using e(2,3) False c m by (simp add: sys_write_def with_fd_open[OF e(1)] Let_def)
    moreover have "upd_pipe p (pipe_write (?bs ?m)) s = upd_pipe p (\<lambda>_. pipe_write (?bs ?m) ?q) s" by (simp add: upd_pipe_def)
    moreover have "?m < 2 ^ 31" using c by simp
    moreover have "?bs ?m = take (512 - p_count ?q) (?bs ?n)"
      by (rule nth_equalityI) auto
    ultimately show ?thesis
      using pipe_write_contents[OF inv, of "?bs ?m"] ret_nat[of ?m]
      by (intro exI[of _ "pipe_write (?bs ?m) ?q"]) simp
  qed
qed

lemma sys_read_pipe:
  assumes e: "open_fd s t fd i e" "fd_type e = FD_PIPE" "fd_pipe e = Some p"
    and inv: "pipe_inv (pipes (kern s) p)" and n: "0 \<le> sint n"
  shows "\<exists>q bs. sys_read fd buf n s = Some (Done (Ret (of_nat (length bs)), user_put buf bs (upd_pipe p (\<lambda>_. q) s))) \<and>
    bs = take (nat (sint n)) (pipe_contents (pipes (kern s) p)) \<and> pipe_inv q \<and>
    pipe_contents q = drop (nat (sint n)) (pipe_contents (pipes (kern s) p))"
proof -
  let ?q = "pipes (kern s) p" and ?n = "nat (sint n)"
  note c = pipe_count_le[OF inv]
  show ?thesis
  proof (cases "p_count ?q = 0")
    case True
    have "user_put buf [] (upd_pipe p (\<lambda>_. ?q) s) = s" by (simp add: upd_pipe_def user_put_def)
    moreover have "sys_read fd buf n s = ret 0 s"
      using e(2,3) True by (simp add: sys_read_def with_fd_open[OF e(1)])
    moreover have "pipe_contents ?q = []" using True length_pipe_contents[of ?q] by (metis length_0_conv)
    ultimately show ?thesis using True inv ret_nat[of 0 s] by (intro exI[of _ ?q] exI[of _ "[]"]) simp
  next
    case False
    let ?m = "min (p_count ?q) ?n"
    have m: "min (int (p_count ?q)) (sint n) = int ?m" using n by (simp add: min_def nat_le_iff) linarith
    obtain q where q: "pipe_read ?m ?q = (take ?m (pipe_contents ?q), q)" "pipe_inv q" "pipe_contents q = drop ?m (pipe_contents ?q)"
      using pipe_read_contents[OF inv] by blast
    have "sys_read fd buf n s = ret (of_nat ?m) (user_put buf (take ?m (pipe_contents ?q)) (upd_pipe p (\<lambda>_. q) s))"
      using e(2,3) False m q(1) by (simp add: sys_read_def with_fd_open[OF e(1)] Let_def)
    moreover have "?m < 2 ^ 31" using c by simp
    moreover have "take ?m (pipe_contents ?q) = take ?n (pipe_contents ?q)" "drop ?m (pipe_contents ?q) = drop ?n (pipe_contents ?q)"
      by (simp_all add: min_def)
    ultimately show ?thesis using q(2,3) ret_nat[of ?m]
      by (intro exI[of _ q] exI[of _ "take ?n (pipe_contents ?q)"]) (simp add: min.commute)
  qed
qed

text \<open>
  C14 (functional).  A pipe delivers bytes in order: a write puts the bytes of the program at the end of the
  pipe, as many as fit into its 512, and answers their number; a read then answers the
  oldest bytes, at most as many as asked, stores them in the buffer of the reader and
  leaves the rest.
\<close>

theorem pipe_delivers:
  assumes w: "open_fd s t wr i we" "fd_type we = FD_PIPE" "fd_pipe we = Some p"
    and r: "open_fd s t rd j re" "fd_type re = FD_PIPE" "fd_pipe re = Some p"
    and inv: "pipe_inv (pipes (kern s) p)" and n: "0 \<le> sint n" "0 \<le> sint m"
    and all: "all = take 512 (pipe_contents (pipes (kern s) p) @ get_list (user_bytes buf s) 0 (nat (sint n)))"
  shows "\<exists>s1 s2. sys_write wr buf n s = Some (Done (Ret (of_nat (length all - p_count (pipes (kern s) p))), s1)) \<and>
    sys_read rd buf2 m s1 = Some (Done (Ret (of_nat (min (nat (sint m)) (length all))), s2)) \<and>
    in_memory s2 buf2 (take (nat (sint m)) all) \<and>
    pipe_contents (pipes (kern s2) p) = drop (nat (sint m)) all"
proof -
  obtain q where q: "sys_write wr buf n s = Some (Done (Ret (of_nat (min (nat (sint n)) (512 - p_count (pipes (kern s) p)))),
      upd_pipe p (\<lambda>_. q) s))" "pipe_inv q" "pipe_contents q = all"
    using sys_write_pipe[OF w inv n(1), of buf] unfolding all by blast
  let ?s1 = "upd_pipe p (\<lambda>_. q) s"
  have p1: "pipes (kern ?s1) p = q" by (simp add: upd_pipe_def)
  have len: "min (nat (sint n)) (512 - p_count (pipes (kern s) p)) = length all - p_count (pipes (kern s) p)"
    using pipe_count_le[OF inv] unfolding all by (simp add: min_def)
  have r1: "open_fd ?s1 t rd j re" using r(1) by simp
  obtain q2 bs where q2: "sys_read rd buf2 m ?s1 = Some (Done (Ret (of_nat (length bs)), user_put buf2 bs (upd_pipe p (\<lambda>_. q2) ?s1)))"
    "bs = take (nat (sint m)) all" "pipe_contents q2 = drop (nat (sint m)) all"
    using sys_read_pipe[OF r1 r(2,3) _ n(2), of buf2] q(2,3) unfolding p1 by blast
  have "length all \<le> 512" unfolding all by simp
  then have "length bs \<le> 512" unfolding q2(2) by simp
  then have "in_memory (user_put buf2 bs (upd_pipe p (\<lambda>_. q2) ?s1)) buf2 bs" by (intro in_memory_put) simp
  moreover have "pipes (kern (user_put buf2 bs (upd_pipe p (\<lambda>_. q2) ?s1))) p = q2" by (simp add: upd_pipe_def)
  moreover have "length bs = min (nat (sint m)) (length all)" unfolding q2(2) by (simp add: min.commute)
  ultimately show ?thesis using q(1) q2 unfolding len by auto
qed

text \<open>
  C15 (error).  \<^verbatim>\<open>pipe\<close> hands out one descriptor for both ends: the second search for a free descriptor
  runs before the first is marked as used.  What is left is one write-only entry, and the
  program is told that it is the reading end as well.
\<close>

theorem pipe_ends_coincide:
  assumes "sys_pipe fds s = Some (Done (Ret 0, s'))" "current (kern s) = Some t"
  shows "\<exists>i p. task_fd_alloc (tasks (kern s) t) = int i \<and> in_memory s' fds (u32_bytes (of_nat i) @ u32_bytes (of_nat i)) \<and>
    fd_type (fd_table (tasks (kern s') t) i) = FD_PIPE \<and> fd_pipe (fd_table (tasks (kern s') t) i) = Some p \<and>
    fd_flags (fd_table (tasks (kern s') t) i) = O_WRONLY \<and>
    (\<forall>j. j \<noteq> i \<longrightarrow> fd_table (tasks (kern s') t) j = fd_table (tasks (kern s) t) j)"
proof -
  obtain p0 k where al: "pipe_alloc (kern s) = (p0, k)" by (cases "pipe_alloc (kern s)")
  then obtain p where p: "pipe_alloc (kern s) = (Some p, k)"
    using assms(1) by (cases p0) (auto simp: sys_pipe_def ret_def)
  then have k: "tasks k = tasks (kern s)" "current k = current (kern s)" by (auto simp: pipe_alloc_def split: option.splits)
  let ?fd = "task_fd_alloc (tasks (kern s) t)"
  have ge: "\<not> ?fd < 0"
    using assms p by (auto simp: sys_pipe_def Let_def with_task_def sched_current_def k ret_def split: if_splits)
  then obtain i where i: "?fd = int i" by (metis nat_0_le not_less)
  let ?s1 = "upd_fd t i (\<lambda>e. e\<lparr>fd_type := FD_PIPE, fd_pipe := Some p, fd_flags := O_RDONLY\<rparr>) (s\<lparr>kern := k\<rparr>)"
  let ?s2 = "upd_fd t i (\<lambda>e. e\<lparr>fd_type := FD_PIPE, fd_pipe := Some p, fd_flags := O_WRONLY\<rparr>) ?s1"
  let ?bs = "u32_bytes (of_nat i) @ u32_bytes (of_nat i)"
  have s': "s' = user_put fds ?bs ?s2"
    using assms p ge by (simp add: sys_pipe_def Let_def with_task_def sched_current_def k i ret_def)
  have "in_memory s' fds ?bs" unfolding s' by (rule in_memory_put) (simp add: u32_bytes_def)
  moreover have "fd_table (tasks (kern s') t) j = (if j = i
      then (fd_table (tasks (kern s) t) i)\<lparr>fd_type := FD_PIPE, fd_pipe := Some p, fd_flags := O_WRONLY\<rparr>
      else fd_table (tasks (kern s) t) j)" for j
    unfolding s' by (simp add: upd_fd_def k)
  ultimately show ?thesis using i by (intro exI[of _ i] exI[of _ p]) simp
qed

text \<open>
  \<^verbatim>\<open>dup2\<close> of an open descriptor onto another one answers the new descriptor, which then has
  the entry of the old one, and changes no other; but onto itself, beyond the standard
  descriptors, it closes the descriptor and still answers its number.
\<close>

theorem dup2_correct:
  assumes "open_fd s t old i e" "0 \<le> sint new" "sint new < 64"
  shows "\<exists>s'. sys_dup2 old new s = Some (Done (Ret (scast new), s')) \<and>
    (\<forall>j. fd_table (tasks (kern s') t) j =
       (if j \<noteq> nat (sint new) then fd_table (tasks (kern s) t) j
        else if new = old \<and> 3 \<le> sint old then fd_unused else e))"
proof -
  note R = open_fd_range[OF assms(1)]
  let ?n = "nat (sint new)"
  have eq: "?n = i \<longleftrightarrow> new = old" using R assms(2) by (auto simp: nat_eq_iff intro: signed_word_eqI)
  have e: "fd_table (tasks (kern s) t) i = e" using assms(1) by (simp add: open_fd_def)
  let ?s = "if fd_type (fd_table (tasks (kern s) t) ?n) \<noteq> FD_UNUSED
     then s\<lparr>kern := upd_task t (task_fd_free (sint new)) (kern s)\<rparr> else s"
  have "sys_dup2 old new s = Some (Done (Ret (scast new), upd_fd t ?n (\<lambda>_. fd_table (tasks (kern ?s) t) i) ?s))"
    using assms(2,3) by (simp add: sys_dup2_def with_fd_open[OF assms(1)] Let_def ret_def)
  moreover have "fd_table (tasks (kern (upd_fd t ?n (\<lambda>_. fd_table (tasks (kern ?s) t) i) ?s)) t) j =
      (if j \<noteq> ?n then fd_table (tasks (kern s) t) j else if new = old \<and> 3 \<le> sint old then fd_unused else e)" for j
    using assms(2,3) R e eq by (auto simp: upd_fd_def task_fd_free_def)
  ultimately show ?thesis by blast
qed

section \<open>The working directory\<close>

text \<open>
  C16 (roundtrip).  After a successful \<^verbatim>\<open>chdir\<close>, \<^verbatim>\<open>getcwd\<close> with a buffer that is large enough answers the length of the
  absolute path and stores it with its NUL; with a smaller one it answers -1.
\<close>

theorem chdir_getcwd:
  assumes "sys_chdir path s = Some (Done (Ret 0, s1))" "current (kern s) = Some t"
    and "holds (task_cwd (tasks (kern s) t)) c" "length c \<le> 254" "len < 2 ^ 31"
  shows "let full = take 255 (absolute c (cstr_of 256 (user_bytes path s))) in
    holds (task_cwd (tasks (kern s1) t)) full \<and>
    (if length full < len
     then \<exists>s2. sys_getcwd buf (of_nat len) s1 = Some (Done (Ret (of_nat (length full)), s2)) \<and> in_memory s2 buf (full @ [0])
     else sys_getcwd buf (of_nat len) s1 = Some (Done (Ret (-1), s1)))"
proof -
  define full where "full = take 255 (absolute c (cstr_of 256 (user_bytes path s)))"
  have lf: "length full \<le> 255" by (simp add: full_def)
  obtain b where b: "build_path (Some (task_cwd (tasks (kern s) t))) (user_bytes path s) (\<lambda>_. 0) = Done b" "holds b full"
    using build_path_holds[OF assms(3,4)] unfolding full_def by blast
  have cs: "cstr_of 255 b = full" by (rule holds_cstr_of_le[OF b(2) lf])
  obtain n v where n: "resolve (path_of b) (vol s) = Some (Some n, v)" "is_dir n v" and
    s1: "s1 = s\<lparr>vol := v, kern := upd_task t (\<lambda>x. x\<lparr>task_cwd := str_copy (task_cwd x) b VFS_MAX_PATH\<rparr>) (kern s)\<rparr>"
    using assms(1,2) b(1)
    by (auto simp: sys_chdir_def with_path_def sched_current_def on_volume_def with_task_def ret_def
        split: Option.bind_splits option.splits if_splits)
  let ?cwd = "task_cwd (tasks (kern s1) t)"
  have h: "holds ?cwd full" using str_copy_holds[of VFS_MAX_PATH "task_cwd (tasks (kern s) t)" b] cs by (simp add: s1)
  have l: "str_len ?cwd = Done (length full)" by (rule str_len_holds[OF h]) (use lf in simp)
  have si: "sint (of_nat len :: c_int) = int len" using assms(5) by (simp add: signed_of_nat signed_take_bit_int_eq_self)
  have cur: "current (kern s1) = Some t" using assms(2) by (simp add: s1)
  have "length full < 2 ^ 31" using lf by simp
  note r = ret_nat[OF this]
  have "\<exists>s2. sys_getcwd buf (of_nat len) s1 = Some (Done (Ret (of_nat (length full)), s2)) \<and> in_memory s2 buf (full @ [0])"
    if lt: "length full < len"
  proof -
    have "cstr_of (len - 1) ?cwd = full" by (rule holds_cstr_of_le[OF h]) (use lt in linarith)
    then have "sys_getcwd buf (of_nat len) s1 = ret (of_nat (length full)) (user_put buf (full @ [0]) s1)"
      using lt l si cur by (simp add: sys_getcwd_def with_task_def sched_current_def Let_def)
    moreover have "in_memory (user_put buf (full @ [0]) s1) buf (full @ [0])" by (rule in_memory_put) (use lf in simp)
    ultimately show ?thesis unfolding r by blast
  qed
  moreover have "sys_getcwd buf (of_nat len) s1 = Some (Done (Ret (-1), s1))" if "\<not> length full < len"
    using that l si cur by (simp add: sys_getcwd_def with_task_def sched_current_def Let_def ret_def)
  ultimately show ?thesis unfolding full_def[symmetric] using h by (simp add: Let_def)
qed

section \<open>Files\<close>


section \<open>A running system\<close>

text \<open>
  The sample volume with the open file \<^verbatim>\<open>readme.txt\<close> as the file system of a task that has it in
  descriptor 3, and the ends of an empty pipe in descriptors 4 and 5.
\<close>

lemma extend_view:
  "fat_ok (fat.extend f m) = fat_ok f" "chain (fat.extend f m) c xs = chain f c xs"
  "node_of r (fat.extend f m) = node_of r f" "is_file r (fat.extend f m) = is_file r f"
  "fs (fat.extend f m) = fs f"
proof -
  let ?f = "fat.extend f m"
  have b: "disk ?f = disk f" "fs ?f = fs f" "root_node ?f = root_node f" "node_cache ?f = node_cache f"
    by (simp_all add: fat.defs)
  then show "fat_ok ?f = fat_ok f" "fs ?f = fs f" by (simp_all add: fat_ok_def)
  have v: "valid_cluster ?f x = valid_cluster f x" "fat_of ?f x = fat_of f x" for x
    using b by (simp_all add: valid_cluster_def fat_of_def fat_sector_def fat_offset_def)
  show "chain ?f c xs = chain f c xs" by (induction xs arbitrary: c) (simp_all add: v)
  show n: "node_of r ?f = node_of r f" by (simp add: node_of_def b split: nat.splits)
  then show "is_file r ?f = is_file r f" by (simp add: is_file_def)
qed

definition sample_table :: "nat \<Rightarrow> fd_entry" where
  "sample_table = (\<lambda>_. fd_unused)(3 := fd_unused\<lparr>fd_type := FD_FILE, fd_node := Some 1, fd_offset := 10\<rparr>,
     4 := fd_unused\<lparr>fd_type := FD_PIPE, fd_pipe := Some 2\<rparr>,
     5 := fd_unused\<lparr>fd_type := FD_PIPE, fd_pipe := Some 2, fd_flags := O_WRONLY\<rparr>)"

definition sample_shell :: system where
  "sample_shell = sample_system\<lparr>
     kern := (upd_task 0 (\<lambda>x. x\<lparr>fd_table := sample_table, task_cwd := put_list (\<lambda>_. 0) 0 (bytes_of ''/'' @ [0])\<rparr>) sample_kernel)
       \<lparr>pipes := \<lambda>_. \<lparr>p_buffer = \<lambda>_. 0, read_pos = 0, write_pos = 0, p_count = 0, read_open = False, write_open = False\<rparr>\<rparr>,
     vol := fat.extend sample_open (volume.fields (Some 0)),
     user_mem := \<lambda>a. if a = 0x1000 then SLASH else 0\<rparr>"

lemma sample_shell_fds:
  "open_fd sample_shell 0 3 3 (fd_unused\<lparr>fd_type := FD_FILE, fd_node := Some 1, fd_offset := 10\<rparr>)"
  "open_fd sample_shell 0 4 4 (fd_unused\<lparr>fd_type := FD_PIPE, fd_pipe := Some 2\<rparr>)"
  "open_fd sample_shell 0 5 5 (fd_unused\<lparr>fd_type := FD_PIPE, fd_pipe := Some 2, fd_flags := O_WRONLY\<rparr>)"
  using sample_kernel_fields(1)
  by (simp_all add: open_fd_def sample_shell_def sample_system_def task_fd_get_def sample_table_def fd_unused_def)

lemma sample_shell_state: "current (kern sample_shell) = Some 0" "pipe_inv (pipes (kern sample_shell) 2)"
  "pipe_contents (pipes (kern sample_shell) 2) = []" "p_count (pipes (kern sample_shell) 2) = 0"
  using sample_kernel_fields(1) by (simp_all add: sample_shell_def pipe_inv_def pipe_contents_def sample_system_def)

theorem pipe_delivers_witness:
  "\<exists>s1 s2. sys_write 5 0x1000 2 sample_shell = Some (Done (Ret 2, s1)) \<and> sys_read 4 0x2000 9 s1 = Some (Done (Ret 2, s2)) \<and>
    in_memory s2 0x2000 [SLASH, 0]"
proof -
  have g: "get_list (user_bytes 0x1000 sample_shell) 0 2 = [SLASH, 0]"
    by (simp add: get_list_def upt_rec user_bytes_def sample_shell_def)
  show ?thesis
    using pipe_delivers [OF sample_shell_fds(3) _ _ sample_shell_fds(2) _ _ _ _ _ refl,
        where p = 2 and n = 2 and m = 9 and buf = "0x1000" and ?buf2.0 = "0x2000"]
      sample_shell_state g by auto
qed

theorem dup2_correct_witness:
  "\<exists>s'. sys_dup2 4 4 sample_shell = Some (Done (Ret 4, s')) \<and> fd_table (tasks (kern s') 0) 4 = fd_unused"
  using dup2_correct [OF sample_shell_fds(2), of 4] by auto


lemma sample_pipe: "\<exists>s'. sys_pipe 0x3000 sample_shell = Some (Done (Ret 0, s'))"
proof -
  have t: "tasks (kern sample_shell) 0 = (tasks sample_kernel 0)\<lparr>fd_table := sample_table,
      task_cwd := put_list (\<lambda>_. 0) 0 (bytes_of ''/'' @ [0])\<rparr>" by (simp add: sample_shell_def)
  have "List.find (\<lambda>i. fd_type (sample_table i) = FD_UNUSED) [3..<64] = Some 6"
    by (rule find_upt_SomeI) (auto simp: sample_table_def fd_unused_def)
  then have f: "task_fd_alloc (tasks (kern sample_shell) 0) = 6" unfolding t by (simp add: task_fd_alloc_def)
  have "List.find (\<lambda>i. \<not> read_open (pipes (kern sample_shell) i) \<and> \<not> write_open (pipes (kern sample_shell) i)) [0..<16] = Some 0"
    by (rule find_upt_SomeI) (simp_all add: sample_shell_def)
  then obtain k where k: "pipe_alloc (kern sample_shell) = (Some 0, k)" "tasks k = tasks (kern sample_shell)"
    "current k = current (kern sample_shell)" by (simp add: pipe_alloc_def)
  show ?thesis using sample_shell_state(1) k f
    by (simp add: sys_pipe_def Let_def with_task_def sched_current_def ret_def)
qed

theorem pipe_ends_coincide_witness:
  "\<exists>s' i. sys_pipe 0x3000 sample_shell = Some (Done (Ret 0, s')) \<and>
    fd_flags (fd_table (tasks (kern s') 0) i) = O_WRONLY \<and> in_memory s' 0x3000 (u32_bytes (of_nat i) @ u32_bytes (of_nat i))"
proof -
  obtain s' where s': "sys_pipe 0x3000 sample_shell = Some (Done (Ret 0, s'))" using sample_pipe by blast
  from pipe_ends_coincide [OF s' sample_shell_state(1)] s' show ?thesis by blast
qed

lemma sample_chdir: "\<exists>s'. sys_chdir 0x1000 sample_shell = Some (Done (Ret 0, s'))"
proof -
  have l: "cstr_len (user_bytes 0x1000 sample_shell) n = 1" if "1 < n" for n
    using that by (intro cstr_len_eqI) (auto simp: user_bytes_def sample_shell_def)
  let ?p = "str_copy (\<lambda>_. 0) (user_bytes 0x1000 sample_shell) 256"
  have b: "user_bytes 0x1000 sample_shell 0 = SLASH" by (simp add: user_bytes_def sample_shell_def)
  have "cstr_of 255 (user_bytes 0x1000 sample_shell) = [SLASH]" by (simp add: cstr_of_def l b get_list_def)
  then have "holds ?p [SLASH]" using str_copy_holds[of 256 "\<lambda>_. 0" "user_bytes 0x1000 sample_shell"] by simp
  then have p: "path_of ?p = [SLASH]" by (rule holds_cstr_of) simp
  have "build_path c (user_bytes 0x1000 sample_shell) (\<lambda>_. 0) = Done ?p" for c by (simp add: build_path_def b)
  moreover have "resolve [SLASH] (vol sample_shell) = Some (Some 0, vol sample_shell)"
  proof -
    have "vfs_root_node (vol sample_shell) = Some 0" by (simp add: sample_shell_def fat.defs volume.defs)
    then show ?thesis by (simp add: resolve_def vfs_resolve_path_def)
  qed
  moreover have "is_dir 0 (vol sample_shell)"
    using sample_vol_ok(2) by (simp add: is_dir_def sample_shell_def extend_view sample_open_def)
  ultimately show ?thesis using sample_shell_state(1)
    by (simp add: sys_chdir_def with_path_def sched_current_def on_volume_def p with_task_def ret_def)
qed

theorem chdir_getcwd_witness:
  "\<exists>s1. sys_chdir 0x1000 sample_shell = Some (Done (Ret 0, s1)) \<and> sys_getcwd 0x2000 1 s1 = Some (Done (Ret (-1), s1))"
proof -
  obtain s1 where s1: "sys_chdir 0x1000 sample_shell = Some (Done (Ret 0, s1))" using sample_chdir by blast
  have c: "holds (task_cwd (tasks (kern sample_shell) 0)) (bytes_of ''/'')"
    unfolding sample_shell_def by (simp add: holds_put_list del: bytes_of_simps) (rule holds_put_list, simp)
  have l: "cstr_len (user_bytes 0x1000 sample_shell) 256 = 1"
    by (rule cstr_len_eqI) (auto simp: user_bytes_def sample_shell_def)
  have "cstr_of 256 (user_bytes 0x1000 sample_shell) = [SLASH]"
    by (simp add: cstr_of_def l get_list_def) (simp add: user_bytes_def sample_shell_def)
  then have "take 255 (absolute (bytes_of ''/'') (cstr_of 256 (user_bytes 0x1000 sample_shell))) = [SLASH]"
    by (simp add: absolute_def)
  then show ?thesis
    using chdir_getcwd [OF s1 sample_shell_state(1) c, where len = 1 and buf = "0x2000"] s1 by (simp add: Let_def)
qed

end
