(* ===== verification/Phys_Mem.thy ===== *)
theory Phys_Mem
  imports Signal_Fork
begin

text \<open>
  Physical memory as the loader and the spawning code see it: single bytes and runs of bytes over
  the frames of \<open>machine\<close>, with the laws of reading what was written.  The kernel reaches
  all of it through the identity map, so an address is a physical address.
\<close>

section \<open>Single bytes\<close>

definition byte_in :: "u64 \<Rightarrow> nat \<Rightarrow> u8" where
  "byte_in q k = ucast (drop_bit (8 * k) q)"

definition with_byte :: "nat \<Rightarrow> u8 \<Rightarrow> u64 \<Rightarrow> u64" where
  "with_byte k v q = (q AND NOT (push_bit (8 * k) 0xFF)) OR push_bit (8 * k) (ucast v)"

definition get_byte :: "u64 \<Rightarrow> 'a machine_scheme \<Rightarrow> u8" where
  "get_byte a m = byte_in (get_qword a m) (unat (a AND 7))"

definition put_byte :: "u64 \<Rightarrow> u8 \<Rightarrow> 'a machine_scheme \<Rightarrow> 'a machine_scheme" where
  "put_byte a v m = put_qword a (with_byte (unat (a AND 7)) v (get_qword a m)) m"

lemma bit_FF: "bit (0xFF :: u64) n \<longleftrightarrow> n < 8"
proof -
  have eq: "(0xFF :: u64) = mask 8" by (simp add: mask_numeral)
  show ?thesis unfolding eq bit_mask_iff by auto
qed

lemma bit_byte_in: "bit (byte_in q j) n \<longleftrightarrow> n < 8 \<and> bit q (8 * j + n)"
  unfolding byte_in_def bit_unsigned_iff bit_drop_bit_eq by auto

lemma bit_with_byte:
  "n < 64 \<Longrightarrow> bit (with_byte k v q) n \<longleftrightarrow> (if 8 * k \<le> n \<and> n < 8 * k + 8 then bit v (n - 8 * k) else bit q n)"
  unfolding with_byte_def bit_or_iff bit_and_iff bit_not_iff bit_push_bit_iff bit_unsigned_iff bit_FF
  by (auto dest: bit_imp_le_length)

lemma byte_in_with_byte:
  assumes "j < 8" "k < 8"
  shows "byte_in (with_byte k v q) j = (if j = k then v else byte_in q j)"
proof (rule bit_word_eqI)
  fix n assume n: "n < LENGTH(8)"
  have "8 * k \<le> 8 * j + n \<and> 8 * j + n < 8 * k + 8 \<longleftrightarrow> j = k" using assms n by auto
  then show "bit (byte_in (with_byte k v q) j) n = bit (if j = k then v else byte_in q j) n"
    using assms n bit_with_byte[of "8 * j + n" k v q] by (auto simp: bit_byte_in)
qed

lemma unat_and_7: "unat (a AND 7 :: u64) = unat a mod 8"
  using unat_and_mask[of a 3] by (simp add: mask_numeral)

lemma unat_and_FFF: "unat (a AND 0xFFF :: u64) = unat a mod 4096"
  using unat_and_mask[of a 12] by (simp add: mask_numeral)

lemma address_split:
  "a = b \<longleftrightarrow> a AND ADDR_MASK = b AND ADDR_MASK \<and>
     unat (a AND 0xFFF) div 8 = unat (b AND 0xFFF) div 8 \<and> unat (a AND 7) = unat (b AND 7)"
proof
  assume c: "a AND ADDR_MASK = b AND ADDR_MASK \<and>
     unat (a AND 0xFFF) div 8 = unat (b AND 0xFFF) div 8 \<and> unat (a AND 7) = unat (b AND 7)"
  have s: "x = x div 4096 * 4096 + (x mod 4096 div 8 * 8 + x mod 8)" for x :: nat
    using mod_mod_cancel[of 8 4096 x] div_mult_mod_eq[of "x mod 4096" 8] div_mult_mod_eq[of x 4096] by simp
  have "unat a div 4096 * 4096 = unat b div 4096 * 4096"
    using c unat_page_of[of a] unat_page_of[of b] by simp
  with c s[of "unat a"] s[of "unat b"] have "unat a = unat b" by (simp add: unat_and_7 unat_and_FFF)
  then show "a = b" by (simp add: word_unat_eq_iff)
qed auto

lemma put_qword_parts [simp]:
  "pm (put_qword a v m) = pm m"
  "u \<noteq> a AND ADDR_MASK \<Longrightarrow> frames (put_qword a v m) u = frames m u"
  by (auto simp: put_qword_def put_entry_def)

lemma put_byte_parts [simp]:
  "pm (put_byte a v m) = pm m"
  "u \<noteq> a AND ADDR_MASK \<Longrightarrow> frames (put_byte a v m) u = frames m u"
  "machine.more (put_byte a v m) = machine.more m"
  by (simp_all add: put_byte_def put_qword_more)

lemma get_byte_put_byte: "get_byte b (put_byte a v m) = (if b = a then v else get_byte b m)"
proof -
  define q where "q = with_byte (unat (a AND 7)) v (get_qword a m)"
  have w: "byte_in q j = (if j = unat (a AND 7) then v else byte_in (get_qword a m) j)" if "j < 8" for j
    unfolding q_def by (rule byte_in_with_byte) (use that in \<open>simp_all add: unat_and_7\<close>)
  define same where "same \<longleftrightarrow> b AND ADDR_MASK = a AND ADDR_MASK \<and> unat (b AND 0xFFF) div 8 = unat (a AND 0xFFF) div 8"
  have "get_qword b (put_qword a q m) = (if same then q else get_qword b m)"
    by (auto simp only: get_qword_def put_qword_def put_entry_simps same_def split: if_splits)
  moreover have "same \<Longrightarrow> get_qword b m = get_qword a m" by (simp add: get_qword_def same_def)
  moreover have "b = a \<longleftrightarrow> same \<and> unat (b AND 7) = unat (a AND 7)"
    using address_split[of b a] by (simp add: same_def)
  ultimately show ?thesis
    using w[of "unat (b AND 7)"] unat_and_7[of b]
    unfolding get_byte_def put_byte_def q_def[symmetric] by (cases same) simp_all
qed

lemma get_qword_frames_cong:
  "frames m' (a AND ADDR_MASK) = frames m (a AND ADDR_MASK) \<Longrightarrow> get_qword a m' = get_qword a m"
  by (simp add: get_qword_def)

lemma get_byte_frames_cong:
  "frames m' (a AND ADDR_MASK) = frames m (a AND ADDR_MASK) \<Longrightarrow> get_byte a m' = get_byte a m"
  using get_qword_frames_cong[of m' a m] by (simp only: get_byte_def)

section \<open>Runs of bytes\<close>

definition memcpy_local :: "u64 \<Rightarrow> u64 \<Rightarrow> u32 \<Rightarrow> 'a machine_scheme \<Rightarrow> 'a machine_scheme" where
  "memcpy_local dst src n m = fold (\<lambda>i m. put_byte (dst + of_nat i) (get_byte (src + of_nat i) m) m) [0..<unat n] m"

definition memset_local :: "u64 \<Rightarrow> u8 \<Rightarrow> u32 \<Rightarrow> 'a machine_scheme \<Rightarrow> 'a machine_scheme" where
  "memset_local dst v n m = fold (\<lambda>i. put_byte (dst + of_nat i) v) [0..<unat n] m"

definition put_bytes :: "u64 \<Rightarrow> u8 list \<Rightarrow> 'a machine_scheme \<Rightarrow> 'a machine_scheme" where
  "put_bytes dst bs m = fold (\<lambda>i. put_byte (dst + of_nat i) (bs ! i)) [0..<length bs] m"

definition mem_bytes :: "u64 \<Rightarrow> 'a machine_scheme \<Rightarrow> bytes" where
  "mem_bytes base m = (\<lambda>i. get_byte (base + of_nat i) m)"

text \<open>All three write \<open>g i\<close> to the address \<open>dst + i\<close>, in order.\<close>

definition put_run :: "u64 \<Rightarrow> nat \<Rightarrow> (nat \<Rightarrow> u8) \<Rightarrow> 'a machine_scheme \<Rightarrow> 'a machine_scheme" where
  "put_run dst n g m = fold (\<lambda>i. put_byte (dst + of_nat i) (g i)) [0..<n] m"

lemma put_run_simps:
  "put_run dst 0 g m = m"
  "put_run dst (Suc n) g m = put_byte (dst + of_nat n) (g n) (put_run dst n g m)"
  by (simp_all add: put_run_def)

lemma memset_run: "memset_local dst v n = put_run dst (unat n) (\<lambda>_. v)"
  by (simp add: memset_local_def put_run_def fun_eq_iff)

lemma put_bytes_run: "put_bytes dst bs = put_run dst (length bs) (\<lambda>i. bs ! i)"
  by (simp add: put_bytes_def put_run_def fun_eq_iff)

lemma offset_lt:
  fixes b dst :: u64
  assumes "n < 2 ^ 64"
  shows "unat (b - dst) = n \<longleftrightarrow> b = dst + of_nat n"
proof
  assume "unat (b - dst) = n"
  then have "b - dst = of_nat n" by auto
  then show "b = dst + of_nat n" by (simp add: algebra_simps)
qed (use assms in \<open>simp add: unat_of_nat_small\<close>)

lemma get_byte_put_run:
  assumes "n \<le> 2 ^ 64"
  shows "get_byte b (put_run dst n g m) = (if unat (b - dst) < n then g (unat (b - dst)) else get_byte b m)"
  using assms
proof (induction n)
  case (Suc n)
  then have n: "n < 2 ^ 64" by simp
  show ?case using Suc offset_lt[OF n, of b dst] by (auto simp: put_run_simps get_byte_put_byte less_Suc_eq)
qed (simp add: put_run_simps)

lemma put_run_parts [simp]:
  "pm (put_run dst n g m) = pm m" "machine.more (put_run dst n g m) = machine.more m"
  by (induction n) (simp_all add: put_run_simps)

lemma memcpy_run:
  assumes "\<And>i. i < unat n \<Longrightarrow> \<not> unat (src + of_nat i - dst) < unat n"
  shows "memcpy_local dst src n m = put_run dst (unat n) (\<lambda>i. get_byte (src + of_nat i) m) m"
proof -
  have b: "unat n < 2 ^ 32" using unat_lt_two_power[of n] by simp
  have "k \<le> unat n \<Longrightarrow> fold (\<lambda>i m. put_byte (dst + of_nat i) (get_byte (src + of_nat i) m) m) [0..<k] m
      = put_run dst k (\<lambda>i. get_byte (src + of_nat i) m) m" for k
  proof (induction k)
    case (Suc k)
    then have "\<not> unat (src + of_nat k - dst) < k" using assms[of k] by simp
    with Suc b show ?case by (simp add: put_run_simps get_byte_put_run)
  qed (simp add: put_run_simps)
  then show ?thesis by (simp add: memcpy_local_def)
qed

section \<open>Runs inside a page\<close>

lemma page_plus:
  fixes p x :: u64
  assumes "p AND 0xFFF = 0" "unat x < 4096"
  shows "(p + x) AND ADDR_MASK = p" "(p + x) AND 0xFFF = x" "unat (p + x) = unat p + unat x"
proof -
  have x: "x < 0x1000" using assms(2) by (simp add: word_less_nat_alt)
  show 1: "(p + x) AND ADDR_MASK = p" "(p + x) AND 0xFFF = x" by (rule page_offset[OF assms(1) x])+
  have "unat (p + x) = unat (p + x) div 4096 * 4096 + unat (p + x) mod 4096" by simp
  then show "unat (p + x) = unat p + unat x"
    using 1 unat_page_of[of "p + x"] unat_and_FFF[of "p + x"] by simp
qed

lemma put_run_frames:
  assumes "p AND 0xFFF = 0" "off + n \<le> 4096" "u \<noteq> p"
  shows "frames (put_run (p + of_nat off) n g m) u = frames m u"
  using assms(2)
proof (induction n)
  case (Suc n)
  have "unat (of_nat (off + n) :: u64) < 4096" using Suc.prems by (simp add: unat_of_nat_small del: of_nat_add)
  note page_plus(1)[OF assms(1) this]
  then have "u \<noteq> (p + of_nat off + of_nat n) AND ADDR_MASK" using assms(3) by (simp add: add.assoc)
  with Suc show ?case by (simp only: put_run_simps put_byte_parts) simp
qed (simp add: put_run_simps)

end
