(* ===== verification/Elf.thy ===== *)
theory Elf
  imports Syscall Phys_Mem
begin

text \<open>
  The ELF loader of \<^verbatim>\<open>kernel/elf_loader.c\<close>: validation of the header, loading of the segments
  into the pages of a new address space, and the older loader that copies to physical addresses.
  Physical memory is that of \<open>Phys_Mem\<close>; the file is
  staged in the buffer \<^verbatim>\<open>elf_file_buf\<close>, 128 pages of physical memory.  The entry into user mode
  (\<^verbatim>\<open>jump_to_entry\<close>, \<^verbatim>\<open>kernel_return_from_user\<close>) is inline assembly and is not modelled.
\<close>

section \<open>The headers\<close>

text \<open>The fields of \<^verbatim>\<open>Elf64_Ehdr\<close> and \<^verbatim>\<open>Elf64_Phdr\<close> that the loader reads, at their offsets.\<close>

definition e_type :: "bytes \<Rightarrow> u16" where "e_type b = le16 b 16"
definition e_machine :: "bytes \<Rightarrow> u16" where "e_machine b = le16 b 18"
definition e_entry :: "bytes \<Rightarrow> u64" where "e_entry b = le64 b 24"
definition e_phoff :: "bytes \<Rightarrow> u64" where "e_phoff b = le64 b 32"
definition e_phentsize :: "bytes \<Rightarrow> u16" where "e_phentsize b = le16 b 54"
definition e_phnum :: "bytes \<Rightarrow> u16" where "e_phnum b = le16 b 56"

definition p_type :: "bytes \<Rightarrow> u32" where "p_type b = le32 b 0"
definition p_offset :: "bytes \<Rightarrow> u64" where "p_offset b = le64 b 8"
definition p_vaddr :: "bytes \<Rightarrow> u64" where "p_vaddr b = le64 b 16"
definition p_paddr :: "bytes \<Rightarrow> u64" where "p_paddr b = le64 b 24"
definition p_filesz :: "bytes \<Rightarrow> u64" where "p_filesz b = le64 b 32"
definition p_memsz :: "bytes \<Rightarrow> u64" where "p_memsz b = le64 b 40"

abbreviation PT_LOAD :: u32 where "PT_LOAD \<equiv> 1"

definition validate_header :: "bytes \<Rightarrow> int" where
  "validate_header eh =
     (if eh 0 \<noteq> 0x7F \<or> eh 1 \<noteq> 0x45 \<or> eh 2 \<noteq> 0x4C \<or> eh 3 \<noteq> 0x46 then -1
      else if eh 4 \<noteq> 2 then -2
      else if eh 5 \<noteq> 1 then -3
      else if e_type eh \<noteq> 2 then -4
      else if e_machine eh \<noteq> 62 then -5
      else 0)"

text \<open>The address of program header \<open>i\<close>; the address \<open>ph_base\<close> of the table is computed once.\<close>

definition phdr_at :: "u64 \<Rightarrow> u64 \<Rightarrow> nat \<Rightarrow> 'a machine_scheme \<Rightarrow> u64" where
  "phdr_at base ph_base i m = ph_base + of_nat (i * unat (e_phentsize (mem_bytes base m)))"

section \<open>Loading into an address space\<close>

text \<open>The new page of a segment: zeros, and the part of the file that falls into it.\<close>

definition fill_page :: "u64 \<Rightarrow> u64 \<Rightarrow> u64 \<Rightarrow> u64 \<Rightarrow> u64 \<Rightarrow> u64 \<Rightarrow> 'a machine_scheme \<Rightarrow> 'a machine_scheme" where
  "fill_page base ph vaddr filesz va page m =
     (let m = memset_local page 0 4096 m;
          copy_lo = (if va > vaddr then va else vaddr);
          copy_hi = (if va + 0x1000 < vaddr + filesz then va + 0x1000 else vaddr + filesz)
      in if copy_lo < copy_hi
         then memcpy_local (page + (copy_lo - va)) (base + p_offset (mem_bytes ph m) + (copy_lo - vaddr))
                (ucast (copy_hi - copy_lo)) m
         else m)"

text \<open>One page of the loop: skipped when something is mapped there.  The answer is 0, -20 or -21.\<close>

definition load_page :: "u64 \<Rightarrow> u64 \<Rightarrow> u64 \<Rightarrow> u64 \<Rightarrow> u64 \<Rightarrow> u64 \<Rightarrow> 'a machine_scheme \<Rightarrow> int \<times> 'a machine_scheme" where
  "load_page base ph vaddr filesz user_pml4 va m =
     (if paging_virt_to_phys user_pml4 va m \<noteq> 0 then (0, m)
      else case pmm_alloc_page (pm m) of (page, p) \<Rightarrow>
        let m = m\<lparr>pm := p\<rparr> in
        if page = 0 then (-20, m)
        else case paging_map_user_page user_pml4 va page (PAGE_PRESENT OR PAGE_WRITABLE OR PAGE_USER)
                    (fill_page base ph vaddr filesz va page m) of
               (r, m) \<Rightarrow> (if r < 0 then -21 else 0, m))"

fun load_pages :: "u64 \<Rightarrow> u64 \<Rightarrow> u64 \<Rightarrow> u64 \<Rightarrow> u64 \<Rightarrow> u64 list \<Rightarrow> 'a machine_scheme \<Rightarrow> int \<times> 'a machine_scheme" where
  "load_pages base ph vaddr filesz user_pml4 [] m = (0, m)"
| "load_pages base ph vaddr filesz user_pml4 (va # vas) m =
     (case load_page base ph vaddr filesz user_pml4 va m of
        (r, m) \<Rightarrow> if r < 0 then (r, m) else load_pages base ph vaddr filesz user_pml4 vas m)"

definition load_segment :: "u64 \<Rightarrow> u64 \<Rightarrow> u64 \<Rightarrow> nat \<Rightarrow> 'a machine_scheme \<Rightarrow> int \<times> 'a machine_scheme" where
  "load_segment base user_pml4 ph_base i m =
     (let ph = phdr_at base ph_base i m; b = mem_bytes ph m in
      if p_type b \<noteq> PT_LOAD \<or> p_memsz b = 0 then (0, m)
      else let vaddr = p_vaddr b;
               seg_start = vaddr AND NOT 0xFFF;
               seg_end = (vaddr + p_memsz b + 0xFFF) AND NOT 0xFFF
           in load_pages base ph vaddr (p_filesz b) user_pml4 (page_range seg_start seg_end) m)"

text \<open>
  The loop over the program headers, which stops at the first negative answer.  The counter is a
  \<^verbatim>\<open>uint16_t\<close> and the bound \<^verbatim>\<open>e_phnum\<close> is read again before every round.
\<close>

function each_phdr :: "(nat \<Rightarrow> 'a machine_scheme \<Rightarrow> int \<times> 'a machine_scheme) \<Rightarrow> u64 \<Rightarrow> nat \<Rightarrow> 'a machine_scheme \<Rightarrow> int \<times> 'a machine_scheme" where
  "each_phdr g base i m =
     (if i < unat (e_phnum (mem_bytes base m))
      then case g i m of (r, m) \<Rightarrow> if r < 0 then (r, m) else each_phdr g base (Suc i) m
      else (0, m))"
  by auto
termination
proof (relation "measure (\<lambda>(g, base, i, m). 65536 - i)")
  fix g :: "nat \<Rightarrow> 'a machine_scheme \<Rightarrow> int \<times> 'a machine_scheme" and base i m x r m'
  assume "i < unat (e_phnum (mem_bytes base (m :: 'a machine_scheme)))"
  moreover have "unat (e_phnum (mem_bytes base m)) < 65536"
    using unat_lt_two_power[of "e_phnum (mem_bytes base m)"] by simp
  ultimately show "((g, base, Suc i, m'), g, base, i, m) \<in> measure (\<lambda>(g, base, i, m). 65536 - i)" by simp
qed simp

declare each_phdr.simps [simp del]

definition load_segments_mapped :: "u64 \<Rightarrow> u64 \<Rightarrow> 'a machine_scheme \<Rightarrow> int \<times> 'a machine_scheme" where
  "load_segments_mapped base user_pml4 m =
     each_phdr (load_segment base user_pml4 (base + e_phoff (mem_bytes base m))) base 0 m"

section \<open>Loading to physical addresses\<close>

definition load_phys :: "u64 \<Rightarrow> u64 \<Rightarrow> nat \<Rightarrow> 'a machine_scheme \<Rightarrow> int \<times> 'a machine_scheme" where
  "load_phys base ph_base i m =
     (let a = phdr_at base ph_base i m; ph = mem_bytes a m in
      if p_type ph \<noteq> PT_LOAD then (0, m)
      else let dst = p_paddr ph in
           if dst < 0x00200000 then (-20, m)
           else if p_memsz ph = 0 then (-21, m)
           else if dst + p_memsz ph > 0x01000000 then (-22, m)
           else let m = (if p_filesz ph > 0 then memcpy_local dst (base + p_offset ph) (ucast (p_filesz ph)) m else m);
                    ph = mem_bytes a m;
                    m = (if p_memsz ph > p_filesz ph
                         then memset_local (dst + p_filesz ph) 0 (ucast (p_memsz ph - p_filesz ph)) m else m)
                in (0, paging_mark_user_region dst (p_memsz (mem_bytes a m)) m))"

definition load_segments :: "u64 \<Rightarrow> 'a machine_scheme \<Rightarrow> int \<times> 'a machine_scheme" where
  "load_segments base m = each_phdr (load_phys base (base + e_phoff (mem_bytes base m))) base 0 m"

section \<open>Loading a file\<close>

abbreviation ELF_MAX_SIZE :: u32 where "ELF_MAX_SIZE \<equiv> 524288"
abbreviation ELF_FILE_PAGES :: nat where "ELF_FILE_PAGES \<equiv> 128"
abbreviation ELF_STACK_PAGES :: nat where "ELF_STACK_PAGES \<equiv> 4"

record elf_loader =
  elf_file_buf :: u64
  elf_stack :: u64
  elf_loader_initialized :: bool

text \<open>The pages of a buffer are taken one by one; only the first address is kept.\<close>

definition elf_loader_init :: "elf_loader \<Rightarrow> 'a machine_scheme \<Rightarrow> int \<times> elf_loader \<times> 'a machine_scheme" where
  "elf_loader_init l m =
     (if elf_loader_initialized l then (0, l, m)
      else case pmm_alloc_page (pm m) of (page, p) \<Rightarrow>
        let m = m\<lparr>pm := p\<rparr>; l = l\<lparr>elf_file_buf := page\<rparr> in
        if page = 0 then (-1, l, m)
        else case alloc_rest (ELF_FILE_PAGES - 1) m of (ok, m) \<Rightarrow>
        if \<not> ok then (-1, l, m)
        else case pmm_alloc_page (pm m) of (page, p) \<Rightarrow>
        let m = m\<lparr>pm := p\<rparr>; l = l\<lparr>elf_stack := page\<rparr> in
        if page = 0 then (-1, l, m)
        else case alloc_rest (ELF_STACK_PAGES - 1) m of (ok, m) \<Rightarrow>
        if \<not> ok then (-1, l, m)
        else (0, l\<lparr>elf_loader_initialized := True\<rparr>, m))"

definition print_str :: "cstr \<Rightarrow> console \<Rightarrow> console" where
  "print_str s c = snd (console_write (Some (byte_at s)) (int (length s)) c)"

text \<open>The decimal digits, the lowest first, at most 12.\<close>

fun int_digits :: "nat \<Rightarrow> int \<Rightarrow> u8 list" where
  "int_digits 0 n = []"
| "int_digits (Suc k) n = (if n > 0 then word_of_int (48 + n mod 10) # int_digits k (n div 10) else [])"

definition print_int_local :: "int \<Rightarrow> console \<Rightarrow> console" where
  "print_int_local n c =
     (if n = 0 then console_putc 48 c
      else let c = (if n < 0 then console_putc 45 c else c)
           in fold (\<lambda>d. console_putc (uint d)) (rev (int_digits 12 (if n < 0 then - n else n))) c)"

type_synonym elf_state = "elf_loader \<times> system"

definition say :: "cstr \<Rightarrow> elf_state \<Rightarrow> elf_state" where
  "say msg = (\<lambda>(l, s). (l, s\<lparr>cons := print_str msg (cons s)\<rparr>))"

definition say_int :: "int \<Rightarrow> elf_state \<Rightarrow> elf_state" where
  "say_int n = (\<lambda>(l, s). (l, s\<lparr>cons := print_int_local n (cons s)\<rparr>))"

abbreviation newline :: cstr where "newline \<equiv> [10]"

text \<open>
  What both loaders do before the segments: the buffers, the file, the header.  The answer is a
  negative code, or 0 with the file in the buffer.
\<close>

definition elf_read :: "nat \<Rightarrow> (int \<Rightarrow> elf_state \<Rightarrow> elf_state) \<Rightarrow> elf_state \<Rightarrow> (int \<times> elf_state) outcome option" where
  "elf_read node bad_header = (\<lambda>(l, s).
     if \<not> is_file node (vol s) then Some (Done (-10, l, s))
     else case elf_loader_init l (kern s) of (r, l, k) \<Rightarrow>
       let s = s\<lparr>kern := k\<rparr>; len = v_size (node_of node (vol s)) in
       if r < 0 then Some (Done (-14, say (bytes_of ''exec: failed to allocate buffers'' @ newline) (l, s)))
       else if len > ELF_MAX_SIZE then Some (Done (-11, say (bytes_of ''exec: file too large'' @ newline) (l, s)))
       else Option.bind (vfs_read node 0 len (vol s)) (\<lambda>(r, v).
         case r of
           Undef \<Rightarrow> Some Undef
         | Done None \<Rightarrow> Some (Done (-12, say (bytes_of ''exec: read failed'' @ newline) (l, s\<lparr>vol := v\<rparr>)))
         | Done (Some bs) \<Rightarrow>
             let s = s\<lparr>vol := v, kern := put_bytes (elf_file_buf l) bs (kern s)\<rparr> in
             if length bs < unat (v_size (node_of node (vol s)))
             then Some (Done (-12, say (bytes_of ''exec: read failed'' @ newline) (l, s)))
             else let hv = validate_header (mem_bytes (elf_file_buf l) (kern s))
                  in if hv \<noteq> 0 then Some (Done (hv, bad_header hv (l, s))) else Some (Done (0, l, s))))"

definition elf_load_into :: "nat \<Rightarrow> u64 \<Rightarrow> elf_state \<Rightarrow> ((int \<times> u64) \<times> elf_state) outcome option" where
  "elf_load_into node user_pml4 st =
     Option.bind (elf_read node (\<lambda>hv. say (bytes_of '')'' @ newline) \<circ> say_int hv \<circ> say (bytes_of ''exec: invalid ELF ('')) st) (\<lambda>r.
       case r of
         Undef \<Rightarrow> Some Undef
       | Done (code, l, s) \<Rightarrow>
           if code < 0 then Some (Done ((code, 0), l, s))
           else case load_segments_mapped (elf_file_buf l) user_pml4 (kern s) of
             (r, k) \<Rightarrow>
               let s = s\<lparr>kern := k\<rparr> in
               if r < 0 then Some (Done ((-13, 0), say (bytes_of ''exec: segment mapping failed'' @ newline) (l, s)))
               else Some (Done ((0, e_entry (mem_bytes (elf_file_buf l) k)), l, s)))"

definition elf_load :: "nat \<Rightarrow> elf_state \<Rightarrow> ((int \<times> u64) \<times> elf_state) outcome option" where
  "elf_load node st =
     Option.bind (elf_read node (\<lambda>hv. say newline \<circ> say_int hv \<circ> say (bytes_of ''exec: invalid ELF'' @ newline)) st) (\<lambda>r.
       case r of
         Undef \<Rightarrow> Some Undef
       | Done (code, l, s) \<Rightarrow>
           if code < 0 then Some (Done ((code, 0), l, s))
           else case load_segments (elf_file_buf l) (kern s) of
             (r, k) \<Rightarrow>
               let s = s\<lparr>kern := k\<rparr> in
               if r < 0 then Some (Done ((-13, 0), say (bytes_of ''exec: bad segment'' @ newline) (l, s)))
               else Some (Done ((0, e_entry (mem_bytes (elf_file_buf l) k)), l, s)))"

end
