(* ===== verification/Data_Pages.thy ===== *)
theory Data_Pages
  imports Phys_Mem
begin

text \<open>
  Pages that hold data.  A frame that is neither available to the page allocator nor a page table
  of the address spaces \<open>R\<close> is a data page; no mapping operation writes to it or takes it away.
  \<open>user_byte\<close> is the memory a program sees through its own pages, the ones the kernel
  allocated for it.
\<close>

definition data_page :: "'a machine_scheme \<Rightarrow> u64 set \<Rightarrow> u64 \<Rightarrow> bool" where
  "data_page m R x \<longleftrightarrow> \<not> table_free m x \<and> (\<forall>r\<in>R. \<forall>p. table_path p \<longrightarrow> table_at m r p \<noteq> Some x)"

text \<open>\<open>keeps_data m m' R\<close>: every data page of \<open>m\<close> is one of \<open>m'\<close> and holds the same.\<close>

definition keeps_data :: "'a machine_scheme \<Rightarrow> 'a machine_scheme \<Rightarrow> u64 set \<Rightarrow> bool" where
  "keeps_data m m' R \<longleftrightarrow> (\<forall>x. data_page m R x \<longrightarrow> data_page m' R x \<and> frames m' x = frames m x) \<and>
     (\<forall>x. table_free m' x \<longrightarrow> table_free m x)"

lemma keeps_data_refl [simp]: "keeps_data m m R"
  by (simp add: keeps_data_def)

lemma keeps_data_trans: "keeps_data m m1 R \<Longrightarrow> keeps_data m1 m2 R \<Longrightarrow> keeps_data m m2 R"
  by (simp add: keeps_data_def)

lemma keeps_dataD:
  assumes "keeps_data m m' R" "data_page m R x"
  shows "data_page m' R x" "frames m' x = frames m x"
  using assms by (auto simp: keeps_data_def)

lemma get_or_create_data:
  assumes ok: "spaces_ok m R" "r \<in> R" and t: "table_at m r p = Some t" "table_path (p @ [i])"
    and h: "hier AND 1 \<noteq> 0" "hier AND ADDR_MASK = 0"
    and g: "get_or_create hier t i m = (res, m')"
  shows "keeps_data m m' R"
proof (cases "frames m t i AND PAGE_PRESENT = 0")
  case True
  obtain w m1 where al: "alloc_pt_page m = (w, m1)" by (cases "alloc_pt_page m")
  show ?thesis
  proof (cases "w = 0")
    case True
    then have "m1 = m" using alloc_pt_page_fail[OF spaces_okD(1)[OF ok(1)]] al by simp
    then show ?thesis using g True al \<open>frames m t i AND PAGE_PRESENT = 0\<close> by (auto simp: get_or_create_def)
  next
    case False
    have p: "table_path p" using t(2) by (simp add: table_path_snoc)
    have m': "m' = put_entry t i (w OR hier) m1"
      using g al False \<open>frames m t i AND PAGE_PRESENT = 0\<close> by (auto simp: get_or_create_def)
    note A = alloc_pt_page_ok[OF spaces_okD(1)[OF ok(1)] al False]
    note T = add_table_at[OF ok t al False h]
    show ?thesis unfolding keeps_data_def
    proof (intro conjI allI impI)
      fix x assume d: "data_page m R x"
      then have x: "x \<noteq> w" "x \<noteq> t" using A(2) t(1) ok(2) p by (auto simp: data_page_def)
      show "data_page m' R x" unfolding data_page_def
      proof (intro conjI ballI allI impI)
        show "\<not> table_free m' x" using d A(4)[of x] by (auto simp: data_page_def m')
        fix r q assume "r \<in> R" "table_path q"
        then show "table_at m' r q \<noteq> Some x" using T[of r q] d x by (auto simp: data_page_def m')
      qed
      show "frames m' x = frames m x" using A(6)[OF x(1)] x(2) by (auto simp: m' fun_eq_iff)
    next
      fix x assume "table_free m' x" then show "table_free m x" using A(4)[of x] by (simp add: m')
    qed
  qed
next
  case False
  then show ?thesis using g by (auto simp: get_or_create_def)
qed

lemma put_leaf_data:
  assumes ok: "spaces_ok m R" "r \<in> R" and t: "table_at m r p = Some t" "table_path p" "length p = 3"
  shows "keeps_data m (put_entry t i e m) R"
  unfolding keeps_data_def
proof (intro conjI allI impI)
  fix x assume d: "data_page m R x"
  then have x: "x \<noteq> t" using t ok(2) by (auto simp: data_page_def)
  show "data_page (put_entry t i e m) R x"
    using d put_leaf_spaces_ok(2)[OF ok t] by (auto simp: data_page_def)
  show "frames (put_entry t i e m) x = frames m x" using x by (simp add: fun_eq_iff)
qed simp

lemma map_leaf_data:
  assumes ok: "spaces_ok m R" "r \<in> R" and h: "hier AND 1 \<noteq> 0" "hier AND ADDR_MASK = 0"
    and mp: "map_leaf hier r v e m = (res, m')"
  shows "keeps_data m m' R"
proof -
  obtain o1 m1 where g1: "get_or_create hier r (pml4_idx v) m = (o1, m1)"
    by (cases "get_or_create hier r (pml4_idx v) m")
  note G1 = get_or_create_ok[OF ok _ _ h g1, of "[]", simplified]
  have D1: "keeps_data m m1 R" using get_or_create_data[OF ok _ _ h g1, of "[]"] by simp
  show ?thesis
  proof (cases o1)
    case None
    with mp g1 D1 show ?thesis by (simp add: map_leaf_def)
  next
    case (Some t1)
    have ok1: "spaces_ok m1 R" and t1: "table_at m1 r [pml4_idx v] = Some t1"
      using G1 Some by (auto simp: extends_def)
    obtain o2 m2 where g2: "get_or_create hier t1 (pdpt_idx v) m1 = (o2, m2)"
      by (cases "get_or_create hier t1 (pdpt_idx v) m1")
    note G2 = get_or_create_ok[OF ok1 ok(2) t1 _ h g2, simplified]
    have D2: "keeps_data m m2 R"
      by (rule keeps_data_trans[OF D1 get_or_create_data[OF ok1 ok(2) t1 _ h g2]]) simp
    show ?thesis
    proof (cases o2)
      case None
      with mp g1 g2 \<open>o1 = Some t1\<close> D2 show ?thesis by (simp add: map_leaf_def)
    next
      case (Some t2)
      have ok2: "spaces_ok m2 R" and t2: "table_at m2 r [pml4_idx v, pdpt_idx v] = Some t2"
        using G2 Some by (auto simp: extends_def)
      obtain o3 m3 where g3: "get_or_create hier t2 (pd_idx v) m2 = (o3, m3)"
        by (cases "get_or_create hier t2 (pd_idx v) m2")
      note G3 = get_or_create_ok[OF ok2 ok(2) t2 _ h g3, simplified]
      have D3: "keeps_data m m3 R"
        by (rule keeps_data_trans[OF D2 get_or_create_data[OF ok2 ok(2) t2 _ h g3]]) simp
      show ?thesis
      proof (cases o3)
        case None
        with mp g1 g2 g3 \<open>o1 = Some t1\<close> \<open>o2 = Some t2\<close> D3 show ?thesis by (simp add: map_leaf_def)
      next
        case (Some t3)
        have ok3: "spaces_ok m3 R" and t3: "table_at m3 r [pml4_idx v, pdpt_idx v, pd_idx v] = Some t3"
          using G3 Some by (auto simp: extends_def)
        have "m' = put_entry t3 (pt_idx v) e m3"
          using mp g1 \<open>o1 = Some t1\<close> g2 \<open>o2 = Some t2\<close> g3 Some by (auto simp: map_leaf_def)
        moreover have "keeps_data m3 (put_entry t3 (pt_idx v) e m3) R"
          by (rule put_leaf_data[OF ok3 ok(2) t3]) simp_all
        ultimately show ?thesis using keeps_data_trans[OF D3] by simp
      qed
    qed
  qed
qed

text \<open>Taking a page from the allocator, and filling it.\<close>

lemma alloc_data:
  assumes ok: "spaces_ok m R" and al: "pmm_alloc_page (pm m) = (a, p)" "a \<noteq> 0"
  shows "spaces_ok (m\<lparr>pm := p\<rparr>) R" "keeps_data m (m\<lparr>pm := p\<rparr>) R" "data_page (m\<lparr>pm := p\<rparr>) R a"
    "\<not> data_page m R a" "a AND 0xFFF = 0"
proof -
  note A = pmm.alloc_some[OF spaces_okD(1)[OF ok] al]
  have fr: "table_free m a" using A by (simp add: table_free_def)
  have le: "table_free (m\<lparr>pm := p\<rparr>) x \<Longrightarrow> table_free m x" for x using A by (auto simp: table_free_def)
  have at: "table_at (m\<lparr>pm := p\<rparr>) r q = table_at m r q" for r q by (rule table_at_cong) simp
  show "spaces_ok (m\<lparr>pm := p\<rparr>) R"
    unfolding spaces_ok_def at
  proof (intro conjI)
    show "pmm_inv (pm (m\<lparr>pm := p\<rparr>))" using A by simp
    show "\<forall>r\<in>R. \<forall>p' t. table_path p' \<longrightarrow> table_at m r p' = Some t \<longrightarrow> \<not> table_free (m\<lparr>pm := p\<rparr>) t"
      using spaces_okD(2)[OF ok] le by blast
  qed (use ok in \<open>simp add: spaces_ok_def\<close>)
  show "keeps_data m (m\<lparr>pm := p\<rparr>) R" using le by (auto simp: keeps_data_def data_page_def at)
  show "data_page (m\<lparr>pm := p\<rparr>) R a"
    using fr spaces_okD(2)[OF ok] A by (auto simp: data_page_def at table_free_def)
  show "\<not> data_page m R a" using fr by (simp add: data_page_def)
  show "a AND 0xFFF = 0" using pmm.pool_aligned[OF spaces_okD(1)[OF ok], of a] A by (simp add: mask_numeral)
qed

lemma same_frames_data:
  assumes ok: "spaces_ok m R" and d: "data_page m R a"
    and eq: "pm m' = pm m" "\<And>x. x \<noteq> a \<Longrightarrow> frames m' x = frames m x"
  shows "spaces_ok m' R" "\<And>r v. r \<in> R \<Longrightarrow> pte_of m' r v = pte_of m r v" "data_page m' R x = data_page m R x"
proof -
  have at: "table_at m' r q = table_at m r q" if "r \<in> R" "table_path q" for r q
    using that(2)
  proof (induction q rule: rev_induct)
    case (snoc j q)
    then have q: "table_path q" by (simp add: table_path_snoc)
    show ?case
    proof (cases "table_at m r q")
      case (Some x)
      then have "x \<noteq> a" using d that(1) q by (auto simp: data_page_def)
      then show ?thesis using snoc.IH[OF q] Some by (simp add: table_at_snoc eq(2))
    qed (simp add: table_at_snoc snoc.IH[OF q])
  qed simp
  have fr: "table_free m' x = table_free m x" for x by (simp add: table_free_def eq(1))
  show "spaces_ok m' R" using ok at unfolding spaces_ok_def fr eq(1) by metis
  show "data_page m' R x = data_page m R x" using at by (auto simp: data_page_def fr)
  show "pte_of m' r v = pte_of m r v" if "r \<in> R" for r v
  proof -
    have p: "table_path [pml4_idx v, pdpt_idx v, pd_idx v]" by simp
    have "frames m' t = frames m t" if "table_at m r [pml4_idx v, pdpt_idx v, pd_idx v] = Some t" for t
      by (rule eq(2)) (use that d \<open>r \<in> R\<close> p in \<open>auto simp: data_page_def\<close>)
    then show ?thesis by (simp add: pte_of_def at[OF that p] split: option.splits)
  qed
qed

section \<open>The memory of a program\<close>

definition user_byte :: "'a machine_scheme \<Rightarrow> u64 \<Rightarrow> u64 \<Rightarrow> u8 option" where
  "user_byte m r v =
     (case pte_of m r v of None \<Rightarrow> None
      | Some e \<Rightarrow> if e AND PAGE_USERALLOC = 0 then None
                  else Some (get_byte ((e AND ADDR_MASK) OR (v AND 0xFFF)) m))"

definition own_pages :: "'a machine_scheme \<Rightarrow> u64 set \<Rightarrow> bool" where
  "own_pages m R \<longleftrightarrow> (\<forall>r\<in>R. \<forall>v e. pte_of m r v = Some e \<longrightarrow> e AND PAGE_USERALLOC \<noteq> 0 \<longrightarrow>
     data_page m R (e AND ADDR_MASK))"

lemma frame_addr:
  fixes e v :: u64
  shows "((e AND ADDR_MASK) OR (v AND 0xFFF)) AND ADDR_MASK = e AND ADDR_MASK"
    and "((e AND ADDR_MASK) OR (v AND 0xFFF)) = (e AND ADDR_MASK) + (v AND 0xFFF)"
proof -
  have z: "(e AND ADDR_MASK) AND 0xFFF = 0" "(v AND 0xFFF) AND ADDR_MASK = 0" "(e AND ADDR_MASK) AND (v AND 0xFFF) = 0"
    by (auto simp: bit_eq_iff bit_simps)
  show "((e AND ADDR_MASK) OR (v AND 0xFFF)) AND ADDR_MASK = e AND ADDR_MASK" by (rule addr_mask_or[OF z(1,2)])
  show "((e AND ADDR_MASK) OR (v AND 0xFFF)) = (e AND ADDR_MASK) + (v AND 0xFFF)"
    by (rule disjunctive_add_eq_or[OF z(3), symmetric])
qed

lemma user_byte_keeps:
  assumes "own_pages m R" "r \<in> R" "keeps_data m m' R" "pte_of m' r v = pte_of m r v"
  shows "user_byte m' r v = user_byte m r v"
proof (cases "pte_of m r v")
  case (Some e)
  have "e AND PAGE_USERALLOC \<noteq> 0 \<Longrightarrow> frames m' (e AND ADDR_MASK) = frames m (e AND ADDR_MASK)"
    using assms Some by (auto simp: own_pages_def intro: keeps_dataD(2))
  then have "e AND PAGE_USERALLOC \<noteq> 0 \<Longrightarrow> get_byte ((e AND ADDR_MASK) OR (v AND 0xFFF)) m' =
      get_byte ((e AND ADDR_MASK) OR (v AND 0xFFF)) m"
    using get_byte_frames_cong[of m' "(e AND ADDR_MASK) OR (v AND 0xFFF)" m] unfolding frame_addr(1) by blast
  with Some assms(4) show ?thesis by (simp add: user_byte_def)
qed (simp add: user_byte_def assms(4))

end
