(* ===== verification/Elf_Load.thy ===== *)
theory Elf_Load
  imports Elf Data_Pages
begin

text \<open>
  What \<^verbatim>\<open>load_segments_mapped\<close> does to the memory of a program.  The abstract program image is a
  partial map from addresses to bytes; a segment lays its bytes, padded with zeros to whole pages,
  over the pages that are not taken yet.
\<close>

section \<open>Pages of virtual addresses\<close>

definition page_no :: "u64 \<Rightarrow> nat" where
  "page_no v = unat v div 4096"

lemma same_page_no:
  assumes "unat v < 2 ^ 48" "unat w < 2 ^ 48"
  shows "same_page v w \<longleftrightarrow> page_no v = page_no w"
proof -
  have idx: "pml4_idx u = page_no u div 512 div 512 div 512" "pdpt_idx u = page_no u div 512 div 512 mod 512"
    "pd_idx u = page_no u div 512 mod 512" "pt_idx u = page_no u mod 512" if "unat u < 2 ^ 48" for u
    using that by (simp_all add: idx_unat page_no_def div_mult2_eq[symmetric] div_less_iff_less_mult)
  have "a = b \<longleftrightarrow> a div 512 = b div 512 \<and> a mod 512 = b mod 512" for a b :: nat
    by (metis div_mult_mod_eq)
  then show ?thesis unfolding same_page_def idx[OF assms(1)] idx[OF assms(2)] by metis
qed

lemma page_no_aligned: "(va :: u64) AND 0xFFF = 0 \<Longrightarrow> unat va = page_no va * 4096"
  using unat_and_FFF[of va] div_mult_mod_eq[of "unat va" 4096] by (simp add: page_no_def)

lemma page_eq_plus:
  assumes "va AND 0xFFF = 0" "page_no w = page_no va"
  shows "va + (w AND 0xFFF) = w"
proof -
  have o: "unat (w AND 0xFFF) = unat w mod 4096" by (rule unat_and_FFF)
  have "unat (va + (w AND 0xFFF)) = unat va + unat w mod 4096"
    using page_plus(3)[OF assms(1), of "w AND 0xFFF"] o by simp
  also have "\<dots> = unat w div 4096 * 4096 + unat w mod 4096"
    using page_no_aligned[OF assms(1)] assms(2) by (simp only: page_no_def)
  also have "\<dots> = unat w" by (rule div_mult_mod_eq)
  finally show ?thesis by (simp add: word_unat_eq_iff)
qed

lemma run_page:
  fixes x p :: u64
  assumes "p AND 0xFFF = 0" "off + n \<le> 4096" "unat (x - (p + of_nat off)) < n"
  shows "x AND ADDR_MASK = p"
proof -
  let ?k = "unat (x - (p + of_nat off))"
  have "x = p + of_nat (off + ?k)" by (simp add: algebra_simps)
  moreover have "unat (of_nat (off + ?k) :: u64) < 4096"
    using assms(2,3) by (simp add: unat_of_nat_small del: of_nat_add)
  ultimately show ?thesis using page_plus(1)[OF assms(1)] by metis
qed

section \<open>Filling a page\<close>

text \<open>The byte of a segment at address \<open>v\<close>: from the file or zero.\<close>

definition seg_byte :: "bytes \<Rightarrow> u64 \<Rightarrow> u64 \<Rightarrow> u64 \<Rightarrow> u64 \<Rightarrow> u8" where
  "seg_byte file off vaddr filesz v =
     (if vaddr \<le> v \<and> v < vaddr + filesz then file (unat (off + (v - vaddr))) else 0)"

lemma le64_cong: "(\<And>j. j < 8 \<Longrightarrow> b (off + j) = b' (off + j)) \<Longrightarrow> le64 b off = le64 b' off"
  unfolding le64_def by (rule arg_cong2[of _ _ _ _ "\<lambda>x y. ucast x OR push_bit 32 (ucast y)"]; rule le32_cong)
    (simp_all add: add.assoc)

lemma mem_bytes_cong:
  assumes "frames m' ((a + of_nat i) AND ADDR_MASK) = frames m ((a + of_nat i) AND ADDR_MASK)"
  shows "mem_bytes a m' i = mem_bytes a m i"
  using get_byte_frames_cong[OF assms] by (simp only: mem_bytes_def)

text \<open>\<open>staged m P base ph vaddr filesz\<close>: the program header and the file part of a segment lie in pages with \<open>P\<close>.\<close>

definition staged :: "(u64 \<Rightarrow> bool) \<Rightarrow> u64 \<Rightarrow> u64 \<Rightarrow> u64 \<Rightarrow> u64 \<Rightarrow> bool" where
  "staged P base ph off filesz \<longleftrightarrow> (\<forall>i<56. P ((ph + of_nat i) AND ADDR_MASK)) \<and>
     (\<forall>k<filesz. P ((base + off + k) AND ADDR_MASK))"

lemma fill_page_ok:
  assumes page: "page AND 0xFFF = 0" and va: "va AND 0xFFF = 0"
    and nw: "unat va + 4096 < 2 ^ 64" "unat vaddr + unat filesz < 2 ^ 64"
    and st: "staged (\<lambda>x. x \<noteq> page) base ph (p_offset (mem_bytes ph m)) filesz"
  defines "m' \<equiv> fill_page base ph vaddr filesz va page m"
  shows "pm m' = pm m" "\<And>x. x \<noteq> page \<Longrightarrow> frames m' x = frames m x"
    "\<And>j. unat j < 4096 \<Longrightarrow> get_byte (page + j) m' =
       seg_byte (mem_bytes base m) (p_offset (mem_bytes ph m)) vaddr filesz (va + j)"
proof -
  define m1 where "m1 = put_run page 4096 (\<lambda>_. 0) m"
  have m1: "memset_local page 0 4096 m = m1" by (simp add: memset_run m1_def)
  have f1: "frames m1 x = frames m x" if "x \<noteq> page" for x
    using put_run_frames[OF page, of 0 4096] that by (simp add: m1_def)
  have same: "get_byte a m1 = get_byte a m" if "a AND ADDR_MASK \<noteq> page" for a
    by (rule get_byte_frames_cong[OF f1[OF that]])
  have z: "get_byte (page + j) m1 = 0" if "unat j < 4096" for j
    using that by (simp add: m1_def get_byte_put_run)
  define off where "off = p_offset (mem_bytes ph m)"
  have off1: "p_offset (mem_bytes ph m1) = off"
  proof -
    have "mem_bytes ph m1 (8 + j) = mem_bytes ph m (8 + j)" if "j < 8" for j
      unfolding mem_bytes_def using st that by (intro same) (simp add: staged_def del: of_nat_add)
    then show ?thesis unfolding off_def p_offset_def by (rule le64_cong)
  qed
  define lo where "lo = (if va > vaddr then va else vaddr)"
  define hi where "hi = (if va + 0x1000 < vaddr + filesz then va + 0x1000 else vaddr + filesz)"
  have uv: "unat (va + 0x1000) = unat va + 4096" using unat_plus_small[of va "0x1000"] nw(1) by simp
  have uf: "unat (vaddr + filesz) = unat vaddr + unat filesz" using unat_plus_small[of vaddr filesz] nw(2) by simp
  have m': "m' = (if lo < hi then memcpy_local (page + (lo - va)) (base + off + (lo - vaddr)) (ucast (hi - lo)) m1 else m1)"
    by (simp add: m'_def fill_page_def Let_def m1 off1 lo_def hi_def)
  have inseg: "vaddr \<le> va + j \<and> va + j < vaddr + filesz \<longleftrightarrow> lo \<le> va + j \<and> va + j < hi" and uj: "unat (va + j) = unat va + unat j"
    if "unat j < 4096" for j
  proof -
    show u: "unat (va + j) = unat va + unat j" by (rule page_plus(3)[OF va that])
    show "vaddr \<le> va + j \<and> va + j < vaddr + filesz \<longleftrightarrow> lo \<le> va + j \<and> va + j < hi"
      using that u uv uf by (auto simp: lo_def hi_def word_le_nat_alt word_less_nat_alt)
  qed
  have run: "pm m' = pm m \<and> (\<forall>x. x \<noteq> page \<longrightarrow> frames m' x = frames m x) \<and>
     (\<forall>j. unat j < 4096 \<longrightarrow> get_byte (page + j) m' = (if lo \<le> va + j \<and> va + j < hi
        then get_byte (base + (off + (va + j - vaddr))) m else 0))"
  proof (cases "lo < hi")
    case False
    then show ?thesis using z f1 by (auto simp: m' m1_def)
  next
    case True
    define o' where "o' = unat (lo - va)"
    define n where "n = unat (hi - lo)"
    have le: "va \<le> lo" "vaddr \<le> lo" "hi \<le> va + 0x1000" "hi \<le> vaddr + filesz" by (auto simp: lo_def hi_def)
    have o': "o' = unat lo - unat va" and n: "n = unat hi - unat lo"
      using le(1) True by (simp_all add: o'_def n_def unat_sub word_le_nat_alt word_less_nat_alt)
    have bd: "o' + n \<le> 4096" "unat lo < unat hi" "unat va \<le> unat lo" "unat vaddr \<le> unat lo"
      "unat hi \<le> unat vaddr + unat filesz"
      using le True uv uf by (simp_all add: o' n word_le_nat_alt word_less_nat_alt)
    have n32: "unat (ucast (hi - lo) :: u32) = n"
      using bd(1) by (simp add: n_def unsigned_ucast_eq take_bit_nat_eq_self)
    have dst: "page + (lo - va) = page + of_nat o'" by (simp add: o'_def)
    let ?src = "base + off + (lo - vaddr)"
    have src: "(?src + of_nat i) AND ADDR_MASK \<noteq> page" if "i < n" for i
    proof -
      let ?k = "lo - vaddr + of_nat i"
      have "unat (lo - vaddr) = unat lo - unat vaddr" using le(2) by (simp add: unat_sub word_le_nat_alt)
      moreover have ui: "unat (of_nat i :: u64) = i" using that bd(1) by (simp add: unat_of_nat_small)
      moreover have "unat lo - unat vaddr + i < unat filesz" using that bd n by linarith
      ultimately have "unat ?k < unat filesz"
        using unat_plus_small[of "lo - vaddr" "of_nat i"] unat_lt_two_power[of filesz] by simp
      then have "?k < filesz" by (simp add: word_less_nat_alt)
      then have "(base + off + ?k) AND ADDR_MASK \<noteq> page" using st by (simp add: staged_def off_def)
      then show ?thesis by (simp add: add.assoc)
    qed
    have m'2: "m' = put_run (page + of_nat o') n (\<lambda>i. get_byte (?src + of_nat i) m1) m1"
      using True memcpy_run[of "ucast (hi - lo)" ?src "page + of_nat o'" m1] src run_page[OF page bd(1)]
      by (simp only: m' dst n32 if_True) blast
    show ?thesis
    proof (intro conjI allI impI)
      show "pm m' = pm m" by (simp add: m'2 m1_def)
      show "frames m' x = frames m x" if "x \<noteq> page" for x
        by (simp only: m'2 put_run_frames[OF page bd(1) that] f1[OF that])
      fix j :: u64 assume j: "unat j < 4096"
      have d: "page + j - (page + of_nat o') = j - of_nat o'" by simp
      have "lo = va + of_nat o'" by (simp add: o'_def)
      then have lo: "lo \<le> va + j \<longleftrightarrow> o' \<le> unat j" and hi: "va + j < hi \<longleftrightarrow> unat j < o' + n"
        using uj[OF j] bd o' n by (auto simp: word_le_nat_alt word_less_nat_alt)
      show "get_byte (page + j) m' = (if lo \<le> va + j \<and> va + j < hi
        then get_byte (base + (off + (va + j - vaddr))) m else 0)"
      proof (cases "o' \<le> unat j")
        case True
        then have "of_nat o' \<le> j" using j by (simp add: word_le_nat_alt unat_of_nat_small)
        then have u: "unat (j - of_nat o') = unat j - o'"
          using True j by (simp add: unat_sub word_le_nat_alt unat_of_nat_small)
        have s: "?src + (j - of_nat o') = base + (off + (va + j - vaddr))"
          using \<open>lo = va + of_nat o'\<close> by (simp add: algebra_simps)
        have g: "get_byte (page + j) m' = (if unat j - o' < n then get_byte (?src + (j - of_nat o')) m1 else 0)"
          using bd(1) z[OF j] by (simp add: m'2 get_byte_put_run d u) (simp add: u[symmetric])
        have "unat j - o' < n \<Longrightarrow> get_byte (?src + (j - of_nat o')) m1 = get_byte (?src + (j - of_nat o')) m"
          using same[of "?src + (j - of_nat o')"] src[of "unat j - o'"] by (simp add: u[symmetric])
        with g lo hi True show ?thesis unfolding s by auto
      next
        case False
        then have "j < of_nat o'" using bd(1) by (simp add: word_less_nat_alt unat_of_nat_small)
        then have "unat (j - of_nat o') = 2 ^ 64 + unat j - o'"
          using False bd(1) by (simp add: unat_sub_if' word_le_nat_alt unat_of_nat_small)
        then have "\<not> unat (j - of_nat o') < n" using bd(1) by simp
        then have "get_byte (page + j) m' = 0" using bd(1) z[OF j] by (simp add: m'2 get_byte_put_run d)
        with lo False show ?thesis by simp
      qed
    qed
  qed
  then show "pm m' = pm m" "\<And>x. x \<noteq> page \<Longrightarrow> frames m' x = frames m x" by auto
  show "get_byte (page + j) m' = seg_byte (mem_bytes base m) (p_offset (mem_bytes ph m)) vaddr filesz (va + j)"
    if "unat j < 4096" for j
    using run that inseg[OF that] by (simp add: seg_byte_def mem_bytes_def off_def)
qed

section \<open>One page of a segment\<close>

text \<open>The page of \<open>w\<close> counts as taken when the translation of its first address is not 0.\<close>

definition taken :: "'a machine_scheme \<Rightarrow> u64 \<Rightarrow> u64 \<Rightarrow> bool" where
  "taken m r w \<longleftrightarrow> paging_virt_to_phys r (w AND ADDR_MASK) m \<noteq> 0"

lemma page_base: "unat (w AND ADDR_MASK) = page_no w * 4096"
  unfolding page_no_def by (rule unat_page_of)

lemma page_no_mask: "page_no (w AND ADDR_MASK) = page_no w" "unat (w AND ADDR_MASK) \<le> unat w"
  using unat_page_of[of w] by (simp_all add: page_no_def)

lemma aligned_mask: "va AND 0xFFF = 0 \<Longrightarrow> va AND ADDR_MASK = (va :: u64)"
  by (metis word_unat_eq_iff page_base page_no_aligned)

lemma user_entry:
  fixes page :: u64
  assumes "page AND 0xFFF = 0"
  defines "e \<equiv> (page AND ADDR_MASK) OR (PAGE_PRESENT OR PAGE_WRITABLE OR PAGE_USER) OR PAGE_PRESENT OR PAGE_USERALLOC"
  shows "e AND PAGE_PRESENT \<noteq> 0" "e AND PAGE_USERALLOC \<noteq> 0" "e AND ADDR_MASK = page"
proof -
  have e: "e = page OR 0x207" by (simp only: e_def aligned_mask[OF assms(1)] or.assoc) simp
  show "e AND PAGE_PRESENT \<noteq> 0" unfolding e by (rule present_or) simp
  show "e AND ADDR_MASK = page" unfolding e by (rule addr_mask_or[OF assms(1)]) simp
  have "e AND PAGE_USERALLOC = (page AND PAGE_USERALLOC) OR PAGE_USERALLOC"
    unfolding e by (simp add: bit.conj_disj_distrib2)
  then show "e AND PAGE_USERALLOC \<noteq> 0" by (simp add: or_eq_0_iff)
qed

lemma virt_to_phys_cong: "pte_of m' r v = pte_of m r v \<Longrightarrow> paging_virt_to_phys r v m' = paging_virt_to_phys r v m"
  by (simp add: virt_to_phys_pte)

lemma load_page_ok:
  assumes ok: "spaces_ok m R" "r \<in> R" and own: "own_pages m R"
    and va: "va AND 0xFFF = 0" "unat va < 2 ^ 48" and nw: "unat vaddr + unat filesz < 2 ^ 64"
    and st: "staged (data_page m R) base ph (p_offset (mem_bytes ph m)) filesz"
    and ld: "load_page base ph vaddr filesz r va m = (res, m')"
  shows "spaces_ok m' R \<and> own_pages m' R \<and> keeps_data m m' R \<and>
      (res = 0 \<or> (res = -20 \<or> res = -21) \<and> free_count (pm m') = 0)"
    and "\<And>r' w. res = 0 \<Longrightarrow> r' \<in> R \<Longrightarrow> unat w < 2 ^ 48 \<Longrightarrow> user_byte m' r' w =
      (if r' = r \<and> page_no w = page_no va \<and> \<not> taken m r va
       then Some (seg_byte (mem_bytes base m) (p_offset (mem_bytes ph m)) vaddr filesz w) else user_byte m r' w)"
    and "\<And>r' w. res = 0 \<Longrightarrow> r' \<in> R \<Longrightarrow> unat w < 2 ^ 48 \<Longrightarrow>
      taken m' r' w \<longleftrightarrow> taken m r' w \<or> r' = r \<and> page_no w = page_no va"
proof -
  have tk: "taken m r va \<longleftrightarrow> paging_virt_to_phys r va m \<noteq> 0" by (simp only: taken_def aligned_mask[OF va(1)])
  let ?off = "p_offset (mem_bytes ph m)"
  have *: "spaces_ok m' R \<and> own_pages m' R \<and> keeps_data m m' R \<and>
      (res = 0 \<or> (res = -20 \<or> res = -21) \<and> free_count (pm m') = 0) \<and>
      (res = 0 \<longrightarrow> (\<forall>r' w. r' \<in> R \<longrightarrow> unat w < 2 ^ 48 \<longrightarrow> user_byte m' r' w =
        (if r' = r \<and> page_no w = page_no va \<and> \<not> taken m r va
         then Some (seg_byte (mem_bytes base m) ?off vaddr filesz w) else user_byte m r' w) \<and>
        (taken m' r' w \<longleftrightarrow> taken m r' w \<or> r' = r \<and> page_no w = page_no va)))"
  proof (cases "paging_virt_to_phys r va m = 0")
    case False
    have "taken m r w" if "unat w < 2 ^ 48" "page_no w = page_no va" for w
    proof -
      have "w AND ADDR_MASK = va"
        by (simp only: word_unat_eq_iff page_base page_no_aligned[OF va(1)] that(2))
      with False show ?thesis by (simp only: taken_def) simp
    qed
    moreover have "taken m r va" using False tk by simp
    moreover have "res = 0" "m' = m" using ld False by (auto simp: load_page_def)
    ultimately show ?thesis using ok own by auto
  next
    case True
    obtain page p where al: "pmm_alloc_page (pm m) = (page, p)" by (cases "pmm_alloc_page (pm m)")
    let ?m1 = "m\<lparr>pm := p\<rparr>"
    show ?thesis
    proof (cases "page = 0")
      case z: True
      have "free_count (pm m) = 0 \<and> p = pm m"
        using pmm.alloc_none[OF spaces_okD(1)[OF ok(1)]] al z alloc_succeeds[OF spaces_okD(1)[OF ok(1)] _ al] by auto
      then show ?thesis using True ld al z ok own by (auto simp: load_page_def)
    next
      case nz: False
      note A = alloc_data[OF ok(1) al nz]
      define m3 where "m3 = fill_page base ph vaddr filesz va page ?m1"
      have mb: "mem_bytes a ?m1 = mem_bytes a m" for a
        by (rule ext) (simp add: mem_bytes_def get_byte_def get_qword_def)
      have "x \<noteq> page" if "data_page m R x" for x using A(4) that by auto
      then have st1: "staged (\<lambda>x. x \<noteq> page) base ph (p_offset (mem_bytes ph ?m1)) filesz"
        using st unfolding mb by (auto simp: staged_def)
      have nw1: "unat va + 4096 < 2 ^ 64" using va(2) by simp
      note F = fill_page_ok[OF A(5) va(1) nw1 nw st1, folded m3_def, unfolded mb]
      have S: "spaces_ok m3 R" "\<And>r v. r \<in> R \<Longrightarrow> pte_of m3 r v = pte_of ?m1 r v"
        "\<And>x. data_page m3 R x = data_page ?m1 R x"
        using same_frames_data[OF A(1,3), of m3] F(1,2) by auto
      have K3: "keeps_data m m3 R"
      proof -
        have "table_free m3 x \<Longrightarrow> table_free ?m1 x" for x using F(1) by (simp add: table_free_def)
        moreover have "data_page m R x \<Longrightarrow> data_page m3 R x \<and> frames m3 x = frames m x" for x
          using keeps_dataD[OF A(2), of x] S(3)[of x] F(2)[of x] A(4) by auto
        ultimately show ?thesis using A(2) by (auto simp: keeps_data_def)
      qed
      obtain q m4 where mp: "paging_map_user_page r va page (PAGE_PRESENT OR PAGE_WRITABLE OR PAGE_USER) m3 = (q, m4)"
        by (cases "paging_map_user_page r va page (PAGE_PRESENT OR PAGE_WRITABLE OR PAGE_USER) m3")
      have res: "res = (if q < 0 then -21 else 0)" "m' = m4"
        using ld True al nz mp by (auto simp: load_page_def Let_def m3_def)
      define e where "e = (page AND ADDR_MASK) OR (PAGE_PRESENT OR PAGE_WRITABLE OR PAGE_USER) OR PAGE_PRESENT OR PAGE_USERALLOC"
      note E = user_entry[OF A(5), folded e_def]
      have mp2: "map_leaf (PAGE_PRESENT OR PAGE_WRITABLE OR PAGE_USER) r va e m3 = (q, m')"
        using mp by (simp only: paging_map_user_page_def e_def res(2))
      note M = map_leaf_ok[OF S(1) ok(2) user_hier E(1) mp2]
      have D: "keeps_data m3 m' R" by (rule map_leaf_data[OF S(1) ok(2) user_hier mp2])
      have K: "keeps_data m m' R" by (rule keeps_data_trans[OF K3 D])
      have pte: "pte_of m' r' w = (if q = 0 \<and> r' = r \<and> same_page va w then Some e else pte_of m r' w)" if "r' \<in> R" for r' w
        using M(3)[OF that] S(2)[OF that] pte_of_cong[of ?m1 m r' w] by simp
      have dp: "data_page m3 R page" using S(3)[of page] A(3) by simp
      have own': "own_pages m' R" unfolding own_pages_def
      proof (intro ballI allI impI)
        fix r' v e' assume r': "r' \<in> R" and e': "pte_of m' r' v = Some e'" "e' AND PAGE_USERALLOC \<noteq> 0"
        show "data_page m' R (e' AND ADDR_MASK)"
        proof (cases "q = 0 \<and> r' = r \<and> same_page va v")
          case True
          with pte[OF r', of v] e' have "e' = e" by simp
          then show ?thesis using keeps_dataD(1)[OF D dp] E(3) by simp
        next
          case False
          with pte[OF r', of v] e' have "pte_of m r' v = Some e'" by auto
          then have "data_page m R (e' AND ADDR_MASK)" using own r' e'(2) unfolding own_pages_def by blast
          then show ?thesis by (rule keeps_dataD(1)[OF K])
        qed
      qed
      have fail: "q = -1 \<Longrightarrow> free_count (pm m') = 0"
        using map_leaf_none[OF S(1) ok(2) user_hier] mp2 by simp
      have good: "user_byte m' r' w = (if r' = r \<and> page_no w = page_no va
           then Some (seg_byte (mem_bytes base m) ?off vaddr filesz w) else user_byte m r' w) \<and>
          (taken m' r' w \<longleftrightarrow> taken m r' w \<or> r' = r \<and> page_no w = page_no va)"
        if q0: "q = 0" and r': "r' \<in> R" and w: "unat w < 2 ^ 48" for r' w
      proof -
        have sp: "same_page va w \<longleftrightarrow> page_no w = page_no va" using same_page_no[OF va(2) w] by auto
        have wm: "unat (w AND ADDR_MASK) < 2 ^ 48" using page_no_mask(2)[of w] w by simp
        have sm: "same_page va (w AND ADDR_MASK) \<longleftrightarrow> page_no w = page_no va"
          using same_page_no[OF va(2) wm] page_no_mask(1)[of w] by auto
        show ?thesis
        proof (cases "r' = r \<and> page_no w = page_no va")
          case True
          have "pte_of m' r' w = Some e" "pte_of m' r' (w AND ADDR_MASK) = Some e"
            using pte[OF r'] q0 True sp sm by auto
          note P = this
          have x: "(e AND ADDR_MASK) OR (w AND 0xFFF) = page + (w AND 0xFFF)"
            using frame_addr(2)[of e w] E(3) by simp
          have lo: "unat (w AND 0xFFF) < 4096" by (simp add: unat_and_FFF)
          have "get_byte (page + (w AND 0xFFF)) m' = get_byte (page + (w AND 0xFFF)) m3"
            using get_byte_frames_cong[of m' "page + (w AND 0xFFF)" m3] page_plus(1)[OF A(5) lo] keeps_dataD(2)[OF D dp]
            by simp
          also have "\<dots> = seg_byte (mem_bytes base m) ?off vaddr filesz w"
            using F(3)[OF lo] page_eq_plus[OF va(1), of w] True by simp
          finally have "user_byte m' r' w = Some (seg_byte (mem_bytes base m) ?off vaddr filesz w)"
            unfolding user_byte_def P(1) option.case x using E(2) by simp
          moreover have "taken m' r' w"
          proof -
            have "(w AND ADDR_MASK) AND 0xFFF = 0" by (auto simp: bit_eq_iff bit_simps)
            then show ?thesis unfolding taken_def virt_to_phys_pte P(2) option.case E(3) using nz by simp
          qed
          ultimately show ?thesis using True by simp
        next
          case False
          then have "pte_of m' r' w = pte_of m r' w" "pte_of m' r' (w AND ADDR_MASK) = pte_of m r' (w AND ADDR_MASK)"
            using pte[OF r'] sp sm by auto
          with False user_byte_keeps[OF own r' K, of w] virt_to_phys_cong[of m' r' "w AND ADDR_MASK" m] show ?thesis
            by (auto simp: taken_def)
        qed
      qed
      have q: "q = 0 \<or> q = -1" by (rule M(2))
      then have "res = 0 \<longleftrightarrow> q = 0" "res = 0 \<or> res = -21 \<and> q = -1" using res(1) by auto
      note qr = this
      have nt: "\<not> taken m r va" using True tk by simp
      show ?thesis
      proof (intro conjI)
        show "res = 0 \<or> (res = -20 \<or> res = -21) \<and> free_count (pm m') = 0" using qr fail by auto
        show "res = 0 \<longrightarrow> (\<forall>r' w. r' \<in> R \<longrightarrow> unat w < 2 ^ 48 \<longrightarrow> user_byte m' r' w =
          (if r' = r \<and> page_no w = page_no va \<and> \<not> taken m r va
           then Some (seg_byte (mem_bytes base m) ?off vaddr filesz w) else user_byte m r' w) \<and>
          (taken m' r' w \<longleftrightarrow> taken m r' w \<or> r' = r \<and> page_no w = page_no va))"
          using qr(1) good nt by simp
      qed (use M(1) own' K in simp_all)
    qed
  qed
  from * show "spaces_ok m' R \<and> own_pages m' R \<and> keeps_data m m' R \<and>
      (res = 0 \<or> (res = -20 \<or> res = -21) \<and> free_count (pm m') = 0)" by blast
  fix r' and w :: u64 assume "res = 0" "r' \<in> R" "unat w < 2 ^ 48"
  with * show "user_byte m' r' w =
      (if r' = r \<and> page_no w = page_no va \<and> \<not> taken m r va
       then Some (seg_byte (mem_bytes base m) ?off vaddr filesz w) else user_byte m r' w)"
    "taken m' r' w \<longleftrightarrow> taken m r' w \<or> r' = r \<and> page_no w = page_no va" by blast+
qed

section \<open>A segment\<close>

lemma taken_page:
  assumes "page_no v = page_no w"
  shows "taken m r v = taken m r w"
proof -
  have "v AND ADDR_MASK = w AND ADDR_MASK" by (simp only: word_unat_eq_iff page_base assms)
  then show ?thesis by (simp only: taken_def)
qed

lemma staged_keeps:
  assumes st: "staged (data_page m R) base ph (p_offset (mem_bytes ph m)) filesz" and k: "keeps_data m m' R"
  shows "p_offset (mem_bytes ph m') = p_offset (mem_bytes ph m)"
    and "staged (data_page m' R) base ph (p_offset (mem_bytes ph m')) filesz"
    and "unat vaddr + unat filesz < 2 ^ 64 \<Longrightarrow> seg_byte (mem_bytes base m') (p_offset (mem_bytes ph m)) vaddr filesz v =
      seg_byte (mem_bytes base m) (p_offset (mem_bytes ph m)) vaddr filesz v"
proof -
  have "mem_bytes ph m' (8 + j) = mem_bytes ph m (8 + j)" if "j < 8" for j
    by (rule mem_bytes_cong, rule keeps_dataD(2)[OF k]) (use st that in \<open>simp add: staged_def del: of_nat_add\<close>)
  then show o: "p_offset (mem_bytes ph m') = p_offset (mem_bytes ph m)" unfolding p_offset_def by (rule le64_cong)
  show "staged (data_page m' R) base ph (p_offset (mem_bytes ph m')) filesz"
    unfolding o using st keeps_dataD(1)[OF k] by (simp add: staged_def)
  assume nw: "unat vaddr + unat filesz < 2 ^ 64"
  let ?off = "p_offset (mem_bytes ph m)"
  have "mem_bytes base m' (unat (?off + (v - vaddr))) = mem_bytes base m (unat (?off + (v - vaddr)))"
    if "vaddr \<le> v" "v < vaddr + filesz"
  proof (rule mem_bytes_cong, rule keeps_dataD(2)[OF k])
    have "unat (v - vaddr) = unat v - unat vaddr" using that(1) by (simp add: unat_sub word_le_nat_alt)
    moreover have "unat v < unat vaddr + unat filesz"
      using that(2) unat_plus_small[of vaddr filesz] nw by (simp add: word_less_nat_alt)
    ultimately have "v - vaddr < filesz" using that(1) by (simp add: word_less_nat_alt word_le_nat_alt)
    with st have "data_page m R ((base + ?off + (v - vaddr)) AND ADDR_MASK)" by (simp add: staged_def)
    then show "data_page m R ((base + of_nat (unat (?off + (v - vaddr)))) AND ADDR_MASK)" by (simp add: add.assoc)
  qed
  then show "seg_byte (mem_bytes base m') ?off vaddr filesz v = seg_byte (mem_bytes base m) ?off vaddr filesz v"
    by (simp add: seg_byte_def)
qed

text \<open>
  \<open>loaded m m' R r res P g\<close>: loading took \<open>m\<close> to \<open>m'\<close> with answer \<open>res\<close>; on success the pages \<open>P\<close> of the
  space \<open>r\<close> are taken, the ones that were free show the bytes \<open>g\<close>, and nothing else changed.
\<close>

definition adds_pages :: "'a machine_scheme \<Rightarrow> 'a machine_scheme \<Rightarrow> u64 set \<Rightarrow> u64 \<Rightarrow> nat set \<Rightarrow> (u64 \<Rightarrow> u8) \<Rightarrow> bool" where
  "adds_pages m m' R r P g \<longleftrightarrow> (\<forall>r'\<in>R. \<forall>w. unat w < 2 ^ 48 \<longrightarrow>
     user_byte m' r' w = (if r' = r \<and> page_no w \<in> P \<and> \<not> taken m r w then Some (g w) else user_byte m r' w) \<and>
     (taken m' r' w \<longleftrightarrow> taken m r' w \<or> r' = r \<and> page_no w \<in> P))"

definition loaded :: "'a machine_scheme \<Rightarrow> 'a machine_scheme \<Rightarrow> u64 set \<Rightarrow> u64 \<Rightarrow> int \<Rightarrow> nat set \<Rightarrow> (u64 \<Rightarrow> u8) \<Rightarrow> bool" where
  "loaded m m' R r res P g \<longleftrightarrow> spaces_ok m' R \<and> own_pages m' R \<and> keeps_data m m' R \<and>
     (res = 0 \<or> (res = -20 \<or> res = -21) \<and> free_count (pm m') = 0) \<and> (res = 0 \<longrightarrow> adds_pages m m' R r P g)"

lemma loadedD:
  assumes "loaded m m' R r res P g"
  shows "spaces_ok m' R" "own_pages m' R" "keeps_data m m' R" "res \<noteq> 0 \<Longrightarrow> res < 0"
    "res \<noteq> 0 \<Longrightarrow> free_count (pm m') = 0" "res = 0 \<Longrightarrow> adds_pages m m' R r P g"
  using assms by (auto simp: loaded_def)

lemma adds_pagesD:
  assumes "adds_pages m m' R r P g" "r' \<in> R" "unat w < 2 ^ 48"
  shows "user_byte m' r' w = (if r' = r \<and> page_no w \<in> P \<and> \<not> taken m r w then Some (g w) else user_byte m r' w)"
    and "taken m' r' w \<longleftrightarrow> taken m r' w \<or> r' = r \<and> page_no w \<in> P"
  using assms by (auto simp: adds_pages_def)

lemma adds_pages_trans:
  assumes 1: "adds_pages m m1 R r P g" and 2: "adds_pages m1 m2 R r Q g" and r: "r \<in> R"
  shows "adds_pages m m2 R r (P \<union> Q) g"
  unfolding adds_pages_def
proof (intro ballI allI impI)
  fix r' and w :: u64 assume a: "r' \<in> R" "unat w < 2 ^ 48"
  note A = adds_pagesD[OF 1 a] adds_pagesD(2)[OF 1 r a(2)] adds_pagesD[OF 2 a]
  show "user_byte m2 r' w = (if r' = r \<and> page_no w \<in> P \<union> Q \<and> \<not> taken m r w then Some (g w) else user_byte m r' w) \<and>
      (taken m2 r' w \<longleftrightarrow> taken m r' w \<or> r' = r \<and> page_no w \<in> P \<union> Q)"
    unfolding A by auto
qed

lemma loaded_trans:
  assumes "loaded m m1 R r 0 P g" "loaded m1 m2 R r res Q g" "r \<in> R"
  shows "loaded m m2 R r res (P \<union> Q) g"
  using assms adds_pages_trans[of m m1 R r P g m2 Q] keeps_data_trans[of m m1 R m2] by (auto simp: loaded_def)

lemma loaded_refl: "spaces_ok m R \<Longrightarrow> own_pages m R \<Longrightarrow> loaded m m R r 0 {} g"
  by (simp add: loaded_def adds_pages_def)

text \<open>The program header at \<open>ph\<close> and the file part of its segment, in data pages.\<close>

definition staged_segment :: "'a machine_scheme \<Rightarrow> u64 set \<Rightarrow> u64 \<Rightarrow> u64 \<Rightarrow> u64 \<Rightarrow> u64 \<Rightarrow> bool" where
  "staged_segment m R base ph vaddr filesz \<longleftrightarrow> unat vaddr + unat filesz < 2 ^ 64 \<and>
     staged (data_page m R) base ph (p_offset (mem_bytes ph m)) filesz"

abbreviation segment_bytes :: "'a machine_scheme \<Rightarrow> u64 \<Rightarrow> u64 \<Rightarrow> u64 \<Rightarrow> u64 \<Rightarrow> u64 \<Rightarrow> u8" where
  "segment_bytes m base ph vaddr filesz \<equiv> seg_byte (mem_bytes base m) (p_offset (mem_bytes ph m)) vaddr filesz"

lemma staged_segment_keeps:
  assumes st: "staged_segment m R base ph vaddr filesz" and k: "keeps_data m m' R"
  shows "staged_segment m' R base ph vaddr filesz"
    and "segment_bytes m' base ph vaddr filesz = segment_bytes m base ph vaddr filesz"
proof -
  have st': "staged (data_page m R) base ph (p_offset (mem_bytes ph m)) filesz" "unat vaddr + unat filesz < 2 ^ 64"
    using st by (auto simp: staged_segment_def)
  note S = staged_keeps[OF st'(1) k]
  show "staged_segment m' R base ph vaddr filesz" unfolding staged_segment_def using S(2) st'(2) by blast
  show "segment_bytes m' base ph vaddr filesz = segment_bytes m base ph vaddr filesz"
    unfolding S(1) by (rule ext) (rule S(3)[OF st'(2)])
qed

lemma load_page_loaded:
  assumes "spaces_ok m R" "r \<in> R" "own_pages m R" "staged_segment m R base ph vaddr filesz"
    and "va AND 0xFFF = 0" "unat va < 2 ^ 48" and ld: "load_page base ph vaddr filesz r va m = (res, m')"
  shows "loaded m m' R r res {page_no va} (segment_bytes m base ph vaddr filesz)"
proof -
  have st: "unat vaddr + unat filesz < 2 ^ 64" "staged (data_page m R) base ph (p_offset (mem_bytes ph m)) filesz"
    using assms(4) by (auto simp: staged_segment_def)
  note L = load_page_ok[OF assms(1-3,5,6) st ld]
  have tk: "page_no w = page_no va \<and> \<not> taken m r w \<longleftrightarrow> page_no w = page_no va \<and> \<not> taken m r va" for w
    using taken_page[of w va m r] by blast
  have "adds_pages m m' R r {page_no va} (segment_bytes m base ph vaddr filesz)" if "res = 0"
    unfolding adds_pages_def
  proof (intro ballI allI impI)
    fix r' and w :: u64 assume a: "r' \<in> R" "unat w < 2 ^ 48"
    show "user_byte m' r' w = (if r' = r \<and> page_no w \<in> {page_no va} \<and> \<not> taken m r w
        then Some (segment_bytes m base ph vaddr filesz w) else user_byte m r' w) \<and>
      (taken m' r' w \<longleftrightarrow> taken m r' w \<or> r' = r \<and> page_no w \<in> {page_no va})"
      unfolding L(2,3)[OF that a] by (simp only: singleton_iff tk simp_thms)
  qed
  with L(1) show ?thesis unfolding loaded_def by blast
qed

lemma load_pages_loaded:
  assumes "spaces_ok m R" "r \<in> R" "own_pages m R" "staged_segment m R base ph vaddr filesz"
    and "\<forall>va\<in>set vas. va AND 0xFFF = 0 \<and> unat va < 2 ^ 48"
    and "load_pages base ph vaddr filesz r vas m = (res, m')"
  shows "loaded m m' R r res (page_no ` set vas) (segment_bytes m base ph vaddr filesz)"
  using assms
proof (induction vas arbitrary: m)
  case Nil
  then show ?case by (simp add: loaded_refl)
next
  case (Cons va vas)
  obtain q m1 where l: "load_page base ph vaddr filesz r va m = (q, m1)" by (cases "load_page base ph vaddr filesz r va m")
  have va: "va AND 0xFFF = 0" "unat va < 2 ^ 48" and vas: "\<forall>va\<in>set vas. va AND 0xFFF = 0 \<and> unat va < 2 ^ 48"
    using Cons.prems(5) by simp_all
  note L = load_page_loaded[OF Cons.prems(1-4) va l]
  show ?case
  proof (cases "q = 0")
    case False
    then have "res = q" "m' = m1" using loadedD(4)[OF L] Cons.prems(6) l by auto
    with L False show ?thesis by (simp add: loaded_def)
  next
    case True
    note S = staged_segment_keeps[OF Cons.prems(4) loadedD(3)[OF L]]
    have rest: "load_pages base ph vaddr filesz r vas m1 = (res, m')" using Cons.prems(6) l True by simp
    have "loaded m1 m' R r res (page_no ` set vas) (segment_bytes m base ph vaddr filesz)"
      using Cons.IH[OF loadedD(1)[OF L] Cons.prems(2) loadedD(2)[OF L] S(1) vas rest] unfolding S(2) .
    from loaded_trans[OF L[unfolded True] this Cons.prems(2)] show ?thesis by simp
  qed
qed

lemma page_range_pages:
  assumes a: "a AND 0xFFF = 0" and b: "b AND 0xFFF = 0"
  shows "page_no ` set (page_range a b) = {page_no a..<page_no b}"
    and "\<forall>va\<in>set (page_range a b). va AND 0xFFF = 0 \<and> va < b"
proof -
  have *: "page_no ` set (page_range a b) = {page_no a..<page_no b} \<and> (\<forall>va\<in>set (page_range a b). va AND 0xFFF = 0 \<and> va < b)"
    using a
  proof (induction "page_no b - page_no a" arbitrary: a)
    case 0
    then have "\<not> a < b" using page_no_aligned[OF 0(2)] page_no_aligned[OF b] by (simp add: word_less_nat_alt)
    then show ?case using 0 by (simp add: page_range_def)
  next
    case (Suc n)
    have lt: "a < b" using Suc(2) page_no_aligned[OF Suc(3)] page_no_aligned[OF b] by (simp add: word_less_nat_alt)
    have bb: "page_no b * 4096 < 2 ^ 64" using unat_lt_two_power[of b] page_no_aligned[OF b] by simp
    have ua: "unat (a + 0x1000) = unat a + 4096"
    proof -
      have "Suc (page_no a) \<le> page_no b" using Suc(2) by simp
      then have "unat a + 4096 < 2 ^ 64" using bb page_no_aligned[OF Suc(3)] by simp
      then show ?thesis using unat_plus_small[of a "0x1000"] by simp
    qed
    then have p: "page_no (a + 0x1000) = Suc (page_no a)" by (simp add: page_no_def)
    have al: "(a + 0x1000) AND 0xFFF = 0"
    proof -
      have "unat ((a + 0x1000) AND 0xFFF) = (page_no a * 4096 + 4096) mod 4096"
        by (simp only: unat_and_FFF ua page_no_aligned[OF Suc(3)])
      then show ?thesis by (simp add: word_unat_eq_iff)
    qed
    have "n = page_no b - page_no (a + 0x1000)" using Suc(2) p by simp
    from Suc(1)[OF this al] have IH: "page_no ` set (page_range (a + 0x1000) b) = {Suc (page_no a)..<page_no b}"
      "\<forall>va\<in>set (page_range (a + 0x1000) b). va AND 0xFFF = 0 \<and> va < b" unfolding p by auto
    have "{page_no a..<page_no b} = insert (page_no a) {Suc (page_no a)..<page_no b}" using Suc(2) by auto
    with IH lt Suc(3) show ?case unfolding page_range_step[OF Suc(3) b] by simp
  qed
  then show "page_no ` set (page_range a b) = {page_no a..<page_no b}"
    "\<forall>va\<in>set (page_range a b). va AND 0xFFF = 0 \<and> va < b" by auto
qed

lemma length_page_range:
  assumes a: "a AND 0xFFF = 0" and b: "b AND 0xFFF = 0"
  shows "length (page_range a b) = page_no b - page_no a"
proof (cases "a < b")
  case True
  then have "unat (b - a) = page_no b * 4096 - page_no a * 4096"
    using page_no_aligned[OF a] page_no_aligned[OF b] by (simp add: unat_sub word_less_nat_alt word_le_nat_alt)
  also have "\<dots> = (page_no b - page_no a) * 4096" by (simp add: diff_mult_distrib)
  finally have "unat ((b - a) div 0x1000) = page_no b - page_no a" by (simp add: unat_div)
  then show ?thesis using True by (simp add: page_range_def)
next
  case False
  then show ?thesis using page_no_aligned[OF a] page_no_aligned[OF b] by (simp add: page_range_def word_less_nat_alt)
qed

section \<open>Enough memory\<close>

text \<open>Loading a page takes at most four frames: the page and three tables.\<close>

definition takes :: "nat \<Rightarrow> 'a machine_scheme \<Rightarrow> 'a machine_scheme \<Rightarrow> bool" where
  "takes n m m' \<longleftrightarrow> (pmm_inv (pm m) \<longrightarrow> pmm_inv (pm m') \<and> free_count (pm m) \<le> free_count (pm m') + n)"

lemma takes_refl [simp]: "takes 0 m m"
  by (simp add: takes_def)

lemma takes_trans: "takes a m m1 \<Longrightarrow> takes b m1 m2 \<Longrightarrow> takes (a + b) m m2"
  by (auto simp: takes_def)

lemma takes_weaken: "takes a m m' \<Longrightarrow> a \<le> b \<Longrightarrow> takes b m m'"
  by (auto simp: takes_def)

lemma takes_same: "pm m1 = pm m \<Longrightarrow> takes a m1 m2 \<Longrightarrow> takes a m m2"
  by (simp add: takes_def)

lemma takes_alloc: "pmm_alloc_page (pm m) = (a, p) \<Longrightarrow> takes 1 m (m\<lparr>pm := p\<rparr>)"
  using free_count_alloc[of "pm m" a p] pmm.alloc_some[of "pm m" a p] pmm.alloc_none[of "pm m" p]
  by (cases "a = 0") (auto simp: takes_def)

lemma takes_pt_page: "alloc_pt_page m = (a, m') \<Longrightarrow> takes 1 m m'"
  using takes_alloc[of m] by (auto simp: alloc_pt_page_def zero_frame_def takes_def split: prod.splits if_splits)

lemma takes_get_or_create: "get_or_create h t i m = (res, m') \<Longrightarrow> takes 1 m m'"
  using takes_pt_page[of m] by (auto simp: get_or_create_def takes_def split: prod.splits if_splits)

lemma takes_map_leaf:
  assumes mp: "map_leaf h r v e m = (res, m')"
  shows "takes 3 m m'"
proof -
  obtain o1 m1 where g1: "get_or_create h r (pml4_idx v) m = (o1, m1)" by (cases "get_or_create h r (pml4_idx v) m")
  note 1 = takes_get_or_create[OF g1]
  show ?thesis
  proof (cases o1)
    case None
    then show ?thesis using mp g1 takes_weaken[OF 1, of 3] by (simp add: map_leaf_def)
  next
    case (Some t1)
    obtain o2 m2 where g2: "get_or_create h t1 (pdpt_idx v) m1 = (o2, m2)" by (cases "get_or_create h t1 (pdpt_idx v) m1")
    note 2 = takes_trans[OF 1 takes_get_or_create[OF g2]]
    show ?thesis
    proof (cases o2)
      case None
      then show ?thesis using mp g1 g2 \<open>o1 = Some t1\<close> takes_weaken[OF 2, of 3] by (simp add: map_leaf_def)
    next
      case (Some t2)
      obtain o3 m3 where g3: "get_or_create h t2 (pd_idx v) m2 = (o3, m3)" by (cases "get_or_create h t2 (pd_idx v) m2")
      from takes_trans[OF 2 takes_get_or_create[OF g3]] have "takes 3 m m3" by (rule takes_weaken) simp
      then show ?thesis using mp g1 g2 g3 \<open>o1 = Some t1\<close> Some
        by (cases o3) (auto simp: map_leaf_def takes_def)
    qed
  qed
qed

lemma pm_fill_page: "pm (fill_page base ph vaddr filesz va page m) = pm m"
proof -
  have "pm (fold (\<lambda>i m. put_byte (dst + of_nat i) (get_byte (src + of_nat i) m) m) is m) = pm m" for dst src "is" and m :: "'a machine_scheme"
    by (induction "is" arbitrary: m) simp_all
  then show ?thesis by (simp add: fill_page_def Let_def memset_run memcpy_local_def)
qed

lemma takes_load_page:
  assumes "load_page base ph vaddr filesz r va m = (res, m')"
  shows "takes 4 m m'"
proof -
  obtain page p where al: "pmm_alloc_page (pm m) = (page, p)" by (cases "pmm_alloc_page (pm m)")
  note 1 = takes_alloc[OF al]
  let ?f = "fill_page base ph vaddr filesz va page (m\<lparr>pm := p\<rparr>)"
  obtain q m1 where mp: "paging_map_user_page r va page (PAGE_PRESENT OR PAGE_WRITABLE OR PAGE_USER) ?f = (q, m1)"
    by (cases "paging_map_user_page r va page (PAGE_PRESENT OR PAGE_WRITABLE OR PAGE_USER) ?f")
  have "takes 3 ?f m1" using takes_map_leaf mp unfolding paging_map_user_page_def by blast
  then have "takes 3 (m\<lparr>pm := p\<rparr>) m1" by (rule takes_same[rotated]) (simp add: pm_fill_page)
  from takes_trans[OF 1 this] have "takes 4 m m1" by (rule takes_weaken) simp
  then show ?thesis
    using assms al mp takes_weaken[OF 1, of 4] takes_weaken[OF takes_refl[of m], of 4]
    by (auto simp: load_page_def Let_def split: if_splits)
qed

lemma takes_load_pages: "load_pages base ph vaddr filesz r vas m = (res, m') \<Longrightarrow> takes (4 * length vas) m m'"
proof (induction vas arbitrary: m)
  case (Cons va vas)
  obtain q m1 where l: "load_page base ph vaddr filesz r va m = (q, m1)" by (cases "load_page base ph vaddr filesz r va m")
  note 1 = takes_load_page[OF l]
  show ?case
  proof (cases "q < 0")
    case True
    then show ?thesis using Cons.prems l takes_weaken[OF 1, of "4 * length (va # vas)"] by simp
  next
    case False
    then have "takes (4 * length vas) m1 m'" using Cons.IH Cons.prems l by simp
    from takes_trans[OF 1 this] show ?thesis by simp
  qed
qed simp

section \<open>The image of a program file\<close>

definition phdr :: "bytes \<Rightarrow> nat \<Rightarrow> bytes" where
  "phdr f i = (\<lambda>j. f (unat (e_phoff f) + i * unat (e_phentsize f) + j))"

definition is_load :: "bytes \<Rightarrow> bool" where
  "is_load h \<longleftrightarrow> p_type h = PT_LOAD \<and> p_memsz h \<noteq> 0"

definition seg_pages :: "bytes \<Rightarrow> nat set" where
  "seg_pages h = (if is_load h then {page_no (p_vaddr h)..<(unat (p_vaddr h) + unat (p_memsz h) + 4095) div 4096} else {})"

text \<open>What one segment does to one address: whether its page is taken, and its byte.\<close>

definition overlay :: "bytes \<Rightarrow> bytes \<Rightarrow> u64 \<Rightarrow> bool \<times> u8 option \<Rightarrow> bool \<times> u8 option" where
  "overlay f h v = (\<lambda>(tk, b).
     if page_no v \<in> seg_pages h
     then (True, if tk then b else Some (seg_byte f (p_offset h) (p_vaddr h) (p_filesz h) v))
     else (tk, b))"

definition program_image :: "bytes \<Rightarrow> u64 \<Rightarrow> bool \<times> u8 option \<Rightarrow> bool \<times> u8 option" where
  "program_image f v = fold (\<lambda>i. overlay f (phdr f i) v) [0..<unat (e_phnum f)]"

text \<open>A file of \<open>len\<close> bytes whose headers and segments lie inside it and below \<open>2 ^ 48\<close>.\<close>

definition segment_fits :: "nat \<Rightarrow> bytes \<Rightarrow> bool" where
  "segment_fits len h \<longleftrightarrow> unat (p_offset h) + unat (p_filesz h) \<le> len \<and>
     unat (p_vaddr h) + unat (p_memsz h) + 4096 \<le> 2 ^ 48 \<and> unat (p_vaddr h) + unat (p_filesz h) < 2 ^ 64"

definition elf_fits :: "bytes \<Rightarrow> nat \<Rightarrow> bool" where
  "elf_fits f len \<longleftrightarrow> 64 \<le> len \<and> len < 2 ^ 32 \<and> (\<forall>i<unat (e_phnum f).
     unat (e_phoff f) + i * unat (e_phentsize f) + 56 \<le> len \<and> (is_load (phdr f i) \<longrightarrow> segment_fits len (phdr f i)))"

definition in_buffer :: "'a machine_scheme \<Rightarrow> u64 set \<Rightarrow> u64 \<Rightarrow> nat \<Rightarrow> bytes \<Rightarrow> bool" where
  "in_buffer m R base len f \<longleftrightarrow>
     (\<forall>k<len. data_page m R ((base + of_nat k) AND ADDR_MASK) \<and> mem_bytes base m k = f k)"

lemma in_buffer_keeps: "in_buffer m R base len f \<Longrightarrow> keeps_data m m' R \<Longrightarrow> in_buffer m' R base len f"
  using mem_bytes_cong[of m' base _ m] keeps_dataD[of m m' R] by (simp add: in_buffer_def)

lemma le16_cong: "(\<And>j. j < 2 \<Longrightarrow> b (off + j) = b' (off + j)) \<Longrightarrow> le16 b off = le16 b' off"
proof -
  assume a: "\<And>j. j < 2 \<Longrightarrow> b (off + j) = b' (off + j)"
  show ?thesis using a[of 0] a[of 1] by (simp add: le16_def)
qed

lemma file_header:
  assumes "in_buffer m R base len f" "64 \<le> len"
  shows "e_phnum (mem_bytes base m) = e_phnum f" "e_phoff (mem_bytes base m) = e_phoff f"
    "e_phentsize (mem_bytes base m) = e_phentsize f"
  unfolding e_phnum_def e_phoff_def e_phentsize_def
  by (rule le16_cong le64_cong; use assms in \<open>simp add: in_buffer_def\<close>)+

lemma phdr_fields:
  assumes "\<forall>j<56. h' j = h j"
  shows "p_type h' = p_type h" "p_offset h' = p_offset h" "p_vaddr h' = p_vaddr h" "p_filesz h' = p_filesz h"
    "p_memsz h' = p_memsz h"
  unfolding p_type_def p_offset_def p_vaddr_def p_filesz_def p_memsz_def
  by (rule le32_cong le64_cong; use assms in simp)+

lemma load_segment_loaded:
  assumes ok: "spaces_ok m R" "r \<in> R" "own_pages m R" and buf: "in_buffer m R base len f" and fits: "elf_fits f len"
    and i: "i < unat (e_phnum f)" and ld: "load_segment base r (base + e_phoff f) i m = (res, m')"
  defines "h \<equiv> phdr f i"
  shows "loaded m m' R r res (seg_pages h) (seg_byte f (p_offset h) (p_vaddr h) (p_filesz h)) \<and>
    takes (4 * card (seg_pages h)) m m'"
proof -
  have len: "64 \<le> len" "len < 2 ^ 32" using fits by (auto simp: elf_fits_def)
  let ?o = "unat (e_phoff f) + i * unat (e_phentsize f)"
  have o: "?o + 56 \<le> len" and sf: "is_load h \<Longrightarrow> segment_fits len h" using fits i by (auto simp: elf_fits_def h_def)
  define ph where "ph = phdr_at base (base + e_phoff f) i m"
  have ph: "ph + of_nat j = base + of_nat (?o + j)" for j
    by (simp add: ph_def phdr_at_def file_header[OF buf len(1)] add.assoc)
  have hb: "\<forall>j<56. mem_bytes ph m j = h j"
  proof (intro allI impI)
    fix j :: nat assume "j < 56"
    then have "mem_bytes base m (?o + j) = f (?o + j)" using buf o unfolding in_buffer_def by simp
    then show "mem_bytes ph m j = h j" by (simp only: mem_bytes_def ph h_def phdr_def)
  qed
  note H = phdr_fields[of "mem_bytes ph m" h, OF hb]
  show ?thesis
  proof (cases "is_load h")
    case False
    then have "res = 0" "m' = m" using ld by (auto simp: load_segment_def Let_def ph_def[symmetric] H is_load_def)
    then show ?thesis using False ok by (simp add: seg_pages_def loaded_refl)
  next
    case True
    note F = sf[OF True, unfolded segment_fits_def]
    define lo hi where "lo = p_vaddr h AND NOT 0xFFF" and "hi = (p_vaddr h + p_memsz h + 0xFFF) AND NOT 0xFFF"
    have ld2: "load_pages base ph (p_vaddr h) (p_filesz h) r (page_range lo hi) m = (res, m')"
      using ld True by (simp add: load_segment_def Let_def ph_def[symmetric] H is_load_def lo_def hi_def)
    have al: "lo AND 0xFFF = 0" "hi AND 0xFFF = 0" unfolding lo_def hi_def by (auto simp: bit_eq_iff bit_simps)
    have "unat (p_vaddr h + p_memsz h) = unat (p_vaddr h) + unat (p_memsz h)"
      by (rule unat_plus_small) (use F in simp)
    then have u: "unat (p_vaddr h + p_memsz h + 0xFFF) = unat (p_vaddr h) + unat (p_memsz h) + 4095"
      using unat_plus_small[of "p_vaddr h + p_memsz h" "0xFFF"] F by simp
    have pg: "page_no lo = page_no (p_vaddr h)" "page_no hi = (unat (p_vaddr h) + unat (p_memsz h) + 4095) div 4096"
      unfolding lo_def hi_def page_no_mask(1) by (simp_all add: page_no_def u)
    have "unat hi \<le> 2 ^ 48" unfolding hi_def using page_no_mask(2)[of "p_vaddr h + p_memsz h + 0xFFF"] u F by simp
    then have vas: "\<forall>va\<in>set (page_range lo hi). va AND 0xFFF = 0 \<and> unat va < 2 ^ 48"
      using page_range_pages(2)[OF al] by (auto simp: word_less_nat_alt)
    have inb: "data_page m R ((base + p_offset h + k) AND ADDR_MASK)" "mem_bytes base m (unat (p_offset h + k)) = f (unat (p_offset h + k))"
      if "k < p_filesz h" for k
    proof -
      have "unat k < unat (p_filesz h)" using that by (simp add: word_less_nat_alt)
      then have lt: "unat (p_offset h) + unat k < len" using F by simp
      then have "unat (p_offset h + k) = unat (p_offset h) + unat k" using unat_plus_small[of "p_offset h" k] len(2) by simp
      then have "unat (p_offset h + k) < len" using lt by simp
      with buf have "data_page m R ((base + of_nat (unat (p_offset h + k))) AND ADDR_MASK)"
        "mem_bytes base m (unat (p_offset h + k)) = f (unat (p_offset h + k))" unfolding in_buffer_def by blast+
      then show "data_page m R ((base + p_offset h + k) AND ADDR_MASK)"
        "mem_bytes base m (unat (p_offset h + k)) = f (unat (p_offset h + k))" by (simp_all add: add.assoc)
    qed
    have "staged_segment m R base ph (p_vaddr h) (p_filesz h)"
      unfolding staged_segment_def staged_def H
    proof (intro conjI allI impI)
      fix j :: nat assume "j < 56"
      then show "data_page m R ((ph + of_nat j) AND ADDR_MASK)"
        using buf o unfolding ph in_buffer_def by (simp del: of_nat_add)
    qed (use F inb in auto)
    note L = load_pages_loaded[OF ok this vas ld2]
    have "length (page_range lo hi) = card (seg_pages h)"
      using True length_page_range[OF al] pg by (simp add: seg_pages_def)
    then have T: "takes (4 * card (seg_pages h)) m m'" using takes_load_pages[OF ld2] by simp
    have "segment_bytes m base ph (p_vaddr h) (p_filesz h) = seg_byte f (p_offset h) (p_vaddr h) (p_filesz h)"
    proof
      fix v
      have "v - p_vaddr h < p_filesz h" if v: "p_vaddr h \<le> v" "v < p_vaddr h + p_filesz h"
      proof -
        have "unat (v - p_vaddr h) = unat v - unat (p_vaddr h)" using v(1) by (simp add: unat_sub word_le_nat_alt)
        moreover have "unat v < unat (p_vaddr h) + unat (p_filesz h)"
          using v(2) unat_plus_small[of "p_vaddr h" "p_filesz h"] F by (simp add: word_less_nat_alt)
        ultimately show ?thesis using v(1) by (simp add: word_less_nat_alt word_le_nat_alt)
      qed
      then show "segment_bytes m base ph (p_vaddr h) (p_filesz h) v = seg_byte f (p_offset h) (p_vaddr h) (p_filesz h) v"
        unfolding seg_byte_def H using inb(2) by simp
    qed
    with L T show ?thesis using True unfolding page_range_pages(1)[OF al] pg by (simp add: seg_pages_def)
  qed
qed

section \<open>The whole file\<close>

definition needed_pages :: "bytes \<Rightarrow> nat list \<Rightarrow> nat" where
  "needed_pages f is = sum_list (map (\<lambda>i. card (seg_pages (phdr f i))) is)"

text \<open>
  \<open>image_loaded m m' R r res f is\<close>: \<open>load_segments_mapped\<close> worked through the program headers \<open>is\<close>
  of the file.
\<close>

definition image_loaded ::
    "'a machine_scheme \<Rightarrow> 'a machine_scheme \<Rightarrow> u64 set \<Rightarrow> u64 \<Rightarrow> int \<Rightarrow> bytes \<Rightarrow> nat list \<Rightarrow> bool" where
  "image_loaded m m' R r res f is \<longleftrightarrow> spaces_ok m' R \<and> own_pages m' R \<and> keeps_data m m' R \<and>
     (res = 0 \<or> (res = -20 \<or> res = -21) \<and> free_count (pm m') = 0) \<and>
     (res = 0 \<longrightarrow> (\<forall>r'\<in>R. \<forall>v. unat v < 2 ^ 48 \<longrightarrow> (taken m' r' v, user_byte m' r' v) =
        (if r' = r then fold (\<lambda>i. overlay f (phdr f i) v) is (taken m r v, user_byte m r v)
         else (taken m r' v, user_byte m r' v))))"

lemma adds_overlay:
  assumes "adds_pages m m' R r (seg_pages h) (seg_byte f (p_offset h) (p_vaddr h) (p_filesz h))" "r' \<in> R" "unat v < 2 ^ 48"
  shows "(taken m' r' v, user_byte m' r' v) =
    (if r' = r then overlay f h v (taken m r v, user_byte m r v) else (taken m r' v, user_byte m r' v))"
  using adds_pagesD[OF assms] by (auto simp: overlay_def)

lemma each_phdr_image:
  assumes "spaces_ok m R" "r \<in> R" "own_pages m R" "in_buffer m R base len f" and fits: "elf_fits f len"
    and "i \<le> unat (e_phnum f)" and "each_phdr (load_segment base r (base + e_phoff f)) base i m = (res, m')"
  shows "image_loaded m m' R r res f [i..<unat (e_phnum f)] \<and> takes (4 * needed_pages f [i..<unat (e_phnum f)]) m m'"
  using assms(1-4,6,7)
proof (induction "unat (e_phnum f) - i" arbitrary: i m)
  have len: "64 \<le> len" using fits by (simp add: elf_fits_def)
  {
    case 0
    then have "i = unat (e_phnum f)" by simp
    moreover from this have "res = 0" "m' = m"
      using 0(7) file_header(1)[OF 0(5) len] by (simp_all add: each_phdr.simps)
    ultimately show ?case using 0 by (simp add: image_loaded_def needed_pages_def)
  next
    case (Suc n)
    then have i: "i < unat (e_phnum f)" by simp
    have up: "[i..<unat (e_phnum f)] = i # [Suc i..<unat (e_phnum f)]" using i by (rule upt_conv_Cons)
    obtain q m1 where l: "load_segment base r (base + e_phoff f) i m = (q, m1)"
      by (cases "load_segment base r (base + e_phoff f) i m")
    have rest: "(if q < 0 then (q, m1) else each_phdr (load_segment base r (base + e_phoff f)) base (Suc i) m1) = (res, m')"
      using Suc(8) i l file_header(1)[OF Suc(6) len] by (subst (asm) each_phdr.simps) simp
    note L = conjunct1[OF load_segment_loaded[OF Suc(3-6) fits i l]]
    note T = conjunct2[OF load_segment_loaded[OF Suc(3-6) fits i l]]
    show ?case
    proof (cases "q = 0")
      case False
      with loadedD(4)[OF L] rest have "res = q" "m' = m1" by auto
      then show ?thesis using L False takes_weaken[OF T, of "4 * needed_pages f [i..<unat (e_phnum f)]"]
        by (auto simp: loaded_def image_loaded_def needed_pages_def up)
    next
      case True
      have r1: "each_phdr (load_segment base r (base + e_phoff f)) base (Suc i) m1 = (res, m')" using rest True by simp
      have "n = unat (e_phnum f) - Suc i" using Suc(2) by simp
      note IH = Suc(1)[OF this loadedD(1)[OF L] Suc(4) loadedD(2)[OF L] in_buffer_keeps[OF Suc(6) loadedD(3)[OF L]] _ r1]
      have I: "image_loaded m1 m' R r res f [Suc i..<unat (e_phnum f)]"
        and T2: "takes (4 * needed_pages f [Suc i..<unat (e_phnum f)]) m1 m'" using IH i by auto
      note A = adds_overlay[OF loadedD(6)[OF L True]]
      have "image_loaded m m' R r res f [i..<unat (e_phnum f)]"
        unfolding image_loaded_def up
      proof (intro conjI impI ballI allI)
        show "keeps_data m m' R" using keeps_data_trans[OF loadedD(3)[OF L]] I by (simp add: image_loaded_def)
        fix r' and v :: u64 assume a: "res = 0" "r' \<in> R" "unat v < 2 ^ 48"
        have "(taken m' r' v, user_byte m' r' v) =
          (if r' = r then fold (\<lambda>i. overlay f (phdr f i) v) [Suc i..<unat (e_phnum f)] (taken m1 r v, user_byte m1 r v)
           else (taken m1 r' v, user_byte m1 r' v))"
          using I a unfolding image_loaded_def by blast
        then show "(taken m' r' v, user_byte m' r' v) = (if r' = r
          then fold (\<lambda>i. overlay f (phdr f i) v) (i # [Suc i..<unat (e_phnum f)]) (taken m r v, user_byte m r v)
          else (taken m r' v, user_byte m r' v))"
          using A[OF a(2,3)] A[OF Suc(4) a(3)] by (simp split: if_splits)
      qed (use I in \<open>simp_all add: image_loaded_def\<close>)
      moreover have "takes (4 * needed_pages f [i..<unat (e_phnum f)]) m m'"
        using takes_trans[OF T T2] by (simp add: needed_pages_def up algebra_simps)
      ultimately show ?thesis ..
    qed
  }
qed

section \<open>Properties\<close>


text \<open>A file of 128 bytes with one segment, at the address \<open>0x8000\<close>, and an empty address space.\<close>

definition sample_elf :: "u8 list" where
  "sample_elf = [0x7F, 0x45, 0x4C, 0x46, 2, 1, 1, 0] @ replicate 8 0 @ [2, 0, 62, 0, 1, 0, 0, 0,
     0x10, 0, 0, 1, 0, 0, 0, 0, 64, 0, 0, 0, 0, 0, 0, 0] @ replicate 12 0 @ [64, 0, 56, 0, 1, 0, 0, 0, 0, 0, 0, 0,
     1, 0, 0, 0, 7, 0, 0, 0, 120, 0, 0, 0, 0, 0, 0, 0, 0x10, 0, 0, 1, 0, 0, 0, 0] @ replicate 8 0 @
     [2, 0, 0, 0, 0, 0, 0, 0, 4, 0, 0, 0, 0, 0, 0, 0] @ replicate 8 0 @ [0xAB, 0xCD, 0, 0, 0, 0, 0, 0]"

definition elf_machine :: machine where
  "elf_machine = put_bytes 0x8000 sample_elf sample_machine"

lemma low_not_free:
  assumes "pm m = pm sample_machine" "x < 0x200000"
  shows "\<not> table_free m x"
proof
  assume "table_free m x"
  then obtain i where i: "i < unat (total_pages (pm sample_machine))" "x = page_addr (pm sample_machine) i"
    by (auto simp: table_free_def assms(1) pmm_pool_def)
  have "page_base (pm sample_machine) = 0x200000"
    using pmm_init_fields(1)[of "0x200000" "0x4000000" sample_pmm]
    by (simp add: sample_machine_def page_count_def word_unat_eq_iff)
  with unat_page_addr[OF sample_machine_facts(1) i(1)] i(2) assms(2) show False by (simp add: word_less_nat_alt)
qed

lemma elf_machine_facts:
  "spaces_ok elf_machine {0x9000}" "own_pages elf_machine {0x9000}" "pte_of elf_machine 0x9000 v = None"
  "in_buffer elf_machine {0x9000} 0x8000 128 (\<lambda>i. sample_elf ! i)" "free_count (pm elf_machine) = 15872"
proof -
  let ?m = elf_machine
  have len: "length sample_elf = 128" by (simp add: sample_elf_def)
  have m: "?m = put_run 0x8000 128 (\<lambda>i. sample_elf ! i) sample_machine" by (simp add: elf_machine_def put_bytes_run len)
  have pm: "pm ?m = pm sample_machine" by (simp add: m)
  show "free_count (pm ?m) = 15872" by (simp add: pm sample_machine_facts)
  have "frames ?m 0x9000 = frames sample_machine 0x9000"
    using put_run_frames[of "0x8000" 0 128 "0x9000" "\<lambda>i. sample_elf ! i" sample_machine] by (simp add: m)
  then have z: "frames ?m 0x9000 i = 0" for i by (simp add: sample_machine_def)
  have at: "table_at ?m 0x9000 p = (if p = [] then Some 0x9000 else None)" for p
    by (cases p) (simp_all add: table_at.simps(2) z)
  note nf = low_not_free[OF pm]
  show "spaces_ok ?m {0x9000}" using sample_machine_facts(1) nf by (auto simp: spaces_ok_def pm at split: if_splits)
  show "pte_of ?m 0x9000 v = None" for v by (simp add: pte_of_def at)
  then show "own_pages ?m {0x9000}" by (simp add: own_pages_def)
  show "in_buffer ?m {0x9000} 0x8000 128 (\<lambda>i. sample_elf ! i)"
    unfolding in_buffer_def
  proof (intro allI impI)
    fix k :: nat assume k: "k < 128"
    have "(0x8000 + of_nat k) AND ADDR_MASK = (0x8000 :: u64)"
      using k by (intro page_plus(1)) (simp_all add: unat_of_nat_small)
    moreover have "data_page ?m {0x9000} 0x8000" using nf[of "0x8000"] by (simp add: data_page_def at)
    moreover have "mem_bytes 0x8000 ?m k = sample_elf ! k"
      using k by (simp add: m mem_bytes_def get_byte_put_run unat_of_nat_small)
    ultimately show "data_page ?m {0x9000} ((0x8000 + of_nat k) AND ADDR_MASK) \<and> mem_bytes 0x8000 ?m k = sample_elf ! k"
      by simp
  qed
qed

abbreviation sample_file :: bytes where "sample_file \<equiv> \<lambda>i. sample_elf ! i"

lemma sample_elf_header: "e_phnum sample_file = 1" "e_phoff sample_file = 64" by code_simp+

lemma sample_elf_phdr: "p_type (phdr sample_file 0) = 1" "p_offset (phdr sample_file 0) = 120" "p_vaddr (phdr sample_file 0) = 0x1000010"
    "p_filesz (phdr sample_file 0) = 2" "p_memsz (phdr sample_file 0) = 4" by code_simp+

lemma sample_elf_pages: "seg_pages (phdr sample_file 0) = {0x1000}"
    by (auto simp: seg_pages_def is_load_def sample_elf_phdr page_no_def)

lemma sample_elf_fits: "elf_fits sample_file 128" by (simp add: elf_fits_def sample_elf_header segment_fits_def sample_elf_phdr)

lemma sample_elf_needed: "needed_pages sample_file [0..<unat (e_phnum sample_file)] = 1" by (simp add: needed_pages_def sample_elf_header sample_elf_pages)

lemma elf_machine_empty: "\<not> taken elf_machine 0x9000 v" "user_byte elf_machine 0x9000 v = None" for v
    by (simp_all add: taken_def virt_to_phys_pte user_byte_def elf_machine_facts(3))

lemma sample_elf_image: "program_image sample_file v (taken elf_machine 0x9000 v, user_byte elf_machine 0x9000 v) =
      (if page_no v = 0x1000 then (True, Some (seg_byte sample_file 120 0x1000010 2 v)) else (False, None))" for v
    by (simp add: program_image_def sample_elf_header overlay_def sample_elf_pages sample_elf_phdr elf_machine_empty)

lemma sample_elf_bytes: "map (seg_byte sample_file 120 0x1000010 2) [0x100000F, 0x1000010, 0x1000011, 0x1000012] = [0, 0xAB, 0xCD, 0]"
    by code_simp

lemma sample_elf_page_no: "map page_no [0x100000F, 0x1000010, 0x1000011, 0x1000012, 0x1001000] = [0x1000,0x1000,0x1000,0x1000,0x1001]"
   by (simp add: page_no_def)


end
