(* ===== verification/Spawn.thy ===== *)
theory Spawn
  imports Elf_Load
begin

text \<open>
  \<^verbatim>\<open>sched_spawn\<close> of \<^verbatim>\<open>kernel/sched.c\<close>: a new user process from a program file, with its first stack and
  the frame from which the scheduler enters it, and the older \<^verbatim>\<open>sched_create_user\<close>.  The arguments are a list of
  strings; an empty list stands for a null pointer or an array without entries.  The code
  enables interrupts after the file is loaded; the task is not in the run queue before the end, so a timer tick in
  between does not see it, and the model runs the function in one piece.
\<close>

section \<open>The framebuffer in the new space\<close>

definition map_framebuffer :: "u64 \<Rightarrow> fbuf \<Rightarrow> 'a machine_scheme \<Rightarrow> 'a machine_scheme" where
  "map_framebuffer user_pml4 f m =
     (let fba = fb_base_addr f in
      if fba = 0 then m
      else let bpp = word_of_int (fb_bpp f);
               bytes_pp = (if bpp \<noteq> 0 then bpp div 8 else 4);
               fb_size = word_of_int (fb_width f) * word_of_int (fb_height f) * bytes_pp;
               ms = fba AND NOT 0xFFF;
               me = (fba + fb_size + 0xFFF) AND NOT 0xFFF
           in fold (\<lambda>a m. snd (paging_map_kernel_page user_pml4 a a (PAGE_PRESENT OR PAGE_WRITABLE) m)) (page_range ms me) m)"

section \<open>The user stack\<close>

text \<open>Pages \<open>is\<close> of the stack: taken, cleared and mapped; the answer of the mapping is ignored.\<close>

fun map_ustack :: "u64 \<Rightarrow> nat list \<Rightarrow> 'a machine_scheme \<Rightarrow> bool \<times> 'a machine_scheme" where
  "map_ustack user_pml4 [] m = (True, m)"
| "map_ustack user_pml4 (i # is) m =
     (case pmm_alloc_page (pm m) of (page, p) \<Rightarrow>
        let m = m\<lparr>pm := p\<rparr> in
        if page = 0 then (False, m)
        else map_ustack user_pml4 is
               (snd (paging_map_user_page user_pml4 (USER_STACK_TOP - USER_STACK_SIZE + of_nat i * 4096) page
                 (PAGE_PRESENT OR PAGE_WRITABLE OR PAGE_USER) (mem_zero page 512 m))))"

text \<open>The code at the top of the stack that \<^verbatim>\<open>main\<close> returns to: \<^verbatim>\<open>exit(0)\<close>.\<close>

abbreviation stub_vaddr :: u64 where "stub_vaddr \<equiv> USER_STACK_TOP - 32"

definition exit_stub :: "u8 list" where
  "exit_stub = [0xB8, 0, 0, 0, 0, 0x31, 0xFF, 0x0F, 0x05, 0xF4]"

definition spawn_args :: "cstr list \<Rightarrow> cstr list" where
  "spawn_args args = take 16 (if args = [] then [bytes_of ''prog''] else args)"

definition push_string :: "u64 \<Rightarrow> cstr \<Rightarrow> u64 \<times> u64 list \<times> 'a machine_scheme \<Rightarrow> u64 \<times> u64 list \<times> 'a machine_scheme" where
  "push_string user_pml4 s = (\<lambda>(sp, ptrs, m).
     let sp = sp - of_nat (length s + 1)
     in (sp, sp # ptrs, put_bytes (paging_virt_to_phys user_pml4 sp m) (s @ [0]) m))"

definition push_quad :: "u64 \<Rightarrow> u64 \<Rightarrow> u64 \<times> 'a machine_scheme \<Rightarrow> u64 \<times> 'a machine_scheme" where
  "push_quad user_pml4 v = (\<lambda>(sp, m).
     let sp = sp - 8 in (sp, put_qword (paging_virt_to_phys user_pml4 sp m) v m))"

text \<open>The stub, the strings, the padding, the array \<open>argv\<close> and the return address: the answer is \<open>argv\<close> and the stack pointer.\<close>

definition build_stack :: "u64 \<Rightarrow> cstr list \<Rightarrow> 'a machine_scheme \<Rightarrow> u64 \<times> u64 \<times> 'a machine_scheme" where
  "build_stack user_pml4 args m =
     (let m = put_bytes (paging_virt_to_phys user_pml4 stub_vaddr m) exit_stub m
      in case fold (push_string user_pml4) (rev args) (stub_vaddr, [], m) of
        (sp, ptrs, m) \<Rightarrow>
          let st = (sp AND NOT 0xF, m);
              st = (if even (length args) then push_quad user_pml4 0 st else st);
              st = push_quad user_pml4 0 st
          in case fold (push_quad user_pml4) (rev ptrs) st of
            (argv, m) \<Rightarrow> case push_quad user_pml4 stub_vaddr (argv, m) of (sp, m) \<Rightarrow> (argv, sp, m))"

section \<open>The new task\<close>

text \<open>The working directory of the caller, this time with its NUL.\<close>

definition inherit_cwd :: "task option \<Rightarrow> bytes \<Rightarrow> bytes" where
  "inherit_cwd parent cwd =
     (case parent of None \<Rightarrow> cwd
      | Some p \<Rightarrow> let n = cstr_len (task_cwd p) (VFS_MAX_PATH - 1)
                  in (blit cwd 0 (task_cwd p) 0 n)(n := 0))"

definition start_task :: "nat \<Rightarrow> u64 \<Rightarrow> nat \<Rightarrow> u64 \<Rightarrow> u64 \<Rightarrow> (nat \<Rightarrow> fd_entry) option \<Rightarrow> 'a kernel_scheme \<Rightarrow> 'a kernel_scheme" where
  "start_task t entry argc argv sp fd_overrides k =
     (let frame = kernel_stack_top (tasks k t) - 176;
          parent = map_option (tasks k) (current k);
          k = put_fields frame [(off_rip, entry), (off_cs, 0x23), (off_rflags, 0x202), (off_rdi, of_nat argc),
                (off_rsi, argv), (off_rsp, sp), (off_ss, 0x1B)] (mem_zero frame 22 k)
      in enqueue t (upd_task t (\<lambda>x. x\<lparr>user_stack_top := USER_STACK_TOP, task_rsp := frame, task_entry := entry,
           is_user := True, parent_id := (case parent of Some p \<Rightarrow> ucast (task_id p) | None \<Rightarrow> 0),
           task_pgid := ucast (task_id x),
           fd_table := (case fd_overrides of None \<Rightarrow> fd_table x
                        | Some fds \<Rightarrow> fold (\<lambda>i tb. tb(i := fds i)) [0..<MAX_FDS] (fd_table x)),
           task_cwd := inherit_cwd parent (task_cwd x)\<rparr>) k))"

text \<open>What follows the loading of the file: the stacks and the task.\<close>

definition finish_spawn :: "nat \<Rightarrow> u64 \<Rightarrow> u64 \<Rightarrow> cstr list \<Rightarrow> (nat \<Rightarrow> fd_entry) option \<Rightarrow> fbuf \<Rightarrow> 'a kernel_scheme \<Rightarrow> c_int \<times> 'a kernel_scheme" where
  "finish_spawn t user_pml4 entry args fd_overrides f k =
     (case give_kstack t (map_framebuffer user_pml4 f k) of
        (False, k) \<Rightarrow> (-1, release_slot t (paging_free_user_space user_pml4 k))
      | (True, k) \<Rightarrow>
          (case map_ustack user_pml4 [0..<USTACK_PAGES] k of
             (False, k) \<Rightarrow> (-1, release_slot t k)
           | (True, k) \<Rightarrow>
               (case build_stack user_pml4 (spawn_args args) k of
                  (argv, sp, k) \<Rightarrow>
                    let k = start_task t entry (length (spawn_args args)) argv sp fd_overrides k
                    in (ucast (task_id (tasks k t)), k))))"

definition sched_spawn :: "cstr \<Rightarrow> cstr list \<Rightarrow> (nat \<Rightarrow> fd_entry) option \<Rightarrow> elf_state \<Rightarrow> (c_int \<times> elf_state) outcome option" where
  "sched_spawn path args fd_overrides = (\<lambda>(l, s).
     Option.bind (resolve path (vol s)) (\<lambda>(node, v).
       let s = s\<lparr>vol := v\<rparr> in
       case node of
         None \<Rightarrow> Some (Done (-1, l, s))
       | Some n \<Rightarrow>
           if \<not> is_file n v then Some (Done (-1, l, s))
           else case alloc_task (kern s) of
             (None, k) \<Rightarrow> Some (Done (-1, l, s\<lparr>kern := k\<rparr>))
           | (Some t, k) \<Rightarrow>
           case paging_new_user_space k of (user_pml4, k) \<Rightarrow>
           if user_pml4 = 0 then Some (Done (-1, l, s\<lparr>kern := release_slot t k\<rparr>))
           else Option.bind (elf_load_into n user_pml4 (l, s\<lparr>kern := upd_task t (\<lambda>x. x\<lparr>task_cr3 := user_pml4\<rparr>) k\<rparr>)) (\<lambda>r.
             case r of
               Undef \<Rightarrow> Some Undef
             | Done ((code, entry), l, s) \<Rightarrow>
                 if code < 0
                 then Some (Done (-1, l, s\<lparr>kern := release_slot t (paging_free_user_space user_pml4 (kern s))\<rparr>))
                 else case finish_spawn t user_pml4 entry args fd_overrides (screen (cons s)) (kern s) of
                   (pid, k) \<Rightarrow> Some (Done (pid, l, s\<lparr>kern := k\<rparr>)))))"

text \<open>The older interface: the program is looked up in \<^verbatim>\<open>/apps/\<close> by the name of its node.\<close>

definition sched_create_user :: "cstr \<Rightarrow> cstr list \<Rightarrow> elf_state \<Rightarrow> (nat option \<times> elf_state) outcome option" where
  "sched_create_user name args st =
     (let path = bytes_of ''/apps/'' @ take (VFS_MAX_PATH - 1 - 6) name
      in Option.bind (sched_spawn path args None st) (\<lambda>r.
        case r of
          Undef \<Rightarrow> Some Undef
        | Done (pid, l, s) \<Rightarrow>
            if sint pid < 0 then Some (Done (None, l, s)) else Some (Done (sched_get_task pid (kern s), l, s))))"

end
