(* ===== verification/Spawn_Stack.thy ===== *)
theory Spawn_Stack
  imports Spawn
begin

text \<open>
  The first stack of a spawned program: what \<^verbatim>\<open>main\<close> finds in memory.  The strings and the array fit
  the top page of the stack, whose frame the kernel writes through its physical address.
\<close>

section \<open>The top page\<close>

abbreviation stack_page :: u64 where "stack_page \<equiv> 0x11FF000"

definition stack_ok :: "'a machine_scheme \<Rightarrow> u64 set \<Rightarrow> u64 \<Rightarrow> u64 \<Rightarrow> bool" where
  "stack_ok m R r page \<longleftrightarrow> spaces_ok m R \<and> r \<in> R \<and> data_page m R page \<and> page AND 0xFFF = 0 \<and>
     (\<forall>x<4096. paging_virt_to_phys r (stack_page + of_nat x) m = page + of_nat x)"

lemma pte_same_page: "same_page v w \<Longrightarrow> pte_of m r w = pte_of m r v"
  unfolding same_page_def pte_of_def by (elim conjE) (simp only:)

lemma stack_okI:
  assumes "spaces_ok m R" "r \<in> R" "pte_of m r stack_page = Some e" "data_page m R (e AND ADDR_MASK)"
  shows "stack_ok m R r (e AND ADDR_MASK)"
proof -
  have al: "(e AND ADDR_MASK) AND 0xFFF = 0" by (auto simp: bit_eq_iff bit_simps)
  have "paging_virt_to_phys r (stack_page + of_nat x) m = (e AND ADDR_MASK) + of_nat x" if x: "x < 4096" for x
  proof -
    have u: "unat (of_nat x :: u64) < 4096" using x by (simp add: unat_of_nat_small)
    have s: "(stack_page + of_nat x) AND 0xFFF = of_nat x" by (rule page_plus(2)[OF _ u]) simp
    have v: "unat (stack_page + of_nat x) = 0x11FF000 + x"
      using page_plus(3)[of stack_page, OF _ u] x by (simp add: unat_of_nat_small)
    then have "same_page stack_page (stack_page + of_nat x)"
      using x by (subst same_page_no) (auto simp: page_no_def)
    then have "pte_of m r (stack_page + of_nat x) = pte_of m r stack_page" by (rule pte_same_page)
    then have "pte_of m r (stack_page + of_nat x) = Some e" by (simp only: assms(3))
    then show ?thesis using frame_addr(2)[of e "stack_page + of_nat x"] by (simp add: virt_to_phys_pte s)
  qed
  with assms al show ?thesis by (simp add: stack_ok_def)
qed

lemma stack_okD:
  assumes "stack_ok m R r page"
  shows "page AND 0xFFF = 0" "x < 4096 \<Longrightarrow> paging_virt_to_phys r (stack_page + of_nat x) m = page + of_nat x"
  using assms by (auto simp: stack_ok_def)

lemma stack_ok_write:
  assumes "stack_ok m R r page" and eq: "pm m' = pm m" "\<And>x. x \<noteq> page \<Longrightarrow> frames m' x = frames m x"
  shows "stack_ok m' R r page"
proof -
  have s: "spaces_ok m R" "data_page m R page" "r \<in> R" using assms(1) by (auto simp: stack_ok_def)
  have S: "spaces_ok m' R" "pte_of m' r v = pte_of m r v" "data_page m' R page = data_page m R page" for v
    using same_frames_data[OF s(1,2), of m'] eq s(3) by auto
  have "paging_virt_to_phys r v m' = paging_virt_to_phys r v m" for v by (rule virt_to_phys_cong[OF S(2)])
  with S(1,3) assms(1) show ?thesis by (simp add: stack_ok_def)
qed

text \<open>The bytes and aligned quadwords of the page, by their offset.\<close>

abbreviation pg :: "u64 \<Rightarrow> 'a machine_scheme \<Rightarrow> nat \<Rightarrow> u8" where
  "pg page m x \<equiv> get_byte (page + of_nat x) m"

abbreviation qw :: "u64 \<Rightarrow> 'a machine_scheme \<Rightarrow> nat \<Rightarrow> u64" where
  "qw page m x \<equiv> get_qword (page + of_nat x) m"

text \<open>\<open>below m m' R r page n\<close>: \<open>m'\<close> differs from \<open>m\<close> only in the first \<open>n\<close> bytes of the page.\<close>

definition below :: "'a machine_scheme \<Rightarrow> 'a machine_scheme \<Rightarrow> u64 \<Rightarrow> nat \<Rightarrow> bool" where
  "below m m' page n \<longleftrightarrow> pm m' = pm m \<and> machine.more m' = machine.more m \<and> (\<forall>x. x \<noteq> page \<longrightarrow> frames m' x = frames m x) \<and>
     (\<forall>x. n \<le> x \<longrightarrow> x < 4096 \<longrightarrow> pg page m' x = pg page m x)"

lemma below_refl [simp]: "below m m page n"
  by (simp add: below_def)

lemma below_trans: "below m m1 page a \<Longrightarrow> below m1 m2 page b \<Longrightarrow> b \<le> a \<Longrightarrow> below m m2 page a"
  by (simp add: below_def)

lemma below_weaken: "below m m' page a \<Longrightarrow> a \<le> b \<Longrightarrow> below m m' page b"
  by (simp add: below_def)

lemma below_stack_ok: "stack_ok m R r page \<Longrightarrow> below m m' page n \<Longrightarrow> stack_ok m' R r page"
  using stack_ok_write[of m R r page m'] by (simp add: below_def)

lemma page_at:
  assumes "page AND 0xFFF = 0" "x < 4096"
  shows "(page + of_nat x) AND ADDR_MASK = page" "(page + of_nat x) AND 0xFFF = of_nat x"
    "unat ((page + of_nat x) AND 7) = x mod 8"
proof -
  have u: "unat (of_nat x :: u64) < 4096" using assms(2) by (simp add: unat_of_nat_small)
  show "(page + of_nat x) AND ADDR_MASK = page" "(page + of_nat x) AND 0xFFF = of_nat x"
    by (rule page_plus[OF assms(1) u])+
  have "unat (page + of_nat x) = unat page + x" using page_plus(3)[OF assms(1) u] assms(2) by (simp add: unat_of_nat_small)
  moreover have "unat page mod 8 = 0"
  proof -
    have "unat page = page_no page * 512 * 8" using page_no_aligned[OF assms(1)] by simp
    then show ?thesis by (simp only: mod_mult_self2_is_0)
  qed
  ultimately show "unat ((page + of_nat x) AND 7) = x mod 8"
    unfolding unat_and_7 by (metis add_0 mod_add_left_eq)
qed

text \<open>Division of offsets.\<close>

lemma octet:
  fixes x j :: nat
  assumes "x mod 8 = 0" "j < 8"
  shows "(x + j) div 8 = x div 8" "(x + j) mod 8 = j" "x < 4096 \<Longrightarrow> x + j < 4096"
proof -
  obtain k where x: "x = 8 * k" using assms(1) by (metis mod_0_imp_dvd dvdE)
  show "(x + j) div 8 = x div 8" "(x + j) mod 8 = j" using assms(2) by (simp_all add: x)
  show "x + j < 4096" if "x < 4096"
  proof -
    have "k < 512" using that x by simp
    then show ?thesis using assms(2) unfolding x by linarith
  qed
qed

lemma next_octet: "(a::nat) + 8 \<le> b \<Longrightarrow> b div 8 \<noteq> a div 8"
  using div_le_mono[of "a + 8" b 8] by simp

lemma slots_mod_16:
  fixes a :: nat
  assumes "(a + 8 * (2 * k + 1)) mod 16 = 0"
  shows "(a + 8) mod 16 = 0" "a mod 8 = 0"
proof -
  have "a + 8 * (2 * k + 1) = (a + 8) + k * 16" by simp
  with assms show *: "(a + 8) mod 16 = 0" by (simp only: mod_mult_self1)
  then obtain l where l: "a + 8 = 16 * l" by (metis mod_0_imp_dvd dvdE)
  then have "a = 8 * (2 * l - 1)" by linarith
  then show "a mod 8 = 0" by simp
qed

text \<open>A quadword is its eight bytes.\<close>

lemma quad_bytes:
  assumes "page AND 0xFFF = 0" "x < 4096" "x mod 8 = 0" "j < 8"
  shows "pg page m (x + j) = byte_in (qw page m x) j"
proof -
  note xj = octet(3)[OF assms(3,4,2)] and d = octet(1,2)[OF assms(3,4)]
  have "qw page m (x + j) = qw page m x"
    using page_at[OF assms(1) xj] page_at[OF assms(1,2)] d(1) xj assms(2)
    by (simp add: get_qword_def unat_of_nat_small del: of_nat_add)
  then show ?thesis using page_at(3)[OF assms(1) xj] d(2) by (simp add: get_byte_def del: of_nat_add)
qed

lemma quad_ext:
  assumes "\<And>j. j < 8 \<Longrightarrow> byte_in q j = byte_in q' j"
  shows "q = q'"
proof (rule bit_word_eqI)
  fix n assume "n < LENGTH(64)"
  then have "n div 8 < 8" by simp
  from assms[OF this] have "bit (byte_in q (n div 8)) (n mod 8) = bit (byte_in q' (n div 8)) (n mod 8)" by simp
  then show "bit q n = bit q' n" by (simp add: bit_byte_in)
qed

lemma quad_cong:
  assumes "page AND 0xFFF = 0" "x < 4096" "x mod 8 = 0" "\<And>j. j < 8 \<Longrightarrow> pg page m' (x + j) = pg page m (x + j)"
  shows "qw page m' x = qw page m x"
  by (rule quad_ext) (use assms quad_bytes[OF assms(1-3)] in metis)

lemma below_quad:
  assumes "below m m' page n" "page AND 0xFFF = 0" "n \<le> x" "x < 4096" "x mod 8 = 0"
  shows "qw page m' x = qw page m x"
proof (rule quad_cong[OF assms(2,4,5)])
  fix j :: nat assume "j < 8"
  then have "x + j < 4096" using octet(3)[OF assms(5) _ assms(4)] by simp
  with assms(1,3) show "pg page m' (x + j) = pg page m (x + j)" by (simp add: below_def del: of_nat_add)
qed

lemma offset_diff:
  assumes "o' + n \<le> 4096" "x < 4096"
  shows "unat ((page + of_nat x) - (page + of_nat o') :: u64) < n \<longleftrightarrow> o' \<le> x \<and> x < o' + n"
    and "o' \<le> x \<Longrightarrow> unat ((page + of_nat x) - (page + of_nat o') :: u64) = x - o'"
proof -
  have d: "(page + of_nat x) - (page + of_nat o') = (of_nat x - of_nat o' :: u64)" by simp
  show *: "unat ((page + of_nat x) - (page + of_nat o') :: u64) = x - o'" if "o' \<le> x"
    unfolding d using assms that by (subst unat_sub) (simp_all add: word_le_nat_alt unat_of_nat_small)
  have "n \<le> unat (of_nat x - of_nat o' :: u64)" if "x < o'"
  proof -
    have "unat (of_nat x - of_nat o' :: u64) = 2 ^ 64 + x - o'"
      using assms that by (simp add: unat_sub_if' word_le_nat_alt unat_of_nat_small)
    then show ?thesis using assms that by simp
  qed
  with * show "unat ((page + of_nat x) - (page + of_nat o') :: u64) < n \<longleftrightarrow> o' \<le> x \<and> x < o' + n"
    unfolding d by (cases "o' \<le> x") auto
qed

lemma put_bytes_below:
  fixes m :: "'a machine_scheme"
  assumes p: "page AND 0xFFF = 0" and o: "o' + length bs \<le> 4096"
  defines "m' \<equiv> put_bytes (page + of_nat o') bs m"
  shows "below m m' page (o' + length bs)" "j < length bs \<Longrightarrow> pg page m' (o' + j) = bs ! j"
    "x < o' \<Longrightarrow> pg page m' x = pg page m x"
proof -
  have m': "m' = put_run (page + of_nat o') (length bs) (\<lambda>i. bs ! i) m" by (simp add: m'_def put_bytes_run)
  have g: "pg page m' x = (if o' \<le> x \<and> x < o' + length bs then bs ! (x - o') else pg page m x)" if "x < 4096" for x
    using offset_diff[OF o that, of page] o by (simp add: m' get_byte_put_run)
  show "j < length bs \<Longrightarrow> pg page m' (o' + j) = bs ! j" using g[of "o' + j"] o by simp
  show "x < o' \<Longrightarrow> pg page m' x = pg page m x" using g[of x] o by simp
  show "below m m' page (o' + length bs)"
    unfolding below_def using put_run_frames[OF p o] g by (auto simp: m')
qed


lemma put_qword_below:
  fixes m :: "'a machine_scheme" and v :: u64
  assumes p: "page AND 0xFFF = 0" and o: "o' + 8 \<le> 4096" "o' mod 8 = 0"
  defines "m' \<equiv> put_qword (page + of_nat o') v m"
  shows "below m m' page (o' + 8)" "qw page m' o' = v"
proof -
  have o4: "o' < 4096" using o by simp
  note A = page_at[OF p o4]
  have qx: "qw page m' x = (if x div 8 = o' div 8 then v else qw page m x)" if "x < 4096" for x
    using page_at[OF p that] A that o4 by (simp add: m'_def get_qword_def put_qword_def unat_of_nat_small)
  show "qw page m' o' = v" using qx[OF o4] by simp
  have "pg page m' x = pg page m x" if "o' + 8 \<le> x" "x < 4096" for x
  proof -
    have "x div 8 \<noteq> o' div 8" by (rule next_octet[OF that(1)])
    then show ?thesis using qx[OF that(2)] by (simp add: get_byte_def)
  qed
  moreover have "frames m' x = frames m x" if "x \<noteq> page" for x using that A(1) by (simp add: m'_def)
  ultimately show "below m m' page (o' + 8)"
    unfolding below_def by (simp add: m'_def put_qword_more)
qed

section \<open>The strings\<close>

text \<open>A string with its NUL at offset \<open>q\<close>.\<close>

definition string_at :: "u64 \<Rightarrow> 'a machine_scheme \<Rightarrow> nat \<Rightarrow> cstr \<Rightarrow> bool" where
  "string_at page m q s \<longleftrightarrow> q + length s < 4096 \<and> (\<forall>j\<le>length s. pg page m (q + j) = (s @ [0]) ! j)"

lemma string_at_below: "string_at page m q s \<Longrightarrow> below m m' page n \<Longrightarrow> n \<le> q \<Longrightarrow> string_at page m' q s"
  by (auto simp: string_at_def below_def simp del: of_nat_add)

abbreviation string_bytes :: "cstr list \<Rightarrow> nat" where
  "string_bytes ss \<equiv> sum_list (map (\<lambda>s. length s + 1) ss)"

lemma push_strings:
  assumes "stack_ok m R r page" "string_bytes ss \<le> o'" "o' \<le> 4096"
    and "fold (push_string r) ss (stack_page + of_nat o', ptrs, m) = (sp, ptrs', m')"
  shows "sp = stack_page + of_nat (o' - string_bytes ss) \<and> below m m' page o' \<and>
    (\<exists>qs. ptrs' = map (\<lambda>q. stack_page + of_nat q) (rev qs) @ ptrs \<and>
       list_all2 (\<lambda>q s. o' - string_bytes ss \<le> q \<and> string_at page m' q s) qs ss)"
  using assms
proof (induction ss arbitrary: m o' ptrs)
  case Nil
  then show ?case by (auto intro: exI[of _ "[]"])
next
  case (Cons s ss)
  define q where "q = o' - (length s + 1)"
  have q: "q + (length s + 1) = o'" "q + (length s + 1) \<le> 4096" "string_bytes ss \<le> q" "q \<le> 4096" "q < 4096"
    using Cons.prems(2,3) by (auto simp: q_def)
  have "(of_nat o' :: u64) = of_nat q + of_nat (length s + 1)" using q(1) by (metis of_nat_add)
  then have sp: "stack_page + of_nat o' - of_nat (length s + 1) = stack_page + of_nat q" by simp
  define m1 where "m1 = put_bytes (page + of_nat q) (s @ [0]) m"
  have "q + length (s @ [0]) \<le> 4096" using q by simp
  note B = put_bytes_below[OF stack_okD(1)[OF Cons.prems(1)] this, where m = m, folded m1_def]
  have b1: "below m m1 page o'" using B(1) q by simp
  have s1: "string_at page m1 q s" using B(2) q by (auto simp: string_at_def simp del: of_nat_add)
  have step: "push_string r s (stack_page + of_nat o', ptrs, m) = (stack_page + of_nat q, (stack_page + of_nat q) # ptrs, m1)"
    unfolding push_string_def prod.case Let_def sp using stack_okD(2)[OF Cons.prems(1) q(5)] by (simp add: m1_def)
  have ok1: "stack_ok m1 R r page" by (rule below_stack_ok[OF Cons.prems(1) b1])
  have "fold (push_string r) ss (stack_page + of_nat q, (stack_page + of_nat q) # ptrs, m1) = (sp, ptrs', m')"
    using Cons.prems(4) step by simp
  note IH = Cons.IH[OF ok1 q(3,4) this]
  from IH obtain qs where qs: "ptrs' = map (\<lambda>q. stack_page + of_nat q) (rev qs) @ (stack_page + of_nat q) # ptrs"
    "list_all2 (\<lambda>q' s. q - string_bytes ss \<le> q' \<and> string_at page m' q' s) qs ss" by blast
  have e: "o' - string_bytes (s # ss) = q - string_bytes ss" using q by simp
  have "string_at page m' q s" using string_at_below[OF s1] IH by blast
  then have "list_all2 (\<lambda>q' s'. o' - string_bytes (s # ss) \<le> q' \<and> string_at page m' q' s') (q # qs) (s # ss)"
    unfolding e using qs(2) by simp
  moreover have "ptrs' = map (\<lambda>q. stack_page + of_nat q) (rev (q # qs)) @ ptrs" using qs(1) by simp
  moreover have "below m m' page o'" using below_trans[OF b1 conjunct1[OF conjunct2[OF IH]]] q by simp
  ultimately show ?case using IH unfolding e by blast
qed

section \<open>The quadwords\<close>

lemma push_quad_at:
  fixes m :: "'a machine_scheme"
  assumes ok: "stack_ok m R r page" and o: "o' + 8 \<le> 4096" "o' mod 8 = 0"
    and p: "push_quad r v (stack_page + of_nat (o' + 8), m) = (sp, m')"
  shows "sp = stack_page + of_nat o'" "below m m' page (o' + 8)" "qw page m' o' = v" "stack_ok m' R r page"
proof -
  have s: "stack_page + of_nat (o' + 8) - 8 = stack_page + of_nat o'" by simp
  have "paging_virt_to_phys r (stack_page + of_nat o') m = page + of_nat o'" using stack_okD(2)[OF ok, of o'] o by simp
  with p have m': "sp = stack_page + of_nat o'" "m' = put_qword (page + of_nat o') v m"
    unfolding push_quad_def prod.case Let_def s by auto
  note B = put_qword_below[OF stack_okD(1)[OF ok] o, where m = m and v = v, folded m'(2)]
  show "sp = stack_page + of_nat o'" "below m m' page (o' + 8)" "qw page m' o' = v" "stack_ok m' R r page"
    using m'(1) B below_stack_ok[OF ok B(1)] by auto
qed

lemma push_quads:
  assumes "stack_ok m R r page" "o' + 8 * length vs \<le> 4096" "o' mod 8 = 0"
    and "fold (push_quad r) (rev vs) (stack_page + of_nat (o' + 8 * length vs), m) = (sp, m')"
  shows "sp = stack_page + of_nat o' \<and> below m m' page (o' + 8 * length vs) \<and> stack_ok m' R r page \<and>
    (\<forall>i<length vs. qw page m' (o' + 8 * i) = vs ! i)"
  using assms
proof (induction vs arbitrary: o' sp m')
  case Nil
  then show ?case by simp
next
  case (Cons v vs)
  obtain sp1 m1 where f: "fold (push_quad r) (rev vs) (stack_page + of_nat (o' + 8 * length (v # vs)), m) = (sp1, m1)"
    by (cases "fold (push_quad r) (rev vs) (stack_page + of_nat (o' + 8 * length (v # vs)), m)")
  have e: "o' + 8 * length (v # vs) = (o' + 8) + 8 * length vs" by simp
  have IH: "sp1 = stack_page + of_nat (o' + 8) \<and> below m m1 page ((o' + 8) + 8 * length vs) \<and> stack_ok m1 R r page \<and>
    (\<forall>i<length vs. qw page m1 ((o' + 8) + 8 * i) = vs ! i)"
    by (rule Cons.IH[OF Cons.prems(1)]) (use Cons.prems(2,3) f[unfolded e] in \<open>auto simp del: of_nat_add\<close>)
  have "push_quad r v (stack_page + of_nat (o' + 8), m1) = (sp, m')" using Cons.prems(4) f IH by simp
  note Q = push_quad_at[of m1, OF _ _ Cons.prems(3) this]
  have ok1: "stack_ok m1 R r page" and o8: "o' + 8 \<le> 4096" using IH Cons.prems(2) by auto
  note Q = Q[OF ok1 o8]
  have "qw page m' (o' + 8 * i) = (v # vs) ! i" if i: "i < length (v # vs)" for i
  proof (cases i)
    case 0
    then show ?thesis using Q(3) by simp
  next
    case (Suc k)
    then have k: "k < length vs" using i by simp
    have x: "(o' + 8) + 8 * k < 4096" "((o' + 8) + 8 * k) mod 8 = 0" using k Cons.prems(2,3) by auto
    have "qw page m' ((o' + 8) + 8 * k) = qw page m1 ((o' + 8) + 8 * k)"
      by (rule below_quad[OF Q(2) stack_okD(1)[OF ok1] _ x]) simp
    also have "\<dots> = vs ! k" using IH k by blast
    finally show ?thesis using Suc by (simp add: add.assoc del: of_nat_add)
  qed
  moreover have "below m m' page (o' + 8 * length (v # vs))"
    unfolding e by (rule below_trans[OF conjunct1[OF conjunct2[OF IH]] Q(2)]) simp
  ultimately show ?case using Q by blast
qed


section \<open>The whole stack\<close>

text \<open>The quadwords of the stack, the lowest first.\<close>

definition stack_quads :: "u64 list \<Rightarrow> u64 list" where
  "stack_quads ptrs = stub_vaddr # ptrs @ 0 # (if even (length ptrs) then [0] else [])"

lemma build_stack_quads:
  assumes "build_stack r args m = (argv, sp, m')"
    and "fold (push_string r) (rev args) (stub_vaddr, [], put_bytes (paging_virt_to_phys r stub_vaddr m) exit_stub m) = (sp1, ptrs, m1)"
    and "length ptrs = length args"
  shows "fold (push_quad r) (rev (stack_quads ptrs)) (sp1 AND NOT 0xF, m1) = (sp, m') \<and> argv = sp + 8"
  using assms
  by (auto simp: build_stack_def stack_quads_def Let_def push_quad_def split: prod.splits if_splits)

lemma align16:
  fixes o1 :: nat
  assumes "o1 < 4096"
  shows "(stack_page + of_nat o1) AND NOT 0xF = stack_page + of_nat (o1 div 16 * 16)"
proof -
  have u: "unat (stack_page + of_nat x) = 0x11FF000 + x" if "x < 4096" for x
    using page_plus(3)[of stack_page "of_nat x"] that by (simp add: unat_of_nat_small)
  have m: "NOT 0xF = NOT (mask 4 :: u64)" by (simp add: mask_numeral)
  let ?v = "stack_page + of_nat o1"
  have "unat (?v AND NOT 0xF) = take_bit 64 (push_bit 4 (unat ?v div 16))"
    unfolding m and_not_mask by (simp add: unsigned_push_bit_eq unat_drop_bit)
  also have "\<dots> = unat ?v div 16 * 16"
    using u[OF assms] assms by (simp add: push_bit_eq_mult[where ?'a = nat] take_bit_nat_eq_self)
  also have "\<dots> = 0x11FF000 + o1 div 16 * 16" unfolding u[OF assms]
    using div_mult_self4[of 16 "0x11FF00" o1] by simp
  also have "\<dots> = unat (stack_page + of_nat (o1 div 16 * 16))" using assms by (subst u) auto
  finally show ?thesis by (simp only: word_unat_eq_iff)
qed

lemma build_stack_page:
  assumes ok: "stack_ok m R r page" and fit: "string_bytes args + 8 * length args \<le> 4000"
    and b: "build_stack r args m = (argv, sp, m')"
  obtains o' qs where "sp = stack_page + of_nat o'" "argv = sp + 8" "(o' + 8) mod 16 = 0" "o' + 8 * length args + 16 < 4096"
    "stack_ok m' R r page" "below m m' page 4074" "length qs = length args"
    "\<forall>i<length (stack_quads (map (\<lambda>q. stack_page + of_nat q) qs)).
       qw page m' (o' + 8 * i) = stack_quads (map (\<lambda>q. stack_page + of_nat q) qs) ! i"
    "\<forall>i<length args. string_at page m' (qs ! i) (args ! i)" "\<forall>j<10. pg page m' (4064 + j) = exit_stub ! j"
proof -
  let ?S = "string_bytes args"
  have sv: "stub_vaddr = stack_page + of_nat 4064" by simp
  have vp: "paging_virt_to_phys r stub_vaddr m = page + of_nat 4064" unfolding sv by (rule stack_okD(2)[OF ok]) simp
  define m0 where "m0 = put_bytes (page + of_nat 4064) exit_stub m"
  have len: "length exit_stub = 10" by (simp add: exit_stub_def)
  have l2: "4064 + length exit_stub \<le> 4096" by (simp add: len)
  note B0 = put_bytes_below[OF stack_okD(1)[OF ok] l2, where m = m, folded m0_def, unfolded len]
  have ok0: "stack_ok m0 R r page" by (rule below_stack_ok[OF ok B0(1)])
  obtain sp1 ptrs m1 where f: "fold (push_string r) (rev args) (stack_page + of_nat 4064, [], m0) = (sp1, ptrs, m1)"
    by (cases "fold (push_string r) (rev args) (stack_page + of_nat 4064, [], m0)") auto
  have rv: "string_bytes (rev args) = ?S" by (simp add: rev_map[symmetric] sum_list_rev)
  note P = push_strings[OF ok0 _ _ f, unfolded rv]
  define o1 where "o1 = 4064 - ?S"
  have P': "sp1 = stack_page + of_nat o1" "below m0 m1 page 4064"
    "\<exists>qs. ptrs = map (\<lambda>q. stack_page + of_nat q) (rev qs) @ [] \<and> list_all2 (\<lambda>q s. o1 \<le> q \<and> string_at page m1 q s) qs (rev args)"
    using P fit unfolding o1_def by auto
  then obtain qs' where qs': "ptrs = map (\<lambda>q. stack_page + of_nat q) (rev qs')"
    "list_all2 (\<lambda>q s. o1 \<le> q \<and> string_at page m1 q s) qs' (rev args)" by auto
  define qs where "qs = rev qs'"
  have qs: "list_all2 (\<lambda>q s. o1 \<le> q \<and> string_at page m1 q s) qs args" "ptrs = map (\<lambda>q. stack_page + of_nat q) qs"
    using qs' by (simp_all add: qs_def list_all2_rev1)
  have lq: "length qs = length args" using qs(1) by (rule list_all2_lengthD)
  define o2 where "o2 = o1 div 16 * 16"
  have o: "o2 \<le> o1" "o1 < o2 + 16" "o2 mod 16 = 0" "o1 < 4096" "o1 \<le> 4064" by (simp_all add: o2_def o1_def)
  let ?vs = "stack_quads ptrs"
  have lv: "length ?vs = (if even (length args) then length args + 3 else length args + 2)"
    using lq qs(2) by (simp add: stack_quads_def)
  have ok1: "stack_ok m1 R r page" by (rule below_stack_ok[OF ok0 P'(2)])
  have "fold (push_quad r) (rev ?vs) (sp1 AND NOT 0xF, m1) = (sp, m') \<and> argv = sp + 8"
    by (rule build_stack_quads[OF b]) (use f lq qs(2) vp sv in \<open>simp_all add: m0_def\<close>)
  moreover have "sp1 AND NOT 0xF = stack_page + of_nat o2" unfolding P'(1) o2_def by (rule align16[OF o(4)])
  ultimately have fq: "fold (push_quad r) (rev ?vs) (stack_page + of_nat o2, m1) = (sp, m')" and argv: "argv = sp + 8" by simp_all
  define o' where "o' = o2 - 8 * length ?vs"
  have "8 * length ?vs \<le> o2" using fit o lv by (simp add: o1_def split: if_splits)
  then have oo: "o' + 8 * length ?vs = o2" by (simp add: o'_def)
  have "odd (length ?vs)" using lv by simp
  then obtain k where k: "length ?vs = 2 * k + 1" by (auto elim: oddE)
  have o16: "(o' + 8) mod 16 = 0" by (rule slots_mod_16(1)[of _ k]) (use oo o(3) k in simp)
  have o8: "o' mod 8 = 0" by (rule slots_mod_16(2)[of _ k]) (use oo o(3) k in simp)
  note Q = push_quads[OF ok1 _ o8, of ?vs, unfolded oo, OF _ fq]
  have Q': "sp = stack_page + of_nat o'" "below m1 m' page o2" "stack_ok m' R r page" "\<forall>i<length ?vs. qw page m' (o' + 8 * i) = ?vs ! i"
    using Q o by auto
  show ?thesis
  proof (rule that[of o' qs])
    show "o' + 8 * length args + 16 < 4096" using oo lv o by (simp split: if_splits)
    have "below m m1 page 4074" using below_trans[OF B0(1) P'(2)] by simp
    from below_trans[OF this Q'(2)] show "below m m' page 4074" using o by simp
    show "\<forall>i<length args. string_at page m' (qs ! i) (args ! i)"
    proof (intro allI impI)
      fix i assume "i < length args"
      then have "o1 \<le> qs ! i" "string_at page m1 (qs ! i) (args ! i)" using qs(1) lq by (auto simp: list_all2_conv_all_nth)
      then show "string_at page m' (qs ! i) (args ! i)" using string_at_below[OF _ Q'(2)] o(1) by simp
    qed
    show "\<forall>j<10. pg page m' (4064 + j) = exit_stub ! j"
    proof (intro allI impI)
      fix j :: nat assume j: "j < 10"
      have "pg page m' (4064 + j) = pg page m1 (4064 + j)" using Q'(2) o j by (simp add: below_def del: of_nat_add)
      also have "\<dots> = pg page m0 (4064 + j)" using P'(2) j by (simp add: below_def del: of_nat_add)
      finally show "pg page m' (4064 + j) = exit_stub ! j" using B0(2)[of j] j by simp
    qed
  qed (use Q' argv o16 lq qs(2) in simp_all)
qed


section \<open>Properties\<close>

text \<open>Memory as the program reads it.\<close>

definition user_mem8 :: "'a machine_scheme \<Rightarrow> u64 \<Rightarrow> u64 \<Rightarrow> u8" where
  "user_mem8 m r v = get_byte (paging_virt_to_phys r v m) m"

definition user_mem64 :: "'a machine_scheme \<Rightarrow> u64 \<Rightarrow> u64 \<Rightarrow> u64" where
  "user_mem64 m r v = get_qword (paging_virt_to_phys r v m) m"

text \<open>A C string in the memory of the program.\<close>

definition user_string :: "'a machine_scheme \<Rightarrow> u64 \<Rightarrow> u64 \<Rightarrow> cstr \<Rightarrow> bool" where
  "user_string m r p s \<longleftrightarrow> (\<forall>j\<le>length s. user_mem8 m r (p + of_nat j) = (s @ [0]) ! j)"

text \<open>
  C3 (functional): the stack \<^verbatim>\<open>sched_spawn\<close> builds is the one a C program expects.  When the top page of the
  stack is mapped and the arguments fit it, \<^verbatim>\<open>argv\<close> is an array of pointers to copies of the arguments that
  ends in a null pointer, the return address leads to the code of \<^verbatim>\<open>exit(0)\<close>, the stack pointer
  has the alignment of the ABI, \<^verbatim>\<open>(RSP + 8) % 16 == 0\<close>, and no other frame of memory changes.
\<close>

theorem build_stack_correct:
  assumes "spaces_ok m R" "r \<in> R" "pte_of m r stack_page = Some e" "data_page m R (e AND ADDR_MASK)"
    and "string_bytes args + 8 * length args \<le> 4000"
    and "build_stack r args m = (argv, sp, m')"
  shows "argv = sp + 8 \<and> unat (sp + 8) mod 16 = 0 \<and> user_mem64 m' r sp = stub_vaddr \<and>
    (\<forall>j<10. user_mem8 m' r (stub_vaddr + of_nat j) = exit_stub ! j) \<and>
    (\<forall>i<length args. user_string m' r (user_mem64 m' r (argv + of_nat (8 * i))) (args ! i)) \<and>
    user_mem64 m' r (argv + of_nat (8 * length args)) = 0 \<and>
    (\<forall>x. x \<noteq> e AND ADDR_MASK \<longrightarrow> frames m' x = frames m x) \<and> pm m' = pm m"
proof -
  let ?p = "e AND ADDR_MASK"
  obtain o' qs where B: "sp = stack_page + of_nat o'" "argv = sp + 8" "(o' + 8) mod 16 = 0" "o' + 8 * length args + 16 < 4096"
    "stack_ok m' R r ?p" "below m m' ?p 4074" "length qs = length args"
    "\<forall>i<length (stack_quads (map (\<lambda>q. stack_page + of_nat q) qs)).
       qw ?p m' (o' + 8 * i) = stack_quads (map (\<lambda>q. stack_page + of_nat q) qs) ! i"
    "\<forall>i<length args. string_at ?p m' (qs ! i) (args ! i)" "\<forall>j<10. pg ?p m' (4064 + j) = exit_stub ! j"
    by (rule build_stack_page[OF stack_okI[OF assms(1-4)] assms(5,6)])
  note V = stack_okD(2)[OF B(5)]
  let ?vs = "stack_quads (map (\<lambda>q. stack_page + of_nat q) qs)"
  have q: "user_mem64 m' r (stack_page + of_nat x) = qw ?p m' x" if "x < 4096" for x
    unfolding user_mem64_def V[OF that] ..
  have b: "user_mem8 m' r (stack_page + of_nat x) = pg ?p m' x" if "x < 4096" for x
    unfolding user_mem8_def V[OF that] ..
  have lv: "length args + 2 \<le> length ?vs" using B(7) by (simp add: stack_quads_def)
  have av: "argv + of_nat (8 * i) = stack_page + of_nat (o' + 8 * Suc i)" for i by (simp add: B(1,2))
  have qv: "user_mem64 m' r (stack_page + of_nat (o' + 8 * i)) = ?vs ! i" if "i \<le> length args + 1" for i
    using q[of "o' + 8 * i"] B(4,8) lv that by (simp del: of_nat_add of_nat_mult)
  have "unat (sp + 8) mod 16 = 0"
  proof -
    have "sp + 8 = stack_page + of_nat (o' + 8)" by (simp add: B(1))
    then have "unat (sp + 8) = 0x11FF000 + (o' + 8)"
      using page_plus(3)[of stack_page "of_nat (o' + 8)"] B(4) by (simp add: unat_of_nat_small del: of_nat_add)
    then have "unat (sp + 8) = (o' + 8) + 0x11FF00 * 16" by simp
    then show ?thesis using B(3) by (simp only: mod_mult_self1)
  qed
  moreover have "user_mem64 m' r sp = stub_vaddr" using qv[of 0] by (simp add: B(1) stack_quads_def)
  moreover have "user_mem8 m' r (stub_vaddr + of_nat j) = exit_stub ! j" if "j < 10" for j
  proof -
    have eq: "stub_vaddr + of_nat j = stack_page + of_nat (4064 + j)" by simp
    show ?thesis unfolding eq using b[of "4064 + j"] B(10) that by (simp del: of_nat_add)
  qed
  moreover have "user_string m' r (user_mem64 m' r (argv + of_nat (8 * i))) (args ! i)" if i: "i < length args" for i
  proof -
    have "user_mem64 m' r (argv + of_nat (8 * i)) = stack_page + of_nat (qs ! i)"
      unfolding av using qv[of "Suc i"] i B(7) by (simp add: stack_quads_def nth_append)
    moreover have "user_mem8 m' r (stack_page + of_nat (qs ! i) + of_nat j) = (args ! i @ [0]) ! j" if "j \<le> length (args ! i)" for j
    proof -
      have eq: "stack_page + of_nat (qs ! i) + of_nat j = stack_page + of_nat (qs ! i + j)" by simp
      have "qs ! i + j < 4096" "pg ?p m' (qs ! i + j) = (args ! i @ [0]) ! j"
        using B(9) i that unfolding string_at_def by fastforce+
      then show ?thesis unfolding eq using b by metis
    qed
    ultimately show ?thesis by (simp add: user_string_def)
  qed
  moreover have "user_mem64 m' r (argv + of_nat (8 * length args)) = 0"
    unfolding av using qv[of "Suc (length args)"] B(7) by (simp add: stack_quads_def nth_append)
  ultimately show ?thesis using B(2,6) by (auto simp: below_def)
qed


text \<open>The machine of \<open>sample_elf\<close> with one page mapped at the top of the stack.\<close>

definition stack_machine :: machine where
  "stack_machine = sample_machine\<lparr>frames := (\<lambda>_ _. 0)(0x9000 := (\<lambda>i. if i = 0 then 0xA007 else 0),
     0xA000 := (\<lambda>i. if i = 0 then 0xB007 else 0), 0xB000 := (\<lambda>i. if i = 8 then 0xC007 else 0),
     0xC000 := (\<lambda>i. if i = 511 then 0xD207 else 0))\<rparr>"

lemma stack_machine_facts:
  "spaces_ok stack_machine {0x9000}" "pte_of stack_machine 0x9000 stack_page = Some 0xD207"
  "data_page stack_machine {0x9000} 0xD000"
proof -
  let ?m = stack_machine
  have pm: "pm ?m = pm sample_machine" by (simp add: stack_machine_def)
  note nf = low_not_free[OF pm]
  have z: "frames ?m t i = (if t = 0x9000 \<and> i = 0 then 0xA007 else if t = 0xA000 \<and> i = 0 then 0xB007
      else if t = 0xB000 \<and> i = 8 then 0xC007 else if t = 0xC000 \<and> i = 511 then 0xD207 else 0)" for t i
    by (simp add: stack_machine_def)
  have at: "table_path p \<Longrightarrow> table_at ?m 0x9000 p = Some t \<Longrightarrow>
      (p = [] \<and> t = 0x9000) \<or> (p = [0] \<and> t = 0xA000) \<or> (p = [0, 0] \<and> t = 0xB000) \<or> (p = [0, 0, 8] \<and> t = 0xC000)" for p t
  proof -
    assume "table_path p" "table_at ?m 0x9000 p = Some t"
    moreover from this have "length p \<le> 3" by (simp add: table_path_def)
    ultimately show ?thesis
      by (cases p; cases "tl p"; cases "tl (tl p)"; cases "tl (tl (tl p))") (auto simp: table_at.simps(2) z split: if_splits)
  qed
  show "spaces_ok ?m {0x9000}" unfolding spaces_ok_def
  proof (intro conjI ballI allI impI)
    show "pmm_inv (pm ?m)" by (simp add: pm sample_machine_facts)
  next
    fix r p t assume "r \<in> {0x9000 :: u64}" "table_path p" "table_at ?m r p = Some t"
    then have "t < 0x200000" using at[of p t] by auto
    then show "\<not> table_free ?m t" by (rule nf)
  next
    fix r r' p q t
    assume a: "r \<in> {0x9000 :: u64}" "r' \<in> {0x9000}" "table_path p" "table_path q" "table_at ?m r p = Some t" "table_at ?m r' q = Some t"
    then show "r = r'" by simp
    show "p = q" using a at[of p t] at[of q t] by auto
  qed
  show "pte_of ?m 0x9000 stack_page = Some 0xD207"
    by (simp add: pte_of_def table_at.simps(2) z pml4_idx_def pdpt_idx_def pd_idx_def pt_idx_def)
  show "data_page ?m {0x9000} 0xD000" using at nf[of "0xD000"] by (fastforce simp: data_page_def)
qed

theorem build_stack_correct_witness:
  "\<exists>argv sp m'. build_stack 0x9000 [bytes_of ''ls'', bytes_of ''-l''] stack_machine = (argv, sp, m') \<and> unat (sp + 8) mod 16 = 0 \<and>
     user_string m' 0x9000 (user_mem64 m' 0x9000 argv) (bytes_of ''ls'') \<and>
     user_string m' 0x9000 (user_mem64 m' 0x9000 (argv + 8)) (bytes_of ''-l'') \<and> user_mem64 m' 0x9000 (argv + 16) = 0"
proof -
  let ?args = "[bytes_of ''ls'', bytes_of ''-l'']"
  obtain argv sp m' where b: "build_stack 0x9000 ?args stack_machine = (argv, sp, m')"
    by (cases "build_stack 0x9000 ?args stack_machine") auto
  note F = stack_machine_facts
  have d: "data_page stack_machine {0x9000} (0xD207 AND ADDR_MASK)" using F(3) by simp
  have fit: "string_bytes ?args + 8 * length ?args \<le> 4000" by simp
  note C = build_stack_correct [OF F(1) singletonI F(2) d fit b]
  have s: "\<forall>i<length ?args. user_string m' 0x9000 (user_mem64 m' 0x9000 (argv + of_nat (8 * i))) (?args ! i)"
    and n: "user_mem64 m' 0x9000 (argv + of_nat (8 * length ?args)) = 0" and al: "unat (sp + 8) mod 16 = 0" using C by blast+
  have "user_string m' 0x9000 (user_mem64 m' 0x9000 argv) (bytes_of ''ls'')"
    "user_string m' 0x9000 (user_mem64 m' 0x9000 (argv + 8)) (bytes_of ''-l'')"
    using s[rule_format, of 0] s[rule_format, of 1] by simp_all
  moreover have "user_mem64 m' 0x9000 (argv + 16) = 0" using n by simp
  ultimately show ?thesis using b al by (intro exI[of _ argv] exI[of _ sp] exI[of _ m'] conjI)
qed

end
