(* ===== verification/Spawn_Props.thy ===== *)
theory Spawn_Props
  imports Spawn_Stack Syscall_Props
begin

text \<open>
  \<^verbatim>\<open>sched_spawn\<close> and the scheduler: the run queue stays well formed, whatever fails on the way, the other tasks keep
  what is theirs, and a successful call adds one runnable user task with the descriptors and
  the working directory it was given.
\<close>

section \<open>The scheduler's state\<close>

text \<open>The loader works on memory and leaves the part of the kernel that follows it alone.\<close>

lemma memcpy_more: "machine.more (memcpy_local d s n m) = machine.more m"
  unfolding memcpy_local_def by (rule fold_more) simp

lemma memset_more: "machine.more (memset_local d v n m) = machine.more m"
  by (simp add: memset_run)

lemma put_bytes_more: "machine.more (put_bytes d bs m) = machine.more m"
  by (simp add: put_bytes_run)

lemma fill_page_more: "machine.more (fill_page base ph vaddr filesz va page m) = machine.more m"
  by (simp add: fill_page_def Let_def memcpy_more memset_more)

lemma load_page_more:
  assumes "load_page base ph vaddr filesz r va m = (res, m')"
  shows "machine.more m' = machine.more m"
proof -
  have "machine.more m2 = machine.more m1" if "paging_map_user_page r va page fl m1 = (q, m2)"
    for page fl q and m1 m2 :: "'a machine_scheme"
    using map_user_page_more[of r va page fl m1] that by simp
  note mu = this
  from assms show ?thesis
    by (auto simp: load_page_def Let_def fill_page_more dest!: mu split: if_splits prod.splits)
qed

lemma load_pages_more: "load_pages base ph vaddr filesz r vas m = (res, m') \<Longrightarrow> machine.more m' = machine.more m"
proof (induction vas arbitrary: m)
  case (Cons va vas)
  obtain q m1 where l: "load_page base ph vaddr filesz r va m = (q, m1)" by (cases "load_page base ph vaddr filesz r va m")
  with load_page_more[OF l] Cons show ?case by (auto split: if_splits)
qed simp

lemma load_segment_more: "load_segment base r phb i m = (res, m') \<Longrightarrow> machine.more m' = machine.more m"
  using load_pages_more by (fastforce simp: load_segment_def Let_def split: if_splits)

lemma each_phdr_more:
  assumes g: "\<And>i m res m'. g i m = (res, m') \<Longrightarrow> machine.more m' = machine.more m"
  shows "each_phdr g base i m = (res, m') \<Longrightarrow> machine.more m' = machine.more m"
  using g
proof (induction g base i m rule: each_phdr.induct)
  case (1 g base i m)
  show ?case
  proof (cases "i < unat (e_phnum (mem_bytes base m))")
    case True
    obtain q m1 where q: "g i m = (q, m1)" by (cases "g i m")
    have e: "(if q < 0 then (q, m1) else each_phdr g base (Suc i) m1) = (res, m')"
      using 1(2) True q by (subst (asm) each_phdr.simps) simp
    show ?thesis
    proof (cases "q < 0")
      case False
      with e 1(1)[OF True q[symmetric] False] 1(3) have "machine.more m' = machine.more m1" by simp
      with 1(3)[OF q] show ?thesis by simp
    qed (use e 1(3)[OF q] in auto)
  next
    case False
    then show ?thesis using 1(2) by (subst (asm) each_phdr.simps) simp
  qed
qed

lemma load_segments_mapped_more:
  "load_segments_mapped base r m = (res, m') \<Longrightarrow> machine.more m' = machine.more m"
  unfolding load_segments_mapped_def by (rule each_phdr_more) (rule load_segment_more)

lemma alloc_rest_moreD: "alloc_rest n m = (ok, m') \<Longrightarrow> machine.more m' = machine.more m"
  using alloc_rest_more[of n m] by simp

lemma loader_init_more: "elf_loader_init l m = (r, l', m') \<Longrightarrow> machine.more m' = machine.more m"
  by (auto simp: elf_loader_init_def Let_def dest!: alloc_rest_moreD split: if_splits prod.splits)

lemma say_kern [simp]: "kern (snd (say msg st)) = kern (snd st)" "kern (snd (say_int n st)) = kern (snd st)"
  by (simp_all add: say_def say_int_def split: prod.splits)

lemma elf_read_more:
  assumes bad: "\<And>hv st. kern (snd (bad hv st)) = kern (snd st)"
    and rd: "elf_read node bad (l, s) = Some (Done (r, st'))"
  shows "machine.more (kern (snd st')) = machine.more (kern s)"
proof -
  obtain q l1 k1 where i: "elf_loader_init l (kern s) = (q, l1, k1)" by (cases "elf_loader_init l (kern s)") auto
  note I = loader_init_more[OF i]
  have b: "kern (snd (bad hv (x, y))) = kern y" for hv x y using bad[of hv "(x, y)"] by simp
  have sy: "kern (snd (say msg (x, y))) = kern y" for msg x y using say_kern(1)[of msg "(x, y)"] by simp
  show ?thesis
  proof (cases "is_file node (vol s) \<and> \<not> q < 0 \<and> \<not> v_size (node_of node (vol s)) > ELF_MAX_SIZE")
    case False
    then show ?thesis using rd by (auto simp: elf_read_def i Let_def I sy split: if_splits)
  next
    case True
    let ?s = "s\<lparr>kern := k1\<rparr>"
    obtain o1 v where v: "vfs_read node 0 (v_size (node_of node (vol s))) (vol s) = Some (o1, v)"
      using rd True by (auto simp: elf_read_def i Let_def bind_eq_Some_conv)
    show ?thesis
    proof (cases o1)
      case Undef
      then show ?thesis using rd True v by (simp add: elf_read_def i Let_def)
    next
      case (Done o2)
      show ?thesis
      proof (cases o2)
        case None
        then have "st' = say (bytes_of ''exec: read failed'' @ newline) (l1, ?s\<lparr>vol := v\<rparr>)"
          using rd True v Done by (simp add: elf_read_def i Let_def)
        then show ?thesis by (simp only: sy) (simp add: I)
      next
        case (Some bs)
        let ?s2 = "s\<lparr>vol := v, kern := put_bytes (elf_file_buf l1) bs k1\<rparr>"
        have "st' = say (bytes_of ''exec: read failed'' @ newline) (l1, ?s2) \<or> (\<exists>hv. st' = bad hv (l1, ?s2)) \<or> st' = (l1, ?s2)"
          using rd True v Done Some by (auto simp: elf_read_def i Let_def split: if_splits)
        then show ?thesis using b sy by (elim disjE exE) (simp_all add: I put_bytes_more)
      qed
    qed
  qed
qed

lemma elf_load_into_more:
  assumes "elf_load_into node r (l, s) = Some (Done (x, l', s'))"
  shows "machine.more (kern s') = machine.more (kern s)"
proof -
  let ?bad = "\<lambda>hv. say (bytes_of '')'' @ newline) \<circ> say_int hv \<circ> say (bytes_of ''exec: invalid ELF ('')"
  obtain q l1 s1 where rd: "elf_read node ?bad (l, s) = Some (Done (q, l1, s1))"
    using assms by (cases "elf_read node ?bad (l, s)") (auto simp: elf_load_into_def split: outcome.splits)
  have R: "machine.more (kern s1) = machine.more (kern s)" using elf_read_more[OF _ rd] by simp
  obtain q2 k2 where ld: "load_segments_mapped (elf_file_buf l1) r (kern s1) = (q2, k2)"
    by (cases "load_segments_mapped (elf_file_buf l1) r (kern s1)")
  from assms ld R load_segments_mapped_more[OF ld] show ?thesis
    unfolding elf_load_into_def rd by (auto simp: Let_def say_def split: if_splits)
qed

lemma map_framebuffer_more: "machine.more (map_framebuffer r f m) = machine.more m"
  unfolding map_framebuffer_def Let_def by (auto intro!: fold_more simp: map_kernel_page_more)

lemma map_ustack_more: "map_ustack r is m = (ok, m') \<Longrightarrow> machine.more m' = machine.more m"
proof (induction "is" arbitrary: m)
  case (Cons i "is")
  show ?case using Cons.prems
    by (auto simp: Let_def map_user_page_more mem_zero_more dest!: Cons.IH split: prod.splits if_splits)
qed simp

lemma build_stack_more:
  assumes "build_stack r args m = (argv, sp, m')"
  shows "machine.more m' = machine.more m"
proof -
  have ps: "machine.more (snd (snd (fold (push_string r) ss st))) = machine.more (snd (snd st))" for ss st
    by (induction ss arbitrary: st) (auto simp: push_string_def Let_def put_bytes_more split: prod.splits)
  have pq: "machine.more (snd (push_quad r v st)) = machine.more (snd st)" for v st
    by (simp add: push_quad_def Let_def put_qword_more split: prod.splits)
  have pqs: "machine.more (snd (fold (push_quad r) vs st)) = machine.more (snd st)" for vs st
    by (induction vs arbitrary: st) (simp_all add: pq)
  let ?m0 = "put_bytes (paging_virt_to_phys r stub_vaddr m) exit_stub m"
  obtain sp1 ptrs m1 where f: "fold (push_string r) (rev args) (stub_vaddr, [], ?m0) = (sp1, ptrs, m1)"
    by (cases "fold (push_string r) (rev args) (stub_vaddr, [], ?m0)") auto
  have 1: "machine.more m1 = machine.more m" using ps[of "rev args" "(stub_vaddr, [], ?m0)"] unfolding f by (simp add: put_bytes_more)
  define vs where "vs = (if even (length args) then [0] else []) @ [0] @ rev ptrs @ [stub_vaddr]"
  have "snd (fold (push_quad r) vs (sp1 AND NOT 0xF, m1)) = m'"
    using assms f by (auto simp: build_stack_def Let_def vs_def split: prod.splits if_splits)
  with pqs[of vs "(sp1 AND NOT 0xF, m1)"] 1 show ?thesis by simp
qed


section \<open>The new task\<close>

lemma give_kstack_task:
  assumes "give_kstack t k = (True, k')"
  shows "\<exists>b. tasks k' = (tasks k)(t := (tasks k t)\<lparr>kernel_stack_base := b, kernel_stack_top := b + KSTACK_SIZE\<rparr>)"
proof -
  obtain b k1 where a: "alloc_stack KSTACK_PAGES k = (b, k1)" by (cases "alloc_stack KSTACK_PAGES k")
  have 1: "tasks k1 = tasks k" using kernel_part(1)[of k1 k] alloc_stack_more[of KSTACK_PAGES k] a by simp
  let ?k3 = "upd_task t (\<lambda>x. x\<lparr>kernel_stack_base := b, kernel_stack_top := b + KSTACK_SIZE\<rparr>) (k1\<lparr>kstacks := (kstacks k1)(t := b)\<rparr>)"
  have "k' = paging_mark_supervisor_region b KSTACK_SIZE ?k3"
    using assms a by (auto simp: give_kstack_def Let_def split: if_splits)
  then have "tasks k' = tasks ?k3" using kernel_part(1)[OF mark_supervisor_more[of b KSTACK_SIZE ?k3]] by simp
  with 1 show ?thesis by (intro exI[of _ b]) (simp add: upd_task_def)
qed

text \<open>What a spawned task looks like, given its slot before and the caller.\<close>

definition spawned :: "(nat \<Rightarrow> fd_entry) option \<Rightarrow> task option \<Rightarrow> u64 \<Rightarrow> task \<Rightarrow> bool" where
  "spawned fds parent entry x \<longleftrightarrow> task_state x = Runnable \<and> is_user x \<and> task_entry x = entry \<and> task_pgid x = ucast (task_id x) \<and>
     parent_id x = (case parent of None \<Rightarrow> 0 | Some p \<Rightarrow> ucast (task_id p)) \<and>
     (\<forall>f i. fds = Some f \<longrightarrow> i < MAX_FDS \<longrightarrow> fd_table x i = f i) \<and>
     (\<forall>p. parent = Some p \<longrightarrow> (let n = cstr_len (task_cwd p) 255
        in (\<forall>i<n. task_cwd x i = task_cwd p i) \<and> task_cwd x n = 0))"

lemma start_task_ok:
  fixes k k' :: kernel
  assumes P: "pending_inv t k" and run: "task_state (tasks k t) = Runnable"
    and k'_def: "k' = start_task t entry argc argv sp fds k"
  shows "sched_inv k'" "current k' = current k" "others t k k'" "used_slots k' = used_slots k"
    "task_id (tasks k' t) = task_id (tasks k t)" "spawned fds (map_option (tasks k) (current k)) entry (tasks k' t)"
proof -
  define fr where "fr = kernel_stack_top (tasks k t) - 176"
  define parent where "parent = map_option (tasks k) (current k)"
  define k1 where "k1 = put_fields fr [(off_rip, entry), (off_cs, 0x23), (off_rflags, 0x202), (off_rdi, of_nat argc),
                (off_rsi, argv), (off_rsp, sp), (off_ss, 0x1B)] (mem_zero fr 22 k)"
  define f :: "task \<Rightarrow> task" where "f = (\<lambda>x. x\<lparr>user_stack_top := USER_STACK_TOP, task_rsp := fr, task_entry := entry,
           is_user := True, parent_id := (case parent of Some p \<Rightarrow> ucast (task_id p) | None \<Rightarrow> 0),
           task_pgid := ucast (task_id x),
           fd_table := (case fds of None \<Rightarrow> fd_table x
                        | Some g \<Rightarrow> fold (\<lambda>i tb. tb(i := g i)) [0..<MAX_FDS] (fd_table x)),
           task_cwd := inherit_cwd parent (task_cwd x)\<rparr>)"
  have k': "k' = enqueue t (upd_task t f k1)"
    by (simp add: k'_def start_task_def Let_def k1_def fr_def f_def parent_def)
  have m: "machine.more k1 = machine.more k" by (simp add: k1_def put_fields_more mem_zero_more)
  note K = kernel_part[OF m]
  have keep: "keeps k (upd_task t f k1)"
    by (rule keeps_trans[OF keeps_more[OF m]]) (rule keeps_upd_task, simp_all add: f_def)
  show "sched_inv k'" unfolding k' by (rule enqueue_pending_inv[OF keeps_pending[OF keep P]])
  have q: "current (enqueue t k2) = current k2" "task_state (tasks (enqueue t k2) i) = task_state (tasks k2 i)"
    "task_id (tasks (enqueue t k2) i) = task_id (tasks k2 i)" for k2 :: kernel and i
    by (auto simp: enqueue_def Let_def split: option.splits)
  show "current k' = current k" by (simp add: k' q K)
  show "others t k k'" unfolding k' by (rule others_trans[OF others_trans[OF others_more[OF m] others_upd] others_enqueue])
  show "used_slots k' = used_slots k" by (auto simp: used_slots_def k' q K f_def)
  show "task_id (tasks k' t) = task_id (tasks k t)" by (simp add: k' q K f_def)
  have x: "\<exists>nx. tasks k' t = (f (tasks k t))\<lparr>task_next := nx\<rparr>"
    by (auto simp: k' enqueue_def Let_def K split: option.splits)
  then obtain nx where x: "tasks k' t = (f (tasks k t))\<lparr>task_next := nx\<rparr>" ..
  have fold: "fold (\<lambda>i tb. tb(i := g i)) [0..<n] tb i = (if i < n then g i else tb i)" for g tb i n
    by (induction n) auto
  show "spawned fds (map_option (tasks k) (current k)) entry (tasks k' t)"
    unfolding spawned_def parent_def[symmetric] x
    by (auto simp: f_def run fold inherit_cwd_def Let_def blit_def split: option.splits)
qed


lemma used_slots_release: "used_slots (release_slot t k) = used_slots k - {t}"
  by (auto simp: used_slots_def release_slot_def)

lemma others_release: "others t k (release_slot t k)"
  unfolding release_slot_def by (rule others_upd)

lemma current_release: "current (release_slot t k) = current k"
  by (simp add: release_slot_def)

text \<open>Giving the slot up after a failure.\<close>

lemma give_up:
  fixes k k1 :: kernel
  assumes "pending_inv t k" "keeps k k1" "others t k k1" "used_slots k = insert t U" "t \<notin> U"
  shows "sched_inv (release_slot t k1) \<and> current (release_slot t k1) = current k \<and> others t k (release_slot t k1) \<and>
    used_slots (release_slot t k1) = U"
  using release_slot_inv[OF keeps_pending[OF assms(2,1)]] keeps_used_slots[OF assms(2)] assms(2,4,5)
    others_trans[OF assms(3) others_release]
  by (auto simp: used_slots_release current_release keeps_def)

lemma finish_spawn_ok:
  fixes k k' :: kernel
  assumes P: "pending_inv t k" and us: "used_slots k = insert t U" "t \<notin> U"
    and run: "task_state (tasks k t) = Runnable" and cur: "current k \<noteq> Some t"
    and f: "finish_spawn t r entry args fds fb k = (pid, k')"
  shows "sched_inv k' \<and> current k' = current k \<and> others t k k' \<and>
    (pid = -1 \<and> used_slots k' = U \<or>
     used_slots k' = insert t U \<and> pid = ucast (task_id (tasks k' t)) \<and> task_id (tasks k' t) = task_id (tasks k t) \<and>
       spawned fds (map_option (tasks k) (current k)) entry (tasks k' t))"
proof -
  define k1 where "k1 = map_framebuffer r fb k"
  have m1: "machine.more k1 = machine.more k" by (simp add: k1_def map_framebuffer_more)
  obtain ok k2 where g: "give_kstack t k1 = (ok, k2)" by (cases "give_kstack t k1")
  have K2: "keeps k k2" by (rule keeps_trans[OF keeps_more[OF m1] give_kstack_keeps[OF g]])
  have O2: "others t k k2" by (rule others_trans[OF others_more[OF m1] others_kstack[OF g]])
  show ?thesis
  proof (cases ok)
    case False
    then have "pid = -1" "k' = release_slot t (paging_free_user_space r k2)" using f g by (simp_all add: finish_spawn_def k1_def)
    moreover have "keeps k (paging_free_user_space r k2)" by (rule keeps_trans[OF K2 keeps_more[OF free_space_more]])
    moreover have "others t k (paging_free_user_space r k2)" by (rule others_trans[OF O2 others_more[OF free_space_more]])
    ultimately show ?thesis using give_up[OF P _ _ us] by blast
  next
    case True
    obtain ok3 k3 where u: "map_ustack r [0..<USTACK_PAGES] k2 = (ok3, k3)" by (cases "map_ustack r [0..<USTACK_PAGES] k2")
    note m3 = map_ustack_more[OF u]
    have K3: "keeps k k3" and O3: "others t k k3"
      by (rule keeps_trans[OF K2 keeps_more[OF m3]], rule others_trans[OF O2 others_more[OF m3]])
    show ?thesis
    proof (cases ok3)
      case False
      then have "pid = -1" "k' = release_slot t k3" using f g True u by (simp_all add: finish_spawn_def k1_def)
      then show ?thesis using give_up[OF P K3 O3 us] by blast
    next
      case ok3: True
      obtain argv sp k4 where b: "build_stack r (spawn_args args) k3 = (argv, sp, k4)"
        by (cases "build_stack r (spawn_args args) k3") auto
      note m4 = build_stack_more[OF b]
      have K4: "keeps k k4" and O4: "others t k k4"
        by (rule keeps_trans[OF K3 keeps_more[OF m4]], rule others_trans[OF O3 others_more[OF m4]])
      define k5 where "k5 = start_task t entry (length (spawn_args args)) argv sp fds k4"
      have r: "k' = k5" "pid = ucast (task_id (tasks k5 t))"
        using f g True u ok3 b by (auto simp: finish_spawn_def k1_def Let_def k5_def)
      obtain b where tk: "tasks k4 = (tasks k)(t := (tasks k t)\<lparr>kernel_stack_base := b, kernel_stack_top := b + KSTACK_SIZE\<rparr>)"
        using give_kstack_task g True kernel_part(1)[OF m4] kernel_part(1)[OF m3] kernel_part(1)[OF m1] by metis
      have run4: "task_state (tasks k4 t) = Runnable" using run by (simp add: tk)
      note S = start_task_ok[OF keeps_pending[OF K4 P] run4 k5_def]
      have c4: "current k4 = current k" using K4 by (simp add: keeps_def)
      have "map_option (tasks k4) (current k4) = map_option (tasks k) (current k)"
        using cur by (cases "current k") (auto simp: c4 tk)
      moreover have "task_id (tasks k4 t) = task_id (tasks k t)" by (simp add: tk)
      ultimately show ?thesis
        using S others_trans[OF O4 S(3)] keeps_used_slots[OF K4] us(1) by (auto simp: r c4)
    qed
  qed
qed

section \<open>Properties\<close>

lemma sched_spawn_ok:
  assumes inv: "sched_inv (kern s)" and nx: "next_task_id (kern s) \<noteq> -1"
    and sp: "sched_spawn path args fds (l, s) = Some (Done (pid, l', s'))"
  shows "sched_inv (kern s') \<and> current (kern s') = current (kern s) \<and>
    (\<forall>i\<in>used_slots (kern s). own_state (tasks (kern s') i) = own_state (tasks (kern s) i)) \<and>
    (pid = -1 \<and> used_slots (kern s') = used_slots (kern s) \<or>
     (\<exists>t entry. t \<notin> used_slots (kern s) \<and> used_slots (kern s') = insert t (used_slots (kern s)) \<and>
        task_id (tasks (kern s') t) = next_task_id (kern s) \<and> pid = ucast (next_task_id (kern s)) \<and>
        spawned fds (map_option (tasks (kern s)) (current (kern s))) entry (tasks (kern s') t)))"
proof -
  obtain node v where rs: "resolve path (vol s) = Some (node, v)"
    using sp by (auto simp: sched_spawn_def bind_eq_Some_conv)
  let ?s = "s\<lparr>vol := v\<rparr>"
  show ?thesis
  proof (cases "\<exists>n. node = Some n \<and> is_file n v \<and> fst (alloc_task (kern s)) \<noteq> None")
    case False
    have "snd (alloc_task (kern s)) = kern s" if "fst (alloc_task (kern s)) = None"
      using that by (auto simp: alloc_task_def split: option.splits)
    then have "pid = -1 \<and> kern s' = kern s"
      using sp rs False by (auto simp: sched_spawn_def Let_def split: option.splits if_splits prod.splits)
    with inv show ?thesis by simp
  next
    case True
    then obtain n t k1 where n: "node = Some n" "is_file n v" and al: "alloc_task (kern s) = (Some t, k1)"
      by (cases "alloc_task (kern s)") auto
    note A = alloc_task_pending[OF inv al nx]
    have O1: "others t (kern s) k1" using A(6) by (simp add: others_def)
    have run: "task_state (tasks k1 t) = Runnable"
      using al by (auto simp: alloc_task_def fresh_task_def task_fd_init_def split: option.splits)
    have cur: "current (kern s) \<noteq> Some t" using inv A(2) by (auto simp: sched_inv_def)
    obtain r k2 where ns: "paging_new_user_space k1 = (r, k2)" by (cases "paging_new_user_space k1")
    have m2: "machine.more k2 = machine.more k1" using new_user_space_more[of k1] ns by simp
    have own: "others t (kern s) k \<Longrightarrow> \<forall>i\<in>used_slots (kern s). own_state (tasks k i) = own_state (tasks (kern s) i)" for k
      using A(2) by (auto simp: others_def)
    have fail: ?thesis if "pid = -1" "kern s' = release_slot t k" "keeps k1 k" "others t k1 k" for k
      using give_up[OF A(1) that(3,4) A(3,2)] others_trans[OF O1] own[of "kern s'"] that(1,2) A(4) by auto
    show ?thesis
    proof (cases "r = 0")
      case True
      then have "pid = -1" "kern s' = release_slot t k2" using sp rs n al ns by (auto simp: sched_spawn_def Let_def)
      then show ?thesis by (rule fail) (rule keeps_more[OF m2], rule others_more[OF m2])
    next
      case False
      let ?k3 = "upd_task t (\<lambda>x. x\<lparr>task_cr3 := r\<rparr>) k2"
      have K3: "keeps k1 ?k3" by (rule keeps_trans[OF keeps_more[OF m2]]) (rule keeps_upd_task, simp_all)
      have O3: "others t k1 ?k3" by (rule others_trans[OF others_more[OF m2] others_upd])
      obtain code entry l1 s1 where ld: "elf_load_into n r (l, ?s\<lparr>kern := ?k3\<rparr>) = Some (Done ((code, entry), l1, s1))"
        and rest: "(if code < 0
          then Some (Done (-1, l1, s1\<lparr>kern := release_slot t (paging_free_user_space r (kern s1))\<rparr>))
          else case finish_spawn t r entry args fds (screen (cons s1)) (kern s1) of
            (pid, k) \<Rightarrow> Some (Done (pid, l1, s1\<lparr>kern := k\<rparr>))) = Some (Done (pid, l', s'))"
        using sp rs n al ns False
        by (cases "elf_load_into n r (l, ?s\<lparr>kern := ?k3\<rparr>)") (auto simp: sched_spawn_def Let_def split: outcome.splits)
      have m4: "machine.more (kern s1) = machine.more ?k3" using elf_load_into_more[OF ld] by simp
      have K4: "keeps k1 (kern s1)" by (rule keeps_trans[OF K3 keeps_more[OF m4]])
      have O4: "others t k1 (kern s1)" by (rule others_trans[OF O3 others_more[OF m4]])
      show ?thesis
      proof (cases "code < 0")
        case True
        then have "pid = -1" "kern s' = release_slot t (paging_free_user_space r (kern s1))" using rest by auto
        then show ?thesis
          by (rule fail) (rule keeps_trans[OF K4 keeps_more[OF free_space_more]], rule others_trans[OF O4 others_more[OF free_space_more]])
      next
        case False
        obtain pid2 k5 where fs: "finish_spawn t r entry args fds (screen (cons s1)) (kern s1) = (pid2, k5)"
          by (cases "finish_spawn t r entry args fds (screen (cons s1)) (kern s1)")
        have k5: "pid2 = pid" "kern s' = k5" using rest False fs by auto
        have tk: "tasks (kern s1) = (tasks k1)(t := (tasks k1 t)\<lparr>task_cr3 := r\<rparr>)" "current (kern s1) = current (kern s)"
          using kernel_part[OF m4] kernel_part[OF m2] A(4) by (simp_all add: upd_task_def)
        have us: "used_slots (kern s1) = insert t (used_slots (kern s))" using keeps_used_slots[OF K4] A(3) by simp
        have run1: "task_state (tasks (kern s1) t) = Runnable" using run by (simp add: tk)
        have cur1: "current (kern s1) \<noteq> Some t" using cur by (simp add: tk)
        note F = finish_spawn_ok[OF keeps_pending[OF K4 A(1)] us A(2) run1 cur1 fs]
        have o5: "others t (kern s) k5" using others_trans[OF others_trans[OF O1 O4]] F by blast
        have par: "map_option (tasks (kern s1)) (current (kern s1)) = map_option (tasks (kern s)) (current (kern s))"
          using cur A(6) by (cases "current (kern s)") (auto simp: tk)
        have id: "task_id (tasks (kern s1) t) = next_task_id (kern s)" using A(5) by (simp add: tk)
        show ?thesis using F own[OF o5] A(2) unfolding par id k5(1) by (auto simp: k5(2) tk(2))
      qed
    qed
  qed
qed



text \<open>A volume whose root is a file too large for the loader.\<close>

definition oversized :: system where
  "oversized = sample_shell\<lparr>vol := fat.extend (upd_node 1 (\<lambda>n. n\<lparr>v_size := 0x100000\<rparr>) sample_open) (volume.fields (Some 1))\<rparr>"

lemma load_too_large:
  assumes "is_file n (vol s)" "v_size (node_of n (vol s)) > ELF_MAX_SIZE"
  shows "\<exists>c st. elf_load_into n r (l, s) = Some (Done ((c, 0), st)) \<and> c < 0"
proof -
  obtain q l1 k1 where i: "elf_loader_init l (kern s) = (q, l1, k1)" by (cases "elf_loader_init l (kern s)") auto
  show ?thesis using assms
    by (auto simp: elf_load_into_def elf_read_def i Let_def split: prod.splits if_splits)
qed

lemma oversized_facts:
  "kern oversized = kern sample_shell" "resolve [SLASH] (vol oversized) = Some (Some 1, vol oversized)"
  "is_file 1 (vol oversized)" "v_size (node_of 1 (vol oversized)) > ELF_MAX_SIZE" "sched_inv (kern oversized)"
  "used_slots (kern oversized) = {0, 1}" "next_task_id (kern oversized) \<noteq> -1"
proof -
  show k: "kern oversized = kern sample_shell" by (simp add: oversized_def)
  have K: "keeps sample_kernel (kern sample_shell)"
    by (simp add: sample_shell_def sample_system_def keeps_def)
  show "resolve [SLASH] (vol oversized) = Some (Some 1, vol oversized)"
    by (simp add: resolve_def vfs_resolve_path_def oversized_def fat.defs volume.defs)
  show "is_file 1 (vol oversized)" "v_size (node_of 1 (vol oversized)) > ELF_MAX_SIZE"
    using sample_open_node(3) by (simp_all add: oversized_def fat.defs volume.defs is_file_def upd_node_def node_of_def)
  show "sched_inv (kern oversized)" unfolding k by (rule keeps_inv[OF K sample_kernel_inv])
  show "used_slots (kern oversized) = {0, 1}" unfolding k keeps_used_slots[OF K] by (rule sample_kernel_slots)
  show "next_task_id (kern oversized) \<noteq> -1" using K unfolding k by (simp add: keeps_def sample_kernel_def)
qed


end
