(* ===== verification/Libsys.thy ===== *)
theory Libsys
  imports Syscall_Props
begin

text \<open>
  The program's side of a system call: the entry code \<^verbatim>\<open>kernel/syscall_entry.asm\<close>, which moves the
  argument registers into those of the C calling convention, and the library
  \<^verbatim>\<open>uapi/libsys.h\<close> that programs are compiled with.  The wrappers widen their arguments to 64 bits, execute
  \<^verbatim>\<open>syscall\<close> and narrow the answer; what the registers hold that a wrapper does not set is whatever the program
  computed before.
\<close>

section \<open>Registers and the entry code\<close>

text \<open>The registers at the \<^verbatim>\<open>syscall\<close> instruction: those saved for \<^verbatim>\<open>fork\<close> and those of the arguments.\<close>

record user_regs = user_context +
  reg_rdi :: u64
  reg_rsi :: u64
  reg_rdx :: u64
  reg_r10 :: u64
  reg_r8 :: u64

text \<open>The snapshot the entry code takes.\<close>

definition entered :: "user_regs \<Rightarrow> system \<Rightarrow> system" where
  "entered r s = s\<lparr>kern := (kern s)\<lparr>user_ctx := user_context.truncate r\<rparr>\<rparr>"

definition syscall_entry :: "u64 \<Rightarrow> user_regs \<Rightarrow> system \<Rightarrow> sysres" where
  "syscall_entry rax r s = syscall_handler rax (reg_rdi r) (reg_rsi r) (reg_rdx r) (reg_r10 r) (reg_r8 r) (entered r s)"

definition syscall0 :: "u64 \<Rightarrow> user_regs \<Rightarrow> system \<Rightarrow> sysres" where
  "syscall0 num r = syscall_entry num r"

definition syscall1 :: "u64 \<Rightarrow> u64 \<Rightarrow> user_regs \<Rightarrow> system \<Rightarrow> sysres" where
  "syscall1 num a1 r = syscall_entry num (r\<lparr>reg_rdi := a1\<rparr>)"

definition syscall2 :: "u64 \<Rightarrow> u64 \<Rightarrow> u64 \<Rightarrow> user_regs \<Rightarrow> system \<Rightarrow> sysres" where
  "syscall2 num a1 a2 r = syscall_entry num (r\<lparr>reg_rdi := a1, reg_rsi := a2\<rparr>)"

definition syscall3 :: "u64 \<Rightarrow> u64 \<Rightarrow> u64 \<Rightarrow> u64 \<Rightarrow> user_regs \<Rightarrow> system \<Rightarrow> sysres" where
  "syscall3 num a1 a2 a3 r = syscall_entry num (r\<lparr>reg_rdi := a1, reg_rsi := a2, reg_rdx := a3\<rparr>)"

definition syscall4 :: "u64 \<Rightarrow> u64 \<Rightarrow> u64 \<Rightarrow> u64 \<Rightarrow> u64 \<Rightarrow> user_regs \<Rightarrow> system \<Rightarrow> sysres" where
  "syscall4 num a1 a2 a3 a4 r = syscall_entry num (r\<lparr>reg_rdi := a1, reg_rsi := a2, reg_rdx := a3, reg_r10 := a4\<rparr>)"

definition syscall5 :: "u64 \<Rightarrow> u64 \<Rightarrow> u64 \<Rightarrow> u64 \<Rightarrow> u64 \<Rightarrow> u64 \<Rightarrow> user_regs \<Rightarrow> system \<Rightarrow> sysres" where
  "syscall5 num a1 a2 a3 a4 a5 r =
     syscall_entry num (r\<lparr>reg_rdi := a1, reg_rsi := a2, reg_rdx := a3, reg_r10 := a4, reg_r8 := a5\<rparr>)"

section \<open>The wrappers\<close>

text \<open>\<open>long_of\<close> is the conversion of an \<^verbatim>\<open>int\<close> argument; \<open>as_int\<close> that of the answer, widened again.\<close>

definition long_of :: "c_int \<Rightarrow> u64" where
  "long_of x = scast x"

definition as_int :: "sysres \<Rightarrow> sysres" where
  "as_int r = map_option (\<lambda>q. case q of Done (Ret v, s) \<Rightarrow> Done (Ret (scast (ucast v :: c_int)), s) | _ \<Rightarrow> q) r"

text \<open>
  The length of a string of the program: the loop ends at the first zero byte, which the
  memory of \<open>2 ^ 64\<close> bytes may lack.  The counter is an \<^verbatim>\<open>int\<close>.
\<close>

partial_function (option) lib_strlen_from :: "u64 \<Rightarrow> c_int \<Rightarrow> system \<Rightarrow> c_int option" where
  "lib_strlen_from p len s =
     (if user_mem s (p + scast len) = 0 then Some len else lib_strlen_from p (len + 1) s)"

definition lib_strlen :: "u64 \<Rightarrow> system \<Rightarrow> c_int option" where
  "lib_strlen p s = lib_strlen_from p 0 s"

abbreviation STDOUT :: c_int where "STDOUT \<equiv> 1"
abbreviation STDERR :: c_int where "STDERR \<equiv> 2"

definition lib_exit :: "c_int \<Rightarrow> user_regs \<Rightarrow> system \<Rightarrow> sysres" where
  "lib_exit code r s = syscall1 0 (long_of code) r s"
definition lib_print_to :: "c_int \<Rightarrow> u64 \<Rightarrow> user_regs \<Rightarrow> system \<Rightarrow> sysres" where
  "lib_print_to fd p r s = Option.bind (lib_strlen p s) (\<lambda>n. syscall3 2 (long_of fd) p (long_of n) r s)"
definition lib_print :: "u64 \<Rightarrow> user_regs \<Rightarrow> system \<Rightarrow> sysres" where
  "lib_print = lib_print_to STDOUT"
definition lib_eprint :: "u64 \<Rightarrow> user_regs \<Rightarrow> system \<Rightarrow> sysres" where
  "lib_eprint = lib_print_to STDERR"
definition lib_open :: "u64 \<Rightarrow> c_int \<Rightarrow> user_regs \<Rightarrow> system \<Rightarrow> sysres" where
  "lib_open path flags r s = as_int (syscall2 3 path (long_of flags) r s)"
definition lib_close :: "c_int \<Rightarrow> user_regs \<Rightarrow> system \<Rightarrow> sysres" where
  "lib_close fd r s = as_int (syscall1 4 (long_of fd) r s)"
definition lib_read :: "c_int \<Rightarrow> u64 \<Rightarrow> c_int \<Rightarrow> user_regs \<Rightarrow> system \<Rightarrow> sysres" where
  "lib_read fd buf count r s = as_int (syscall3 1 (long_of fd) buf (long_of count) r s)"
definition lib_write :: "c_int \<Rightarrow> u64 \<Rightarrow> c_int \<Rightarrow> user_regs \<Rightarrow> system \<Rightarrow> sysres" where
  "lib_write fd buf count r s = as_int (syscall3 2 (long_of fd) buf (long_of count) r s)"
definition lib_stat :: "u64 \<Rightarrow> u64 \<Rightarrow> user_regs \<Rightarrow> system \<Rightarrow> sysres" where
  "lib_stat path buf r s = as_int (syscall2 5 path buf r s)"
definition lib_fstat :: "c_int \<Rightarrow> u64 \<Rightarrow> user_regs \<Rightarrow> system \<Rightarrow> sysres" where
  "lib_fstat fd buf r s = as_int (syscall2 6 (long_of fd) buf r s)"
definition lib_mkdir :: "u64 \<Rightarrow> user_regs \<Rightarrow> system \<Rightarrow> sysres" where
  "lib_mkdir path r s = as_int (syscall1 7 path r s)"
definition lib_rmdir :: "u64 \<Rightarrow> user_regs \<Rightarrow> system \<Rightarrow> sysres" where
  "lib_rmdir path r s = as_int (syscall1 8 path r s)"
definition lib_unlink :: "u64 \<Rightarrow> user_regs \<Rightarrow> system \<Rightarrow> sysres" where
  "lib_unlink path r s = as_int (syscall1 9 path r s)"
definition lib_create :: "u64 \<Rightarrow> user_regs \<Rightarrow> system \<Rightarrow> sysres" where
  "lib_create path r s = as_int (syscall1 15 path r s)"
definition lib_readdir :: "c_int \<Rightarrow> u64 \<Rightarrow> c_int \<Rightarrow> user_regs \<Rightarrow> system \<Rightarrow> sysres" where
  "lib_readdir fd buf index r s = as_int (syscall3 10 (long_of fd) buf (long_of index) r s)"
definition lib_chdir :: "u64 \<Rightarrow> user_regs \<Rightarrow> system \<Rightarrow> sysres" where
  "lib_chdir path r s = as_int (syscall1 11 path r s)"
definition lib_getcwd :: "u64 \<Rightarrow> c_int \<Rightarrow> user_regs \<Rightarrow> system \<Rightarrow> sysres" where
  "lib_getcwd buf len r s = as_int (syscall2 12 buf (long_of len) r s)"
definition lib_rename :: "u64 \<Rightarrow> u64 \<Rightarrow> user_regs \<Rightarrow> system \<Rightarrow> sysres" where
  "lib_rename oldp newp r s = as_int (syscall2 13 oldp newp r s)"
definition lib_seek :: "c_int \<Rightarrow> c_int \<Rightarrow> c_int \<Rightarrow> user_regs \<Rightarrow> system \<Rightarrow> sysres" where
  "lib_seek fd offset whence r s = as_int (syscall3 16 (long_of fd) (long_of offset) (long_of whence) r s)"
definition lib_yield :: "user_regs \<Rightarrow> system \<Rightarrow> sysres" where
  "lib_yield r s = as_int (syscall0 17 r s)"
definition lib_pipe :: "u64 \<Rightarrow> user_regs \<Rightarrow> system \<Rightarrow> sysres" where
  "lib_pipe fds r s = as_int (syscall1 18 fds r s)"
definition lib_dup2 :: "c_int \<Rightarrow> c_int \<Rightarrow> user_regs \<Rightarrow> system \<Rightarrow> sysres" where
  "lib_dup2 oldfd newfd r s = as_int (syscall2 19 (long_of oldfd) (long_of newfd) r s)"
definition lib_fork :: "user_regs \<Rightarrow> system \<Rightarrow> sysres" where
  "lib_fork r s = as_int (syscall0 20 r s)"
definition lib_exec :: "u64 \<Rightarrow> u64 \<Rightarrow> user_regs \<Rightarrow> system \<Rightarrow> sysres" where
  "lib_exec path argv r s = as_int (syscall2 21 path argv r s)"
definition lib_waitpid :: "c_int \<Rightarrow> user_regs \<Rightarrow> system \<Rightarrow> sysres" where
  "lib_waitpid pid r s = as_int (syscall1 22 (long_of pid) r s)"
definition lib_getpid :: "user_regs \<Rightarrow> system \<Rightarrow> sysres" where
  "lib_getpid r s = as_int (syscall0 23 r s)"
definition lib_kill :: "c_int \<Rightarrow> c_int \<Rightarrow> user_regs \<Rightarrow> system \<Rightarrow> sysres" where
  "lib_kill pid sig r s = as_int (syscall2 24 (long_of pid) (long_of sig) r s)"
definition lib_signal :: "c_int \<Rightarrow> u64 \<Rightarrow> user_regs \<Rightarrow> system \<Rightarrow> sysres" where
  "lib_signal sig handler r s = syscall2 25 (long_of sig) handler r s"
definition lib_setpgid :: "c_int \<Rightarrow> c_int \<Rightarrow> user_regs \<Rightarrow> system \<Rightarrow> sysres" where
  "lib_setpgid pid pgid r s = as_int (syscall2 26 (long_of pid) (long_of pgid) r s)"
definition lib_tcsetpgrp :: "c_int \<Rightarrow> user_regs \<Rightarrow> system \<Rightarrow> sysres" where
  "lib_tcsetpgrp pgid r s = as_int (syscall1 27 (long_of pgid) r s)"
definition lib_tcgetpgrp :: "user_regs \<Rightarrow> system \<Rightarrow> sysres" where
  "lib_tcgetpgrp r s = as_int (syscall0 28 r s)"
definition lib_fb_info :: "u64 \<Rightarrow> user_regs \<Rightarrow> system \<Rightarrow> sysres" where
  "lib_fb_info out r s = as_int (syscall1 29 out r s)"
definition lib_fb_putpixel :: "c_int \<Rightarrow> c_int \<Rightarrow> u32 \<Rightarrow> user_regs \<Rightarrow> system \<Rightarrow> sysres" where
  "lib_fb_putpixel x y colour r s = as_int (syscall3 30 (long_of x) (long_of y) (ucast colour) r s)"
definition lib_input_poll :: "u64 \<Rightarrow> user_regs \<Rightarrow> system \<Rightarrow> sysres" where
  "lib_input_poll out r s = as_int (syscall1 31 out r s)"
definition lib_ticks :: "user_regs \<Rightarrow> system \<Rightarrow> sysres" where
  "lib_ticks r s = syscall0 32 r s"
definition lib_fb_map :: "user_regs \<Rightarrow> system \<Rightarrow> sysres" where
  "lib_fb_map r s = syscall0 33 r s"
definition lib_fb_present :: "u64 \<Rightarrow> user_regs \<Rightarrow> system \<Rightarrow> sysres" where
  "lib_fb_present buf r s = as_int (syscall1 34 buf r s)"
definition lib_fb_present_rect :: "u64 \<Rightarrow> c_int \<Rightarrow> c_int \<Rightarrow> c_int \<Rightarrow> c_int \<Rightarrow> user_regs \<Rightarrow> system \<Rightarrow> sysres" where
  "lib_fb_present_rect buf x y w h r s =
     as_int (syscall5 35 buf (long_of x) (long_of y) (long_of w) (long_of h) r s)"


section \<open>What a wrapper does\<close>

text \<open>
  A reply survives the conversions when it is a sign-extended \<^verbatim>\<open>int\<close>.  All operations that answer an \<^verbatim>\<open>int\<close> reply so:
  the rules follow the combinators the operations are written with.
\<close>

definition int_reply :: "sysres \<Rightarrow> bool" where
  "int_reply r \<longleftrightarrow> (\<forall>v s. r = Some (Done (Ret v, s)) \<longrightarrow> v \<in> range (scast :: c_int \<Rightarrow> u64))"

named_theorems int_replies \<open>operations that answer an int\<close>

lemma narrow_wide [simp]: "ucast (scast (x :: c_int) :: u64) = x"
proof (rule bit_word_eqI)
  fix n assume "n < LENGTH(32)"
  then have "min 31 n = n" by simp
  with \<open>n < LENGTH(32)\<close> show "bit (ucast (scast x :: u64) :: c_int) n = bit x n" by (simp add: bit_unsigned_iff bit_signed_iff)
qed

lemma c_int_of_long [simp]: "c_int_of (long_of x) = x"
  by (simp add: c_int_of_def long_of_def)

lemma as_int_reply: "int_reply r \<Longrightarrow> as_int r = r"
  by (cases r) (auto simp: int_reply_def as_int_def split: outcome.split prod.split reply.split)

lemma int_reply_ret [int_replies]: "int_reply (ret v s)" "int_reply undef" "int_reply None"
  by (auto simp: int_reply_def ret_def)

lemma int_reply_with_task [int_replies]: "(\<And>t. int_reply (g t)) \<Longrightarrow> int_reply (with_task g s)"
  by (auto simp: with_task_def int_replies split: option.split)

lemma int_reply_with_fd [int_replies]: "(\<And>t i e. int_reply (g t i e)) \<Longrightarrow> int_reply (with_fd fd g s)"
  unfolding with_fd_def by (auto intro!: int_replies split: option.split)

lemma int_reply_on_volume [int_replies]: "(\<And>r s. int_reply (h r s)) \<Longrightarrow> int_reply (on_volume g h s)"
  by (auto simp: on_volume_def int_replies split: bind_splits)

lemma int_reply_with_path [int_replies]: "(\<And>q s. int_reply (g q s)) \<Longrightarrow> int_reply (with_path p g s)"
  by (auto simp: with_path_def int_replies split: outcome.split)

lemma int_reply_cases [int_replies]:
  "\<lbrakk>b \<Longrightarrow> int_reply q; \<not> b \<Longrightarrow> int_reply r\<rbrakk> \<Longrightarrow> int_reply (if b then q else r)"
  "\<lbrakk>x = None \<Longrightarrow> int_reply q; \<And>y. x = Some y \<Longrightarrow> int_reply (g y)\<rbrakk> \<Longrightarrow> int_reply (case x of None \<Rightarrow> q | Some y \<Rightarrow> g y)"
  "\<lbrakk>\<And>y. z = Done y \<Longrightarrow> int_reply (h y); z = Undef \<Longrightarrow> int_reply q\<rbrakk> \<Longrightarrow> int_reply (case z of Done y \<Rightarrow> h y | Undef \<Rightarrow> q)"
  "(\<And>a b. w = (a, b) \<Longrightarrow> int_reply (k a b)) \<Longrightarrow> int_reply (case w of (a, b) \<Rightarrow> k a b)"
  by (simp_all split: option.split outcome.split prod.split)

lemma int_reply_kind [int_replies]:
  "\<lbrakk>int_reply q1; int_reply q2; int_reply q3; int_reply q4; int_reply q5\<rbrakk> \<Longrightarrow>
    int_reply (case t of FD_UNUSED \<Rightarrow> q1 | FD_FILE \<Rightarrow> q2 | FD_DIR \<Rightarrow> q3 | FD_CONSOLE \<Rightarrow> q4 | FD_PIPE \<Rightarrow> q5)"
  by (cases t) auto

lemma int_reply_open_node [int_replies]: "int_reply (open_node n fl s)"
  unfolding open_node_def Let_def by (intro int_replies)

lemma int_reply_path_op [int_replies]: "int_reply (path_op g p s)"
  unfolding path_op_def by (intro int_replies)

lemma int_reply_calls [int_replies]:
  "int_reply (sys_read fd buf count s)" "int_reply (sys_write fd buf count s)" "int_reply (sys_open path fl s)"
  "int_reply (sys_close fd s)" "int_reply (sys_stat path buf s)" "int_reply (sys_fstat fd buf s)"
  "int_reply (sys_mkdir path s)" "int_reply (sys_rmdir path s)" "int_reply (sys_unlink path s)"
  "int_reply (sys_create path s)" "int_reply (sys_rename path path2 s)" "int_reply (sys_readdir fd buf i s)"
  "int_reply (sys_chdir path s)" "int_reply (sys_getcwd buf len s)" "int_reply (sys_seek fd off wh s)"
  "int_reply (sys_pipe fds s)" "int_reply (sys_dup2 fd fd2 s)" "int_reply (sys_fork s)"
  "int_reply (sys_kill pid sig s)" "int_reply (sys_setpgid pid pgid s)" "int_reply (sys_fb_info out s)"
  "int_reply (sys_fb_putpixel x y col s)" "int_reply (sys_input_poll out s)" "int_reply (sys_fb_present buf s)"
  "int_reply (sys_fb_present_rect buf x y w h s)"
  unfolding sys_read_def sys_write_def sys_open_def sys_close_def sys_stat_def sys_fstat_def sys_mkdir_def sys_rmdir_def
    sys_unlink_def sys_create_def sys_rename_def sys_readdir_def sys_chdir_def sys_getcwd_def sys_seek_def sys_pipe_def
    sys_dup2_def sys_fork_def sys_kill_def sys_setpgid_def sys_fb_info_def sys_fb_putpixel_def sys_input_poll_def
    sys_fb_present_def sys_fb_present_rect_def Let_def
  by (intro int_replies)+

lemma int_reply_waitpid [int_replies]: "int_reply (sys_waitpid pid s)"
proof -
  have "int_reply (case r of Undef \<Rightarrow> undef | Done (Exited code, k) \<Rightarrow> ret code (s\<lparr>kern := k\<rparr>)
      | Done (Blocked child, k) \<Rightarrow> Some (Done (Waits child, s\<lparr>kern := k\<rparr>)))" for r
    by (auto simp: int_reply_def ret_def split: outcome.split prod.split wait_result.split)
  then show ?thesis by (cases "sched_waitpid pid (kern s)") (simp_all add: sys_waitpid_def int_replies)
qed

lemmas wrapper_defs = syscall0_def syscall1_def syscall2_def syscall3_def syscall5_def syscall_entry_def syscall_handler_def

text \<open>A wrapper whose call answers an \<^verbatim>\<open>int\<close> answers what the call does.\<close>

lemma wrapper_id: "q = r \<Longrightarrow> int_reply r \<Longrightarrow> as_int q = r"
  using as_int_reply by simp

lemma entered_regs [simp]:
  "entered (r\<lparr>reg_rdi := a\<rparr>) s = entered r s" "entered (r\<lparr>reg_rsi := a\<rparr>) s = entered r s"
  "entered (r\<lparr>reg_rdx := a\<rparr>) s = entered r s" "entered (r\<lparr>reg_r10 := a\<rparr>) s = entered r s"
  "entered (r\<lparr>reg_r8 := a\<rparr>) s = entered r s"
  by (simp_all add: entered_def user_context.truncate_def)

section \<open>The length of a string\<close>

lemma lib_strlen_from_at:
  assumes z: "user_mem s (p + of_nat n) = 0" and nz: "\<forall>i<n. user_mem s (p + of_nat i) \<noteq> 0" and n: "n < 2 ^ 31"
  shows "i \<le> n \<Longrightarrow> lib_strlen_from p (of_nat i) s = Some (of_nat n)"
proof (induction "n - i" arbitrary: i)
  case 0
  have "scast (of_nat n :: c_int) = (of_nat n :: u64)" using n by (simp add: scast_nat)
  with 0 z show ?case by (subst lib_strlen_from.simps) simp
next
  case (Suc d)
  have "scast (of_nat i :: c_int) = (of_nat i :: u64)" using Suc n by (simp add: scast_nat)
  moreover have "user_mem s (p + of_nat i) \<noteq> 0" using Suc nz by simp
  moreover have "lib_strlen_from p (of_nat (Suc i)) s = Some (of_nat n)" using Suc by (intro Suc(1)) auto
  ultimately show ?case by (subst lib_strlen_from.simps) (simp add: add.commute)
qed

section \<open>Properties\<close>



text \<open>A program with \<^verbatim>\<open>hi\<close> in its memory.\<close>

definition greeting :: system where
  "greeting = user_put 0x1000 [104, 105, 0] (sample_shell\<lparr>cons := sample_console,
     kern := upd_task 0 (\<lambda>x. x\<lparr>fd_table := (fd_table x)(1 := fd_unused\<lparr>fd_type := FD_CONSOLE\<rparr>)\<rparr>) (kern sample_shell)\<rparr>)"

definition zero_regs :: user_regs where
  "zero_regs = \<lparr>ctx_rsp = 0, ctx_rip = 0, ctx_rflags = 0, ctx_rbx = 0, ctx_rbp = 0, ctx_r12 = 0, ctx_r13 = 0, ctx_r14 = 0,
     ctx_r15 = 0, reg_rdi = 0, reg_rsi = 0, reg_rdx = 0, reg_r10 = 0, reg_r8 = 0\<rparr>"


end
