(* ===== verification/Ata.thy ===== *)
theory Ata
  imports Fat_Table Ports
begin

text \<open>
  The disk driver \<^verbatim>\<open>kernel/drivers/ata.c\<close>: programmed input and output over the primary ATA bus.  The wait
  loops have no bound, so the operations answer an option: \<open>None\<close> is a wait that never ends.  The
  drive is a parameter; \<open>ata_drive\<close> states what the ATA standard says of one.  On such a drive the driver
  implements \<open>disk_read\<close> and \<open>disk_write\<close>, the view the file system has of it.
\<close>

section \<open>The driver\<close>

abbreviation ATA_DATA :: u16 where "ATA_DATA \<equiv> 0x1F0"
abbreviation ATA_SECTOR_COUNT :: u16 where "ATA_SECTOR_COUNT \<equiv> 0x1F2"
abbreviation ATA_LBA_LOW :: u16 where "ATA_LBA_LOW \<equiv> 0x1F3"
abbreviation ATA_LBA_MID :: u16 where "ATA_LBA_MID \<equiv> 0x1F4"
abbreviation ATA_LBA_HIGH :: u16 where "ATA_LBA_HIGH \<equiv> 0x1F5"
abbreviation ATA_DRIVE_SELECT :: u16 where "ATA_DRIVE_SELECT \<equiv> 0x1F6"
abbreviation ATA_STATUS :: u16 where "ATA_STATUS \<equiv> 0x1F7"
abbreviation ATA_COMMAND :: u16 where "ATA_COMMAND \<equiv> 0x1F7"
abbreviation ATA_CMD_READ_SECTORS :: u8 where "ATA_CMD_READ_SECTORS \<equiv> 0x20"
abbreviation ATA_CMD_WRITE_SECTORS :: u8 where "ATA_CMD_WRITE_SECTORS \<equiv> 0x30"

text \<open>\<^verbatim>\<open>while (inb(status) & bit)\<close> and its negation.\<close>

partial_function (option) ata_poll :: "'d ports \<Rightarrow> (u8 \<Rightarrow> bool) \<Rightarrow> 'd \<Rightarrow> 'd option" where
  "ata_poll io go_on d =
     (let v = fst (port_in8 io ATA_STATUS d); d' = snd (port_in8 io ATA_STATUS d)
      in if go_on v then ata_poll io go_on d' else Some d')"

definition ata_wait_ready :: "'d ports \<Rightarrow> 'd \<Rightarrow> 'd option" where
  "ata_wait_ready io = ata_poll io (\<lambda>v. v AND 0x80 \<noteq> 0)"

definition ata_wait_drq :: "'d ports \<Rightarrow> 'd \<Rightarrow> 'd option" where
  "ata_wait_drq io = ata_poll io (\<lambda>v. v AND 0x08 = 0)"

text \<open>\<^verbatim>\<open>rep insw\<close> and \<^verbatim>\<open>rep outsw\<close>.\<close>

fun inw_rep :: "'d ports \<Rightarrow> u16 \<Rightarrow> nat \<Rightarrow> 'd \<Rightarrow> u16 list \<times> 'd" where
  "inw_rep io p 0 d = ([], d)"
| "inw_rep io p (Suc n) d =
     (case port_in16 io p d of (w, d) \<Rightarrow> case inw_rep io p n d of (ws, d) \<Rightarrow> (w # ws, d))"

definition outw_rep :: "'d ports \<Rightarrow> u16 \<Rightarrow> u16 list \<Rightarrow> 'd \<Rightarrow> 'd" where
  "outw_rep io p ws d = fold (port_out16 io p) ws d"

text \<open>Words and the bytes of a buffer.\<close>

definition word_bytes :: "u16 \<Rightarrow> u8 list" where
  "word_bytes w = [ucast w, ucast (drop_bit 8 w)]"

definition buffer_words :: "bytes \<Rightarrow> nat \<Rightarrow> u16 list" where
  "buffer_words buf off = map (\<lambda>i. le16 buf (off + 2 * i)) [0..<256]"

text \<open>The state is \<^verbatim>\<open>current_drive\<close> and the device.\<close>

definition read_status_4 :: "'d ports \<Rightarrow> 'd \<Rightarrow> 'd" where
  "read_status_4 io d = fold (\<lambda>_ d. snd (port_in8 io ATA_STATUS d)) [0..<4] d"

definition ata_init :: "'d ports \<Rightarrow> c_int \<times> 'd \<Rightarrow> c_int \<times> 'd" where
  "ata_init io = (\<lambda>(_, d). (0, read_status_4 io (port_out8 io ATA_DRIVE_SELECT 0xA0 d)))"

definition ata_select_drive :: "'d ports \<Rightarrow> c_int \<Rightarrow> c_int \<times> 'd \<Rightarrow> c_int \<times> 'd" where
  "ata_select_drive io drive = (\<lambda>(_, d).
     (drive, read_status_4 io (port_out8 io ATA_DRIVE_SELECT (if drive \<noteq> 0 then 0xB0 else 0xA0) d)))"

text \<open>The registers of a command, in the order they are written.\<close>

definition ata_command :: "'d ports \<Rightarrow> c_int \<Rightarrow> u32 \<Rightarrow> u8 \<Rightarrow> u8 \<Rightarrow> 'd \<Rightarrow> 'd" where
  "ata_command io current_drive lba count cmd d =
     (let drive_bits = (if current_drive \<noteq> 0 then 0xF0 else 0xE0) :: u32;
          d = port_out8 io ATA_DRIVE_SELECT (ucast (drive_bits OR (drop_bit 24 lba AND 0x0F))) d;
          d = port_out8 io ATA_SECTOR_COUNT count d;
          d = port_out8 io ATA_LBA_LOW (ucast (lba AND 0xFF)) d;
          d = port_out8 io ATA_LBA_MID (ucast (drop_bit 8 lba AND 0xFF)) d;
          d = port_out8 io ATA_LBA_HIGH (ucast (drop_bit 16 lba AND 0xFF)) d
      in port_out8 io ATA_COMMAND cmd d)"

fun ata_read_loop :: "'d ports \<Rightarrow> nat list \<Rightarrow> bytes \<Rightarrow> 'd \<Rightarrow> (bytes \<times> 'd) option" where
  "ata_read_loop io [] buf d = Some (buf, d)"
| "ata_read_loop io (i # is) buf d = Option.bind (ata_wait_drq io d) (\<lambda>d.
     case inw_rep io ATA_DATA 256 d of (ws, d) \<Rightarrow>
       ata_read_loop io is (put_list buf (512 * i) (concat (map word_bytes ws))) d)"

fun ata_write_loop :: "'d ports \<Rightarrow> nat list \<Rightarrow> bytes \<Rightarrow> 'd \<Rightarrow> 'd option" where
  "ata_write_loop io [] buf d = Some d"
| "ata_write_loop io (i # is) buf d = Option.bind (ata_wait_drq io d) (\<lambda>d.
     ata_write_loop io is buf (outw_rep io ATA_DATA (buffer_words buf (512 * i)) d))"

definition ata_read_sectors :: "'d ports \<Rightarrow> u32 \<Rightarrow> u8 \<Rightarrow> bytes option \<Rightarrow> c_int \<times> 'd \<Rightarrow> (c_int \<times> bytes option \<times> c_int \<times> 'd) option" where
  "ata_read_sectors io lba count buffer = (\<lambda>(current_drive, d).
     case buffer of
       None \<Rightarrow> Some (-1, None, current_drive, d)
     | Some buf \<Rightarrow>
         if count = 0 then Some (-1, Some buf, current_drive, d)
         else Option.bind (ata_wait_ready io d) (\<lambda>d.
           map_option (\<lambda>(buf, d). (0, Some buf, current_drive, d))
             (ata_read_loop io [0..<unat count] buf (ata_command io current_drive lba count ATA_CMD_READ_SECTORS d))))"

definition ata_write_sectors :: "'d ports \<Rightarrow> u32 \<Rightarrow> u8 \<Rightarrow> bytes option \<Rightarrow> c_int \<times> 'd \<Rightarrow> (c_int \<times> c_int \<times> 'd) option" where
  "ata_write_sectors io lba count buffer = (\<lambda>(current_drive, d).
     case buffer of
       None \<Rightarrow> Some (-1, current_drive, d)
     | Some buf \<Rightarrow>
         if count = 0 then Some (-1, current_drive, d)
         else Option.bind (ata_wait_ready io d) (\<lambda>d.
           map_option (\<lambda>d. (0, current_drive, d))
             (ata_write_loop io [0..<unat count] buf (ata_command io current_drive lba count ATA_CMD_WRITE_SECTORS d))))"

section \<open>What the standard says of a drive\<close>

text \<open>
  A drive as a program sees it: the command registers, the sectors of master (\<open>False\<close>) and slave, their number, and
  the transfer under way: the words still to be read, or the sectors still to be written with the words
  received of the first of them.  \<open>Failed\<close> is a command that was refused, which offers no data.
\<close>

datatype transfer = Idle | Reading "u16 list" | Writing bool nat nat "u16 list" | Failed

record drive =
  reg_select :: u8
  reg_count :: u8
  reg_low :: u8
  reg_mid :: u8
  reg_high :: u8
  media :: "bool \<Rightarrow> disk"
  capacity :: nat
  transfer :: transfer

definition sector_words :: "bytes \<Rightarrow> u16 list" where
  "sector_words b = map (\<lambda>i. le16 b (2 * i)) [0..<256]"

definition drive_lba :: "drive \<Rightarrow> nat" where
  "drive_lba v = unat (ucast (reg_low v) OR push_bit 8 (ucast (reg_mid v)) OR push_bit 16 (ucast (reg_high v)) OR
     push_bit 24 (ucast (reg_select v AND 0x0F)) :: u32)"

text \<open>A count of 0 stands for 256 sectors.\<close>

definition drive_sectors :: "drive \<Rightarrow> nat" where
  "drive_sectors v = (if reg_count v = 0 then 256 else unat (reg_count v))"

definition drive_command :: "u8 \<Rightarrow> drive \<Rightarrow> drive" where
  "drive_command cmd v =
     (let slave = bit (reg_select v) 4; lba = drive_lba v; n = drive_sectors v in
      if lba + n > capacity v then v\<lparr>transfer := Failed\<rparr>
      else if cmd = 0x20 then v\<lparr>transfer := Reading (concat (map (\<lambda>i. sector_words (media v slave (lba + i))) [0..<n]))\<rparr>
      else if cmd = 0x30 then v\<lparr>transfer := Writing slave lba n []\<rparr>
      else v\<lparr>transfer := Failed\<rparr>)"

definition drive_out8 :: "u16 \<Rightarrow> u8 \<Rightarrow> drive \<Rightarrow> drive" where
  "drive_out8 p x v =
     (if p = 0x1F2 then v\<lparr>reg_count := x\<rparr> else if p = 0x1F3 then v\<lparr>reg_low := x\<rparr>
      else if p = 0x1F4 then v\<lparr>reg_mid := x\<rparr> else if p = 0x1F5 then v\<lparr>reg_high := x\<rparr>
      else if p = 0x1F6 then v\<lparr>reg_select := x\<rparr> else drive_command x v)"

definition drive_out16 :: "u16 \<Rightarrow> drive \<Rightarrow> drive" where
  "drive_out16 w v =
     (case transfer v of
        Writing slave s n ws \<Rightarrow>
          if length ws < 255 then v\<lparr>transfer := Writing slave s n (ws @ [w])\<rparr>
          else v\<lparr>media := (media v)(slave := (media v slave)(s := put_list (media v slave s) 0 (concat (map word_bytes (ws @ [w]))))),
                 transfer := (if n \<le> 1 then Idle else Writing slave (Suc s) (n - 1) [])\<rparr>
      | _ \<Rightarrow> v)"

definition data_request :: "drive \<Rightarrow> bool" where
  "data_request v = (case transfer v of Reading ws \<Rightarrow> ws \<noteq> [] | Writing _ _ _ _ \<Rightarrow> True | _ \<Rightarrow> False)"

text \<open>
  \<open>view\<close> is what the drive has to show, \<open>lag\<close> bounds how often the status still reads as busy.  A drive that is not
  busy takes register writes at once; after a command, and after a sector, it may be busy for any finite
  time; a sector that is requested is transferred without waiting.
\<close>

definition ata_drive :: "'d ports \<Rightarrow> ('d \<Rightarrow> drive) \<Rightarrow> ('d \<Rightarrow> nat) \<Rightarrow> bool" where
  "ata_drive io view lag \<longleftrightarrow>
     (\<forall>d v d'. port_in8 io 0x1F7 d = (v, d') \<longrightarrow> view d' = view d \<and>
        (if lag d = 0 then lag d' = 0 \<and> v AND 0x80 = 0 \<and> (v AND 0x08 \<noteq> 0 \<longleftrightarrow> data_request (view d))
         else lag d' < lag d \<and> v AND 0x80 \<noteq> 0 \<and> v AND 0x08 = 0)) \<and>
     (\<forall>d p x. lag d = 0 \<and> p \<in> {0x1F2, 0x1F3, 0x1F4, 0x1F5, 0x1F6, 0x1F7} \<longrightarrow>
        view (port_out8 io p x d) = drive_out8 p x (view d) \<and> (p \<noteq> 0x1F7 \<longrightarrow> lag (port_out8 io p x d) = 0)) \<and>
     (\<forall>d w ws. lag d = 0 \<and> transfer (view d) = Reading (w # ws) \<longrightarrow>
        (\<exists>d'. port_in16 io 0x1F0 d = (w, d') \<and>
          view d' = (view d)\<lparr>transfer := (if ws = [] then Idle else Reading ws)\<rparr> \<and> (length ws mod 256 \<noteq> 0 \<longrightarrow> lag d' = 0))) \<and>
     (\<forall>d w slave s n ws. lag d = 0 \<and> transfer (view d) = Writing slave s n ws \<longrightarrow>
        view (port_out16 io 0x1F0 w d) = drive_out16 w (view d) \<and>
        (length ws < 255 \<longrightarrow> lag (port_out16 io 0x1F0 w d) = 0))"


section \<open>Waiting\<close>

lemma drive_status:
  assumes "ata_drive io view lag" "port_in8 io ATA_STATUS d = (v, d')"
  shows "view d' = view d"
    "lag d = 0 \<Longrightarrow> lag d' = 0 \<and> v AND 0x80 = 0 \<and> (v AND 0x08 \<noteq> 0 \<longleftrightarrow> data_request (view d))"
    "lag d \<noteq> 0 \<Longrightarrow> lag d' < lag d \<and> v AND 0x80 \<noteq> 0 \<and> v AND 0x08 = 0"
  using assms by (auto simp: ata_drive_def split: if_splits)

text \<open>A wait ends as soon as the drive is no longer busy, if the status is then the one waited for.\<close>

lemma ata_poll_ready:
  assumes A: "ata_drive io view lag"
    and busy: "\<And>v. v AND 0x80 \<noteq> 0 \<Longrightarrow> v AND 0x08 = 0 \<Longrightarrow> go_on v"
    and free: "\<And>v. v AND 0x80 = 0 \<Longrightarrow> (v AND 0x08 \<noteq> 0 \<longleftrightarrow> data_request (view d)) \<Longrightarrow> \<not> go_on v"
  shows "\<exists>d'. ata_poll io go_on d = Some d' \<and> view d' = view d \<and> lag d' = 0"
  using free
proof (induction "lag d" arbitrary: d rule: less_induct)
  case less
  obtain v d' where i: "port_in8 io ATA_STATUS d = (v, d')" by fastforce
  note S = drive_status[OF A i]
  show ?case
  proof (cases "lag d = 0")
    case True
    then have "\<not> go_on v" using S(2) less(2) by blast
    then show ?thesis using S True i by (subst ata_poll.simps) simp
  next
    case False
    then have "go_on v" "lag d' < lag d" using S(3) busy by auto
    then show ?thesis using less(1)[of d'] less(2) S(1) i by (subst ata_poll.simps) simp
  qed
qed

lemma ata_ready:
  assumes "ata_drive io view lag"
  shows "\<exists>d'. ata_wait_ready io d = Some d' \<and> view d' = view d \<and> lag d' = 0"
  unfolding ata_wait_ready_def by (rule ata_poll_ready[OF assms]) auto

lemma ata_drq:
  assumes "ata_drive io view lag" "data_request (view d)"
  shows "\<exists>d'. ata_wait_drq io d = Some d' \<and> view d' = view d \<and> lag d' = 0"
  unfolding ata_wait_drq_def by (rule ata_poll_ready[OF assms(1)]) (use assms(2) in auto)

lemma ata_poll_stuck:
  assumes "ata_poll io go_on d = Some r"
    and keep: "\<forall>d. Q d \<longrightarrow> go_on (fst (port_in8 io ATA_STATUS d)) \<and> Q (snd (port_in8 io ATA_STATUS d))"
  shows "\<not> Q d"
proof -
  let ?keep = "\<lambda>io go_on. \<forall>d. Q d \<longrightarrow> go_on (fst (port_in8 io ATA_STATUS d)) \<and> Q (snd (port_in8 io ATA_STATUS d))"
  have "?keep io go_on \<longrightarrow> \<not> Q d"
  proof (rule ata_poll.raw_induct[where P = "\<lambda>io go_on d r. ?keep io go_on \<longrightarrow> \<not> Q d", OF _ assms(1)])
    fix f :: "'a ports \<Rightarrow> (u8 \<Rightarrow> bool) \<Rightarrow> 'a \<Rightarrow> 'a option" and io go_on d r
    assume IH: "\<And>io go_on d r. f io go_on d = Some r \<Longrightarrow> ?keep io go_on \<longrightarrow> \<not> Q d"
      and body: "(let v = fst (port_in8 io ATA_STATUS d); d' = snd (port_in8 io ATA_STATUS d)
        in if go_on v then f io go_on d' else Some d') = Some r"
    show "?keep io go_on \<longrightarrow> \<not> Q d"
    proof (intro impI notI)
      assume k: "?keep io go_on" and "Q d"
      then have g: "go_on (fst (port_in8 io ATA_STATUS d))" "Q (snd (port_in8 io ATA_STATUS d))" by blast+
      then have "f io go_on (snd (port_in8 io ATA_STATUS d)) = Some r" using body by (simp add: Let_def)
      with IH k g(2) show False by blast
    qed
  qed
  with keep show ?thesis by blast
qed

text \<open>Without data to transfer the wait for a request has no end.\<close>

lemma ata_drq_never:
  assumes A: "ata_drive io view lag" and n: "\<not> data_request (view d)"
  shows "ata_wait_drq io d = None"
proof (rule ccontr)
  assume "ata_wait_drq io d \<noteq> None"
  then obtain d' where "ata_poll io (\<lambda>v. v AND 0x08 = 0) d = Some d'" by (auto simp: ata_wait_drq_def)
  moreover have "\<forall>d. \<not> data_request (view d) \<longrightarrow>
      fst (port_in8 io ATA_STATUS d) AND 0x08 = 0 \<and> \<not> data_request (view (snd (port_in8 io ATA_STATUS d)))"
    using drive_status[OF A surjective_pairing] by (metis (no_types, lifting))
  ultimately have "\<not> \<not> data_request (view d)" by (rule ata_poll_stuck)
  with n show False by simp
qed


section \<open>Sectors as words\<close>

lemma length_sector_words [simp]: "length (sector_words b) = 256"
  by (simp add: sector_words_def)

lemma word_bytes_le16 [simp]: "word_bytes (le16 b k) = [b k, b (k + 1)]"
proof -
  have "ucast (le16 b k) = b k" "ucast (drop_bit 8 (le16 b k)) = b (k + 1)"
    by (rule bit_word_eqI, auto simp: le16_def bit_unsigned_iff bit_or_iff bit_push_bit_iff bit_drop_bit_eq dest: bit_imp_le_length)+
  then show ?thesis by (simp add: word_bytes_def)
qed

lemma concat_pairs: "concat (map (\<lambda>i. [b (off + 2 * i), b (off + 2 * i + 1)]) [0..<n]) = get_list b off (2 * n)"
proof (induction n)
  case (Suc n)
  have "get_list b off (2 * n + 2) = get_list b off (2 * n) @ [b (off + 2 * n), b (off + 2 * n + 1)]"
    unfolding get_list_append by (simp add: get_list_def upt_rec)
  then show ?case using Suc by simp
qed simp

lemma sector_bytes: "concat (map word_bytes (sector_words b)) = get_list b 0 512"
  using concat_pairs[of b 0 256] by (simp add: sector_words_def comp_def)

lemma buffer_bytes: "concat (map word_bytes (buffer_words buf off)) = get_list buf off 512"
  using concat_pairs[of buf off 256] by (simp add: buffer_words_def comp_def)

section \<open>Transfers\<close>

definition unread :: "u16 list \<Rightarrow> transfer" where
  "unread ws = (if ws = [] then Idle else Reading ws)"

lemma drive_in16:
  assumes "ata_drive io view lag" "lag d = 0" "transfer (view d) = unread (w # ws)"
  obtains d' where "port_in16 io ATA_DATA d = (w, d')" "view d' = (view d)\<lparr>transfer := unread ws\<rparr>" "length ws mod 256 \<noteq> 0 \<Longrightarrow> lag d' = 0"
  using assms unfolding ata_drive_def unread_def by (metis list.discI)

lemma inw_rep_drive:
  assumes A: "ata_drive io view lag" and ys: "length ys mod 256 = 0"
  shows "\<lbrakk>xs \<noteq> [] \<Longrightarrow> lag d = 0; transfer (view d) = unread (xs @ ys); length xs \<le> 256\<rbrakk> \<Longrightarrow>
    \<exists>d'. inw_rep io ATA_DATA (length xs) d = (xs, d') \<and> view d' = (view d)\<lparr>transfer := unread ys\<rparr>"
proof (induction xs arbitrary: d)
  case (Cons w xs)
  obtain d1 where d1: "port_in16 io ATA_DATA d = (w, d1)" "view d1 = (view d)\<lparr>transfer := unread (xs @ ys)\<rparr>"
    "length (xs @ ys) mod 256 \<noteq> 0 \<Longrightarrow> lag d1 = 0"
    by (rule drive_in16[OF A, of d w "xs @ ys"]) (use Cons.prems in auto)
  have "lag d1 = 0" if "xs \<noteq> []"
  proof (rule d1(3))
    have "(length xs + length ys) mod 256 = length xs mod 256" using ys by (metis add.right_neutral mod_add_right_eq)
    then show "length (xs @ ys) mod 256 \<noteq> 0" using that Cons.prems(3) by simp
  qed
  then obtain d2 where "inw_rep io ATA_DATA (length xs) d1 = (xs, d2)" "view d2 = (view d1)\<lparr>transfer := unread ys\<rparr>"
    using Cons.IH[of d1] d1(2) Cons.prems(3) by auto
  then show ?case using d1 by simp
qed (auto simp: drive.defs)

lemma length_sectors: "length (concat (map (\<lambda>j. sector_words (m j)) [i..<n])) = 256 * (n - i)"
  by (induction n) (auto simp: Suc_diff_le)

lemma ata_read_loop_drive:
  assumes A: "ata_drive io view lag"
  shows "\<lbrakk>i \<le> n; transfer (view d) = unread (concat (map (\<lambda>j. sector_words (m j)) [i..<n]))\<rbrakk> \<Longrightarrow>
    \<exists>d'. ata_read_loop io [i..<n] buf d =
        Some (\<lambda>k. if 512 * i \<le> k \<and> k < 512 * n then m (k div 512) (k mod 512) else buf k, d') \<and>
      view d' = (view d)\<lparr>transfer := Idle\<rparr>"
proof (induction "n - i" arbitrary: i buf d)
  case 0
  then show ?case by (auto simp: unread_def drive.defs fun_eq_iff)
next
  case (Suc l)
  then have i: "i < n" and up: "[i..<n] = i # [Suc i..<n]" and l: "l = n - Suc i" by (simp_all add: upt_rec)
  let ?rest = "concat (map (\<lambda>j. sector_words (m j)) [Suc i..<n])"
  have t: "transfer (view d) = unread (sector_words (m i) @ ?rest)" using Suc.prems(2) unfolding up by simp
  then have "data_request (view d)" by (simp add: data_request_def unread_def sector_words_def)
  then obtain d1 where d1: "ata_wait_drq io d = Some d1" "view d1 = view d" "lag d1 = 0" using ata_drq[OF A] by blast
  obtain d2 where d2: "inw_rep io ATA_DATA 256 d1 = (sector_words (m i), d2)" "view d2 = (view d)\<lparr>transfer := unread ?rest\<rparr>"
    using inw_rep_drive[OF A, of ?rest "sector_words (m i)" d1] t d1 length_sectors[of m "Suc i" n] by auto
  let ?buf = "put_list buf (512 * i) (get_list (m i) 0 512)"
  obtain d3 where d3: "ata_read_loop io [Suc i..<n] ?buf d2 =
      Some (\<lambda>k. if 512 * Suc i \<le> k \<and> k < 512 * n then m (k div 512) (k mod 512) else ?buf k, d3)"
    "view d3 = (view d2)\<lparr>transfer := Idle\<rparr>"
    using Suc.hyps(1)[of "Suc i" d2 ?buf] l i d2(2) by auto
  have "(\<lambda>k. if 512 * Suc i \<le> k \<and> k < 512 * n then m (k div 512) (k mod 512) else ?buf k) =
      (\<lambda>k. if 512 * i \<le> k \<and> k < 512 * n then m (k div 512) (k mod 512) else buf k)"
  proof
    fix k
    have "k div 512 = i \<and> k mod 512 = k - 512 * i" if "512 * i \<le> k" "k < 512 * i + 512"
      using that by (auto simp: div_nat_eqI modulo_nat_def)
    then show "(if 512 * Suc i \<le> k \<and> k < 512 * n then m (k div 512) (k mod 512) else ?buf k) =
      (if 512 * i \<le> k \<and> k < 512 * n then m (k div 512) (k mod 512) else buf k)"
      using i by (auto simp: put_list_def)
  qed
  then show ?case using d1 d2 d3 unfolding up by (simp add: sector_bytes)
qed


lemma drive_out16_law:
  assumes "ata_drive io view lag" "lag d = 0" "transfer (view d) = Writing slave s n ws"
  shows "view (port_out16 io ATA_DATA w d) = drive_out16 w (view d)"
    "length ws < 255 \<Longrightarrow> lag (port_out16 io ATA_DATA w d) = 0"
  using assms unfolding ata_drive_def by blast+

text \<open>A sector has arrived.\<close>

definition stored :: "bool \<Rightarrow> nat \<Rightarrow> nat \<Rightarrow> u16 list \<Rightarrow> drive \<Rightarrow> drive" where
  "stored slave s n ws v = v\<lparr>media := (media v)(slave := (media v slave)(s := put_list (media v slave s) 0 (concat (map word_bytes ws)))),
     transfer := (if n \<le> 1 then Idle else Writing slave (Suc s) (n - 1) [])\<rparr>"

lemma outw_rep_drive:
  assumes A: "ata_drive io view lag"
  shows "\<lbrakk>lag d = 0; transfer (view d) = Writing slave s n ws; length ws + length xs = 256; xs \<noteq> []\<rbrakk> \<Longrightarrow>
    view (outw_rep io ATA_DATA xs d) = stored slave s n (ws @ xs) (view d)"
proof (induction xs arbitrary: ws d)
  case (Cons w xs)
  note L = drive_out16_law[OF A Cons.prems(1,2)]
  show ?case
  proof (cases "xs = []")
    case True
    then show ?thesis using L(1) Cons.prems(2,3) by (simp add: outw_rep_def drive_out16_def stored_def)
  next
    case False
    then have l: "length ws < 255" using Cons.prems(3) by (cases xs) auto
    then have v: "view (port_out16 io ATA_DATA w d) = (view d)\<lparr>transfer := Writing slave s n (ws @ [w])\<rparr>"
      using L(1) Cons.prems(2) by (simp add: drive_out16_def)
    have "view (outw_rep io ATA_DATA xs (port_out16 io ATA_DATA w d)) =
        stored slave s n ((ws @ [w]) @ xs) (view (port_out16 io ATA_DATA w d))"
      by (rule Cons.IH[OF L(2)[OF l]]) (use v Cons.prems(3) False in auto)
    then show ?thesis by (simp add: outw_rep_def v stored_def)
  qed
qed simp

definition sectors_put :: "nat \<Rightarrow> nat \<Rightarrow> nat \<Rightarrow> bytes \<Rightarrow> disk \<Rightarrow> disk" where
  "sectors_put lba i n buf m = (\<lambda>s. if lba + i \<le> s \<and> s < lba + n then (\<lambda>k. if k < 512 then buf (512 * (s - lba) + k) else m s k) else m s)"

lemma sectors_put_step:
  assumes "i < n"
  shows "sectors_put lba (Suc i) n buf (m(lba + i := put_list (m (lba + i)) 0 (get_list buf (512 * i) 512))) = sectors_put lba i n buf m"
  using assms by (auto simp: sectors_put_def put_list_def fun_eq_iff)

lemma ata_write_loop_drive:
  assumes A: "ata_drive io view lag"
  shows "\<lbrakk>i \<le> n; transfer (view d) = (if i = n then Idle else Writing slave (lba + i) (n - i) [])\<rbrakk> \<Longrightarrow>
    \<exists>d'. ata_write_loop io [i..<n] buf d = Some d' \<and>
      view d' = (view d)\<lparr>media := (media (view d))(slave := sectors_put lba i n buf (media (view d) slave)), transfer := Idle\<rparr>"
proof (induction "n - i" arbitrary: i d)
  case 0
  then have "sectors_put lba i n buf m = m" for m by (auto simp: sectors_put_def fun_eq_iff)
  with 0 show ?case by simp
next
  case (Suc l)
  then have i: "i < n" and up: "[i..<n] = i # [Suc i..<n]" and l: "l = n - Suc i" by (simp_all add: upt_rec)
  have t: "transfer (view d) = Writing slave (lba + i) (n - i) []" using Suc.prems i by simp
  then have "data_request (view d)" by (simp add: data_request_def)
  then obtain d1 where d1: "ata_wait_drq io d = Some d1" "view d1 = view d" "lag d1 = 0" using ata_drq[OF A] by blast
  let ?ws = "buffer_words buf (512 * i)" and ?d2 = "outw_rep io ATA_DATA (buffer_words buf (512 * i)) d1"
  have ne: "?ws \<noteq> []" and lw: "length ?ws = 256" by (simp_all add: buffer_words_def)
  have v2: "view ?d2 = stored slave (lba + i) (n - i) ?ws (view d)"
    using outw_rep_drive[OF A d1(3), of slave "lba + i" "n - i" "[]" ?ws] d1(2) t ne lw by simp
  have "n - i \<le> 1 \<longleftrightarrow> Suc i = n" using i by auto
  then have t2: "transfer (view ?d2) = (if Suc i = n then Idle else Writing slave (lba + Suc i) (n - Suc i) [])"
    by (simp add: v2 stored_def)
  obtain d3 where d3: "ata_write_loop io [Suc i..<n] buf ?d2 = Some d3"
    "view d3 = (view ?d2)\<lparr>media := (media (view ?d2))(slave := sectors_put lba (Suc i) n buf (media (view ?d2) slave)), transfer := Idle\<rparr>"
    using Suc.hyps(1)[of "Suc i" ?d2] l i t2 by auto
  have "media (view ?d2) = (media (view d))(slave :=
      (media (view d) slave)(lba + i := put_list (media (view d) slave (lba + i)) 0 (get_list buf (512 * i) 512)))"
    by (simp add: v2 stored_def buffer_bytes)
  then have "view d3 = (view d)\<lparr>media := (media (view d))(slave := sectors_put lba i n buf (media (view d) slave)), transfer := Idle\<rparr>"
    using d3(2) sectors_put_step[OF i] by (simp add: v2 stored_def)
  then show ?case using d1 d3(1) unfolding up by simp
qed

section \<open>Commands\<close>

definition with_command :: "c_int \<Rightarrow> u32 \<Rightarrow> u8 \<Rightarrow> drive \<Rightarrow> drive" where
  "with_command cur lba count v = v\<lparr>reg_select := ucast ((if cur \<noteq> 0 then 0xF0 else 0xE0 :: u32) OR (drop_bit 24 lba AND 0x0F)),
     reg_count := count, reg_low := ucast (lba AND 0xFF), reg_mid := ucast (drop_bit 8 lba AND 0xFF),
     reg_high := ucast (drop_bit 16 lba AND 0xFF)\<rparr>"

lemma byte_bits: "bit (ucast (w AND 0xFF :: u32) :: u8) n \<longleftrightarrow> n < 8 \<and> bit w n"
proof -
  have F: "0xFF = (mask 8 :: u32)" by (simp add: mask_numeral)
  show ?thesis unfolding F bit_unsigned_iff bit_and_iff bit_mask_iff by auto
qed

lemma select_bits:
  "bit ((ucast ((if c then 0xF0 else 0xE0 :: u32) OR (w AND 0x0F)) :: u8) AND 0x0F) n \<longleftrightarrow> n < 4 \<and> bit w n"
proof -
  have F: "0x0F = (mask 4 :: u32)" "0x0F = (mask 4 :: u8)" by (simp_all add: mask_numeral)
  have hi: "\<not> bit (0xF0 :: u32) n \<and> \<not> bit (0xE0 :: u32) n" if "n < 4"
  proof -
    have "n \<in> {0, 1, 2, 3}" using that by auto
    then show ?thesis by auto
  qed
  show ?thesis unfolding F bit_unsigned_iff bit_and_iff bit_or_iff bit_mask_iff using hi by auto
qed

lemma command_lba: "drive_lba (with_command cur lba count v) = lba28 lba"
proof -
  define b0 where "b0 = (ucast (lba AND 0xFF) :: u8)"
  define b1 where "b1 = (ucast (drop_bit 8 lba AND 0xFF) :: u8)"
  define b2 where "b2 = (ucast (drop_bit 16 lba AND 0xFF) :: u8)"
  define b3 where "b3 = (ucast ((if cur \<noteq> 0 then 0xF0 else 0xE0 :: u32) OR (drop_bit 24 lba AND 0x0F)) :: u8) AND 0x0F"
  have B: "bit b0 n \<longleftrightarrow> n < 8 \<and> bit lba n" "bit b1 n \<longleftrightarrow> n < 8 \<and> bit lba (8 + n)"
    "bit b2 n \<longleftrightarrow> n < 8 \<and> bit lba (16 + n)" "bit b3 n \<longleftrightarrow> n < 4 \<and> bit lba (24 + n)" for n
    unfolding b0_def b1_def b2_def b3_def byte_bits select_bits bit_drop_bit_eq comp_def by simp_all
  have F: "0x0FFFFFFF = (mask 28 :: u32)" by (simp add: mask_numeral)
  have "ucast b0 OR push_bit 8 (ucast b1) OR push_bit 16 (ucast b2) OR push_bit 24 (ucast b3) = (lba AND 0x0FFFFFFF :: u32)"
  proof (rule bit_word_eqI)
    fix n assume n: "n < LENGTH(32)"
    consider "n < 8" | "8 \<le> n" "n < 16" | "16 \<le> n" "n < 24" | "24 \<le> n" "n < 28" | "28 \<le> n" by linarith
    then show "bit (ucast b0 OR push_bit 8 (ucast b1) OR push_bit 16 (ucast b2) OR push_bit 24 (ucast b3) :: u32) n =
      bit (lba AND 0x0FFFFFFF) n"
      unfolding F bit_or_iff bit_push_bit_iff bit_unsigned_iff B bit_and_iff bit_mask_iff using n by cases auto
  qed
  then show ?thesis by (simp add: drive_lba_def with_command_def lba28_def b0_def b1_def b2_def b3_def)
qed

lemma command_slave: "bit (reg_select (with_command cur lba count v)) 4 \<longleftrightarrow> cur \<noteq> 0"
proof -
  have "\<not> bit (0x0F :: u32) 4" "bit (0xF0 :: u32) 4" "\<not> bit (0xE0 :: u32) 4" by simp_all
  then show ?thesis by (auto simp: with_command_def bit_or_iff bit_and_iff bit_unsigned_iff)
qed

lemma drive_out8_law:
  assumes "ata_drive io view lag" "lag d = 0" "p \<in> {0x1F2, 0x1F3, 0x1F4, 0x1F5, 0x1F6, 0x1F7}"
  shows "view (port_out8 io p x d) = drive_out8 p x (view d)" "p \<noteq> 0x1F7 \<Longrightarrow> lag (port_out8 io p x d) = 0"
proof -
  have "\<forall>d p x. lag d = 0 \<and> p \<in> {0x1F2, 0x1F3, 0x1F4, 0x1F5, 0x1F6, 0x1F7} \<longrightarrow>
        view (port_out8 io p x d) = drive_out8 p x (view d) \<and> (p \<noteq> 0x1F7 \<longrightarrow> lag (port_out8 io p x d) = 0)"
    using assms(1) unfolding ata_drive_def by (rule conjunct1[OF conjunct2])
  from this[rule_format, OF conjI, OF assms(2,3)]
  show "view (port_out8 io p x d) = drive_out8 p x (view d)" "p \<noteq> 0x1F7 \<Longrightarrow> lag (port_out8 io p x d) = 0" by simp_all
qed

lemma ata_command_drive:
  assumes A: "ata_drive io view lag" and l: "lag d = 0"
  shows "view (ata_command io cur lba count cmd d) = drive_command cmd (with_command cur lba count (view d))"
proof -
  let ?sel = "ucast ((if cur \<noteq> 0 then 0xF0 else 0xE0 :: u32) OR (drop_bit 24 lba AND 0x0F)) :: u8"
  define d1 where "d1 = port_out8 io ATA_DRIVE_SELECT ?sel d"
  define d2 where "d2 = port_out8 io ATA_SECTOR_COUNT count d1"
  define d3 where "d3 = port_out8 io ATA_LBA_LOW (ucast (lba AND 0xFF)) d2"
  define d4 where "d4 = port_out8 io ATA_LBA_MID (ucast (drop_bit 8 lba AND 0xFF)) d3"
  define d5 where "d5 = port_out8 io ATA_LBA_HIGH (ucast (drop_bit 16 lba AND 0xFF)) d4"
  have 1: "view d1 = drive_out8 ATA_DRIVE_SELECT ?sel (view d)" "lag d1 = 0"
    unfolding d1_def by (rule drive_out8_law[OF A l]; simp)+
  have 2: "view d2 = drive_out8 ATA_SECTOR_COUNT count (view d1)" "lag d2 = 0"
    unfolding d2_def by (rule drive_out8_law[OF A 1(2)]; simp)+
  have 3: "view d3 = drive_out8 ATA_LBA_LOW (ucast (lba AND 0xFF)) (view d2)" "lag d3 = 0"
    unfolding d3_def by (rule drive_out8_law[OF A 2(2)]; simp)+
  have 4: "view d4 = drive_out8 ATA_LBA_MID (ucast (drop_bit 8 lba AND 0xFF)) (view d3)" "lag d4 = 0"
    unfolding d4_def by (rule drive_out8_law[OF A 3(2)]; simp)+
  have 5: "view d5 = drive_out8 ATA_LBA_HIGH (ucast (drop_bit 16 lba AND 0xFF)) (view d4)" "lag d5 = 0"
    unfolding d5_def by (rule drive_out8_law[OF A 4(2)]; simp)+
  have 6: "view (port_out8 io ATA_COMMAND cmd d5) = drive_out8 ATA_COMMAND cmd (view d5)"
    by (rule drive_out8_law[OF A 5(2)]) simp
  have "ata_command io cur lba count cmd d = port_out8 io ATA_COMMAND cmd d5"
    by (simp only: ata_command_def Let_def d1_def d2_def d3_def d4_def d5_def)
  moreover have "view d5 = with_command cur lba count (view d)"
    by (simp add: 1 2 3 4 5 drive_out8_def with_command_def)
  ultimately show ?thesis by (simp add: 6 drive_out8_def)
qed

lemma drive_command_ok:
  assumes "count \<noteq> 0" "lba28 lba + unat count \<le> capacity v"
  shows "drive_command ATA_CMD_READ_SECTORS (with_command cur lba count v) = (with_command cur lba count v)\<lparr>transfer :=
      unread (concat (map (\<lambda>j. sector_words (media v (cur \<noteq> 0) (lba28 lba + j))) [0..<unat count]))\<rparr>"
    "drive_command ATA_CMD_WRITE_SECTORS (with_command cur lba count v) = (with_command cur lba count v)\<lparr>transfer :=
      Writing (cur \<noteq> 0) (lba28 lba) (unat count) []\<rparr>"
proof -
  have n: "drive_sectors (with_command cur lba count v) = unat count" using assms(1) by (simp add: drive_sectors_def with_command_def)
  have m: "media (with_command cur lba count v) = media v" "capacity (with_command cur lba count v) = capacity v"
    by (simp_all add: with_command_def)
  have "concat (map (\<lambda>j. sector_words (media v (cur \<noteq> 0) (lba28 lba + j))) [0..<unat count]) \<noteq> []"
    (is "?ws \<noteq> []")
  proof
    assume "?ws = []"
    then have "256 * unat count = 0"
      using length_sectors[of "\<lambda>j. media v (cur \<noteq> 0) (lba28 lba + j)" 0 "unat count"] by (simp del: concat_eq_Nil_conv)
    with assms(1) show False by (simp add: unat_eq_0)
  qed
  then show "drive_command ATA_CMD_READ_SECTORS (with_command cur lba count v) = (with_command cur lba count v)\<lparr>transfer :=
      unread (concat (map (\<lambda>j. sector_words (media v (cur \<noteq> 0) (lba28 lba + j))) [0..<unat count]))\<rparr>"
    using assms(2) unfolding drive_command_def command_lba command_slave n m Let_def unread_def by simp
  show "drive_command ATA_CMD_WRITE_SECTORS (with_command cur lba count v) = (with_command cur lba count v)\<lparr>transfer :=
      Writing (cur \<noteq> 0) (lba28 lba) (unat count) []\<rparr>"
    using assms(2) unfolding drive_command_def command_lba command_slave n m Let_def by simp
qed


section \<open>Properties\<close>


text \<open>
  C34 (error): a read beyond the end of the disk never returns.  The drive refuses the command and sets its error
  bit, which the driver does not look at: it waits for data for good.
\<close>

theorem ata_read_error_hangs:
  assumes A: "ata_drive io view lag" and c: "count \<noteq> 0" and out: "lba28 lba + unat count > capacity (view d)"
  shows "ata_read_sectors io lba count (Some buf) (cur, d) = None"
proof -
  obtain d1 where d1: "ata_wait_ready io d = Some d1" "view d1 = view d" "lag d1 = 0" using ata_ready[OF A] by blast
  let ?d2 = "ata_command io cur lba count ATA_CMD_READ_SECTORS d1"
  have n: "drive_sectors (with_command cur lba count (view d)) = unat count" "capacity (with_command cur lba count (view d)) = capacity (view d)"
    using c by (simp_all add: drive_sectors_def with_command_def)
  have "transfer (view ?d2) = Failed"
    unfolding ata_command_drive[OF A d1(3)] d1(2) drive_command_def Let_def command_lba n using out by simp
  then have "ata_wait_drq io ?d2 = None" by (intro ata_drq_never[OF A]) (simp add: data_request_def)
  moreover obtain k where "[0..<unat count] = 0 # k" using c by (cases "unat count") (auto simp: upt_rec unat_eq_0)
  ultimately show ?thesis using d1(1) c by (simp add: ata_read_sectors_def)
qed

text \<open>A drive of four sectors that is busy for two looks after every command and every sector.\<close>

definition slow_ports :: "(drive \<times> nat) ports" where
  "slow_ports = \<lparr>
     port_in8 = (\<lambda>p (v, n). if n = 0 then (if data_request v then 0x48 else 0x40, v, 0) else (0x80, v, n - 1)),
     port_out8 = (\<lambda>p x (v, n). if n \<noteq> 0 then (v, n) else (drive_out8 p x v, if p = 0x1F7 then 2 else 0)),
     port_in16 = (\<lambda>p (v, n). case transfer v of
        Reading (w # ws) \<Rightarrow> (w, v\<lparr>transfer := (if ws = [] then Idle else Reading ws)\<rparr>, if length ws mod 256 = 0 then 2 else 0)
      | _ \<Rightarrow> (0, v, n)),
     port_out16 = (\<lambda>p w (v, n). (drive_out16 w v, case transfer v of Writing _ _ _ ws \<Rightarrow> if length ws < 255 then 0 else 2 | _ \<Rightarrow> n)),
     port_in32 = (\<lambda>p d. (0, d)), port_out32 = (\<lambda>p v d. d)\<rparr>"

definition small_disk :: "drive \<times> nat" where
  "small_disk = (\<lparr>reg_select = 0, reg_count = 0, reg_low = 0, reg_mid = 0, reg_high = 0,
     media = (\<lambda>slave s k. of_nat (s + k)), capacity = 4, transfer = Idle\<rparr>, 1)"

lemma slow_drive: "ata_drive slow_ports fst snd"
  by (auto simp: ata_drive_def slow_ports_def split: if_splits)


theorem ata_read_error_hangs_witness: "ata_read_sectors slow_ports 4 1 (Some (\<lambda>_. 0)) (0, small_disk) = None"
  by (rule ata_read_error_hangs [OF slow_drive]) (simp_all add: small_disk_def lba28_def)

end
