(* ===== verification/Descriptors.thy ===== *)
theory Descriptors
  imports Ports Syscall
begin

text \<open>
  The tables the processor reads: the segment descriptors and the task state segment of \<^verbatim>\<open>kernel/gdt.c\<close>, the
  interrupt gates of \<^verbatim>\<open>kernel/idt.c\<close>, and the set-up of the interrupt controllers and of the timer.  What the
  processor makes of a descriptor is written out as decoding functions after the architecture manual.
\<close>

section \<open>Segments\<close>

record gdt_entry =
  gd_limit_low :: u16
  gd_base_low :: u16
  gd_base_mid :: u8
  gd_access :: u8
  gd_flags_limit :: u8
  gd_base_high :: u8

record tss_entry = gdt_entry +
  td_base_upper :: u32
  td_reserved :: u32

record tss =
  ts_reserved0 :: u32
  ts_rsp0 :: u64
  ts_rsp1 :: u64
  ts_rsp2 :: u64
  ts_reserved1 :: u64
  ts_ist1 :: u64
  ts_ist2 :: u64
  ts_ist3 :: u64
  ts_ist4 :: u64
  ts_ist5 :: u64
  ts_ist6 :: u64
  ts_ist7 :: u64
  ts_reserved2 :: u64
  ts_reserved3 :: u16
  ts_iopb_offset :: u16

record descriptor_ptr =
  dp_limit :: u16
  dp_base :: u64

text \<open>The selectors \<^verbatim>\<open>lgdt\<close>, the far return and \<^verbatim>\<open>ltr\<close> leave in the processor.\<close>

record gdt_state =
  gdt_entries :: "nat \<Rightarrow> gdt_entry"
  gdt_tss :: tss_entry
  gdt_task :: tss
  gdt_ptr :: descriptor_ptr
  cpu_cs :: u16
  cpu_data :: u16
  cpu_tr :: u16

definition gdt_set_entry :: "nat \<Rightarrow> u32 \<Rightarrow> u32 \<Rightarrow> u8 \<Rightarrow> u8 \<Rightarrow> gdt_state \<Rightarrow> gdt_state" where
  "gdt_set_entry i base limit access flags g = g\<lparr>gdt_entries := (gdt_entries g)(i :=
     \<lparr>gd_limit_low = ucast (limit AND 0xFFFF), gd_base_low = ucast (base AND 0xFFFF), gd_base_mid = ucast (drop_bit 16 base AND 0xFF),
      gd_access = access, gd_flags_limit = ucast (drop_bit 16 limit AND 0x0F) OR (flags AND 0xF0),
      gd_base_high = ucast (drop_bit 24 base AND 0xFF)\<rparr>)\<rparr>"

definition gdt_set_tss :: "u64 \<Rightarrow> u32 \<Rightarrow> gdt_state \<Rightarrow> gdt_state" where
  "gdt_set_tss base limit g = g\<lparr>gdt_tss :=
     \<lparr>gd_limit_low = ucast (limit AND 0xFFFF), gd_base_low = ucast (base AND 0xFFFF), gd_base_mid = ucast (drop_bit 16 base AND 0xFF),
      gd_access = 0x89, gd_flags_limit = ucast (drop_bit 16 limit AND 0x0F), gd_base_high = ucast (drop_bit 24 base AND 0xFF),
      td_base_upper = ucast (drop_bit 32 base AND 0xFFFFFFFF), td_reserved = 0\<rparr>\<rparr>"

text \<open>The sizes of the packed structures.\<close>

abbreviation sizeof_tss :: u32 where "sizeof_tss \<equiv> 104"
abbreviation sizeof_gdt :: u16 where "sizeof_gdt \<equiv> 56"

definition gdt_init :: "u64 \<Rightarrow> u64 \<Rightarrow> gdt_state \<Rightarrow> gdt_state" where
  "gdt_init addr_gdt addr_tss g =
     (let g = g\<lparr>gdt_task := \<lparr>ts_reserved0 = 0, ts_rsp0 = 0, ts_rsp1 = 0, ts_rsp2 = 0, ts_reserved1 = 0, ts_ist1 = 0, ts_ist2 = 0, ts_ist3 = 0,
             ts_ist4 = 0, ts_ist5 = 0, ts_ist6 = 0, ts_ist7 = 0, ts_reserved2 = 0, ts_reserved3 = 0, ts_iopb_offset = ucast sizeof_tss\<rparr>\<rparr>;
          g = gdt_set_entry 0 0 0 0 0 g;
          g = gdt_set_entry 1 0 0xFFFFF 0x9A 0xA0 g;
          g = gdt_set_entry 2 0 0xFFFFF 0x92 0xC0 g;
          g = gdt_set_entry 3 0 0xFFFFF 0xF2 0xC0 g;
          g = gdt_set_entry 4 0 0xFFFFF 0xFA 0xA0 g;
          g = gdt_set_tss addr_tss (sizeof_tss - 1) g
      in g\<lparr>gdt_ptr := \<lparr>dp_limit = sizeof_gdt - 1, dp_base = addr_gdt\<rparr>, cpu_data := 0x10, cpu_cs := 0x08, cpu_tr := 0x28\<rparr>)"

definition tss_set_rsp0 :: "u64 \<Rightarrow> gdt_state \<Rightarrow> gdt_state" where
  "tss_set_rsp0 v g = g\<lparr>gdt_task := (gdt_task g)\<lparr>ts_rsp0 := v\<rparr>\<rparr>"

subsection \<open>What the processor reads\<close>

text \<open>A selector is the index of a descriptor, a table bit and a privilege level.\<close>

definition selector_index :: "u16 \<Rightarrow> nat" where
  "selector_index s = unat (drop_bit 3 s)"

definition selector_rpl :: "u16 \<Rightarrow> nat" where
  "selector_rpl s = unat (s AND 3)"

definition seg_base :: "gdt_entry \<Rightarrow> u32" where
  "seg_base e = ucast (gd_base_low e) OR push_bit 16 (ucast (gd_base_mid e)) OR push_bit 24 (ucast (gd_base_high e))"

definition seg_limit :: "('a gdt_entry_scheme) \<Rightarrow> u32" where
  "seg_limit e = ucast (gd_limit_low e) OR push_bit 16 (ucast (gd_flags_limit e AND 0x0F))"

definition tss_base :: "tss_entry \<Rightarrow> u64" where
  "tss_base e = ucast (gd_base_low e) OR push_bit 16 (ucast (gd_base_mid e)) OR push_bit 24 (ucast (gd_base_high e)) OR
     push_bit 32 (ucast (td_base_upper e))"

definition seg_present :: "'a gdt_entry_scheme \<Rightarrow> bool" where "seg_present e = bit (gd_access e) 7"
definition seg_dpl :: "'a gdt_entry_scheme \<Rightarrow> nat" where "seg_dpl e = unat (drop_bit 5 (gd_access e) AND 3)"
definition seg_code :: "'a gdt_entry_scheme \<Rightarrow> bool" where "seg_code e = (bit (gd_access e) 4 \<and> bit (gd_access e) 3)"
definition seg_writable :: "'a gdt_entry_scheme \<Rightarrow> bool" where
  "seg_writable e = (bit (gd_access e) 4 \<and> \<not> bit (gd_access e) 3 \<and> bit (gd_access e) 1)"
definition seg_long :: "'a gdt_entry_scheme \<Rightarrow> bool" where "seg_long e = (bit (gd_flags_limit e) 5 \<and> \<not> bit (gd_flags_limit e) 6)"

text \<open>Selectors the processor accepts for code and for the stack at a privilege level in long mode.\<close>

definition code_selector :: "gdt_state \<Rightarrow> nat \<Rightarrow> u16 \<Rightarrow> bool" where
  "code_selector g level s =
     (let e = gdt_entries g (selector_index s) in 8 * selector_index s + 7 \<le> unat (dp_limit (gdt_ptr g)) \<and>
      \<not> bit s 2 \<and> seg_present e \<and> seg_code e \<and> seg_long e \<and> seg_dpl e = level \<and> selector_rpl s = level)"

definition stack_selector :: "gdt_state \<Rightarrow> nat \<Rightarrow> u16 \<Rightarrow> bool" where
  "stack_selector g level s =
     (let e = gdt_entries g (selector_index s) in 8 * selector_index s + 7 \<le> unat (dp_limit (gdt_ptr g)) \<and>
      \<not> bit s 2 \<and> seg_present e \<and> seg_writable e \<and> seg_dpl e = level \<and> selector_rpl s = level)"

section \<open>Interrupts\<close>

record idt_entry =
  ig_offset_low :: u16
  ig_selector :: u16
  ig_ist :: u8
  ig_type_attr :: u8
  ig_offset_mid :: u16
  ig_offset_high :: u32
  ig_zero :: u32

type_synonym idt = "nat \<Rightarrow> idt_entry"

definition idt_set_gate :: "nat \<Rightarrow> u64 \<Rightarrow> idt \<Rightarrow> idt" where
  "idt_set_gate n handler t = t(n :=
     \<lparr>ig_offset_low = ucast (handler AND 0xFFFF), ig_selector = 0x08, ig_ist = 0, ig_type_attr = 0x8E,
      ig_offset_mid = ucast (drop_bit 16 handler AND 0xFFFF), ig_offset_high = ucast (drop_bit 32 handler AND 0xFFFFFFFF),
      ig_zero = 0\<rparr>)"

text \<open>The values written to ports, in order.\<close>

type_synonym port_script = "(u16 \<times> u8) list"

definition run_script :: "'d ports \<Rightarrow> port_script \<Rightarrow> 'd \<Rightarrow> 'd" where
  "run_script io xs d = fold (\<lambda>(p, v). port_out8 io p v) xs d"

definition pic_remap :: "'d ports \<Rightarrow> 'd \<Rightarrow> 'd" where
  "pic_remap io = run_script io
     [(0x20, 0x11), (0xA0, 0x11), (0x21, 0x20), (0xA1, 0x28), (0x21, 0x04), (0xA1, 0x02), (0x21, 0x01), (0xA1, 0x01),
      (0x21, 0xF8), (0xA1, 0xEF)]"

abbreviation PIT_FREQ :: u32 where "PIT_FREQ \<equiv> 1193182"
abbreviation PIT_HZ :: u32 where "PIT_HZ \<equiv> 100"

definition pit_init :: "'d ports \<Rightarrow> 'd \<Rightarrow> 'd" where
  "pit_init io d =
     (let divisor = ucast (PIT_FREQ div PIT_HZ) :: u16
      in run_script io [(0x43, 0x36), (0x40, ucast (divisor AND 0xFF)), (0x40, ucast (drop_bit 8 divisor AND 0xFF))] d)"

text \<open>\<open>isr n\<close> is the address of the entry code of exception \<open>n\<close>; the others are the three interrupt entries.\<close>

definition idt_init :: "(nat \<Rightarrow> u64) \<Rightarrow> u64 \<Rightarrow> u64 \<Rightarrow> u64 \<Rightarrow> u64 \<Rightarrow> 'd ports \<Rightarrow> idt \<times> 'd \<Rightarrow> idt \<times> descriptor_ptr \<times> 'd" where
  "idt_init isr irq0 irq1 irq12 addr_idt io = (\<lambda>(t, d).
     let t = fold (\<lambda>n. idt_set_gate n (isr n)) [0..<32] t;
         d = pic_remap io d;
         t = idt_set_gate 32 irq0 t;
         t = idt_set_gate 33 irq1 t;
         t = idt_set_gate 44 irq12 t
     in (t, \<lparr>dp_limit = 256 * 16 - 1, dp_base = addr_idt\<rparr>, pit_init io d))"

subsection \<open>What the processor and the controllers do\<close>

definition gate_offset :: "idt_entry \<Rightarrow> u64" where
  "gate_offset e = ucast (ig_offset_low e) OR push_bit 16 (ucast (ig_offset_mid e)) OR push_bit 32 (ucast (ig_offset_high e))"

text \<open>A present interrupt gate of privilege 0 without a stack switch through the stack table.\<close>

definition interrupt_gate :: "idt \<Rightarrow> nat \<Rightarrow> u16 \<Rightarrow> u64 \<Rightarrow> bool" where
  "interrupt_gate t n s handler \<longleftrightarrow> ig_type_attr (t n) = 0x8E \<and> ig_ist (t n) = 0 \<and> ig_selector (t n) = s \<and> gate_offset (t n) = handler"

text \<open>
  The programming of an 8259 controller: a first initialisation word starts a sequence of three more, of which
  the first is the vector of its line 0; outside the sequence the data port is the mask.  The
  pair has its ports at \<^verbatim>\<open>0x20\<close> and \<^verbatim>\<open>0xA0\<close>.
\<close>

record pic =
  pic_step :: nat
  pic_vector :: u8
  pic_mask :: u8

definition pic_command :: "u8 \<Rightarrow> pic \<Rightarrow> pic" where
  "pic_command v p = (if bit v 4 then p\<lparr>pic_step := 1\<rparr> else p)"

definition pic_data :: "u8 \<Rightarrow> pic \<Rightarrow> pic" where
  "pic_data v p =
     (if pic_step p = 1 then p\<lparr>pic_step := 2, pic_vector := v\<rparr>
      else if pic_step p = 2 then p\<lparr>pic_step := 3\<rparr>
      else if pic_step p = 3 then p\<lparr>pic_step := 0\<rparr>
      else p\<lparr>pic_mask := v\<rparr>)"

definition pic_pair :: "'d ports \<Rightarrow> ('d \<Rightarrow> pic \<times> pic) \<Rightarrow> bool" where
  "pic_pair io view \<longleftrightarrow> (\<forall>p v d. view (port_out8 io p v d) =
     (case view d of (a, b) \<Rightarrow>
        if p = 0x20 then (pic_command v a, b) else if p = 0x21 then (pic_data v a, b)
        else if p = 0xA0 then (a, pic_command v b) else if p = 0xA1 then (a, pic_data v b) else (a, b)))"

text \<open>The vector of an interrupt line, \<open>None\<close> when it is masked or behind a masked cascade line.\<close>

definition irq_vector :: "pic \<times> pic \<Rightarrow> nat \<Rightarrow> nat option" where
  "irq_vector = (\<lambda>(a, b) n.
     if n < 8 then (if bit (pic_mask a) n then None else Some (unat (pic_vector a) + n))
     else if n < 16 \<and> \<not> bit (pic_mask a) 2 \<and> \<not> bit (pic_mask b) (n - 8) then Some (unat (pic_vector b) + (n - 8))
     else None)"


section \<open>Properties\<close>

text \<open>Reassembling an address from the fields it was split into.\<close>

lemma low_mask: "(w AND 0xFFFF :: u64) = take_bit 16 w" "(w AND 0xFF :: u64) = take_bit 8 w" "(w AND 0xFFFFFFFF :: u64) = take_bit 32 w"
  by (simp_all add: take_bit_eq_mask mask_numeral)

lemma tss_address: "tss_base (gdt_tss (gdt_set_tss base limit g)) = base"
proof (rule bit_word_eqI)
  fix n assume n: "n < LENGTH(64)"
  consider "n < 16" | "16 \<le> n" "n < 24" | "24 \<le> n" "n < 32" | "32 \<le> n" by linarith
  then show "bit (tss_base (gdt_tss (gdt_set_tss base limit g))) n = bit base n"
    using n by cases (auto simp: tss_base_def gdt_set_tss_def low_mask bit_or_iff bit_push_bit_iff bit_unsigned_iff bit_take_bit_iff bit_drop_bit_eq)
qed

lemma gate_address: "gate_offset (idt_set_gate n handler t n) = handler"
proof (rule bit_word_eqI)
  fix k assume n: "k < LENGTH(64)"
  consider "k < 16" | "16 \<le> k" "k < 32" | "32 \<le> k" by linarith
  then show "bit (gate_offset (idt_set_gate n handler t n)) k = bit handler k"
    using n by cases (auto simp: gate_offset_def idt_set_gate_def low_mask bit_or_iff bit_push_bit_iff bit_unsigned_iff bit_take_bit_iff bit_drop_bit_eq)
qed

text \<open>The selectors \<^verbatim>\<open>syscall\<close> and \<^verbatim>\<open>sysret\<close> derive from the register \<^verbatim>\<open>STAR\<close>.\<close>

definition syscall_cs :: "u64 \<Rightarrow> u16" where "syscall_cs star = ucast (drop_bit 32 star) AND NOT 3"
definition syscall_ss :: "u64 \<Rightarrow> u16" where "syscall_ss star = (ucast (drop_bit 32 star) AND NOT 3) + 8"
definition sysret_cs :: "u64 \<Rightarrow> u16" where "sysret_cs star = (ucast (drop_bit 48 star) + 16) OR 3"
definition sysret_ss :: "u64 \<Rightarrow> u16" where "sysret_ss star = (ucast (drop_bit 48 star) + 8) OR 3"

lemma star_value: "rdmsr MSR_STAR (syscall_init e r) = 0x0010000800000000"
  by (simp add: syscall_init_def rdmsr_def wrmsr_def Let_def)

text \<open>
  C36 (functional): after \<^verbatim>\<open>gdt_init\<close> every selector the kernel uses names a descriptor of the right kind inside the
  table: \<^verbatim>\<open>0x08\<close> and \<^verbatim>\<open>0x10\<close>, loaded at once, are 64-bit code and data of privilege 0; \<^verbatim>\<open>0x23\<close> and \<^verbatim>\<open>0x1B\<close>, which
  \<^verbatim>\<open>sched_spawn\<close> and \<^verbatim>\<open>sched_fork\<close> put into the frames of programs, are 64-bit code and data of privilege 3; and these
  four are the ones \<^verbatim>\<open>syscall\<close> and \<^verbatim>\<open>sysret\<close> derive from what \<^verbatim>\<open>syscall_init\<close> sets.  The null descriptor is not
  present; the task register names a descriptor with exactly the address of the task state
  segment, whose input-output map lies beyond its limit, so no program may use a port.
\<close>

theorem gdt_init_correct:
  "let g = gdt_init addr_gdt addr_tss g0; star = rdmsr MSR_STAR (syscall_init entry msrs) in
    code_selector g 0 0x08 \<and> stack_selector g 0 0x10 \<and> code_selector g 3 0x23 \<and> stack_selector g 3 0x1B \<and>
    cpu_cs g = 0x08 \<and> cpu_data g = 0x10 \<and>
    syscall_cs star = 0x08 \<and> syscall_ss star = 0x10 \<and> sysret_cs star = 0x23 \<and> sysret_ss star = 0x1B \<and>
    \<not> seg_present (gdt_entries g 0) \<and> dp_base (gdt_ptr g) = addr_gdt \<and>
    selector_index (cpu_tr g) = 5 \<and> 5 * 8 + 15 = unat (dp_limit (gdt_ptr g)) \<and>
    gd_access (gdt_tss g) = 0x89 \<and> tss_base (gdt_tss g) = addr_tss \<and> seg_limit (gdt_tss g) = sizeof_tss - 1 \<and>
    unat (ts_iopb_offset (gdt_task g)) > unat (seg_limit (gdt_tss g)) \<and> ts_rsp0 (gdt_task (tss_set_rsp0 v g)) = v"
proof -
  define g where "g = gdt_init addr_gdt addr_tss g0"
  have e: "gdt_tss g = gdt_tss (gdt_set_tss addr_tss (sizeof_tss - 1) g0)"
    "ts_iopb_offset (gdt_task g) = 104" "gdt_ptr g = \<lparr>dp_limit = 55, dp_base = addr_gdt\<rparr>"
    "cpu_cs g = 0x08" "cpu_data g = 0x10" "cpu_tr g = 0x28"
    by (simp_all add: g_def gdt_init_def gdt_set_entry_def gdt_set_tss_def Let_def)
  have d: "gdt_entries g 0 = \<lparr>gd_limit_low = 0, gd_base_low = 0, gd_base_mid = 0, gd_access = 0, gd_flags_limit = 0, gd_base_high = 0\<rparr>"
    "gdt_entries g 1 = \<lparr>gd_limit_low = 0xFFFF, gd_base_low = 0, gd_base_mid = 0, gd_access = 0x9A, gd_flags_limit = 0xAF, gd_base_high = 0\<rparr>"
    "gdt_entries g 2 = \<lparr>gd_limit_low = 0xFFFF, gd_base_low = 0, gd_base_mid = 0, gd_access = 0x92, gd_flags_limit = 0xCF, gd_base_high = 0\<rparr>"
    "gdt_entries g 3 = \<lparr>gd_limit_low = 0xFFFF, gd_base_low = 0, gd_base_mid = 0, gd_access = 0xF2, gd_flags_limit = 0xCF, gd_base_high = 0\<rparr>"
    "gdt_entries g 4 = \<lparr>gd_limit_low = 0xFFFF, gd_base_low = 0, gd_base_mid = 0, gd_access = 0xFA, gd_flags_limit = 0xAF, gd_base_high = 0\<rparr>"
    by (simp_all add: g_def gdt_init_def gdt_set_entry_def gdt_set_tss_def Let_def)
  have i: "selector_index 0x08 = 1" "selector_index 0x10 = 2" "selector_index 0x23 = 4" "selector_index 0x1B = 3" "selector_index 0x28 = 5"
    by (simp_all add: selector_index_def)
  have s: "code_selector g 0 0x08" "stack_selector g 0 0x10" "code_selector g 3 0x23" "stack_selector g 3 0x1B"
    unfolding code_selector_def stack_selector_def i d e Let_def
    by (simp_all add: seg_present_def seg_code_def seg_long_def seg_dpl_def seg_writable_def selector_rpl_def)
  have l: "seg_limit (gdt_tss g) = 103" "gd_access (gdt_tss g) = 0x89" by (simp_all add: e seg_limit_def gdt_set_tss_def)
  show ?thesis
    unfolding Let_def star_value g_def[symmetric]
    using s d(1) l i(5) by (simp add: e tss_address syscall_cs_def syscall_ss_def sysret_cs_def sysret_ss_def seg_present_def tss_set_rsp0_def)
qed

text \<open>
  C37 (roundtrip): after \<^verbatim>\<open>idt_init\<close> exceptions and interrupts arrive where they should.  Reading the table back as
  the processor does gives the entry code of each of the 32 exceptions and of the three
  interrupts, as interrupt gates into the kernel's code segment, and all other gates are as
  before; the table covers all 256 vectors.  Of the lines of the interrupt controllers exactly those of the timer,
  the keyboard and the mouse are let through (and the cascade), and each is delivered to the vector of its gate.
\<close>

theorem idt_init_correct:
  assumes P: "pic_pair io view" and i: "idt_init isr irq0 irq1 irq12 addr io (t, d) = (t', p, d')"
  shows "(\<forall>n<32. interrupt_gate t' n 0x08 (isr n)) \<and> interrupt_gate t' 32 0x08 irq0 \<and> interrupt_gate t' 33 0x08 irq1 \<and>
    interrupt_gate t' 44 0x08 irq12 \<and> (\<forall>n. n \<ge> 34 \<and> n \<noteq> 44 \<longrightarrow> t' n = t n) \<and>
    unat (dp_limit p) + 1 = 256 * 16 \<and> dp_base p = addr \<and>
    (\<forall>n<16. n \<noteq> 2 \<longrightarrow> irq_vector (view d') n = (if n = 0 then Some 32 else if n = 1 then Some 33 else if n = 12 then Some 44 else None))"
proof -
  have g: "interrupt_gate (idt_set_gate n h u) k 8 h' \<longleftrightarrow> (if k = n then h' = h else interrupt_gate u k 8 h')" for n k h h' u
    using gate_address[of n h u] by (auto simp: interrupt_gate_def idt_set_gate_def)
  have o: "idt_set_gate n h u k = u k" if "k \<noteq> n" for n k h u using that by (simp add: idt_set_gate_def)
  have f: "(\<forall>n<m. interrupt_gate (fold (\<lambda>n. idt_set_gate n (isr n)) [0..<m] t) n 8 (isr n)) \<and>
    (\<forall>n\<ge>m. fold (\<lambda>n. idt_set_gate n (isr n)) [0..<m] t n = t n)" for m
    by (induction m) (auto simp: g o less_Suc_eq)
  let ?t = "fold (\<lambda>n. idt_set_gate n (isr n)) [0..<32] t"
  have t': "t' = idt_set_gate 44 irq12 (idt_set_gate 33 irq1 (idt_set_gate 32 irq0 ?t))"
    and p: "p = \<lparr>dp_limit = 256 * 16 - 1, dp_base = addr\<rparr>" and d': "d' = pit_init io (pic_remap io d)"
    using i by (simp_all add: idt_init_def Let_def del: upt.simps)
  have gates: "(\<forall>n<32. interrupt_gate t' n 8 (isr n)) \<and> interrupt_gate t' 32 8 irq0 \<and> interrupt_gate t' 33 8 irq1 \<and>
    interrupt_gate t' 44 8 irq12" "\<forall>n. n \<ge> 34 \<and> n \<noteq> 44 \<longrightarrow> t' n = t n"
    using f[of 32] unfolding t' by (auto simp: g o)
  have out: "view (port_out8 io p v d) =
     (case view d of (a, b) \<Rightarrow>
        if p = 0x20 then (pic_command v a, b) else if p = 0x21 then (pic_data v a, b)
        else if p = 0xA0 then (a, pic_command v b) else if p = 0xA1 then (a, pic_data v b) else (a, b))" for p v d
    using P unfolding pic_pair_def by blast
  have v: "view d' = (\<lparr>pic_step = 0, pic_vector = 0x20, pic_mask = 0xF8\<rparr>, \<lparr>pic_step = 0, pic_vector = 0x28, pic_mask = 0xEF\<rparr>)"
    by (cases "view d") (simp add: d' pit_init_def pic_remap_def run_script_def out pic_command_def pic_data_def Let_def)
  have "\<forall>n\<in>set [0..<16]. n \<noteq> 2 \<longrightarrow> irq_vector (view d') n =
      (if n = 0 then Some 32 else if n = 1 then Some 33 else if n = 12 then Some 44 else None)"
    unfolding v by (simp add: irq_vector_def upt_rec)
  with gates p show ?thesis by auto
qed

text \<open>A pair of controllers after power-on.\<close>

definition pic_ports :: "(pic \<times> pic) ports" where
  "pic_ports = \<lparr>port_in8 = (\<lambda>p d. (0, d)),
     port_out8 = (\<lambda>p v (a, b). if p = 0x20 then (pic_command v a, b) else if p = 0x21 then (pic_data v a, b)
        else if p = 0xA0 then (a, pic_command v b) else if p = 0xA1 then (a, pic_data v b) else (a, b)),
     port_in16 = (\<lambda>p d. (0, d)), port_out16 = (\<lambda>p v d. d), port_in32 = (\<lambda>p d. (0, d)), port_out32 = (\<lambda>p v d. d)\<rparr>"

theorem idt_init_correct_witness:
  "case idt_init (\<lambda>n. 0x100000 + 16 * of_nat n) 0xFFFFFFFF80001000 2 3 0x5000 pic_ports
      (\<lambda>_. \<lparr>ig_offset_low = 0, ig_selector = 0, ig_ist = 0, ig_type_attr = 0, ig_offset_mid = 0, ig_offset_high = 0, ig_zero = 0\<rparr>,
       \<lparr>pic_step = 0, pic_vector = 8, pic_mask = 0\<rparr>, \<lparr>pic_step = 2, pic_vector = 112, pic_mask = 0\<rparr>) of
    (t, p, d) \<Rightarrow> gate_offset (t 14) = 0x1000E0 \<and> gate_offset (t 32) = 0xFFFFFFFF80001000 \<and> irq_vector d 12 = Some 44 \<and> irq_vector d 3 = None"
proof -
  let ?i = "idt_init (\<lambda>n. 0x100000 + 16 * of_nat n) 0xFFFFFFFF80001000 2 3 0x5000 pic_ports
      (\<lambda>_. \<lparr>ig_offset_low = 0, ig_selector = 0, ig_ist = 0, ig_type_attr = 0, ig_offset_mid = 0, ig_offset_high = 0, ig_zero = 0\<rparr>,
       \<lparr>pic_step = 0, pic_vector = 8, pic_mask = 0\<rparr>, \<lparr>pic_step = 2, pic_vector = 112, pic_mask = 0\<rparr>)"
  obtain t p d where i: "?i = (t, p, d)" by (cases ?i)
  have "pic_pair pic_ports (\<lambda>d. d)" by (simp add: pic_pair_def pic_ports_def)
  note I = idt_init_correct [OF this i]
  then have "\<forall>n<32. interrupt_gate t n 8 (0x100000 + 16 * of_nat n)" by blast
  then have "interrupt_gate t 14 8 (0x100000 + 16 * of_nat 14)" by (rule allE[of _ 14]) simp
  moreover have "interrupt_gate t 32 8 0xFFFFFFFF80001000" "irq_vector d 12 = Some 44" "irq_vector d 3 = None" using I by simp_all
  ultimately have "interrupt_gate t 14 8 0x1000E0" "interrupt_gate t 32 8 0xFFFFFFFF80001000" "irq_vector d 12 = Some 44"
    "irq_vector d 3 = None" by simp_all
  then show ?thesis unfolding i by (simp add: interrupt_gate_def)
qed

end
