(* ===== verification/Pci.thy ===== *)
theory Pci
  imports Ports
begin

text \<open>
  Access to the configuration space of PCI devices, \<^verbatim>\<open>kernel/drivers/pci.c\<close>, and the search for a device by its class.
  What configuration mechanism 1 of the PCI standard promises is \<open>config_mechanism\<close>; on hardware
  that keeps it, the accessors read and write 32, 16 and 8 bits of an array of registers, and the search
  answers the first matching function that the scan of the buses can see.
\<close>

section \<open>Configuration space\<close>

definition pci_address :: "u8 \<Rightarrow> u8 \<Rightarrow> u8 \<Rightarrow> u8 \<Rightarrow> u32" where
  "pci_address bus slot func offset =
     push_bit 31 1 OR push_bit 16 (ucast bus) OR push_bit 11 (ucast slot) OR push_bit 8 (ucast func) OR
     (ucast offset AND 0xFC)"

definition pci_config_read32 :: "'d ports \<Rightarrow> u8 \<Rightarrow> u8 \<Rightarrow> u8 \<Rightarrow> u8 \<Rightarrow> 'd \<Rightarrow> u32 \<times> 'd" where
  "pci_config_read32 io bus slot func offset d =
     port_in32 io 0x0CFC (port_out32 io 0x0CF8 (pci_address bus slot func offset) d)"

definition pci_config_read16 :: "'d ports \<Rightarrow> u8 \<Rightarrow> u8 \<Rightarrow> u8 \<Rightarrow> u8 \<Rightarrow> 'd \<Rightarrow> u16 \<times> 'd" where
  "pci_config_read16 io bus slot func offset d =
     (case pci_config_read32 io bus slot func offset d of (v, d) \<Rightarrow> (ucast (drop_bit (unat (offset AND 2) * 8) v), d))"

definition pci_config_read8 :: "'d ports \<Rightarrow> u8 \<Rightarrow> u8 \<Rightarrow> u8 \<Rightarrow> u8 \<Rightarrow> 'd \<Rightarrow> u8 \<times> 'd" where
  "pci_config_read8 io bus slot func offset d =
     (case pci_config_read32 io bus slot func offset d of (v, d) \<Rightarrow> (ucast (drop_bit (unat (offset AND 3) * 8) v), d))"

definition pci_config_write16 :: "'d ports \<Rightarrow> u8 \<Rightarrow> u8 \<Rightarrow> u8 \<Rightarrow> u8 \<Rightarrow> u16 \<Rightarrow> 'd \<Rightarrow> 'd" where
  "pci_config_write16 io bus slot func offset v d =
     (let addr = pci_address bus slot func offset
      in case port_in32 io 0x0CFC (port_out32 io 0x0CF8 addr d) of (old, d) \<Rightarrow>
           let shift = unat (offset AND 2) * 8;
               new = (old AND NOT (push_bit shift 0xFFFF)) OR push_bit shift (ucast v)
           in port_out32 io 0x0CFC new (port_out32 io 0x0CF8 addr d))"

definition pci_config_write32 :: "'d ports \<Rightarrow> u8 \<Rightarrow> u8 \<Rightarrow> u8 \<Rightarrow> u8 \<Rightarrow> u32 \<Rightarrow> 'd \<Rightarrow> 'd" where
  "pci_config_write32 io bus slot func offset v d =
     port_out32 io 0x0CFC v (port_out32 io 0x0CF8 (pci_address bus slot func offset) d)"

section \<open>Finding a device\<close>

record pci_device =
  pci_bus :: u8
  pci_slot :: u8
  pci_func :: u8
  vendor_id :: u16
  device_id :: u16
  bar4 :: u32
  irq :: u8

text \<open>
  The loop over the functions of a slot: \<open>Some\<close> is the return from the search.  \<open>out\<close> tells whether the caller gave a
  structure to fill.
\<close>

fun pci_scan_funcs :: "'d ports \<Rightarrow> u8 \<Rightarrow> u8 \<Rightarrow> u8 \<Rightarrow> bool \<Rightarrow> u8 \<Rightarrow> u8 \<Rightarrow> u8 list \<Rightarrow> 'd \<Rightarrow> pci_device option option \<times> 'd" where
  "pci_scan_funcs io class_code subclass prog_if out bus slot [] d = (None, d)"
| "pci_scan_funcs io class_code subclass prog_if out bus slot (func # funcs) d =
     (case pci_config_read32 io bus slot func 0x00 d of (ident, d) \<Rightarrow>
      let vendor = ucast ident :: u16 in
      if vendor = 0xFFFF
      then if func = 0 then (None, d) else pci_scan_funcs io class_code subclass prog_if out bus slot funcs d
      else case pci_config_read32 io bus slot func 0x08 d of (class_reg, d) \<Rightarrow>
        if ucast (drop_bit 24 class_reg) = class_code \<and> ucast (drop_bit 16 class_reg) = subclass \<and>
           ucast (drop_bit 8 class_reg) = prog_if
        then if \<not> out then (Some None, d)
             else case pci_config_read32 io bus slot func 0x20 d of (b4, d) \<Rightarrow>
                  case pci_config_read8 io bus slot func 0x3C d of (q, d) \<Rightarrow>
                  (Some (Some \<lparr>pci_bus = bus, pci_slot = slot, pci_func = func, vendor_id = vendor,
                     device_id = ucast (drop_bit 16 ident), bar4 = b4, irq = q\<rparr>), d)
        else if func = 0
        then case pci_config_read8 io bus slot func 0x0E d of (header, d) \<Rightarrow>
               if header AND 0x80 = 0 then (None, d)
               else pci_scan_funcs io class_code subclass prog_if out bus slot funcs d
        else pci_scan_funcs io class_code subclass prog_if out bus slot funcs d)"

fun pci_scan_slots :: "'d ports \<Rightarrow> u8 \<Rightarrow> u8 \<Rightarrow> u8 \<Rightarrow> bool \<Rightarrow> (u8 \<times> u8) list \<Rightarrow> 'd \<Rightarrow> pci_device option option \<times> 'd" where
  "pci_scan_slots io class_code subclass prog_if out [] d = (None, d)"
| "pci_scan_slots io class_code subclass prog_if out ((bus, slot) # slots) d =
     (case pci_scan_funcs io class_code subclass prog_if out bus slot (map of_nat [0..<8]) d of
        (Some r, d) \<Rightarrow> (Some r, d)
      | (None, d) \<Rightarrow> pci_scan_slots io class_code subclass prog_if out slots d)"

definition all_slots :: "(u8 \<times> u8) list" where
  "all_slots = concat (map (\<lambda>bus. map (\<lambda>slot. (of_nat bus, of_nat slot)) [0..<32]) [0..<256])"

text \<open>The result is 1 exactly when it is \<open>Some\<close>.\<close>

definition pci_find_device :: "'d ports \<Rightarrow> u8 \<Rightarrow> u8 \<Rightarrow> u8 \<Rightarrow> bool \<Rightarrow> 'd \<Rightarrow> pci_device option option \<times> 'd" where
  "pci_find_device io class_code subclass prog_if out d = pci_scan_slots io class_code subclass prog_if out all_slots d"

section \<open>What the standard promises\<close>

text \<open>
  Configuration mechanism 1: the address written to one port selects the register that the other port reads and
  writes.  \<open>regs d\<close> are the registers by address.
\<close>

definition config_mechanism :: "'d ports \<Rightarrow> ('d \<Rightarrow> u32 \<Rightarrow> u32) \<Rightarrow> bool" where
  "config_mechanism io regs \<longleftrightarrow>
     (\<forall>d a. \<exists>d'. port_in32 io 0x0CFC (port_out32 io 0x0CF8 a d) = (regs d a, d') \<and> regs d' = regs d) \<and>
     (\<forall>d a v. regs (port_out32 io 0x0CFC v (port_out32 io 0x0CF8 a d)) = (regs d)(a := v))"

lemma config_read:
  assumes "config_mechanism io regs"
  obtains d' where "port_in32 io 0x0CFC (port_out32 io 0x0CF8 a d) = (regs d a, d')" "regs d' = regs d"
  using assms unfolding config_mechanism_def by blast

lemma read32:
  assumes "config_mechanism io regs"
  obtains d' where "pci_config_read32 io b s f off d = (regs d (pci_address b s f off), d')" "regs d' = regs d"
  unfolding pci_config_read32_def by (rule config_read[OF assms])

text \<open>The 16-bit and 8-bit parts of a register.\<close>

definition half_of :: "u8 \<Rightarrow> u32 \<Rightarrow> u16" where
  "half_of offset v = ucast (drop_bit (unat (offset AND 2) * 8) v)"

definition byte_of :: "u8 \<Rightarrow> u32 \<Rightarrow> u8" where
  "byte_of offset v = ucast (drop_bit (unat (offset AND 3) * 8) v)"

lemma read8:
  assumes "config_mechanism io regs"
  obtains d' where "pci_config_read8 io b s f off d = (byte_of off (regs d (pci_address b s f off)), d')" "regs d' = regs d"
  by (rule read32[OF assms, of b s f off d]) (simp add: pci_config_read8_def byte_of_def)

text \<open>A write of 16 bits: its own half changes, the other one does not.\<close>

definition with_half :: "u8 \<Rightarrow> u16 \<Rightarrow> u32 \<Rightarrow> u32" where
  "with_half offset v old = (old AND NOT (push_bit (unat (offset AND 2) * 8) 0xFFFF)) OR push_bit (unat (offset AND 2) * 8) (ucast v)"

lemma half_offset: "unat (off AND 2 :: u8) * 8 = (if bit off 1 then 16 else 0)"
proof -
  have two: "bit (2 :: u8) n \<longleftrightarrow> n = 1" for n
  proof -
    have "(2 :: u8) = push_bit 1 1" by simp
    then have "bit (2 :: u8) n \<longleftrightarrow> bit (push_bit 1 (1 :: u8)) n" by (simp only:)
    also have "\<dots> \<longleftrightarrow> n = 1" unfolding bit_push_bit_iff bit_1_iff by auto
    finally show ?thesis .
  qed
  have "off AND 2 = (if bit off 1 then 2 else 0)"
    by (rule bit_word_eqI) (cases "bit off 1"; auto simp only: bit_and_iff two if_True if_False bit_0_eq bot_apply bot_bool_def)
  then show ?thesis by simp
qed

lemma bit_FFFF: "bit (0xFFFF :: u32) n \<longleftrightarrow> n < 16"
proof -
  have F: "(0xFFFF :: u32) = mask 16" by (simp add: mask_numeral)
  show ?thesis unfolding F bit_mask_iff by auto
qed

lemma half_with_half:
  "half_of o' (with_half off v old) = (if bit o' 1 = bit off 1 then v else half_of o' old)"
  by (rule bit_word_eqI)
    (unfold half_of_def with_half_def half_offset bit_unsigned_iff bit_drop_bit_eq bit_or_iff bit_and_iff bit_not_iff
      bit_push_bit_iff bit_FFFF comp_def, auto simp: bit_unsigned_iff bit_drop_bit_eq dest: bit_imp_le_length)

lemma write16_regs:
  assumes "config_mechanism io regs"
  shows "regs (pci_config_write16 io b s f off v d) =
    (regs d)(pci_address b s f off := with_half off v (regs d (pci_address b s f off)))"
proof -
  obtain d' where d': "port_in32 io 0x0CFC (port_out32 io 0x0CF8 (pci_address b s f off) d) = (regs d (pci_address b s f off), d')"
    "regs d' = regs d" by (rule config_read[OF assms])
  then show ?thesis using assms unfolding config_mechanism_def
    by (simp add: pci_config_write16_def Let_def with_half_def)
qed

section \<open>The search\<close>

text \<open>
  The functions the scan can see, in its order: of a slot whose function 0 answers, that one, and the others that
  answer if the header of function 0 says that there are more.
\<close>

definition present :: "(u32 \<Rightarrow> u32) \<Rightarrow> u8 \<Rightarrow> u8 \<Rightarrow> u8 \<Rightarrow> bool" where
  "present regs b s f \<longleftrightarrow> (ucast (regs (pci_address b s f 0)) :: u16) \<noteq> 0xFFFF"

definition slot_functions :: "(u32 \<Rightarrow> u32) \<Rightarrow> u8 \<times> u8 \<Rightarrow> (u8 \<times> u8 \<times> u8) list" where
  "slot_functions regs = (\<lambda>(b, s).
     if \<not> present regs b s 0 then []
     else (b, s, 0) # (if byte_of 0x0E (regs (pci_address b s 0 0x0E)) AND 0x80 = 0 then []
       else map (\<lambda>f. (b, s, f)) (filter (present regs b s) (map of_nat [1..<8]))))"

definition of_class :: "(u32 \<Rightarrow> u32) \<Rightarrow> u8 \<Rightarrow> u8 \<Rightarrow> u8 \<Rightarrow> u8 \<times> u8 \<times> u8 \<Rightarrow> bool" where
  "of_class regs class_code subclass prog_if = (\<lambda>(b, s, f).
     let r = regs (pci_address b s f 8) in ucast (drop_bit 24 r) = class_code \<and> ucast (drop_bit 16 r) = subclass \<and>
       ucast (drop_bit 8 r) = prog_if)"

definition describe :: "(u32 \<Rightarrow> u32) \<Rightarrow> u8 \<times> u8 \<times> u8 \<Rightarrow> pci_device" where
  "describe regs = (\<lambda>(b, s, f).
     \<lparr>pci_bus = b, pci_slot = s, pci_func = f, vendor_id = ucast (regs (pci_address b s f 0)),
      device_id = ucast (drop_bit 16 (regs (pci_address b s f 0))), bar4 = regs (pci_address b s f 0x20),
      irq = byte_of 0x3C (regs (pci_address b s f 0x3C))\<rparr>)"

definition answer :: "(u32 \<Rightarrow> u32) \<Rightarrow> bool \<Rightarrow> (u8 \<times> u8 \<times> u8) option \<Rightarrow> pci_device option option" where
  "answer regs out = map_option (\<lambda>x. if out then Some (describe regs x) else None)"

lemma scan_tail:
  assumes M: "config_mechanism io regs"
  shows "0 \<notin> set fs \<Longrightarrow> \<exists>d'. pci_scan_funcs io c sc pi out b s fs d =
      (answer (regs d) out (List.find (of_class (regs d) c sc pi) (map (\<lambda>f. (b, s, f)) (filter (present (regs d) b s) fs))), d') \<and>
    regs d' = regs d"
proof (induction fs arbitrary: d)
  case (Cons f fs)
  obtain d1 where d1: "pci_config_read32 io b s f 0 d = (regs d (pci_address b s f 0), d1)" "regs d1 = regs d"
    by (rule read32[OF M])
  obtain d2 where d2: "pci_config_read32 io b s f 8 d1 = (regs d (pci_address b s f 8), d2)" "regs d2 = regs d"
    using read32[OF M, of b s f 8 d1] d1(2) by metis
  obtain d3 where d3: "pci_config_read32 io b s f 0x20 d2 = (regs d (pci_address b s f 0x20), d3)" "regs d3 = regs d"
    using read32[OF M, of b s f "0x20" d2] d2(2) by metis
  obtain d4 where d4: "pci_config_read8 io b s f 0x3C d3 = (byte_of 0x3C (regs d (pci_address b s f 0x3C)), d4)" "regs d4 = regs d"
    using read8[OF M, of b s f "0x3C" d3] d3(2) by metis
  from Cons.IH[of d1] Cons.IH[of d2] Cons.prems d1 d2 d3 d4 show ?case
    by (auto simp: Let_def present_def of_class_def answer_def describe_def)
qed (simp add: answer_def)

lemma scan_slot:
  assumes M: "config_mechanism io regs"
  shows "\<exists>d'. pci_scan_funcs io c sc pi out b s (map of_nat [0..<8]) d =
      (answer (regs d) out (List.find (of_class (regs d) c sc pi) (slot_functions (regs d) (b, s))), d') \<and> regs d' = regs d"
proof -
  have up: "map of_nat [0..<8] = (0 :: u8) # map of_nat [1..<8]" by (simp add: upt_rec)
  have nz: "(0 :: u8) \<notin> set (map of_nat [1..<8])" by (simp add: upt_rec)
  obtain d1 where d1: "pci_config_read32 io b s 0 0 d = (regs d (pci_address b s 0 0), d1)" "regs d1 = regs d"
    by (rule read32[OF M])
  obtain d2 where d2: "pci_config_read32 io b s 0 8 d1 = (regs d (pci_address b s 0 8), d2)" "regs d2 = regs d"
    using read32[OF M, of b s 0 8 d1] d1(2) by metis
  obtain d3 where d3: "pci_config_read32 io b s 0 0x20 d2 = (regs d (pci_address b s 0 0x20), d3)" "regs d3 = regs d"
    using read32[OF M, of b s 0 "0x20" d2] d2(2) by metis
  obtain d4 where d4: "pci_config_read8 io b s 0 0x3C d3 = (byte_of 0x3C (regs d (pci_address b s 0 0x3C)), d4)" "regs d4 = regs d"
    using read8[OF M, of b s 0 "0x3C" d3] d3(2) by metis
  obtain d5 where d5: "pci_config_read8 io b s 0 0x0E d2 = (byte_of 0x0E (regs d (pci_address b s 0 0x0E)), d5)" "regs d5 = regs d"
    using read8[OF M, of b s 0 "0x0E" d2] d2(2) by metis
  note T = scan_tail[OF M nz, of c sc pi out b s d5, unfolded d5(2)]
  show ?thesis
    unfolding up pci_scan_funcs.simps d1(1) d2(1) d3(1) d4(1) d5(1) prod.case Let_def slot_functions_def
    using T d1(2) d2(2) d4(2) d5(2)
    by (auto simp: present_def of_class_def answer_def describe_def Let_def simp del: upt.simps)
qed

lemma scan_all:
  assumes M: "config_mechanism io regs"
  shows "\<exists>d'. pci_scan_slots io c sc pi out slots d =
      (answer (regs d) out (List.find (of_class (regs d) c sc pi) (concat (map (slot_functions (regs d)) slots))), d') \<and>
    regs d' = regs d"
proof (induction slots arbitrary: d)
  case (Cons x slots)
  obtain b s where x: "x = (b, s)" by (cases x)
  obtain d1 where d1: "pci_scan_funcs io c sc pi out b s (map of_nat [0..<8]) d =
      (answer (regs d) out (List.find (of_class (regs d) c sc pi) (slot_functions (regs d) (b, s))), d1)" "regs d1 = regs d"
    using scan_slot[OF M] by blast
  show ?case using d1 Cons.IH[of d1]
    by (auto simp: x find_append answer_def simp del: pci_scan_funcs.simps upt.simps split: option.splits)
qed (simp add: answer_def)


section \<open>Properties\<close>

text \<open>
  C35 (functional): \<^verbatim>\<open>pci_find_device\<close> finds the first function, by bus, slot and number, that is of the class asked
  for among the functions the buses show: function 0 of each slot that answers, and the other functions that answer
  where the header of function 0 is that of a device with several functions.  It fills the structure of the
  caller with the identifiers, the base address 4 and the interrupt line of that function, fails exactly
  when there is none, and changes no register.
\<close>

theorem pci_find_device_correct:
  assumes "config_mechanism io regs"
  shows "\<exists>d'. pci_find_device io class_code subclass prog_if out d =
      (map_option (\<lambda>x. if out then Some (describe (regs d) x) else None)
        (List.find (of_class (regs d) class_code subclass prog_if) (concat (map (slot_functions (regs d)) all_slots))), d') \<and>
    regs d' = regs d"
  using scan_all[OF assms] by (simp add: pci_find_device_def answer_def)

text \<open>
  What \<^verbatim>\<open>pci_config_write16\<close> wrote, \<^verbatim>\<open>pci_config_read16\<close> reads back, in each half of a register, and
  the other half of the register and all registers with another address keep their value.
\<close>

theorem pci_write16_roundtrip:
  assumes "config_mechanism io regs"
  shows "fst (pci_config_read16 io b s f off (pci_config_write16 io b s f off v d)) = v \<and>
    (\<forall>b' s' f' off'. pci_address b' s' f' off' \<noteq> pci_address b s f off \<or> bit off' 1 \<noteq> bit off 1 \<longrightarrow>
      fst (pci_config_read16 io b' s' f' off' (pci_config_write16 io b s f off v d)) = fst (pci_config_read16 io b' s' f' off' d))"
proof -
  have r: "fst (pci_config_read16 io b s f off d) = half_of off (regs d (pci_address b s f off))" for b s f off d
    by (rule read32[OF assms, of b s f off d]) (simp add: pci_config_read16_def half_of_def)
  show ?thesis unfolding r write16_regs[OF assms] by (auto simp: half_with_half)
qed

text \<open>A machine with one device with two functions, the second a USB controller.\<close>

definition latched_ports :: "(u32 \<times> (u32 \<Rightarrow> u32)) ports" where
  "latched_ports = \<lparr>port_in8 = (\<lambda>p d. (0, d)), port_out8 = (\<lambda>p v d. d), port_in16 = (\<lambda>p d. (0, d)), port_out16 = (\<lambda>p v d. d),
     port_in32 = (\<lambda>p (a, r). (r a, (a, r))),
     port_out32 = (\<lambda>p v (a, r). if p = 0x0CF8 then (v, r) else (a, r(a := v)))\<rparr>"

definition pci_registers :: "u32 \<Rightarrow> u32" where
  "pci_registers a =
     (if a = 0x80000800 then 0x70008086 else if a = 0x80000808 then 0x06010000 else if a = 0x8000080C then 0x00800000
      else if a = 0x80000900 then 0x70208086 else if a = 0x80000908 then 0x0C030000 else if a = 0x80000920 then 0xC041
      else if a = 0x8000093C then 0x010B else 0xFFFFFFFF)"

lemma latched_mechanism: "config_mechanism latched_ports snd"
  by (auto simp: config_mechanism_def latched_ports_def split: prod.split)

lemma registers_functions: "slot_functions pci_registers (0, 0) = []" "slot_functions pci_registers (0, 1) = [(0, 1, 0), (0, 1, 1)]"
  by code_simp+

theorem pci_find_device_correct_witness:
  "\<exists>d'. pci_find_device latched_ports 0x0C 0x03 0x00 True (0, pci_registers) =
    (Some (Some \<lparr>pci_bus = 0, pci_slot = 1, pci_func = 1, vendor_id = 0x8086, device_id = 0x7020, bar4 = 0xC041, irq = 0x0B\<rparr>), d')"
proof -
  have up: "concat (map f [0..<256]) = f 0 @ concat (map f [1..<256])" for f :: "nat \<Rightarrow> 'a list" by (simp add: upt_rec[of 0])
  have up': "map f [0..<32] = f 0 # f 1 # map f [2..<32]" for f :: "nat \<Rightarrow> 'a"
    using upt_conv_Cons[of 0 32] upt_conv_Cons[of 1 32] by (simp add: numeral_2_eq_2)
  have c: "\<not> of_class pci_registers 0x0C 0x03 0x00 (0, 1, 0)" "of_class pci_registers 0x0C 0x03 0x00 (0, 1, 1)"
    "describe pci_registers (0, 1, 1) = \<lparr>pci_bus = 0, pci_slot = 1, pci_func = 1, vendor_id = 0x8086, device_id = 0x7020,
       bar4 = 0xC041, irq = 0x0B\<rparr>"
    by code_simp+
  have "List.find (of_class pci_registers 0x0C 0x03 0x00) (concat (map (slot_functions pci_registers) all_slots)) = Some (0, 1, 1)"
    unfolding all_slots_def up up' by (simp add: registers_functions c del: upt.simps)
  then show ?thesis
    using pci_find_device_correct [OF latched_mechanism, of "0x0C" "0x03" "0x00" True "(0, pci_registers)"] c(3) by auto
qed

theorem pci_write16_roundtrip_witness:
  "fst (pci_config_read16 latched_ports 0 1 1 4 (pci_config_write16 latched_ports 0 1 1 4 5 (0, pci_registers))) = 5"
  using pci_write16_roundtrip [OF latched_mechanism, of 0 1 1 4 5 "(0, pci_registers)"] by simp

end
