(* ===== verification/Uhci.thy ===== *)
theory Uhci
  imports Pci Mouse Phys_Mem Syscall
begin

text \<open>
  The USB host controller driver \<^verbatim>\<open>kernel/drivers/uhci.c\<close>: the DMA pool, control transfers, the enumeration of the root
  ports and the polling of a mouse or tablet.  Transfer descriptors and queue heads live in physical
  memory, which the controller reads and writes on its own: the hardware is a parameter, its
  ports and what it does to memory during one delay of the driver.  A load or store of a field that the
  controller may change is a load or store of memory in the model.
\<close>

section \<open>Memory and state\<close>

text \<open>32-bit loads and stores.\<close>

definition get_dword :: "u64 \<Rightarrow> 'a machine_scheme \<Rightarrow> u32" where
  "get_dword a m = le32 (mem_bytes a m) 0"

definition put_dword :: "u64 \<Rightarrow> u32 \<Rightarrow> 'a machine_scheme \<Rightarrow> 'a machine_scheme" where
  "put_dword a v m = put_bytes a (u32_bytes v) m"

record uhci =
  io_base :: u16
  uhci_active :: bool
  dma_pool :: u64
  dma_pool_offset :: int
  dma_pool_size :: int
  td_pool :: u64
  td_pool_used :: nat
  frame_list :: u64
  ctrl_qh :: u64
  intr_qh :: u64
  mouse_found :: bool
  hid_type :: nat
  mouse_addr :: u8
  mouse_endp :: u8
  mouse_low_speed :: bool
  mouse_max_pkt :: u8
  mouse_data_toggle :: u8
  mouse_td :: u64
  mouse_buf :: u64
  next_usb_addr :: u8
  poll_count :: u32
  complete_count :: u32
  err_count :: u32
  data_count :: u32

record ('d, 'a) usb =
  drv :: uhci
  dev :: 'd
  ram :: "'a machine_scheme"

record ('d, 'a) usb_hw =
  hw_ports :: "'d ports"
  hw_run :: "'d \<Rightarrow> 'a machine_scheme \<Rightarrow> 'd \<times> 'a machine_scheme"

definition upd_drv :: "(uhci \<Rightarrow> uhci) \<Rightarrow> ('d, 'a) usb \<Rightarrow> ('d, 'a) usb" where
  "upd_drv g s = s\<lparr>drv := g (drv s)\<rparr>"

definition upd_dev :: "('d \<Rightarrow> 'd) \<Rightarrow> ('d, 'a) usb \<Rightarrow> ('d, 'a) usb" where
  "upd_dev g s = s\<lparr>dev := g (dev s)\<rparr>"

definition store :: "u64 \<Rightarrow> u32 \<Rightarrow> ('d, 'a) usb \<Rightarrow> ('d, 'a) usb" where
  "store a v s = s\<lparr>ram := put_dword a v (ram s)\<rparr>"

section \<open>Delays and debug output\<close>

definition io_delay :: "('d, 'a) usb_hw \<Rightarrow> ('d, 'a) usb \<Rightarrow> ('d, 'a) usb" where
  "io_delay hw s = (case hw_run hw (dev s) (ram s) of (d, m) \<Rightarrow> s\<lparr>dev := d, ram := m\<rparr>)"

definition delay_ms :: "('d, 'a) usb_hw \<Rightarrow> nat \<Rightarrow> ('d, 'a) usb \<Rightarrow> ('d, 'a) usb" where
  "delay_ms hw ms s = fold (\<lambda>_. io_delay hw) [0..<ms] s"

definition dbg_char :: "('d, 'a) usb_hw \<Rightarrow> u8 \<Rightarrow> ('d, 'a) usb \<Rightarrow> ('d, 'a) usb" where
  "dbg_char hw c = upd_dev (port_out8 (hw_ports hw) 0xE9 c)"

definition dbg_str :: "('d, 'a) usb_hw \<Rightarrow> string \<Rightarrow> ('d, 'a) usb \<Rightarrow> ('d, 'a) usb" where
  "dbg_str hw str s = fold (dbg_char hw) (bytes_of str) s"

definition hex_digit :: "u8 \<Rightarrow> u8" where
  "hex_digit v = (if v < 10 then 48 + v else 55 + v)"

definition dbg_hex8 :: "('d, 'a) usb_hw \<Rightarrow> u8 \<Rightarrow> ('d, 'a) usb \<Rightarrow> ('d, 'a) usb" where
  "dbg_hex8 hw v s = dbg_char hw (hex_digit (v AND 0xF)) (dbg_char hw (hex_digit (drop_bit 4 v AND 0xF)) s)"

definition dbg_hex16 :: "('d, 'a) usb_hw \<Rightarrow> u16 \<Rightarrow> ('d, 'a) usb \<Rightarrow> ('d, 'a) usb" where
  "dbg_hex16 hw v s = dbg_hex8 hw (ucast v) (dbg_hex8 hw (ucast (drop_bit 8 v)) s)"

definition dbg_hex32 :: "('d, 'a) usb_hw \<Rightarrow> u32 \<Rightarrow> ('d, 'a) usb \<Rightarrow> ('d, 'a) usb" where
  "dbg_hex32 hw v s = dbg_hex16 hw (ucast v) (dbg_hex16 hw (ucast (drop_bit 16 v)) s)"

abbreviation NEWLINE :: u8 where "NEWLINE \<equiv> 10"

section \<open>Registers\<close>

abbreviation UHCI_CMD :: u16 where "UHCI_CMD \<equiv> 0x00"
abbreviation UHCI_STS :: u16 where "UHCI_STS \<equiv> 0x02"
abbreviation UHCI_INTR :: u16 where "UHCI_INTR \<equiv> 0x04"
abbreviation UHCI_FRNUM :: u16 where "UHCI_FRNUM \<equiv> 0x06"
abbreviation UHCI_FLBASEADD :: u16 where "UHCI_FLBASEADD \<equiv> 0x08"
abbreviation UHCI_PORTSC1 :: u16 where "UHCI_PORTSC1 \<equiv> 0x10"
abbreviation UHCI_PORTSC2 :: u16 where "UHCI_PORTSC2 \<equiv> 0x12"

definition uhci_read16 :: "('d, 'a) usb_hw \<Rightarrow> u16 \<Rightarrow> ('d, 'a) usb \<Rightarrow> u16 \<times> ('d, 'a) usb" where
  "uhci_read16 hw reg s = (case port_in16 (hw_ports hw) (io_base (drv s) + reg) (dev s) of (v, d) \<Rightarrow> (v, s\<lparr>dev := d\<rparr>))"

definition uhci_write16 :: "('d, 'a) usb_hw \<Rightarrow> u16 \<Rightarrow> u16 \<Rightarrow> ('d, 'a) usb \<Rightarrow> ('d, 'a) usb" where
  "uhci_write16 hw reg v s = upd_dev (port_out16 (hw_ports hw) (io_base (drv s) + reg) v) s"

definition uhci_write32 :: "('d, 'a) usb_hw \<Rightarrow> u16 \<Rightarrow> u32 \<Rightarrow> ('d, 'a) usb \<Rightarrow> ('d, 'a) usb" where
  "uhci_write32 hw reg v s = upd_dev (port_out32 (hw_ports hw) (io_base (drv s) + reg) v) s"

section \<open>The DMA pool\<close>

definition dma_init :: "('d, 'a) usb \<Rightarrow> ('d, 'a) usb" where
  "dma_init s =
     (case pmm_alloc_page (pm (ram s)) of (page, p) \<Rightarrow>
        let s = s\<lparr>ram := (ram s)\<lparr>pm := p\<rparr>\<rparr> in
        if page = 0 then s else upd_drv (\<lambda>u. u\<lparr>dma_pool := page, dma_pool_offset := 0, dma_pool_size := 4096\<rparr>) s)"

text \<open>The loop that grows the pool: \<open>False\<close> when no page is left.  Each round needs a page, so there are at most as many as there are pages.\<close>

function dma_grow :: "int \<Rightarrow> ('d, 'a) usb \<Rightarrow> bool \<times> ('d, 'a) usb" where
  "dma_grow need s =
     (if need > dma_pool_size (drv s)
      then case pmm_alloc_page (pm (ram s)) of (page, p) \<Rightarrow>
             let s = s\<lparr>ram := (ram s)\<lparr>pm := p\<rparr>\<rparr> in
             if page = 0 then (False, s) else dma_grow need (upd_drv (\<lambda>u. u\<lparr>dma_pool_size := dma_pool_size u + 4096\<rparr>) s)
      else (True, s))"
  by auto
termination
  by (relation "measure (\<lambda>(need, s). nat (need - dma_pool_size (drv s)))") (auto simp: upd_drv_def)

declare dma_grow.simps [simp del]

text \<open>The alignments the driver asks for are 1 or a power of two: \<open>(off + align - 1) & ~(align - 1)\<close>.\<close>

definition align_up :: "int \<Rightarrow> int \<Rightarrow> int" where
  "align_up off align = (if align > 1 then (off + align - 1) AND NOT (align - 1) else off)"

definition dma_alloc :: "int \<Rightarrow> int \<Rightarrow> ('d, 'a) usb \<Rightarrow> u64 \<times> ('d, 'a) usb" where
  "dma_alloc n align s =
     (case dma_grow (dma_pool_offset (drv s) + n + align) s of
        (False, s) \<Rightarrow> (0, s)
      | (True, s) \<Rightarrow>
          let off = align_up (dma_pool_offset (drv s)) align
          in (dma_pool (drv s) + word_of_int off, upd_drv (\<lambda>u. u\<lparr>dma_pool_offset := off + n\<rparr>) s))"

section \<open>Transfer descriptors\<close>

abbreviation MAX_TDS :: nat where "MAX_TDS \<equiv> 64"
abbreviation TD_LINK_TERMINATE :: u32 where "TD_LINK_TERMINATE \<equiv> 0x01"
abbreviation TD_LINK_QH :: u32 where "TD_LINK_QH \<equiv> 0x02"
abbreviation TD_LINK_DEPTH :: u32 where "TD_LINK_DEPTH \<equiv> 0x04"
abbreviation TD_STATUS_ACTIVE :: u32 where "TD_STATUS_ACTIVE \<equiv> 0x00800000"
abbreviation TD_STATUS_IOC :: u32 where "TD_STATUS_IOC \<equiv> 0x01000000"
abbreviation TD_STATUS_LS :: u32 where "TD_STATUS_LS \<equiv> 0x04000000"
abbreviation TD_STATUS_SPD :: u32 where "TD_STATUS_SPD \<equiv> 0x20000000"

text \<open>Stall, buffer error, babble, time-out or CRC error, bit stuffing error.\<close>

definition TD_STATUS_ANY_ERR :: u32 where
  "TD_STATUS_ANY_ERR = push_bit 22 1 OR push_bit 21 1 OR push_bit 20 1 OR push_bit 18 1 OR push_bit 17 1"

abbreviation TD_PID_SETUP :: u32 where "TD_PID_SETUP \<equiv> 0x2D"
abbreviation TD_PID_IN :: u32 where "TD_PID_IN \<equiv> 0x69"
abbreviation TD_PID_OUT :: u32 where "TD_PID_OUT \<equiv> 0xE1"

definition TD_TOKEN :: "u32 \<Rightarrow> u8 \<Rightarrow> u8 \<Rightarrow> u8 \<Rightarrow> nat \<Rightarrow> u32" where
  "TD_TOKEN pid addr endp toggle maxlen =
     pid OR push_bit 8 (ucast addr) OR push_bit 15 (ucast endp) OR push_bit 19 (ucast toggle) OR
     push_bit 21 (word_of_int (int maxlen - 1))"

definition TD_TOKEN_ZLENGTH :: "u32 \<Rightarrow> u8 \<Rightarrow> u8 \<Rightarrow> u8 \<Rightarrow> u32" where
  "TD_TOKEN_ZLENGTH pid addr endp toggle =
     pid OR push_bit 8 (ucast addr) OR push_bit 15 (ucast endp) OR push_bit 19 (ucast toggle) OR push_bit 21 0x7FF"

abbreviation td_link :: u64 where "td_link \<equiv> 0"
abbreviation td_ctrl_status :: u64 where "td_ctrl_status \<equiv> 4"
abbreviation td_token :: u64 where "td_token \<equiv> 8"
abbreviation td_buffer :: u64 where "td_buffer \<equiv> 12"
abbreviation qh_head_link :: u64 where "qh_head_link \<equiv> 0"
abbreviation qh_element :: u64 where "qh_element \<equiv> 4"

definition td_at :: "uhci \<Rightarrow> nat \<Rightarrow> u64" where
  "td_at u i = td_pool u + of_nat i * 32"

definition alloc_td :: "('d, 'a) usb \<Rightarrow> u64 \<times> ('d, 'a) usb" where
  "alloc_td s =
     (if td_pool_used (drv s) \<ge> MAX_TDS then (0, s)
      else let td = td_at (drv s) (td_pool_used (drv s));
               s = upd_drv (\<lambda>u. u\<lparr>td_pool_used := td_pool_used u + 1\<rparr>) s;
               s = store (td + td_link) TD_LINK_TERMINATE s;
               s = store (td + td_ctrl_status) 0 s;
               s = store (td + td_token) 0 s
           in (td, store (td + td_buffer) 0 s))"

definition reset_td_pool :: "('d, 'a) usb \<Rightarrow> ('d, 'a) usb" where
  "reset_td_pool = upd_drv (\<lambda>u. u\<lparr>td_pool_used := 0\<rparr>)"

definition td_phys :: "u64 \<Rightarrow> u32" where "td_phys td = ucast td"
definition qh_phys :: "u64 \<Rightarrow> u32" where "qh_phys qh = ucast qh"

definition ls_bit :: "bool \<Rightarrow> u32" where "ls_bit low_speed = (if low_speed then TD_STATUS_LS else 0)"

text \<open>Active, three errors allowed.\<close>

definition td_active :: "bool \<Rightarrow> u32" where
  "td_active low_speed = TD_STATUS_ACTIVE OR ls_bit low_speed OR push_bit 27 3"

section \<open>Control transfers\<close>

text \<open>The loop over the packets of the data stage; \<open>prev\<close> is the descriptor to link from.\<close>

fun data_tds :: "u8 \<Rightarrow> bool \<Rightarrow> bool \<Rightarrow> u64 \<Rightarrow> nat \<Rightarrow> nat \<Rightarrow> u8 \<Rightarrow> u64 \<Rightarrow> ('d, 'a) usb \<Rightarrow> u64 option \<times> ('d, 'a) usb" where
  "data_tds addr dir_in low_speed data_buf remaining offset toggle prev s =
     (if remaining = 0 then (Some prev, s)
      else let pkt_len = min remaining 8 in
        case alloc_td s of (dtd, s) \<Rightarrow>
        if dtd = 0 then (None, s)
        else let s = store (dtd + td_ctrl_status) (td_active low_speed OR (if dir_in then TD_STATUS_SPD else 0)) s;
                 s = store (dtd + td_token) (TD_TOKEN (if dir_in then TD_PID_IN else TD_PID_OUT) addr 0 toggle pkt_len) s;
                 s = store (dtd + td_buffer) (ucast (data_buf + of_nat offset)) s;
                 s = store (prev + td_link) (td_phys dtd OR TD_LINK_DEPTH) s
             in data_tds addr dir_in low_speed data_buf (remaining - pkt_len) (offset + pkt_len) (toggle XOR 1) dtd s)"

declare data_tds.simps [simp del]

definition td_failed :: "('d, 'a) usb \<Rightarrow> nat \<Rightarrow> bool" where
  "td_failed s t \<longleftrightarrow> get_dword (td_at (drv s) t + td_ctrl_status) (ram s) AND TD_STATUS_ANY_ERR \<noteq> 0"

text \<open>Waiting for the status descriptor, for at most \<open>n\<close> delays: \<open>True\<close> when the transfer completed.\<close>

fun await_status :: "('d, 'a) usb_hw \<Rightarrow> u64 \<Rightarrow> nat \<Rightarrow> ('d, 'a) usb \<Rightarrow> bool \<times> ('d, 'a) usb" where
  "await_status hw status_td 0 s = (False, s)"
| "await_status hw status_td (Suc n) s =
     (let s = io_delay hw s; st = get_dword (status_td + td_ctrl_status) (ram s) in
      if st AND TD_STATUS_ACTIVE = 0 then (st AND TD_STATUS_ANY_ERR = 0, s)
      else if \<exists>t\<in>set [0..<td_pool_used (drv s) - 1]. td_failed s t then (False, s)
      else await_status hw status_td n s)"

text \<open>The descriptors of a transfer; \<open>None\<close> when the pool is exhausted, otherwise the first and the last.\<close>

definition build_transfer :: "u8 \<Rightarrow> bool \<Rightarrow> bool \<Rightarrow> u64 \<Rightarrow> u64 \<Rightarrow> nat \<Rightarrow> ('d, 'a) usb \<Rightarrow> (u64 \<times> u64) option \<times> ('d, 'a) usb" where
  "build_transfer addr dir_in low_speed setup_buf data_buf data_len s =
     (case alloc_td s of (setup_td, s) \<Rightarrow>
      if setup_td = 0 then (None, s)
      else let s = store (setup_td + td_ctrl_status) (td_active low_speed) s;
               s = store (setup_td + td_token) (TD_TOKEN TD_PID_SETUP addr 0 0 8) s;
               s = store (setup_td + td_buffer) (ucast setup_buf) s
           in case data_tds addr dir_in low_speed data_buf data_len 0 1 setup_td s of
             (None, s) \<Rightarrow> (None, s)
           | (Some prev, s) \<Rightarrow>
               (case alloc_td s of (status_td, s) \<Rightarrow>
                if status_td = 0 then (None, s)
                else let s = store (status_td + td_ctrl_status) (td_active low_speed OR TD_STATUS_IOC) s;
                         s = store (status_td + td_token) (TD_TOKEN_ZLENGTH (if dir_in then TD_PID_OUT else TD_PID_IN) addr 0 1) s;
                         s = store (status_td + td_buffer) 0 s;
                         s = store (prev + td_link) (td_phys status_td OR TD_LINK_DEPTH) s
                     in (Some (setup_td, status_td), s)))"

text \<open>
  \<open>data\<close> is the buffer of the caller.  The answer is -1 or the length asked for, and the buffer.
\<close>

definition uhci_control_transfer ::
  "('d, 'a) usb_hw \<Rightarrow> u8 \<Rightarrow> u8 list \<Rightarrow> bytes \<Rightarrow> nat \<Rightarrow> bool \<Rightarrow> bool \<Rightarrow> ('d, 'a) usb \<Rightarrow> (int \<times> bytes) \<times> ('d, 'a) usb" where
  "uhci_control_transfer hw addr setup data data_len dir_in low_speed s =
     (let s = reset_td_pool s in
      case dma_alloc 8 16 s of (setup_buf, s) \<Rightarrow>
      if setup_buf = 0 then ((-1, data), s)
      else let s = s\<lparr>ram := put_bytes setup_buf setup (ram s)\<rparr> in
      case (if data_len > 0 then dma_alloc (int data_len) 16 s else (0, s)) of (data_buf, s) \<Rightarrow>
      if data_len > 0 \<and> data_buf = 0 then ((-1, data), s)
      else let s = (if data_len > 0 \<and> \<not> dir_in then s\<lparr>ram := put_bytes data_buf (get_list data 0 data_len) (ram s)\<rparr> else s) in
      case build_transfer addr dir_in low_speed setup_buf data_buf data_len s of
        (None, s) \<Rightarrow> ((-1, data), s)
      | (Some (setup_td, status_td), s) \<Rightarrow>
          (case await_status hw status_td 50000 (store (ctrl_qh (drv s) + qh_element) (td_phys setup_td) s) of
             (ok, s) \<Rightarrow>
               let data = (if ok \<and> dir_in \<and> data_len > 0
                           then put_list data 0 (get_list (mem_bytes data_buf (ram s)) 0 data_len) else data)
               in ((if ok then int data_len else -1, data), store (ctrl_qh (drv s) + qh_element) TD_LINK_TERMINATE s)))"

section \<open>Requests\<close>

definition usb_setup :: "u8 \<Rightarrow> u8 \<Rightarrow> u16 \<Rightarrow> u16 \<Rightarrow> u16 \<Rightarrow> u8 list" where
  "usb_setup request_type request v i len = [request_type, request] @ u16_bytes v @ u16_bytes i @ u16_bytes len"

definition usb_get_descriptor :: "('d, 'a) usb_hw \<Rightarrow> u8 \<Rightarrow> u8 \<Rightarrow> u8 \<Rightarrow> bytes \<Rightarrow> nat \<Rightarrow> bool \<Rightarrow> ('d, 'a) usb \<Rightarrow> (int \<times> bytes) \<times> ('d, 'a) usb" where
  "usb_get_descriptor hw addr kind index buf len low_speed =
     uhci_control_transfer hw addr (usb_setup 0x80 6 (push_bit 8 (ucast kind) OR ucast index) 0 (of_nat len)) buf len True low_speed"

definition usb_set_address :: "('d, 'a) usb_hw \<Rightarrow> u8 \<Rightarrow> bool \<Rightarrow> ('d, 'a) usb \<Rightarrow> int \<times> ('d, 'a) usb" where
  "usb_set_address hw new_addr low_speed s =
     (case uhci_control_transfer hw 0 (usb_setup 0x00 5 (ucast new_addr) 0 0) (\<lambda>_. 0) 0 False low_speed s of ((r, _), s) \<Rightarrow> (r, s))"

definition usb_set_configuration :: "('d, 'a) usb_hw \<Rightarrow> u8 \<Rightarrow> u8 \<Rightarrow> bool \<Rightarrow> ('d, 'a) usb \<Rightarrow> int \<times> ('d, 'a) usb" where
  "usb_set_configuration hw addr config low_speed s =
     (case uhci_control_transfer hw addr (usb_setup 0x00 9 (ucast config) 0 0) (\<lambda>_. 0) 0 False low_speed s of ((r, _), s) \<Rightarrow> (r, s))"

definition usb_set_protocol :: "('d, 'a) usb_hw \<Rightarrow> u8 \<Rightarrow> u16 \<Rightarrow> u16 \<Rightarrow> bool \<Rightarrow> ('d, 'a) usb \<Rightarrow> int \<times> ('d, 'a) usb" where
  "usb_set_protocol hw addr iface protocol low_speed s =
     (case uhci_control_transfer hw addr (usb_setup 0x21 0x0B protocol iface 0) (\<lambda>_. 0) 0 False low_speed s of ((r, _), s) \<Rightarrow> (r, s))"

definition usb_set_idle :: "('d, 'a) usb_hw \<Rightarrow> u8 \<Rightarrow> u16 \<Rightarrow> bool \<Rightarrow> ('d, 'a) usb \<Rightarrow> int \<times> ('d, 'a) usb" where
  "usb_set_idle hw addr iface low_speed s =
     (case uhci_control_transfer hw addr (usb_setup 0x21 0x0A 0 iface 0) (\<lambda>_. 0) 0 False low_speed s of ((r, _), s) \<Rightarrow> (r, s))"

section \<open>Enumeration\<close>

abbreviation PORTSC_CONNECT :: u16 where "PORTSC_CONNECT \<equiv> 0x0001"
abbreviation PORTSC_ENABLE :: u16 where "PORTSC_ENABLE \<equiv> 0x0004"
abbreviation PORTSC_LOWSPEED :: u16 where "PORTSC_LOWSPEED \<equiv> 0x0100"
abbreviation PORTSC_RESET :: u16 where "PORTSC_RESET \<equiv> 0x0200"

text \<open>Waiting for connect and enable; the value written acknowledges the two change bits.\<close>

fun port_wait :: "('d, 'a) usb_hw \<Rightarrow> u16 \<Rightarrow> nat \<Rightarrow> ('d, 'a) usb \<Rightarrow> bool \<times> ('d, 'a) usb" where
  "port_wait hw reg 0 s = (False, s)"
| "port_wait hw reg (Suc n) s =
     (case uhci_read16 hw reg s of (st, s) \<Rightarrow>
      if st AND PORTSC_CONNECT \<noteq> 0
      then case uhci_read16 hw reg (delay_ms hw 10 (uhci_write16 hw reg (PORTSC_ENABLE OR 0x0002 OR 0x0008) s)) of (st, s) \<Rightarrow>
             if st AND PORTSC_ENABLE \<noteq> 0 then (True, s) else port_wait hw reg n (delay_ms hw 10 s)
      else port_wait hw reg n (delay_ms hw 10 s))"

definition uhci_port_reset :: "('d, 'a) usb_hw \<Rightarrow> u16 \<Rightarrow> ('d, 'a) usb \<Rightarrow> bool \<times> ('d, 'a) usb" where
  "uhci_port_reset hw reg s =
     port_wait hw reg 10 (delay_ms hw 10 (uhci_write16 hw reg 0 (delay_ms hw 50 (uhci_write16 hw reg PORTSC_RESET s))))"

abbreviation HID_TYPE_MOUSE :: nat where "HID_TYPE_MOUSE \<equiv> 1"
abbreviation HID_TYPE_TABLET :: nat where "HID_TYPE_TABLET \<equiv> 2"

text \<open>What an interface is good for: \<open>Some\<close> type when \<^verbatim>\<open>found_hid\<close> is set.\<close>

definition hid_kind :: "u8 \<Rightarrow> u8 \<Rightarrow> u8 \<Rightarrow> nat option" where
  "hid_kind class subclass protocol =
     (if class \<noteq> 3 then None
      else if subclass = 1 \<and> protocol = 2 then Some HID_TYPE_MOUSE
      else if protocol = 0 \<and> subclass = 0 then Some HID_TYPE_TABLET
      else None)"

definition log_interface :: "('d, 'a) usb_hw \<Rightarrow> u8 \<Rightarrow> u8 \<Rightarrow> u8 \<Rightarrow> ('d, 'a) usb \<Rightarrow> ('d, 'a) usb" where
  "log_interface hw class subclass protocol s =
     (let s = dbg_hex8 hw class (dbg_str hw ''  iface class=0x'' s);
          s = dbg_hex8 hw subclass (dbg_str hw '' sub=0x'' s);
          s = dbg_hex8 hw protocol (dbg_str hw '' proto=0x'' s)
      in dbg_char hw NEWLINE (if hid_kind class subclass protocol \<noteq> None then dbg_str hw '' -> MATCH'' s else s))"

text \<open>The device is configured and remembered.\<close>

definition use_endpoint :: "('d, 'a) usb_hw \<Rightarrow> u8 \<Rightarrow> u8 \<Rightarrow> u8 \<Rightarrow> bool \<Rightarrow> u16 \<Rightarrow> nat \<Rightarrow> u8 \<Rightarrow> ('d, 'a) usb \<Rightarrow> ('d, 'a) usb" where
  "use_endpoint hw addr config_val max_pkt low_speed iface_num found_type ep_addr s =
     (let s = delay_ms hw 10 (snd (usb_set_configuration hw addr config_val low_speed s));
          s = (if found_type = HID_TYPE_MOUSE then delay_ms hw 10 (snd (usb_set_protocol hw addr iface_num 0 low_speed s)) else s);
          s = snd (usb_set_idle hw addr iface_num low_speed s);
          s = upd_drv (\<lambda>u. u\<lparr>mouse_found := True, hid_type := found_type, mouse_addr := addr, mouse_endp := ep_addr AND 0x0F,
                mouse_low_speed := low_speed, mouse_max_pkt := max_pkt, mouse_data_toggle := 0\<rparr>) s;
          s = dbg_hex8 hw (of_nat found_type) (dbg_str hw ''UHCI: HID device type='' s);
          s = dbg_hex8 hw addr (dbg_str hw '' addr=0x'' s);
          s = dbg_hex8 hw (mouse_endp (drv s)) (dbg_str hw '' ep=0x'' s)
      in dbg_char hw NEWLINE s)"

text \<open>
  The loop over the descriptors of a configuration in an array of 128 bytes.  The length byte and the type are
  inside the part that was read; the endpoint address after them need not be: at the end of
  the array the read is out of bounds.
\<close>

function scan_descriptors :: "('d, 'a) usb_hw \<Rightarrow> u8 \<Rightarrow> u8 \<Rightarrow> bool \<Rightarrow> bytes \<Rightarrow> nat \<Rightarrow> nat \<Rightarrow> nat option \<Rightarrow> u16 \<Rightarrow>
    ('d, 'a) usb \<Rightarrow> ('d, 'a) usb outcome" where
  "scan_descriptors hw addr max_pkt low_speed conf total_len pos found iface s =
     (if \<not> pos + 1 < total_len then Done s
      else let dlen = unat (conf pos); dtype = conf (pos + 1) in
      if dlen = 0 then Done s
      else let is_iface = (dtype = 4 \<and> dlen \<ge> 9 \<and> pos + 8 < total_len);
               found = (if is_iface then hid_kind (conf (pos + 5)) (conf (pos + 6)) (conf (pos + 7)) else found);
               iface = (if is_iface then ucast (conf (pos + 2)) else iface);
               s = (if is_iface then log_interface hw (conf (pos + 5)) (conf (pos + 6)) (conf (pos + 7)) s else s)
           in if dtype = 5 \<and> dlen \<ge> 7 \<and> found \<noteq> None
              then if pos + 2 \<ge> 128 then Undef
                   else if conf (pos + 2) AND 0x80 \<noteq> 0
                   then Done (use_endpoint hw addr (conf 5) max_pkt low_speed iface (the found) (conf (pos + 2)) s)
                   else scan_descriptors hw addr max_pkt low_speed conf total_len (pos + dlen) found iface s
              else scan_descriptors hw addr max_pkt low_speed conf total_len (pos + dlen) found iface s)"
  by pat_completeness auto
termination
  by (relation "measure (\<lambda>(hw, addr, max_pkt, low_speed, conf, total_len, pos, found, iface, s). total_len - pos)") auto

declare scan_descriptors.simps [simp del]

definition uhci_enumerate_port :: "('d, 'a) usb_hw \<Rightarrow> u16 \<Rightarrow> ('d, 'a) usb \<Rightarrow> ('d, 'a) usb outcome" where
  "uhci_enumerate_port hw port_reg s =
     (case uhci_read16 hw port_reg s of (st, s) \<Rightarrow>
      if st AND PORTSC_CONNECT = 0 then Done s
      else case uhci_port_reset hw port_reg s of (ok, s) \<Rightarrow>
      if \<not> ok then Done s
      else case uhci_read16 hw port_reg s of (st, s) \<Rightarrow>
      let low_speed = (st AND PORTSC_LOWSPEED \<noteq> 0) in
      case usb_get_descriptor hw 0 1 0 (\<lambda>_. 0) 8 low_speed s of ((r, dev_desc), s) \<Rightarrow>
      if r < 0 then Done s
      else let max_pkt = (if dev_desc 7 = 0 then 8 else dev_desc 7);
               addr = next_usb_addr (drv s);
               s = upd_drv (\<lambda>u. u\<lparr>next_usb_addr := addr + 1\<rparr>) s in
      case usb_set_address hw addr low_speed s of (r, s) \<Rightarrow>
      if r < 0 then Done s
      else case usb_get_descriptor hw addr 1 0 dev_desc 18 low_speed (delay_ms hw 10 s) of ((r, dev_desc), s) \<Rightarrow>
      if r < 0 then Done s
      else case usb_get_descriptor hw addr 2 0 (\<lambda>_. 0) 9 low_speed s of ((r, conf), s) \<Rightarrow>
      if r < 0 then Done s
      else let total_len = min 128 (unat (le16 conf 2)) in
      case usb_get_descriptor hw addr 2 0 conf total_len low_speed s of ((r, conf), s) \<Rightarrow>
      if r < 0 then Done s
      else scan_descriptors hw addr max_pkt low_speed conf total_len 0 None 0 s)"

section \<open>The interrupt endpoint\<close>

definition mouse_token :: "uhci \<Rightarrow> u32" where
  "mouse_token u = TD_TOKEN TD_PID_IN (mouse_addr u) (mouse_endp u) (mouse_data_toggle u)
     (if unat (mouse_max_pkt u) > 8 then 8 else unat (mouse_max_pkt u))"

definition setup_mouse_polling :: "('d, 'a) usb \<Rightarrow> ('d, 'a) usb" where
  "setup_mouse_polling s =
     (case dma_alloc 8 16 s of (buf, s) \<Rightarrow>
      let s = upd_drv (\<lambda>u. u\<lparr>mouse_buf := buf\<rparr>) s in
      if buf = 0 then upd_drv (\<lambda>u. u\<lparr>mouse_found := False\<rparr>) s
      else let s = s\<lparr>ram := put_bytes buf (replicate 8 0) (ram s)\<rparr> in
      case dma_alloc 32 16 s of (td, s) \<Rightarrow>
      let s = upd_drv (\<lambda>u. u\<lparr>mouse_td := td\<rparr>) s in
      if td = 0 then upd_drv (\<lambda>u. u\<lparr>mouse_found := False\<rparr>) s
      else let s = store (td + td_link) TD_LINK_TERMINATE s;
               s = store (td + td_ctrl_status) (td_active (mouse_low_speed (drv s))) s;
               s = store (td + td_token) (mouse_token (drv s)) s;
               s = store (td + td_buffer) (ucast buf) s
           in store (intr_qh (drv s) + qh_element) (td_phys td) s)"

section \<open>Initialisation\<close>

text \<open>Waiting for the end of the reset, at most \<open>n\<close> times; the driver goes on in any case.\<close>

fun reset_wait :: "('d, 'a) usb_hw \<Rightarrow> nat \<Rightarrow> ('d, 'a) usb \<Rightarrow> ('d, 'a) usb" where
  "reset_wait hw 0 s = s"
| "reset_wait hw (Suc n) s =
     (case uhci_read16 hw UHCI_CMD s of (v, s) \<Rightarrow> if v AND 0x0002 = 0 then s else reset_wait hw n (delay_ms hw 1 s))"

definition log_controller :: "('d, 'a) usb_hw \<Rightarrow> pci_device \<Rightarrow> ('d, 'a) usb \<Rightarrow> ('d, 'a) usb" where
  "log_controller hw pci s =
     (let s = dbg_hex16 hw (io_base (drv s)) (dbg_str hw ''UHCI: found! io=0x'' s);
          s = dbg_hex16 hw (vendor_id pci) (dbg_str hw '' vid=0x'' s);
          s = dbg_hex16 hw (device_id pci) (dbg_str hw '' did=0x'' s)
      in dbg_char hw NEWLINE s)"

text \<open>The frame list, the queue heads and the registers; \<open>False\<close> when memory is short.\<close>

definition uhci_schedule :: "('d, 'a) usb_hw \<Rightarrow> ('d, 'a) usb \<Rightarrow> bool \<times> ('d, 'a) usb" where
  "uhci_schedule hw s =
     (let s = dma_init s in
      case dma_alloc (32 * int MAX_TDS) 16 s of (pool, s) \<Rightarrow>
      let s = upd_drv (\<lambda>u. u\<lparr>td_pool := pool\<rparr>) s in
      if pool = 0 then (False, s)
      else case pmm_alloc_page (pm (ram s)) of (list, p) \<Rightarrow>
      let s = upd_drv (\<lambda>u. u\<lparr>td_pool_used := 0, frame_list := list\<rparr>) (s\<lparr>ram := (ram s)\<lparr>pm := p\<rparr>\<rparr>) in
      if list = 0 then (False, s)
      else case dma_alloc 16 16 s of (qc, s) \<Rightarrow>
      case dma_alloc 16 16 (upd_drv (\<lambda>u. u\<lparr>ctrl_qh := qc\<rparr>) s) of (qi, s) \<Rightarrow>
      let s = upd_drv (\<lambda>u. u\<lparr>intr_qh := qi\<rparr>) s in
      if qc = 0 \<or> qi = 0 then (False, s)
      else let s = store (qc + qh_head_link) TD_LINK_TERMINATE s;
               s = store (qc + qh_element) TD_LINK_TERMINATE s;
               s = store (qi + qh_head_link) (qh_phys qc OR TD_LINK_QH) s;
               s = store (qi + qh_element) TD_LINK_TERMINATE s;
               s = fold (\<lambda>i. store (list + of_nat i * 4) (qh_phys qi OR TD_LINK_QH)) [0..<1024] s;
               s = uhci_write32 hw UHCI_FLBASEADD (ucast list) s;
               s = uhci_write16 hw UHCI_FRNUM 0 s;
               s = uhci_write16 hw UHCI_INTR 0 s;
               s = uhci_write16 hw UHCI_STS 0xFFFF s;
               s = uhci_write16 hw UHCI_CMD (0x0001 OR 0x0080) s
           in (True, upd_drv (\<lambda>u. u\<lparr>uhci_active := True\<rparr>) s))"

definition log_result :: "('d, 'a) usb_hw \<Rightarrow> ('d, 'a) usb \<Rightarrow> ('d, 'a) usb" where
  "log_result hw s =
     (let s = dbg_str hw (if hid_type (drv s) = HID_TYPE_TABLET then ''TABLET'' else ''MOUSE'') (dbg_str hw ''UHCI: HID ready type='' s);
          s = dbg_hex8 hw (mouse_addr (drv s)) (dbg_str hw '' addr=0x'' s);
          s = dbg_hex8 hw (mouse_endp (drv s)) (dbg_str hw '' ep=0x'' s);
          s = dbg_hex8 hw (if mouse_low_speed (drv s) then 1 else 0) (dbg_str hw '' ls='' s)
      in dbg_char hw NEWLINE s)"

definition log_no_mouse :: "('d, 'a) usb_hw \<Rightarrow> ('d, 'a) usb \<Rightarrow> ('d, 'a) usb" where
  "log_no_mouse hw s =
     (case uhci_read16 hw UHCI_PORTSC1 (dbg_str hw ''UHCI: no mouse found'' s) of (p1, s) \<Rightarrow>
      case uhci_read16 hw UHCI_PORTSC2 s of (p2, s) \<Rightarrow>
        let s = dbg_hex16 hw p1 (dbg_str hw '' P1=0x'' s); s = dbg_hex16 hw p2 (dbg_str hw '' P2=0x'' s)
        in dbg_char hw NEWLINE s)"

definition uhci_init :: "('d, 'a) usb_hw \<Rightarrow> ('d, 'a) usb \<Rightarrow> ('d, 'a) usb outcome" where
  "uhci_init hw s =
     (case pci_find_device (hw_ports hw) 0x0C 0x03 0x00 True (dev s) of (found, d) \<Rightarrow>
      let s = s\<lparr>dev := d\<rparr> in
      case found of
        Some (Some pci) \<Rightarrow>
          let s = upd_drv (\<lambda>u. u\<lparr>io_base := ucast (bar4 pci AND NOT 0x3)\<rparr>) s; s = log_controller hw pci s in
          if io_base (drv s) = 0 then Done s
          else case pci_config_read16 (hw_ports hw) (pci_bus pci) (pci_slot pci) (pci_func pci) 0x04 (dev s) of (cmd, d) \<Rightarrow>
          let s = s\<lparr>dev := pci_config_write16 (hw_ports hw) (pci_bus pci) (pci_slot pci) (pci_func pci) 0x04 (cmd OR 0x05) d\<rparr>;
              s = delay_ms hw 50 (uhci_write16 hw UHCI_CMD 0x0004 s);
              s = delay_ms hw 10 (uhci_write16 hw UHCI_CMD 0 s);
              s = reset_wait hw 100 (uhci_write16 hw UHCI_CMD 0x0002 s) in
          (case uhci_schedule hw s of
             (False, s) \<Rightarrow> Done s
           | (True, s) \<Rightarrow>
               (case uhci_enumerate_port hw UHCI_PORTSC1 s of
                  Undef \<Rightarrow> Undef
                | Done s \<Rightarrow>
                    (case (if mouse_found (drv s) then Done s else uhci_enumerate_port hw UHCI_PORTSC2 s) of
                       Undef \<Rightarrow> Undef
                     | Done s \<Rightarrow>
                         Done (if mouse_found (drv s) then setup_mouse_polling (log_result hw s) else log_no_mouse hw s))))
      | _ \<Rightarrow> Done (dbg_char hw NEWLINE (dbg_str hw ''UHCI: no controller found'' s)))"

section \<open>Polling\<close>

definition log_stats :: "('d, 'a) usb_hw \<Rightarrow> u32 \<Rightarrow> ('d, 'a) usb \<Rightarrow> ('d, 'a) usb" where
  "log_stats hw status s =
     (let u = drv s;
          s = dbg_hex32 hw (poll_count u) (dbg_str hw ''UHCI poll=0x'' s);
          s = dbg_hex32 hw (complete_count u) (dbg_str hw '' cmp=0x'' s);
          s = dbg_hex32 hw (err_count u) (dbg_str hw '' err=0x'' s);
          s = dbg_hex32 hw (data_count u) (dbg_str hw '' dat=0x'' s);
          s = dbg_hex32 hw status (dbg_str hw '' st=0x'' s)
      in dbg_char hw NEWLINE s)"

text \<open>A new transfer in the same descriptor.\<close>

definition resubmit :: "('d, 'a) usb \<Rightarrow> ('d, 'a) usb" where
  "resubmit s =
     (let u = drv s;
          s = s\<lparr>ram := put_bytes (mouse_buf u) (replicate 8 0) (ram s)\<rparr>;
          s = store (mouse_td u + td_ctrl_status) (td_active (mouse_low_speed u)) s
      in store (mouse_td u + td_token) (mouse_token u) s)"

definition log_status :: "('d, 'a) usb_hw \<Rightarrow> string \<Rightarrow> u32 \<Rightarrow> ('d, 'a) usb \<Rightarrow> ('d, 'a) usb" where
  "log_status hw msg status s = dbg_char hw NEWLINE (dbg_hex32 hw status (dbg_str hw msg s))"

definition log_tablet :: "('d, 'a) usb_hw \<Rightarrow> u16 \<Rightarrow> u16 \<Rightarrow> u8 \<Rightarrow> ('d, 'a) usb \<Rightarrow> ('d, 'a) usb" where
  "log_tablet hw x y buttons s =
     (let s = dbg_hex16 hw x (dbg_str hw ''TABLET x=0x'' s);
          s = dbg_hex16 hw y (dbg_str hw '' y=0x'' s);
          s = dbg_hex8 hw buttons (dbg_str hw '' btn=0x'' s)
      in dbg_char hw NEWLINE s)"

definition log_mouse :: "('d, 'a) usb_hw \<Rightarrow> u8 \<Rightarrow> u8 \<Rightarrow> u8 \<Rightarrow> ('d, 'a) usb \<Rightarrow> ('d, 'a) usb" where
  "log_mouse hw dx dy buttons s =
     (let s = dbg_hex8 hw dx (dbg_str hw ''MOUSE dx=0x'' s);
          s = dbg_hex8 hw dy (dbg_str hw '' dy=0x'' s);
          s = dbg_hex8 hw buttons (dbg_str hw '' btn=0x'' s)
      in dbg_char hw NEWLINE s)"

definition log_raw :: "('d, 'a) usb_hw \<Rightarrow> nat \<Rightarrow> u8 list \<Rightarrow> ('d, 'a) usb \<Rightarrow> ('d, 'a) usb" where
  "log_raw hw actual_len report s =
     (let s = dbg_str hw '' :'' (dbg_hex8 hw (of_nat actual_len) (dbg_str hw ''RAW len='' s))
      in dbg_char hw NEWLINE (fold (\<lambda>b s. dbg_hex8 hw b (dbg_char hw 32 s)) (take actual_len report) s))"

text \<open>
  The report of a completed transfer: whether it carried data, and the pointer after it.
\<close>

definition handle_report :: "('d, 'a) usb_hw \<Rightarrow> fbuf \<Rightarrow> nat \<Rightarrow> mouse \<times> ('d, 'a) usb \<Rightarrow> (bool \<times> mouse \<times> ('d, 'a) usb) outcome" where
  "handle_report hw f actual_len = (\<lambda>(p, s).
     let report = get_list (mem_bytes (mouse_buf (drv s)) (ram s)) 0 8;
         counted = upd_drv (\<lambda>u. u\<lparr>data_count := data_count u + 1\<rparr>) s;
         buttons = report ! 0 AND 0x07 in
     if hid_type (drv s) = HID_TYPE_TABLET \<and> actual_len \<ge> 6
     then let x = ucast (report ! 1) OR push_bit 8 (ucast (report ! 2)) :: u16;
              y = ucast (report ! 3) OR push_bit 8 (ucast (report ! 4)) :: u16
          in (case mouse_update_absolute f (uint x) (uint y) 32767 32767 buttons p of
                Undef \<Rightarrow> Undef
              | Done p \<Rightarrow> Done (True, p, log_tablet hw x y buttons counted))
     else if hid_type (drv s) = HID_TYPE_MOUSE \<and> actual_len \<ge> 3
     then Done (True, mouse_update_relative f (sint (report ! 1)) (sint (report ! 2)) buttons p,
                log_mouse hw (report ! 1) (report ! 2) buttons counted)
     else if actual_len > 0 then Done (True, p, log_raw hw actual_len report counted)
     else Done (False, p, s))"

definition uhci_poll :: "('d, 'a) usb_hw \<Rightarrow> fbuf \<Rightarrow> mouse \<times> ('d, 'a) usb \<Rightarrow> (mouse \<times> ('d, 'a) usb) outcome" where
  "uhci_poll hw f = (\<lambda>(p, s).
     if \<not> uhci_active (drv s) \<or> \<not> mouse_found (drv s) \<or> mouse_td (drv s) = 0 then Done (p, s)
     else let s = upd_drv (\<lambda>u. u\<lparr>poll_count := poll_count u + 1\<rparr>) s;
              status = get_dword (mouse_td (drv s) + td_ctrl_status) (ram s);
              s = (if poll_count (drv s) AND 0xFF = 0 then log_stats hw status s else s) in
     if status AND TD_STATUS_ACTIVE \<noteq> 0 then Done (p, s)
     else let s = upd_drv (\<lambda>u. u\<lparr>complete_count := complete_count u + 1\<rparr>) s in
     if status AND TD_STATUS_ANY_ERR \<noteq> 0
     then let s = log_status hw ''UHCI ERR st=0x'' status (upd_drv (\<lambda>u. u\<lparr>err_count := err_count u + 1\<rparr>) s);
              s = resubmit s
          in Done (p, store (intr_qh (drv s) + qh_element) (td_phys (mouse_td (drv s))) s)
     else case handle_report hw f (unat ((status + 1) AND 0x7FF)) (p, s) of
       Undef \<Rightarrow> Undef
     | Done (got_data, p, s) \<Rightarrow>
         let s = (if got_data then upd_drv (\<lambda>u. u\<lparr>mouse_data_toggle := mouse_data_toggle u XOR 1\<rparr>) s
                  else if complete_count (drv s) AND 0xFF = 1 then log_status hw ''UHCI NAK st=0x'' status s else s);
             s = resubmit s;
             s = store (mouse_td (drv s) + td_link) TD_LINK_TERMINATE s
         in Done (p, store (intr_qh (drv s) + qh_element) (td_phys (mouse_td (drv s))) s))"

end
