(* ===== verification/Uhci_Pool.thy ===== *)
theory Uhci_Pool
  imports Uhci
begin

text \<open>
  The DMA pool of the USB driver: nothing is ever freed, and a pool that grows takes for granted that the next page is
  adjacent.  Here it is shown that everything the driver ever allocates fits the first page.
\<close>

section \<open>What leaves the pool alone\<close>

definition pool_of :: "('d, 'a) usb \<Rightarrow> u64 \<times> int \<times> int" where
  "pool_of s = (dma_pool (drv s), dma_pool_offset (drv s), dma_pool_size (drv s))"

lemma pool_of_store [simp]: "pool_of (store a v s) = pool_of s" "pool_of (upd_dev g s) = pool_of s"
  "pool_of (s\<lparr>ram := m\<rparr>) = pool_of s" "pool_of (s\<lparr>dev := d\<rparr>) = pool_of s"
  by (simp_all add: pool_of_def store_def upd_dev_def)

lemma pool_of_upd_drv [simp]:
  "(\<And>u. dma_pool (g u) = dma_pool u) \<Longrightarrow> (\<And>u. dma_pool_offset (g u) = dma_pool_offset u) \<Longrightarrow> (\<And>u. dma_pool_size (g u) = dma_pool_size u) \<Longrightarrow>
    pool_of (upd_drv g s) = pool_of s"
  by (simp add: pool_of_def upd_drv_def)

lemma pool_of_io_delay [simp]: "pool_of (io_delay hw s) = pool_of s"
  by (simp add: io_delay_def split: prod.splits)

lemma pool_of_delay_ms [simp]: "pool_of (delay_ms hw ms s) = pool_of s"
proof -
  have "pool_of (fold (\<lambda>_. io_delay hw) xs s) = pool_of s" for xs :: "nat list" by (induction xs arbitrary: s) simp_all
  then show ?thesis by (simp add: delay_ms_def)
qed

lemma pool_of_dbg [simp]: "pool_of (dbg_char hw c s) = pool_of s" "pool_of (dbg_str hw str s) = pool_of s"
  "pool_of (dbg_hex8 hw b s) = pool_of s" "pool_of (dbg_hex16 hw w s) = pool_of s" "pool_of (dbg_hex32 hw d s) = pool_of s"
proof -
  have c: "pool_of (dbg_char hw c s) = pool_of s" for c s by (simp add: dbg_char_def)
  have "pool_of (fold (dbg_char hw) xs s) = pool_of s" for xs by (induction xs arbitrary: s) (simp_all add: c)
  then show "pool_of (dbg_str hw str s) = pool_of s" by (simp add: dbg_str_def)
  show "pool_of (dbg_char hw c s) = pool_of s" "pool_of (dbg_hex8 hw b s) = pool_of s" "pool_of (dbg_hex16 hw w s) = pool_of s"
    "pool_of (dbg_hex32 hw d s) = pool_of s" by (simp_all add: c dbg_hex8_def dbg_hex16_def dbg_hex32_def)
qed

lemma pool_of_read [simp]: "pool_of (snd (uhci_read16 hw reg s)) = pool_of s" "pool_of (uhci_write16 hw reg v s) = pool_of s"
  "pool_of (uhci_write32 hw reg d s) = pool_of s"
  by (simp_all add: uhci_read16_def uhci_write16_def uhci_write32_def split: prod.splits)

lemma pool_of_read_eq: "uhci_read16 hw reg s = (v, s') \<Longrightarrow> pool_of s' = pool_of s"
  using pool_of_read(1)[of hw reg s] by simp

lemma pool_of_alloc_td [simp]: "pool_of (snd (alloc_td s)) = pool_of s"
  by (simp add: alloc_td_def Let_def)

lemma pool_of_data_tds: "pool_of (snd (data_tds addr dir_in ls db remaining off tg prev s)) = pool_of s"
proof (induction addr dir_in ls db remaining off tg prev s rule: data_tds.induct)
  case (1 addr dir_in ls db remaining off tg prev s)
  obtain d s1 where a: "alloc_td s = (d, s1)" by (cases "alloc_td s")
  have p: "pool_of s1 = pool_of s" using pool_of_alloc_td[of s] a by simp
  show ?case
  proof (cases "remaining = 0 \<or> d = 0")
    case True
    then show ?thesis using a p by (subst data_tds.simps) auto
  next
    case False
    then show ?thesis
      using "1.IH"[OF _ refl a[symmetric] _ refl refl refl refl] a p by (subst data_tds.simps) (simp add: Let_def)
  qed
qed

lemma pool_of_build_transfer: "pool_of (snd (build_transfer addr dir_in ls sb db len s)) = pool_of s"
proof -
  obtain d s1 where a: "alloc_td s = (d, s1)" by (cases "alloc_td s")
  have p1: "pool_of s1 = pool_of s" using pool_of_alloc_td[of s] a by simp
  define s2 where "s2 = store (d + td_buffer) (ucast sb) (store (d + td_token) (TD_TOKEN TD_PID_SETUP addr 0 0 8)
    (store (d + td_ctrl_status) (td_active ls) s1))"
  obtain r s3 where s3: "data_tds addr dir_in ls db len 0 1 d s2 = (r, s3)" by (cases "data_tds addr dir_in ls db len 0 1 d s2")
  have p3: "pool_of s3 = pool_of s" using pool_of_data_tds[of addr dir_in ls db len 0 1 d s2] s3 p1 by (simp add: s2_def)
  obtain e s4 where s4: "alloc_td s3 = (e, s4)" by (cases "alloc_td s3")
  have "pool_of s4 = pool_of s" using pool_of_alloc_td[of s3] s4 p3 by simp
  then show ?thesis
    unfolding build_transfer_def a prod.case Let_def s2_def[symmetric] s3 s4 using p1 p3 by (auto split: option.splits)
qed

lemma pool_of_await_status: "pool_of (snd (await_status hw td n s)) = pool_of s"
  by (induction n arbitrary: s) (simp_all add: Let_def)

lemma pool_of_port_wait: "pool_of (snd (port_wait hw reg n s)) = pool_of s"
proof (induction n arbitrary: s)
  case (Suc n)
  obtain v s1 where r: "uhci_read16 hw reg s = (v, s1)" by (cases "uhci_read16 hw reg s")
  have p1: "pool_of s1 = pool_of s" using pool_of_read(1)[of hw reg s] r by simp
  let ?s = "delay_ms hw 10 (uhci_write16 hw reg (PORTSC_ENABLE OR 0x0002 OR 0x0008) s1)"
  obtain w s2 where w: "uhci_read16 hw reg ?s = (w, s2)" by (cases "uhci_read16 hw reg ?s")
  have "pool_of s2 = pool_of s" using pool_of_read_eq[OF w] p1 by simp
  then show ?case using p1 by (simp only: port_wait.simps r prod.case w) (simp add: Suc)
qed simp

lemma pool_of_port_reset: "pool_of (snd (uhci_port_reset hw reg s)) = pool_of s"
  by (simp add: uhci_port_reset_def pool_of_port_wait)

lemma pool_of_reset_wait: "pool_of (reset_wait hw n s) = pool_of s"
proof (induction n arbitrary: s)
  case (Suc n)
  show ?case by (auto simp: Suc split: prod.splits dest!: pool_of_read_eq)
qed simp

section \<open>Room\<close>

text \<open>The pool is one page, of which \<open>k\<close> bytes at most are used.\<close>

definition room :: "int \<Rightarrow> ('d, 'a) usb \<Rightarrow> bool" where
  "room k s \<longleftrightarrow> dma_pool_size (drv s) = 4096 \<and> 0 \<le> dma_pool_offset (drv s) \<and> dma_pool_offset (drv s) \<le> k"

lemma room_pool: "pool_of s = pool_of t \<Longrightarrow> room k s = room k t"
  by (simp add: room_def pool_of_def)

lemma room_keep: "room k t \<Longrightarrow> pool_of s = pool_of t \<Longrightarrow> room k s"
  by (simp add: room_def pool_of_def)

lemma room_mono: "room k s \<Longrightarrow> k \<le> n \<Longrightarrow> room n s"
  by (auto simp: room_def)

lemma align_up_16: "align_up off 16 \<le> off + 15 \<and> off \<le> align_up off 16"
proof -
  have "(off + 15) AND NOT (mask 4) = push_bit 4 (drop_bit 4 (off + 15))"
    by (rule bit_eqI) (auto simp: bit_and_iff bit_not_iff bit_mask_iff bit_push_bit_iff bit_drop_bit_eq)
  moreover have "align_up off 16 = (off + 15) AND NOT (mask 4)" by (simp add: align_up_def mask_numeral add.commute)
  ultimately have "align_up off 16 = (off + 15) div 16 * 16" by (simp add: push_bit_eq_mult drop_bit_eq_div)
  then show ?thesis
    using div_mult_mod_eq[of "off + 15" 16] pos_mod_sign[of 16 "off + 15"] pos_mod_bound[of 16 "off + 15"] by linarith
qed

lemma dma_alloc_room:
  assumes "room k s" "0 \<le> n" "k + n + 16 \<le> 4096" "k + 15 + n \<le> k'"
  shows "room k' (snd (dma_alloc n 16 s))"
proof -
  have g: "dma_grow (dma_pool_offset (drv s) + n + 16) s = (True, s)"
    using assms by (subst dma_grow.simps) (simp add: room_def)
  show ?thesis
    unfolding dma_alloc_def g prod.case bool.case Let_def snd_conv using assms align_up_16[of "dma_pool_offset (drv s)"]
    by (simp add: room_def upd_drv_def)
qed

lemma control_transfer_room:
  assumes "room k s" "k + 54 + int len \<le> 4096" "k + 38 + int len \<le> k'"
  shows "room k' (snd (uhci_control_transfer hw addr setup data len dir_in ls s))"
proof -
  let ?s0 = "reset_td_pool s"
  obtain sb s1 where a1: "dma_alloc 8 16 ?s0 = (sb, s1)" by (cases "dma_alloc 8 16 ?s0")
  have "room k ?s0" using assms(1) by (simp add: room_def reset_td_pool_def upd_drv_def)
  then have r1: "room (k + 23) s1" using dma_alloc_room[of k ?s0 8 "k + 23"] assms(2) a1 by simp
  let ?s1 = "s1\<lparr>ram := put_bytes sb setup (ram s1)\<rparr>"
  obtain db s2 where a2: "(if len > 0 then dma_alloc (int len) 16 ?s1 else (0, ?s1)) = (db, s2)" by fastforce
  have r1': "room (k + 23) ?s1" using r1 by (simp add: room_def)
  have r2: "room (k + 38 + int len) s2"
  proof (cases "len > 0")
    case True
    then show ?thesis using dma_alloc_room[OF r1', of "int len" "k + 38 + int len"] assms(2) a2 by simp
  next
    case False
    then show ?thesis using room_mono[OF r1'] a2 by auto
  qed
  define s3 where "s3 = (if len > 0 \<and> \<not> dir_in then s2\<lparr>ram := put_bytes db (get_list data 0 len) (ram s2)\<rparr> else s2)"
  have r3: "room (k + 38 + int len) s3" using r2 by (simp add: s3_def room_def)
  obtain r s4 where b: "build_transfer addr dir_in ls sb db len s3 = (r, s4)" by (cases "build_transfer addr dir_in ls sb db len s3")
  have r4: "room (k + 38 + int len) s4" using r3 by (rule room_keep) (use pool_of_build_transfer[of addr dir_in ls sb db len s3] b in simp)
  have run: "uhci_control_transfer hw addr setup data len dir_in ls s = (if sb = 0 then ((-1, data), s1)
      else if len > 0 \<and> db = 0 then ((-1, data), s2)
      else case (r, s4) of (None, s) \<Rightarrow> ((-1, data), s)
      | (Some (setup_td, status_td), s) \<Rightarrow>
          (case await_status hw status_td 50000 (store (ctrl_qh (drv s) + qh_element) (td_phys setup_td) s) of
             (ok, s) \<Rightarrow>
               let data = (if ok \<and> dir_in \<and> len > 0 then put_list data 0 (get_list (mem_bytes db (ram s)) 0 len) else data)
               in ((if ok then int len else -1, data), store (ctrl_qh (drv s) + qh_element) TD_LINK_TERMINATE s)))"
    unfolding uhci_control_transfer_def Let_def a1 prod.case a2 s3_def[symmetric] b by (rule refl)
  have "room (k + 38 + int len) (snd (uhci_control_transfer hw addr setup data len dir_in ls s))"
  proof (cases r)
    case None
    then show ?thesis unfolding run using r1 r2 r4 by (auto elim: room_mono)
  next
    case (Some p)
    obtain st ss where p: "p = (st, ss)" by (cases p)
    let ?s4 = "store (ctrl_qh (drv s4) + qh_element) (td_phys st) s4"
    obtain ok s5 where w: "await_status hw ss 50000 ?s4 = (ok, s5)" by (cases "await_status hw ss 50000 ?s4")
    have "pool_of s5 = pool_of s4" using pool_of_await_status[of hw ss 50000 ?s4] w by simp
    then have "room (k + 38 + int len) (store (ctrl_qh (drv s5) + qh_element) TD_LINK_TERMINATE s5)"
      by (intro room_keep[OF r4]) simp
    then show ?thesis unfolding run Some p prod.case option.case w Let_def using r1 r2 by (auto elim: room_mono)
  qed
  then show ?thesis using assms(3) by (rule room_mono)
qed

lemma request_room:
  assumes "room k s" "k + 54 \<le> 4096" "k + 38 \<le> k'"
  shows "room k' (snd (usb_set_address hw addr ls s))" "room k' (snd (usb_set_configuration hw addr cfg ls s))"
    "room k' (snd (usb_set_protocol hw addr iface prot ls s))" "room k' (snd (usb_set_idle hw addr iface ls s))"
  using control_transfer_room[OF assms(1), of 0 k'] assms(2,3)
  by (simp_all add: usb_set_address_def usb_set_configuration_def usb_set_protocol_def usb_set_idle_def split_beta)

lemma get_descriptor_room:
  "room k s \<Longrightarrow> k + 54 + int len \<le> 4096 \<Longrightarrow> k + 38 + int len \<le> k' \<Longrightarrow> room k' (snd (usb_get_descriptor hw addr kind i buf len ls s))"
  unfolding usb_get_descriptor_def by (rule control_transfer_room)

lemma room_simps [simp]: "room k (delay_ms hw ms s) = room k s" "room k (dbg_char hw c s) = room k s" "room k (dbg_str hw str s) = room k s"
  "room k (dbg_hex8 hw b s) = room k s" "room k (dbg_hex16 hw w s) = room k s"
  by (rule room_pool; simp)+

lemma use_endpoint_room:
  assumes "room k s" "k + 130 \<le> 4096"
  shows "room (k + 114) (use_endpoint hw addr cfg mp ls iface ft ep s)"
proof -
  let ?s1 = "delay_ms hw 10 (snd (usb_set_configuration hw addr cfg ls s))"
  let ?s2 = "if ft = HID_TYPE_MOUSE then delay_ms hw 10 (snd (usb_set_protocol hw addr iface 0 ls ?s1)) else ?s1"
  have r1: "room (k + 38) ?s1" using request_room(2)[OF assms(1), of "k + 38"] assms(2) by simp
  have r2: "room (k + 76) ?s2" using request_room(3)[OF r1, of "k + 76"] room_mono[OF r1, of "k + 76"] assms(2) by (cases "ft = HID_TYPE_MOUSE") (simp_all only: if_True if_False room_simps, simp_all)
  have r3: "room (k + 114) (snd (usb_set_idle hw addr iface ls ?s2))" using request_room(4)[OF r2, of "k + 114"] assms(2) by simp
  have p: "pool_of (use_endpoint hw addr cfg mp ls iface ft ep s) = pool_of (snd (usb_set_idle hw addr iface ls ?s2))"
    unfolding use_endpoint_def Let_def by simp
  show ?thesis using r3 p by (rule room_keep)
qed

lemma log_interface_pool: "pool_of (log_interface hw a b c s) = pool_of s"
  by (simp add: log_interface_def Let_def)

lemma scan_room:
  "scan_descriptors hw addr mp ls conf total_len pos found iface s = Done s' \<Longrightarrow> room k s \<Longrightarrow> k + 130 \<le> 4096 \<Longrightarrow> room (k + 114) s'"
proof (induction "total_len - pos" arbitrary: pos found iface s rule: less_induct)
  case less
  define is_iface where "is_iface = (conf (pos + 1) = 4 \<and> unat (conf pos) \<ge> 9 \<and> pos + 8 < total_len)"
  define found' where "found' = (if is_iface then hid_kind (conf (pos + 5)) (conf (pos + 6)) (conf (pos + 7)) else found)"
  define iface' :: u16 where "iface' = (if is_iface then ucast (conf (pos + 2)) else iface)"
  define s1 where "s1 = (if is_iface then log_interface hw (conf (pos + 5)) (conf (pos + 6)) (conf (pos + 7)) s else s)"
  have "pool_of s1 = pool_of s" by (simp add: s1_def log_interface_pool)
  then have r1: "room k s1" by (rule room_keep[OF less.prems(2)])
  let ?next = "scan_descriptors hw addr mp ls conf total_len (pos + unat (conf pos)) found' iface' s1"
  have "scan_descriptors hw addr mp ls conf total_len pos found iface s =
      (if \<not> pos + 1 < total_len then Done s else if unat (conf pos) = 0 then Done s
       else if conf (pos + 1) = 5 \<and> unat (conf pos) \<ge> 7 \<and> found' \<noteq> None
         then if pos + 2 \<ge> 128 then Undef else if conf (pos + 2) AND 0x80 \<noteq> 0
           then Done (use_endpoint hw addr (conf 5) mp ls iface' (the found') (conf (pos + 2)) s1) else ?next
         else ?next)"
    unfolding scan_descriptors.simps[of hw addr mp ls conf total_len pos found iface s] Let_def is_iface_def found'_def iface'_def s1_def
    by (rule refl)
  moreover have "room (k + 114) s'" if "pos + 1 < total_len" "unat (conf pos) \<noteq> 0" "?next = Done s'"
    using that less.hyps[OF _ that(3) r1 less.prems(3)] by auto
  ultimately show ?case using less.prems room_mono[OF less.prems(2)] use_endpoint_room[OF r1 less.prems(3)]
    by (auto split: if_splits)
qed

lemma read_room: "uhci_read16 hw reg s = (v, s') \<Longrightarrow> room k s \<Longrightarrow> room k s'"
  by (rule room_keep[OF _ pool_of_read_eq])

lemma enumerate_room:
  assumes "uhci_enumerate_port hw reg s = Done s'" "room k s" "0 \<le> k" "k + 500 \<le> 4096"
  shows "room (k + 467) s'"
proof -
  obtain st s1 where s1: "uhci_read16 hw reg s = (st, s1)" by (cases "uhci_read16 hw reg s")
  obtain ok s2 where s2: "uhci_port_reset hw reg s1 = (ok, s2)" by (cases "uhci_port_reset hw reg s1")
  obtain st' s3 where s3: "uhci_read16 hw reg s2 = (st', s3)" by (cases "uhci_read16 hw reg s2")
  define ls where "ls = (st' AND PORTSC_LOWSPEED \<noteq> 0)"
  obtain r4 dd s4 where s4: "usb_get_descriptor hw 0 1 0 (\<lambda>_. 0) 8 ls s3 = ((r4, dd), s4)"
    by (metis surj_pair)
  define mp where "mp = (if dd 7 = 0 then 8 else dd 7)"
  define addr where "addr = next_usb_addr (drv s4)"
  define s5 where "s5 = upd_drv (\<lambda>u. u\<lparr>next_usb_addr := addr + 1\<rparr>) s4"
  obtain r6 s6 where s6: "usb_set_address hw addr ls s5 = (r6, s6)" by (metis surj_pair)
  obtain r7 dd7 s7 where s7: "usb_get_descriptor hw addr 1 0 dd 18 ls (delay_ms hw 10 s6) = ((r7, dd7), s7)" by (metis surj_pair)
  obtain r8 conf s8 where s8: "usb_get_descriptor hw addr 2 0 (\<lambda>_. 0) 9 ls s7 = ((r8, conf), s8)" by (metis surj_pair)
  define total where "total = min 128 (unat (le16 conf 2))"
  obtain r9 conf' s9 where s9: "usb_get_descriptor hw addr 2 0 conf total ls s8 = ((r9, conf'), s9)" by (metis surj_pair)
  have run: "uhci_enumerate_port hw reg s =
     (if st AND PORTSC_CONNECT = 0 then Done s1 else if \<not> ok then Done s2 else if r4 < 0 then Done s4 else if r6 < 0 then Done s6
      else if r7 < 0 then Done s7 else if r8 < 0 then Done s8 else if r9 < 0 then Done s9
      else scan_descriptors hw addr mp ls conf' total 0 None 0 s9)"
    unfolding uhci_enumerate_port_def s1 s2 s3 prod.case Let_def ls_def[symmetric] s4 mp_def[symmetric] addr_def[symmetric] s5_def[symmetric]
      s6 s7 s8 total_def[symmetric] s9
    by (rule refl)
  have r1: "room k s1" by (rule read_room[OF s1 assms(2)])
  have r2: "room k s2" by (rule room_keep[OF r1]) (use pool_of_port_reset[of hw reg s1] s2 in simp)
  have r3: "room k s3" by (rule read_room[OF s3 r2])
  have r4': "room (k + 46) s4" using get_descriptor_room[OF r3, of 8 "k + 46" hw 0 1 0 "\<lambda>_. 0" ls] assms(4) s4 by simp
  have r5: "room (k + 46) s5" unfolding s5_def by (rule room_keep[OF r4']) simp
  have r6': "room (k + 84) s6" using request_room(1)[OF r5, of "k + 84" hw addr ls] assms(4) s6 by simp
  have "room (k + 84) (delay_ms hw 10 s6)" using r6' by simp
  from get_descriptor_room[OF this, of 18 "k + 140" hw addr 1 0 dd ls] have r7': "room (k + 140) s7" using assms(4) s7 by simp
  from get_descriptor_room[OF r7', of 9 "k + 187" hw addr 2 0 "\<lambda>_. 0" ls] have r8': "room (k + 187) s8" using assms(4) s8 by simp
  have "total \<le> 128" by (simp add: total_def)
  then have r9': "room (k + 353) s9" using get_descriptor_room[OF r8', of total "k + 353" hw addr 2 0 conf ls] assms(4) s9 by simp
  have "room (k + 467) s'" if "scan_descriptors hw addr mp ls conf' total 0 None 0 s9 = Done s'"
    using scan_room[OF that r9'] assms(4) by (simp add: add.commute)
  then show ?thesis
    using assms(1,4) room_mono[OF r1, of "k + 467"] room_mono[OF r2, of "k + 467"] room_mono[OF r4', of "k + 467"] room_mono[OF r6', of "k + 467"]
      room_mono[OF r7', of "k + 467"] room_mono[OF r8', of "k + 467"] room_mono[OF r9', of "k + 467"]
    unfolding run by (simp split: if_splits)
qed

section \<open>Initialisation\<close>

lemma no_page: "pmm_inv p \<Longrightarrow> pmm_alloc_page p = (0, p') \<Longrightarrow> p' = p"
  by (rule pmm_alloc_page_cases[of p]) (auto dest!: page_addr_nonzero)

lemma schedule_room:
  assumes "uhci_schedule hw s = (ok, s')" "dma_pool_size (drv s) = 0" "dma_pool_offset (drv s) = 0" "pmm_inv (pm (ram s))"
  shows "room 2125 s' \<or> \<not> ok \<and> dma_pool_size (drv s') = 0 \<and> dma_pool_offset (drv s') = 0"
proof -
  obtain page p where pg: "pmm_alloc_page (pm (ram s)) = (page, p)" by (cases "pmm_alloc_page (pm (ram s))")
  let ?s0 = "s\<lparr>ram := (ram s)\<lparr>pm := p\<rparr>\<rparr>"
  show ?thesis
  proof (cases "page = 0")
    case True
    then have p: "p = pm (ram s)" using pg no_page assms(4) by blast
    have "dma_grow (0 + 32 * int MAX_TDS + 16) ?s0 = (False, ?s0)"
      using assms(2,3) pg True p by (subst dma_grow.simps) simp
    then have a: "dma_alloc (32 * int MAX_TDS) 16 ?s0 = (0, ?s0)" using assms(3) by (simp add: dma_alloc_def)
    have i: "dma_init s = ?s0" using pg True by (simp add: dma_init_def)
    have "uhci_schedule hw s = (False, upd_drv (\<lambda>u. u\<lparr>td_pool := 0\<rparr>) ?s0)"
      unfolding uhci_schedule_def Let_def i a prod.case by simp
    then show ?thesis using assms by (auto simp: upd_drv_def)
  next
    case False
    define s1 where "s1 = dma_init s"
    have r1: "room 0 s1" using pg False by (simp add: s1_def dma_init_def Let_def room_def upd_drv_def)
    obtain pool s2 where s2: "dma_alloc (32 * int MAX_TDS) 16 s1 = (pool, s2)" by (cases "dma_alloc (32 * int MAX_TDS) 16 s1")
    have r2: "room 2063 s2" using dma_alloc_room[OF r1, of "32 * int MAX_TDS" 2063] s2 by simp
    define s3 where "s3 = upd_drv (\<lambda>u. u\<lparr>td_pool := pool\<rparr>) s2"
    have r3: "room 2063 s3" by (rule room_keep[OF r2]) (simp add: s3_def)
    obtain list q where q: "pmm_alloc_page (pm (ram s3)) = (list, q)" by (cases "pmm_alloc_page (pm (ram s3))")
    define s4 where "s4 = upd_drv (\<lambda>u. u\<lparr>td_pool_used := 0, frame_list := list\<rparr>) (s3\<lparr>ram := (ram s3)\<lparr>pm := q\<rparr>\<rparr>)"
    have r4: "room 2063 s4" by (rule room_keep[OF r3]) (simp add: s4_def)
    obtain qc s5 where s5: "dma_alloc 16 16 s4 = (qc, s5)" by (cases "dma_alloc 16 16 s4")
    have r5: "room 2094 s5" using dma_alloc_room[OF r4, of 16 2094] s5 by simp
    define s6 where "s6 = upd_drv (\<lambda>u. u\<lparr>ctrl_qh := qc\<rparr>) s5"
    have r6: "room 2094 s6" by (rule room_keep[OF r5]) (simp add: s6_def)
    obtain qi s7 where s7: "dma_alloc 16 16 s6 = (qi, s7)" by (cases "dma_alloc 16 16 s6")
    have r7: "room 2125 s7" using dma_alloc_room[OF r6, of 16 2125] s7 by simp
    have l: "pool_of (fold (\<lambda>i. store (list + of_nat i * 4) v) xs t) = pool_of t" for xs :: "nat list" and v t
      by (induction xs arbitrary: t) simp_all
    have run: "uhci_schedule hw s = (if pool = 0 then (False, s3) else if list = 0 then (False, s4)
        else let s = upd_drv (\<lambda>u. u\<lparr>intr_qh := qi\<rparr>) s7 in if qc = 0 \<or> qi = 0 then (False, s) else
          let s = store (qc + qh_head_link) TD_LINK_TERMINATE s;
               s = store (qc + qh_element) TD_LINK_TERMINATE s;
               s = store (qi + qh_head_link) (qh_phys qc OR TD_LINK_QH) s;
               s = store (qi + qh_element) TD_LINK_TERMINATE s;
               s = fold (\<lambda>i. store (list + of_nat i * 4) (qh_phys qi OR TD_LINK_QH)) [0..<1024] s;
               s = uhci_write32 hw UHCI_FLBASEADD (ucast list) s;
               s = uhci_write16 hw UHCI_FRNUM 0 s;
               s = uhci_write16 hw UHCI_INTR 0 s;
               s = uhci_write16 hw UHCI_STS 0xFFFF s;
               s = uhci_write16 hw UHCI_CMD (0x0001 OR 0x0080) s
           in (True, upd_drv (\<lambda>u. u\<lparr>uhci_active := True\<rparr>) s))"
      unfolding uhci_schedule_def Let_def s1_def[symmetric] s2 prod.case s3_def[symmetric] q s4_def[symmetric] s5 s6_def[symmetric] s7
      by (rule refl)
    have "pool_of s' = pool_of s3 \<or> pool_of s' = pool_of s4 \<or> pool_of s' = pool_of s7"
      using assms(1) unfolding run by (auto simp: Let_def l split: if_splits)
    then show ?thesis using room_mono[OF r3, of 2125] room_mono[OF r4, of 2125] r7 room_keep by auto
  qed
qed

lemma setup_polling_room:
  assumes "room k s" "k + 100 \<le> 4096"
  shows "room (k + 70) (setup_mouse_polling s)"
proof -
  obtain buf s1 where s1: "dma_alloc 8 16 s = (buf, s1)" by (cases "dma_alloc 8 16 s")
  have r1: "room (k + 23) s1" using dma_alloc_room[OF assms(1), of 8 "k + 23"] assms(2) s1 by simp
  define s2 where "s2 = (upd_drv (\<lambda>u. u\<lparr>mouse_buf := buf\<rparr>) s1)\<lparr>ram := put_bytes buf (replicate 8 0) (ram (upd_drv (\<lambda>u. u\<lparr>mouse_buf := buf\<rparr>) s1))\<rparr>"
  have r2: "room (k + 23) s2" by (rule room_keep[OF r1]) (simp add: s2_def)
  obtain td s3 where s3: "dma_alloc 32 16 s2 = (td, s3)" by (cases "dma_alloc 32 16 s2")
  have r3: "room (k + 70) s3" using dma_alloc_room[OF r2, of 32 "k + 70"] assms(2) s3 by simp
  have "pool_of (setup_mouse_polling s) = pool_of s1 \<or> pool_of (setup_mouse_polling s) = pool_of s3"
    unfolding setup_mouse_polling_def s1 prod.case Let_def s2_def[symmetric] s3 by simp
  then show ?thesis using room_mono[OF r1, of "k + 70"] r3 room_keep by auto
qed

text \<open>Up to the schedule the driver leaves its state and the allocator alone.\<close>

definition same_alloc :: "('d, 'a) usb \<Rightarrow> ('d, 'a) usb \<Rightarrow> bool" where
  "same_alloc s t \<longleftrightarrow> pm (ram s) = pm (ram t) \<and> pool_of s = pool_of t"

lemma same_alloc_dev [simp]: "same_alloc (upd_dev g s) t = same_alloc s t" "same_alloc (s\<lparr>dev := d\<rparr>) t = same_alloc s t"
  "same_alloc (uhci_write16 hw reg v s) t = same_alloc s t" "same_alloc (upd_drv (\<lambda>u. u\<lparr>io_base := b\<rparr>) s) t = same_alloc s t"
  by (simp_all add: same_alloc_def upd_dev_def uhci_write16_def upd_drv_def pool_of_def)

lemma same_alloc_dbg: "same_alloc (dbg_char hw c s) t = same_alloc s t" "same_alloc (dbg_str hw str s) t = same_alloc s t"
  "same_alloc (dbg_hex8 hw b s) t = same_alloc s t" "same_alloc (dbg_hex16 hw w s) t = same_alloc s t"
proof -
  have c: "same_alloc (dbg_char hw c s) t = same_alloc s t" for c s by (simp add: dbg_char_def)
  have "same_alloc (fold (dbg_char hw) xs s) t = same_alloc s t" for xs by (induction xs arbitrary: s) (simp_all add: c)
  then show "same_alloc (dbg_str hw str s) t = same_alloc s t" by (simp add: dbg_str_def)
  show "same_alloc (dbg_char hw c s) t = same_alloc s t" "same_alloc (dbg_hex8 hw b s) t = same_alloc s t"
    "same_alloc (dbg_hex16 hw w s) t = same_alloc s t" by (simp_all add: c dbg_hex8_def dbg_hex16_def)
qed

lemma same_alloc_delay:
  assumes "\<And>d m. pm (snd (hw_run hw d m)) = pm m"
  shows "same_alloc (delay_ms hw ms s) t = same_alloc s t"
proof -
  have io: "same_alloc (io_delay hw s) t = same_alloc s t" for s
    using assms[of "dev s" "ram s"] by (cases "hw_run hw (dev s) (ram s)") (simp add: same_alloc_def io_delay_def pool_of_def)
  have "same_alloc (fold (\<lambda>_. io_delay hw) xs s) t = same_alloc s t" for xs :: "nat list"
    by (induction xs arbitrary: s) (simp_all add: io)
  then show ?thesis by (simp add: delay_ms_def)
qed

lemma same_alloc_reset:
  assumes "\<And>d m. pm (snd (hw_run hw d m)) = pm m"
  shows "same_alloc (reset_wait hw n s) t = same_alloc s t"
proof (induction n arbitrary: s)
  case (Suc n)
  have "same_alloc s' t = same_alloc s t" if "uhci_read16 hw UHCI_CMD s = (v, s')" for v s'
    using that by (auto simp: uhci_read16_def split: prod.splits)
  then show ?case by (auto simp: Suc same_alloc_delay[OF assms] split: prod.splits)
qed simp

text \<open>
  C39 (bounds): the driver never needs the growth of its pool, which would take adjacent pages for granted.  Whatever
  devices answer on the two ports, when initialisation returns the pool is either still empty, because no
  page was free, or exactly its first page, and at most 3129 of its 4096 bytes are in use.  The
  controller is assumed to leave the data of the page allocator alone.
\<close>

theorem uhci_pool_in_one_page:
  assumes "uhci_init hw s = Done s'" "dma_pool_size (drv s) = 0" "dma_pool_offset (drv s) = 0" "pmm_inv (pm (ram s))"
    "\<And>d m. pm (snd (hw_run hw d m)) = pm m"
  shows "(dma_pool_size (drv s') = 0 \<and> dma_pool_offset (drv s') = 0) \<or>
    (dma_pool_size (drv s') = 4096 \<and> dma_pool_offset (drv s') \<le> 3129)"
proof -
  have stop: ?thesis if "same_alloc s' s"
    using that assms(2,3) by (simp add: same_alloc_def pool_of_def)
  have full: ?thesis if "room 3129 s'" using that by (simp add: room_def)
  obtain found d where f: "pci_find_device (hw_ports hw) 0x0C 0x03 0x00 True (dev s) = (found, d)" by (metis surj_pair)
  define s0 where "s0 = s\<lparr>dev := d\<rparr>"
  have s0: "same_alloc s0 s" by (simp add: s0_def same_alloc_def pool_of_def)
  show ?thesis
  proof (cases "\<exists>pci. found = Some (Some pci)")
    case False
    then have "s' = dbg_char hw NEWLINE (dbg_str hw ''UHCI: no controller found'' s0)"
      using assms(1) by (cases found; cases "the found") (auto simp: uhci_init_def f s0_def Let_def)
    then show ?thesis using s0 stop by (simp add: same_alloc_dbg)
  next
    case True
    then obtain pci where pci: "found = Some (Some pci)" by blast
    define s1 where "s1 = log_controller hw pci (upd_drv (\<lambda>u. u\<lparr>io_base := ucast (bar4 pci AND NOT 0x3)\<rparr>) s0)"
    have s1: "same_alloc s1 s" using s0 by (simp add: s1_def log_controller_def Let_def same_alloc_dbg)
    obtain cmd d1 where d1: "pci_config_read16 (hw_ports hw) (pci_bus pci) (pci_slot pci) (pci_func pci) 0x04 (dev s1) = (cmd, d1)"
      by (metis surj_pair)
    define s2 where "s2 = s1\<lparr>dev := pci_config_write16 (hw_ports hw) (pci_bus pci) (pci_slot pci) (pci_func pci) 0x04 (cmd OR 0x05) d1\<rparr>"
    define s3 where "s3 = reset_wait hw 100 (uhci_write16 hw UHCI_CMD 0x0002 (delay_ms hw 10 (uhci_write16 hw UHCI_CMD 0
      (delay_ms hw 50 (uhci_write16 hw UHCI_CMD 0x0004 s2)))))"
    have s3: "same_alloc s3 s" using s1 by (simp add: s3_def s2_def same_alloc_reset[OF assms(5)] same_alloc_delay[OF assms(5)])
    obtain ok s4 where s4: "uhci_schedule hw s3 = (ok, s4)" by (cases "uhci_schedule hw s3")
    have sched: "room 2125 s4 \<or> \<not> ok \<and> dma_pool_size (drv s4) = 0 \<and> dma_pool_offset (drv s4) = 0"
      by (rule schedule_room[OF s4]) (use s3 assms(2,3,4) in \<open>simp_all add: same_alloc_def pool_of_def\<close>)
    have run: "uhci_init hw s = (if io_base (drv s1) = 0 then Done s1 else case (ok, s4) of
             (False, s) \<Rightarrow> Done s
           | (True, s) \<Rightarrow>
               (case uhci_enumerate_port hw UHCI_PORTSC1 s of
                  Undef \<Rightarrow> Undef
                | Done s \<Rightarrow>
                    (case (if mouse_found (drv s) then Done s else uhci_enumerate_port hw UHCI_PORTSC2 s) of
                       Undef \<Rightarrow> Undef
                     | Done s \<Rightarrow>
                         Done (if mouse_found (drv s) then setup_mouse_polling (log_result hw s) else log_no_mouse hw s))))"
      unfolding uhci_init_def f pci prod.case Let_def s0_def[symmetric] option.case s1_def[symmetric] d1 s2_def[symmetric] s3_def[symmetric] s4
      by (rule refl)
    show ?thesis
    proof (cases "io_base (drv s1) = 0 \<or> \<not> ok")
      case True
      then have "s' = s1 \<or> \<not> ok \<and> s' = s4" using assms(1) unfolding run by (auto split: if_splits)
      then show ?thesis using stop s1 sched full room_mono[of 2125 s4 3129] by auto
    next
      case False
      then have r4: "room 2125 s4" using sched by simp
      obtain s5 where s5: "uhci_enumerate_port hw UHCI_PORTSC1 s4 = Done s5"
        using assms(1) False unfolding run by (auto split: outcome.splits)
      have r5: "room 2592 s5" using enumerate_room[OF s5 r4] by simp
      obtain s6 where s6: "(if mouse_found (drv s5) then Done s5 else uhci_enumerate_port hw UHCI_PORTSC2 s5) = Done s6"
        using assms(1) False unfolding run by (auto simp: s5 split: outcome.splits)
      have r6: "room 3059 s6" using enumerate_room[of hw UHCI_PORTSC2 s5 s6, OF _ r5] room_mono[OF r5, of 3059] s6
        by (auto split: if_splits)
      have s': "s' = (if mouse_found (drv s6) then setup_mouse_polling (log_result hw s6) else log_no_mouse hw s6)"
        using assms(1) False unfolding run by (simp add: s5 s6)
      have "room 3059 (log_result hw s6)" by (rule room_keep[OF r6]) (simp add: log_result_def Let_def)
      then have a: "room 3129 (setup_mouse_polling (log_result hw s6))" using setup_polling_room[of 3059 "log_result hw s6"] by simp
      have "pool_of (log_no_mouse hw s6) = pool_of s6"
        by (auto simp: log_no_mouse_def Let_def split: prod.splits dest!: pool_of_read_eq)
      then have b: "room 3129 (log_no_mouse hw s6)" using room_keep[OF room_mono[OF r6, of 3129]] by simp
      show ?thesis by (rule full) (simp add: s' a b)
    qed
  qed
qed

text \<open>A machine whose first device is a controller with no device on its ports, and 256 free pages.\<close>

definition bare_usb :: "(unit, 'a) usb_hw" where
  "bare_usb = \<lparr>hw_ports = \<lparr>port_in8 = (\<lambda>_ d. (0, d)), port_out8 = (\<lambda>_ _ d. d), port_in16 = (\<lambda>_ d. (0, d)), port_out16 = (\<lambda>_ _ d. d),
     port_in32 = (\<lambda>_ d. (0x0C030040, d)), port_out32 = (\<lambda>_ _ d. d)\<rparr>, hw_run = Pair\<rparr>"

lemma bare_usb_init: "\<exists>s'. uhci_init bare_usb (s :: (unit, 'a) usb) = Done s'"
proof -
  let ?io = "hw_ports (bare_usb :: (unit, 'a) usb_hw)"
  have r32: "pci_config_read32 ?io b sl f off d = (0x0C030040, ())" for b sl f off d
    by (simp add: pci_config_read32_def bare_usb_def)
  obtain slots where sl: "all_slots = (0, 0) # slots"
  proof -
    have "[0..<256] = 0 # [Suc 0..<256]" "[0..<32] = 0 # [Suc 0..<32]" by (rule upt_conv_Cons, simp)+
    then have "all_slots = (of_nat 0, of_nat 0) # tl all_slots"
      unfolding all_slots_def by (simp only: list.map concat.simps append_Cons list.sel)
    then show thesis using that by simp
  qed
  have "\<exists>pci. pci_find_device ?io 0x0C 0x03 0x00 True (dev s) = (Some (Some pci), ())"
    unfolding pci_find_device_def sl by (simp add: r32 Let_def pci_config_read8_def upt_conv_Cons)
  then obtain pci where pci: "pci_find_device ?io 0x0C 0x03 0x00 True (dev s) = (Some (Some pci), ())" by blast
  have r16: "uhci_read16 bare_usb reg t = (0, t)" for reg and t :: "(unit, 'a) usb"
    by (simp add: uhci_read16_def bare_usb_def)
  have port: "uhci_enumerate_port bare_usb reg t = Done t" for reg and t :: "(unit, 'a) usb"
    by (simp add: uhci_enumerate_port_def r16)
  show ?thesis
    unfolding uhci_init_def pci by (simp add: Let_def port split: prod.splits bool.splits if_splits)
qed

theorem uhci_pool_in_one_page_witness:
  "\<forall>d. \<forall>m :: machine. \<exists>s'. uhci_init bare_usb \<lparr>drv = d\<lparr>dma_pool_size := 0, dma_pool_offset := 0\<rparr>, dev = (),
       ram = m\<lparr>pm := \<lparr>bitmap = (\<lambda>_. 0), page_base = 0x200000, total_pages = 256\<rparr>\<rparr>\<rparr> = Done s' \<and>
     (dma_pool_size (drv s') = 0 \<or> dma_pool_size (drv s') = 4096) \<and> dma_pool_offset (drv s') \<le> 3129"
proof (intro allI)
  fix d and m :: machine
  let ?s = "\<lparr>drv = d\<lparr>dma_pool_size := 0, dma_pool_offset := 0\<rparr>, dev = (),
       ram = m\<lparr>pm := \<lparr>bitmap = (\<lambda>_. 0), page_base = 0x200000, total_pages = 256\<rparr>\<rparr>\<rparr>"
  obtain s' where s': "uhci_init bare_usb ?s = Done s'" using bare_usb_init by blast
  have "pm (snd (hw_run bare_usb x t)) = pm t" for x and t :: machine by (simp add: bare_usb_def)
  from uhci_pool_in_one_page [OF s' _ _ _ this]
  show "\<exists>s'. uhci_init bare_usb ?s = Done s' \<and>
     (dma_pool_size (drv s') = 0 \<or> dma_pool_size (drv s') = 4096) \<and> dma_pool_offset (drv s') \<le> 3129"
    using s' by (auto simp: pmm_inv_def)
qed

end
