(* ===== verification/Uhci_Transfer.thy ===== *)
theory Uhci_Transfer
  imports Uhci
begin

text \<open>
  The control transfers of the USB driver: what the descriptors it leaves in memory say to the controller.
\<close>

section \<open>32-bit cells\<close>

lemma get_dword_bytes: "get_dword a m = le32 (mem_bytes a m) 0" "mem_bytes a m j = get_byte (a + of_nat j) m"
  by (simp_all add: get_dword_def mem_bytes_def)

lemma length_u32_bytes [simp]: "length (u32_bytes v) = 4"
  by (simp add: u32_bytes_def)

lemma le32_u32_bytes: "(\<And>j. j < 4 \<Longrightarrow> b j = u32_bytes v ! j) \<Longrightarrow> le32 b 0 = v"
proof -
  assume a: "\<And>j. j < 4 \<Longrightarrow> b j = u32_bytes v ! j"
  have "le32 b 0 = le32 (put32 b 0 v) 0"
    by (rule le32_cong) (use a in \<open>auto simp: put32_def put_list_def u32_bytes_def\<close>)
  then show "le32 b 0 = v" by (simp add: le32_put32)
qed

lemma get_put_dword: "get_dword a (put_dword a v m) = v"
  unfolding get_dword_def
proof (rule le32_u32_bytes)
  fix j :: nat assume "j < 4"
  then show "mem_bytes a (put_dword a v m) j = u32_bytes v ! j"
    by (simp add: mem_bytes_def put_dword_def put_bytes_run get_byte_put_run unat_of_nat_small)
qed

lemma of_nat_minus: "b \<le> 2 ^ 64 \<Longrightarrow> of_nat a - of_nat b = (of_nat (a + 2 ^ 64 - b) :: u64)"
proof -
  assume b: "b \<le> 2 ^ 64"
  then have "of_nat (a + 2 ^ 64 - b) = of_nat a + of_nat (2 ^ 64) - (of_nat b :: u64)" by (simp only: of_nat_add of_nat_diff trans_le_add2)
  moreover have "of_nat (2 ^ 64) = (0 :: u64)" by simp
  ultimately show ?thesis by (simp only: add_0_right)
qed

lemma unat_opposite: "(a :: u64) \<noteq> b \<Longrightarrow> unat (b - a) = 2 ^ 64 - unat (a - b)"
proof -
  assume ne: "a \<noteq> b"
  have lt: "unat (a - b) < 2 ^ 64" using unsigned_less[of "a - b"] by simp
  have "b - a = of_nat 0 - of_nat (unat (a - b))" by simp
  also have "\<dots> = of_nat (2 ^ 64 - unat (a - b))" using of_nat_minus[of "unat (a - b)" 0] lt by simp
  finally have "unat (b - a) = (2 ^ 64 - unat (a - b)) mod 2 ^ 64" by (simp add: unat_of_nat)
  moreover have "0 < unat (a - b)" using ne by (simp add: unat_gt_0)
  ultimately show ?thesis using lt by simp
qed

lemma get_put_apart:
  assumes "4 \<le> unat (b - a)" "n \<le> unat (a - b)" "0 < n"
  shows "get_dword a (put_run b n g m) = get_dword a m"
  unfolding get_dword_def
proof (rule le32_cong)
  fix j :: nat assume j: "j < 4"
  have ne: "a \<noteq> b" using assms by auto
  have "unat (a - b) + j < 2 ^ 64" using assms(1) j unat_opposite[OF ne] by linarith
  then have "unat (a - b + of_nat j) = unat (a - b) + j"
    using unat_plus_small[of "a - b" "of_nat j"] j by (simp add: unat_of_nat_small)
  moreover have "a + of_nat j - b = a - b + of_nat j" by (simp add: algebra_simps)
  ultimately have "unat (a + of_nat j - b) = unat (a - b) + j" by (simp only:)
  moreover have "unat (a - b) < 2 ^ 64" using unsigned_less[of "a - b"] by simp
  ultimately show "mem_bytes a (put_run b n g m) (0 + j) = mem_bytes a m (0 + j)"
    using assms by (simp add: mem_bytes_def get_byte_put_run)
qed

lemma get_put_dword_apart: "4 \<le> unat (b - a) \<Longrightarrow> 4 \<le> unat (a - b) \<Longrightarrow> get_dword a (put_dword b v m) = get_dword a m"
  unfolding put_dword_def put_bytes_run by (rule get_put_apart) simp_all

text \<open>Cell \<open>n\<close> of the pool of descriptors, four bytes each.\<close>

definition cell :: "('d, 'a) usb \<Rightarrow> nat \<Rightarrow> u32" where
  "cell s n = get_dword (td_pool (drv s) + of_nat (4 * n)) (ram s)"

lemma drv_store [simp]: "drv (store a v s) = drv s" "dev (store a v s) = dev s"
  by (simp_all add: store_def)

lemma cell_store:
  assumes "n < 512" "k < 512" "a = td_pool (drv s) + of_nat (4 * k)"
  shows "cell (store a v s) n = (if n = k then v else cell s n)"
proof (cases "n = k")
  case True
  then show ?thesis by (simp add: cell_def store_def assms(3) get_put_dword)
next
  case False
  have d: "4 \<le> unat (of_nat (4 * x) - of_nat (4 * y) :: u64)" if "x < 512" "y < 512" "x \<noteq> y" for x y
  proof -
    have "unat (of_nat (4 * x) - of_nat (4 * y) :: u64) = (4 * x + 2 ^ 64 - 4 * y) mod 2 ^ 64"
      unfolding of_nat_minus[OF order_trans[of "4 * y" 2048], OF _ _] using that by (subst of_nat_minus) (simp_all only: unat_of_nat, simp_all)
    then show ?thesis using that by (cases "x < y") (auto simp: mod_if)
  qed
  have "4 \<le> unat (of_nat (4 * k) - of_nat (4 * n) :: u64) \<and> 4 \<le> unat (of_nat (4 * n) - of_nat (4 * k) :: u64)"
    using d assms False by simp
  then have "get_dword (td_pool (drv s) + of_nat (4 * n)) (put_dword a v (ram s)) = get_dword (td_pool (drv s) + of_nat (4 * n)) (ram s)"
    unfolding assms(3) by (intro get_put_dword_apart) (simp_all del: of_nat_mult)
  with False show ?thesis by (simp add: cell_def store_def)
qed

text \<open>Field \<open>f\<close> of descriptor \<open>t\<close>: link, status, token, buffer.\<close>

definition fld :: "('d, 'a) usb \<Rightarrow> nat \<Rightarrow> nat \<Rightarrow> u32" where
  "fld s t f = cell s (8 * t + f)"

lemma td_cells:
  "td_at u i + td_link = td_pool u + of_nat (4 * (8 * i + 0))" "td_at u i + td_ctrl_status = td_pool u + of_nat (4 * (8 * i + 1))"
  "td_at u i + td_token = td_pool u + of_nat (4 * (8 * i + 2))" "td_at u i + td_buffer = td_pool u + of_nat (4 * (8 * i + 3))"
  by (simp_all add: td_at_def algebra_simps)

lemma fld_store_cell:
  assumes "td_pool (drv s) = td_pool u" "t < 64" "i < 64" "f < 4" "g < 4"
  shows "fld (store (td_pool u + of_nat (4 * (8 * i + g))) v s) t f = (if t = i \<and> f = g then v else fld s t f)"
proof -
  have "(8 * t + f) div 8 = t" "(8 * t + f) mod 8 = f" "(8 * i + g) div 8 = i" "(8 * i + g) mod 8 = g" using assms by auto
  then have "8 * t + f = 8 * i + g \<longleftrightarrow> t = i \<and> f = g" by metis
  then show ?thesis
    unfolding fld_def assms(1)[symmetric] using assms by (subst cell_store[OF _ _ refl]) auto
qed

lemma fld_store:
  assumes "td_pool (drv s) = td_pool u" "t < 64" "i < 64" "f < 4"
  shows "fld (store (td_at u i + td_link) v s) t f = (if t = i \<and> f = 0 then v else fld s t f)"
    "fld (store (td_at u i + td_ctrl_status) v s) t f = (if t = i \<and> f = 1 then v else fld s t f)"
    "fld (store (td_at u i + td_token) v s) t f = (if t = i \<and> f = 2 then v else fld s t f)"
    "fld (store (td_at u i + td_buffer) v s) t f = (if t = i \<and> f = 3 then v else fld s t f)"
  unfolding td_cells by (rule fld_store_cell; use assms in simp)+

lemmas fld_store_simps = fld_store[simplified add_0_right]

text \<open>A pool in the part of memory a descriptor can point to.\<close>

definition pool_ok :: "uhci \<Rightarrow> bool" where
  "pool_ok u \<longleftrightarrow> td_pool u \<noteq> 0 \<and> unat (td_pool u) + 32 * MAX_TDS < 2 ^ 32 \<and> unat (td_pool u) mod 16 = 0"

lemma unat_td_at: "pool_ok u \<Longrightarrow> i < 64 \<Longrightarrow> unat (td_at u i) = unat (td_pool u) + 32 * i"
proof -
  assume a: "pool_ok u" "i < 64"
  have "unat (of_nat i * 32 :: u64) = 32 * i" using a by (simp add: unat_word_ariths unat_of_nat_small)
  then show ?thesis using a unat_plus_small[of "td_pool u" "of_nat i * 32"] by (simp add: td_at_def pool_ok_def)
qed

lemma td_at_nonzero: "pool_ok u \<Longrightarrow> i < 64 \<Longrightarrow> td_at u i \<noteq> 0"
  using unat_td_at[of u i] by (auto simp: pool_ok_def unat_eq_0)

definition link_to :: "uhci \<Rightarrow> nat \<Rightarrow> u32" where
  "link_to u i = td_phys (td_at u i) OR TD_LINK_DEPTH"

definition set_used :: "nat \<Rightarrow> uhci \<Rightarrow> uhci" where
  "set_used n u = u\<lparr>td_pool_used := n\<rparr>"

lemma set_used_simps [simp]: "td_pool (set_used n u) = td_pool u" "td_pool_used (set_used n u) = n" "set_used n (set_used k u) = set_used n u"
  "td_at (set_used n u) i = td_at u i" "link_to (set_used n u) i = link_to u i" "pool_ok (set_used n u) = pool_ok u"
  by (simp_all add: set_used_def td_at_def link_to_def pool_ok_def)

lemma alloc_td_ok:
  assumes "pool_ok (drv s)" "td_pool_used (drv s) = i" "i < 64"
  obtains s' where "alloc_td s = (td_at (drv s) i, s')" "td_at (drv s) i \<noteq> 0" "drv s' = set_used (Suc i) (drv s)"
    "\<And>t f. t < 64 \<Longrightarrow> f < 4 \<Longrightarrow> fld s' t f = (if t = i then (if f = 0 then TD_LINK_TERMINATE else 0) else fld s t f)"
proof -
  define s0 where "s0 = upd_drv (\<lambda>u. u\<lparr>td_pool_used := td_pool_used u + 1\<rparr>) s"
  have d: "drv s0 = set_used (Suc i) (drv s)" by (simp add: s0_def upd_drv_def set_used_def assms(2))
  have c0: "fld s0 t f = fld s t f" for t f by (simp add: s0_def fld_def cell_def upd_drv_def)
  let ?t = "td_at (drv s) i"
  let ?s4 = "store (?t + td_buffer) 0 (store (?t + td_token) 0 (store (?t + td_ctrl_status) 0 (store (?t + td_link) TD_LINK_TERMINATE s0)))"
  have "fld ?s4 t f = (if t = i then (if f = 0 then TD_LINK_TERMINATE else 0) else fld s t f)" if "t < 64" "f < 4" for t f
  proof -
    have "f = 0 \<or> f = 1 \<or> f = 2 \<or> f = 3" using that by auto
    then show ?thesis using that assms(3) by (auto simp: fld_store_simps d c0)
  qed
  moreover have "alloc_td s = (?t, ?s4)" using assms by (simp add: alloc_td_def Let_def s0_def)
  moreover have "drv ?s4 = set_used (Suc i) (drv s)" by (simp add: d)
  ultimately show ?thesis using td_at_nonzero[OF assms(1,3)] that by blast
qed

lemma alloc_td_full: "MAX_TDS \<le> td_pool_used (drv s) \<Longrightarrow> alloc_td s = (0, s)"
  by (simp add: alloc_td_def)

section \<open>The chain\<close>

text \<open>The three fields of the descriptor of data packet \<open>i\<close>.\<close>

definition data_fields :: "u8 \<Rightarrow> bool \<Rightarrow> bool \<Rightarrow> u64 \<Rightarrow> nat \<Rightarrow> nat \<Rightarrow> nat \<Rightarrow> u32" where
  "data_fields addr dir_in low_speed data_buf len i f =
     (if f = 1 then td_active low_speed OR (if dir_in then TD_STATUS_SPD else 0)
      else if f = 2 then TD_TOKEN (if dir_in then TD_PID_IN else TD_PID_OUT) addr 0 (of_bool (even i)) (min (len - 8 * i) 8)
      else ucast (data_buf + of_nat (8 * i)))"

lemma data_tds_done: "data_tds addr dir_in ls db 0 off tg prev s = (Some prev, s)"
  by (subst data_tds.simps) simp

lemma data_tds_chain:
  fixes addr dir_in ls db
  assumes "pool_ok (drv s)" "td_pool_used (drv s) = Suc j" "m = (len + 7) div 8" "m < 64" "j \<le> m" "fld s j 0 = TD_LINK_TERMINATE"
  shows "\<exists>s'. data_tds addr dir_in ls db (len - 8 * j) (8 * j) (of_bool (even j)) (td_at (drv s) j) s = (Some (td_at (drv s) m), s') \<and>
    drv s' = set_used (Suc m) (drv s) \<and>
    (\<forall>t<64. \<forall>f<4. fld s' t f =
      (if f = 0 \<and> j \<le> t \<and> t < m then link_to (drv s) (Suc t) else if f = 0 \<and> t = m then TD_LINK_TERMINATE
       else if 0 < f \<and> j < t \<and> t \<le> m then data_fields addr dir_in ls db len (t - 1) f else fld s t f))"
  using assms
proof (induction "m - j" arbitrary: j s)
  case 0
  then have j: "j = m" "len - 8 * j = 0" by auto
  have "drv s = set_used (Suc m) (drv s)" using 0 j by (simp add: set_used_def)
  then show ?case using 0 j by (subst data_tds.simps) auto
next
  case (Suc n)
  then have jm: "j < m" "0 < len - 8 * j" by auto
  obtain s1 where s1: "alloc_td s = (td_at (drv s) (Suc j), s1)" "td_at (drv s) (Suc j) \<noteq> 0" "drv s1 = set_used (Suc (Suc j)) (drv s)"
    "\<And>t f. t < 64 \<Longrightarrow> f < 4 \<Longrightarrow> fld s1 t f = (if t = Suc j then (if f = 0 then TD_LINK_TERMINATE else 0) else fld s t f)"
    by (rule alloc_td_ok[OF Suc.prems(1,2)]) (use jm Suc.prems in auto)
  let ?t = "td_at (drv s) (Suc j)"
  let ?D = "data_fields addr dir_in ls db len j"
  define s2 where "s2 = store (td_at (drv s) j + td_link) (link_to (drv s) (Suc j))
    (store (?t + td_buffer) (?D 3) (store (?t + td_token) (?D 2) (store (?t + td_ctrl_status) (?D 1) s1)))"
  have d2: "drv s2 = set_used (Suc (Suc j)) (drv s)" by (simp add: s2_def s1(3))
  have f2: "fld s2 t f = (if t = Suc j then (if f = 0 then TD_LINK_TERMINATE else ?D f) else if t = j \<and> f = 0 then link_to (drv s) (Suc j) else fld s t f)"
    if "t < 64" "f < 4" for t f
  proof -
    have "f = 0 \<or> f = 1 \<or> f = 2 \<or> f = 3" using that by auto
    then show ?thesis using that jm Suc.prems(4) by (auto simp: s2_def fld_store_simps s1(3,4))
  qed
  have step: "data_tds addr dir_in ls db (len - 8 * j) (8 * j) (of_bool (even j)) (td_at (drv s) j) s =
      data_tds addr dir_in ls db (len - 8 * Suc j) (8 * Suc j) (of_bool (even (Suc j))) ?t s2"
  proof -
    have r: "len - 8 * j - 8 = len - 8 * Suc j" "8 * j + 8 = 8 * Suc j" by auto
    show ?thesis
    proof (cases "len - 8 * j \<ge> 8")
      case True
      then have o: "min (len - 8 * j) 8 = 8" by simp
      show ?thesis using jm s1(1,2)
        by (subst data_tds.simps) (simp add: o r Let_def s2_def data_fields_def link_to_def del: mult_Suc_right)
    next
      case False
      then have z: "len - 8 * Suc j = 0" "len - (8 * j + min (len - 8 * j) 8) = 0" by auto
      show ?thesis using jm s1(1,2) unfolding z(1)
        by (subst data_tds.simps) (simp add: z(2) data_tds_done Let_def s2_def data_fields_def link_to_def)
    qed
  qed
  have "\<exists>s'. data_tds addr dir_in ls db (len - 8 * Suc j) (8 * Suc j) (of_bool (even (Suc j))) (td_at (drv s2) (Suc j)) s2 = (Some (td_at (drv s2) m), s') \<and>
    drv s' = set_used (Suc m) (drv s2) \<and>
    (\<forall>t<64. \<forall>f<4. fld s' t f =
      (if f = 0 \<and> Suc j \<le> t \<and> t < m then link_to (drv s2) (Suc t) else if f = 0 \<and> t = m then TD_LINK_TERMINATE
       else if 0 < f \<and> Suc j < t \<and> t \<le> m then data_fields addr dir_in ls db len (t - 1) f else fld s2 t f))"
    by (rule Suc.hyps(1)) (use Suc.hyps(2) Suc.prems jm d2 f2 in auto)
  then obtain s' where s': "data_tds addr dir_in ls db (len - 8 * Suc j) (8 * Suc j) (of_bool (even (Suc j))) ?t s2 = (Some (td_at (drv s) m), s')"
    "drv s' = set_used (Suc m) (drv s)"
    "\<And>t f. t < 64 \<Longrightarrow> f < 4 \<Longrightarrow> fld s' t f =
      (if f = 0 \<and> Suc j \<le> t \<and> t < m then link_to (drv s) (Suc t) else if f = 0 \<and> t = m then TD_LINK_TERMINATE
       else if 0 < f \<and> Suc j < t \<and> t \<le> m then data_fields addr dir_in ls db len (t - 1) f else fld s2 t f)"
    unfolding d2 set_used_simps by blast
  show ?case
    unfolding step using s'(1,2) jm by (auto simp: s'(3) f2)
qed

section \<open>Packets\<close>

text \<open>The fields of a token, as the controller reads them.\<close>

definition token_pid :: "u32 \<Rightarrow> u32" where "token_pid t = t AND 0xFF"
definition token_addr :: "u32 \<Rightarrow> u32" where "token_addr t = drop_bit 8 t AND 0x7F"
definition token_endp :: "u32 \<Rightarrow> u32" where "token_endp t = drop_bit 15 t AND 0xF"
definition token_toggle :: "u32 \<Rightarrow> bool" where "token_toggle t = bit t 19"
definition token_len :: "u32 \<Rightarrow> nat" where "token_len t = unat ((drop_bit 21 t + 1) AND 0x7FF)"

lemma masks32: "(0xFF :: u32) = mask 8" "(0x7F :: u32) = mask 7" "(0xF :: u32) = mask 4" "(0x7FF :: u32) = mask 11"
  by (simp_all add: mask_eq_exp_minus_1)

lemma bit_low: "unat (v :: 'a :: len word) < 2 ^ k \<Longrightarrow> bit v n \<Longrightarrow> n < k"
proof -
  assume "unat v < 2 ^ k" "bit v n"
  then have "bit (take_bit k (unat v)) n" using bit_imp_le_length[of v n] by (simp add: take_bit_nat_eq_self bit_unsigned_iff)
  then show "n < k" by (simp add: bit_take_bit_iff)
qed

lemma token_fields:
  assumes "unat pid < 2 ^ 8" "unat addr < 2 ^ 7" "unat endp < 2 ^ 4" "unat len < 2 ^ 11" "unat tg < 2 ^ 1"
    and t: "t = pid OR push_bit 8 (ucast (addr :: u8)) OR push_bit 15 (ucast (endp :: u8)) OR push_bit 19 (ucast (tg :: u8)) OR push_bit 21 (len :: u32)"
  shows "token_pid t = pid" "token_addr t = ucast addr" "token_endp t = ucast endp" "token_toggle t = bit tg 0" "drop_bit 21 t = len"
proof -
  have b: "bit pid n \<Longrightarrow> n < 8" "bit addr n \<Longrightarrow> n < 7" "bit endp n \<Longrightarrow> n < 4" "bit len n \<Longrightarrow> n < 11" "bit tg n \<Longrightarrow> n = 0" for n
    using bit_low[of pid 8 n] bit_low[of addr 7 n] bit_low[of endp 4 n] bit_low[of len 11 n] bit_low[of tg 1 n] assms by auto
  show "token_pid t = pid" unfolding token_pid_def t masks32
    by (rule bit_word_eqI) (auto simp: bit_or_iff bit_and_iff bit_push_bit_iff bit_unsigned_iff bit_mask_iff dest: b)
  show "token_addr t = ucast addr" unfolding token_addr_def t masks32
    by (rule bit_word_eqI) (auto simp: bit_or_iff bit_and_iff bit_drop_bit_eq bit_push_bit_iff bit_unsigned_iff bit_mask_iff dest: b)
  show "token_endp t = ucast endp" unfolding token_endp_def t masks32
    by (rule bit_word_eqI) (auto simp: bit_or_iff bit_and_iff bit_drop_bit_eq bit_push_bit_iff bit_unsigned_iff bit_mask_iff dest: b)
  show "token_toggle t = bit tg 0" unfolding token_toggle_def t
    by (auto simp: bit_or_iff bit_push_bit_iff bit_unsigned_iff dest: b)
  show "drop_bit 21 t = len" unfolding t
    by (rule bit_word_eqI) (auto simp: bit_or_iff bit_and_iff bit_drop_bit_eq bit_push_bit_iff bit_unsigned_iff dest: b)
qed

record usb_packet =
  pk_pid :: u32
  pk_addr :: u32
  pk_endp :: u32
  pk_toggle :: bool
  pk_len :: nat
  pk_buffer :: u32
  pk_active :: bool
  pk_low_speed :: bool

definition make_packet :: "u32 \<Rightarrow> u32 \<Rightarrow> u32 \<Rightarrow> usb_packet" where
  "make_packet status token buffer =
     \<lparr>pk_pid = token_pid token, pk_addr = token_addr token, pk_endp = token_endp token, pk_toggle = token_toggle token,
      pk_len = token_len token, pk_buffer = buffer, pk_active = bit status 23, pk_low_speed = bit status 26\<rparr>"

definition packet_at :: "u64 \<Rightarrow> ('d, 'a) usb \<Rightarrow> usb_packet" where
  "packet_at a s = make_packet (get_dword (a + 4) (ram s)) (get_dword (a + 8) (ram s)) (get_dword (a + 12) (ram s))"

text \<open>The packets the controller finds when it follows a link: bit 0 ends the chain, the bits above 3 are the address.\<close>

fun packets_from :: "nat \<Rightarrow> u32 \<Rightarrow> ('d, 'a) usb \<Rightarrow> usb_packet list" where
  "packets_from 0 link s = []"
| "packets_from (Suc n) link s =
     (if bit link 0 then []
      else let a = ucast (link AND NOT 0xF) in packet_at a s # packets_from n (get_dword a (ram s)) s)"

text \<open>What a control transfer is made of: the request, the data in packets of at most 8 bytes with alternating
  toggles, and an empty packet in the other direction.\<close>

definition control_packets :: "u8 \<Rightarrow> bool \<Rightarrow> bool \<Rightarrow> u64 \<Rightarrow> u64 \<Rightarrow> nat \<Rightarrow> usb_packet list" where
  "control_packets addr dir_in low_speed setup_buf data_buf len =
     (let packet = (\<lambda>pid toggle n buf. \<lparr>pk_pid = pid, pk_addr = ucast addr, pk_endp = 0, pk_toggle = toggle, pk_len = n,
            pk_buffer = ucast buf, pk_active = True, pk_low_speed = low_speed\<rparr>)
      in packet TD_PID_SETUP False 8 setup_buf
         # map (\<lambda>i. packet (if dir_in then TD_PID_IN else TD_PID_OUT) (even i) (min (len - 8 * i) 8) (data_buf + of_nat (8 * i)))
             [0..<(len + 7) div 8]
         @ [packet (if dir_in then TD_PID_OUT else TD_PID_IN) True 0 0])"

lemma bits_td_at: "pool_ok u \<Longrightarrow> i < 64 \<Longrightarrow> bit (td_at u i) n \<Longrightarrow> 4 \<le> n \<and> n < 32"
proof -
  assume a: "pool_ok u" "i < 64" "bit (td_at u i) n"
  have lt: "unat (td_at u i) < 2 ^ 32" using a(1) unat_td_at[OF a(1,2)] a(2) by (simp add: pool_ok_def)
  have "unat (td_at u i) mod 2 ^ 4 = 0"
    using a(1) unfolding unat_td_at[OF a(1,2)] by (simp add: pool_ok_def mod_add_eq[symmetric])
  then have "unat (take_bit 4 (td_at u i)) = 0" by (simp only: unsigned_take_bit_eq take_bit_nat_def)
  then have "\<not> bit (take_bit 4 (td_at u i)) n" by (simp add: unat_eq_0)
  then have "4 \<le> n" using a(3) by (simp add: bit_take_bit_iff not_less)
  with bit_low[OF lt a(3)] show ?thesis by simp
qed

lemma bit_depth: "bit (TD_LINK_DEPTH :: u32) n \<longleftrightarrow> n = 2"
proof -
  have "(TD_LINK_DEPTH :: u32) = push_bit 2 1" by simp
  then show ?thesis by (simp only: bit_push_bit_iff bit_1_iff) auto
qed

lemma link_address:
  assumes "pool_ok u" "i < 64"
  shows "ucast (link_to u i AND NOT 0xF) = td_at u i" "\<not> bit (link_to u i) 0"
    "ucast (td_phys (td_at u i) AND NOT 0xF) = td_at u i" "\<not> bit (td_phys (td_at u i)) 0"
proof -
  note b = bits_td_at[OF assms]
  show "ucast (link_to u i AND NOT 0xF) = td_at u i"
    unfolding link_to_def td_phys_def masks32
    by (rule bit_word_eqI) (simp only: bit_and_iff bit_or_iff bit_not_iff bit_mask_iff bit_unsigned_iff bit_depth possible_bit_word, auto dest: b)
  show "\<not> bit (link_to u i) 0"
    unfolding link_to_def td_phys_def by (auto simp only: bit_or_iff bit_unsigned_iff bit_depth dest: b)
  show "ucast (td_phys (td_at u i) AND NOT 0xF) = td_at u i"
    unfolding td_phys_def masks32
    by (rule bit_word_eqI) (auto simp: bit_and_iff bit_not_iff bit_mask_iff bit_unsigned_iff dest: b)
  show "\<not> bit (td_phys (td_at u i)) 0" unfolding td_phys_def by (auto simp only: bit_unsigned_iff dest: b)
qed

lemma fld_get:
  "fld s i 0 = get_dword (td_at (drv s) i) (ram s)" "fld s i 1 = get_dword (td_at (drv s) i + 4) (ram s)"
  "fld s i 2 = get_dword (td_at (drv s) i + 8) (ram s)" "fld s i 3 = get_dword (td_at (drv s) i + 12) (ram s)"
  unfolding fld_def cell_def td_cells[symmetric] by simp_all

text \<open>A chain of linked descriptors, read from descriptor \<open>i\<close> on.\<close>

lemma packets_chain:
  assumes "pool_ok (drv s)" "k < 64" "\<And>t. i \<le> t \<Longrightarrow> t < k \<Longrightarrow> fld s t 0 = link_to (drv s) (Suc t)" "fld s k 0 = TD_LINK_TERMINATE"
    "i \<le> k" "Suc k - i < n" "ucast (link AND NOT 0xF) = td_at (drv s) i" "\<not> bit link 0"
  shows "packets_from n link s = map (\<lambda>t. make_packet (fld s t 1) (fld s t 2) (fld s t 3)) [i..<Suc k]"
  using assms(3-)
proof (induction "k - i" arbitrary: i n link)
  case 0
  then obtain n' where n: "n = Suc (Suc n')" using less_imp_Suc_add[of 1 n] by (cases n; cases "n - 1") auto
  have "i = k" using 0 by simp
  with 0 show ?case unfolding n by (simp add: Let_def packet_at_def fld_get fld_get(2)[unfolded One_nat_def])
next
  case (Suc j)
  then obtain n' where n: "n = Suc n'" by (cases n) auto
  have ik: "i < k" "Suc i < 64" using Suc assms(2) by auto
  have "packets_from n' (link_to (drv s) (Suc i)) s = map (\<lambda>t. make_packet (fld s t 1) (fld s t 2) (fld s t 3)) [Suc i..<Suc k]"
    by (rule Suc.hyps(1)) (use Suc.hyps(2) Suc.prems ik n link_address[OF assms(1) ik(2)] in auto)
  moreover have "fld s i 0 = link_to (drv s) (Suc i)" using Suc.prems(1) ik by simp
  ultimately show ?case using Suc.prems ik unfolding n
    by (simp add: Let_def packet_at_def fld_get fld_get(2)[unfolded One_nat_def] upt_conv_Cons)
qed

section \<open>Building a transfer\<close>

lemma td_active_bits: "bit (td_active ls OR v) 23" "bit v 26 = False \<Longrightarrow> bit (td_active ls OR v) 26 = ls"
  by (simp_all add: td_active_def ls_bit_def bit_or_iff)

lemma token_make_endp:
  assumes "unat addr < 128" "unat endp < 16" "unat tg < 2" "n \<le> 8" "0 < n" "pid = TD_PID_SETUP \<or> pid = TD_PID_IN \<or> pid = TD_PID_OUT"
  shows "make_packet st (TD_TOKEN pid addr endp tg n) buf =
    \<lparr>pk_pid = pid, pk_addr = ucast addr, pk_endp = ucast endp, pk_toggle = bit tg 0, pk_len = n, pk_buffer = buf,
     pk_active = bit st 23, pk_low_speed = bit st 26\<rparr>"
proof -
  have w: "word_of_int (int n - 1) = (of_nat (n - 1) :: u32)" using assms(5) by (simp add: of_nat_diff)
  have u: "unat (of_nat (n - 1) :: u32) = n - 1" using assms(4) by (simp add: unat_of_nat_small)
  have h: "unat pid < 2 ^ 8" "unat addr < 2 ^ 7" "unat endp < 2 ^ 4" "unat (of_nat (n - 1) :: u32) < 2 ^ 11" "unat tg < 2 ^ 1"
    using assms u by auto
  note f = token_fields[OF h refl]
  have l: "of_nat (n - 1) + 1 = (of_nat n :: u32)" using assms(5) by (simp add: of_nat_diff)
  have m: "unat ((of_nat n :: u32) AND mask 11) = n"
    using assms(4) by (simp add: take_bit_eq_mask[symmetric] unsigned_take_bit_eq unat_of_nat_small take_bit_nat_eq_self)
  show ?thesis
    unfolding make_packet_def TD_TOKEN_def w token_len_def f l masks32 m by simp
qed

lemma token_make:
  assumes "unat addr < 128" "n \<le> 8" "0 < n" "pid = TD_PID_SETUP \<or> pid = TD_PID_IN \<or> pid = TD_PID_OUT"
  shows "make_packet st (TD_TOKEN pid addr 0 (of_bool b) n) buf =
    \<lparr>pk_pid = pid, pk_addr = ucast addr, pk_endp = 0, pk_toggle = b, pk_len = n, pk_buffer = buf, pk_active = bit st 23, pk_low_speed = bit st 26\<rparr>"
  using token_make_endp[OF assms(1) _ _ assms(2-4), of 0 "of_bool b"] by (simp split: if_splits)

lemma token_make_zero:
  assumes "unat addr < 128" "pid = TD_PID_IN \<or> pid = TD_PID_OUT"
  shows "make_packet st (TD_TOKEN_ZLENGTH pid addr 0 1) buf =
    \<lparr>pk_pid = pid, pk_addr = ucast addr, pk_endp = 0, pk_toggle = True, pk_len = 0, pk_buffer = buf, pk_active = bit st 23, pk_low_speed = bit st 26\<rparr>"
proof -
  have h: "unat pid < 2 ^ 8" "unat addr < 2 ^ 7" "unat (0 :: u8) < 2 ^ 4" "unat (0x7FF :: u32) < 2 ^ 11" "unat (1 :: u8) < 2 ^ 1"
    using assms by auto
  note f = token_fields[OF h refl]
  show ?thesis unfolding make_packet_def TD_TOKEN_ZLENGTH_def token_len_def f by simp
qed

text \<open>Every branch of the builder counts its descriptors.\<close>

lemma data_tds_used:
  "data_tds addr dir_in ls db remaining off tg prev s = (Some p, s') \<Longrightarrow>
    td_pool_used (drv s') = td_pool_used (drv s) + (remaining + 7) div 8"
proof (induction addr dir_in ls db remaining off tg prev s rule: data_tds.induct)
  case (1 addr dir_in ls db remaining off tg prev s)
  show ?case
  proof (cases "remaining = 0")
    case True
    then show ?thesis using "1.prems" by (simp add: data_tds_done)
  next
    case False
    obtain d s1 where a: "alloc_td s = (d, s1)" by (cases "alloc_td s")
    have d: "d \<noteq> 0" using "1.prems" False a by (subst (asm) data_tds.simps) (auto split: if_splits)
    have u: "td_pool_used (drv s1) = Suc (td_pool_used (drv s))"
      using a d by (auto simp: alloc_td_def Let_def upd_drv_def split: if_splits)
    have c: "(remaining + 7) div 8 = Suc ((remaining - min remaining 8 + 7) div 8)" using False by (cases "remaining \<le> 8") auto
    show ?thesis using "1.prems" False a d
      by (subst (asm) data_tds.simps, simp only: Let_def prod.case if_False)
        (drule "1.IH"[OF False refl a[symmetric] d refl refl refl refl], simp add: u c)
  qed
qed

lemma build_transfer_chain:
  assumes ok: "pool_ok (drv s)" "td_pool_used (drv s) = 0" and len: "len \<le> 496" and m: "m = (len + 7) div 8"
  shows "\<exists>s'. build_transfer addr dir_in ls sb db len s = (Some (td_at (drv s) 0, td_at (drv s) (Suc m)), s') \<and>
    drv s' = set_used (Suc (Suc m)) (drv s) \<and> (\<forall>t\<le>m. fld s' t 0 = link_to (drv s) (Suc t)) \<and> fld s' (Suc m) 0 = TD_LINK_TERMINATE \<and>
    make_packet (fld s' 0 1) (fld s' 0 2) (fld s' 0 3) = make_packet (td_active ls) (TD_TOKEN TD_PID_SETUP addr 0 0 8) (ucast sb) \<and>
    (\<forall>t\<in>{1..m}. \<forall>f\<in>{1,2,3}. fld s' t f = data_fields addr dir_in ls db len (t - 1) f) \<and>
    fld s' (Suc m) 1 = td_active ls OR TD_STATUS_IOC \<and>
    fld s' (Suc m) 2 = TD_TOKEN_ZLENGTH (if dir_in then TD_PID_OUT else TD_PID_IN) addr 0 1 \<and> fld s' (Suc m) 3 = 0"
proof -
  have m63: "Suc m < 64" using len m by simp
  obtain s1 where s1: "alloc_td s = (td_at (drv s) 0, s1)" "td_at (drv s) 0 \<noteq> 0" "drv s1 = set_used (Suc 0) (drv s)"
    "\<And>t f. t < 64 \<Longrightarrow> f < 4 \<Longrightarrow> fld s1 t f = (if t = 0 then (if f = 0 then TD_LINK_TERMINATE else 0) else fld s t f)"
    by (rule alloc_td_ok[OF ok]) auto
  let ?t = "td_at (drv s) 0"
  define s2 where "s2 = store (?t + td_buffer) (ucast sb) (store (?t + td_token) (TD_TOKEN TD_PID_SETUP addr 0 0 8)
    (store (?t + td_ctrl_status) (td_active ls) s1))"
  have d2: "drv s2 = set_used (Suc 0) (drv s)" by (simp add: s2_def s1(3))
  have f2: "fld s2 0 0 = TD_LINK_TERMINATE" "fld s2 0 1 = td_active ls" "fld s2 0 2 = TD_TOKEN TD_PID_SETUP addr 0 0 8" "fld s2 0 3 = ucast sb"
    unfolding s2_def by (simp_all add: fld_store_simps s1(3,4) del: One_nat_def)
  obtain s3 where s3: "data_tds addr dir_in ls db len 0 1 ?t s2 = (Some (td_at (drv s) m), s3)" "drv s3 = set_used (Suc m) (drv s)"
    "\<And>t f. t < 64 \<Longrightarrow> f < 4 \<Longrightarrow> fld s3 t f = (if f = 0 \<and> t < m then link_to (drv s) (Suc t) else if f = 0 \<and> t = m then TD_LINK_TERMINATE
       else if 0 < f \<and> 0 < t \<and> t \<le> m then data_fields addr dir_in ls db len (t - 1) f else fld s2 t f)"
    using data_tds_chain[of s2 0 m len addr dir_in ls db] ok m m63 f2(1) unfolding d2 by auto
  obtain s4 where s4: "alloc_td s3 = (td_at (drv s) (Suc m), s4)" "td_at (drv s) (Suc m) \<noteq> 0" "drv s4 = set_used (Suc (Suc m)) (drv s)"
    "\<And>t f. t < 64 \<Longrightarrow> f < 4 \<Longrightarrow> fld s4 t f = (if t = Suc m then (if f = 0 then TD_LINK_TERMINATE else 0) else fld s3 t f)"
    by (rule alloc_td_ok[of s3 "Suc m"]) (use ok m63 s3(2) in auto)
  let ?u = "td_at (drv s) (Suc m)"
  define s5 where "s5 = store (td_at (drv s) m + td_link) (link_to (drv s) (Suc m)) (store (?u + td_buffer) 0
    (store (?u + td_token) (TD_TOKEN_ZLENGTH (if dir_in then TD_PID_OUT else TD_PID_IN) addr 0 1)
      (store (?u + td_ctrl_status) (td_active ls OR TD_STATUS_IOC) s4)))"
  have run: "build_transfer addr dir_in ls sb db len s = (Some (?t, ?u), s5)"
    unfolding build_transfer_def s1(1) prod.case Let_def s2_def[symmetric] s3(1) option.case s4(1) link_to_def[symmetric]
    using s1(2) s4(2) by (simp add: s5_def link_to_def)
  have f5: "fld s5 t f = (if t = m \<and> f = 0 then link_to (drv s) (Suc m) else if t = Suc m \<and> f = 3 then 0
      else if t = Suc m \<and> f = 2 then TD_TOKEN_ZLENGTH (if dir_in then TD_PID_OUT else TD_PID_IN) addr 0 1
      else if t = Suc m \<and> f = 1 then td_active ls OR TD_STATUS_IOC else fld s4 t f)" if "t < 64" "f < 4" for t f
    using that m63 unfolding s5_def by (simp add: fld_store_simps s4(3) del: One_nat_def)
  have "fld s5 0 1 = td_active ls" "fld s5 0 2 = TD_TOKEN TD_PID_SETUP addr 0 0 8" "fld s5 0 3 = ucast sb"
    by (simp_all add: f5 s4(4) s3(3) f2 del: One_nat_def)
  moreover have "fld s5 t 0 = link_to (drv s) (Suc t)" if "t \<le> m" for t
    using that m63 by (auto simp: f5 s4(4) s3(3))
  moreover have "fld s5 (Suc m) 0 = TD_LINK_TERMINATE" using m63 by (simp add: f5 s4(4))
  moreover have "fld s5 t f = data_fields addr dir_in ls db len (t - 1) f" if "t \<in> {1..m}" "f \<in> {1,2,3}" for t f
    using that m63 by (auto simp: f5 s4(4) s3(3))
  moreover have "fld s5 (Suc m) 1 = td_active ls OR TD_STATUS_IOC"
    "fld s5 (Suc m) 2 = TD_TOKEN_ZLENGTH (if dir_in then TD_PID_OUT else TD_PID_IN) addr 0 1" "fld s5 (Suc m) 3 = 0"
    using m63 by (simp_all add: f5)
  moreover have "drv s5 = set_used (Suc (Suc m)) (drv s)" by (simp add: s5_def s4(3))
  ultimately show ?thesis using run by (intro exI[of _ s5]) simp
qed

lemma build_transfer_exhausted: "td_pool_used (drv s) = 0 \<Longrightarrow> 496 < len \<Longrightarrow> fst (build_transfer addr dir_in ls sb db len s) = None"
proof -
  assume a: "td_pool_used (drv s) = 0" "496 < len"
  obtain d s1 where s1: "alloc_td s = (d, s1)" by (cases "alloc_td s")
  then have u1: "td_pool_used (drv s1) = Suc 0" using a by (auto simp: alloc_td_def Let_def upd_drv_def)
  define s2 where "s2 = store (d + td_buffer) (ucast sb) (store (d + td_token) (TD_TOKEN TD_PID_SETUP addr 0 0 8)
    (store (d + td_ctrl_status) (td_active ls) s1))"
  obtain r s3 where s3: "data_tds addr dir_in ls db len 0 1 d s2 = (r, s3)" by (cases "data_tds addr dir_in ls db len 0 1 d s2")
  have "alloc_td s3 = (0, s3)" if "r = Some p" for p
    using data_tds_used[OF s3[unfolded that]] a u1 by (intro alloc_td_full) (simp add: s2_def)
  then show ?thesis
    unfolding build_transfer_def s1 prod.case Let_def s2_def[symmetric] s3 by (auto split: option.splits)
qed

text \<open>
  C38 (refinement): the driver hands the controller exactly the packets of a control transfer.  When the pool is in the
  memory a descriptor can point to and the data fits the descriptors (496 bytes), the builder succeeds, and the
  controller, following the links in memory from the first descriptor with the address and field layout
  of the hardware, finds the request, then the data cut into packets of at most 8 bytes with alternating toggles and
  consecutive buffers, and then the empty packet of the other direction, all active, and then the end of
  the chain; the last descriptor is the one whose completion the driver waits for.  Longer data is refused.
\<close>

theorem build_transfer_refines:
  assumes "pool_ok (drv s)" "td_pool_used (drv s) = 0" "unat addr < 128"
  shows "if len \<le> 496
    then \<exists>first last s'. build_transfer addr dir_in low_speed setup_buf data_buf len s = (Some (first, last), s') \<and>
      packets_from 65 (td_phys first) s' = control_packets addr dir_in low_speed setup_buf data_buf len \<and>
      packets_from 65 (td_phys last) s' = [List.last (control_packets addr dir_in low_speed setup_buf data_buf len)]
    else fst (build_transfer addr dir_in low_speed setup_buf data_buf len s) = None"
proof (cases "len \<le> 496")
  case True
  define m where "m = (len + 7) div 8"
  obtain s' where s': "build_transfer addr dir_in low_speed setup_buf data_buf len s = (Some (td_at (drv s) 0, td_at (drv s) (Suc m)), s')"
    "drv s' = set_used (Suc (Suc m)) (drv s)" "\<And>t. t \<le> m \<Longrightarrow> fld s' t 0 = link_to (drv s) (Suc t)" "fld s' (Suc m) 0 = TD_LINK_TERMINATE"
    "make_packet (fld s' 0 1) (fld s' 0 2) (fld s' 0 3) = make_packet (td_active low_speed) (TD_TOKEN TD_PID_SETUP addr 0 0 8) (ucast setup_buf)"
    "\<And>t f. t \<in> {1..m} \<Longrightarrow> f \<in> {1,2,3} \<Longrightarrow> fld s' t f = data_fields addr dir_in low_speed data_buf len (t - 1) f"
    "fld s' (Suc m) 1 = td_active low_speed OR TD_STATUS_IOC"
    "fld s' (Suc m) 2 = TD_TOKEN_ZLENGTH (if dir_in then TD_PID_OUT else TD_PID_IN) addr 0 1" "fld s' (Suc m) 3 = 0"
    using build_transfer_chain[OF assms(1,2) True m_def, of addr dir_in low_speed setup_buf data_buf] by blast
  let ?P = "\<lambda>t. make_packet (fld s' t 1) (fld s' t 2) (fld s' t 3)"
  have m63: "Suc m < 64" using True m_def by simp
  have ok: "pool_ok (drv s')" "td_at (drv s') i = td_at (drv s) i" "link_to (drv s') i = link_to (drv s) i" for i
    using assms(1) s'(2) by simp_all
  have chain: "packets_from 65 (td_phys (td_at (drv s) i)) s' = map ?P [i..<Suc (Suc m)]" if "i \<le> Suc m" for i
    by (rule packets_chain[OF ok(1) m63]) (use that m63 link_address[OF assms(1), of i] s'(3,4) ok in auto)
  have active: "bit (td_active low_speed OR v) 23" for v by (rule td_active_bits)
  have ls: "bit (td_active low_speed) 26 = low_speed" "bit (td_active low_speed OR TD_STATUS_IOC) 26 = low_speed"
    "bit (td_active low_speed OR (if dir_in then TD_STATUS_SPD else 0)) 26 = low_speed" "bit (td_active low_speed) 23"
    using td_active_bits(2)[of 0 low_speed] td_active_bits(2)[of TD_STATUS_IOC low_speed] active[of 0]
      td_active_bits(2)[of "if dir_in then TD_STATUS_SPD else 0" low_speed] by auto
  define packet where "packet = (\<lambda>pid toggle n buf. \<lparr>pk_pid = pid, pk_addr = ucast addr, pk_endp = 0, pk_toggle = toggle, pk_len = n,
    pk_buffer = ucast (buf :: u64), pk_active = True, pk_low_speed = low_speed\<rparr> :: usb_packet)"
  have first: "?P 0 = packet TD_PID_SETUP False 8 setup_buf"
    unfolding s'(5) using token_make[OF assms(3), of 8 TD_PID_SETUP "td_active low_speed" False] ls by (simp add: packet_def)
  have data: "?P (Suc i) = packet (if dir_in then TD_PID_IN else TD_PID_OUT) (even i) (min (len - 8 * i) 8) (data_buf + of_nat (8 * i))" if "i < m" for i
    using that s'(6)[of "Suc i" 1] s'(6)[of "Suc i" 2] s'(6)[of "Suc i" 3] token_make[OF assms(3), of "min (len - 8 * i) 8"] active ls
    unfolding data_fields_def packet_def m_def by (simp del: One_nat_def)
  have status: "?P (Suc m) = packet (if dir_in then TD_PID_OUT else TD_PID_IN) True 0 0"
    unfolding s'(7,8,9) using token_make_zero[OF assms(3)] active ls by (simp add: packet_def)
  have cp: "control_packets addr dir_in low_speed setup_buf data_buf len = packet TD_PID_SETUP False 8 setup_buf
      # map (\<lambda>i. packet (if dir_in then TD_PID_IN else TD_PID_OUT) (even i) (min (len - 8 * i) 8) (data_buf + of_nat (8 * i))) [0..<m]
      @ [packet (if dir_in then TD_PID_OUT else TD_PID_IN) True 0 0]"
    by (simp add: control_packets_def packet_def m_def)
  have "map ?P [0..<Suc (Suc m)] = control_packets addr dir_in low_speed setup_buf data_buf len"
  proof -
    have "[0..<Suc (Suc m)] = 0 # map Suc [0..<m] @ [Suc m]" by (simp add: map_Suc_upt upt_conv_Cons)
    then have "map ?P [0..<Suc (Suc m)] = ?P 0 # map (\<lambda>i. ?P (Suc i)) [0..<m] @ [?P (Suc m)]" by (simp only: list.map map_append map_map o_def)
    also have "map (\<lambda>i. ?P (Suc i)) [0..<m] = map (\<lambda>i. packet (if dir_in then TD_PID_IN else TD_PID_OUT) (even i) (min (len - 8 * i) 8) (data_buf + of_nat (8 * i))) [0..<m]"
      by (rule map_cong[OF refl]) (simp only: data set_upt atLeastLessThan_iff)
    finally show ?thesis unfolding first status cp .
  qed
  moreover have "map ?P [Suc m..<Suc (Suc m)] = [List.last (control_packets addr dir_in low_speed setup_buf data_buf len)]"
    by (simp add: cp status[unfolded One_nat_def])
  ultimately show ?thesis using True s'(1) chain[of 0] chain[of "Suc m"] by auto
next
  case False
  then show ?thesis using build_transfer_exhausted[OF assms(2)] by simp
qed

definition sample_driver :: uhci where
  "sample_driver = \<lparr>io_base = 0xC040, uhci_active = True, dma_pool = 0x200000, dma_pool_offset = 2080, dma_pool_size = 4096,
     td_pool = 0x200000, td_pool_used = 0, frame_list = 0x201000, ctrl_qh = 0x200800, intr_qh = 0x200810,
     mouse_found = False, hid_type = 0, mouse_addr = 0, mouse_endp = 0, mouse_low_speed = False, mouse_max_pkt = 0,
     mouse_data_toggle = 0, mouse_td = 0, mouse_buf = 0, next_usb_addr = 1, poll_count = 0, complete_count = 0, err_count = 0,
     data_count = 0\<rparr>"

theorem build_transfer_refines_witness:
  "\<forall>m :: machine. \<exists>first last s'. build_transfer 1 True True 0x200820 0x200830 18 \<lparr>drv = sample_driver, dev = (), ram = m\<rparr> = (Some (first, last), s') \<and>
    map pk_len (packets_from 65 (td_phys first) s') = [8, 8, 8, 2, 0] \<and>
    map pk_toggle (packets_from 65 (td_phys first) s') = [False, True, False, True, True]"
proof
  fix m :: machine
  let ?s = "\<lparr>drv = sample_driver, dev = (), ram = m\<rparr>"
  obtain first last s' where b: "build_transfer 1 True True 0x200820 0x200830 18 ?s = (Some (first, last), s')"
    "packets_from 65 (td_phys first) s' = control_packets 1 True True 0x200820 0x200830 18"
    using build_transfer_refines [of ?s 1 18 True True "0x200820" "0x200830"] by (auto simp: sample_driver_def pool_ok_def)
  have "[0..<3] = [0, 1, 2::nat]" by (simp add: upt_rec)
  with b show "\<exists>first last s'. build_transfer 1 True True 0x200820 0x200830 18 ?s = (Some (first, last), s') \<and>
    map pk_len (packets_from 65 (td_phys first) s') = [8, 8, 8, 2, 0] \<and>
    map pk_toggle (packets_from 65 (td_phys first) s') = [False, True, False, True, True]"
    by (simp add: control_packets_def)
qed

end
