(* ===== verification/Uhci_Poll.thy ===== *)
theory Uhci_Poll
  imports Uhci_Transfer
begin

text \<open>
  The polling of the mouse or tablet: what a poll makes of a completed transfer, and that it leaves the transfer
  descriptor armed for the next one.
\<close>

section \<open>Disjoint regions\<close>

definition apart :: "u64 \<Rightarrow> nat \<Rightarrow> u64 \<Rightarrow> nat \<Rightarrow> bool" where
  "apart a n b k \<longleftrightarrow> n \<le> unat (b - a) \<and> k \<le> unat (a - b)"

lemma apart_sym: "apart a n b k = apart b k a n"
  by (auto simp: apart_def)

lemma apart_part:
  assumes "apart a n b k" "i + n' \<le> n" "j + k' \<le> k" "0 < n'" "0 < k'"
  shows "apart (a + of_nat i) n' (b + of_nat j) k'"
proof -
  have ne: "a \<noteq> b" using assms by (auto simp: apart_def)
  define d where "d = unat (b - a)"
  define e where "e = unat (a - b)"
  have "e < 2 ^ 64" using unsigned_less[of "a - b"] by (simp add: e_def)
  moreover have "0 < e" using ne by (simp add: e_def unat_gt_0)
  moreover have "d = 2 ^ 64 - e" unfolding d_def e_def by (rule unat_opposite[OF ne])
  ultimately have d: "n \<le> d" "d + k \<le> 2 ^ 64" "d < 2 ^ 64"
    using assms(1) by (auto simp: apart_def d_def[symmetric] e_def[symmetric])
  have "b + of_nat j - (a + of_nat i) = (b - a) + of_nat j - of_nat i" by simp
  also have "b - a = of_nat d" by (simp add: d_def)
  also have "of_nat d + of_nat j - (of_nat i :: u64) = of_nat (d + j - i)" using assms(2) d by (simp add: of_nat_diff)
  finally have u: "unat (b + of_nat j - (a + of_nat i)) = d + j - i"
    using assms(2,3,5) d by (simp only: unat_of_nat) simp
  have "d + j - i > 0" using assms(2,4) d by simp
  then have "a + of_nat i \<noteq> b + of_nat j" using u by auto
  from unat_opposite[OF this[symmetric]] have "unat (a + of_nat i - (b + of_nat j)) = 2 ^ 64 - (d + j - i)"
    unfolding u .
  moreover have "n' \<le> d + j - i" using assms(2) d by linarith
  moreover have "k' \<le> 2 ^ 64 - (d + j - i)" using assms(3) d by linarith
  ultimately show ?thesis using u by (simp only: apart_def)
qed

lemma get_dword_apart: "apart a 4 b n \<Longrightarrow> 0 < n \<Longrightarrow> get_dword a (put_run b n g m) = get_dword a m"
  by (rule get_put_apart) (simp_all add: apart_def)

lemma get_dword_put_apart: "apart a 4 b 4 \<Longrightarrow> get_dword a (put_dword b v m) = get_dword a m"
  by (rule get_put_dword_apart) (simp_all add: apart_def)

lemma get_byte_put_apart: "apart a (Suc 0) b 4 \<Longrightarrow> get_byte a (put_dword b v m) = get_byte a m"
  by (simp add: put_dword_def put_bytes_run get_byte_put_run apart_def)

section \<open>Output leaves memory and driver alone\<close>

definition same_but_dev :: "('d, 'a) usb \<Rightarrow> ('d, 'a) usb \<Rightarrow> bool" where
  "same_but_dev s t \<longleftrightarrow> drv s = drv t \<and> ram s = ram t"

lemma dbg_fields [simp]:
  "drv (dbg_char hw c s) = drv s" "ram (dbg_char hw c s) = ram s" "drv (dbg_str hw str s) = drv s" "ram (dbg_str hw str s) = ram s"
  "drv (dbg_hex8 hw b s) = drv s" "ram (dbg_hex8 hw b s) = ram s" "drv (dbg_hex16 hw w s) = drv s" "ram (dbg_hex16 hw w s) = ram s"
  "drv (dbg_hex32 hw d s) = drv s" "ram (dbg_hex32 hw d s) = ram s"
proof -
  have c: "drv (dbg_char hw c s) = drv s \<and> ram (dbg_char hw c s) = ram s" for c s by (simp add: dbg_char_def upd_dev_def)
  have "drv (fold (dbg_char hw) xs s) = drv s \<and> ram (fold (dbg_char hw) xs s) = ram s" for xs
    by (induction xs arbitrary: s) (simp_all add: c)
  then show "drv (dbg_str hw str s) = drv s" "ram (dbg_str hw str s) = ram s" by (simp_all add: dbg_str_def)
  show "drv (dbg_char hw c s) = drv s" "ram (dbg_char hw c s) = ram s"
    "drv (dbg_hex8 hw b s) = drv s" "ram (dbg_hex8 hw b s) = ram s" "drv (dbg_hex16 hw w s) = drv s" "ram (dbg_hex16 hw w s) = ram s"
    "drv (dbg_hex32 hw d s) = drv s" "ram (dbg_hex32 hw d s) = ram s"
    by (simp_all add: c dbg_hex8_def dbg_hex16_def dbg_hex32_def)
qed

lemma log_fields [simp]:
  "drv (log_stats hw st s) = drv s" "ram (log_stats hw st s) = ram s" "drv (log_status hw msg st s) = drv s" "ram (log_status hw msg st s) = ram s"
  "drv (log_tablet hw x y b s) = drv s" "ram (log_tablet hw x y b s) = ram s" "drv (log_mouse hw dx dy b s) = drv s" "ram (log_mouse hw dx dy b s) = ram s"
  "drv (log_raw hw n bs s) = drv s" "ram (log_raw hw n bs s) = ram s"
proof -
  have "drv (fold (\<lambda>b s. dbg_hex8 hw b (dbg_char hw 32 s)) xs s) = drv s \<and> ram (fold (\<lambda>b s. dbg_hex8 hw b (dbg_char hw 32 s)) xs s) = ram s" for xs s
    by (induction xs arbitrary: s) simp_all
  then show "drv (log_raw hw n bs s) = drv s" "ram (log_raw hw n bs s) = ram s" by (simp_all add: log_raw_def Let_def)
qed (simp_all add: log_stats_def log_status_def log_tablet_def log_mouse_def Let_def)

lemma upd_drv_fields [simp]: "drv (upd_drv g s) = g (drv s)" "ram (upd_drv g s) = ram s"
  by (simp_all add: upd_drv_def)

lemma store_ram [simp]: "ram (store a v s) = put_dword a v (ram s)"
  by (simp add: store_def)

section \<open>Rearming\<close>

text \<open>Descriptor, buffer and queue element do not overlap, and the device has a proper address and packet size.\<close>

definition poll_ok :: "uhci \<Rightarrow> bool" where
  "poll_ok u \<longleftrightarrow> apart (mouse_td u) 16 (mouse_buf u) 8 \<and> apart (mouse_td u) 16 (intr_qh u) 8 \<and> apart (mouse_buf u) 8 (intr_qh u) 8 \<and>
     unat (mouse_addr u) < 128 \<and> unat (mouse_endp u) < 16 \<and> 0 < mouse_max_pkt u"

lemma resubmit_fields [simp]: "drv (resubmit s) = drv s"
  by (simp add: resubmit_def Let_def)

text \<open>Armed: the packet the controller finds, an empty buffer and the queue pointing to the descriptor.\<close>

definition armed :: "('d, 'a) usb \<Rightarrow> bool" where
  "armed s \<longleftrightarrow> (let u = drv s in
     packet_at (mouse_td u) s = \<lparr>pk_pid = TD_PID_IN, pk_addr = ucast (mouse_addr u), pk_endp = ucast (mouse_endp u),
        pk_toggle = bit (mouse_data_toggle u) 0, pk_len = min 8 (unat (mouse_max_pkt u)),
        pk_buffer = get_dword (mouse_td u + 12) (ram s), pk_active = True, pk_low_speed = mouse_low_speed u\<rparr> \<and>
     (\<forall>i<8. get_byte (mouse_buf u + of_nat i) (ram s) = 0) \<and>
     get_dword (intr_qh u + qh_element) (ram s) = td_phys (mouse_td u))"

lemma td_active_status: "bit (td_active ls) 23" "bit (td_active ls) 26 = ls"
  using td_active_bits(1)[of ls 0] td_active_bits(2)[of 0 ls] by simp_all

lemma mouse_token_packet:
  assumes "unat (mouse_addr u) < 128" "unat (mouse_endp u) < 16" "0 < mouse_max_pkt u" "unat (mouse_data_toggle u) < 2"
  shows "make_packet (td_active ls) (mouse_token u) buf = \<lparr>pk_pid = TD_PID_IN, pk_addr = ucast (mouse_addr u), pk_endp = ucast (mouse_endp u),
        pk_toggle = bit (mouse_data_toggle u) 0, pk_len = min 8 (unat (mouse_max_pkt u)), pk_buffer = buf, pk_active = True, pk_low_speed = ls\<rparr>"
proof -
  have m: "(if unat (mouse_max_pkt u) > 8 then 8 else unat (mouse_max_pkt u)) = min 8 (unat (mouse_max_pkt u))" by auto
  have "0 < unat (mouse_max_pkt u)" using assms(3) by (simp add: unat_gt_0 word_greater_zero_iff)
  then show ?thesis
    unfolding mouse_token_def m using assms by (subst token_make_endp) (simp_all add: td_active_status)
qed

text \<open>The stores of a resubmission; the link is reset after a success only.\<close>

lemma rearm:
  assumes ok: "poll_ok (drv s)" "unat (mouse_data_toggle (drv s)) < 2"
    and t: "t = resubmit s \<or> t = store (mouse_td (drv s) + td_link) TD_LINK_TERMINATE (resubmit s)"
  defines "r \<equiv> store (intr_qh (drv s) + qh_element) (td_phys (mouse_td (drv s))) t"
  shows "armed r" "machine.more (ram r) = machine.more (ram s)"
    "get_dword (mouse_td (drv s) + 12) (ram r) = get_dword (mouse_td (drv s) + 12) (ram s)" "drv r = drv s"
proof -
  let ?td = "mouse_td (drv s)" and ?buf = "mouse_buf (drv s)" and ?qh = "intr_qh (drv s)"
  have apt: "apart ?td 16 ?buf 8" "apart ?td 16 ?qh 8" "apart ?buf 8 ?qh 8"
    using ok by (auto simp: poll_ok_def)
  have q: "apart (?td + 4) 4 (?qh + 4) 4" "apart (?td + 8) 4 (?qh + 4) 4" "apart (?td + 12) 4 (?qh + 4) 4"
    using apart_part[OF apt(2), of 4 4 4 4] apart_part[OF apt(2), of 8 4 4 4] apart_part[OF apt(2), of 12 4 4 4] by simp_all
  have b: "apart (?td + 4) 4 ?buf 8" "apart (?td + 8) 4 ?buf 8" "apart (?td + 12) 4 ?buf 8"
    using apart_part[OF apt(1), of 4 4 0 8] apart_part[OF apt(1), of 8 4 0 8] apart_part[OF apt(1), of 12 4 0 8] by simp_all
  have f: "apart (?td + 4) 4 (?td + 8) 4" "apart (?td + 12) 4 (?td + 8) 4" "apart (?td + 12) 4 (?td + 4) 4"
    "apart (?td + 4) 4 ?td 4" "apart (?td + 8) 4 ?td 4" "apart (?td + 12) 4 ?td 4"
    by (simp_all add: apart_def)
  have y: "apart (?buf + of_nat i) (Suc 0) (?td + 4) 4" "apart (?buf + of_nat i) (Suc 0) (?td + 8) 4" "apart (?buf + of_nat i) (Suc 0) ?td 4"
    "apart (?buf + of_nat i) (Suc 0) (?qh + 4) 4" if "i < 8" for i
    using that apart_part[OF apt(1)[unfolded apart_sym[of ?td]], of i "Suc 0" 4 4] apart_part[OF apt(1)[unfolded apart_sym[of ?td]], of i "Suc 0" 8 4]
      apart_part[OF apt(1)[unfolded apart_sym[of ?td]], of i "Suc 0" 0 4] apart_part[OF apt(3), of i "Suc 0" 4 4] by simp_all
  note G = get_put_dword get_dword_put_apart get_dword_apart get_byte_put_apart
  define m where "m = put_run ?buf 8 (\<lambda>i. replicate 8 0 ! i) (ram s)"
  have m: "put_bytes ?buf (replicate 8 0) (ram s) = m" by (simp add: m_def put_bytes_run)
  have z: "get_byte (?buf + of_nat i) m = 0" if "i < 8" for i
    using that by (simp add: m_def get_byte_put_run unat_of_nat_small)
  have d: "drv r = drv s" using t by (auto simp: r_def)
  have u: "get_dword (?td + 12) m = get_dword (?td + 12) (ram s)" unfolding m_def by (rule get_dword_apart[OF b(3)]) simp
  have g: "get_dword (?td + 4) (ram r) = td_active (mouse_low_speed (drv s))" "get_dword (?td + 8) (ram r) = mouse_token (drv s)"
    "get_dword (?td + 12) (ram r) = get_dword (?td + 12) (ram s)" "get_dword (?qh + 4) (ram r) = td_phys ?td"
    "\<And>i. i < 8 \<Longrightarrow> get_byte (?buf + of_nat i) (ram r) = 0"
    using t u by (auto simp: r_def resubmit_def Let_def m G q f y z)
  show "drv r = drv s" "get_dword (?td + 12) (ram r) = get_dword (?td + 12) (ram s)" by (rule d, rule g(3))
  show "machine.more (ram r) = machine.more (ram s)"
    using t by (auto simp: r_def resubmit_def Let_def m m_def put_dword_def put_bytes_run)
  show "armed r"
    unfolding armed_def d Let_def packet_at_def g using ok g(3,5) mouse_token_packet[of "drv s"] by (simp add: poll_ok_def)
qed

section \<open>Reports\<close>

text \<open>A tablet coordinate on a screen of \<open>n\<close> pixels.\<close>

definition scaled :: "int \<Rightarrow> int \<Rightarrow> int" where
  "scaled n v = min (max 0 (n - 1)) (v * max 0 (n - 1) div 32767)"

definition small_screen :: "fbuf \<Rightarrow> bool" where
  "small_screen f \<longleftrightarrow> fb_width f \<le> 32768 \<and> fb_height f \<le> 32768"

lemma fits_scaled: "0 \<le> v \<Longrightarrow> v \<le> 65535 \<Longrightarrow> 0 \<le> n \<Longrightarrow> n \<le> 32767 \<Longrightarrow> fits_int (v * n)"
proof -
  assume a: "0 \<le> v" "v \<le> 65535" "0 \<le> n" "n \<le> 32767"
  have "0 \<le> v * n" "v * n \<le> 65535 * 32767" using a by (simp, intro mult_mono) simp_all
  then show ?thesis unfolding fits_int_def by simp
qed

lemma update_absolute_spec:
  assumes inv: "mouse_inv f m" and scr: "small_screen f" and ax: "0 \<le> ax" "ax \<le> 65535" and ay: "0 \<le> ay" "ay \<le> 65535"
  defines "x \<equiv> scaled (fb_width f) ax" and "y \<equiv> scaled (fb_height f) ay"
  shows "\<exists>m'. mouse_update_absolute f ax ay 32767 32767 bs m = Done m' \<and> mouse_inv f m' \<and> mouse_x m' = x \<and> mouse_y m' = y \<and>
    mouse_buttons m' = bs \<and>
    mouse_contents m' = take 63 (mouse_contents m @ update_events (x \<noteq> mouse_x m \<or> y \<noteq> mouse_y m) bs (moved_to x y m))"
proof -
  define w where "w = (if fb_width f \<le> 0 then 1 else fb_width f)"
  define h where "h = (if fb_height f \<le> 0 then 1 else fb_height f)"
  have wh: "w - 1 = max 0 (fb_width f - 1)" "h - 1 = max 0 (fb_height f - 1)" "0 \<le> w - 1" "w - 1 \<le> 32767" "0 \<le> h - 1" "h - 1 \<le> 32767"
    using scr by (auto simp: w_def h_def small_screen_def)
  have fit: "fits_int (ax * (w - 1))" "fits_int (ay * (h - 1))" using fits_scaled ax ay wh by auto
  have sd: "(v * n) sdiv 32767 = v * n div 32767" "0 \<le> v * n div 32767" if "0 \<le> v" "0 \<le> n" for v n :: int
    using that by (simp_all add: signed_divide_int_def zdiv_int zero_le_mult_iff sgn_if pos_imp_zdiv_nonneg_iff)
  have cx: "(let v = ax * (w - 1) sdiv 32767; v = (if v < 0 then 0 else v) in if v \<ge> w then w - 1 else v) = x"
    using sd[OF ax(1) wh(3)] by (auto simp: x_def scaled_def wh(1)[symmetric] Let_def min_def)
  have cy: "(let v = ay * (h - 1) sdiv 32767; v = (if v < 0 then 0 else v) in if v \<ge> h then h - 1 else v) = y"
    using sd[OF ay(1) wh(5)] by (auto simp: y_def scaled_def wh(2)[symmetric] Let_def min_def)
  define moved where "moved = (x \<noteq> mouse_x m \<or> y \<noteq> mouse_y m)"
  have mt: "\<not> moved \<Longrightarrow> moved_to x y m = m" by (simp add: moved_def moved_to_def)
  have run: "mouse_update_absolute f ax ay 32767 32767 bs m =
      Done (update_buttons bs (if moved then mouse_queue_event (move_event bs (moved_to x y m)) (moved_to x y m) else moved_to x y m))"
    using fit mt cx cy unfolding mouse_update_absolute_def w_def[symmetric] h_def[symmetric] Let_def moved_def[symmetric]
    by (auto simp: moved_def moved_to_def)
  have q: "mouse_queue_inv (moved_to x y m)" using inv by (simp add: mouse_inv_def moved_to_def)
  have "0 \<le> x" "0 \<le> y" "x \<le> max 0 (fb_width f - 1)" "y \<le> max 0 (fb_height f - 1)"
    using sd(2)[OF ax(1) wh(3)] sd(2)[OF ay(1) wh(5)] wh by (auto simp: x_def y_def scaled_def)
  with update_spec[OF q refl] inv show ?thesis
    unfolding run moved_def[symmetric] by (simp add: mouse_inv_def moved_to_def)
qed

text \<open>
  What a report of \<open>len\<close> bytes \<open>r\<close> does to the pointer: a tablet gives the position, a mouse the movement; a report that
  is too short changes nothing.
\<close>

definition pointer_at :: "fbuf \<Rightarrow> int \<Rightarrow> int \<Rightarrow> bool \<Rightarrow> u8 \<Rightarrow> mouse \<Rightarrow> mouse \<Rightarrow> bool" where
  "pointer_at f x y moved bs p p' \<longleftrightarrow> mouse_inv f p' \<and> mouse_x p' = x \<and> mouse_y p' = y \<and> mouse_buttons p' = bs \<and>
     mouse_contents p' = take 63 (mouse_contents p @ update_events moved bs (moved_to x y p))"

definition reported :: "fbuf \<Rightarrow> nat \<Rightarrow> (nat \<Rightarrow> u8) \<Rightarrow> nat \<Rightarrow> mouse \<Rightarrow> mouse \<Rightarrow> bool" where
  "reported f kind r len p p' \<longleftrightarrow>
     (if kind = HID_TYPE_TABLET \<and> 6 \<le> len
      then let x = scaled (fb_width f) (uint (r 1) + 256 * uint (r 2)); y = scaled (fb_height f) (uint (r 3) + 256 * uint (r 4))
           in pointer_at f x y (x \<noteq> mouse_x p \<or> y \<noteq> mouse_y p) (take_bit 3 (r 0)) p p'
      else if kind = HID_TYPE_MOUSE \<and> 3 \<le> len
      then pointer_at f (clamp (fb_width f) (mouse_x p + sint (r 1))) (clamp (fb_height f) (mouse_y p + sint (r 2)))
             (sint (r 1) \<noteq> 0 \<or> sint (r 2) \<noteq> 0) (take_bit 3 (r 0)) p p'
      else p' = p)"

lemma le_pair: "uint (ucast (a :: u8) OR push_bit 8 (ucast (b :: u8)) :: u16) = uint a + 256 * uint b"
proof -
  have "(ucast a :: u16) AND push_bit 8 (ucast b) = 0"
    by (rule bit_word_eqI) (auto simp: bit_and_iff bit_push_bit_iff bit_unsigned_iff dest: bit_imp_le_length)
  then have "(ucast a :: u16) OR push_bit 8 (ucast b) = ucast a + push_bit 8 (ucast b)" by (simp add: disjunctive_add_eq_or)
  moreover have "uint (ucast a + push_bit 8 (ucast b) :: u16) = uint a + 256 * uint b"
    using uint_bounded[of a] uint_bounded[of b]
    by (simp add: uint_word_ariths push_bit_eq_mult unsigned_ucast_eq take_bit_int_eq_self mult.commute)
  ultimately show ?thesis by simp
qed

lemma low_buttons: "(b :: u8) AND 0x07 = take_bit 3 b"
  by (simp add: take_bit_eq_mask mask_numeral)

lemma handle_report_spec:
  fixes s :: "('d, 'a) usb"
  assumes inv: "mouse_inv f p" and scr: "small_screen f"
  defines "r \<equiv> \<lambda>i. get_byte (mouse_buf (drv s) + of_nat i) (ram s)"
  shows "\<exists>p' s'. handle_report hw f len (p, s) = Done (0 < len, p', s') \<and> mouse_inv f p' \<and> ram s' = ram s \<and>
    drv s' = (if 0 < len then (drv s)\<lparr>data_count := data_count (drv s) + 1\<rparr> else drv s) \<and> reported f (hid_type (drv s)) r len p p'"
proof -
  let ?report = "get_list (mem_bytes (mouse_buf (drv s)) (ram s)) 0 8"
  have n: "?report ! i = r i" if "i < 8" for i using that by (simp add: get_list_def mem_bytes_def r_def)
  have n': "?report ! 0 = r 0" "?report ! Suc 0 = r 1" "?report ! 1 = r 1" "?report ! 2 = r 2" "?report ! 3 = r 3" "?report ! 4 = r 4"
    using n[of 0] n[of 1] n[of 2] n[of 3] n[of 4] by simp_all
  consider (tablet) "hid_type (drv s) = HID_TYPE_TABLET" "6 \<le> len" | (mouse) "hid_type (drv s) = HID_TYPE_MOUSE" "3 \<le> len"
    | (raw) "\<not> (hid_type (drv s) = HID_TYPE_TABLET \<and> 6 \<le> len)" "\<not> (hid_type (drv s) = HID_TYPE_MOUSE \<and> 3 \<le> len)" by blast
  then show ?thesis
  proof cases
    case tablet
    let ?x = "uint (r 1) + 256 * uint (r 2)" and ?y = "uint (r 3) + 256 * uint (r 4)"
    have b: "0 \<le> uint (v :: u8) + 256 * uint (w :: u8)" "uint v + 256 * uint w \<le> 65535" for v w
      using uint_bounded[of v] uint_bounded[of w] by simp_all
    obtain p' where "mouse_update_absolute f ?x ?y 32767 32767 (take_bit 3 (r 0)) p = Done p'"
      "pointer_at f (scaled (fb_width f) ?x) (scaled (fb_height f) ?y)
         (scaled (fb_width f) ?x \<noteq> mouse_x p \<or> scaled (fb_height f) ?y \<noteq> mouse_y p) (take_bit 3 (r 0)) p p'"
      using update_absolute_spec[OF inv scr b b, of "r 1" "r 2" "r 3" "r 4" "take_bit 3 (r 0)"] unfolding pointer_at_def by blast
    then show ?thesis using tablet
      by (simp add: handle_report_def Let_def n' le_pair low_buttons reported_def pointer_at_def)
  next
    case mouse
    then show ?thesis
      using update_relative_spec[OF inv refl, of "sint (r 1)" "sint (r 2)" "take_bit 3 (r 0)"]
      by (simp add: handle_report_def Let_def n' low_buttons reported_def pointer_at_def)
  next
    case raw
    then show ?thesis using inv by (auto simp: handle_report_def Let_def reported_def)
  qed
qed

section \<open>The poll\<close>

text \<open>What follows the reading of the status: \<open>s1\<close> has the poll counted, \<open>s2\<close> the completion as well.\<close>

definition after_status :: "('d, 'a) usb_hw \<Rightarrow> fbuf \<Rightarrow> u32 \<Rightarrow> mouse \<Rightarrow> ('d, 'a) usb \<Rightarrow> ('d, 'a) usb \<Rightarrow> (mouse \<times> ('d, 'a) usb) outcome" where
  "after_status hw f status p s1 s2 =
     (if status AND TD_STATUS_ACTIVE \<noteq> 0 then Done (p, s1)
      else if status AND TD_STATUS_ANY_ERR \<noteq> 0
      then let s = log_status hw ''UHCI ERR st=0x'' status (upd_drv (\<lambda>u. u\<lparr>err_count := err_count u + 1\<rparr>) s2); s = resubmit s
           in Done (p, store (intr_qh (drv s) + qh_element) (td_phys (mouse_td (drv s))) s)
      else case handle_report hw f (unat ((status + 1) AND 0x7FF)) (p, s2) of
        Undef \<Rightarrow> Undef
      | Done (got_data, p, s) \<Rightarrow>
          let s = (if got_data then upd_drv (\<lambda>u. u\<lparr>mouse_data_toggle := mouse_data_toggle u XOR 1\<rparr>) s
                   else if complete_count (drv s) AND 0xFF = 1 then log_status hw ''UHCI NAK st=0x'' status s else s);
              s = resubmit s;
              s = store (mouse_td (drv s) + td_link) TD_LINK_TERMINATE s
          in Done (p, store (intr_qh (drv s) + qh_element) (td_phys (mouse_td (drv s))) s))"

lemma uhci_poll_run:
  fixes s :: "('d, 'a) usb"
  assumes on: "uhci_active (drv s)" "mouse_found (drv s)" "mouse_td (drv s) \<noteq> 0"
  defines "status \<equiv> get_dword (mouse_td (drv s) + td_ctrl_status) (ram s)"
  obtains s1 s2 where
    "ram s1 = ram s" "drv s1 = (drv s)\<lparr>poll_count := poll_count (drv s) + 1\<rparr>"
    "ram s2 = ram s" "drv s2 = (drv s)\<lparr>poll_count := poll_count (drv s) + 1, complete_count := complete_count (drv s) + 1\<rparr>"
    "uhci_poll hw f (p, s) = after_status hw f status p s1 s2"
proof -
  define s1 where "s1 = (let s = upd_drv (\<lambda>u. u\<lparr>poll_count := poll_count u + 1\<rparr>) s
    in if poll_count (drv s) AND 0xFF = 0 then log_stats hw status s else s)"
  have s1: "ram s1 = ram s" "drv s1 = (drv s)\<lparr>poll_count := poll_count (drv s) + 1\<rparr>" by (simp_all add: s1_def Let_def)
  define s2 where "s2 = upd_drv (\<lambda>u. u\<lparr>complete_count := complete_count u + 1\<rparr>) s1"
  have s2: "ram s2 = ram s" "drv s2 = (drv s)\<lparr>poll_count := poll_count (drv s) + 1, complete_count := complete_count (drv s) + 1\<rparr>"
    by (simp_all add: s2_def s1)
  have st: "get_dword (mouse_td (drv (upd_drv (\<lambda>u. u\<lparr>poll_count := poll_count u + 1\<rparr>) s)) + td_ctrl_status)
      (ram (upd_drv (\<lambda>u. u\<lparr>poll_count := poll_count u + 1\<rparr>) s)) = status" by (simp add: status_def)
  show thesis
    by (rule that[OF s1 s2]) (use on in \<open>unfold uhci_poll_def after_status_def Let_def prod.case st s1_def s2_def, simp\<close>)
qed

lemma resubmit_more [simp]: "machine.more (ram (resubmit s)) = machine.more (ram s)" "machine.more (put_dword a v m) = machine.more m"
  by (simp_all add: resubmit_def Let_def put_dword_def put_bytes_run)

lemma uhci_poll_frame:
  assumes inv: "mouse_inv f p" "small_screen f"
  shows "\<exists>p' s'. uhci_poll hw f (p, s) = Done (p', s') \<and> mouse_inv f p' \<and> machine.more (ram s') = machine.more (ram s)"
proof (cases "uhci_active (drv s) \<and> mouse_found (drv s) \<and> mouse_td (drv s) \<noteq> 0")
  case False
  then show ?thesis using inv by (auto simp: uhci_poll_def)
next
  case True
  then have on: "uhci_active (drv s)" "mouse_found (drv s)" "mouse_td (drv s) \<noteq> 0" by auto
  obtain s1 s2 where R: "ram s1 = ram s" "ram s2 = ram s"
    "uhci_poll hw f (p, s) = after_status hw f (get_dword (mouse_td (drv s) + td_ctrl_status) (ram s)) p s1 s2"
    by (rule uhci_poll_run[OF on, of hw f p])
  obtain p' s3 where h: "handle_report hw f (unat ((get_dword (mouse_td (drv s) + td_ctrl_status) (ram s) + 1) AND 0x7FF)) (p, s2) =
      Done (0 < unat ((get_dword (mouse_td (drv s) + td_ctrl_status) (ram s) + 1) AND 0x7FF), p', s3)" "mouse_inv f p'" "ram s3 = ram s2"
    using handle_report_spec[OF inv] by blast
  show ?thesis unfolding R(3) after_status_def Let_def h(1) outcome.case prod.case using inv h(2,3) R(1,2) by auto
qed


text \<open>A mouse that reports a press of the first button and a movement by 5 and -5.\<close>

definition polled_driver :: uhci where
  "polled_driver = sample_driver\<lparr>mouse_found := True, hid_type := 1, mouse_addr := 1, mouse_endp := 1, mouse_max_pkt := 8,
     mouse_td := 0x200840, mouse_buf := 0x200820\<rparr>"

definition polled_screen :: fbuf where
  "polled_screen = \<lparr>fb_addr = 0, fb_w = 1024, fb_h = 768, fb_depth = 32, vram = (\<lambda>_. 0)\<rparr>"

definition polled_mouse :: mouse where
  "polled_mouse = \<lparr>mouse_buffer = (\<lambda>_. undefined), mouse_read_idx = 0, mouse_write_idx = 0, packet = (\<lambda>_. 0), packet_idx = 0,
     mouse_x = 100, mouse_y = 100, mouse_buttons = 0\<rparr>"


end
