(* ===== verification/Isr.thy ===== *)
theory Isr
  imports Uhci_Poll Syscall_Safety Signal_Fork
begin

text \<open>
  The interrupt handlers of \<^verbatim>\<open>kernel/isr.c\<close>, over the state of the whole kernel: the system of the system
  calls, the USB driver and the devices behind the ports.  What the handlers print in text mode goes to the
  memory at \<^verbatim>\<open>0xB8000\<close>.  A handler that kills the running task or halts does not return.
\<close>

section \<open>State\<close>

record 'd board =
  sys :: system
  usb_drv :: uhci
  devices :: 'd

type_synonym 'd board_hw = "('d, unit kernel_ext) usb_hw"

definition upd_kern :: "(kernel \<Rightarrow> kernel) \<Rightarrow> 'd board \<Rightarrow> 'd board" where
  "upd_kern g b = b\<lparr>sys := (sys b)\<lparr>kern := g (kern (sys b))\<rparr>\<rparr>"

section \<open>Text output\<close>

abbreviation VIDEO :: u64 where "VIDEO \<equiv> 0xB8000"
abbreviation SCREEN_WIDTH :: nat where "SCREEN_WIDTH \<equiv> 80"

text \<open>A cell of the screen is two bytes, the character and the colour.\<close>

definition print_at :: "u8 list \<Rightarrow> nat \<Rightarrow> nat \<Rightarrow> u8 \<Rightarrow> 'a machine_scheme \<Rightarrow> 'a machine_scheme" where
  "print_at str x y color m =
     put_bytes (VIDEO + of_nat (2 * (y * SCREEN_WIDTH + x))) (concat (map (\<lambda>c. [c, color]) str)) m"

text \<open>The loop that fills in the digits from the right.\<close>

fun hex_loop :: "nat \<Rightarrow> u64 \<Rightarrow> u8 list \<Rightarrow> u8 list" where
  "hex_loop 0 n ds = ds"
| "hex_loop (Suc i) n ds = hex_loop i (drop_bit 4 n) (hex_digit (ucast (n AND 0xF)) # ds)"

definition print_hex :: "u64 \<Rightarrow> nat \<Rightarrow> nat \<Rightarrow> 'a machine_scheme \<Rightarrow> 'a machine_scheme" where
  "print_hex n x y = print_at (bytes_of ''0x'' @ hex_loop 16 n []) x y 0x0F"

definition exception_names :: "string list" where
  "exception_names =
     [''Division by Zero'', ''Debug'', ''NMI'', ''Breakpoint'', ''Overflow'', ''Bound Range Exceeded'', ''Invalid Opcode'',
      ''Device Not Available'', ''Double Fault'', ''Coprocessor Segment Overrun'', ''Invalid TSS'', ''Segment Not Present'',
      ''Stack Fault'', ''General Protection Fault'', ''Page Fault'', ''Reserved'', ''x87 FPU Error'', ''Alignment Check'',
      ''Machine Check'', ''SIMD Floating Point'', ''Virtualization'', ''Control Protection''] @ replicate 10 ''Reserved''"

section \<open>Exceptions\<close>

datatype after_fault = Task_killed | Halted

text \<open>\<open>cr2\<close> is the register that holds the address of a page fault.\<close>

definition isr_handler :: "u64 \<Rightarrow> u64 \<Rightarrow> kernel \<Rightarrow> after_fault \<times> kernel" where
  "isr_handler cr2 int_no k =
     (case (case sched_current k of None \<Rightarrow> None | Some t \<Rightarrow> if is_user (tasks k t) then Some t else None) of
        Some t \<Rightarrow>
          let k = print_at (bytes_of ''USER FAULT: '') 0 5 0x0C k;
              k = (if int_no < 32 then print_at (bytes_of (exception_names ! unat int_no)) 12 5 0x0C k else k);
              k = print_at (bytes_of ''PID: '') 0 6 0x0E k;
              k = print_hex (task_id (tasks k t)) 5 6 k;
              k = (if int_no = 14 then print_hex cr2 5 7 (print_at (bytes_of ''CR2: '') 0 7 0x0C k) else k)
          in (Task_killed, sched_exit (-1) k)
      | None \<Rightarrow>
          let k = print_at (bytes_of ''EXCEPTION: '') 0 5 0x0C k;
              k = (if int_no < 32 then print_at (bytes_of (exception_names ! unat int_no)) 11 5 0x0C k else k);
              k = print_at (bytes_of ''INT#: '') 0 6 0x0C k;
              k = print_hex int_no 6 6 k;
              k = (if int_no = 14
                   then print_at (bytes_of ''(Faulting address)'') 24 7 0x0E (print_hex cr2 5 7 (print_at (bytes_of ''CR2: '') 0 7 0x0C k))
                   else k)
          in (Halted, k))"

section \<open>Interrupts\<close>

text \<open>The end of an interrupt is announced to the second controller for its interrupts, and to the first one always.\<close>

definition send_eoi :: "'d ports \<Rightarrow> u64 \<Rightarrow> 'd \<Rightarrow> 'd" where
  "send_eoi io int_no d =
     (let d = (if int_no \<ge> 40 then port_out8 io 0xA0 0x20 d else d) in port_out8 io 0x20 0x20 d)"

definition usb_of :: "'d board \<Rightarrow> ('d, unit kernel_ext) usb" where
  "usb_of b = \<lparr>drv = usb_drv b, dev = devices b, ram = kern (sys b)\<rparr>"

definition timer_irq :: "'d board_hw \<Rightarrow> u64 \<Rightarrow> 'd board \<Rightarrow> (u64 \<times> 'd board) outcome option" where
  "timer_irq hw frame b =
     (let b = b\<lparr>sys := (sys b)\<lparr>system_ticks := system_ticks (sys b) + 1\<rparr>\<rparr> in
      case uhci_poll hw (screen (cons (sys b))) (pointer (sys b), usb_of b) of
        Undef \<Rightarrow> Some Undef
      | Done (p, u) \<Rightarrow>
          let b = b\<lparr>sys := (sys b)\<lparr>pointer := p, kern := ram u\<rparr>, usb_drv := drv u, devices := dev u\<rparr>
          in (case sched_tick frame (kern (sys b)) of
                None \<Rightarrow> None
              | Some (frame, k) \<Rightarrow> Some (Done (frame, upd_kern (\<lambda>_. k) b))))"

definition keyboard_irq :: "'d ports \<Rightarrow> 'd board \<Rightarrow> 'd board" where
  "keyboard_irq io b =
     (case port_in8 io 0x60 (devices b) of (scancode, d) \<Rightarrow>
      case keyboard_handle_scancode (\<lambda>pgid sig k. sched_signal_pgid pgid (unat sig) k) (term_state (sys b)) scancode
             (keyb (sys b), kern (sys b)) of (kb, k) \<Rightarrow>
        b\<lparr>sys := (sys b)\<lparr>keyb := kb, kern := k\<rparr>, devices := d\<rparr>)"

definition mouse_irq :: "'d ports \<Rightarrow> 'd board \<Rightarrow> 'd board" where
  "mouse_irq io b =
     (case port_in8 io 0x60 (devices b) of (data_byte, d) \<Rightarrow>
        b\<lparr>sys := (sys b)\<lparr>pointer := mouse_handle_byte (screen (cons (sys b))) data_byte (pointer (sys b))\<rparr>, devices := d\<rparr>)"

definition irq_handler :: "'d board_hw \<Rightarrow> u64 \<Rightarrow> u64 \<Rightarrow> 'd board \<Rightarrow> (u64 \<times> 'd board) outcome option" where
  "irq_handler hw int_no frame b =
     (case (if int_no = 32 then timer_irq hw frame b
            else if int_no = 33 then Some (Done (frame, keyboard_irq (hw_ports hw) b))
            else if int_no = 44 then Some (Done (frame, mouse_irq (hw_ports hw) b))
            else Some (Done (frame, b))) of
        None \<Rightarrow> None
      | Some Undef \<Rightarrow> Some Undef
      | Some (Done (frame, b)) \<Rightarrow> Some (Done (frame, b\<lparr>devices := send_eoi (hw_ports hw) int_no (devices b)\<rparr>)))"

section \<open>Output touches the screen only\<close>

text \<open>The first eight rows of the screen, where the handlers print.\<close>

definition off_screen :: "u64 \<Rightarrow> bool" where
  "off_screen a \<longleftrightarrow> 1280 \<le> unat (a - VIDEO)"

lemma length_cells: "length (concat (map (\<lambda>c. [c, color]) str)) = 2 * length str"
  by (induction str) simp_all

lemma print_at_frame:
  assumes "y * 80 + x + length str \<le> 640"
  shows "machine.more (print_at str x y color m) = machine.more m" "off_screen a \<Longrightarrow> get_byte a (print_at str x y color m) = get_byte a m"
proof -
  define ofs where "ofs = 2 * (y * 80 + x)"
  show "machine.more (print_at str x y color m) = machine.more m" by (simp add: print_at_def put_bytes_run)
  assume a: "off_screen a"
  have lt: "ofs + 2 * length str \<le> 1280" using assms by (simp add: ofs_def)
  then have o: "unat (of_nat ofs :: u64) = ofs" by (simp add: unat_of_nat_small)
  have le: "of_nat ofs \<le> a - VIDEO" using a lt unfolding word_le_nat_alt o by (simp add: off_screen_def)
  have "unat (a - (VIDEO + of_nat ofs)) = unat (a - VIDEO) - ofs"
    using unat_sub[OF le] unfolding o by (simp only: diff_diff_eq[symmetric])
  then have "\<not> unat (a - (VIDEO + of_nat ofs)) < length (concat (map (\<lambda>c. [c, color]) str))"
    unfolding length_cells using a lt unfolding off_screen_def by linarith
  then show "get_byte a (print_at str x y color m) = get_byte a m"
    unfolding print_at_def ofs_def[symmetric] put_bytes_run using lt
    by (subst get_byte_put_run) (simp_all add: length_cells)
qed

lemma length_hex_loop: "length (hex_loop n v ds) = n + length ds"
  by (induction n v ds rule: hex_loop.induct) simp_all

lemma exception_name_length: "n < 32 \<Longrightarrow> length (exception_names ! n) \<le> 27"
proof -
  assume "n < 32"
  then have "exception_names ! n \<in> set exception_names" by (intro nth_mem) (simp add: exception_names_def)
  moreover have "\<forall>s\<in>set exception_names. length s \<le> 27" by (simp add: exception_names_def)
  ultimately show ?thesis by blast
qed

text \<open>All that changed since \<open>m\<close> is on the screen.\<close>

definition screen_only :: "'a machine_scheme \<Rightarrow> 'a machine_scheme \<Rightarrow> bool" where
  "screen_only m m' \<longleftrightarrow> machine.more m' = machine.more m \<and> (\<forall>a. off_screen a \<longrightarrow> get_byte a m' = get_byte a m)"

lemma screen_only_refl: "screen_only m m"
  by (simp add: screen_only_def)

lemma screen_only_print_at: "\<lbrakk>screen_only m m'; y * 80 + x + length str \<le> 640\<rbrakk> \<Longrightarrow> screen_only m (print_at str x y color m')"
  unfolding screen_only_def using print_at_frame[of y x str] by metis

lemma screen_only_print: "\<lbrakk>screen_only m m'; y * 80 + x + length s \<le> 640\<rbrakk> \<Longrightarrow> screen_only m (print_at (bytes_of s) x y color m')"
  by (rule screen_only_print_at) (simp_all only: length_bytes_of)

lemma screen_only_hex: "\<lbrakk>screen_only m m'; y * 80 + x \<le> 600\<rbrakk> \<Longrightarrow> screen_only m (print_hex n x y m')"
  unfolding print_hex_def by (rule screen_only_print_at) (simp_all add: length_hex_loop length_bytes_of del: bytes_of_def)

lemma screen_only_name:
  assumes "screen_only m m'" "(int_no :: u64) < 32" "y * 80 + x \<le> 600"
  shows "screen_only m (print_at (bytes_of (exception_names ! unat int_no)) x y color m')"
  using exception_name_length[of "unat int_no"] assms by (intro screen_only_print) (simp_all add: word_less_nat_alt)

lemma screen_only_if: "\<lbrakk>c \<Longrightarrow> screen_only m a; \<not> c \<Longrightarrow> screen_only m b\<rbrakk> \<Longrightarrow> screen_only m (if c then a else b)"
  by simp

lemmas screen_only_intros = screen_only_hex screen_only_name screen_only_print screen_only_if screen_only_refl

section \<open>Faults\<close>

text \<open>What a fault prints, and then kills the task or halts.\<close>

lemma isr_handler_spec:
  "\<exists>k1. screen_only k k1 \<and> isr_handler cr2 int_no k =
     (if \<exists>t. current k = Some t \<and> is_user (tasks k t) then (Task_killed, sched_exit (-1) k1) else (Halted, k1))"
proof (cases "\<exists>t. current k = Some t \<and> is_user (tasks k t)")
  case True
  then obtain t where t: "current k = Some t" "is_user (tasks k t)" by blast
  have "\<exists>k1. screen_only k k1 \<and> isr_handler cr2 int_no k = (Task_killed, sched_exit (-1) k1)"
    unfolding isr_handler_def Let_def sched_current_def t(1) option.case if_P[OF t(2)]
    by (rule exI, rule conjI[OF _ refl]) (intro screen_only_intros; simp)
  then show ?thesis unfolding if_P[OF True] .
next
  case False
  then have n: "(case current k of None \<Rightarrow> None | Some t \<Rightarrow> if is_user (tasks k t) then Some t else None) = None"
    by (auto split: option.splits)
  have "\<exists>k1. screen_only k k1 \<and> isr_handler cr2 int_no k = (Halted, k1)"
    unfolding isr_handler_def Let_def sched_current_def n option.case
    by (rule exI, rule conjI[OF _ refl]) (intro screen_only_intros; simp)
  then show ?thesis unfolding if_not_P[OF False] .
qed

lemma sched_exit_frames: "frames (sched_exit code k) = frames k"
  by (simp add: sched_exit_def wake_waiters Let_def split: option.splits)



end
