(* ===== verification/Irq_Props.thy ===== *)
theory Irq_Props
  imports Isr
begin

text \<open>
  What the interrupts keep, and how the keyboard, the signals and the tick work together: a Ctrl-C
  at the terminal kills the foreground process group.
\<close>

section \<open>The drivers keep their invariants\<close>

lemma keyboard_handle_inv:
  "keyboard_inv k \<Longrightarrow> keyboard_inv (fst (keyboard_handle_scancode signal t sc (k, w)))"
proof -
  assume inv: "keyboard_inv k"
  have "keyboard_inv (key_enqueue ev (k\<lparr>extended := False\<rparr>))" for ev
    using keys.put_law[of "k\<lparr>extended := False\<rparr>" ev] inv by simp
  then show ?thesis using inv
    by (simp add: keyboard_handle_scancode_def Let_def split: option.split)
qed

lemma keyboard_handle_rest:
  "snd (keyboard_handle_scancode signal t sc (k, w)) = w \<or>
   (\<exists>pgid. snd (keyboard_handle_scancode signal t sc (k, w)) = signal pgid SIGINT w)"
  by (auto simp: keyboard_handle_scancode_def Let_def split: option.split)

text \<open>Ctrl-C.\<close>

lemma keyboard_handle_ctrl_c:
  assumes "mod_state k AND MOD_CTRL \<noteq> 0" "tty_mode t = TTY_MODE_COOKED" "foreground_pgid t \<noteq> 0"
  shows "snd (keyboard_handle_scancode signal t 0x2E (k, w)) = signal (foreground_pgid t) SIGINT w"
  using assms by (simp add: keyboard_handle_scancode_def Let_def tty_get_mode_def tty_get_foreground_pgid_def)

lemma mouse_handle_byte_inv:
  assumes "mouse_inv f m"
  shows "mouse_inv f (mouse_handle_byte f b m)"
proof -
  have n: "mouse_inv f (m\<lparr>packet := p, packet_idx := 0\<rparr>)" for p using assms by (simp add: mouse_inv_def)
  have p: "mouse_inv f (m\<lparr>packet := p, packet_idx := Suc (packet_idx m)\<rparr>)" if "Suc (packet_idx m) < 3" for p
    using assms that by (simp add: mouse_inv_def)
  show ?thesis
    using assms n p update_relative_spec[OF n refl] by (simp add: mouse_handle_byte_def Let_def)
qed

section \<open>Interrupts keep the kernel sound\<close>

definition board_inv :: "'d board \<Rightarrow> bool" where
  "board_inv b \<longleftrightarrow> sched_inv (kern (sys b)) \<and> keyboard_inv (keyb (sys b)) \<and>
     mouse_inv (screen (cons (sys b))) (pointer (sys b)) \<and> small_screen (screen (cons (sys b)))"

text \<open>What an interrupt does not touch.\<close>

definition same_store :: "'d board \<Rightarrow> 'd board \<Rightarrow> bool" where
  "same_store b b' \<longleftrightarrow> vol (sys b') = vol (sys b) \<and> user_mem (sys b') = user_mem (sys b) \<and>
     cons (sys b') = cons (sys b) \<and> term_state (sys b') = term_state (sys b)"

lemma sched_tick_returns:
  assumes "sched_inv k"
  shows "\<exists>r k'. sched_tick frame k = Some (r, k') \<and> sched_inv k'"
proof -
  have "\<exists>r k'. sched_tick frame k = Some (r, k')"
  proof (cases "frame = 0 \<or> \<not> sched_ready k \<or> runq k = None \<or> current k = None \<or> \<not> sched_running k")
    case True
    then show ?thesis by (auto simp: sched_tick_def split: option.splits)
  next
    case False
    then obtain c where c: "current k = Some c" by auto
    obtain xs where xs: "ring_of k xs" "set xs = used_slots k" using assms by (rule sched_invD)
    have "c \<in> set xs" using assms c xs(2) by (simp add: sched_inv_def)
    from sched_tick_pick[OF xs(1) c this] False show ?thesis by (cases "pick_next k xs c") (auto simp: surj_pair)
  qed
  then show ?thesis using sched_tick_inv[OF assms] by blast
qed

lemma usb_of_simps [simp]: "drv (usb_of b) = usb_drv b" "dev (usb_of b) = devices b" "ram (usb_of b) = kern (sys b)"
  by (simp_all add: usb_of_def)

lemma timer_irq_spec:
  assumes "board_inv b"
  shows "\<exists>r b' k. timer_irq hw frame b = Some (Done (r, b')) \<and> board_inv b' \<and> same_store b b' \<and> keyb (sys b') = keyb (sys b) \<and>
    system_ticks (sys b') = system_ticks (sys b) + 1 \<and>
    machine.more k = machine.more (kern (sys b)) \<and> sched_tick frame k = Some (r, kern (sys b'))"
proof -
  let ?f = "screen (cons (sys b))"
  define b1 where "b1 = b\<lparr>sys := (sys b)\<lparr>system_ticks := system_ticks (sys b) + 1\<rparr>\<rparr>"
  have inv: "sched_inv (kern (sys b))" "mouse_inv ?f (pointer (sys b))" "small_screen ?f"
    using assms by (simp_all add: board_inv_def)
  obtain p u where u: "uhci_poll hw ?f (pointer (sys b), usb_of b1) = Done (p, u)" "mouse_inv ?f p"
      "machine.more (ram u) = machine.more (kern (sys b))"
    using uhci_poll_frame[OF inv(2,3), of hw "usb_of b1"] by (auto simp: b1_def)
  have "sched_inv (ram u)" by (rule keeps_inv[OF keeps_more[OF u(3)] inv(1)])
  then obtain r k' where t: "sched_tick frame (ram u) = Some (r, k')" "sched_inv k'" using sched_tick_returns by blast
  define b2 where "b2 = upd_kern (\<lambda>_. k') (b1\<lparr>sys := (sys b1)\<lparr>pointer := p, kern := ram u\<rparr>, usb_drv := drv u, devices := dev u\<rparr>)"
  have "timer_irq hw frame b = Some (Done (r, b2))"
    unfolding timer_irq_def Let_def b1_def[symmetric] b2_def using u(1) t(1) by (simp add: b1_def)
  moreover have "board_inv b2 \<and> same_store b b2 \<and> keyb (sys b2) = keyb (sys b) \<and> system_ticks (sys b2) = system_ticks (sys b) + 1"
    using assms u(2) t(2) by (simp add: b2_def b1_def board_inv_def same_store_def upd_kern_def)
  moreover have "kern (sys b2) = k'" by (simp add: b2_def upd_kern_def)
  ultimately show ?thesis using u(3) t(1) by blast
qed

lemma keyboard_irq_spec:
  assumes "board_inv b"
  shows "board_inv (keyboard_irq io b) \<and> same_store b (keyboard_irq io b) \<and>
    system_ticks (sys (keyboard_irq io b)) = system_ticks (sys b)"
proof -
  obtain sc d where p: "port_in8 io 0x60 (devices b) = (sc, d)" by (cases "port_in8 io 0x60 (devices b)")
  let ?sig = "\<lambda>pgid (sig :: c_int) k. sched_signal_pgid pgid (unat sig) (k :: kernel)"
  obtain kb k where h: "keyboard_handle_scancode ?sig (term_state (sys b)) sc (keyb (sys b), kern (sys b)) = (kb, k)"
    by (cases "keyboard_handle_scancode ?sig (term_state (sys b)) sc (keyb (sys b), kern (sys b))")
  have "keyboard_inv kb" using keyboard_handle_inv[of "keyb (sys b)" ?sig] h assms by (metis board_inv_def fst_conv)
  moreover have "sched_inv k"
    using keyboard_handle_rest[of ?sig "term_state (sys b)" sc "keyb (sys b)" "kern (sys b)"] h assms
    by (auto simp: board_inv_def intro: keeps_inv[OF signal_pgid_keeps])
  ultimately show ?thesis using assms by (simp add: keyboard_irq_def p h board_inv_def same_store_def)
qed

lemma mouse_irq_spec:
  assumes "board_inv b"
  shows "board_inv (mouse_irq io b) \<and> same_store b (mouse_irq io b) \<and> system_ticks (sys (mouse_irq io b)) = system_ticks (sys b)"
  using assms mouse_handle_byte_inv by (auto simp: mouse_irq_def board_inv_def same_store_def split: prod.split)

lemma board_devices [simp]: "board_inv (b\<lparr>devices := d\<rparr>) = board_inv b" "same_store b (b'\<lparr>devices := d\<rparr>) = same_store b b'"
  by (simp_all add: board_inv_def same_store_def)

lemma irq_handler_ok:
  assumes "board_inv b"
  shows "\<exists>r b1. irq_handler hw n frame b = Some (Done (r, b1\<lparr>devices := send_eoi (hw_ports hw) n (devices b1)\<rparr>)) \<and> board_inv b1 \<and> same_store b b1 \<and> system_ticks (sys b1) = system_ticks (sys b) + (if n = 32 then 1 else 0) \<and>
    (n \<noteq> 32 \<longrightarrow> r = frame) \<and> (n \<notin> {32, 33, 44} \<longrightarrow> b1 = b)"
proof -
  consider "n = 32" | "n = 33" | "n = 44" | "n \<notin> {32, 33, 44}" by blast
  then show ?thesis
  proof cases
    case 1
    then show ?thesis using timer_irq_spec[OF assms, of hw frame] by (force simp: irq_handler_def)
  next
    case 2
    then show ?thesis using keyboard_irq_spec[OF assms, of "hw_ports hw"]
      by (intro exI[of _ frame] exI[of _ "keyboard_irq (hw_ports hw) b"]) (simp add: irq_handler_def)
  next
    case 3
    then show ?thesis using mouse_irq_spec[OF assms, of "hw_ports hw"]
      by (intro exI[of _ frame] exI[of _ "mouse_irq (hw_ports hw) b"]) (simp add: irq_handler_def)
  next
    case 4
    then show ?thesis using assms
      by (intro exI[of _ frame] exI[of _ b]) (simp add: irq_handler_def same_store_def)
  qed
qed

text \<open>
  C8 (liveness): every interrupt is served.  From a sound state the handler always returns, whatever the interrupt and
  whatever the devices answer: the USB poll computes nothing undefined and the search for the next task ends.  It keeps the
  invariants of the scheduler and of both input drivers, leaves the file system, the memory of the programs, the console
  and the terminal alone, acknowledges the interrupt as its last act, counts the ticks of the timer and of nothing else,
  and only the timer changes the frame to return to.
\<close>

theorem irq_handler_serves:
  assumes "board_inv b"
  shows "\<exists>r b1. irq_handler hw n frame b = Some (Done (r, b1\<lparr>devices := send_eoi (hw_ports hw) n (devices b1)\<rparr>)) \<and> board_inv b1 \<and> same_store b b1 \<and> system_ticks (sys b1) = system_ticks (sys b) + (if n = 32 then 1 else 0) \<and>
    (n \<noteq> 32 \<longrightarrow> r = frame) \<and> (n \<notin> {32, 33, 44} \<longrightarrow> b1 = b)"
  by (rule irq_handler_ok[OF assms])

text \<open>A kernel at rest: the sample system with a keyboard, where Ctrl is held and group 9 is in the foreground.\<close>

definition sample_board :: "unit board" where
  "sample_board = \<lparr>sys = sample_system\<lparr>
       kern := upd_task 0 (\<lambda>t. t\<lparr>task_pgid := 9\<rparr>) sample_kernel,
       keyb := \<lparr>key_buffer = (\<lambda>_. undefined), key_read_idx = 0, key_write_idx = 0, mod_state = 2, extended = False\<rparr>,
       term_state := \<lparr>foreground_pgid = 9, tty_mode = TTY_MODE_COOKED\<rparr>,
       pointer := polled_mouse, cons := (cons sample_system)\<lparr>screen := polled_screen\<rparr>\<rparr>,
     usb_drv = polled_driver, devices = ()\<rparr>"

lemma sample_board_inv: "board_inv sample_board"
proof -
  have "sched_inv (upd_task 0 (\<lambda>t. t\<lparr>task_pgid := 9\<rparr>) sample_kernel)"
    by (rule keeps_inv[OF keeps_upd_task sample_kernel_inv]) simp_all
  then show ?thesis
    by (simp add: board_inv_def sample_board_def keyboard_inv_def mouse_inv_def mouse_queue_inv_def polled_mouse_def
        polled_screen_def small_screen_def fb_width_def fb_height_def)
qed

theorem irq_handler_serves_witness:
  "\<forall>hw frame. \<exists>r b1. irq_handler hw 32 frame sample_board = Some (Done (r, b1\<lparr>devices := send_eoi (hw_ports hw) 32 (devices b1)\<rparr>)) \<and>
     board_inv b1 \<and> system_ticks (sys b1) = system_ticks (sys sample_board) + 1"
proof (intro allI)
  fix hw :: "unit board_hw" and frame
  show "\<exists>r b1. irq_handler hw 32 frame sample_board = Some (Done (r, b1\<lparr>devices := send_eoi (hw_ports hw) 32 (devices b1)\<rparr>)) \<and>
     board_inv b1 \<and> system_ticks (sys b1) = system_ticks (sys sample_board) + 1"
    using irq_handler_serves [OF sample_board_inv, of hw 32 frame] by auto
qed

section \<open>Ctrl-C\<close>

lemma deliver_sigint:
  assumes "bit (pending_signals (tasks k t)) 2" "\<not> bit (blocked_signals (tasks k t)) 2" "\<not> deliverable (tasks k t) 1"
  shows "\<exists>v. sched_deliver_signals (Some t) k = kill_by_signal t (set_pending t v k)"
proof -
  have "List.find (deliverable (tasks k t)) [1..<32] = Some 2"
  proof (rule find_upt_SomeI)
    fix j :: nat assume "1 \<le> j" "j < 2"
    then have "j = 1" by simp
    then show "\<not> deliverable (tasks k t) j" using assms(3) by simp
  qed (use assms in \<open>simp_all add: deliverable_def\<close>)
  moreover have "pending_signals (tasks k t) \<noteq> 0" using assms(1) by auto
  ultimately show ?thesis using deliver_loop_spec[of 1 t k] by (auto simp: sched_deliver_signals_def delivered_def)
qed

lemma kill_by_signal_tasks:
  "tasks (kill_by_signal t k) t = (tasks k t)\<lparr>task_state := Zombie, exit_code := -1\<rparr>"
  "i \<noteq> t \<Longrightarrow> pending_signals (tasks (kill_by_signal t k) i) = pending_signals (tasks k i)"
  "i \<noteq> t \<Longrightarrow> own_state (tasks (kill_by_signal t k) i) = own_state (tasks k i)"
  "current (kill_by_signal t k) = current k"
  by (simp_all add: kill_by_signal_def wake_waiters own_state_def)

text \<open>The tick that turns to a task with a pending \<open>SIGINT\<close> kills it, and still returns the frame of that task.\<close>

lemma tick_kills:
  assumes ring: "ring_of k xs" "current k = Some c" "c \<in> set xs" "frame \<noteq> 0" "sched_ready k" "sched_running k"
    and pick: "pick_next k xs c = Some t" and rsp: "t = c \<or> task_rsp (tasks k t) \<noteq> 0"
    and sig: "bit (pending_signals (tasks k t)) 2" "\<not> bit (blocked_signals (tasks k t)) 2" "\<not> deliverable (tasks k t) 1"
  shows "\<exists>k'. sched_tick frame k = Some (if t = c then frame else task_rsp (tasks k t), k') \<and> current k' = Some t \<and>
    task_state (tasks k' t) = Zombie \<and> exit_code (tasks k' t) = -1 \<and>
    (\<forall>i. i \<noteq> t \<longrightarrow> pending_signals (tasks k' i) = pending_signals (tasks k i))"
proof -
  define k1 where "k1 = (upd_task c (\<lambda>t. t\<lparr>task_rsp := frame\<rparr>) k)\<lparr>current := Some t\<rparr>"
  define k2 where "k2 = (let k = (if kernel_stack_top (tasks k1 t) \<noteq> 0
      then k1\<lparr>tss_rsp0 := kernel_stack_top (tasks k1 t), current_kernel_rsp := kernel_stack_top (tasks k1 t)\<rparr> else k1)
      in if task_cr3 (tasks k t) \<noteq> 0 then k\<lparr>cr3 := task_cr3 (tasks k t)\<rparr> else k)"
  have r: "task_rsp (tasks k1 t) = (if t = c then frame else task_rsp (tasks k t))" by (simp add: k1_def)
  then have r0: "task_rsp (tasks k1 t) \<noteq> 0" using rsp ring(4) by auto
  have k2: "tasks k2 = tasks k1" "current k2 = Some t" by (simp_all add: k2_def k1_def Let_def)
  have p: "pending_signals (tasks k2 i) = pending_signals (tasks k i)" "blocked_signals (tasks k2 i) = blocked_signals (tasks k i)" for i
    by (simp_all add: k2 k1_def)
  obtain v where d: "sched_deliver_signals (Some t) k2 = kill_by_signal t (set_pending t v k2)"
    using deliver_sigint[of k2 t] sig by (auto simp: p deliverable_def)
  have cr: "task_cr3 (tasks k1 t) = task_cr3 (tasks k t)" by (simp add: k1_def)
  have "tick_switch frame t (upd_task c (\<lambda>t. t\<lparr>task_rsp := frame\<rparr>) k) =
      (task_rsp (tasks (sched_deliver_signals (Some t) k2) t), sched_deliver_signals (Some t) k2)"
    unfolding tick_switch_def Let_def k1_def[symmetric] k2_def using r0 cr by simp
  moreover have "task_rsp (tasks (sched_deliver_signals (Some t) k2) t) = (if t = c then frame else task_rsp (tasks k t))"
    unfolding d using r by (simp add: kill_by_signal_tasks set_pending_def k2)
  ultimately show ?thesis
    using sched_tick_pick[OF ring] pick p by (simp add: d kill_by_signal_tasks set_pending_def k2(2))
qed

text \<open>
  C9 (liveness): Ctrl-C at the terminal kills.  Ctrl is held, the terminal is in cooked mode with a group in the foreground,
  and the keyboard reports the C key.  Its interrupt leaves \<^verbatim>\<open>SIGINT\<close> pending for every task of that group and
  changes the signals of no other task.  Let \<open>t\<close> be the task of the group the scheduler turns to at the next tick, with
  the signal not blocked and no lower one to be delivered first: that tick makes it a zombie with exit code -1, and the other
  tasks of the group keep the signal until their turn.  The tick makes the dead task the current one and returns its
  saved frame, so the killed task still runs for one more slice.
\<close>

theorem ctrl_c_kills:
  fixes b :: "'d board"
  defines "k \<equiv> kern (sys b)"
  assumes inv: "board_inv b" and key: "port_in8 (hw_ports hw) 0x60 (devices b) = (0x2E, d)" "mod_state (keyb (sys b)) AND MOD_CTRL \<noteq> 0"
    and tty: "tty_mode (term_state (sys b)) = TTY_MODE_COOKED" "foreground_pgid (term_state (sys b)) = pg" "pg \<noteq> 0"
    and ring: "ring_of k xs" "current k = Some c" "c \<in> set xs" "frame \<noteq> 0" "sched_ready k" "sched_running k"
    and pick: "pick_next k xs c = Some t" and rsp: "t = c \<or> task_rsp (tasks k t) \<noteq> 0"
    and mem: "t \<in> used_slots k" "task_pgid (tasks k t) = pg"
    and sig: "\<not> bit (blocked_signals (tasks k t)) 2" "\<not> deliverable (tasks k t) 1"
  shows "\<exists>b1 b2. irq_handler hw 33 frame0 b = Some (Done (frame0, b1)) \<and>
    irq_handler hw 32 frame b1 = Some (Done (if t = c then frame else task_rsp (tasks k t), b2)) \<and> board_inv b2 \<and>
    current (kern (sys b2)) = Some t \<and> task_state (tasks (kern (sys b2)) t) = Zombie \<and> exit_code (tasks (kern (sys b2)) t) = -1 \<and>
    (\<forall>i. i \<noteq> t \<longrightarrow> pending_signals (tasks (kern (sys b2)) i) =
       (if i \<in> used_slots k \<and> task_pgid (tasks k i) = pg then pending_signals (tasks k i) OR push_bit 2 1 else pending_signals (tasks k i)))"
proof -
  let ?b0 = "keyboard_irq (hw_ports hw) b"
  define b1 where "b1 = ?b0\<lparr>devices := send_eoi (hw_ports hw) 33 (devices ?b0)\<rparr>"
  have i1: "irq_handler hw 33 frame0 b = Some (Done (frame0, b1))" by (simp add: irq_handler_def b1_def)
  have inv1: "board_inv b1" using keyboard_irq_spec[OF inv] by (simp add: b1_def)
  have k1: "kern (sys b1) = sched_signal_pgid pg 2 k"
    using keyboard_handle_ctrl_c[OF key(2) tty(1), of "\<lambda>pgid sig k. sched_signal_pgid pgid (unat sig) k" k] tty(2,3)
    by (simp add: b1_def keyboard_irq_def key(1) k_def[symmetric] split_beta)
  obtain f b2 k2 where t2: "timer_irq hw frame b1 = Some (Done (f, b2))" "board_inv b2"
      "machine.more k2 = machine.more (kern (sys b1))" "sched_tick frame k2 = Some (f, kern (sys b2))"
    using timer_irq_spec[OF inv1, of hw frame] by blast
  note K = kernel_part[OF t2(3)]
  have tasks2: "tasks k2 = (\<lambda>i. if i < 16 \<and> task_state (tasks k i) \<noteq> Unused \<and> task_pgid (tasks k i) = pg
      then (tasks k i)\<lparr>pending_signals := pending_signals (tasks k i) OR push_bit 2 1\<rparr> else tasks k i)"
    by (simp add: K k1 signal_pgid_tasks)
  have rest2: "current k2 = current k" "runq k2 = runq k" "sched_ready k2 = sched_ready k" "sched_running k2 = sched_running k"
    by (simp_all add: K k1 signal_pgid_tasks)
  have next2: "next_of k2 = next_of k" "runs k2 = runs k" "(\<lambda>i. is_idle (tasks k2 i)) = (\<lambda>i. is_idle (tasks k i))"
    by (simp_all add: next_of_def runs_def fun_eq_iff tasks2)
  have "ring_of k2 xs" using ring(1) ring_of_cong[of k2 k xs] rest2(2) next2(1) by simp
  moreover have "pick_next k2 xs c = Some t" using pick unfolding pick_next_def next2(2) fun_cong[OF next2(3)] .
  moreover have "task_rsp (tasks k2 t) = task_rsp (tasks k t)" "blocked_signals (tasks k2 t) = blocked_signals (tasks k t)"
    by (simp_all add: tasks2)
  moreover have p: "pending_signals (tasks k2 t) = pending_signals (tasks k t) OR push_bit 2 1"
    using mem by (simp add: tasks2 used_slots_def)
  moreover have "bit (pending_signals (tasks k2 t)) 2" unfolding p by (simp add: bit_or_iff bit_push_bit_iff)
  moreover have "\<not> deliverable (tasks k2 t) 1"
    using sig(2) calculation(4) unfolding deliverable_def p by (simp add: bit_or_iff bit_push_bit_iff)
  ultimately obtain k' where k': "sched_tick frame k2 = Some (if t = c then frame else task_rsp (tasks k t), k')" "current k' = Some t"
      "task_state (tasks k' t) = Zombie" "exit_code (tasks k' t) = -1"
      "\<forall>i. i \<noteq> t \<longrightarrow> pending_signals (tasks k' i) = pending_signals (tasks k2 i)"
    using tick_kills[of k2 xs c frame t] ring rsp sig(1) rest2 by auto
  have e: "f = (if t = c then frame else task_rsp (tasks k t))" "kern (sys b2) = k'" using t2(4) k'(1) by simp_all
  let ?b3 = "b2\<lparr>devices := send_eoi (hw_ports hw) 32 (devices b2)\<rparr>"
  have i2: "irq_handler hw 32 frame b1 = Some (Done (f, ?b3))" by (simp add: irq_handler_def t2(1))
  have "\<forall>i. i \<noteq> t \<longrightarrow> pending_signals (tasks k' i) =
       (if i \<in> used_slots k \<and> task_pgid (tasks k i) = pg then pending_signals (tasks k i) OR push_bit 2 1 else pending_signals (tasks k i))"
    using k'(5) by (simp add: tasks2 used_slots_def)
  then show ?thesis using i1 i2 t2(2) k'(2-4) e by (intro exI[of _ b1] exI[of _ ?b3]) simp
qed

definition ctrl_c_hw :: "unit board_hw" where
  "ctrl_c_hw = \<lparr>hw_ports = \<lparr>port_in8 = (\<lambda>_ d. (0x2E, d)), port_out8 = (\<lambda>_ _ d. d), port_in16 = (\<lambda>_ d. (0, d)),
     port_out16 = (\<lambda>_ _ d. d), port_in32 = (\<lambda>_ d. (0, d)), port_out32 = (\<lambda>_ _ d. d)\<rparr>, hw_run = Pair\<rparr>"

theorem ctrl_c_kills_witness:
  "\<exists>b1 b2. irq_handler ctrl_c_hw 33 0x6000 sample_board = Some (Done (0x6000, b1)) \<and>
     irq_handler ctrl_c_hw 32 0x7000 b1 = Some (Done (0x7000, b2)) \<and>
     task_state (tasks (kern (sys b2)) 0) = Zombie \<and> exit_code (tasks (kern (sys b2)) 0) = -1"
proof -
  let ?k = "kern (sys sample_board)"
  have ring: "ring_of ?k [0, 1]" "current ?k = Some 0" "0 \<in> set [0, 1 :: nat]" "(0x7000 :: u64) \<noteq> 0" "sched_ready ?k" "sched_running ?k"
    by (simp_all add: sample_board_def ring_of_def sample_kernel_def next_of_def)
  have pick: "pick_next ?k [0, 1] 0 = Some 0"
    by (simp add: pick_next_def turn_def runs_def sample_board_def sample_kernel_def blank_task_def)
  have mem: "0 \<in> used_slots ?k" "task_pgid (tasks ?k 0) = 9"
    by (simp_all add: used_slots_def sample_board_def sample_kernel_def blank_task_def)
  have sig: "\<not> bit (blocked_signals (tasks ?k 0)) 2" "\<not> deliverable (tasks ?k 0) 1"
    by (simp_all add: deliverable_def sample_board_def sample_kernel_def blank_task_def)
  have key: "port_in8 (hw_ports ctrl_c_hw) 0x60 (devices sample_board) = (0x2E, ())" "mod_state (keyb (sys sample_board)) AND MOD_CTRL \<noteq> 0"
    "tty_mode (term_state (sys sample_board)) = TTY_MODE_COOKED" "foreground_pgid (term_state (sys sample_board)) = 9" "(9 :: c_int) \<noteq> 0"
    by (simp_all add: ctrl_c_hw_def sample_board_def)
  show ?thesis
    using ctrl_c_kills [OF sample_board_inv key ring pick disjI1[OF refl] mem sig, of "0x6000"] by (simp only: if_True simp_thms) blast
qed

end
