(* ===== verification/Uhci_Frame.thy ===== *)
theory Uhci_Frame
  imports Uhci_Pool Task
begin

text \<open>
  The USB driver uses memory and nothing else of the kernel: its initialisation leaves the tasks, the
  queue and the other variables of the kernel alone, provided the controller only reads and writes memory.
\<close>

text \<open>A controller on the bus reaches memory; the variables of the kernel that are not in the modelled memory stay.\<close>

definition bus_master :: "('d, 'a) usb_hw \<Rightarrow> bool" where
  "bus_master hw \<longleftrightarrow> (\<forall>d m. machine.more (snd (hw_run hw d m)) = machine.more m)"

definition beyond_ram :: "('d, 'a) usb \<Rightarrow> 'a" where
  "beyond_ram s = machine.more (ram s)"

lemma put_bytes_more_run [simp]: "machine.more (put_bytes a bs m) = machine.more m"
  by (simp add: put_bytes_run)

lemma beyond_ram_store [simp]: "beyond_ram (store a v s) = beyond_ram s" "beyond_ram (upd_dev g s) = beyond_ram s" "beyond_ram (upd_drv h s) = beyond_ram s"
  "beyond_ram (s\<lparr>dev := d\<rparr>) = beyond_ram s" "beyond_ram (s\<lparr>ram := (ram s)\<lparr>pm := p\<rparr>\<rparr>) = beyond_ram s" "beyond_ram (s\<lparr>ram := put_bytes b bs (ram s)\<rparr>) = beyond_ram s"
  by (simp_all add: beyond_ram_def store_def upd_dev_def upd_drv_def put_dword_def)

lemma beyond_ram_fold: "(\<And>x s. beyond_ram (f x s) = beyond_ram s) \<Longrightarrow> beyond_ram (fold f xs s) = beyond_ram s"
  by (induction xs arbitrary: s) simp_all

lemma beyond_ram_delay: "bus_master hw \<Longrightarrow> beyond_ram (io_delay hw s) = beyond_ram s" "bus_master hw \<Longrightarrow> beyond_ram (delay_ms hw ms s) = beyond_ram s"
proof -
  show d: "bus_master hw \<Longrightarrow> beyond_ram (io_delay hw s) = beyond_ram s" for s
    by (simp add: io_delay_def beyond_ram_def bus_master_def split_beta)
  show "bus_master hw \<Longrightarrow> beyond_ram (delay_ms hw ms s) = beyond_ram s" unfolding delay_ms_def by (rule beyond_ram_fold) (rule d)
qed

lemma beyond_ram_dbg [simp]: "beyond_ram (dbg_char hw c s) = beyond_ram s" "beyond_ram (dbg_str hw str s) = beyond_ram s"
  "beyond_ram (dbg_hex8 hw b s) = beyond_ram s" "beyond_ram (dbg_hex16 hw w s) = beyond_ram s" "beyond_ram (dbg_hex32 hw d s) = beyond_ram s"
  by (simp_all add: dbg_str_def dbg_hex8_def dbg_hex16_def dbg_hex32_def dbg_char_def beyond_ram_fold)

lemma beyond_ram_ports [simp]: "beyond_ram (snd (uhci_read16 hw reg s)) = beyond_ram s" "beyond_ram (uhci_write16 hw reg v s) = beyond_ram s"
  "beyond_ram (uhci_write32 hw reg d s) = beyond_ram s"
  by (simp_all add: uhci_read16_def uhci_write16_def uhci_write32_def split_beta)

lemma beyond_ram_dma [simp]: "beyond_ram (dma_init s) = beyond_ram s" "beyond_ram (snd (dma_grow need s)) = beyond_ram s" "beyond_ram (snd (dma_alloc n al s)) = beyond_ram s"
proof -
  show "beyond_ram (dma_init s) = beyond_ram s" by (simp add: dma_init_def split_beta Let_def)
  have g: "beyond_ram (snd (dma_grow need s)) = beyond_ram s" for need s
  proof (induction need s rule: dma_grow.induct)
    case (1 need s)
    obtain page p where a: "pmm_alloc_page (pm (ram s)) = (page, p)" by (cases "pmm_alloc_page (pm (ram s))")
    show ?case using "1.IH"[OF _ a[symmetric] refl] by (subst dma_grow.simps) (simp add: a Let_def)
  qed
  then show "beyond_ram (snd (dma_grow need s)) = beyond_ram s" .
  show "beyond_ram (snd (dma_alloc n al s)) = beyond_ram s"
    using g[of "dma_pool_offset (drv s) + n + al" s] by (auto simp: dma_alloc_def Let_def split: prod.split bool.split)
qed

lemma beyond_ram_transfer [simp]: "beyond_ram (snd (alloc_td s)) = beyond_ram s" "beyond_ram (reset_td_pool s) = beyond_ram s"
  by (simp_all add: alloc_td_def reset_td_pool_def Let_def)

lemma beyond_ram_data_tds [simp]: "beyond_ram (snd (data_tds addr dir_in ls db remaining off tg prev s)) = beyond_ram s"
proof (induction addr dir_in ls db remaining off tg prev s rule: data_tds.induct)
  case (1 addr dir_in ls db remaining off tg prev s)
  obtain d s1 where a: "alloc_td s = (d, s1)" by (cases "alloc_td s")
  have p: "beyond_ram s1 = beyond_ram s" using beyond_ram_transfer(1)[of s] a by simp
  show ?case
  proof (cases "remaining = 0 \<or> d = 0")
    case True
    then show ?thesis using a p by (subst data_tds.simps) auto
  next
    case False
    then show ?thesis
      using "1.IH"[OF _ refl a[symmetric] _ refl refl refl refl] a p by (subst data_tds.simps) (simp add: Let_def)
  qed
qed

lemma beyond_ram_build_transfer [simp]: "beyond_ram (snd (build_transfer addr dir_in ls sb db len s)) = beyond_ram s"
  by (simp add: build_transfer_def split_beta Let_def split: option.split)

lemma beyond_ram_await: "bus_master hw \<Longrightarrow> beyond_ram (snd (await_status hw td n s)) = beyond_ram s"
  by (induction n arbitrary: s) (simp_all add: Let_def beyond_ram_delay)

lemma beyond_ram_control: "bus_master hw \<Longrightarrow> beyond_ram (snd (uhci_control_transfer hw addr setup data len dir_in ls s)) = beyond_ram s"
  by (simp add: uhci_control_transfer_def split_beta Let_def beyond_ram_await split: option.split)

lemma beyond_ram_requests:
  assumes "bus_master hw"
  shows "beyond_ram (snd (usb_get_descriptor hw addr kind index buf len ls s)) = beyond_ram s"
    "beyond_ram (snd (usb_set_address hw addr ls s)) = beyond_ram s" "beyond_ram (snd (usb_set_configuration hw addr config ls s)) = beyond_ram s"
    "beyond_ram (snd (usb_set_protocol hw addr iface protocol ls s)) = beyond_ram s" "beyond_ram (snd (usb_set_idle hw addr iface ls s)) = beyond_ram s"
  using beyond_ram_control[OF assms]
  by (simp_all add: usb_get_descriptor_def usb_set_address_def usb_set_configuration_def usb_set_protocol_def usb_set_idle_def split_beta)

lemma beyond_ram_port_wait: "bus_master hw \<Longrightarrow> beyond_ram (snd (port_wait hw reg n s)) = beyond_ram s"
  by (induction n arbitrary: s) (simp_all add: split_beta Let_def beyond_ram_delay)

lemma beyond_ram_reset: "bus_master hw \<Longrightarrow> beyond_ram (snd (uhci_port_reset hw reg s)) = beyond_ram s" "bus_master hw \<Longrightarrow> beyond_ram (reset_wait hw n s) = beyond_ram s"
  by (simp add: uhci_port_reset_def beyond_ram_port_wait beyond_ram_delay) (induction n arbitrary: s, simp_all add: split_beta beyond_ram_delay)

lemma beyond_ram_logs [simp]: "beyond_ram (log_interface hw class sub protocol s) = beyond_ram s" "beyond_ram (log_controller hw pci s) = beyond_ram s"
  "beyond_ram (log_result hw s) = beyond_ram s" "beyond_ram (log_no_mouse hw s) = beyond_ram s"
  by (simp_all add: log_interface_def log_controller_def log_result_def log_no_mouse_def Let_def split_beta)

lemma beyond_ram_use_endpoint: "bus_master hw \<Longrightarrow> beyond_ram (use_endpoint hw addr config mp ls iface type ep s) = beyond_ram s"
  by (simp add: use_endpoint_def Let_def beyond_ram_requests beyond_ram_delay)

lemma beyond_ram_scan: "bus_master hw \<Longrightarrow> scan_descriptors hw addr mp ls conf len pos found iface s = Done s' \<Longrightarrow> beyond_ram s' = beyond_ram s"
proof (induction hw addr mp ls conf len pos found iface s rule: scan_descriptors.induct)
  case (1 hw addr mp ls conf len pos found iface s)
  show ?case
    using "1.prems" "1.IH" by (subst (asm) scan_descriptors.simps) (auto simp: Let_def beyond_ram_use_endpoint split: if_splits)
qed

lemma beyond_ram_enumerate:
  assumes bus: "bus_master hw" and run: "uhci_enumerate_port hw reg s = Done s'"
  shows "beyond_ram s' = beyond_ram s"
  using run unfolding uhci_enumerate_port_def
  by (auto simp: split_beta Let_def beyond_ram_reset[OF bus] beyond_ram_requests[OF bus] beyond_ram_delay[OF bus] split: if_splits dest!: beyond_ram_scan[OF bus])

lemma beyond_ram_schedule [simp]: "beyond_ram (snd (uhci_schedule hw s)) = beyond_ram s"
  by (simp add: uhci_schedule_def split_beta Let_def beyond_ram_fold)

lemma beyond_ram_polling [simp]: "beyond_ram (setup_mouse_polling s) = beyond_ram s"
  by (simp add: setup_mouse_polling_def split_beta Let_def)

lemma uhci_init_beyond_ram:
  assumes bus: "bus_master hw" and run: "uhci_init hw s = Done s'"
  shows "machine.more (ram s') = machine.more (ram s)"
proof -
  note R = beyond_ram_delay[OF bus] beyond_ram_reset[OF bus]
  have "beyond_ram s' = beyond_ram s"
    using run unfolding uhci_init_def
    by (auto simp: split_beta Let_def R split: option.splits if_splits outcome.splits bool.splits dest!: beyond_ram_enumerate[OF bus])
  then show ?thesis by (simp add: beyond_ram_def)
qed

end
