(* ===== verification/Kernel.thy ===== *)
theory Kernel
  imports Irq_Props Ata Descriptors Uhci_Frame
begin

text \<open>
  The start of the kernel, \<^verbatim>\<open>kernel/kernel.c\<close>: the order in which \<^verbatim>\<open>kernel_main\<close> brings up memory, the processor
  tables, the scheduler, the drivers and the file system, before it starts the scheduler and the
  shell.  Interrupts are off until the end, so it runs in one piece.  The addresses the linker chooses and
  the shell, which is linked from elsewhere or not at all, are parameters.
\<close>

section \<open>State\<close>

text \<open>The kernel and its devices, with the registers and tables that only the start and the processor use.\<close>

record 'd pc =
  brd :: "'d board"
  gdt_regs :: gdt_state
  idt_gates :: idt
  idt_reg :: descriptor_ptr
  msrs :: "u32 \<Rightarrow> u32 \<times> u32"
  ata_drive :: c_int

record link =
  isr_stub :: "nat \<Rightarrow> u64"
  irq0_stub :: u64
  irq1_stub :: u64
  irq12_stub :: u64
  idt_addr :: u64
  gdt_addr :: u64
  tss_addr :: u64
  syscall_entry :: u64
  idle_thread :: u64

definition on_kern :: "(kernel \<Rightarrow> kernel) \<Rightarrow> 'd pc \<Rightarrow> 'd pc" where
  "on_kern g p = p\<lparr>brd := upd_kern g (brd p)\<rparr>"

definition on_sys :: "(system \<Rightarrow> system) \<Rightarrow> 'd pc \<Rightarrow> 'd pc" where
  "on_sys g p = p\<lparr>brd := (brd p)\<lparr>sys := g (sys (brd p))\<rparr>\<rparr>"

abbreviation kern_of :: "'d pc \<Rightarrow> kernel" where "kern_of p \<equiv> kern (sys (brd p))"
abbreviation screen_of :: "'d pc \<Rightarrow> fbuf" where "screen_of p \<equiv> screen (cons (sys (brd p)))"

section \<open>Text output\<close>

definition print_color :: "string \<Rightarrow> nat \<Rightarrow> u8 \<Rightarrow> 'a machine_scheme \<Rightarrow> 'a machine_scheme" where
  "print_color str row color m = put_bytes (VIDEO + of_nat (2 * (row * 80))) (concat (map (\<lambda>c. [c, color]) (bytes_of str))) m"

definition print :: "string \<Rightarrow> nat \<Rightarrow> 'a machine_scheme \<Rightarrow> 'a machine_scheme" where
  "print str row m = put_bytes (VIDEO + of_nat (2 * (row * 80))) (concat (map (\<lambda>c. [c, 0x0F]) (bytes_of str))) m"

section \<open>Memory and screen\<close>

text \<open>The identity mapping of the frame buffer; its address is read where the boot loader left it.\<close>

definition map_screen :: "fbuf \<Rightarrow> 'a machine_scheme \<Rightarrow> 'a machine_scheme" where
  "map_screen f m =
     (let base = ucast (get_dword 0x5028 m) :: u64;
          bytes_per_pixel = word_of_int (fb_bpp f div 8) :: u64;
          bytes_per_pixel = (if bytes_per_pixel = 0 then 4 else bytes_per_pixel);
          fb_size = word_of_int (fb_width f) * word_of_int (fb_height f) * bytes_per_pixel;
          map_start = base AND NOT 0xFFF;
          map_end = (base + fb_size + 0xFFF) AND NOT 0xFFF
      in fold (\<lambda>addr m. snd (paging_map_kernel_page (paging_kernel_pml4 m) addr addr (PAGE_PRESENT OR PAGE_WRITABLE) m))
           (page_range map_start map_end) m)"

definition boot_memory :: "'d pc \<Rightarrow> 'd pc" where
  "boot_memory p =
     (let p = on_kern (print ''PHOBOS - 64-bit C Kernel'' 0) p;
          p = on_kern paging_init p;
          p = on_kern (\<lambda>k. k\<lparr>pm := pmm_init 0x200000 0x4000000 (pm k)\<rparr>) p;
          p = on_sys (\<lambda>s. upd_screen (fb_init (mem_bytes 0 (kern s))) s) p;
          p = on_kern (map_screen (screen_of p)) p;
          p = on_sys (\<lambda>s. s\<lparr>cons := console_init (cons s)\<rparr>) p
      in on_kern (paging_mark_user_region 0xB8000 0x1000) p)"

section \<open>Processor, scheduler and drivers\<close>

text \<open>\<^verbatim>\<open>gdt_init\<close> clears the task state segment, and with it the stack pointer for interrupts from user mode.\<close>

definition boot_tables :: "link \<Rightarrow> 'd board_hw \<Rightarrow> 'd pc \<Rightarrow> 'd pc" where
  "boot_tables l hw p =
     (let io = hw_ports hw;
          p = p\<lparr>gdt_regs := gdt_init (gdt_addr l) (tss_addr l) (gdt_regs p)\<rparr>;
          p = on_kern (\<lambda>k. k\<lparr>tss_rsp0 := ts_rsp0 (gdt_task (gdt_regs p))\<rparr>) p;
          p = on_kern sched_init p;
          p = on_kern sched_bootstrap_current p;
          p = on_sys (\<lambda>s. s\<lparr>term_state := tty_init (term_state s)\<rparr>) p;
          p = on_sys (\<lambda>s. s\<lparr>keyb := keyboard_init (keyb s)\<rparr>) p
      in case idt_init (isr_stub l) (irq0_stub l) (irq1_stub l) (irq12_stub l) (idt_addr l) io (idt_gates p, devices (brd p)) of
           (gates, reg, d) \<Rightarrow>
             (case mouse_init io (screen_of p) (pointer (sys (brd p)), d) of
                (m, d) \<Rightarrow> on_sys (\<lambda>s. s\<lparr>pointer := m\<rparr>)
                  (p\<lparr>idt_gates := gates, idt_reg := reg, brd := (brd p)\<lparr>devices := d\<rparr>\<rparr>)))"

definition boot_devices :: "link \<Rightarrow> 'd board_hw \<Rightarrow> 'd pc \<Rightarrow> 'd pc outcome" where
  "boot_devices l hw p =
     (case uhci_init hw (usb_of (brd p)) of
        Undef \<Rightarrow> Undef
      | Done u \<Rightarrow>
          let p = on_kern (\<lambda>_. ram u) (p\<lparr>brd := (brd p)\<lparr>usb_drv := drv u, devices := dev u\<rparr>\<rparr>);
              p = p\<lparr>msrs := syscall_init (syscall_entry l) (msrs p)\<rparr>
          in case ata_select_drive (hw_ports hw) 1 (ata_init (hw_ports hw) (ata_drive p, devices (brd p))) of
               (n, d) \<Rightarrow> Done (p\<lparr>ata_drive := n, brd := (brd p)\<lparr>devices := d\<rparr>\<rparr>))"

section \<open>Files\<close>

abbreviation standard_directories :: "string list" where
  "standard_directories \<equiv> [''/apps'', ''/core'', ''/users/root'', ''/cfg'', ''/temp'', ''/dev'']"

fun ensure_paths :: "string list \<Rightarrow> 'a fat_scheme \<Rightarrow> 'a fat_scheme option" where
  "ensure_paths [] f = Some f"
| "ensure_paths (path # paths) f = Option.bind (ensure_path_exists (bytes_of path) f) (\<lambda>(_, f). ensure_paths paths f)"

definition boot_files :: "'d pc \<Rightarrow> 'd pc option" where
  "boot_files p =
     (case fat32_init 0 (vol (sys (brd p))) of (r, v) \<Rightarrow>
      let p = on_sys (\<lambda>s. s\<lparr>vol := v\<rparr>) p in
      if r = 0
      then let p = on_kern (print_color ''FAT32 mounted'' 1 0x0A) p;
               p = on_sys (\<lambda>s. s\<lparr>vol := vfs_set_root (Some 0) (vol s)\<rparr>) p
           in map_option (\<lambda>v. on_sys (\<lambda>s. s\<lparr>vol := v\<rparr>) p) (ensure_paths standard_directories (vol (sys (brd p))))
      else Some (on_kern (print_color ''FAT32 failed'' 1 0x0C) p))"

section \<open>The whole\<close>

text \<open>The idle task; \<^verbatim>\<open>START_USER_TASK\<close> is 0.\<close>

definition boot_tasks :: "link \<Rightarrow> kernel \<Rightarrow> kernel" where
  "boot_tasks l k =
     (case sched_create_kernel (idle_thread l) k of (idle, k) \<Rightarrow>
      let k = (case idle of Some t \<Rightarrow> upd_task t (\<lambda>x. x\<lparr>is_idle := True\<rparr>) k | None \<Rightarrow> k)
      in sched_start k)"

text \<open>Everything before interrupts are turned on.\<close>

definition boot :: "link \<Rightarrow> 'd board_hw \<Rightarrow> 'd pc \<Rightarrow> 'd pc outcome option" where
  "boot l hw p =
     (case boot_devices l hw (boot_tables l hw (boot_memory p)) of
        Undef \<Rightarrow> Some Undef
      | Done p \<Rightarrow> map_option (\<lambda>p. Done (on_kern (boot_tasks l) p)) (boot_files p))"

text \<open>
  \<open>shell\<close> is \<^verbatim>\<open>shell_main\<close>, when it is linked: what it does to the machine, or nothing if it does not return.
  The result is the state in which the kernel halts for good.
\<close>

definition kernel_main :: "link \<Rightarrow> 'd board_hw \<Rightarrow> ('d pc \<Rightarrow> 'd pc option) option \<Rightarrow> 'd pc \<Rightarrow> 'd pc outcome option" where
  "kernel_main l hw shell p =
     Option.bind (boot l hw p) (\<lambda>r. case r of
       Undef \<Rightarrow> Some Undef
     | Done p \<Rightarrow>
         let p = on_kern (print ''Starting shell...'' 3) p in
         case shell of
           None \<Rightarrow> Some (Done (on_kern (print ''No shell linked.'' 4) p))
         | Some shell_main \<Rightarrow> map_option (\<lambda>p. Done (on_kern (print ''Shell exited. System halted.'' 5) p)) (shell_main p))"

end
