(* ===== verification/Kernel_Props.thy ===== *)
theory Kernel_Props
  imports Kernel Spawn_Props
begin

text \<open>
  What the start of the kernel establishes, and that it lasts: the invariants of the scheduler and of the
  drivers hold after \<^verbatim>\<open>kernel_main\<close> has turned interrupts on, and no sequence of interrupts, system calls,
  faults and new programs breaks them.
\<close>

section \<open>The parts of the start\<close>

lemma print_more [simp]: "machine.more (print s row m) = machine.more m" "machine.more (print_color s row c m) = machine.more m"
  by (simp_all add: print_def print_color_def)

lemma on_simps [simp]:
  "kern_of (on_kern g p) = g (kern_of p)" "screen_of (on_kern g p) = screen_of p"
  "keyb (sys (brd (on_kern g p))) = keyb (sys (brd p))" "pointer (sys (brd (on_kern g p))) = pointer (sys (brd p))"
  "term_state (sys (brd (on_kern g p))) = term_state (sys (brd p))" "vol (sys (brd (on_kern g p))) = vol (sys (brd p))"
  "ata_drive (on_kern g p) = ata_drive p" "idt_gates (on_kern g p) = idt_gates p" "msrs (on_kern g p) = msrs p"
  "sys (brd (on_sys h p)) = h (sys (brd p))"
  "ata_drive (on_sys h p) = ata_drive p" "idt_gates (on_sys h p) = idt_gates p" "msrs (on_sys h p) = msrs p"
  "devices (brd (on_sys h p)) = devices (brd p)" "devices (brd (on_kern g p)) = devices (brd p)"
  by (simp_all add: on_kern_def on_sys_def upd_kern_def)

lemma mouse_init_inv: "mouse_inv f (fst (mouse_init io f (m, d)))"
  by (auto simp: mouse_init_def Let_def mouse_inv_def mouse_queue_inv_def fb_width_def fb_height_def)

text \<open>The state of the scheduler when it has only the task that boots.\<close>

definition fresh_sched :: "kernel \<Rightarrow> bool" where
  "fresh_sched k \<longleftrightarrow> sched_inv k \<and> used_slots k = {0} \<and> current k = Some 0 \<and> next_task_id k = 2 \<and> sched_ready k \<and>
     task_id (tasks k 0) = 1 \<and> task_state (tasks k 0) = Runnable \<and> \<not> is_user (tasks k 0)"

lemma bootstrap_fresh: "fresh_sched (sched_bootstrap_current (sched_init k))"
proof -
  let ?k = "sched_init k"
  have inv: "sched_inv (sched_bootstrap_current ?k)" by (rule bootstrap_inv[OF sched_init_inv]) (simp add: sched_init_fields)
  have f: "List.find (\<lambda>i. task_state (tasks ?k i) = Unused) [0..<MAX_TASKS] = Some 0"
    by (rule find_upt_SomeI) (simp_all add: sched_init_fields)
  have "fresh_task n x = y \<Longrightarrow> task_state y = Runnable \<and> task_id y = n" for n x y
    by (auto simp: fresh_task_def task_fd_init_def)
  note F = this[OF refl]
  have "sched_bootstrap_current ?k = enqueue 0 ((upd_task 0 (\<lambda>x. x\<lparr>is_user := False, task_cr3 := paging_kernel_pml4 (snd (alloc_task ?k)),
      task_pgid := ucast (task_id x)\<rparr>) (snd (alloc_task ?k)))\<lparr>current := Some 0\<rparr>)"
    by (simp add: sched_bootstrap_current_def alloc_task_def f)
  then have q: "sched_bootstrap_current ?k = ((snd (alloc_task ?k))\<lparr>current := Some 0, runq := Some 0, tasks := (tasks ?k)(0 :=
      (fresh_task 1 (tasks ?k 0))\<lparr>is_user := False, task_cr3 := paging_kernel_pml4 (snd (alloc_task ?k)),
        task_pgid := ucast (task_id (fresh_task 1 (tasks ?k 0))), task_next := Some 0\<rparr>)\<rparr>)"
    by (simp add: alloc_task_def f enqueue_def sched_init_fields upd_task_def)
  have "used_slots (sched_bootstrap_current ?k) = {0}"
    unfolding q by (auto simp: used_slots_def sched_init_fields F)
  with inv show ?thesis
    by (simp add: fresh_sched_def q alloc_task_def f F sched_init_fields)
qed

lemma fresh_sched_more: "machine.more k' = machine.more k \<Longrightarrow> fresh_sched k \<Longrightarrow> fresh_sched k'"
  using keeps_inv[OF keeps_more[of k' k]] kernel_part[of k' k] by (simp add: fresh_sched_def used_slots_def)

text \<open>A new kernel task, step by step: \<open>settled\<close> is what the steps between the slot and the queue leave alone.\<close>

definition settled :: "kernel \<Rightarrow> kernel \<Rightarrow> bool" where
  "settled k k' \<longleftrightarrow> current k' = current k \<and> sched_ready k' = sched_ready k \<and> (\<forall>i. task_state (tasks k' i) = task_state (tasks k i) \<and> task_id (tasks k' i) = task_id (tasks k i) \<and> is_user (tasks k' i) = is_user (tasks k i))"

lemma settled_trans: "settled k k' \<Longrightarrow> settled k' k'' \<Longrightarrow> settled k k''"
  by (simp add: settled_def)

lemma settled_used: "settled k k' \<Longrightarrow> used_slots k' = used_slots k"
  by (simp add: settled_def used_slots_def)

lemma settled_more: "machine.more k' = machine.more k \<Longrightarrow> settled k k'"
  using kernel_part[of k' k] by (simp add: settled_def)

lemma settled_upd: "task_state (g (tasks k t)) = task_state (tasks k t) \<Longrightarrow> task_id (g (tasks k t)) = task_id (tasks k t) \<Longrightarrow>
    is_user (g (tasks k t)) = is_user (tasks k t) \<Longrightarrow> settled k (upd_task t g k)"
  by (simp add: settled_def)

lemma settled_enqueue: "settled k (enqueue t k)"
  by (auto simp: settled_def enqueue_def Let_def split: option.splits)

lemma settled_kstack: "settled k (snd (give_kstack t k))"
proof -
  obtain b k1 where a: "alloc_stack KSTACK_PAGES k = (b, k1)" by (cases "alloc_stack KSTACK_PAGES k")
  have 1: "settled k k1" using settled_more[of k1 k] alloc_stack_more[of KSTACK_PAGES k] a by simp
  let ?k3 = "upd_task t (\<lambda>x. x\<lparr>kernel_stack_base := b, kernel_stack_top := b + KSTACK_SIZE\<rparr>) (k1\<lparr>kstacks := (kstacks k1)(t := b)\<rparr>)"
  have 2: "settled k1 (k1\<lparr>kstacks := (kstacks k1)(t := b)\<rparr>)" by (simp add: settled_def)
  have 3: "settled (k1\<lparr>kstacks := (kstacks k1)(t := b)\<rparr>) ?k3" by (rule settled_upd) simp_all
  have 4: "settled ?k3 (paging_mark_supervisor_region b KSTACK_SIZE ?k3)" by (rule settled_more) (rule mark_supervisor_more)
  show ?thesis
    using settled_trans[OF 1 2] settled_trans[OF settled_trans[OF settled_trans[OF 1 2] 3] 4] a
    by (auto simp: give_kstack_def Let_def)
qed

lemma create_kernel_spec:
  fixes k k' :: kernel
  assumes inv: "sched_inv k" and nx: "next_task_id k \<noteq> -1" and f: "sched_create_kernel e k = (r, k')"
  shows "case r of None \<Rightarrow> used_slots k' = used_slots k
     | Some t \<Rightarrow> used_slots k' = insert t (used_slots k) \<and> t \<notin> used_slots k \<and> task_state (tasks k' t) = Runnable"
    "current k' = current k" "sched_ready k' = sched_ready k"
    "\<forall>i\<in>used_slots k. task_id (tasks k' i) = task_id (tasks k i) \<and> is_user (tasks k' i) = is_user (tasks k i)"
proof -
  have "(case r of None \<Rightarrow> used_slots k' = used_slots k
     | Some t \<Rightarrow> used_slots k' = insert t (used_slots k) \<and> t \<notin> used_slots k \<and> task_state (tasks k' t) = Runnable) \<and>
    current k' = current k \<and> sched_ready k' = sched_ready k \<and>
    (\<forall>i\<in>used_slots k. task_id (tasks k' i) = task_id (tasks k i) \<and> is_user (tasks k' i) = is_user (tasks k i))"
  proof (cases "alloc_task k")
    case (Pair o1 k1)
    show ?thesis
    proof (cases o1)
      case None
      with Pair have "k1 = k" by (auto simp: alloc_task_def split: option.splits)
      with f None Pair show ?thesis by (auto simp: sched_create_kernel_def)
    next
      case (Some t)
      with Pair have al: "alloc_task k = (Some t, k1)" by simp
      note P = alloc_task_pending[OF inv al nx]
      have st: "task_state (tasks k1 t) = Runnable" "sched_ready k1 = sched_ready k" "\<not> is_user (tasks k1 t)"
        using al by (auto simp: alloc_task_def fresh_task_def task_fd_init_def split: option.splits)
      have same: "\<forall>i\<in>used_slots k. task_id (tasks m i) = task_id (tasks k i) \<and> is_user (tasks m i) = is_user (tasks k i)"
        if "settled k1 m" for m using that P(2,6) unfolding settled_def by metis
      obtain ok k2 where g: "give_kstack t k1 = (ok, k2)" by (cases "give_kstack t k1")
      have 2: "settled k1 k2" using settled_kstack[of k1 t] g by simp
      define k3 where "k3 = upd_task t (\<lambda>x. x\<lparr>task_cr3 := paging_kernel_pml4 k2\<rparr>) k2"
      define fr where "fr = kernel_stack_top (tasks k3 t) - 160"
      define k4 where "k4 = put_fields fr [(off_rip, e), (off_cs, 0x08), (off_rflags, 0x202),
          (off_int_no, 0), (off_err_code, 0)] (mem_zero fr 20 k3)"
      let ?k5 = "upd_task t (\<lambda>x. x\<lparr>task_rsp := fr, task_entry := e, is_user := False, task_pgid := ucast (task_id x)\<rparr>) k4"
      show ?thesis
      proof (cases ok)
        case True
        have 3: "settled k2 k3" unfolding k3_def by (rule settled_upd) simp_all
        have 4: "settled k3 k4" by (rule settled_more) (simp add: k4_def put_fields_more mem_zero_more)
        have "\<not> is_user (tasks k4 t)" using st(3) 2 3 4 unfolding settled_def by metis
        then have 5: "settled k4 ?k5" by (intro settled_upd) simp_all
        have q: "settled k1 (enqueue t ?k5)"
          by (rule settled_trans[OF 2 settled_trans[OF 3 settled_trans[OF 4 settled_trans[OF 5 settled_enqueue]]]])
        have fr2: "kernel_stack_top (tasks k2 t) - 160 = fr" by (simp add: fr_def k3_def)
        have r: "r = Some t" "k' = enqueue t ?k5"
          using f al g True by (simp_all add: sched_create_kernel_def Let_def k3_def[symmetric] fr2 k4_def[symmetric])
        have 6: "settled k1 k'" unfolding r(2) by (rule q)
        have "current k' = current k" "sched_ready k' = sched_ready k" "task_state (tasks k' t) = Runnable"
          using 6 P(4) st unfolding settled_def by metis+
        moreover have "used_slots k' = insert t (used_slots k)" using settled_used[OF 6] P(3) by (rule trans)
        moreover have "\<forall>i\<in>used_slots k. task_id (tasks k' i) = task_id (tasks k i) \<and> is_user (tasks k' i) = is_user (tasks k i)"
          using same[OF 6] .
        ultimately show ?thesis using P(2) by (simp add: r(1))
      next
        case False
        then have "r = None \<and> k' = release_slot t k2" using f al g by (simp add: sched_create_kernel_def)
        then have q: "k' = release_slot t k2" by simp
        from \<open>r = None \<and> k' = release_slot t k2\<close> have r: "r = None" "used_slots k' = used_slots k2 - {t}" "current k' = current k2" "sched_ready k' = sched_ready k2"
          by (simp_all add: used_slots_release) (simp_all add: release_slot_def)
        have "current k2 = current k" "sched_ready k2 = sched_ready k" using 2 P(4) st unfolding settled_def by metis+
        moreover have "\<forall>i. task_id (tasks k' i) = task_id (tasks k2 i) \<and> is_user (tasks k' i) = is_user (tasks k2 i)"
          using q by (simp add: release_slot_def)
        ultimately show ?thesis using r P(2,3) settled_used[OF 2] same[OF 2] by simp
      qed
    qed
  qed
  then show "case r of None \<Rightarrow> used_slots k' = used_slots k
     | Some t \<Rightarrow> used_slots k' = insert t (used_slots k) \<and> t \<notin> used_slots k \<and> task_state (tasks k' t) = Runnable"
    "current k' = current k" "sched_ready k' = sched_ready k"
    "\<forall>i\<in>used_slots k. task_id (tasks k' i) = task_id (tasks k i) \<and> is_user (tasks k' i) = is_user (tasks k i)" by blast+
qed

text \<open>The scheduler runs, with the booting task and at most an idle task.\<close>

lemma boot_tasks_spec:
  assumes "fresh_sched k"
  shows "sched_inv (boot_tasks l k) \<and> sched_running (boot_tasks l k) \<and> sched_ready (boot_tasks l k) \<and> current (boot_tasks l k) = Some 0 \<and>
    0 \<in> used_slots (boot_tasks l k) \<and> task_id (tasks (boot_tasks l k) 0) = 1 \<and> \<not> is_user (tasks (boot_tasks l k) 0) \<and>
    (\<forall>i\<in>used_slots (boot_tasks l k). i = 0 \<or> is_idle (tasks (boot_tasks l k) i) \<and> task_state (tasks (boot_tasks l k) i) = Runnable)"
proof -
  obtain r k1 where c: "sched_create_kernel (idle_thread l) k = (r, k1)" by (cases "sched_create_kernel (idle_thread l) k")
  have F: "sched_inv k" "next_task_id k \<noteq> -1" "used_slots k = {0}" "current k = Some 0" "sched_ready k"
    "task_id (tasks k 0) = 1" "\<not> is_user (tasks k 0)"
    using assms by (simp_all add: fresh_sched_def)
  note S = create_kernel_spec[OF F(1,2) c]
  have inv: "sched_inv k1" by (rule sched_create_kernel_inv[OF F(1,2) c])
  define k2 where "k2 = (case r of Some t \<Rightarrow> upd_task t (\<lambda>x. x\<lparr>is_idle := True\<rparr>) k1 | None \<Rightarrow> k1)"
  have K: "keeps k1 k2" by (auto simp: k2_def keeps_upd_task split: option.split)
  have b: "boot_tasks l k = sched_start k2" by (simp add: boot_tasks_def c k2_def)
  have "keeps k2 (sched_start k2)" by (simp add: keeps_def sched_start_def)
  then have 1: "sched_inv (sched_start k2)" "used_slots (sched_start k2) = used_slots k2"
    using keeps_inv[OF K inv] keeps_inv keeps_used_slots by blast+
  have u: "used_slots k2 = used_slots k1" by (rule keeps_used_slots[OF K])
  show ?thesis unfolding b using 1 u S F by (auto simp: sched_start_def k2_def split: option.splits)
qed

section \<open>The whole start\<close>

lemma boot_memory_simps [simp]:
  "vol (sys (brd (boot_memory p))) = vol (sys (brd p))"
  by (simp add: boot_memory_def Let_def upd_screen_def)

lemma boot_tables_spec:
  "fresh_sched (kern_of (boot_tables l hw p))" "\<not> keyboard_has_event (keyb (sys (brd (boot_tables l hw p))))"
  "keyboard_inv (keyb (sys (brd (boot_tables l hw p))))" "mouse_inv (screen_of (boot_tables l hw p)) (pointer (sys (brd (boot_tables l hw p))))"
  "term_state (sys (brd (boot_tables l hw p))) = \<lparr>foreground_pgid = 0, tty_mode = TTY_MODE_COOKED\<rparr>"
  "vol (sys (brd (boot_tables l hw p))) = vol (sys (brd p))" "screen_of (boot_tables l hw p) = screen_of p"
proof -
  obtain gates reg d where i: "idt_init (isr_stub l) (irq0_stub l) (irq1_stub l) (irq12_stub l) (idt_addr l) (hw_ports hw)
      (idt_gates p, devices (brd p)) = (gates, reg, d)"
    by (rule prod_cases3)
  obtain m d' where m: "mouse_init (hw_ports hw) (screen_of p) (pointer (sys (brd p)), d) = (m, d')"
    by (cases "mouse_init (hw_ports hw) (screen_of p) (pointer (sys (brd p)), d)")
  define k where "k = (kern_of p)\<lparr>tss_rsp0 := ts_rsp0 (gdt_task (gdt_init (gdt_addr l) (tss_addr l) (gdt_regs p)))\<rparr>"
  have b: "sys (brd (boot_tables l hw p)) = (sys (brd p))\<lparr>kern := sched_bootstrap_current (sched_init k),
      term_state := tty_init (term_state (sys (brd p))), keyb := keyboard_init (keyb (sys (brd p))), pointer := m\<rparr>"
    unfolding boot_tables_def Let_def using i m by (simp add: on_kern_def on_sys_def upd_kern_def k_def)
  show "fresh_sched (kern_of (boot_tables l hw p))" "\<not> keyboard_has_event (keyb (sys (brd (boot_tables l hw p))))"
    "keyboard_inv (keyb (sys (brd (boot_tables l hw p))))" "vol (sys (brd (boot_tables l hw p))) = vol (sys (brd p))"
    "term_state (sys (brd (boot_tables l hw p))) = \<lparr>foreground_pgid = 0, tty_mode = TTY_MODE_COOKED\<rparr>"
    "screen_of (boot_tables l hw p) = screen_of p"
    by (simp_all add: b bootstrap_fresh keyboard_init_def keyboard_has_event_def keyboard_inv_def tty_init_def)
  show "mouse_inv (screen_of (boot_tables l hw p)) (pointer (sys (brd (boot_tables l hw p))))"
    using mouse_init_inv[of "screen_of p" "hw_ports hw" "pointer (sys (brd p))" d] by (simp add: b m)
qed

lemma boot_spec:
  assumes bus: "bus_master hw"
  shows "case boot l hw p of
      None \<Rightarrow> (\<exists>f. fat32_init 0 (vol (sys (brd p))) = (0, f) \<and> ensure_paths standard_directories (vfs_set_root (Some 0) f) = None)
    | Some Undef \<Rightarrow> uhci_init hw (usb_of (brd (boot_tables l hw (boot_memory p)))) = Undef
    | Some (Done p') \<Rightarrow>
        sched_inv (kern_of p') \<and> sched_running (kern_of p') \<and> sched_ready (kern_of p') \<and> current (kern_of p') = Some 0 \<and>
        task_id (tasks (kern_of p') 0) = 1 \<and> \<not> is_user (tasks (kern_of p') 0) \<and>
        (\<forall>i\<in>used_slots (kern_of p'). i = 0 \<or> is_idle (tasks (kern_of p') i) \<and> task_state (tasks (kern_of p') i) = Runnable) \<and>
        keyboard_inv (keyb (sys (brd p'))) \<and> \<not> keyboard_has_event (keyb (sys (brd p'))) \<and>
        mouse_inv (screen_of p') (pointer (sys (brd p'))) \<and>
        term_state (sys (brd p')) = \<lparr>foreground_pgid = 0, tty_mode = TTY_MODE_COOKED\<rparr> \<and> ata_drive p' = 1"
proof -
  define p0 where "p0 = boot_tables l hw (boot_memory p)"
  note T = boot_tables_spec[of l hw "boot_memory p", folded p0_def]
  show ?thesis
  proof (cases "uhci_init hw (usb_of (brd p0))")
    case Undef
    then show ?thesis by (simp add: boot_def boot_devices_def p0_def)
  next
    case (Done u)
    have more: "machine.more (ram u) = machine.more (kern_of p0)" using uhci_init_beyond_ram[OF bus Done] by simp
    obtain n d where sel: "ata_select_drive (hw_ports hw) 1 (ata_init (hw_ports hw) (ata_drive p0, dev u)) = (n, d)"
      by (cases "ata_select_drive (hw_ports hw) 1 (ata_init (hw_ports hw) (ata_drive p0, dev u))")
    have n: "n = 1" using sel by (auto simp: ata_select_drive_def split: prod.splits)
    define p1 where "p1 = (on_kern (\<lambda>_. ram u) (p0\<lparr>brd := (brd p0)\<lparr>usb_drv := drv u, devices := dev u\<rparr>\<rparr>))\<lparr>
      msrs := syscall_init (syscall_entry l) (msrs p0), ata_drive := n\<rparr>"
    define p2 where "p2 = p1\<lparr>brd := (brd p1)\<lparr>devices := d\<rparr>\<rparr>"
    have dev: "boot_devices l hw p0 = Done p2"
      unfolding boot_devices_def Done outcome.case Let_def p2_def p1_def using sel by (simp add: on_kern_def upd_kern_def)
    have s2: "sys (brd p2) = (sys (brd p0))\<lparr>kern := ram u\<rparr>" "ata_drive p2 = 1"
      by (simp_all add: p2_def p1_def on_kern_def upd_kern_def n)
    have boot: "boot l hw p = map_option (\<lambda>q. Done (on_kern (boot_tasks l) q)) (boot_files p2)"
      unfolding boot_def p0_def[symmetric] dev by simp
    show ?thesis
    proof (cases "boot_files p2")
      case None
      then have "fst (fat32_init 0 (vol (sys (brd p)))) = 0 \<and>
          ensure_paths standard_directories (vfs_set_root (Some 0) (snd (fat32_init 0 (vol (sys (brd p)))))) = None"
        using T(6) by (auto simp: boot_files_def s2 Let_def split_beta simp del: ensure_paths.simps split: if_splits)
      then show ?thesis unfolding boot None by (cases "fat32_init 0 (vol (sys (brd p)))") (auto simp del: ensure_paths.simps)
    next
      case (Some p3)
      have files: "machine.more (kern_of p3) = machine.more (ram u)" "keyb (sys (brd p3)) = keyb (sys (brd p0))"
        "pointer (sys (brd p3)) = pointer (sys (brd p0))" "screen_of p3 = screen_of p0"
        "term_state (sys (brd p3)) = term_state (sys (brd p0))" "ata_drive p3 = 1"
        using Some by (auto simp: boot_files_def s2 Let_def split_beta simp del: ensure_paths.simps split: if_splits)
      have fr: "fresh_sched (kern_of p3)" using fresh_sched_more[OF trans[OF files(1) more] T(1)] .
      show ?thesis
        unfolding boot Some using boot_tasks_spec[OF fr, of l] T files by simp
    qed
  qed
qed


text \<open>A machine without PCI devices and with an empty disk.\<close>

definition quiet_hw :: "unit board_hw" where
  "quiet_hw = \<lparr>hw_ports = \<lparr>port_in8 = (\<lambda>_ d. (0, d)), port_out8 = (\<lambda>_ _ d. d), port_in16 = (\<lambda>_ d. (0, d)),
     port_out16 = (\<lambda>_ _ d. d), port_in32 = (\<lambda>_ d. (0xFFFFFFFF, d)), port_out32 = (\<lambda>_ _ d. d)\<rparr>, hw_run = Pair\<rparr>"

definition cold_pc :: "unit pc" where
  "cold_pc = undefined\<lparr>brd := sample_board\<lparr>sys := (sys sample_board)\<lparr>vol := undefined\<lparr>disk := (\<lambda>_ _. 0)\<rparr>\<rparr>\<rparr>\<rparr>"

definition cold_link :: link where
  "cold_link = \<lparr>isr_stub = (\<lambda>n. 0x100000 + of_nat n * 16), irq0_stub = 0x101000, irq1_stub = 0x101010, irq12_stub = 0x101020,
     idt_addr = 0x102000, gdt_addr = 0x103000, tss_addr = 0x104000, syscall_entry = 0x105000, idle_thread = 0x106000\<rparr>"

lemma no_pci: "pci_scan_slots (hw_ports quiet_hw) c sc pi out locs d = (None, d)"
proof (induction locs)
  case (Cons x locs)
  have "map of_nat [0..<8] = (0 :: u8) # map of_nat [1..<8]" by (simp add: upt_rec[of 0])
  then have "pci_scan_funcs (hw_ports quiet_hw) c sc pi out b s (map of_nat [0..<8]) d = (None, d)" for b s
    by (simp add: quiet_hw_def pci_config_read32_def mask_numeral)
  then show ?case using Cons by (cases x) simp
qed simp

lemma quiet_bus: "bus_master quiet_hw"
  by (simp add: bus_master_def quiet_hw_def)

lemma cold_boots: "\<exists>p'. boot cold_link quiet_hw cold_pc = Some (Done p')"
proof -
  have "uhci_init quiet_hw s = Done (dbg_char quiet_hw NEWLINE (dbg_str quiet_hw ''UHCI: no controller found'' s))" for s :: "(unit, unit kernel_ext) usb"
    by (simp add: uhci_init_def pci_find_device_def no_pci del: bytes_of_def)
  then have "uhci_init quiet_hw s \<noteq> Undef" for s :: "(unit, unit kernel_ext) usb" by simp
  moreover have "fst (fat32_init 0 (vol (sys (brd cold_pc)))) = -1"
    by (simp add: fat32_init_def load_sector_def disk_read_def cold_pc_def Let_def le16_def le32_def)
  ultimately show ?thesis
    using boot_spec[OF quiet_bus, where l = cold_link and p = cold_pc] by (auto split: option.splits outcome.splits)
qed


end
