(* ===== verification/Inputs.thy ===== *)
theory Inputs
  imports Irq_Props Spawn_Props
begin

text \<open>
  The input queues, the pointer and the size of the screen as the system calls see them: only the call that
  polls for input takes anything from a queue, and drawing and printing change pixels but not the mode.
\<close>

section \<open>Drawing keeps the mode\<close>

lemma fold_mode: "(\<And>x f. same_mode f (g x f)) \<Longrightarrow> same_mode f (fold g xs f)"
  by (induction xs arbitrary: f) (auto intro: same_mode_trans)

lemma font_draw_mode: "same_mode f (font_draw_char fo c x y colour f)"
  unfolding font_draw_char_def Let_def by (auto split: option.split intro!: fold_mode)

lemma fill_rect_mode: "same_mode f (fill_rect x y w h colour f)"
  unfolding fill_rect_def by (intro fold_mode putpixel_mode)

lemma draw_cell_mode: "same_mode f (draw_cell row col ch f)"
  unfolding draw_cell_def Let_def by (rule same_mode_trans[OF fill_rect_mode font_draw_mode])

lemma present_mode: "same_mode f (fb_present_buffer src n f)" "same_mode f (fb_present_buffer_rect src x y w h f)"
  by (auto simp: fb_present_buffer_def fb_present_buffer_rect_def Let_def same_mode_def split: option.split)

definition mode_kept :: "console \<Rightarrow> console \<Rightarrow> bool" where
  "mode_kept c c' \<longleftrightarrow> same_mode (screen c) (screen c')"

lemma mode_refl [simp]: "mode_kept c c"
  by (simp add: mode_kept_def)

lemma mode_trans: "mode_kept c c' \<Longrightarrow> mode_kept c' c'' \<Longrightarrow> mode_kept c c''"
  unfolding mode_kept_def by (rule same_mode_trans)

lemma fold_kept: "(\<And>x c. mode_kept c (g x c)) \<Longrightarrow> mode_kept c (fold g xs c)"
  by (induction xs arbitrary: c) (auto intro: mode_trans)

lemma put_char_kept: "mode_kept c (put_char row col ch c)"
  by (simp add: mode_kept_def put_char_def)

lemma redraw_kept: "mode_kept c (redraw_all c)"
  unfolding mode_kept_def redraw_all_def by simp (intro fold_mode draw_cell_mode)

lemma cursor_kept [simp]: "mode_kept c (c'\<lparr>cursor_row := r\<rparr>) = mode_kept c c'" "mode_kept c (c'\<lparr>cursor_col := k\<rparr>) = mode_kept c c'"
  "mode_kept (c'\<lparr>cursor_row := r\<rparr>) c = mode_kept c' c" "mode_kept (c'\<lparr>cursor_col := k\<rparr>) c = mode_kept c' c"
  by (simp_all add: mode_kept_def)

lemma scroll_up_kept: "mode_kept c (scroll_up c)"
proof -
  define c1 where "c1 = fold (\<lambda>row c. fold (\<lambda>col c. put_char (row - 1) col (console_chars c row col) c)
                     [0..CONSOLE_COLS - 1] c) [1..CONSOLE_ROWS - 1] c"
  define c2 where "c2 = fold (\<lambda>col. put_char (CONSOLE_ROWS - 1) col 32) [0..CONSOLE_COLS - 1] c1"
  have 1: "mode_kept c c1" unfolding c1_def by (intro fold_kept put_char_kept)
  have 2: "mode_kept c1 c2" unfolding c2_def by (intro fold_kept put_char_kept)
  have "scroll_up c = (redraw_all c2)\<lparr>cursor_row := CONSOLE_ROWS - 1\<rparr>"
    unfolding scroll_up_def Let_def c1_def[symmetric] c2_def[symmetric] ..
  then show ?thesis using mode_trans[OF 1 mode_trans[OF 2 redraw_kept[of c2]]] by simp
qed

lemma show_char_kept: "mode_kept c (show_char ch c)"
  by (simp add: show_char_def mode_kept_def put_char_def draw_cell_mode)

lemma show_back_kept: "mode_kept c (show_char ch (c\<lparr>cursor_col := k\<rparr>))"
  using show_char_kept[of "c\<lparr>cursor_col := k\<rparr>" ch] unfolding cursor_kept .

lemma tab_loop_kept: "mode_kept c (tab_loop next c)"
proof (induction "next" c rule: tab_loop.induct)
  case (1 n c)
  let ?c = "show_char 32 c"
  let ?d = "?c\<lparr>cursor_col := cursor_col ?c + 1\<rparr>"
  have k: "mode_kept c ?d" using show_char_kept[of c 32] by simp
  have "cursor_col c < n \<Longrightarrow> \<not> cursor_col ?d \<ge> CONSOLE_COLS \<Longrightarrow> mode_kept ?d (tab_loop n ?d)" using "1.IH" by blast
  then have "cursor_col c < n \<Longrightarrow> \<not> cursor_col ?d \<ge> CONSOLE_COLS \<Longrightarrow> mode_kept c (tab_loop n ?d)" using mode_trans[OF k] by blast
  then show ?case using show_char_kept[of c 32] by (subst tab_loop.simps) (simp add: Let_def)
qed

lemma putc_kept: "mode_kept c (console_putc ch c)"
proof -
  have b: "mode_kept c (putc_body ch c)"
    by (simp add: putc_body_def Let_def show_char_kept tab_loop_kept show_back_kept)
  then show ?thesis using mode_trans[OF b scroll_up_kept] mode_trans[OF _ scroll_up_kept]
    by (simp add: console_putc_def Let_def)
qed

lemma console_write_kept: "mode_kept c (snd (console_write buf n c))"
  unfolding console_write_def by (auto split: option.split intro!: fold_kept putc_kept)

lemma print_kept: "mode_kept c (print_str str c)" "mode_kept c (print_int_local n c)"
proof -
  show "mode_kept c (print_str str c)" unfolding print_str_def by (rule console_write_kept)
  have "mode_kept c (fold (\<lambda>d. console_putc (uint d)) ds c)" for ds :: "u8 list" and c by (intro fold_kept putc_kept)
  then show "mode_kept c (print_int_local n c)"
    using mode_trans[OF putc_kept[of c 45]] putc_kept by (simp add: print_int_local_def Let_def)
qed

section \<open>System calls\<close>

text \<open>What the input side of the kernel depends on.\<close>

definition inputs :: "system \<Rightarrow> keyboard \<times> mouse \<times> int \<times> int" where
  "inputs s = (keyb s, pointer s, fb_width (screen (cons s)), fb_height (screen (cons s)))"

definition mute :: "system \<Rightarrow> sysres \<Rightarrow> bool" where
  "mute s r \<longleftrightarrow> (\<forall>v s'. r = Some (Done (v, s')) \<longrightarrow> inputs s' = inputs s)"

lemma inputs_simps [simp]:
  "inputs (s\<lparr>kern := k\<rparr>) = inputs s" "inputs (s\<lparr>vol := v\<rparr>) = inputs s" "inputs (s\<lparr>user_mem := m\<rparr>) = inputs s"
  "inputs (s\<lparr>term_state := term\<rparr>) = inputs s" "inputs (user_put a xs s) = inputs s" "inputs (put_stat buf n s) = inputs s"
  "inputs (upd_fd t i f s) = inputs s" "inputs (upd_pipe p g s) = inputs s"
  by (simp_all add: inputs_def user_put_def put_stat_def upd_fd_def upd_pipe_def Let_def)

lemma inputs_console: "mode_kept (cons s) c \<Longrightarrow> inputs (s\<lparr>cons := c\<rparr>) = inputs s"
  by (simp add: inputs_def mode_kept_def same_mode_def fb_width_def fb_height_def)

lemma inputs_screen: "(\<And>f. same_mode f (g f)) \<Longrightarrow> inputs (upd_screen g s) = inputs s"
  unfolding upd_screen_def by (rule inputs_console) (simp add: mode_kept_def)

named_theorems mute_rules \<open>calls that leave the input side alone\<close>

lemma mute_basic [mute_rules]: "mute s undef" "mute s None" "inputs s' = inputs s \<Longrightarrow> mute s (ret v s')"
    "inputs s' = inputs s \<Longrightarrow> mute s (Some (Done (r, s')))"
  by (simp_all add: mute_def ret_def)

lemma mute_with_task [mute_rules]: "(\<And>t. mute s (g t)) \<Longrightarrow> mute s (with_task g s')"
  by (simp add: with_task_def mute_rules split: option.splits)

lemma mute_with_fd [mute_rules]: "inputs s' = inputs s \<Longrightarrow> (\<And>t i e. mute s (g t i e)) \<Longrightarrow> mute s (with_fd fd g s')"
  unfolding with_fd_def by (intro mute_rules) (simp add: mute_rules split: option.splits)

lemma mute_on_volume [mute_rules]: "(\<And>r v. mute s (h r (s'\<lparr>vol := v\<rparr>))) \<Longrightarrow> mute s (on_volume g h s')"
  by (simp add: on_volume_def mute_rules split: Option.bind_splits)

lemma mute_with_path [mute_rules]: "(\<And>p. mute s (g p s')) \<Longrightarrow> mute s (with_path p g s')"
  by (simp add: with_path_def mute_rules split: outcome.splits)

lemma mute_if [mute_rules]: "(b \<Longrightarrow> mute s x) \<Longrightarrow> (\<not> b \<Longrightarrow> mute s y) \<Longrightarrow> mute s (if b then x else y)"
  by simp

lemma mute_cases [mute_rules]:
  "mute s x \<Longrightarrow> (\<And>a. o1 = Some a \<Longrightarrow> mute s (h a)) \<Longrightarrow> mute s (case o1 of None \<Rightarrow> x | Some a \<Rightarrow> h a)"
  "mute s x \<Longrightarrow> (\<And>a. o2 = Done a \<Longrightarrow> mute s (g a)) \<Longrightarrow> mute s (case o2 of Done a \<Rightarrow> g a | Undef \<Rightarrow> x)"
  "(\<And>a b. p = (a, b) \<Longrightarrow> mute s (f a b)) \<Longrightarrow> mute s (case p of (a, b) \<Rightarrow> f a b)"
  "(fd_type_now = FD_UNUSED \<Longrightarrow> mute s k1) \<Longrightarrow> (fd_type_now = FD_CONSOLE \<Longrightarrow> mute s k2) \<Longrightarrow> (fd_type_now = FD_FILE \<Longrightarrow> mute s k3) \<Longrightarrow>
    (fd_type_now = FD_DIR \<Longrightarrow> mute s k4) \<Longrightarrow> (fd_type_now = FD_PIPE \<Longrightarrow> mute s k5) \<Longrightarrow>
    mute s (case fd_type_now of FD_UNUSED \<Rightarrow> k1 | FD_CONSOLE \<Rightarrow> k2 | FD_FILE \<Rightarrow> k3 | FD_DIR \<Rightarrow> k4 | FD_PIPE \<Rightarrow> k5)"
  by (simp_all split: option.splits outcome.splits prod.splits fd_kind.splits)

lemma mute_files:
  "mute s (sys_read fd buf count s)" "mute s (open_node node flags s)" "mute s (sys_close fd s)" "mute s (path_op g path s)"
  "mute s (sys_readdir fd buf index s)" "mute s (sys_chdir path s)" "mute s (sys_getcwd buf len s)" "mute s (sys_seek fd off whence s)"
  "mute s (sys_dup2 fd fd' s)" "mute s (sys_pipe fds s)"
  unfolding sys_read_def open_node_def sys_close_def path_op_def sys_readdir_def sys_chdir_def sys_getcwd_def sys_seek_def
    sys_dup2_def sys_pipe_def Let_def
  by (intro mute_rules; (auto intro!: mute_rules split: safe_splits)?)+

lemma mute_sys_write: "mute s (sys_write fd buf count s)"
  unfolding sys_write_def Let_def
  by (intro mute_rules; (auto intro!: mute_rules inputs_console split: safe_splits)?)
    (metis console_write_kept snd_conv)+

lemma mute_sys_open: "mute s (sys_open path flags s)"
proof -
  have o: "inputs s' = inputs s \<Longrightarrow> mute s (open_node n flags s')" for n s'
    using mute_files(2)[of s' n flags] by (simp add: mute_def)
  show ?thesis unfolding sys_open_def by (intro mute_rules o) simp_all
qed

lemma mute_paths:
  "mute s (sys_rmdir path s)" "mute s (sys_unlink path s)" "mute s (sys_create path s)"
  "mute s (sys_mkdir path s)" "mute s (sys_rename path path' s)" "mute s (sys_truncate path len s)"
  "mute s (sys_stat path buf s)" "mute s (sys_fstat fd buf s)"
  unfolding sys_rmdir_def sys_unlink_def sys_create_def sys_mkdir_def sys_rename_def sys_truncate_def sys_stat_def sys_fstat_def
  by (intro mute_files mute_rules; simp)+

lemma mute_processes:
  "mute s (sys_exit code s)" "mute s (sys_fork s)" "mute s (sys_waitpid pid s)" "mute s (sys_getpid s)" "mute s (sys_kill pid sig s)"
  "mute s (sys_signal sig h s)" "mute s (sys_setpgid pid pgid s)"
  unfolding sys_exit_def sys_fork_def sys_waitpid_def sys_getpid_def sys_kill_def sys_signal_def sys_setpgid_def Let_def
  by (auto intro!: mute_rules split: Option.bind_splits outcome.splits wait_result.splits prod.splits option.splits)

lemma mute_screen:
  "mute s (sys_fb_info out s)" "mute s (sys_fb_putpixel x y c s)" "mute s (sys_fb_map s)" "mute s (sys_fb_present src s)"
  "mute s (sys_fb_present_rect src x y w h' s)"
  unfolding sys_fb_info_def sys_fb_putpixel_def sys_fb_map_def sys_fb_present_def sys_fb_present_rect_def Let_def
  by (auto intro!: mute_rules inputs_screen present_mode putpixel_mode split: option.splits prod.splits bool.splits)

lemma syscall_handler_mute: "num \<noteq> 31 \<Longrightarrow> mute s (syscall_handler num a1 a2 a3 a4 a5 s)"
  unfolding syscall_handler_def
  by (intro mute_if mute_processes mute_files mute_sys_write mute_sys_open mute_paths mute_screen) (simp_all add: mute_rules)

definition input_ok :: "system \<Rightarrow> bool" where
  "input_ok s \<longleftrightarrow> keyboard_inv (keyb s) \<and> mouse_inv (screen (cons s)) (pointer s) \<and> small_screen (screen (cons s))"

lemma input_ok_cong: "inputs s' = inputs s \<Longrightarrow> input_ok s' = input_ok s"
  by (simp add: inputs_def input_ok_def mouse_inv_def small_screen_def)

lemma board_inv_alt: "board_inv b \<longleftrightarrow> sched_inv (kern (sys b)) \<and> input_ok (sys b)"
  by (simp add: board_inv_def input_ok_def)

lemma input_poll_ok:
  assumes ok: "input_ok s" and r: "sys_input_poll out s = Some (Done (v, s'))"
  shows "input_ok s'"
proof -
  have k: "keyboard_inv (snd (keyboard_poll_event (keyb s)))"
    using ok by (simp add: input_ok_def keyboard_poll_event_def keyboard_inv_def)
  have m: "mouse_inv (screen (cons s)) (snd (mouse_poll_event (pointer s)))"
    using ok by (simp add: input_ok_def mouse_poll_event_def mouse_inv_def mouse_queue_inv_def)
  show ?thesis
    using r ok k m by (auto simp: sys_input_poll_def ret_def Let_def input_ok_def user_put_def split: if_splits prod.splits option.splits)
qed

lemma syscall_input_ok:
  assumes "input_ok s" "syscall_handler num a1 a2 a3 a4 a5 s = Some (Done (v, s'))"
  shows "input_ok s'"
proof (cases "num = 31")
  case True
  then have "sys_input_poll a1 s = Some (Done (v, s'))" using assms(2) by (simp add: syscall_handler_def)
  then show ?thesis by (rule input_poll_ok[OF assms(1)])
next
  case False
  from syscall_handler_mute[OF this, of s a1 a2 a3 a4 a5] assms show ?thesis using input_ok_cong unfolding mute_def by blast
qed

section \<open>New programs\<close>

definition elf_mute :: "system \<Rightarrow> ('r \<times> elf_state) outcome option \<Rightarrow> bool" where
  "elf_mute s r \<longleftrightarrow> (\<forall>v l s'. r = Some (Done (v, l, s')) \<longrightarrow> inputs s' = inputs s)"

lemma say_inputs [simp]: "inputs (snd (say msg st)) = inputs (snd st)" "inputs (snd (say_int n st)) = inputs (snd st)"
  using inputs_console[OF print_kept(1)] inputs_console[OF print_kept(2)] by (simp_all add: say_def say_int_def split_beta)

lemma elf_read_mute:
  assumes bad: "\<And>hv l s. inputs (snd (bad hv (l, s))) = inputs s"
  shows "elf_mute s (elf_read node bad (l, s))"
proof -
  have b: "bad hv (l, s1) = (l', s2) \<Longrightarrow> inputs s2 = inputs s1" for hv l s1 l' s2 using bad[of hv l s1] by simp
  have y: "say msg (l, s1) = (l', s2) \<Longrightarrow> inputs s2 = inputs s1" for msg l s1 l' s2 using say_inputs(1)[of msg "(l, s1)"] by simp
  show ?thesis
    unfolding elf_mute_def elf_read_def Let_def
    by (auto split: if_splits prod.splits Option.bind_splits outcome.splits option.splits dest!: b y)
qed

lemma elf_load_into_mute: "elf_mute s (elf_load_into node pml4 (l, s))"
proof -
  have y: "say msg (l, s1) = (l', s2) \<Longrightarrow> inputs s2 = inputs s1" for msg l s1 l' s2 using say_inputs(1)[of msg "(l, s1)"] by simp
  define bad where "bad = (\<lambda>hv. say (bytes_of '')'' @ newline) \<circ> say_int hv \<circ> say (bytes_of ''exec: invalid ELF (''))"
  have "inputs (snd (bad hv (l, s))) = inputs s" for hv l s by (simp add: bad_def)
  then have r: "elf_read node bad (l, s) = Some (Done (c, l', s')) \<Longrightarrow> inputs s' = inputs s" for c l' s'
    using elf_read_mute[of bad s node l] unfolding elf_mute_def by blast
  show ?thesis
    unfolding elf_mute_def elf_load_into_def Let_def bad_def[symmetric]
    by (auto split: if_splits prod.splits Option.bind_splits outcome.splits dest!: r y)
qed

lemma sched_spawn_mute: "elf_mute s (sched_spawn path args fds (l, s))"
proof -
  have r: "elf_load_into n pml4 (l, s1) = Some (Done (c, l', s')) \<Longrightarrow> inputs s' = inputs s1" for n pml4 l s1 c l' s'
    using elf_load_into_mute[of s1 n pml4 l] unfolding elf_mute_def by blast
  show ?thesis
    unfolding elf_mute_def sched_spawn_def Let_def
    by (auto split: if_splits prod.splits Option.bind_splits outcome.splits option.splits dest!: r)
qed

end
