(* ===== verification/Kernel_Run.thy ===== *)
theory Kernel_Run
  imports Kernel_Props Inputs
begin

text \<open>
  The kernel as a whole: it starts with \<^verbatim>\<open>kernel_main\<close> and then takes steps, which are interrupts, faults, system calls,
  the end of a wait, new programs, and what programs and devices do to memory and to
  themselves.  Every state it reaches is sound.  A system call is one step, up to the point where it halts: the
  interrupts that \<^verbatim>\<open>syscall_entry.asm\<close> lets in while the handler runs come before or after it here.
\<close>

section \<open>The boot information\<close>

text \<open>The bootstrap tables are not in the page where the boot loader left the description of the screen.\<close>

definition tables_off :: "u64 \<Rightarrow> 'a machine_scheme \<Rightarrow> bool" where
  "tables_off a m \<longleftrightarrow> a \<notin> {sym_pml4 (syms m), sym_pdpt (syms m), sym_pd (syms m)} \<and> (\<forall>p<8. pt_frame (syms m) p \<noteq> a)"

definition page_kept :: "u64 \<Rightarrow> 'a machine_scheme \<Rightarrow> 'a machine_scheme \<Rightarrow> bool" where
  "page_kept a m m' \<longleftrightarrow> frames m' a = frames m a \<and> syms m' = syms m"

lemma page_kept_put: "page_kept a m m' \<Longrightarrow> t \<noteq> a \<Longrightarrow> page_kept a m (put_entry t i e m')"
  "page_kept a m m' \<Longrightarrow> t \<noteq> a \<Longrightarrow> page_kept a m (zero_frame t m')"
  by (simp_all add: page_kept_def put_entry_def zero_frame_def)

lemma page_kept_region:
  assumes "tables_off a m" "page_kept a m m'"
  shows "page_kept a m (boot_region f x y m')"
  unfolding boot_region_def
proof (rule fold_inv[where I = "page_kept a m", OF _ assms(2)])
  fix v m1 assume k: "page_kept a m m1"
  then have "pt_frame (syms m1) n \<noteq> a" if "n < 8" for n using assms(1) that by (simp add: tables_off_def page_kept_def)
  then show "page_kept a m (boot_pt_update f v m1)" using k by (auto simp: boot_pt_update_def Let_def intro: page_kept_put)
qed

lemma paging_init_page:
  assumes off: "tables_off a m"
  shows "frames (paging_init m) a = frames m a"
proof -
  define b where "b = syms m"
  have t: "sym_pml4 b \<noteq> a" "sym_pdpt b \<noteq> a" "sym_pd b \<noteq> a" "\<And>p. p < 8 \<Longrightarrow> pt_frame b p \<noteq> a"
    using off by (auto simp: tables_off_def b_def)
  define m1 where "m1 = zero_frame (sym_pd b) (zero_frame (sym_pdpt b) (zero_frame (sym_pml4 b) (m\<lparr>kernel_pml4 := sym_pml4 b\<rparr>)))"
  define m2 where "m2 = fold (\<lambda>p. zero_frame (pt_frame b p)) [0..<NUM_PT] m1"
  define m3 where "m3 = put_entry (sym_pdpt b) 0 (sym_pd b OR (PAGE_PRESENT OR PAGE_WRITABLE OR PAGE_USER))
    (put_entry (sym_pml4 b) 0 (sym_pdpt b OR (PAGE_PRESENT OR PAGE_WRITABLE OR PAGE_USER)) m2)"
  define m4 where "m4 = fold (\<lambda>p. put_entry (sym_pd b) p (pt_frame b p OR (PAGE_PRESENT OR PAGE_WRITABLE OR PAGE_USER))) [0..<NUM_PT] m3"
  define m5 where "m5 = fold (\<lambda>p. fill_pt (pt_frame b p) (boot_identity p)) [0..<NUM_PT] m4"
  define m6 where "m6 = put_entry (pt_frame b 0) 0 (0 OR (PAGE_PRESENT OR PAGE_WRITABLE)) m5"
  define m7 where "m7 = fold (\<lambda>addr. boot_region clear_user (addr AND ADDR_MASK) ((addr + 0x1000 + 0xFFF) AND ADDR_MASK))
    [sym_pml4 b, sym_pdpt b, sym_pd b, pt_frame b 0, pt_frame b (NUM_PT - 1) + of_nat (PT_ENTRIES - 1) * 8] m6"
  have "page_kept a m (m\<lparr>kernel_pml4 := sym_pml4 b\<rparr>)" by (simp add: page_kept_def)
  then have 1: "page_kept a m m1" unfolding m1_def using t by (intro page_kept_put) auto
  have 2: "page_kept a m m2" unfolding m2_def by (rule fold_inv[where I = "page_kept a m", OF _ 1]) (rule page_kept_put(2), assumption, rule t(4), simp)
  have 3: "page_kept a m m3" unfolding m3_def using t by (intro page_kept_put 2) auto
  have 4: "page_kept a m m4" unfolding m4_def by (rule fold_inv[where I = "page_kept a m", OF _ 3]) (rule page_kept_put(1), assumption, rule t(3))
  have fill: "page_kept a m x \<Longrightarrow> u \<noteq> a \<Longrightarrow> page_kept a m (fill_pt u g x)" for x u g
    unfolding fill_pt_def by (erule fold_inv[where I = "page_kept a m", rotated]) (rule page_kept_put(1))
  have 5: "page_kept a m m5" unfolding m5_def by (rule fold_inv[where I = "page_kept a m", OF _ 4]) (rule fill, assumption, rule t(4), simp)
  have 6: "page_kept a m m6" unfolding m6_def by (intro page_kept_put 5 t) simp
  have 7: "page_kept a m m7" unfolding m7_def by (rule fold_inv[where I = "page_kept a m", OF _ 6]) (rule page_kept_region[OF off])
  have "paging_init m = m7\<lparr>cr3 := sym_pml4 b\<rparr>"
    unfolding paging_init_def Let_def b_def[symmetric] m1_def[symmetric] m2_def[symmetric] m3_def[symmetric] m4_def[symmetric]
      m5_def[symmetric] m6_def[symmetric] m7_def[symmetric] ..
  with 7 show ?thesis by (simp add: page_kept_def)
qed

lemma put_run_syms: "syms (put_run dst n g m) = syms m"
  by (induction n) (simp_all add: put_run_simps put_byte_def put_qword_def put_entry_def)

text \<open>What \<^verbatim>\<open>fb_init\<close> reads is what the boot loader wrote.\<close>

lemma boot_memory_byte:
  assumes off: "tables_off 0x5000 (kern_of p)" and j: "j < 0x1000" and len: "length str \<le> 640"
  shows "get_byte (0x5000 + of_nat j) (paging_init (print str 0 (kern_of p))) = get_byte (0x5000 + of_nat j) (kern_of p)"
proof -
  let ?a = "0x5000 + of_nat j :: u64"
  have u: "unat (of_nat j :: u64) = j" using j by (simp add: unat_of_nat_small)
  have pg: "?a AND ADDR_MASK = 0x5000" "unat ?a = 0x5000 + j" using page_plus(1,3)[of "0x5000" "of_nat j"] u j by simp_all
  have pr: "print str 0 m = print_at (bytes_of str) 0 0 0x0F m" for m :: kernel by (simp add: print_def print_at_def)
  have "off_screen ?a" unfolding off_screen_def unat_sub_if' pg(2) using j by simp
  then have 1: "get_byte ?a (print str 0 (kern_of p)) = get_byte ?a (kern_of p)"
    unfolding pr using len by (intro print_at_frame(2)) simp_all
  have "syms (print str 0 (kern_of p)) = syms (kern_of p)"
    unfolding print_def put_bytes_run by (rule put_run_syms)
  then have "tables_off 0x5000 (print str 0 (kern_of p))" using off by (simp add: tables_off_def)
  from paging_init_page[OF this] have "get_byte ?a (paging_init (print str 0 (kern_of p))) = get_byte ?a (print str 0 (kern_of p))"
    by (intro get_byte_frames_cong) (simp only: pg(1))
  with 1 show ?thesis by simp
qed

lemma cons_on_kern [simp]: "cons (sys (brd (on_kern g p))) = cons (sys (brd p))"
  by (simp add: on_kern_def upd_kern_def)

lemma boot_screen:
  assumes off: "tables_off 0x5000 (kern_of p)"
  shows "fb_width (screen_of (boot_memory p)) = uint (le16 (mem_bytes 0 (kern_of p)) 0x5012)"
    "fb_height (screen_of (boot_memory p)) = uint (le16 (mem_bytes 0 (kern_of p)) 0x5014)"
proof -
  define k where "k = paging_init (print ''PHOBOS - 64-bit C Kernel'' 0 (kern_of p))"
  define f where "f = fb_init (mem_bytes 0 (k\<lparr>pm := pmm_init 0x200000 0x4000000 (pm k)\<rparr>)) (screen_of p)"
  have s: "\<exists>c. screen c = f \<and> screen_of (boot_memory p) = screen (console_init c)"
    by (rule exI[of _ "(cons (sys (brd p)))\<lparr>screen := f\<rparr>"]) (simp add: boot_memory_def Let_def upd_screen_def f_def k_def)
  have m: "same_mode f (screen_of (boot_memory p))"
  proof -
    obtain c where c: "screen c = f" "screen_of (boot_memory p) = screen (console_init c)" using s by blast
    define c1 where "c1 = fold (\<lambda>row. fold (\<lambda>col. put_char row col 32) [0..CONSOLE_COLS - 1]) [0..CONSOLE_ROWS - 1] c"
    have "mode_kept c c1" unfolding c1_def by (intro fold_kept put_char_kept)
    then have 1: "same_mode f (screen c1)" unfolding mode_kept_def c(1) .
    have "screen (console_init c) = fill_rect 0 0 (CONSOLE_COLS * uint (font_width default_font))
                       (CONSOLE_ROWS * uint (font_height default_font)) CONSOLE_BG (screen c1)"
      unfolding console_init_def console_clear_def Let_def c1_def[symmetric] by simp
    then show ?thesis unfolding c(2) using same_mode_trans[OF 1 fill_rect_mode] by simp
  qed
  have b: "get_byte (0x5000 + of_nat j) k = get_byte (0x5000 + of_nat j) (kern_of p)" if "j < 0x1000" for j
    unfolding k_def by (rule boot_memory_byte[OF off that]) simp
  have e: "mem_bytes 0 (k\<lparr>pm := q\<rparr>) (0x5000 + j) = mem_bytes 0 (kern_of p) (0x5000 + j)" if "j < 0x1000" for j q
  proof -
    have "get_byte a (k\<lparr>pm := q\<rparr>) = get_byte a k" for a by (rule get_byte_frames_cong) simp
    then show ?thesis using b[OF that] by (simp add: mem_bytes_def)
  qed
  have w: "le16 (mem_bytes 0 (k\<lparr>pm := q\<rparr>)) 0x5012 = le16 (mem_bytes 0 (kern_of p)) 0x5012" "le16 (mem_bytes 0 (k\<lparr>pm := q\<rparr>)) 0x5014 = le16 (mem_bytes 0 (kern_of p)) 0x5014" for q
    using e[of "0x12" q] e[of "0x13" q] e[of "0x14" q] e[of "0x15" q] by (simp_all add: le16_def)
  show "fb_width (screen_of (boot_memory p)) = uint (le16 (mem_bytes 0 (kern_of p)) 0x5012)"
    "fb_height (screen_of (boot_memory p)) = uint (le16 (mem_bytes 0 (kern_of p)) 0x5014)"
    using m w unfolding same_mode_def by (simp_all add: fb_width_def fb_height_def f_def fb_init_def)
qed

lemma boot_screen_kept:
  assumes "boot l hw p = Some (Done p')"
  shows "screen_of p' = screen_of (boot_memory p)"
proof -
  define p0 where "p0 = boot_tables l hw (boot_memory p)"
  obtain p2 p3 where d: "boot_devices l hw p0 = Done p2" and f: "boot_files p2 = Some p3" and p': "p' = on_kern (boot_tasks l) p3"
    using assms unfolding boot_def p0_def by (auto split: outcome.splits)
  have "screen_of p2 = screen_of p0"
    using d by (auto simp: boot_devices_def Let_def on_kern_def upd_kern_def split: outcome.splits prod.splits)
  moreover have "screen_of p3 = screen_of p2"
    using f by (auto simp: boot_files_def Let_def split_beta simp del: ensure_paths.simps split: if_splits)
  ultimately show ?thesis using boot_tables_spec(7)[of l hw "boot_memory p"] by (simp add: p' p0_def)
qed

section \<open>The steps of the kernel\<close>

text \<open>
  \<open>Woken\<close> is the code behind the wait of \<^verbatim>\<open>sched_waitpid\<close>; \<open>Entry\<close> the registers the system call entry saves.  \<open>Memory\<close> is what
  programs and devices do between the steps: they change memory and themselves, and none of the
  variables of the kernel.  Identifiers are not reused, and a task does not wait for itself.
\<close>

inductive kernel_step :: "'d board_hw \<Rightarrow> 'd board \<Rightarrow> 'd board \<Rightarrow> bool" for hw where
  Interrupt: "irq_handler hw n frame b = Some (Done (r, b')) \<Longrightarrow> kernel_step hw b b'"
| Fault: "isr_handler cr2 n (kern (sys b)) = (Task_killed, k') \<Longrightarrow> kernel_step hw b (upd_kern (\<lambda>_. k') b)"
| System_call: "syscall_handler num a1 a2 a3 a4 a5 (sys b) = Some (Done (v, s')) \<Longrightarrow> next_task_id (kern (sys b)) \<noteq> -1 \<Longrightarrow>
    (\<forall>c. num = 22 \<and> current (kern (sys b)) = Some c \<longrightarrow> ucast (task_id (tasks (kern (sys b)) c)) \<noteq> c_int_of a1) \<Longrightarrow>
    kernel_step hw b (b\<lparr>sys := s'\<rparr>)"
| Woken: "waitpid_resume child (kern (sys b)) = Some (Done (w, k')) \<Longrightarrow> current (kern (sys b)) \<noteq> Some child \<Longrightarrow>
    kernel_step hw b (upd_kern (\<lambda>_. k') b)"
| Spawn: "sched_spawn path args fds (l, sys b) = Some (Done (pid, l', s')) \<Longrightarrow> next_task_id (kern (sys b)) \<noteq> -1 \<Longrightarrow>
    kernel_step hw b (b\<lparr>sys := s'\<rparr>)"
| Entry: "kernel_step hw b (upd_kern (\<lambda>k. k\<lparr>user_ctx := u\<rparr>) b)"
| Memory: "machine.more k' = machine.more (kern (sys b)) \<Longrightarrow>
    kernel_step hw b (b\<lparr>sys := (sys b)\<lparr>kern := k', user_mem := m\<rparr>, devices := d\<rparr>)"

inductive_simps kernel_step_simps: "kernel_step hw b b'"

inductive kernel_reaches :: "link \<Rightarrow> 'd board_hw \<Rightarrow> 'd board \<Rightarrow> bool" for l hw where
  Boot: "boot l hw p = Some (Done p') \<Longrightarrow> small_screen (screen_of p') \<Longrightarrow> kernel_reaches l hw (brd p')"
| Step: "kernel_reaches l hw b \<Longrightarrow> kernel_step hw b b' \<Longrightarrow> kernel_reaches l hw b'"

lemma fault_keeps_inv:
  assumes inv: "sched_inv k" and f: "isr_handler cr2 n k = (Task_killed, k')"
  shows "sched_inv k'"
proof -
  obtain k1 where k1: "machine.more k1 = machine.more k" and run: "isr_handler cr2 n k =
      (if \<exists>t. current k = Some t \<and> is_user (tasks k t) then (Task_killed, sched_exit (-1) k1) else (Halted, k1))"
    using isr_handler_spec[of k cr2 n] unfolding screen_only_def by blast
  have "sched_inv k1" by (rule keeps_inv[OF keeps_more[OF k1] inv])
  moreover have "k' = sched_exit (-1) k1" using f run by (auto split: if_splits)
  ultimately show ?thesis using keeps_inv[OF sched_exit_keeps] by blast
qed

lemma kernel_step_inv: "kernel_step hw b b' \<Longrightarrow> board_inv b \<Longrightarrow> board_inv b'"
proof (induction rule: kernel_step.induct)
  case (Interrupt n frame b r b')
  then show ?case using irq_handler_ok[of b hw n frame] by auto
next
  case (Fault cr2 n b k')
  then have "sched_inv k'" using fault_keeps_inv by (auto simp: board_inv_def)
  with Fault show ?case by (simp add: board_inv_def upd_kern_def)
next
  case (System_call num a1 a2 a3 a4 a5 b v s')
  then have i: "sched_inv (kern (sys b))" "input_ok (sys b)" by (simp_all add: board_inv_alt)
  have "sched_inv (kern s')" by (rule syscall_sched_inv[OF i(1) System_call(2,3,1)])
  moreover have "input_ok s'" by (rule syscall_input_ok[OF i(2) System_call(1)])
  ultimately show ?case by (simp add: board_inv_alt)
next
  case (Woken child b w k')
  then have "sched_inv k'" using waitpid_resume_inv by (auto simp: board_inv_def)
  with Woken show ?case by (simp add: board_inv_def upd_kern_def)
next
  case (Spawn path args fds l b pid l' s')
  then have i: "sched_inv (kern (sys b))" "input_ok (sys b)" by (simp_all add: board_inv_alt)
  have "sched_inv (kern s')" by (rule sched_spawn_ok[OF i(1) Spawn(2,1), THEN conjunct1])
  moreover have "inputs s' = inputs (sys b)"
    using sched_spawn_mute[of "sys b" path args fds l, unfolded elf_mute_def, rule_format, OF Spawn(1)] .
  then have "input_ok s'" using input_ok_cong[of s' "sys b"] i(2) by simp
  ultimately show ?case by (simp add: board_inv_alt)
next
  case (Entry b u)
  have "keeps (kern (sys b)) ((kern (sys b))\<lparr>user_ctx := u\<rparr>)" by (simp add: keeps_def)
  then show ?case using Entry keeps_inv by (auto simp: board_inv_def upd_kern_def)
next
  case (Memory k' b m d)
  then show ?case using keeps_inv[OF keeps_more[OF Memory(1)]] by (simp add: board_inv_def)
qed


text \<open>The machine without devices starts, and its timer interrupt is served.\<close>

lemma cold_boot: "\<exists>p'. boot cold_link quiet_hw cold_pc = Some (Done p') \<and> small_screen (screen_of p')"
proof -
  obtain p' where p': "boot cold_link quiet_hw cold_pc = Some (Done p')" using cold_boots by blast
  have "0x123000 + of_nat n * 0x1000 \<noteq> (0x5000 :: u64)" if "n < 8" for n :: nat
  proof -
    from that have "n = 0 \<or> n = 1 \<or> n = 2 \<or> n = 3 \<or> n = 4 \<or> n = 5 \<or> n = 6 \<or> n = 7" by linarith
    then show ?thesis by (elim disjE) simp_all
  qed
  then have off: "tables_off 0x5000 (kern_of cold_pc)"
    unfolding tables_off_def pt_frame_def by (simp add: cold_pc_def sample_board_def sample_kernel_def)
  have "mem_bytes 0 (kern_of cold_pc) i = 0" for i
    by (simp add: mem_bytes_def get_byte_def get_qword_def byte_in_def cold_pc_def sample_board_def sample_kernel_def)
  then have "le16 (mem_bytes 0 (kern_of cold_pc)) i = 0" for i by (simp add: le16_def)
  then have "small_screen (screen_of p')"
    using boot_screen[OF off] boot_screen_kept[OF p'] by (simp add: small_screen_def)
  with p' show ?thesis by blast
qed


end
