(* ===== verification/Spec2Isabelle.thy ===== *)
theory Spec2Isabelle
  imports Address_Space Keyboard Mouse Console Syscall_Props Spawn_Props Libsys Ata Descriptors Uhci_Pool Uhci_Poll Kernel_Run
begin

text \<open>
  A verification development for the Phobos kernel, a 64-bit x86 kernel in C with user processes, a FAT32
  volume, a text console and PS/2 and USB input.

  \<^bold>\<open>The program and its parts.\<close>  The kernel is one address space of global variables, changed by three kinds
  of code.  \<^verbatim>\<open>kernel_main\<close> (\<^verbatim>\<open>kernel/kernel.c\<close>) brings everything up, in an order on which the parts rely, and turns
  interrupts on.  System calls (\<^verbatim>\<open>kernel/syscall.c\<close>) run on behalf of the current task and
  reach the scheduler, the file system, the console and the input queues.  Interrupts (\<^verbatim>\<open>kernel/isr.c\<close>) feed the
  input queues from the devices, and the timer switches tasks: it returns the saved frame
  of another task.  A C function that leaves its state in global variables is a definition that takes the record of
  those variables and returns it updated; a component whose code reaches further has a record that extends or
  contains the records of the components it calls:

  \<^item> \<open>pmm\<close> (the page bitmap) is a field of \<open>machine\<close> (physical memory as 512-quadword frames, \<^verbatim>\<open>CR3\<close>, the addresses of the
    bootstrap tables), which \<open>kernel\<close> (tasks, run queue, pipes, current task) extends;
  \<^item> \<open>fat32_fs\<close> and the disk are fields of the file system state \<open>fat\<close>, which \<open>volume\<close> extends;
  \<^item> \<open>system\<close> joins \<open>kernel\<close>, \<open>volume\<close>, \<open>keyboard\<close>, \<open>tty\<close>, \<open>mouse\<close>, \<open>console\<close> and the memory of the running program: the
    state of a system call;
  \<^item> \<open>board\<close> adds the USB driver and the devices behind the ports: the state of an interrupt; \<open>pc\<close> adds the processor
    tables: the state of \<^verbatim>\<open>kernel_main\<close>.

  \<^bold>\<open>Conventions.\<close>  Unsigned C integers are words of their width, so that arithmetic wraps as in C; a C
  \<^verbatim>\<open>int\<close> is a \<open>32 word\<close> read with \<open>sint\<close>.  \<open>'a outcome\<close> is \<open>Done\<close> of a value or \<open>Undef\<close>, undefined behaviour of C, wherever the
  code can leave a buffer or follow a null pointer.  \<open>None\<close> of a \<open>partial_function (option)\<close> is a loop that does not
  end.  Error codes are the values the code returns.  Devices are not part of the repository: the drivers take
  the \<open>ports\<close> of a device, and for the USB controller what it does to memory, as parameters.

  \<^bold>\<open>Memory.\<close>
  \<^item> \<open>Prelude\<close>: machine types, byte buffers, strings, generic lemmas.  \<open>Fifo\<close>: the locale \<open>bounded_fifo\<close>, the contract of a
    bounded queue, interpreted on the key events, the mouse events and the pipes.
  \<^item> \<open>Pmm\<close> (\<^verbatim>\<open>kernel/pmm.c\<close>): the bitmap allocator, an interpretation of the locale \<open>page_allocator\<close>: the lowest free page is
    handed out, and nothing else is marked.
  \<^item> \<open>Paging\<close> (\<^verbatim>\<open>kernel/paging.c\<close>): every operation on page tables.  \<open>Address_Space\<close>: a set of address spaces is well formed
    when no table is reached by two paths; mapping a page refines the update of a partial
    map from addresses to entries, and a new space is fresh.
  \<^item> \<open>Phys_Mem\<close>, \<open>Data_Pages\<close>: bytes of memory, and which pages mapping leaves alone.

  \<^bold>\<open>Tasks.\<close>
  \<^item> \<open>Task\<close>, \<open>Runq\<close>, \<open>Sched\<close> (\<^verbatim>\<open>kernel/sched.c\<close>, \<^verbatim>\<open>sched.h\<close>): the task table, descriptors, pipes, the circular queue linked
    through \<^verbatim>\<open>next\<close>, the tick, signals, exit, wait, fork.  Code that halts until an interrupt is split
    there: \<open>sched_waitpid\<close> and \<open>waitpid_resume\<close>.
  \<^item> \<open>Sched_Lemmas\<close>, \<open>Sched_Props\<close>, \<open>Signal_Fork\<close>: the invariant \<open>sched_inv\<close> (the queue is one ring of exactly the used slots, the
    current task is one of them, identifiers differ) and its preservation, the tick as round robin, the hand-over
    between exit and wait, delivery of signals, what a child inherits.
  \<^item> \<open>Elf\<close> (\<^verbatim>\<open>kernel/elf_loader.c\<close>), \<open>Elf_Load\<close>: the loader, and that it refines the image the file describes.
  \<^item> \<open>Spawn\<close>, \<open>Spawn_Stack\<close>, \<open>Spawn_Props\<close> (\<^verbatim>\<open>sched_spawn\<close>): a new process, the stack its \<^verbatim>\<open>main\<close> finds, and the frame conditions on all
    other tasks.

  \<^bold>\<open>Files.\<close>
  \<^item> \<open>Fat_Names\<close>, \<open>Fat_Table\<close>, \<open>Fat_Dir\<close>, \<open>Fat_File\<close>, \<open>Vfs\<close> (\<^verbatim>\<open>kernel/fs/fat32.c\<close>, \<^verbatim>\<open>vfs.c\<close>): every operation, with its buffers and
    its cache of nodes.
  \<^item> \<open>Fat_Chain\<close>, \<open>Fat_Lookup\<close>, \<open>Fat_Read\<close>, \<open>Fat_Write\<close>: the abstract view of a volume, as the successor function of its clusters and
    their contents; on chains that end every walk ends, lookups find the first match, reads answer the
    bytes of the file and writes replace exactly those written.
  \<^item> \<open>Ata\<close> (\<^verbatim>\<open>kernel/drivers/ata.c\<close>): on a drive as the standard describes it the driver implements the disk of \<open>Fat_Table\<close>.

  \<^bold>\<open>Terminal and devices.\<close>
  \<^item> \<open>Framebuffer\<close> (\<^verbatim>\<open>framebuffer.c\<close>, \<^verbatim>\<open>font.c\<close>), \<open>Console\<close> (\<^verbatim>\<open>console.c\<close>): pixels, glyphs, and the refinement of an
    abstract terminal of 25 rows and 80 columns.
  \<^item> \<open>Keyboard\<close> (\<^verbatim>\<open>keyboard.c\<close>, \<^verbatim>\<open>tty.c\<close>), \<open>Mouse\<close> (\<^verbatim>\<open>mouse.c\<close>): the scancode and packet state machines and their queues.
  \<^item> \<open>Pci\<close> (\<^verbatim>\<open>pci.c\<close>), \<open>Uhci\<close> (\<^verbatim>\<open>uhci.c\<close>): the search for the controller and the driver.  \<open>Uhci_Transfer\<close>, \<open>Uhci_Pool\<close>, \<open>Uhci_Poll\<close>,
    \<open>Uhci_Frame\<close>: the descriptors as the controller reads them, the bound on the pool, polling, and the frame condition on the rest of
    the kernel.
  \<^item> \<open>Ports\<close>, \<open>Descriptors\<close> (\<^verbatim>\<open>gdt.c\<close>, \<^verbatim>\<open>idt.c\<close>): segments, gates, interrupt controllers, timer.

  \<^bold>\<open>System calls and the whole kernel.\<close>
  \<^item> \<open>Syscall_Path\<close>, \<open>Syscall\<close> (\<^verbatim>\<open>kernel/syscall.c\<close>): every case of the handler.  \<open>Syscall_Safety\<close>: no call breaks \<open>sched_inv\<close> or changes
    what another task owns.  \<open>Syscall_Props\<close>: pipes, files through descriptors, the working directory.
  \<^item> \<open>Libsys\<close> (\<^verbatim>\<open>uapi/libsys.h\<close>, \<^verbatim>\<open>syscall_entry.asm\<close>): the wrappers of the user library have the effect of the calls they name.
  \<^item> \<open>Isr\<close>, \<open>Irq_Props\<close> (\<^verbatim>\<open>kernel/isr.c\<close>): faults are contained, every interrupt is served, Ctrl-C kills the foreground
    group.  \<open>Inputs\<close>: what system calls do to the input queues.
  \<^item> \<open>Kernel\<close>, \<open>Kernel_Props\<close> (\<^verbatim>\<open>kernel/kernel.c\<close>): the start.  \<open>Kernel_Run\<close>: the step relation \<open>kernel_step\<close> of interrupts, faults, system calls,
    wake-ups, new programs and memory accesses; every state reached from \<^verbatim>\<open>kernel_main\<close> is sound.

  \<^bold>\<open>Bounds and loops.\<close>  Counted loops of the code recurse on their counter.  The loops that may not end are
  \<open>partial_function\<close>s: walks along cluster chains, status polling of the drive, the walk of the tick along the
  queue, the wait for a key, a string without end.  That they return is proved, from a chain that ends, a drive
  that answers, or the ring of the invariant; no definition takes fuel.  Fixed sizes are those of the code: 64
  descriptors, 512 bytes per pipe, 64 events per queue of which 63 are used, eight bootstrap page tables.

  \<^bold>\<open>Not modelled.\<close>  The boot sector, the entry point, the saving of registers in \<^verbatim>\<open>isr.asm\<close> and the inline assembly that
  enters user mode: a task's registers are the frame the code saves.  User programs and the shell: a
  program is any sequence of system calls and changes of memory.  Page faults on addresses a program hands to the
  kernel: the handler checks no pointer, and user memory is a total map.  Translation caches.  Interrupts
  in the middle of a system call: \<^verbatim>\<open>syscall_entry.asm\<close> turns them on before it calls the handler, so a tick may come between any two
  statements of a call, and the model runs each call in one piece, up to the points where it
  halts.  What is proved of sequences of calls and interrupts is about sequences of whole calls.  In the code two
  calls that overlap share the buffers of the file system and the registers saved for \<^verbatim>\<open>fork\<close>.  A step that is
  a system call or a new program is
  taken while the counter of task identifiers has not reached its maximum, and a task does not wait for itself.
\<close>

end
